(* ===== verification/Prelude.thy ===== *)
theory Prelude
  imports Main "HOL-Library.Word" "HOL-Library.Monad_Syntax"
begin

unbundle bit_operations_syntax

text \<open>
  The vocabulary the component theories share.

  \<^item> C integer types.  The signed 64 and 128 bit integers of the SP code
    (\<open>sp_digit\<close>, \<open>sp_int128\<close>) are HOL integers with the two's complement
    wrap-around written out at every assignment (\<open>s64\<close>, \<open>s128\<close>, \<open>u64\<close>);
    \<open>>>\<close> on a signed value is \<open>sar\<close>, the arithmetic shift.
  \<^item> Memory.  A C buffer is a byte list whose length is its capacity; every
    access goes through a checked operation of the option monad, where \<open>None\<close>
    is an access out of bounds (undefined behaviour of the C program).
  \<^item> The collections \<open>wrap_simps\<close> and \<open>mem_simps\<close>, which carry the
    component proofs.
\<close>

section \<open>Machine integers\<close>

named_theorems wrap_simps "wrap-around functions that are the identity on their range"

definition s64 :: "int \<Rightarrow> int" where
  "s64 x = (x + 0x8000000000000000) mod 0x10000000000000000 - 0x8000000000000000"

definition u64 :: "int \<Rightarrow> int" where
  "u64 x = x mod 0x10000000000000000"

definition s128 :: "int \<Rightarrow> int" where
  "s128 x = (x + 0x80000000000000000000000000000000)
              mod 0x100000000000000000000000000000000 - 0x80000000000000000000000000000000"

definition sar :: "int \<Rightarrow> nat \<Rightarrow> int" where
  "sar x n = x div 2 ^ n"

lemma s64_id [wrap_simps]: "- (2 ^ 63) \<le> x \<Longrightarrow> x < 2 ^ 63 \<Longrightarrow> s64 x = x"
  by (simp add: s64_def)

lemma s128_id [wrap_simps]: "- (2 ^ 127) \<le> x \<Longrightarrow> x < 2 ^ 127 \<Longrightarrow> s128 x = x"
  by (simp add: s128_def)

lemma u64_id [wrap_simps]: "0 \<le> x \<Longrightarrow> x < 2 ^ 64 \<Longrightarrow> u64 x = x"
  by (simp add: u64_def)

lemma s64_range: "- (2 ^ 63) \<le> s64 x" "s64 x < 2 ^ 63"
  unfolding s64_def by simp_all

lemma div_less_of_less_mult:
  fixes v d q :: int
  assumes "0 < d" and "v < d * q"
  shows "v div d < q"
proof (rule ccontr)
  assume "\<not> v div d < q"
  then have "d * q \<le> d * (v div d)" using assms(1) by (intro mult_left_mono) simp_all
  also have "\<dots> = v - v mod d" by (simp add: minus_mod_eq_mult_div)
  finally show False using assms pos_mod_sign [of d v] by linarith
qed

lemma sar_and_mod: "2 ^ n * sar x n + x mod 2 ^ n = x"
  by (simp add: sar_def)

lemma and_mask_mod: "(x::int) AND (2 ^ n - 1) = x mod 2 ^ n"
  by (simp add: mask_eq_exp_minus_1 [symmetric] take_bit_eq_mask [symmetric] take_bit_eq_mod)

section \<open>Buffers\<close>

named_theorems mem_simps "checked memory operations whose bounds hold"

type_synonym byte = "8 word"
type_synonym size_t = "64 word"
type_synonym uint = "32 word"

lemma unat_ucast_64: "unat (ucast (n :: uint) :: size_t) = unat n"
  by (simp add: unsigned_ucast_eq take_bit_nat_eq_self order_less_trans [OF unsigned_less])

lemma unat_less_64: "unat (x :: size_t) < 2 ^ 64"
  by (rule order_less_le_trans [OF unsigned_less]) simp

text \<open>
  \<open>poke dst off xs\<close> writes \<open>xs\<close> at offset \<open>off\<close> of a buffer and \<open>peek src off n\<close>
  reads \<open>n\<close> elements from offset \<open>off\<close>; both are \<open>None\<close> when they leave the
  buffer.  \<^verbatim>\<open>memcpy(d + o, s + p, n)\<close> is a \<open>peek\<close> followed by a \<open>poke\<close> and
  \<^verbatim>\<open>memset(d + o, 0, n)\<close> is a \<open>poke\<close>.
\<close>

definition peek :: "'a list \<Rightarrow> nat \<Rightarrow> nat \<Rightarrow> 'a list option" where
  "peek src off n = (if off + n \<le> length src then Some (take n (drop off src)) else None)"

definition poke :: "'a list \<Rightarrow> nat \<Rightarrow> 'a list \<Rightarrow> 'a list option" where
  "poke dst off xs =
     (if off + length xs \<le> length dst then Some (take off dst @ xs @ drop (off + length xs) dst) else None)"

definition memcpy_at :: "'a list \<Rightarrow> nat \<Rightarrow> 'a list \<Rightarrow> nat \<Rightarrow> nat \<Rightarrow> 'a list option" where
  "memcpy_at dst off src soff n = peek src soff n \<bind> poke dst off"

lemma peek_Some [mem_simps]: "off + n \<le> length src \<Longrightarrow> peek src off n = Some (take n (drop off src))"
  by (simp add: peek_def)

lemma poke_Some [mem_simps]:
  "off + length xs \<le> length dst \<Longrightarrow> poke dst off xs = Some (take off dst @ xs @ drop (off + length xs) dst)"
  by (simp add: poke_def)

lemma poke_length: "poke dst off xs = Some dst' \<Longrightarrow> length dst' = length dst"
  by (auto simp: poke_def split: if_splits)

lemma memcpy_at_Some [mem_simps]:
  "off + n \<le> length dst \<Longrightarrow> soff + n \<le> length src \<Longrightarrow>
     memcpy_at dst off src soff n = Some (take off dst @ take n (drop soff src) @ drop (off + n) dst)"
  by (simp add: memcpy_at_def peek_def poke_def)

lemma memcpy_at_None: "length dst < off + n \<Longrightarrow> memcpy_at dst off src soff n = None"
  by (auto simp: memcpy_at_def peek_def poke_def bind_eq_None_conv)

end
