(* ===== verification/SpDigits.thy ===== *)
theory SpDigits
  imports Prelude
begin

text \<open>
  Multi-digit integers of the SP code, for any digit width: a number is a list
  of signed digits, least significant first, that need not be normalised.
  \<open>lval b xs\<close> is the integer a digit list stands for and \<open>digs b n v\<close> the
  normalised list of \<open>n\<close> digits for \<open>v\<close> (every digit but the last in
  \<open>[0, 2^b)\<close>).  The two loops every SP function is made of, carry
  propagation in place (\<open>norm_digits\<close>) and the carry chain of a product
  (\<open>carry_chain\<close>), are shown equal to \<open>digs\<close> of the value as long as no
  digit overflows its machine type.
\<close>

section \<open>Values and canonical digits\<close>

fun lval :: "nat \<Rightarrow> int list \<Rightarrow> int" where
  "lval b [] = 0"
| "lval b (x # xs) = x + 2 ^ b * lval b xs"

fun digs :: "nat \<Rightarrow> nat \<Rightarrow> int \<Rightarrow> int list" where
  "digs b 0 v = []"
| "digs b (Suc 0) v = [v]"
| "digs b (Suc (Suc n)) v = v mod 2 ^ b # digs b (Suc n) (v div 2 ^ b)"

lemma length_digs [simp]: "length (digs b n v) = n"
  by (induction b n v rule: digs.induct) simp_all

lemma lval_digs [simp]: "0 < n \<Longrightarrow> lval b (digs b n v) = v"
  by (induction b n v rule: digs.induct) simp_all

lemma lval_append: "lval b (xs @ ys) = lval b xs + 2 ^ (b * length xs) * lval b ys"
  by (induction xs) (simp_all add: algebra_simps power_add)

lemma lval_replicate_0 [simp]: "lval b (replicate n 0) = 0"
  by (induction n) simp_all

lemma lval_map2_add:
  "length xs = length ys \<Longrightarrow> lval b (map2 (+) xs ys) = lval b xs + lval b ys"
  by (induction xs ys rule: list_induct2) (simp_all add: algebra_simps)

lemma lval_map2_diff:
  "length xs = length ys \<Longrightarrow> lval b (map2 (-) xs ys) = lval b xs - lval b ys"
  by (induction xs ys rule: list_induct2) (simp_all add: right_diff_distrib)

lemma digs_carry:
  "digs b (Suc (Suc n)) (t + 2 ^ b * w) = t mod 2 ^ b # digs b (Suc n) (w + t div 2 ^ b)"
  by (simp add: algebra_simps)

text \<open>The digits of a normalised list: the last one is the quotient, the others are reduced.\<close>

lemma digs_nth:
  "i < n \<Longrightarrow> digs b n v ! i =
     (if Suc i = n then v div 2 ^ (b * i) else v div 2 ^ (b * i) mod 2 ^ b)"
proof (induction b n v arbitrary: i rule: digs.induct)
  case (3 b n v)
  show ?case
  proof (cases i)
    case (Suc j)
    have "v div 2 ^ b div 2 ^ (b * j) = v div 2 ^ (b + b * j)" for j
      by (simp add: power_add zdiv_zmult2_eq)
    with 3 Suc show ?thesis by simp
  qed simp
qed auto

lemma digs_last: "0 < n \<Longrightarrow> digs b n v ! (n - 1) = v div 2 ^ (b * (n - 1))"
  by (simp add: digs_nth)

lemma drop_digs: "k < n \<Longrightarrow> drop k (digs b n v) = digs b (n - k) (v div 2 ^ (b * k))"
proof (induction b n v arbitrary: k rule: digs.induct)
  case (3 b n v)
  have "v div 2 ^ b div 2 ^ (b * j) = v div 2 ^ (b + b * j)" for j
    by (simp add: power_add zdiv_zmult2_eq)
  with 3 show ?case by (cases k) simp_all
qed simp_all

lemma digs_Suc: "0 < n \<Longrightarrow> digs b (Suc n) v = v mod 2 ^ b # digs b n (v div 2 ^ b)"
  by (cases n) simp_all

text \<open>A number that fits in the lower digits has a zero top digit.\<close>

lemma digs_snoc_0:
  "0 \<le> v \<Longrightarrow> v < 2 ^ (b * n) \<Longrightarrow> 0 < n \<Longrightarrow> digs b (Suc n) v = digs b n v @ [0]"
proof (induction b n v rule: digs.induct)
  case (3 b n v)
  have "v div 2 ^ b < 2 ^ (b * Suc n)"
    using 3 by (intro div_less_of_less_mult) (simp_all add: power_add)
  with 3 show ?case by (simp add: pos_imp_zdiv_nonneg_iff)
qed simp_all

definition digits_in :: "int \<Rightarrow> int \<Rightarrow> int list \<Rightarrow> bool" where
  "digits_in lo hi xs \<longleftrightarrow> (\<forall>x\<in>set xs. lo \<le> x \<and> x < hi)"

lemma digits_in_simps [simp]:
  "digits_in lo hi []"
  "digits_in lo hi (x # xs) \<longleftrightarrow> lo \<le> x \<and> x < hi \<and> digits_in lo hi xs"
  "digits_in lo hi (xs @ ys) \<longleftrightarrow> digits_in lo hi xs \<and> digits_in lo hi ys"
  by (auto simp: digits_in_def)

lemma digits_in_mono:
  "digits_in lo hi xs \<Longrightarrow> lo' \<le> lo \<Longrightarrow> hi \<le> hi' \<Longrightarrow> digits_in lo' hi' xs"
  by (force simp: digits_in_def)

lemma digits_in_take: "digits_in lo hi xs \<Longrightarrow> digits_in lo hi (take n xs)"
  by (auto simp: digits_in_def dest: in_set_takeD)

lemma digits_in_drop: "digits_in lo hi xs \<Longrightarrow> digits_in lo hi (drop n xs)"
  by (auto simp: digits_in_def dest: in_set_dropD)

lemma digits_in_nth: "digits_in lo hi xs \<Longrightarrow> i < length xs \<Longrightarrow> lo \<le> xs ! i \<and> xs ! i < hi"
  by (simp add: digits_in_def)

lemma digs_digits_in:
  assumes "0 \<le> v" and "v < 2 ^ (b * n)"
  shows "digits_in 0 (2 ^ b) (digs b n v)"
  using assms
proof (induction b n v rule: digs.induct)
  case (3 b n v)
  have "v div 2 ^ b < 2 ^ (b * Suc n)"
    using 3 by (intro div_less_of_less_mult) (simp_all add: power_add)
  with 3 show ?case by (simp add: pos_imp_zdiv_nonneg_iff)
qed (simp_all add: digits_in_def)

text \<open>A list of reduced digits is its own normal form.\<close>

lemma digs_lval:
  assumes "xs \<noteq> []" and "digits_in 0 (2 ^ b) (butlast xs)"
  shows "digs b (length xs) (lval b xs) = xs"
  using assms
proof (induction xs)
  case IH: (Cons x xs)
  show ?case
  proof (cases xs)
    case (Cons y ys)
    with IH.prems have "0 \<le> x" "x < 2 ^ b"
      and "digits_in 0 (2 ^ b) (butlast xs)" by simp_all
    with Cons IH.IH show ?thesis by simp
  qed simp
qed simp

lemma lval_nonneg: "digits_in 0 hi xs \<Longrightarrow> 0 \<le> lval b xs"
  by (induction xs) simp_all

lemma lval_upper:
  assumes "digits_in 0 (2 ^ b) xs"
  shows "lval b xs < 2 ^ (b * length xs)"
  using assms
proof (induction xs)
  case (Cons x xs)
  then have "lval b xs \<le> 2 ^ (b * length xs) - 1" and "x < 2 ^ b" by simp_all
  then have "x + 2 ^ b * lval b xs < 2 ^ b + 2 ^ b * (2 ^ (b * length xs) - 1)"
    by (intro add_less_le_mono mult_left_mono) simp_all
  then show ?case by (simp add: algebra_simps power_add)
qed simp

section \<open>Bit fields of a number\<close>

lemma mod_div_pow: "(v :: int) mod 2 ^ (m + n) div 2 ^ m = v div 2 ^ m mod 2 ^ n"
proof -
  have "v mod 2 ^ (m + n) = 2 ^ m * (v div 2 ^ m mod 2 ^ n) + v mod 2 ^ m"
    by (simp add: power_add zmod_zmult2_eq)
  then show ?thesis by simp
qed

lemma div_div_pow: "(v :: int) div 2 ^ m div 2 ^ n = v div 2 ^ (m + n)"
  by (simp add: power_add zdiv_zmult2_eq)

lemma mod_mod_pow: "m \<le> n \<Longrightarrow> (v :: int) mod 2 ^ n mod 2 ^ m = v mod 2 ^ m"
  by (simp add: mod_mod_cancel le_imp_power_dvd)

text \<open>Low digits do not see the reduction modulo a higher power of two.\<close>

lemma mod_div_mod_pow:
  assumes "m + n \<le> k"
  shows "(v :: int) mod 2 ^ k div 2 ^ m mod 2 ^ n = v div 2 ^ m mod 2 ^ n"
proof -
  have "v mod 2 ^ k div 2 ^ m mod 2 ^ n = v mod 2 ^ k mod 2 ^ (m + n) div 2 ^ m"
    by (simp only: mod_div_pow)
  also have "\<dots> = v div 2 ^ m mod 2 ^ n"
    by (simp only: mod_mod_pow [OF assms] mod_div_pow)
  finally show ?thesis .
qed

section \<open>Carry propagation\<close>

text \<open>
  \<open>norm_digits\<close> is the statement pair
  \<^verbatim>\<open>a[i+1] += a[i] >> b; a[i] &= mask;\<close>
  for every \<open>i\<close> in increasing order, the body of the \<open>sp_*_norm_*\<close> functions.
\<close>

fun norm_digits :: "nat \<Rightarrow> int list \<Rightarrow> int list" where
  "norm_digits b (a0 # a1 # as) =
     (a0 AND (2 ^ b - 1)) # norm_digits b (s64 (a1 + sar a0 b) # as)"
| "norm_digits b as = as"

lemma length_norm_digits [simp]: "length (norm_digits b xs) = length xs"
  by (induction b xs rule: norm_digits.induct) simp_all

lemma sar_bounds:
  assumes "- (2 ^ (m + n)) \<le> x" and "x < 2 ^ (m + n)"
  shows "- (2 ^ m) \<le> sar x n" and "sar x n < 2 ^ m"
proof -
  have "- (2 ^ m) = (- (2 ^ m) * 2 ^ n) div (2 ^ n :: int)"
    by (rule nonzero_mult_div_cancel_right [symmetric]) simp
  also have "\<dots> \<le> x div 2 ^ n" using assms by (intro zdiv_mono1) (simp_all add: power_add)
  finally show "- (2 ^ m) \<le> sar x n" by (simp add: sar_def)
  show "sar x n < 2 ^ m"
    using assms by (simp add: sar_def div_less_of_less_mult power_add mult.commute)
qed

lemma sar_small:
  assumes "2 \<le> b" and "- (2 ^ 63) \<le> x" and "x < 2 ^ 63"
  shows "- (2 ^ 61) \<le> sar x b" and "sar x b < 2 ^ 61"
proof -
  have le: "(2 :: int) ^ 63 \<le> 2 ^ (61 + b)"
    using assms(1) by (intro power_increasing) simp_all
  show "- (2 ^ 61) \<le> sar x b"
    by (rule sar_bounds(1)) (use assms le in linarith)+
  show "sar x b < 2 ^ 61"
    by (rule sar_bounds(2)) (use assms le in linarith)+
qed

lemma norm_digits_digs:
  assumes "2 \<le> b" and "xs \<noteq> []"
    and "- (2 ^ 63) \<le> hd xs" and "hd xs < 2 ^ 63"
    and "digits_in (- (2 ^ 62)) (2 ^ 62) (tl xs)"
  shows "norm_digits b xs = digs b (length xs) (lval b xs)"
  using assms
proof (induction b xs rule: norm_digits.induct)
  case (1 b a0 a1 as)
  have "- (2 ^ 63) \<le> a0" "a0 < 2 ^ 63" using "1.prems" by (simp_all only: list.sel)
  then have q: "- (2 ^ 61) \<le> sar a0 b" "sar a0 b < 2 ^ 61"
    using "1.prems"(1) by (simp_all only: sar_small not_False_eq_True)
  with 1 have w: "s64 (a1 + sar a0 b) = a1 + sar a0 b"
    by (intro s64_id) simp_all
  have "norm_digits b (s64 (a1 + sar a0 b) # as)
      = digs b (Suc (length as)) (lval b (s64 (a1 + sar a0 b) # as))"
    using 1 q w by simp
  also have "lval b (s64 (a1 + sar a0 b) # as) = lval b (a1 # as) + a0 div 2 ^ b"
    by (simp only: w) (simp add: sar_def)
  finally show ?case
    by (simp only: norm_digits.simps lval.simps list.size digs_carry and_mask_mod
        add_Suc_right add_0_right)
qed simp_all

lemma s64_and_mask: "n \<le> 64 \<Longrightarrow> s64 x AND (2 ^ n - 1) = x mod 2 ^ n"
proof -
  assume n: "n \<le> 64"
  have "s64 x mod 2 ^ 64 = x mod 2 ^ 64" by (simp add: s64_def mod_diff_left_eq)
  then have "s64 x mod 2 ^ 64 mod 2 ^ n = x mod 2 ^ 64 mod 2 ^ n" by (simp only:)
  then show ?thesis by (simp only: and_mask_mod mod_mod_pow [OF n])
qed

text \<open>
  \<open>carry_chain b t us\<close> is the tail of an unrolled product: from the column sums
  \<open>t, us\<close> (128-bit), the repeated statement pair
  \<^verbatim>\<open>r[k] = (sp_digit)(t0 & mask); t1 += t0 >> b;\<close>
  and for the last column the two digits \<^verbatim>\<open>t & mask\<close> and \<^verbatim>\<open>t >> b\<close>.
\<close>

fun carry_chain :: "nat \<Rightarrow> int \<Rightarrow> int list \<Rightarrow> int list" where
  "carry_chain b t [] = [s64 (t AND (2 ^ b - 1)), s64 (sar t b)]"
| "carry_chain b t (u # us) =
     s64 (t AND (2 ^ b - 1)) # carry_chain b (s128 (u + sar t b)) us"

lemma s64_mod: "b \<le> 63 \<Longrightarrow> s64 (t mod 2 ^ b) = t mod 2 ^ b"
proof (rule s64_id)
  assume "b \<le> 63"
  then have "(2 :: int) ^ b \<le> 2 ^ 63" by (intro power_increasing) simp_all
  moreover have "t mod 2 ^ b < 2 ^ b" by simp
  ultimately show "t mod 2 ^ b < 2 ^ 63" by linarith
  show "- (2 ^ 63) \<le> t mod 2 ^ b" by (rule order_trans [of _ 0]) simp_all
qed

lemma carry_chain_digs:
  assumes "2 \<le> b" and "b \<le> 63" and "0 \<le> t" and "t < 2 ^ 127"
    and "digits_in 0 (2 ^ 126) us"
    and "lval b (t # us) < 2 ^ (b * Suc (length us) + 63)"
  shows "carry_chain b t us = digs b (length us + 2) (lval b (t # us))"
  using assms
proof (induction b t us rule: carry_chain.induct)
  case (1 b t)
  have "sar t b < 2 ^ 63"
    using 1 by (simp add: sar_def div_less_of_less_mult power_add)
  moreover have "0 \<le> sar t b" using 1 by (simp add: sar_def pos_imp_zdiv_nonneg_iff)
  ultimately have "s64 (sar t b) = sar t b" by (intro s64_id) linarith+
  with 1 show ?case
    by (simp add: and_mask_mod s64_mod numeral_2_eq_2) (simp add: sar_def)
next
  case (2 b t u us)
  have "(2 :: int) ^ 127 \<le> 2 ^ (125 + b)"
    using 2(2) by (intro power_increasing) simp_all
  then have "sar t b < 2 ^ 125"
    using 2 by (intro sar_bounds) linarith+
  moreover have "0 \<le> sar t b" using 2 by (simp add: sar_def pos_imp_zdiv_nonneg_iff)
  ultimately have q: "0 \<le> u + sar t b" "u + sar t b < 2 ^ 127" using 2 by simp_all
  then have w: "s128 (u + sar t b) = u + sar t b" by (intro s128_id) linarith+
  have v: "lval b (t # u # us) div 2 ^ b = lval b ((u + sar t b) # us)"
    by (simp add: sar_def)
  have "(2 :: int) ^ (b * Suc (length (u # us)) + 63) = 2 ^ b * 2 ^ (b * Suc (length us) + 63)"
    by (simp only: power_add [symmetric]) simp
  with "2.prems"(6) have "lval b (t # u # us) < 2 ^ b * 2 ^ (b * Suc (length us) + 63)"
    by (simp only:)
  then have "lval b (t # u # us) div 2 ^ b < 2 ^ (b * Suc (length us) + 63)"
    by (intro div_less_of_less_mult) simp_all
  then have "lval b ((u + sar t b) # us) < 2 ^ (b * Suc (length us) + 63)"
    by (simp only: v)
  with 2 q w have "carry_chain b (s128 (u + sar t b)) us
      = digs b (length us + 2) (lval b ((u + sar t b) # us))"
    by simp
  moreover have "digs b (length (u # us) + 2) w = w mod 2 ^ b # digs b (length us + 2) (w div 2 ^ b)" for w
    by simp
  moreover have "lval b (t # u # us) mod 2 ^ b = t mod 2 ^ b" by simp
  ultimately show ?case
    using "2.prems"(2) by (simp only: carry_chain.simps v and_mask_mod s64_mod)
qed

text \<open>
  \<open>split_cols b ts\<close> is the carry-free form the scalar products use:
  \<^verbatim>\<open>r[k] = (t[k-1] >> b) + (t[k] & mask)\<close>,
  one digit more than \<open>ts\<close>.
\<close>

definition split_cols :: "nat \<Rightarrow> int list \<Rightarrow> int list" where
  "split_cols b ts =
     map2 (\<lambda>h l. s64 (h + l)) (0 # map (\<lambda>t. sar t b) ts)
       (map (\<lambda>t. t AND (2 ^ b - 1)) ts @ [0])"

lemma length_split_cols [simp]: "length (split_cols b ts) = Suc (length ts)"
  by (simp add: split_cols_def)

lemma lval_split_cols_exact:
  "lval b (map2 (+) (0 # map (\<lambda>t. t div 2 ^ b) ts) (map (\<lambda>t. t mod 2 ^ b) ts @ [0])) = lval b ts"
proof -
  have "lval b (map (\<lambda>t. t mod 2 ^ b) ts) + 2 ^ b * lval b (map (\<lambda>t. t div 2 ^ b) ts) = lval b ts"
  proof (induction ts)
    case (Cons t ts)
    then have "2 ^ b * (lval b (map (\<lambda>t. t mod 2 ^ b) ts) + 2 ^ b * lval b (map (\<lambda>t. t div 2 ^ b) ts))
        = 2 ^ b * lval b ts" by simp
    then show ?case by (simp add: distrib_left)
  qed simp
  then show ?thesis
    by (subst lval_map2_add) (simp_all add: lval_append)
qed

lemma split_cols_exact:
  assumes "1 \<le> b" and "b \<le> 62" and "digits_in (- (2 ^ (62 + b))) (2 ^ (62 + b)) ts"
  shows "split_cols b ts =
      map2 (+) (0 # map (\<lambda>t. t div 2 ^ b) ts) (map (\<lambda>t. t mod 2 ^ b) ts @ [0])"
proof -
  have hi: "digits_in (- (2 ^ 62)) (2 ^ 62) (0 # map (\<lambda>t. t div 2 ^ b) ts)"
    using assms(3) sar_bounds [of 62 b] by (auto simp: digits_in_def sar_def)
  have "(2 :: int) ^ b \<le> 2 ^ 62" using assms(2) by (intro power_increasing) simp_all
  then have lo: "digits_in 0 (2 ^ 62) (map (\<lambda>t. t mod 2 ^ b) ts @ [0])"
    by (auto simp: digits_in_def intro: less_le_trans [OF pos_mod_bound])
  have "s64 (h + l) = h + l"
    if "(h, l) \<in> set (zip (0 # map (\<lambda>t. t div 2 ^ b) ts) (map (\<lambda>t. t mod 2 ^ b) ts @ [0]))" for h l
  proof -
    have "h \<in> set (0 # map (\<lambda>t. t div 2 ^ b) ts)" "l \<in> set (map (\<lambda>t. t mod 2 ^ b) ts @ [0])"
      using that by (blast dest: set_zip_leftD set_zip_rightD)+
    with hi lo have "- (2 ^ 62) \<le> h" "h < 2 ^ 62" "0 \<le> l" "l < 2 ^ 62"
      unfolding digits_in_def by blast+
    then show ?thesis by (intro s64_id) simp_all
  qed
  then show ?thesis
    unfolding split_cols_def by (auto simp: and_mask_mod sar_def)
qed

lemma lval_split_cols:
  assumes "1 \<le> b" and "b \<le> 62" and "digits_in (- (2 ^ (62 + b))) (2 ^ (62 + b)) ts"
  shows "lval b (split_cols b ts) = lval b ts"
  by (simp only: split_cols_exact [OF assms] lval_split_cols_exact)

section \<open>Digit-wise operations\<close>

text \<open>
  \<open>map2_s64 f\<close> is \<^verbatim>\<open>r[i] = f(a[i], b[i])\<close> for every digit;
  the masked forms select with an all-ones or all-zero mask.
\<close>

definition map2_s64 :: "(int \<Rightarrow> int \<Rightarrow> int) \<Rightarrow> int list \<Rightarrow> int list \<Rightarrow> int list" where
  "map2_s64 f xs ys = map2 (\<lambda>x y. s64 (f x y)) xs ys"

lemma length_map2_s64 [simp]: "length (map2_s64 f xs ys) = min (length xs) (length ys)"
  by (simp add: map2_s64_def)

lemma map2_s64_exact:
  assumes "\<And>x y. (x, y) \<in> set (zip xs ys) \<Longrightarrow> - (2 ^ 63) \<le> f x y \<and> f x y < 2 ^ 63"
  shows "map2_s64 f xs ys = map2 f xs ys"
  using assms unfolding map2_s64_def by (auto intro!: s64_id)

lemma map2_s64_add:
  assumes "digits_in (- (2 ^ 62)) (2 ^ 62) xs" and "digits_in (- (2 ^ 62)) (2 ^ 62) ys"
  shows "map2_s64 (+) xs ys = map2 (+) xs ys"
proof (rule map2_s64_exact)
  fix x y assume "(x, y) \<in> set (zip xs ys)"
  then have "x \<in> set xs" "y \<in> set ys" by (auto dest: set_zip_leftD set_zip_rightD)
  with assms show "- (2 ^ 63) \<le> x + y \<and> x + y < 2 ^ 63" by (force simp: digits_in_def)
qed

lemma map2_s64_diff:
  assumes "digits_in (- (2 ^ 62)) (2 ^ 62) xs" and "digits_in (- (2 ^ 62)) (2 ^ 62) ys"
  shows "map2_s64 (-) xs ys = map2 (-) xs ys"
proof (rule map2_s64_exact)
  fix x y assume "(x, y) \<in> set (zip xs ys)"
  then have "x \<in> set xs" "y \<in> set ys" by (auto dest: set_zip_leftD set_zip_rightD)
  with assms show "- (2 ^ 63) \<le> x - y \<and> x - y < 2 ^ 63" by (force simp: digits_in_def)
qed

lemma digits_in_map2_add:
  "digits_in l h xs \<Longrightarrow> digits_in l' h' ys \<Longrightarrow> digits_in (l + l') (h + h') (map2 (+) xs ys)"
  by (induction xs ys rule: list_induct2') (auto intro: add_mono add_strict_mono)

lemma digits_in_map2_diff:
  "digits_in l h xs \<Longrightarrow> digits_in l' h' ys \<Longrightarrow> digits_in (l - h') (h - l') (map2 (-) xs ys)"
  by (induction xs ys rule: list_induct2') auto

lemma or_bit_add:
  fixes h c :: int
  assumes "0 \<le> h" "h < 2 ^ n"
  shows "h OR 2 ^ n * c = h + 2 ^ n * c"
proof -
  have "take_bit n h = h" using assms by (simp add: take_bit_int_eq_self_iff)
  then show ?thesis
    using concat_bit_eq [of n h c] concat_bit_def [of n h c] by (simp add: push_bit_eq_mult mult.commute)
qed

text \<open>Selecting with a mask that is all ones or zero.\<close>

lemma and_select [simp]: "(y :: int) AND (if c then - 1 else 0) = (if c then y else 0)"
  by simp

lemma over_mask:
  assumes "0 \<le> over" and "over < 2 ^ 62"
  shows "NOT (sar (s64 (over - 1)) 63) = (if 0 < over then - 1 else 0)"
proof (cases "0 < over")
  case True
  with assms have "s64 (over - 1) = over - 1" by (intro s64_id) simp_all
  with True assms show ?thesis by (simp add: sar_def)
next
  case False
  with assms have "over = 0" by simp
  then show ?thesis by (simp add: s64_def sar_def)
qed

text \<open>
  Constant-time comparison from the most significant digit down:
  \<^verbatim>\<open>r |= (a[i] - b[i]) & ~((0 - r) >> sh)\<close>.
\<close>

definition cmp_step :: "nat \<Rightarrow> int \<Rightarrow> int \<times> int \<Rightarrow> int" where
  "cmp_step sh r xy = r OR (s64 (fst xy - snd xy) AND NOT (sar (s64 (0 - r)) sh))"

definition cmp_digits :: "nat \<Rightarrow> int list \<Rightarrow> int list \<Rightarrow> int" where
  "cmp_digits sh xs ys = foldl (cmp_step sh) 0 (rev (zip xs ys))"

lemma cmp_digits_Cons [simp]:
  "cmp_digits sh [] ys = 0"
  "cmp_digits sh (x # xs) (y # ys) = cmp_step sh (cmp_digits sh xs ys) (x, y)"
  by (simp_all add: cmp_digits_def)

lemma or_range:
  fixes k l :: int
  assumes "- (2 ^ n) \<le> k" "k < 2 ^ n" "- (2 ^ n) \<le> l" "l < 2 ^ n"
  shows "- (2 ^ n) \<le> k OR l \<and> k OR l < 2 ^ n"
proof -
  have "signed_take_bit n k = k" "signed_take_bit n l = l"
    using assms by (simp_all add: signed_take_bit_int_eq_self_iff)
  moreover have "signed_take_bit n (k OR l) = signed_take_bit n k OR signed_take_bit n l"
    by (rule bit_eqI) (simp add: bit_signed_take_bit_iff bit_or_iff)
  ultimately have "signed_take_bit n (k OR l) = k OR l" by (simp only:)
  then show ?thesis by (simp add: signed_take_bit_int_eq_self_iff)
qed

lemma and_range:
  fixes k l :: int
  assumes "- (2 ^ n) \<le> k" "k < 2 ^ n" "- (2 ^ n) \<le> l" "l < 2 ^ n"
  shows "- (2 ^ n) \<le> k AND l \<and> k AND l < 2 ^ n"
proof -
  have "signed_take_bit n k = k" "signed_take_bit n l = l"
    using assms by (simp_all add: signed_take_bit_int_eq_self_iff)
  moreover have "signed_take_bit n (k AND l) = signed_take_bit n k AND signed_take_bit n l"
    by (rule bit_eqI) (simp add: bit_signed_take_bit_iff bit_and_iff)
  ultimately have "signed_take_bit n (k AND l) = k AND l" by (simp only:)
  then show ?thesis by (simp add: signed_take_bit_int_eq_self_iff)
qed

lemma cmp_step_sgn:
  assumes "2 \<le> b" "b \<le> 60" and r: "- (2 ^ b) \<le> r" "r < 2 ^ b"
    and x: "0 \<le> x" "x < 2 ^ b" and y: "0 \<le> y" "y < 2 ^ b"
  shows "sgn (cmp_step (b - 1) r (x, y)) = (if r = 0 then sgn (x - y) else sgn r)"
    and "- (2 ^ b) \<le> cmp_step (b - 1) r (x, y)" and "cmp_step (b - 1) r (x, y) < 2 ^ b"
proof -
  have le: "(2 :: int) ^ b \<le> 2 ^ 60" using assms by (intro power_increasing) simp_all
  have xy: "s64 (x - y) = x - y" by (rule s64_id) (use x y le in simp_all)
  have mr: "s64 (0 - r) = - r" using r le by (subst s64_id) simp_all
  define m where "m = NOT (sar (- r) (b - 1))"
  have step: "cmp_step (b - 1) r (x, y) = r OR ((x - y) AND m)"
    by (simp only: cmp_step_def fst_conv snd_conv xy mr m_def)
  have b: "(2 :: int) ^ (1 + (b - 1)) = 2 ^ b" and b': "(2 :: int) ^ (2 + (b - 1)) = 2 * 2 ^ b"
    using \<open>2 \<le> b\<close> by (simp_all add: power_eq_if)
  have m: "m = - 1 \<or> m = 0 \<or> m = 1" if "0 \<le> r"
  proof -
    have "- (2 ^ 1) \<le> sar (- r) (b - 1)"
      by (rule sar_bounds(1)) (simp_all only: b, use r that in simp_all)
    moreover have "sar (- r) (b - 1) \<le> 0"
      using that by (simp add: sar_def div_nonpos_pos_le0)
    ultimately have "sar (- r) (b - 1) \<in> {- 2, - 1, 0}" by auto
    then show ?thesis by (auto simp: m_def)
  qed
  have m0: "m = - 1" if "r = 0" using that by (simp add: m_def sar_def)
  have mpos: "m \<noteq> - 1" if "0 < r"
  proof -
    have "sar (- r) (b - 1) < 0" 
      unfolding sar_def by (intro div_neg_pos_less0) (use that in simp_all)
    then show ?thesis by (auto simp: m_def not_int_def)
  qed
  show "sgn (cmp_step (b - 1) r (x, y)) = (if r = 0 then sgn (x - y) else sgn r)"
  proof (cases r "0 :: int" rule: linorder_cases)
    case less
    then have "r OR ((x - y) AND m) < 0" by (simp add: or_negative_int_iff)
    with less show ?thesis unfolding step by simp
  next
    case equal
    with m0 show ?thesis unfolding step by simp
  next
    case greater
    then have "0 \<le> (x - y) AND m" using m mpos by auto
    then have "r \<le> r OR ((x - y) AND m)" by (rule or_greater_eq)
    with greater have "0 < r OR ((x - y) AND m)" by linarith
    with greater show ?thesis unfolding step by simp
  qed
  have mb: "- (2 ^ b) \<le> m" "m < 2 ^ b"
  proof -
    have "- (2 ^ 2) \<le> sar (- r) (b - 1)" "sar (- r) (b - 1) < 2 ^ 2"
      by (rule sar_bounds; simp only: b'; use r in simp)+
    moreover have "(2 :: int) ^ 2 \<le> 2 ^ b" using \<open>2 \<le> b\<close> by (intro power_increasing) simp_all
    ultimately show "- (2 ^ b) \<le> m" "m < 2 ^ b" by (simp_all add: m_def not_int_def)
  qed
  have "- (2 ^ b) \<le> (x - y) AND m \<and> (x - y) AND m < 2 ^ b"
    by (rule and_range) (use x y mb in simp_all)
  then have "- (2 ^ b) \<le> r OR ((x - y) AND m) \<and> r OR ((x - y) AND m) < 2 ^ b"
    by (intro or_range) (use r in simp_all)
  then show "- (2 ^ b) \<le> cmp_step (b - 1) r (x, y)" and "cmp_step (b - 1) r (x, y) < 2 ^ b"
    by (simp_all only: step)
qed

lemma cmp_digits_sgn:
  assumes "length xs = length ys" "2 \<le> b" "b \<le> 60"
    and "digits_in 0 (2 ^ b) xs" "digits_in 0 (2 ^ b) ys"
  shows "sgn (cmp_digits (b - 1) xs ys) = sgn (lval b xs - lval b ys)
    \<and> - (2 ^ b) \<le> cmp_digits (b - 1) xs ys \<and> cmp_digits (b - 1) xs ys < 2 ^ b"
  using assms
proof (induction xs ys rule: list_induct2)
  case (Cons x xs y ys)
  let ?r = "cmp_digits (b - 1) xs ys" and ?d = "lval b xs - lval b ys"
  have xy: "0 \<le> x" "x < 2 ^ b" "0 \<le> y" "y < 2 ^ b" using Cons.prems by simp_all
  have IH: "sgn ?r = sgn ?d" "- (2 ^ b) \<le> ?r" "?r < 2 ^ b" using Cons by simp_all
  note step = cmp_step_sgn [OF Cons.prems(1,2) IH(2,3) xy]
  have "sgn (x + 2 ^ b * lval b xs - (y + 2 ^ b * lval b ys)) = (if ?r = 0 then sgn (x - y) else sgn ?r)"
  proof (cases ?d "0 :: int" rule: linorder_cases)
    case less
    then have "2 ^ b * (lval b xs - lval b ys) \<le> 2 ^ b * - 1" by (intro mult_left_mono) simp_all
    with xy have "x + 2 ^ b * lval b xs - (y + 2 ^ b * lval b ys) < 0"
      by (simp add: right_diff_distrib)
    with less IH(1) show ?thesis by (auto simp: sgn_if split: if_splits)
  next
    case equal
    with IH(1) show ?thesis by (simp add: sgn_0_0)
  next
    case greater
    then have "2 ^ b * 1 \<le> 2 ^ b * (lval b xs - lval b ys)" by (intro mult_left_mono) simp_all
    with xy have "0 < x + 2 ^ b * lval b xs - (y + 2 ^ b * lval b ys)"
      by (simp add: right_diff_distrib)
    with greater IH(1) show ?thesis by (auto simp: sgn_if split: if_splits)
  qed
  with step show ?case by simp
qed simp

text \<open>Once the comparison is negative it stays negative and does not decrease.\<close>

lemma or_ge_negative:
  fixes r l :: int
  assumes "r < 0"
  shows "r \<le> r OR l"
proof -
  have "NOT r AND NOT l \<le> NOT r" using assms by (intro AND_upper1) simp
  then have "NOT (NOT r) \<le> NOT (NOT r AND NOT l)" by (simp add: not_int_def)
  then show ?thesis by simp
qed

lemma cmp_fold_negative: "r < 0 \<Longrightarrow> r \<le> foldl (cmp_step sh) r zs \<and> foldl (cmp_step sh) r zs < 0"
proof (induction zs arbitrary: r)
  case (Cons z zs)
  have "r \<le> cmp_step sh r z" "cmp_step sh r z < 0"
    using Cons.prems by (simp_all add: cmp_step_def or_ge_negative or_negative_int_iff)
  with Cons.IH [of "cmp_step sh r z"] show ?case by simp
qed simp

lemma cmp_digits_top_less:
  assumes "length xs = length ys" "x < y" "- (2 ^ 63) \<le> x - y"
  shows "x - y \<le> cmp_digits sh (xs @ [x]) (ys @ [y])" "cmp_digits sh (xs @ [x]) (ys @ [y]) < 0"
proof -
  have "s64 (x - y) = x - y" by (rule s64_id) (use assms in simp_all)
  then have "cmp_step sh 0 (x, y) = x - y" by (simp add: cmp_step_def s64_def sar_def)
  then have "cmp_digits sh (xs @ [x]) (ys @ [y]) = foldl (cmp_step sh) (x - y) (rev (zip xs ys))"
    using assms(1) by (simp add: cmp_digits_def zip_append)
  with cmp_fold_negative [of "x - y" sh "rev (zip xs ys)"] assms(2)
  show "x - y \<le> cmp_digits sh (xs @ [x]) (ys @ [y])" "cmp_digits sh (xs @ [x]) (ys @ [y]) < 0"
    by simp_all
qed

section \<open>Products of digit lists\<close>

text \<open>The schoolbook product as a list of column sums, the specification of the unrolled columns.\<close>

fun padd :: "int list \<Rightarrow> int list \<Rightarrow> int list" where
  "padd [] ys = ys"
| "padd xs [] = xs"
| "padd (x # xs) (y # ys) = (x + y) # padd xs ys"

fun pmul :: "int list \<Rightarrow> int list \<Rightarrow> int list" where
  "pmul [] ys = []"
| "pmul [x] ys = map ((*) x) ys"
| "pmul (x # xs) ys = padd (map ((*) x) ys) (0 # pmul xs ys)"

lemma lval_padd: "lval b (padd xs ys) = lval b xs + lval b ys"
  by (induction xs ys rule: padd.induct) (simp_all add: algebra_simps)

lemma lval_scale: "lval b (map ((*) x) ys) = x * lval b ys"
  by (induction ys) (simp_all add: algebra_simps)

lemma lval_pmul: "lval b (pmul xs ys) = lval b xs * lval b ys"
  by (induction xs ys rule: pmul.induct) (simp_all add: lval_padd lval_scale algebra_simps)

lemma length_padd: "length (padd xs ys) = max (length xs) (length ys)"
  by (induction xs ys rule: padd.induct) simp_all

lemma length_pmul: "ys \<noteq> [] \<Longrightarrow> length (pmul xs ys) = (if xs = [] then 0 else length xs + length ys - 1)"
  by (induction xs ys rule: pmul.induct) (auto simp: length_padd Suc_le_eq)

lemma padd_bound:
  assumes "\<forall>x\<in>set xs. 0 \<le> x \<and> x \<le> A" "\<forall>y\<in>set ys. 0 \<le> y \<and> y \<le> B" "0 \<le> A" "0 \<le> B"
  shows "\<forall>z\<in>set (padd xs ys). 0 \<le> z \<and> z \<le> A + B"
  using assms by (induction xs ys rule: padd.induct) (fastforce simp: add_mono)+

lemma scale_bound:
  fixes A :: int
  assumes "0 \<le> x" "x \<le> A" "\<forall>y\<in>set ys. 0 \<le> y \<and> y \<le> B"
  shows "\<forall>z\<in>set (map ((*) x) ys). 0 \<le> z \<and> z \<le> A * B"
  using assms by (auto intro!: mult_mono)

lemma pmul_bound:
  assumes "\<forall>x\<in>set xs. 0 \<le> x \<and> x \<le> (A :: int)" "\<forall>y\<in>set ys. 0 \<le> y \<and> y \<le> B" "0 \<le> A" "0 \<le> B"
  shows "\<forall>z\<in>set (pmul xs ys). 0 \<le> z \<and> z \<le> int (length xs) * (A * B)"
  using assms
proof (induction xs ys rule: pmul.induct)
  case (2 x ys)
  then have "\<forall>z\<in>set (map ((*) x) ys). 0 \<le> z \<and> z \<le> A * B" by (intro scale_bound) simp_all
  then show ?case by simp
next
  case (3 x x' xs ys)
  have AB: "0 \<le> A * B" using 3 by simp
  have "\<forall>z\<in>set (map ((*) x) ys). 0 \<le> z \<and> z \<le> A * B"
    using 3 by (intro scale_bound) simp_all
  moreover have "\<forall>z\<in>set (pmul (x' # xs) ys). 0 \<le> z \<and> z \<le> int (length (x' # xs)) * (A * B)"
    using 3 by simp
  then have "\<forall>z\<in>set (0 # pmul (x' # xs) ys). 0 \<le> z \<and> z \<le> int (length (x' # xs)) * (A * B)"
    using AB by simp
  ultimately have "\<forall>z\<in>set (padd (map ((*) x) ys) (0 # pmul (x' # xs) ys)).
      0 \<le> z \<and> z \<le> A * B + int (length (x' # xs)) * (A * B)"
    using AB by (intro padd_bound) simp_all
  moreover have "A * B + int (length (x' # xs)) * (A * B) = int (length (x # x' # xs)) * (A * B)"
    by (simp add: distrib_right)
  ultimately show ?case by simp
qed simp

text \<open>The unrolled products assign every column sum to a 128-bit variable before the carry chain.\<close>

definition carry_cols :: "nat \<Rightarrow> int list \<Rightarrow> int list" where
  "carry_cols b cols = carry_chain b (s128 (hd cols)) (map s128 (tl cols))"

lemma carry_cols_digs:
  assumes "2 \<le> b" "b \<le> 63" "cols \<noteq> []" "digits_in 0 (2 ^ 126) cols"
    and "lval b cols < 2 ^ (b * length cols + 63)"
  shows "carry_cols b cols = digs b (length cols + 1) (lval b cols)"
proof -
  obtain t us where cols: "cols = t # us" using assms(3) by (cases cols) simp_all
  have id: "s128 x = x" if "x \<in> set cols" for x
    using assms(4) that by (intro s128_id) (force simp: digits_in_def)+
  have "map s128 us = us" by (rule map_idI) (simp add: id cols)
  moreover have "s128 t = t" by (simp add: id cols)
  ultimately have "carry_cols b cols = carry_chain b t us" by (simp add: carry_cols_def cols)
  also have "\<dots> = digs b (length us + 2) (lval b (t # us))"
    using assms unfolding cols by (intro carry_chain_digs) simp_all
  finally show ?thesis by (simp add: cols)
qed

end
