(* ===== verification/Sp521.thy ===== *)
theory Sp521
  imports SpDigits
begin

text \<open>
  The P-521 digit arithmetic of \<^verbatim>\<open>wolfssl-src/patches/sp_c64.c\<close> in the default
  build (\<^verbatim>\<open>WOLFSSL_SP_SMALL\<close> not defined): nine digits of 58 bits.

  A \<open>const sp_digit*\<close> parameter is a digit list; a function that writes \<open>r\<close>
  returns the digits it writes.  Arrays of \<open>2 * 9\<close> digits keep their upper half
  only where a function reads it (\<open>sp_521_mont_reduce_9\<close>); callers that read
  nine digits of such an array \<open>take\<close> them.  All functions read every input
  digit before they write the output digit of the same index, so the source's
  calls with \<open>r == a\<close> are the pure calls of the model.
\<close>

section \<open>Constants\<close>

text \<open>The return codes the modelled functions use; \<open>LIB_E\<close> is the code of a library call that is passed on.\<close>

datatype sp_ret = MP_OKAY | FP_WOULDBLOCK | MP_VAL | BUFFER_E | ECC_INF_E | ECC_OUT_OF_RANGE_E
  | ECC_PRIV_KEY_E | RNG_FAILURE_E | BAD_MUTEX_E | LIB_E int

record sp_point_521 =
  pt_x :: "int list"
  pt_y :: "int list"
  pt_z :: "int list"
  infinity :: int

definition p521_mod :: "int list" where
  "p521_mod =
     [0x3ffffffffffffff, 0x3ffffffffffffff, 0x3ffffffffffffff, 0x3ffffffffffffff,
      0x3ffffffffffffff, 0x3ffffffffffffff, 0x3ffffffffffffff, 0x3ffffffffffffff,
      0x1ffffffffffffff]"

definition p521_norm_mod :: "int list" where
  "p521_norm_mod = [1, 0, 0, 0, 0, 0, 0, 0, 0]"

definition p521_mp_mod :: int where
  "p521_mp_mod = 1"

definition p521_order :: "int list" where
  "p521_order =
     [0x36fb71e91386409, 0x1726e226711ebae, 0x0148f709a5d03bb, 0x20efcbe59adff30,
      0x3fffffffa518687, 0x3ffffffffffffff, 0x3ffffffffffffff, 0x3ffffffffffffff,
      0x1ffffffffffffff]"

definition p521_order2 :: "int list" where
  "p521_order2 =
     [0x36fb71e91386407, 0x1726e226711ebae, 0x0148f709a5d03bb, 0x20efcbe59adff30,
      0x3fffffffa518687, 0x3ffffffffffffff, 0x3ffffffffffffff, 0x3ffffffffffffff,
      0x1ffffffffffffff]"

definition p521_norm_order :: "int list" where
  "p521_norm_order =
     [0x09048e16ec79bf7, 0x28d91dd98ee1451, 0x3eb708f65a2fc44, 0x1f10341a65200cf,
      0x000000005ae7978, 0, 0, 0, 0]"

definition p521_mp_order :: int where
  "p521_mp_order = 0x12f5ccd79a995c7"

definition p521_base :: sp_point_521 where
  "p521_base = \<lparr>
     pt_x = [0x17e7e31c2e5bd66, 0x22cf0615a90a6fe, 0x0127a2ffa8de334,
             0x1dfbf9d64a3f877, 0x06b4d3dbaa14b5e, 0x14fed487e0a2bd8,
             0x15b4429c6481390, 0x3a73678fb2d988e, 0x0c6858e06b70404],
     pt_y = [0x0be94769fd16650, 0x31c21a89cb09022, 0x39013fad0761353,
             0x2657bd099031542, 0x3273e662c97ee72, 0x1e6d11a05ebef45,
             0x3d1bd998f544495, 0x3001172297ed0b1, 0x11839296a789a3b],
     pt_z = [1, 0, 0, 0, 0, 0, 0, 0, 0],
     infinity = 0\<rparr>"

definition p521_b :: "int list" where
  "p521_b =
     [0x3451fd46b503f00, 0x0f7e20f4b0d3c7b, 0x00bd3bb1bf07357, 0x147b1fa4dec594b,
      0x18ef109e1561939, 0x26cc57cee2d2264, 0x0540eea2da725b9, 0x2687e4a688682da,
      0x051953eb9618e1c]"

section \<open>Products\<close>

definition sp_521_mul_9 :: "int list \<Rightarrow> int list \<Rightarrow> int list" where
  "sp_521_mul_9 a b =
     carry_cols 58
      [a ! 0 * b ! 0,
       a ! 0 * b ! 1 + a ! 1 * b ! 0,
       a ! 0 * b ! 2 + a ! 1 * b ! 1 + a ! 2 * b ! 0,
       a ! 0 * b ! 3 + a ! 1 * b ! 2 + a ! 2 * b ! 1 + a ! 3 * b ! 0,
       a ! 0 * b ! 4 + a ! 1 * b ! 3 + a ! 2 * b ! 2 + a ! 3 * b ! 1 + a ! 4 * b ! 0,
       a ! 0 * b ! 5 + a ! 1 * b ! 4 + a ! 2 * b ! 3 + a ! 3 * b ! 2 + a ! 4 * b ! 1 +
          a ! 5 * b ! 0,
       a ! 0 * b ! 6 + a ! 1 * b ! 5 + a ! 2 * b ! 4 + a ! 3 * b ! 3 + a ! 4 * b ! 2 +
          a ! 5 * b ! 1 + a ! 6 * b ! 0,
       a ! 0 * b ! 7 + a ! 1 * b ! 6 + a ! 2 * b ! 5 + a ! 3 * b ! 4 + a ! 4 * b ! 3 +
          a ! 5 * b ! 2 + a ! 6 * b ! 1 + a ! 7 * b ! 0,
       a ! 0 * b ! 8 + a ! 1 * b ! 7 + a ! 2 * b ! 6 + a ! 3 * b ! 5 + a ! 4 * b ! 4 +
          a ! 5 * b ! 3 + a ! 6 * b ! 2 + a ! 7 * b ! 1 + a ! 8 * b ! 0,
       a ! 1 * b ! 8 + a ! 2 * b ! 7 + a ! 3 * b ! 6 + a ! 4 * b ! 5 + a ! 5 * b ! 4 +
          a ! 6 * b ! 3 + a ! 7 * b ! 2 + a ! 8 * b ! 1,
       a ! 2 * b ! 8 + a ! 3 * b ! 7 + a ! 4 * b ! 6 + a ! 5 * b ! 5 + a ! 6 * b ! 4 +
          a ! 7 * b ! 3 + a ! 8 * b ! 2,
       a ! 3 * b ! 8 + a ! 4 * b ! 7 + a ! 5 * b ! 6 + a ! 6 * b ! 5 + a ! 7 * b ! 4 +
          a ! 8 * b ! 3,
       a ! 4 * b ! 8 + a ! 5 * b ! 7 + a ! 6 * b ! 6 + a ! 7 * b ! 5 + a ! 8 * b ! 4,
       a ! 5 * b ! 8 + a ! 6 * b ! 7 + a ! 7 * b ! 6 + a ! 8 * b ! 5,
       a ! 6 * b ! 8 + a ! 7 * b ! 7 + a ! 8 * b ! 6,
       a ! 7 * b ! 8 + a ! 8 * b ! 7,
       a ! 8 * b ! 8]"

definition sp_521_sqr_9 :: "int list \<Rightarrow> int list" where
  "sp_521_sqr_9 a =
     carry_cols 58
      [a ! 0 * a ! 0,
       (a ! 0 * a ! 1) * 2,
       (a ! 0 * a ! 2) * 2 + a ! 1 * a ! 1,
       (a ! 0 * a ! 3 + a ! 1 * a ! 2) * 2,
       (a ! 0 * a ! 4 + a ! 1 * a ! 3) * 2 + a ! 2 * a ! 2,
       (a ! 0 * a ! 5 + a ! 1 * a ! 4 + a ! 2 * a ! 3) * 2,
       (a ! 0 * a ! 6 + a ! 1 * a ! 5 + a ! 2 * a ! 4) * 2 + a ! 3 * a ! 3,
       (a ! 0 * a ! 7 + a ! 1 * a ! 6 + a ! 2 * a ! 5 + a ! 3 * a ! 4) * 2,
       (a ! 0 * a ! 8 + a ! 1 * a ! 7 + a ! 2 * a ! 6 + a ! 3 * a ! 5) * 2 + a ! 4 * a
          ! 4,
       (a ! 1 * a ! 8 + a ! 2 * a ! 7 + a ! 3 * a ! 6 + a ! 4 * a ! 5) * 2,
       (a ! 2 * a ! 8 + a ! 3 * a ! 7 + a ! 4 * a ! 6) * 2 + a ! 5 * a ! 5,
       (a ! 3 * a ! 8 + a ! 4 * a ! 7 + a ! 5 * a ! 6) * 2,
       (a ! 4 * a ! 8 + a ! 5 * a ! 7) * 2 + a ! 6 * a ! 6,
       (a ! 5 * a ! 8 + a ! 6 * a ! 7) * 2,
       (a ! 6 * a ! 8) * 2 + a ! 7 * a ! 7,
       (a ! 7 * a ! 8) * 2,
       a ! 8 * a ! 8]"

section \<open>Sums, differences, normalisation\<close>

definition sp_521_add_9 :: "int list \<Rightarrow> int list \<Rightarrow> int list" where
  "sp_521_add_9 a b = map2_s64 (+) (take 9 a) (take 9 b)"

definition sp_521_sub_9 :: "int list \<Rightarrow> int list \<Rightarrow> int list" where
  "sp_521_sub_9 a b = map2_s64 (-) (take 9 a) (take 9 b)"

definition sp_521_norm_9 :: "int list \<Rightarrow> int list" where
  "sp_521_norm_9 a = norm_digits 58 (take 9 a)"

definition sp_521_cmp_9 :: "int list \<Rightarrow> int list \<Rightarrow> int" where
  "sp_521_cmp_9 a b = cmp_digits 57 (take 9 a) (take 9 b)"

definition sp_521_cond_sub_9 :: "int list \<Rightarrow> int list \<Rightarrow> int \<Rightarrow> int list" where
  "sp_521_cond_sub_9 a b m = map2_s64 (\<lambda>x y. x - (y AND m)) (take 9 a) (take 9 b)"

definition sp_521_cond_add_9 :: "int list \<Rightarrow> int list \<Rightarrow> int \<Rightarrow> int list" where
  "sp_521_cond_add_9 a b m = map2_s64 (\<lambda>x y. x + (y AND m)) (take 9 a) (take 9 b)"

section \<open>Montgomery arithmetic modulo the field prime\<close>

text \<open>
  As \<open>2^521 = 1\<close> modulo the prime, Montgomery reduction is the folding of the
  upper half into the lower one; the digits \<open>r[9..17]\<close> are left as they are.
\<close>

definition sp_521_mont_reduce_9 :: "int list \<Rightarrow> int list \<Rightarrow> int \<Rightarrow> int list" where
  "sp_521_mont_reduce_9 a m mp =
    (let hi = (\<lambda>i. s64 (sar (a ! (8 + i)) 57 + s64 (a ! (8 + i + 1) * 2)) AND 0x3ffffffffffffff);
         lo = map (\<lambda>i. s64 (a ! i + hi i)) [0..<8];
         a8 = a ! 8 AND 0x1ffffffffffffff;
         n = sp_521_norm_9 (lo @ [s64 (a8 + hi 8)])
     in (n[0 := s64 (n ! 0 + sar (n ! 8) 57)])[8 := n ! 8 AND 0x1ffffffffffffff] @ drop 9 a)"

definition sp_521_mont_mul_9 :: "int list \<Rightarrow> int list \<Rightarrow> int list \<Rightarrow> int \<Rightarrow> int list" where
  "sp_521_mont_mul_9 a b m mp = sp_521_mont_reduce_9 (sp_521_mul_9 a b) m mp"

definition sp_521_mont_sqr_9 :: "int list \<Rightarrow> int list \<Rightarrow> int \<Rightarrow> int list" where
  "sp_521_mont_sqr_9 a m mp = sp_521_mont_reduce_9 (sp_521_sqr_9 a) m mp"

text \<open>The loop \<^verbatim>\<open>for (; n > 1; n--)\<close>.\<close>

fun sqr_more_9 :: "nat \<Rightarrow> int list \<Rightarrow> int list \<Rightarrow> int \<Rightarrow> int list" where
  "sqr_more_9 (Suc (Suc n)) r m mp = sqr_more_9 (Suc n) (sp_521_mont_sqr_9 r m mp) m mp"
| "sqr_more_9 _ r m mp = r"

definition sp_521_mont_sqr_n_9 :: "int list \<Rightarrow> nat \<Rightarrow> int list \<Rightarrow> int \<Rightarrow> int list" where
  "sp_521_mont_sqr_n_9 a n m mp = sqr_more_9 n (sp_521_mont_sqr_9 a m mp) m mp"

definition sp_521_mont_add_9 :: "int list \<Rightarrow> int list \<Rightarrow> int list \<Rightarrow> int list" where
  "sp_521_mont_add_9 a b m =
    (let r = sp_521_norm_9 (sp_521_add_9 a b);
         over = sar (r ! 8) 57
     in sp_521_norm_9 (sp_521_cond_sub_9 r m (NOT (sar (s64 (over - 1)) 63))))"

definition sp_521_mont_dbl_9 :: "int list \<Rightarrow> int list \<Rightarrow> int list" where
  "sp_521_mont_dbl_9 a m =
    (let r = sp_521_norm_9 (sp_521_add_9 a a);
         over = sar (r ! 8) 57
     in sp_521_norm_9 (sp_521_cond_sub_9 r m (NOT (sar (s64 (over - 1)) 63))))"

definition sp_521_mont_tpl_9 :: "int list \<Rightarrow> int list \<Rightarrow> int list" where
  "sp_521_mont_tpl_9 a m =
    (let r = sp_521_norm_9 (sp_521_add_9 a a);
         over = sar (r ! 8) 57;
         r = sp_521_norm_9 (sp_521_cond_sub_9 r m (NOT (sar (s64 (over - 1)) 63)));
         r = sp_521_norm_9 (sp_521_add_9 r a);
         over = sar (r ! 8) 57
     in sp_521_norm_9 (sp_521_cond_sub_9 r m (NOT (sar (s64 (over - 1)) 63))))"

definition sp_521_mont_sub_9 :: "int list \<Rightarrow> int list \<Rightarrow> int list \<Rightarrow> int list" where
  "sp_521_mont_sub_9 a b m =
    (let r = sp_521_norm_9 (sp_521_sub_9 a b)
     in sp_521_norm_9 (sp_521_cond_add_9 r m (sar (r ! 8) 57)))"

text \<open>The source shifts the signed \<open>a[i + 1]\<close> left by 57, which exceeds 64 bits for digits of 64 and more and is then
  undefined in C; the model has the wrapped value that compilers give it, of which the mask keeps one bit.\<close>

definition sp_521_rshift1_9 :: "int list \<Rightarrow> int list" where
  "sp_521_rshift1_9 a =
     map (\<lambda>i. s64 (sar (a ! i) 1 + (s64 (a ! (i + 1) * 2 ^ 57) AND 0x3ffffffffffffff))) [0..<8]
       @ [sar (a ! 8) 1]"

definition sp_521_mont_div2_9 :: "int list \<Rightarrow> int list \<Rightarrow> int list" where
  "sp_521_mont_div2_9 a m =
     sp_521_rshift1_9 (sp_521_norm_9 (sp_521_cond_add_9 a m (s64 (0 - (a ! 0 AND 1)))))"

end
