(* ===== verification/FieldOps.thy ===== *)
theory FieldOps
  imports Prelude
begin

text \<open>
  The interface between the digit arithmetic of a curve and the code that only
  calls it (exponentiation chains, point formulas, conversions).  A client sees
  a set of well-formed digit arrays (\<open>fe\<close>), the integer each stands for
  (\<open>den\<close>) and the operations of the field; the laws are that every operation
  keeps \<open>fe\<close> and computes modulo the prime.  \<open>mont_ring\<close> has the products
  only, which is all the arithmetic modulo the group order offers; \<open>mont_field\<close> extends it.  \<open>rep a x\<close> says that the array
  \<open>a\<close> is well-formed and stands for the integer \<open>x\<close> modulo the prime; its
  rules turn a straight-line sequence of calls into the integer expression it
  computes.
\<close>

section \<open>Products\<close>

locale mont_ring =
  fixes p :: int
    and fe :: "'a \<Rightarrow> bool"
    and den :: "'a \<Rightarrow> int"
    and mul :: "'a \<Rightarrow> 'a \<Rightarrow> 'a"
    and sqr :: "'a \<Rightarrow> 'a"
  assumes mul_law: "fe a \<Longrightarrow> fe b \<Longrightarrow> fe (mul a b) \<and> den (mul a b) mod p = (den a * den b) mod p"
    and sqr_law: "fe a \<Longrightarrow> fe (sqr a) \<and> den (sqr a) mod p = (den a * den a) mod p"
begin

definition rep :: "'a \<Rightarrow> int \<Rightarrow> bool" where
  "rep a x \<longleftrightarrow> fe a \<and> den a mod p = x mod p"

lemma rep_self: "fe a \<Longrightarrow> rep a (den a)"
  by (simp add: rep_def)

lemma rep_cong: "rep a x \<Longrightarrow> x mod p = y mod p \<Longrightarrow> rep a y"
  by (simp add: rep_def)

lemma rep_fe: "rep a x \<Longrightarrow> fe a"
  by (simp add: rep_def)

lemma rep_mul: "rep a x \<Longrightarrow> rep b y \<Longrightarrow> rep (mul a b) (x * y)"
  using mul_law mod_mult_cong by (fastforce simp: rep_def)

lemma rep_sqr: "rep a x \<Longrightarrow> rep (sqr a) (x * x)"
  using sqr_law mod_mult_cong by (fastforce simp: rep_def)

section \<open>Powers\<close>

lemma rep_sqr_funpow: "rep a x \<Longrightarrow> rep ((sqr ^^ n) a) (x ^ 2 ^ n)"
proof (induction n)
  case (Suc n)
  then have "rep (sqr ((sqr ^^ n) a)) (x ^ 2 ^ n * x ^ 2 ^ n)" by (intro rep_sqr) simp
  then show ?case by (simp add: power_add [symmetric] mult_2)
qed simp

text \<open>Appending ones to an exponent of ones, the step of the inversion chains.\<close>

lemma rep_ones:
  assumes "rep a (x ^ (2 ^ j - 1))" "rep b (x ^ (2 ^ k - 1))"
  shows "rep (mul a ((sqr ^^ j) b)) (x ^ (2 ^ (j + k) - 1))"
    and "rep (mul ((sqr ^^ j) b) a) (x ^ (2 ^ (j + k) - 1))"
proof -
  have "(2 :: nat) ^ j - 1 + (2 ^ k - 1) * 2 ^ j = 2 ^ (j + k) - 1"
    by (cases "(2 :: nat) ^ k") (simp_all add: power_add mult.commute)
  then have e: "x ^ (2 ^ j - 1) * (x ^ (2 ^ k - 1)) ^ 2 ^ j = x ^ (2 ^ (j + k) - 1)"
    by (simp only: power_mult [symmetric] power_add [symmetric])
  show "rep (mul a ((sqr ^^ j) b)) (x ^ (2 ^ (j + k) - 1))"
    using rep_mul [OF assms(1) rep_sqr_funpow [OF assms(2), of j]] by (simp only: e)
  show "rep (mul ((sqr ^^ j) b) a) (x ^ (2 ^ (j + k) - 1))"
    using rep_mul [OF rep_sqr_funpow [OF assms(2), of j] assms(1)]
    by (simp only: e mult.commute)
qed

text \<open>Square and multiply over a list of bit positions, most significant first.\<close>

lemma rep_bits:
  assumes "rep a x" "rep t (x ^ e)"
  shows "rep (fold (\<lambda>i t. let t = sqr t in if P i then mul t a else t) is t)
    (x ^ fold (\<lambda>i e. if P i then 2 * e + 1 else 2 * e) is e)"
  using assms(2)
proof (induction "is" arbitrary: t e)
  case (Cons i "is")
  have s: "rep (sqr t) (x ^ (2 * e))"
    using rep_sqr [OF Cons.prems] by (simp only: mult_2 power_add)
  have "rep (mul (sqr t) a) (x ^ (2 * e + 1))"
    using rep_mul [OF s assms(1)] by (simp only: power_add power_one_right)
  with s show ?case by (cases "P i") (simp_all add: Cons.IH)
qed simp

end

section \<open>All field operations\<close>

locale mont_field = mont_ring p fe den mul sqr
  for p :: int
    and fe :: "'a \<Rightarrow> bool"
    and den :: "'a \<Rightarrow> int"
    and mul :: "'a \<Rightarrow> 'a \<Rightarrow> 'a"
    and sqr :: "'a \<Rightarrow> 'a" +
  fixes add sub :: "'a \<Rightarrow> 'a \<Rightarrow> 'a"
    and dbl tpl half :: "'a \<Rightarrow> 'a"
  assumes odd_p: "odd p"
    and add_law: "fe a \<Longrightarrow> fe b \<Longrightarrow> fe (add a b) \<and> den (add a b) mod p = (den a + den b) mod p"
    and sub_law: "fe a \<Longrightarrow> fe b \<Longrightarrow> fe (sub a b) \<and> den (sub a b) mod p = (den a - den b) mod p"
    and dbl_law: "fe a \<Longrightarrow> fe (dbl a) \<and> den (dbl a) mod p = (2 * den a) mod p"
    and tpl_law: "fe a \<Longrightarrow> fe (tpl a) \<and> den (tpl a) mod p = (3 * den a) mod p"
    and half_law: "fe a \<Longrightarrow> fe (half a) \<and> (2 * den (half a)) mod p = den a mod p"
begin

lemma rep_add: "rep a x \<Longrightarrow> rep b y \<Longrightarrow> rep (add a b) (x + y)"
  using add_law mod_add_cong by (fastforce simp: rep_def)

lemma rep_sub: "rep a x \<Longrightarrow> rep b y \<Longrightarrow> rep (sub a b) (x - y)"
  using sub_law mod_diff_cong by (fastforce simp: rep_def)

lemma rep_dbl: "rep a x \<Longrightarrow> rep (dbl a) (2 * x)"
  using dbl_law mod_mult_cong by (fastforce simp: rep_def)

lemma rep_tpl: "rep a x \<Longrightarrow> rep (tpl a) (3 * x)"
  using tpl_law mod_mult_cong by (fastforce simp: rep_def)

lemma rep_half:
  assumes "rep a (2 * x)"
  shows "rep (half a) x"
proof -
  have "(2 * den (half a)) mod p = (2 * x) mod p"
    using assms half_law by (simp add: rep_def)
  then have "p dvd 2 * (den (half a) - x)"
    by (simp add: mod_eq_dvd_iff right_diff_distrib)
  moreover have "coprime p 2" using odd_p by simp
  ultimately have "p dvd den (half a) - x" by (rule coprime_dvd_mult_right_iff [THEN iffD1, rotated])
  then show ?thesis using assms half_law by (simp add: rep_def mod_eq_dvd_iff)
qed

lemmas rep_intros = rep_mul rep_add rep_sub rep_sqr rep_dbl rep_tpl

end

end
