(* ===== verification/Sp521Field.thy ===== *)
theory Sp521Field
  imports Sp521 FieldOps
begin

text \<open>
  Arithmetic modulo the P-521 prime: the operand invariant (nine 58-bit digits, the top one of 57
  bits), Montgomery multiplication and squaring, the linear operations, and the interpretation of the
  field interface of \<^verbatim>\<open>FieldOps\<close> on them. As the modulus is \<open>2\<^sup>5\<^sup>2\<^sup>1 - 1\<close>, Montgomery form is plain form and
  the reduction is one fold.
\<close>

definition P521 :: int where
  "P521 = 2 ^ 521 - 1"

lemma P521_pos: "0 < P521" and P521_less: "P521 < 2 ^ 521"
  by (simp_all add: P521_def)

lemma P521_sq_less: "P521 * P521 < 2 ^ 521 * P521" "P521 * P521 < 2 ^ 1042"
proof -
  show *: "P521 * P521 < 2 ^ 521 * P521"
    using P521_pos P521_less by (intro mult_strict_right_mono) simp_all
  also have "\<dots> < 2 ^ 521 * 2 ^ 521"
    using P521_less by (intro mult_strict_left_mono) (simp_all only: zero_less_power zero_less_numeral)
  also have "\<dots> = 2 ^ (521 + 521)" by (simp only: power_add)
  finally show "P521 * P521 < 2 ^ 1042" by simp
qed

definition val521 :: "int list \<Rightarrow> int" where
  "val521 a = lval 58 (take 9 a)"

definition fe521 :: "int list \<Rightarrow> bool" where
  "fe521 a \<longleftrightarrow> 9 \<le> length a \<and> digits_in 0 (2 ^ 58 + 1) (take 9 a) \<and> val521 a \<le> P521"

lemma list9: "length xs = 9 \<Longrightarrow> xs = [xs ! 0, xs ! 1, xs ! 2, xs ! 3, xs ! 4, xs ! 5, xs ! 6, xs ! 7, xs ! 8]"
  by (rule nth_equalityI) (auto simp: less_Suc_eq numeral_eq_Suc)

lemma take9_nth: "9 \<le> length a \<Longrightarrow>
   take 9 a = [a ! 0, a ! 1, a ! 2, a ! 3, a ! 4, a ! 5, a ! 6, a ! 7, a ! 8]"
  using list9 [of "take 9 a"] by simp

lemma sp_521_mul_9_cols:
  assumes "9 \<le> length a" "9 \<le> length b"
  shows "sp_521_mul_9 a b = carry_cols 58 (pmul (take 9 a) (take 9 b))"
  unfolding sp_521_mul_9_def by (simp add: take9_nth assms algebra_simps del: take.simps)

lemma sp_521_sqr_9_cols:
  assumes "9 \<le> length a"
  shows "sp_521_sqr_9 a = carry_cols 58 (pmul (take 9 a) (take 9 a))"
  unfolding sp_521_sqr_9_def by (simp add: take9_nth assms algebra_simps del: take.simps)

lemma digits_in_closed: "digits_in 0 (2 ^ 58 + 1) xs \<longleftrightarrow> (\<forall>x\<in>set xs. 0 \<le> x \<and> x \<le> 2 ^ 58)"
  by (auto simp: digits_in_def)

lemma pmul9:
  assumes "9 \<le> length a" "9 \<le> length b"
    and "digits_in 0 (2 ^ 58 + 1) (take 9 a)" "digits_in 0 (2 ^ 58 + 1) (take 9 b)"
    and "val521 a * val521 b < 2 ^ 1049"
  shows "carry_cols 58 (pmul (take 9 a) (take 9 b)) = digs 58 18 (val521 a * val521 b)"
proof -
  let ?c = "pmul (take 9 a) (take 9 b)"
  have l9: "length (take 9 a) = 9" "length (take 9 b) = 9" using assms by simp_all
  then have "take 9 a \<noteq> []" "take 9 b \<noteq> []" by auto
  with l9 have len: "length ?c = 17" by (simp add: length_pmul)
  have v: "lval 58 ?c = val521 a * val521 b" by (simp add: lval_pmul val521_def)
  have "\<forall>z\<in>set ?c. 0 \<le> z \<and> z \<le> int (length (take 9 a)) * (2 ^ 58 * 2 ^ 58)"
    using assms by (intro pmul_bound) (simp_all only: digits_in_closed, simp_all)
  then have "digits_in 0 (2 ^ 126) ?c" unfolding l9(1) by (fastforce simp: digits_in_def)
  then have "carry_cols 58 ?c = digs 58 (length ?c + 1) (lval 58 ?c)"
    by (intro carry_cols_digs) (use len assms in \<open>auto simp: v\<close>)
  then show ?thesis by (simp add: len v)
qed

lemma sp_521_mul_9_digs:
  assumes "9 \<le> length a" "9 \<le> length b"
    and "digits_in 0 (2 ^ 58 + 1) (take 9 a)" "digits_in 0 (2 ^ 58 + 1) (take 9 b)"
    and "val521 a * val521 b < 2 ^ 1049"
  shows "sp_521_mul_9 a b = digs 58 18 (val521 a * val521 b)"
  using assms by (simp only: sp_521_mul_9_cols pmul9)

lemma sp_521_sqr_9_digs:
  assumes "9 \<le> length a" "digits_in 0 (2 ^ 58 + 1) (take 9 a)"
    and "val521 a * val521 a < 2 ^ 1049"
  shows "sp_521_sqr_9 a = digs 58 18 (val521 a * val521 a)"
  using assms by (simp only: sp_521_sqr_9_cols pmul9)

text \<open>The fold of the reduction: the upper 521 bits, read digit by digit.\<close>

lemma fold_digit:
  fixes u :: int
  shows "(u mod 2 ^ 58 div 2 ^ 57 + 2 * (u div 2 ^ 58)) mod 2 ^ 58 = u div 2 ^ 57 mod 2 ^ 58"
    and "(u mod 2 ^ 58 div 2 ^ 57 + 2 * (u div 2 ^ 58 mod 2 ^ 58)) mod 2 ^ 58 = u div 2 ^ 57 mod 2 ^ 58"
proof -
  have "u div 2 ^ 57 = 2 * (u div 2 ^ 57 div 2) + u div 2 ^ 57 mod 2" by simp
  moreover have "u div 2 ^ 57 div 2 = u div 2 ^ 58"
    using div_div_pow [of u 57 1] by simp
  moreover have "u mod 2 ^ 58 div 2 ^ 57 = u div 2 ^ 57 mod 2"
    using mod_div_pow [of u 57 1] by simp
  ultimately have *: "u mod 2 ^ 58 div 2 ^ 57 + 2 * (u div 2 ^ 58) = u div 2 ^ 57" by linarith
  then show "(u mod 2 ^ 58 div 2 ^ 57 + 2 * (u div 2 ^ 58)) mod 2 ^ 58 = u div 2 ^ 57 mod 2 ^ 58"
    by (simp only:)
  have "(u mod 2 ^ 58 div 2 ^ 57 + 2 * (u div 2 ^ 58 mod 2 ^ 58)) mod 2 ^ 58
      = (u mod 2 ^ 58 div 2 ^ 57 + 2 * (u div 2 ^ 58)) mod 2 ^ 58"
    by (metis mod_add_right_eq mod_mult_right_eq)
  with * show "(u mod 2 ^ 58 div 2 ^ 57 + 2 * (u div 2 ^ 58 mod 2 ^ 58)) mod 2 ^ 58 = u div 2 ^ 57 mod 2 ^ 58"
    by (simp only:)
qed

lemma digs18_range:
  assumes "0 \<le> v" "v < 2 ^ 1042" "i < 18"
  shows "0 \<le> digs 58 18 v ! i" "digs 58 18 v ! i < 2 ^ 58"
proof -
  have "v < 2 ^ (58 * 18)" using assms by simp
  then have "digits_in 0 (2 ^ 58) (digs 58 18 v)" by (intro digs_digits_in) (use assms in simp_all)
  then have "0 \<le> digs 58 18 v ! i \<and> digs 58 18 v ! i < 2 ^ 58"
    by (rule digits_in_nth) (simp add: assms)
  then show "0 \<le> digs 58 18 v ! i" "digs 58 18 v ! i < 2 ^ 58" by blast+
qed

lemma fold_hi:
  assumes "0 \<le> v" "v < 2 ^ 1042" "i < 9"
  defines "a \<equiv> digs 58 18 v"
  shows "s64 (sar (a ! (8 + i)) 57 + s64 (a ! (8 + i + 1) * 2)) AND 0x3ffffffffffffff
    = digs 58 9 (v div 2 ^ 521) ! i"
proof -
  define u where "u = v div 2 ^ (58 * (8 + i))"
  have x: "a ! (8 + i) = u mod 2 ^ 58" using assms by (simp add: digs_nth u_def)
  have sh: "u div 2 ^ 58 = v div 2 ^ (58 * (8 + i + 1))"
    unfolding u_def div_div_pow by (simp add: algebra_simps)
  have y: "a ! (8 + i + 1) = (if i = 8 then u div 2 ^ 58 else u div 2 ^ 58 mod 2 ^ 58)"
    unfolding sh a_def using assms(3) by (subst digs_nth) auto
  have c: "0 \<le> u mod 2 ^ 58 div 2 ^ 57" "u mod 2 ^ 58 div 2 ^ 57 < 2 ^ 1"
    using mod_div_pow [of u 57 1] by simp_all
  have yr: "0 \<le> a ! (8 + i + 1)" "a ! (8 + i + 1) < 2 ^ 58"
    unfolding a_def by (rule digs18_range; use assms in simp)+
  have s1: "s64 (a ! (8 + i + 1) * 2) = a ! (8 + i + 1) * 2"
    by (rule s64_id) (use yr in simp_all)
  have s2: "s64 (sar (a ! (8 + i)) 57 + a ! (8 + i + 1) * 2) = sar (a ! (8 + i)) 57 + a ! (8 + i + 1) * 2"
    by (rule s64_id) (use yr c in \<open>simp_all add: x sar_def\<close>)
  have "s64 (sar (a ! (8 + i)) 57 + s64 (a ! (8 + i + 1) * 2)) AND (2 ^ 58 - 1)
      = (u mod 2 ^ 58 div 2 ^ 57 + 2 * a ! (8 + i + 1)) mod 2 ^ 58"
    by (simp only: and_mask_mod s1 s2) (simp add: x sar_def mult.commute)
  also have "\<dots> = u div 2 ^ 57 mod 2 ^ 58"
    unfolding y by (cases "i = 8") (simp_all only: simp_thms if_True if_False fold_digit)
  also have "u div 2 ^ 57 = v div 2 ^ 521 div 2 ^ (58 * i)"
    unfolding u_def div_div_pow by (simp add: algebra_simps)
  also have "v div 2 ^ 521 div 2 ^ (58 * i) mod 2 ^ 58 = digs 58 9 (v div 2 ^ 521) ! i"
  proof (cases "i = 8")
    case True
    have "v div 2 ^ 985 < 2 ^ 57"
      by (rule div_less_of_less_mult) (use assms in simp_all)
    moreover have "0 \<le> v div 2 ^ 985" using assms by (simp add: pos_imp_zdiv_nonneg_iff)
    ultimately have "v div 2 ^ 985 mod 2 ^ 58 = v div 2 ^ 985" by (intro mod_pos_pos_trivial) simp_all
    moreover have "v div 2 ^ 521 div 2 ^ (58 * i) = v div 2 ^ 985"
      unfolding div_div_pow True by simp
    moreover have "digs 58 9 (v div 2 ^ 521) ! i = v div 2 ^ 521 div 2 ^ (58 * i)"
      by (subst digs_nth) (simp_all add: True)
    ultimately show ?thesis by (simp only:)
  next
    case False
    then show ?thesis using assms(3) by (simp add: digs_nth)
  qed
  finally show ?thesis by simp
qed

lemma fold_lo:
  assumes "i < 8"
  shows "digs 58 18 v ! i = digs 58 9 (v mod 2 ^ 521) ! i"
proof -
  have "58 * i + 58 \<le> 521" using assms by simp
  then show ?thesis using assms by (simp only: digs_nth) (simp only: mod_div_mod_pow, simp)
qed

lemma fold_lo8: "digs 58 18 v ! 8 AND 0x1ffffffffffffff = digs 58 9 (v mod 2 ^ 521) ! 8"
proof -
  have "digs 58 18 v ! 8 AND (2 ^ 57 - 1) = v div 2 ^ 464 mod 2 ^ 58 mod 2 ^ 57"
    by (simp only: and_mask_mod) (simp add: digs_nth)
  also have "\<dots> = v div 2 ^ 464 mod 2 ^ 57" by (rule mod_mod_pow) simp
  also have "\<dots> = v mod 2 ^ (464 + 57) div 2 ^ 464" by (simp only: mod_div_pow)
  also have "\<dots> = digs 58 9 (v mod 2 ^ (464 + 57)) ! 8" using digs_last [of 9 58] by simp
  finally show ?thesis by simp
qed

lemma digs9_le:
  assumes "0 \<le> v" "v < 2 ^ 522"
  shows "digits_in 0 (2 ^ 58) (digs 58 9 v)"
  by (rule digs_digits_in) (use assms in simp_all)

lemma sp_521_norm_9_digs:
  assumes "9 \<le> length a" "digits_in (- (2 ^ 62)) (2 ^ 62) (take 9 a)"
  shows "sp_521_norm_9 a = digs 58 9 (val521 a)"
proof -
  obtain x xs where a: "take 9 a = x # xs" using assms(1) by (cases "take 9 a") auto
  have "norm_digits 58 (take 9 a) = digs 58 (length (take 9 a)) (lval 58 (take 9 a))"
    by (rule norm_digits_digs) (use assms in \<open>auto simp: a\<close>)
  then show ?thesis using assms(1) by (simp add: sp_521_norm_9_def val521_def)
qed

text \<open>The last step: the bits from 521 up are added to digit 0.\<close>

lemma fold_last:
  assumes "0 \<le> s" "s \<le> 2 * P521"
  defines "n \<equiv> digs 58 9 s"
  defines "r \<equiv> (n[0 := s64 (n ! 0 + sar (n ! 8) 57)])[8 := n ! 8 AND 0x1ffffffffffffff]"
  shows "length r = 9" "digits_in 0 (2 ^ 58 + 1) r" "lval 58 r = s mod 2 ^ 521 + s div 2 ^ 521"
proof -
  have n9: "length n = 9" by (simp add: n_def)
  have d: "digits_in 0 (2 ^ 58) n" unfolding n_def using assms by (intro digs9_le) (simp_all add: P521_def)
  have nd: "0 \<le> n ! i \<and> n ! i < 2 ^ 58" if "i < 9" for i
    using digits_in_nth [OF d] that n9 by simp
  have n0: "0 \<le> n ! 0" "n ! 0 < 2 ^ 58" and n8: "0 \<le> n ! 8" "n ! 8 < 2 ^ 58"
    using d n9 by (simp_all add: digits_in_def)
  have c: "0 \<le> sar (n ! 8) 57" "sar (n ! 8) 57 < 2"
    using n8 by (simp_all add: sar_def pos_imp_zdiv_nonneg_iff div_less_of_less_mult)
  have s0: "s64 (n ! 0 + sar (n ! 8) 57) = n ! 0 + sar (n ! 8) 57"
    by (rule s64_id) (use n0 c in simp_all)
  have m8: "n ! 8 AND (2 ^ 57 - 1) = n ! 8 mod 2 ^ 57" by (rule and_mask_mod)
  have nl: "n = [n ! 0, n ! 1, n ! 2, n ! 3, n ! 4, n ! 5, n ! 6, n ! 7, n ! 8]"
    by (rule list9 [OF n9])
  have r: "r = [n ! 0 + sar (n ! 8) 57, n ! 1, n ! 2, n ! 3, n ! 4, n ! 5, n ! 6, n ! 7, n ! 8 mod 2 ^ 57]"
    unfolding r_def s0 using m8 by (subst nl) simp
  show "length r = 9" by (simp add: r)
  show "digits_in 0 (2 ^ 58 + 1) r"
    unfolding r using c nd [of 0] nd [of 1] nd [of 2] nd [of 3] nd [of 4] nd [of 5] nd [of 6] nd [of 7] n8
    by simp
  have "lval 58 n = s" by (simp add: n_def)
  have "lval 58 r = lval 58 n + sar (n ! 8) 57 - 2 ^ 464 * (n ! 8 - n ! 8 mod 2 ^ 57)"
    unfolding arg_cong [OF nl, of "lval 58"] r by simp
  also have "n ! 8 - n ! 8 mod 2 ^ 57 = 2 ^ 57 * sar (n ! 8) 57"
    by (simp only: sar_def minus_mod_eq_mult_div)
  also have "sar (n ! 8) 57 = s div 2 ^ 521"
    by (simp only: n_def digs_nth sar_def div_div_pow) (simp add: div_div_pow sar_def)
  finally show "lval 58 r = s mod 2 ^ 521 + s div 2 ^ 521"
    using minus_mult_div_eq_mod [of s "2 ^ 521"] by (simp add: n_def)
qed

lemma fold_mod_P521: "(x mod 2 ^ 521 + x div 2 ^ 521) mod P521 = x mod P521"
proof -
  have "x - (x mod 2 ^ 521 + x div 2 ^ 521) = P521 * (x div 2 ^ 521)"
    using minus_mod_eq_mult_div [of x "2 ^ 521"] unfolding P521_def by (simp add: left_diff_distrib)
  then have "P521 dvd x - (x mod 2 ^ 521 + x div 2 ^ 521)" by simp
  then show ?thesis by (simp add: mod_eq_dvd_iff dvd_diff_commute)
qed

lemma fold_le_P521:
  assumes "0 \<le> s" "s \<le> 2 * P521"
  shows "s mod 2 ^ 521 + s div 2 ^ 521 \<le> P521"
proof (cases "s < 2 ^ 521")
  case True
  with assms(1) have "s div 2 ^ 521 = 0" "s mod 2 ^ 521 = s" by simp_all
  with True show ?thesis by (simp add: P521_def)
next
  case False
  with assms have "s div 2 ^ 521 = 1" by (intro int_div_pos_eq [of _ _ _ "s - 2 ^ 521"]) (simp_all add: P521_def)
  then have "s mod 2 ^ 521 = s - 2 ^ 521" using minus_mult_div_eq_mod [of s "2 ^ 521"] by simp
  with \<open>s div 2 ^ 521 = 1\<close> assms show ?thesis by (simp add: P521_def)
qed

lemma lval_map2_add_digs:
  "0 < n \<Longrightarrow> lval b (map2 (+) (digs b n x) (digs b n y)) = x + y"
  by (simp add: lval_map2_add)

lemma sp_521_mont_reduce_9_digs:
  assumes "0 \<le> v" "v \<le> P521 * P521"
  shows "fe521 (sp_521_mont_reduce_9 (digs 58 18 v) m mp)"
    and "val521 (sp_521_mont_reduce_9 (digs 58 18 v) m mp) mod P521 = v mod P521"
proof -
  define a where "a = digs 58 18 v"
  define lo where "lo = digs 58 9 (v mod 2 ^ 521)"
  define hi where "hi = digs 58 9 (v div 2 ^ 521)"
  define s where "s = v mod 2 ^ 521 + v div 2 ^ 521"
  have vP: "v < 2 ^ 1042" using assms(2) P521_sq_less(2) by (rule le_less_trans)
  have "v < 2 ^ 521 * P521" using assms(2) P521_sq_less(1) by (rule le_less_trans)
  then have q: "0 \<le> v div 2 ^ 521" "v div 2 ^ 521 < P521"
    using assms(1) by (simp_all add: pos_imp_zdiv_nonneg_iff div_less_of_less_mult)
  have lo_d: "digits_in 0 (2 ^ 58) lo" and hi_d: "digits_in 0 (2 ^ 58) hi"
    unfolding lo_def hi_def using q by (intro digs9_le; simp add: P521_def)+
  have sums: "map (\<lambda>i. s64 (a ! i + (s64 (sar (a ! (8 + i)) 57 + s64 (a ! (8 + i + 1) * 2))
            AND 0x3ffffffffffffff))) [0..<8]
        @ [s64 ((a ! 8 AND 0x1ffffffffffffff) + (s64 (sar (a ! (8 + 8)) 57 + s64 (a ! (8 + 8 + 1) * 2))
            AND 0x3ffffffffffffff))] = map2_s64 (+) lo hi" (is "?l = _")
  proof (rule nth_equalityI)
    show "length ?l = length (map2_s64 (+) lo hi)" by (simp add: lo_def hi_def)
    fix i assume "i < length ?l"
    then have "i < 8 \<or> i = 8" by auto
    then show "?l ! i = map2_s64 (+) lo hi ! i"
      using fold_hi [OF assms(1) vP, of i] fold_lo [of i v] fold_lo8 [of v]
      by (auto simp: nth_append map2_s64_def a_def lo_def hi_def simp del: upt_rec_numeral)
  qed
  have n: "sp_521_norm_9 (map2_s64 (+) lo hi) = digs 58 9 s"
  proof -
    have e: "map2_s64 (+) lo hi = map2 (+) lo hi"
      by (rule map2_s64_add) (rule digits_in_mono [OF lo_d] digits_in_mono [OF hi_d]; simp)+
    have "digits_in (0 + 0) (2 ^ 58 + 2 ^ 58) (map2 (+) lo hi)"
      by (rule digits_in_map2_add [OF lo_d hi_d])
    then have "digits_in (- (2 ^ 62)) (2 ^ 62) (map2 (+) lo hi)"
      by (rule digits_in_mono) simp_all
    then have "sp_521_norm_9 (map2 (+) lo hi) = digs 58 9 (val521 (map2 (+) lo hi))"
      by (intro sp_521_norm_9_digs) (simp_all add: lo_def hi_def digits_in_take)
    also have "val521 (map2 (+) lo hi) = s"
      by (simp add: val521_def lo_def hi_def s_def lval_map2_add_digs)
    finally show ?thesis by (simp only: e)
  qed
  have s: "0 \<le> s" "s \<le> 2 * P521" using q by (simp_all add: s_def P521_def)
  note r = fold_last [OF s]
  have red: "sp_521_mont_reduce_9 a m mp =
      ((digs 58 9 s)[0 := s64 (digs 58 9 s ! 0 + sar (digs 58 9 s ! 8) 57)])
        [8 := digs 58 9 s ! 8 AND 0x1ffffffffffffff] @ drop 9 a"
    unfolding sp_521_mont_reduce_9_def Let_def sums n ..
  have val: "val521 (sp_521_mont_reduce_9 (digs 58 18 v) m mp) = s mod 2 ^ 521 + s div 2 ^ 521"
    by (simp only: red [unfolded a_def] val521_def take_append r) (simp only: r take_all, simp add: r)
  from r fold_le_P521 [OF s] show "fe521 (sp_521_mont_reduce_9 (digs 58 18 v) m mp)"
    unfolding fe521_def val by (simp add: red [unfolded a_def])
  show "val521 (sp_521_mont_reduce_9 (digs 58 18 v) m mp) mod P521 = v mod P521"
    by (simp only: val fold_mod_P521) (simp only: s_def fold_mod_P521)
qed

section \<open>Sums and differences\<close>

lemma p521_mod_digs: "length p521_mod = 9" "lval 58 p521_mod = P521" "digits_in 0 (2 ^ 58) p521_mod"
  by (simp_all add: p521_mod_def P521_def)

lemma fe521_digits:
  assumes "fe521 a"
  shows "9 \<le> length a" "digits_in (- (2 ^ 62)) (2 ^ 62) (take 9 a)"
    "0 \<le> val521 a" "val521 a \<le> P521"
  using assms unfolding fe521_def val521_def
  by (auto intro: digits_in_mono lval_nonneg)

lemma digs9_safe:
  assumes "- (2 ^ 523) < v" "v < 2 ^ 523"
  shows "digits_in (- (2 ^ 60)) (2 ^ 60) (digs 58 9 v)"
proof -
  have "- (2 ^ 60) \<le> digs 58 9 v ! i \<and> digs 58 9 v ! i < 2 ^ 60" if "i < 9" for i
  proof (cases "i = 8")
    case True
    have "- (2 ^ 59) \<le> sar v 464" "sar v 464 < 2 ^ 59"
      by (rule sar_bounds; use assms in simp)+
    then show ?thesis by (simp add: digs_nth True sar_def)
  next
    case False
    then have e: "digs 58 9 v ! i = v div 2 ^ (58 * i) mod 2 ^ 58" using that by (simp add: digs_nth)
    have "0 \<le> digs 58 9 v ! i" "digs 58 9 v ! i < 2 ^ 58" unfolding e by simp_all
    moreover have "(2 :: int) ^ 58 \<le> 2 ^ 60" "- (2 ^ 60) \<le> (0 :: int)" by simp_all
    ultimately show ?thesis by linarith
  qed
  then show ?thesis by (auto simp: digits_in_def in_set_conv_nth)
qed

lemma norm_map2_9:
  assumes "length xs = 9" "length ys = 9"
    and "digits_in (- (2 ^ 61)) (2 ^ 61) xs" "digits_in (- (2 ^ 60)) (2 ^ 60) ys"
  shows "sp_521_norm_9 (map2_s64 (+) xs ys) = digs 58 9 (lval 58 xs + lval 58 ys)"
    and "sp_521_norm_9 (map2_s64 (-) xs ys) = digs 58 9 (lval 58 xs - lval 58 ys)"
proof -
  have w: "digits_in (- (2 ^ 62)) (2 ^ 62) xs" "digits_in (- (2 ^ 62)) (2 ^ 62) ys"
    using assms by (auto intro: digits_in_mono)
  have p: "digits_in (- (2 ^ 61) + - (2 ^ 60)) (2 ^ 61 + 2 ^ 60) (map2 (+) xs ys)"
    by (rule digits_in_map2_add) (use assms in blast)+
  have m: "digits_in (- (2 ^ 61) - 2 ^ 60) (2 ^ 61 - - (2 ^ 60)) (map2 (-) xs ys)"
    by (rule digits_in_map2_diff) (use assms in blast)+
  have "sp_521_norm_9 (map2 (+) xs ys) = digs 58 9 (val521 (map2 (+) xs ys))"
    by (intro sp_521_norm_9_digs digits_in_take digits_in_mono [OF p]) (simp_all add: assms)
  then show "sp_521_norm_9 (map2_s64 (+) xs ys) = digs 58 9 (lval 58 xs + lval 58 ys)"
    by (simp add: map2_s64_add [OF w] val521_def assms lval_map2_add)
  have "sp_521_norm_9 (map2 (-) xs ys) = digs 58 9 (val521 (map2 (-) xs ys))"
    by (intro sp_521_norm_9_digs digits_in_take digits_in_mono [OF m]) (simp_all add: assms)
  then show "sp_521_norm_9 (map2_s64 (-) xs ys) = digs 58 9 (lval 58 xs - lval 58 ys)"
    by (simp add: map2_s64_diff [OF w] val521_def assms lval_map2_diff)
qed

text \<open>A masked operand is the operand or zero.\<close>

lemma map2_s64_masked:
  "map2_s64 (\<lambda>x y. x - (y AND (if c then - 1 else 0))) xs ys
     = map2_s64 (-) xs (map (\<lambda>y. if c then y else 0) ys)"
  "map2_s64 (\<lambda>x y. x + (y AND (if c then - 1 else 0))) xs ys
     = map2_s64 (+) xs (map (\<lambda>y. if c then y else 0) ys)"
  by (simp_all add: map2_s64_def map2_map_map zip_map2 split_def)

lemma masked_p521_mod:
  "lval 58 (map (\<lambda>y. if c then y else 0) p521_mod) = (if c then P521 else 0)"
  "digits_in (- (2 ^ 60)) (2 ^ 60) (map (\<lambda>y. if c then y else 0) p521_mod)"
  by (simp_all add: p521_mod_def P521_def)

text \<open>The conditional subtraction of \<open>mont_add\<close>, \<open>mont_dbl\<close> and \<open>mont_tpl\<close>.\<close>

lemma cond_sub_P521:
  assumes "0 \<le> s" "s \<le> 2 * P521"
  shows "sp_521_norm_9 (sp_521_cond_sub_9 (digs 58 9 s) p521_mod
            (NOT (sar (s64 (sar (digs 58 9 s ! 8) 57 - 1)) 63)))
      = digs 58 9 (if 2 ^ 521 \<le> s then s - P521 else s)"
proof -
  have s: "s < 2 ^ 522" using assms by (simp add: P521_def)
  have o: "sar (digs 58 9 s ! 8) 57 = s div 2 ^ 521"
    by (simp only: sar_def digs_nth div_div_pow) (simp add: div_div_pow)
  have o1: "0 \<le> s div 2 ^ 521" "s div 2 ^ 521 < 2"
    using assms s by (simp_all add: pos_imp_zdiv_nonneg_iff div_less_of_less_mult)
  have "0 < s div 2 ^ 521 \<longleftrightarrow> 2 ^ 521 \<le> s"
    using assms pos_imp_zdiv_pos_iff [of "2 ^ 521" s] by simp
  with o1 have mask: "NOT (sar (s64 (sar (digs 58 9 s ! 8) 57 - 1)) 63) = (if 2 ^ 521 \<le> s then - 1 else 0)"
    unfolding o by (subst over_mask) simp_all
  have "digits_in (- (2 ^ 60)) (2 ^ 60) (digs 58 9 s)"
    by (rule digs9_safe) (use assms s in simp_all)
  then have d: "digits_in (- (2 ^ 61)) (2 ^ 61) (digs 58 9 s)" by (rule digits_in_mono) simp_all
  show ?thesis
    unfolding sp_521_cond_sub_9_def mask map2_s64_masked
    using norm_map2_9(2) [OF _ _ d masked_p521_mod(2)] p521_mod_digs
    by (simp add: masked_p521_mod)
qed

lemma reduced_fe521:
  assumes "0 \<le> v" "v \<le> P521"
  shows "fe521 (digs 58 9 v)" "val521 (digs 58 9 v) = v"
proof -
  have "digits_in 0 (2 ^ 58) (digs 58 9 v)"
    by (rule digs9_le) (use assms in \<open>simp_all add: P521_def\<close>)
  then have "digits_in 0 (2 ^ 58 + 1) (digs 58 9 v)" by (rule digits_in_mono) simp_all
  then show "val521 (digs 58 9 v) = v" "fe521 (digs 58 9 v)"
    using assms by (simp_all add: fe521_def val521_def)
qed

lemma norm_add_9:
  assumes "fe521 a" "fe521 b"
  shows "sp_521_norm_9 (sp_521_add_9 a b) = digs 58 9 (val521 a + val521 b)"
    and "sp_521_norm_9 (sp_521_sub_9 a b) = digs 58 9 (val521 a - val521 b)"
proof -
  have "digits_in (- (2 ^ 61)) (2 ^ 61) (take 9 a)" "digits_in (- (2 ^ 60)) (2 ^ 60) (take 9 b)"
    using assms by (auto simp: fe521_def intro: digits_in_mono)
  with norm_map2_9 [of "take 9 a" "take 9 b"] assms
  show "sp_521_norm_9 (sp_521_add_9 a b) = digs 58 9 (val521 a + val521 b)"
    "sp_521_norm_9 (sp_521_sub_9 a b) = digs 58 9 (val521 a - val521 b)"
    by (simp_all add: sp_521_add_9_def sp_521_sub_9_def fe521_def val521_def)
qed

lemma cond_P521_reduced:
  assumes "0 \<le> s" "s \<le> 2 * P521"
  defines "r \<equiv> digs 58 9 (if 2 ^ 521 \<le> s then s - P521 else s)"
  shows "fe521 r" "val521 r = (if 2 ^ 521 \<le> s then s - P521 else s)" "val521 r mod P521 = s mod P521"
proof -
  have "0 \<le> (if 2 ^ 521 \<le> s then s - P521 else s)" "(if 2 ^ 521 \<le> s then s - P521 else s) \<le> P521"
    using assms by (auto simp: P521_def)
  then show "fe521 r" and v: "val521 r = (if 2 ^ 521 \<le> s then s - P521 else s)"
    unfolding r_def by (simp_all only: reduced_fe521)
  show "val521 r mod P521 = s mod P521" unfolding v by simp
qed

lemma fe521_sum: "fe521 a \<Longrightarrow> fe521 b \<Longrightarrow> 0 \<le> val521 a + val521 b \<and> val521 a + val521 b \<le> 2 * P521"
  using fe521_digits [of a] fe521_digits [of b] by simp

lemma mont_add_9:
  assumes "fe521 a" "fe521 b"
  shows "fe521 (sp_521_mont_add_9 a b p521_mod)"
    and "val521 (sp_521_mont_add_9 a b p521_mod) mod P521 = (val521 a + val521 b) mod P521"
  using cond_P521_reduced [of "val521 a + val521 b"] fe521_sum [OF assms]
  by (simp_all only: sp_521_mont_add_9_def Let_def norm_add_9 [OF assms] cond_sub_P521 simp_thms)

lemma mont_add_9_digs:
  assumes "fe521 a" "fe521 b"
  shows "\<exists>r. 0 \<le> r \<and> r \<le> P521 \<and> r mod P521 = (val521 a + val521 b) mod P521 \<and>
    sp_521_mont_add_9 a b p521_mod = digs 58 9 r"
proof -
  define s where "s = val521 a + val521 b"
  have s: "0 \<le> s" "s \<le> 2 * P521" using fe521_sum [OF assms] by (simp_all add: s_def)
  have "sp_521_mont_add_9 a b p521_mod = digs 58 9 (if 2 ^ 521 \<le> s then s - P521 else s)"
    using cond_sub_P521 [OF s] by (simp only: sp_521_mont_add_9_def Let_def norm_add_9 [OF assms] s_def)
  moreover have "0 \<le> (if 2 ^ 521 \<le> s then s - P521 else s)" "(if 2 ^ 521 \<le> s then s - P521 else s) \<le> P521"
    using s by (auto simp: P521_def)
  moreover have "(if 2 ^ 521 \<le> s then s - P521 else s) mod P521 = s mod P521" by simp
  ultimately show ?thesis unfolding s_def by blast
qed

lemma mont_dbl_9:
  assumes "fe521 a"
  shows "fe521 (sp_521_mont_dbl_9 a p521_mod)"
    and "val521 (sp_521_mont_dbl_9 a p521_mod) mod P521 = (2 * val521 a) mod P521"
proof -
  have "sp_521_mont_dbl_9 a p521_mod = sp_521_mont_add_9 a a p521_mod"
    by (simp only: sp_521_mont_dbl_9_def sp_521_mont_add_9_def)
  with mont_add_9 [OF assms assms] show "fe521 (sp_521_mont_dbl_9 a p521_mod)"
    "val521 (sp_521_mont_dbl_9 a p521_mod) mod P521 = (2 * val521 a) mod P521"
    by (simp_all only: mult_2)
qed

lemma mont_tpl_9:
  assumes "fe521 a"
  shows "fe521 (sp_521_mont_tpl_9 a p521_mod)"
    and "val521 (sp_521_mont_tpl_9 a p521_mod) mod P521 = (3 * val521 a) mod P521"
proof -
  let ?d = "sp_521_mont_dbl_9 a p521_mod"
  have e: "sp_521_mont_tpl_9 a p521_mod = sp_521_mont_add_9 ?d a p521_mod"
    by (simp only: sp_521_mont_tpl_9_def sp_521_mont_add_9_def sp_521_mont_dbl_9_def Let_def)
  note d = mont_dbl_9 [OF assms]
  from mont_add_9 [OF d(1) assms] show "fe521 (sp_521_mont_tpl_9 a p521_mod)" by (simp only: e)
  have "(val521 ?d + val521 a) mod P521 = (2 * val521 a + val521 a) mod P521"
    by (rule mod_add_cong) (simp_all only: d)
  with mont_add_9(2) [OF d(1) assms]
  show "val521 (sp_521_mont_tpl_9 a p521_mod) mod P521 = (3 * val521 a) mod P521"
    by (simp add: e)
qed

lemma mont_sub_9_digs:
  assumes "fe521 a" "fe521 b"
  defines "s \<equiv> val521 a - val521 b"
  shows "sp_521_mont_sub_9 a b p521_mod = digs 58 9 (if s < 0 then s + P521 else s)"
    and "0 \<le> (if s < 0 then s + P521 else s)" "(if s < 0 then s + P521 else s) \<le> P521"
proof -
  have s: "- P521 \<le> s" "s \<le> P521"
    using fe521_digits [OF assms(1)] fe521_digits [OF assms(2)] by (simp_all add: s_def)
  then have s': "- (2 ^ 523) < s" "s < 2 ^ 523" by (simp_all add: P521_def)
  have o: "sar (digs 58 9 s ! 8) 57 = s div 2 ^ 521"
    by (simp only: sar_def digs_nth div_div_pow) (simp add: div_div_pow)
  have mask: "s div 2 ^ 521 = (if s < 0 then - 1 else 0)"
  proof (cases "s < 0")
    case True
    with s show ?thesis by (simp only: if_True) (intro int_div_pos_eq [of _ _ _ "s + 2 ^ 521"], simp_all add: P521_def)
  next
    case False
    with s show ?thesis by (simp add: P521_def)
  qed
  have d: "digits_in (- (2 ^ 61)) (2 ^ 61) (digs 58 9 s)"
    by (rule digits_in_mono [OF digs9_safe [OF s']]) simp_all
  show "sp_521_mont_sub_9 a b p521_mod = digs 58 9 (if s < 0 then s + P521 else s)"
    unfolding sp_521_mont_sub_9_def Let_def norm_add_9(2) [OF assms(1,2)] s_def [symmetric] o mask
      sp_521_cond_add_9_def map2_s64_masked
    using norm_map2_9(1) [OF _ _ d masked_p521_mod(2)] p521_mod_digs by (simp add: masked_p521_mod)
  show "0 \<le> (if s < 0 then s + P521 else s)" "(if s < 0 then s + P521 else s) \<le> P521"
    using s by auto
qed

lemma mont_sub_9:
  assumes "fe521 a" "fe521 b"
  shows "fe521 (sp_521_mont_sub_9 a b p521_mod)"
    and "val521 (sp_521_mont_sub_9 a b p521_mod) mod P521 = (val521 a - val521 b) mod P521"
proof -
  note d = mont_sub_9_digs [OF assms]
  note f = reduced_fe521 [OF d(2,3)]
  show "fe521 (sp_521_mont_sub_9 a b p521_mod)" by (simp only: d(1) f)
  show "val521 (sp_521_mont_sub_9 a b p521_mod) mod P521 = (val521 a - val521 b) mod P521"
    by (simp only: d(1) f) simp
qed

section \<open>Halving\<close>

lemma rshift1_9_digs:
  assumes "0 \<le> s" "s < 2 ^ 522"
  shows "sp_521_rshift1_9 (digs 58 9 s) = digs 58 9 (s div 2)"
proof (rule nth_equalityI)
  show "length (sp_521_rshift1_9 (digs 58 9 s)) = length (digs 58 9 (s div 2))"
    by (simp add: sp_521_rshift1_9_def)
  fix i assume "i < length (sp_521_rshift1_9 (digs 58 9 s))"
  then have "i < 9" by (simp add: sp_521_rshift1_9_def)
  then consider "i < 8" | "i = 8" by linarith
  then show "sp_521_rshift1_9 (digs 58 9 s) ! i = digs 58 9 (s div 2) ! i"
  proof cases
    case 1
    define u where "u = s div 2 ^ (58 * i)"
    define y where "y = digs 58 9 s ! (i + 1)"
    have x: "digs 58 9 s ! i = u mod 2 ^ 58" using 1 by (simp add: digs_nth u_def)
    have y2: "y mod 2 = u div 2 ^ 58 mod 2"
      using 1 unfolding y_def u_def div_div_pow
      by (subst digs_nth) (auto simp: algebra_simps mod_mod_cancel)
    have "y * 2 ^ 57 mod 2 ^ (57 + 1) = 2 ^ 57 * (y mod 2)"
      by (simp only: power_add power_one_right mult.commute [of y] mult_mod_right)
    then have m: "s64 (y * 2 ^ 57) AND (2 ^ 58 - 1) = 2 ^ 57 * (u div 2 ^ 58 mod 2)"
      by (simp only: s64_and_mask y2) simp
    have h: "u mod 2 ^ 58 div 2 = u div 2 mod 2 ^ 57" using mod_div_pow [of u 1 57] by simp
    have "u div 2 div 2 ^ 57 = u div 2 ^ 58" using div_div_pow [of u 1 57] by simp
    then have c: "u div 2 mod 2 ^ 57 + 2 ^ 57 * (u div 2 ^ 58 mod 2) = u div 2 mod 2 ^ (57 + 1)"
      by (simp only: power_add power_one_right zmod_zmult2_eq)
    have "sp_521_rshift1_9 (digs 58 9 s) ! i = s64 (sar (digs 58 9 s ! i) 1 + (s64 (y * 2 ^ 57) AND (2 ^ 58 - 1)))"
      using 1 by (simp add: sp_521_rshift1_9_def nth_append y_def)
    also have "\<dots> = u div 2 mod 2 ^ (57 + 1)"
      by (simp only: m x sar_def power_one_right h c) (rule s64_mod, simp)
    also have "u div 2 = s div 2 div 2 ^ (58 * i)"
      unfolding u_def using div_div_pow [of s "58 * i" 1] div_div_pow [of s 1 "58 * i"] by (simp add: add.commute)
    finally show ?thesis using 1 by (simp add: digs_nth)
  next
    case 2
    have "s div 2 ^ 464 div 2 ^ 1 = s div 2 ^ 1 div 2 ^ 464" by (simp only: div_div_pow add.commute)
    with 2 show ?thesis by (simp add: sp_521_rshift1_9_def nth_append digs_nth sar_def)
  qed
qed

lemma odd_lval: "9 \<le> length a \<Longrightarrow> val521 a mod 2 = a ! 0 mod 2"
  unfolding val521_def by (cases "take 9 a") (auto simp: take9_nth mod_add_right_eq [symmetric])

lemma mont_div2_9:
  assumes "fe521 a"
  shows "fe521 (sp_521_mont_div2_9 a p521_mod)"
    and "(2 * val521 (sp_521_mont_div2_9 a p521_mod)) mod P521 = val521 a mod P521"
proof -
  define s where "s = val521 a + (if odd (a ! 0) then P521 else 0)"
  note a = fe521_digits [OF assms]
  have s: "0 \<le> s" "s \<le> 2 * P521" using a P521_pos by (auto simp: s_def)
  have s2: "s < 2 ^ 522" using s by (simp add: P521_def)
  have "a ! 0 AND 1 = (if odd (a ! 0) then 1 else 0)" by (simp add: and_one_eq mod2_eq_if)
  then have mask: "s64 (0 - (a ! 0 AND 1)) = (if odd (a ! 0) then - 1 else 0)"
    by (simp add: s64_def)
  have d: "digits_in (- (2 ^ 61)) (2 ^ 61) (take 9 a)"
    using assms by (auto simp: fe521_def intro: digits_in_mono)
  have "sp_521_norm_9 (sp_521_cond_add_9 a p521_mod (s64 (0 - (a ! 0 AND 1)))) = digs 58 9 s"
    unfolding mask sp_521_cond_add_9_def map2_s64_masked
    using norm_map2_9(1) [OF _ _ d masked_p521_mod(2)] p521_mod_digs a
    by (simp add: masked_p521_mod s_def val521_def)
  then have r: "sp_521_mont_div2_9 a p521_mod = digs 58 9 (s div 2)"
    by (simp only: sp_521_mont_div2_9_def rshift1_9_digs [OF s(1) s2])
  have b: "0 \<le> s div 2" "s div 2 \<le> P521" using s by simp_all
  show "fe521 (sp_521_mont_div2_9 a p521_mod)" by (simp only: r reduced_fe521 [OF b])
  have "odd P521" by (simp add: P521_def)
  moreover have "odd (val521 a) = odd (a ! 0)" using odd_lval [OF a(1)] by presburger
  ultimately have "even s" by (auto simp: s_def)
  then have "2 * (s div 2) = s" by simp
  then show "(2 * val521 (sp_521_mont_div2_9 a p521_mod)) mod P521 = val521 a mod P521"
    by (simp add: r reduced_fe521 [OF b]) (simp add: s_def)
qed

section \<open>Products\<close>

lemma fe521_prod:
  assumes "fe521 a" "fe521 b"
  shows "0 \<le> val521 a * val521 b" "val521 a * val521 b \<le> P521 * P521"
  using fe521_digits [OF assms(1)] fe521_digits [OF assms(2)] P521_pos
  by (simp_all add: mult_mono)

lemma mul_9_digs:
  assumes "fe521 a" "fe521 b"
  shows "sp_521_mul_9 a b = digs 58 18 (val521 a * val521 b)"
proof (rule sp_521_mul_9_digs)
  have "val521 a * val521 b < 2 ^ 1042" using fe521_prod [OF assms] P521_sq_less by linarith
  then show "val521 a * val521 b < 2 ^ 1049" by simp
qed (use assms in \<open>simp_all add: fe521_def\<close>)

lemma mont_mul_9:
  assumes "fe521 a" "fe521 b"
  shows "fe521 (sp_521_mont_mul_9 a b m mp)"
    and "val521 (sp_521_mont_mul_9 a b m mp) mod P521 = (val521 a * val521 b) mod P521"
  unfolding sp_521_mont_mul_9_def mul_9_digs [OF assms]
  by (rule sp_521_mont_reduce_9_digs [OF fe521_prod [OF assms]])+

lemma sqr_9_mul_9: "9 \<le> length a \<Longrightarrow> sp_521_sqr_9 a = sp_521_mul_9 a a"
  by (simp only: sp_521_sqr_9_cols sp_521_mul_9_cols)

lemma mont_sqr_9:
  assumes "fe521 a"
  shows "fe521 (sp_521_mont_sqr_9 a m mp)"
    and "val521 (sp_521_mont_sqr_9 a m mp) mod P521 = (val521 a * val521 a) mod P521"
  using mont_mul_9 [OF assms assms] fe521_digits(1) [OF assms]
  by (simp_all only: sp_521_mont_sqr_9_def sp_521_mont_mul_9_def sqr_9_mul_9)

section \<open>The field of P-521\<close>

interpretation f521: mont_field P521 fe521 val521
  "\<lambda>a b. sp_521_mont_mul_9 a b p521_mod p521_mp_mod"
  "\<lambda>a. sp_521_mont_sqr_9 a p521_mod p521_mp_mod"
  "\<lambda>a b. sp_521_mont_add_9 a b p521_mod" "\<lambda>a b. sp_521_mont_sub_9 a b p521_mod"
  "\<lambda>a. sp_521_mont_dbl_9 a p521_mod" "\<lambda>a. sp_521_mont_tpl_9 a p521_mod"
  "\<lambda>a. sp_521_mont_div2_9 a p521_mod"
proof
  show "odd P521" by (simp add: P521_def)
qed (simp_all add: mont_mul_9 mont_add_9 mont_sub_9 mont_sqr_9 mont_dbl_9 mont_tpl_9 mont_div2_9)

section \<open>Properties\<close>

lemma fe521_consts: "fe521 p521_mod" "fe521 p521_norm_mod" "fe521 p521_b"
  "fe521 (pt_x p521_base)" "fe521 (pt_y p521_base)" "fe521 (pt_z p521_base)"
  by (simp_all add: fe521_def val521_def P521_def p521_mod_def p521_norm_mod_def p521_b_def p521_base_def)

text \<open>The shift inside the halving is out of the range of a signed 64-bit number for every digit of 64 and more,
  so that the result of the halving rests on the wrap-around.\<close>

lemma rshift1_shift_overflows: "64 \<le> d \<Longrightarrow> 2 ^ 63 \<le> d * 2 ^ 57 \<and> s64 (d * 2 ^ 57) \<noteq> d * 2 ^ 57"
  using s64_range [of "d * 2 ^ 57"] by auto

text \<open>C1: The field operations of P-521 (Montgomery multiplication and squaring, addition, subtraction,
  doubling, tripling and halving).  For operands whose digits are at most \<open>2^58\<close> and whose value is
  at most the prime, each result again has such digits and a value at most the prime, and is the product, square, sum, difference, double, triple and half
  modulo the prime.\<close>

theorem sp_521_field_correct:
  assumes "fe521 a" "fe521 b"
  shows "fe521 (sp_521_mont_mul_9 a b p521_mod p521_mp_mod) \<and>
      val521 (sp_521_mont_mul_9 a b p521_mod p521_mp_mod) mod P521 = (val521 a * val521 b) mod P521 \<and>
    fe521 (sp_521_mont_sqr_9 a p521_mod p521_mp_mod) \<and>
      val521 (sp_521_mont_sqr_9 a p521_mod p521_mp_mod) mod P521 = (val521 a * val521 a) mod P521 \<and>
    fe521 (sp_521_mont_add_9 a b p521_mod) \<and>
      val521 (sp_521_mont_add_9 a b p521_mod) mod P521 = (val521 a + val521 b) mod P521 \<and>
    fe521 (sp_521_mont_sub_9 a b p521_mod) \<and>
      val521 (sp_521_mont_sub_9 a b p521_mod) mod P521 = (val521 a - val521 b) mod P521 \<and>
    fe521 (sp_521_mont_dbl_9 a p521_mod) \<and>
      val521 (sp_521_mont_dbl_9 a p521_mod) mod P521 = (2 * val521 a) mod P521 \<and>
    fe521 (sp_521_mont_tpl_9 a p521_mod) \<and>
      val521 (sp_521_mont_tpl_9 a p521_mod) mod P521 = (3 * val521 a) mod P521 \<and>
    fe521 (sp_521_mont_div2_9 a p521_mod) \<and>
      (2 * val521 (sp_521_mont_div2_9 a p521_mod)) mod P521 = val521 a mod P521"
  using f521.mul_law [OF assms] f521.sqr_law [OF assms(1)] f521.add_law [OF assms] f521.sub_law [OF assms]
    f521.dbl_law [OF assms(1)] f521.tpl_law [OF assms(1)] f521.half_law [OF assms(1)] by blast

theorem sp_521_field_correct_witness:
  "fe521 (sp_521_mont_mul_9 (pt_x p521_base) p521_b p521_mod p521_mp_mod) \<and>
   val521 (sp_521_mont_mul_9 (pt_x p521_base) p521_b p521_mod p521_mp_mod) mod P521
     = (val521 (pt_x p521_base) * val521 p521_b) mod P521"
  using sp_521_field_correct [OF fe521_consts(4,3)] by blast

lemma sp_521_cmp_9_sign:
  assumes "length a = 9" "length b = 9" "digits_in 0 (2 ^ 58) a" "digits_in 0 (2 ^ 58) b"
  shows "sgn (sp_521_cmp_9 a b) = sgn (val521 a - val521 b)"
  using cmp_digits_sgn [of a b 58] assms by (simp add: sp_521_cmp_9_def val521_def)

end
