(* ===== verification/Jacobian.thy ===== *)
theory Jacobian
  imports Main
begin

text \<open>
  Curves \<open>y\<^sup>2 = x\<^sup>3 - 3 x + b\<close> modulo a prime, in affine and in Jacobian
  coordinates (\<open>X = x z\<^sup>2\<close>, \<open>Y = y z\<^sup>3\<close>), over integers.  The affine chord
  and tangent laws are the specification of the point formulas; slopes are
  given by their defining congruence, so no division is needed.
\<close>

section \<open>The affine group law\<close>

definition aff_x3 :: "int \<Rightarrow> int \<Rightarrow> int \<Rightarrow> int" where
  "aff_x3 l x1 x2 = l ^ 2 - x1 - x2"

definition aff_y3 :: "int \<Rightarrow> int \<Rightarrow> int \<Rightarrow> int \<Rightarrow> int" where
  "aff_y3 l x1 y1 x2 = l * (x1 - aff_x3 l x1 x2) - y1"

definition chord_slope :: "int \<Rightarrow> int \<Rightarrow> int \<Rightarrow> int \<Rightarrow> int \<Rightarrow> int \<Rightarrow> bool" where
  "chord_slope p l x1 y1 x2 y2 \<longleftrightarrow> (l * (x2 - x1)) mod p = (y2 - y1) mod p"

definition tangent_slope :: "int \<Rightarrow> int \<Rightarrow> int \<Rightarrow> int \<Rightarrow> bool" where
  "tangent_slope p l x y \<longleftrightarrow> (l * (2 * y)) mod p = (3 * (x ^ 2 - 1)) mod p"

section \<open>Jacobian coordinates on the curve\<close>

definition curve_poly :: "int \<Rightarrow> int \<Rightarrow> int \<Rightarrow> int \<Rightarrow> int" where
  "curve_poly b x y z = y ^ 2 - x ^ 3 + 3 * x * z ^ 4 - b * z ^ 6"

definition jac_on_curve :: "int \<Rightarrow> int \<Rightarrow> int \<Rightarrow> int \<Rightarrow> int \<Rightarrow> bool" where
  "jac_on_curve p b x y z \<longleftrightarrow> p dvd curve_poly b x y z"

lemma curve_poly_affine: "curve_poly b x y 1 = y * y - x * x * x + 3 * x - b"
  by (simp add: curve_poly_def power2_eq_square power3_eq_cube)

lemma jac_on_curve_mod:
  assumes "x mod p = x' mod p" "y mod p = y' mod p" "z mod p = z' mod p"
  shows "jac_on_curve p b x y z \<longleftrightarrow> jac_on_curve p b x' y' z'"
proof -
  have pw: "z ^ n mod p = z' ^ n mod p" "x ^ n mod p = x' ^ n mod p" "y ^ n mod p = y' ^ n mod p" for n
    using assms by (metis power_mod)+
  have "curve_poly b x y z mod p = curve_poly b x' y' z' mod p"
    unfolding curve_poly_def by (intro mod_diff_cong mod_add_cong mod_mult_cong pw assms refl)
  then show ?thesis by (simp add: jac_on_curve_def dvd_eq_mod_eq_0)
qed

text \<open>The doubling and addition formulas map curve points to curve points.\<close>

lemma curve_poly_dbl:
  fixes x y z b :: int
  assumes "m = 3 * ((x + z * z) * (x - z * z))" and "s = (2 * y) * (2 * y) * x"
    and "x3 = m * m - s - s" and "y3 = (s - x3) * m - 8 * y ^ 4" and "z3 = 2 * (y * z)"
  shows "curve_poly b x3 y3 z3 = 64 * y ^ 6 * curve_poly b x y z"
  unfolding assms curve_poly_def by algebra

lemma curve_poly_add:
  fixes u1 s1 u2 s2 z b :: int
  assumes "h = u2 - u1" and "r = s2 - s1"
    and "x3 = r * r - h * h * h - 2 * (u1 * (h * h))" and "y3 = (u1 * (h * h) - x3) * r - h * h * h * s1"
  defines "k \<equiv> h ^ 3 * (r * r - h ^ 3 - 3 * u1 * h ^ 2)"
  shows "curve_poly b x3 y3 (h * z) = (h ^ 6 - k) * curve_poly b u1 s1 z + k * curve_poly b u2 s2 z"
  unfolding assms curve_poly_def by algebra

lemma jac_on_curve_add:
  fixes u1 s1 u2 s2 z b :: int
  assumes "jac_on_curve p b u1 s1 z" and "jac_on_curve p b u2 s2 z"
  defines "h \<equiv> u2 - u1" and "r \<equiv> s2 - s1"
  defines "x3 \<equiv> r * r - h * h * h - 2 * (u1 * (h * h))"
  shows "jac_on_curve p b x3 ((u1 * (h * h) - x3) * r - h * h * h * s1) (h * z)"
  unfolding jac_on_curve_def x3_def h_def r_def
  unfolding curve_poly_add [OF refl refl refl refl]
  using assms(1,2) unfolding jac_on_curve_def by (intro dvd_add dvd_mult)

lemma curve_poly_scale: "curve_poly b (x * c ^ 2) (y * c ^ 3) (z * c) = c ^ 6 * curve_poly b x y z"
  unfolding curve_poly_def by algebra

text \<open>
  In Jacobian coordinates the tangent and chord constructions are the affine
  ones, with the new \<open>z\<close> as the common denominator.
\<close>

lemma jac_dbl_tangent:
  fixes x y z l :: int
  assumes "m = l * (2 * (y * z ^ 3 * z))" and "s = (2 * (y * z ^ 3)) * (2 * (y * z ^ 3)) * (x * z ^ 2)"
    and "z3 = 2 * (y * z ^ 3 * z)"
  shows "m * m - s - s = aff_x3 l x x * z3 ^ 2"
    and "(s - (m * m - s - s)) * m - 8 * (y * z ^ 3) ^ 4 = aff_y3 l x y x * z3 ^ 3"
  unfolding assms aff_y3_def aff_x3_def by algebra+

lemma jac_add_chord:
  fixes x1 y1 x2 y2 z l :: int
  assumes "h = x2 * z ^ 2 - x1 * z ^ 2" and "r = l * (x2 - x1) * z ^ 3"
    and "u1 = x1 * z ^ 2" and "s1 = y1 * z ^ 3"
  shows "r * r - h * h * h - 2 * (u1 * (h * h)) = aff_x3 l x1 x2 * (h * z) ^ 2"
    and "(u1 * (h * h) - aff_x3 l x1 x2 * (h * z) ^ 2) * r - h * h * h * s1
      = aff_y3 l x1 y1 x2 * (h * z) ^ 3"
  unfolding assms aff_y3_def aff_x3_def by algebra+

end
