(* ===== verification/Sp521Point.thy ===== *)
theory Sp521Point
  imports Sp521Field Jacobian
begin

text \<open>
  Inversion, conversion to affine coordinates and the Jacobian point formulas of
  P-521, in their blocking form and as the step functions of the non-blocking
  form (\<^verbatim>\<open>WOLFSSL_SP_NONBLOCK\<close>).

  The scratch arrays \<open>td\<close>, \<open>t\<close> hold no input; the model names their parts.
  \<open>infinity\<close> is a C \<open>int\<close>, \<open>0\<close> or \<open>1\<close>.
\<close>

section \<open>Inversion and affine coordinates\<close>

definition sp_521_mont_inv_9 :: "int list \<Rightarrow> int list" where
  "sp_521_mont_inv_9 a =
    (let mul = (\<lambda>x y. sp_521_mont_mul_9 x y p521_mod p521_mp_mod);
         sqr = (\<lambda>x. sp_521_mont_sqr_9 x p521_mod p521_mp_mod);
         sqr_n = (\<lambda>x n. sp_521_mont_sqr_n_9 x n p521_mod p521_mp_mod);
         t1 = sqr a;
         t2 = mul t1 a;
         t1 = sqr t2;
         t3 = mul t1 a;
         t1 = sqr_n t2 2;
         t2 = mul t2 t1;
         t1 = sqr_n t2 3;
         t3 = mul t3 t1;
         t1 = sqr_n t2 4;
         t2 = mul t2 t1;
         t1 = sqr_n t2 8;
         t2 = mul t2 t1;
         t1 = sqr_n t2 16;
         t2 = mul t2 t1;
         t1 = sqr_n t2 32;
         t2 = mul t2 t1;
         t1 = sqr_n t2 64;
         t2 = mul t2 t1;
         t1 = sqr_n t2 128;
         t2 = mul t2 t1;
         t1 = sqr_n t2 256;
         t2 = mul t2 t1;
         t1 = sqr_n t2 7;
         t2 = mul t3 t1;
         t1 = sqr_n t2 2
     in mul t1 a)"

text \<open>
  One coordinate of \<open>sp_521_map_9\<close> after the product: clear the upper half,
  reduce, subtract the modulus when the number is not below it.
\<close>

definition map_coord_9 :: "int list \<Rightarrow> int list" where
  "map_coord_9 r =
    (let r = sp_521_mont_reduce_9 (take 9 r @ replicate 9 0) p521_mod p521_mp_mod;
         n = sp_521_cmp_9 r p521_mod;
         r = sp_521_cond_sub_9 r p521_mod (NOT (sar n 57))
     in sp_521_norm_9 r)"

definition sp_521_map_9 :: "sp_point_521 \<Rightarrow> sp_point_521 \<Rightarrow> sp_point_521" where
  "sp_521_map_9 r p =
    (let t1 = sp_521_mont_inv_9 (pt_z p);
         t2 = sp_521_mont_sqr_9 t1 p521_mod p521_mp_mod;
         t1 = sp_521_mont_mul_9 t2 t1 p521_mod p521_mp_mod;
         x = map_coord_9 (sp_521_mont_mul_9 (pt_x p) t2 p521_mod p521_mp_mod);
         y = map_coord_9 (sp_521_mont_mul_9 (pt_y p) t1 p521_mod p521_mp_mod)
     in r\<lparr>pt_x := x, pt_y := y, pt_z := 1 # replicate 8 0\<rparr>)"

section \<open>Point formulas\<close>

definition sp_521_proj_point_dbl_9 :: "sp_point_521 \<Rightarrow> sp_point_521" where
  "sp_521_proj_point_dbl_9 p =
    (let mul = (\<lambda>x y. sp_521_mont_mul_9 x y p521_mod p521_mp_mod);
         sqr = (\<lambda>x. sp_521_mont_sqr_9 x p521_mod p521_mp_mod);
         t1 = sqr (pt_z p);
         z = mul (pt_y p) (pt_z p);
         z = sp_521_mont_dbl_9 z p521_mod;
         t2 = sp_521_mont_sub_9 (pt_x p) t1 p521_mod;
         t1 = sp_521_mont_add_9 (pt_x p) t1 p521_mod;
         t2 = mul t1 t2;
         t1 = sp_521_mont_tpl_9 t2 p521_mod;
         y = sp_521_mont_dbl_9 (pt_y p) p521_mod;
         y = sqr y;
         t2 = sqr y;
         t2 = sp_521_mont_div2_9 t2 p521_mod;
         y = mul y (pt_x p);
         x = sqr t1;
         x = sp_521_mont_sub_9 x y p521_mod;
         x = sp_521_mont_sub_9 x y p521_mod;
         y = sp_521_mont_sub_9 y x p521_mod;
         y = mul y t1;
         y = sp_521_mont_sub_9 y t2 p521_mod
     in \<lparr>pt_x = x, pt_y = y, pt_z = z, infinity = infinity p\<rparr>)"

definition sp_521_cmp_equal_9 :: "int list \<Rightarrow> int list \<Rightarrow> int" where
  "sp_521_cmp_equal_9 a b =
    (if (a ! 0 XOR b ! 0) OR (a ! 1 XOR b ! 1) OR (a ! 2 XOR b ! 2) OR
        (a ! 3 XOR b ! 3) OR (a ! 4 XOR b ! 4) OR (a ! 5 XOR b ! 5) OR
        (a ! 6 XOR b ! 6) OR (a ! 7 XOR b ! 7) OR (a ! 8 XOR b ! 8) = 0 then 1 else 0)"

definition sp_521_iszero_9 :: "int list \<Rightarrow> int" where
  "sp_521_iszero_9 a =
    (if a ! 0 OR a ! 1 OR a ! 2 OR a ! 3 OR a ! 4 OR a ! 5 OR a ! 6 OR a ! 7 OR a ! 8 = 0
     then 1 else 0)"

text \<open>C's \<^verbatim>\<open>!\<close> on an \<open>int\<close>, and the three-way selection of the result coordinates.\<close>

definition c_not :: "int \<Rightarrow> int" where
  "c_not x = (if x = 0 then 1 else 0)"

definition select3 :: "int \<Rightarrow> int \<Rightarrow> int list \<Rightarrow> int list \<Rightarrow> int list \<Rightarrow> int list" where
  "select3 pinf qinf px qx x =
    (let maskp = s64 (0 - (qinf AND c_not pinf));
         maskq = s64 (0 - (pinf AND c_not qinf));
         maskt = NOT (maskp OR maskq)
     in map (\<lambda>i. (px ! i AND maskp) OR (qx ! i AND maskq) OR (x ! i AND maskt)) [0..<9])"

definition sp_521_proj_point_add_9 :: "sp_point_521 \<Rightarrow> sp_point_521 \<Rightarrow> sp_point_521" where
  "sp_521_proj_point_add_9 p q =
    (let mul = (\<lambda>x y. sp_521_mont_mul_9 x y p521_mod p521_mp_mod);
         sqr = (\<lambda>x. sp_521_mont_sqr_9 x p521_mod p521_mp_mod);
         t1 = sqr (pt_z q);
         t3 = mul t1 (pt_z q);
         t1 = mul t1 (pt_x p);
         t2 = sqr (pt_z p);
         t4 = mul t2 (pt_z p);
         t2 = mul t2 (pt_x q);
         t3 = mul t3 (pt_y p);
         t4 = mul t4 (pt_y q)
     in if (NOT (infinity p)) AND (NOT (infinity q)) AND sp_521_cmp_equal_9 t2 t1
           AND sp_521_cmp_equal_9 t4 t3 \<noteq> 0
        then sp_521_proj_point_dbl_9 p
        else
         (let t2 = sp_521_mont_sub_9 t2 t1 p521_mod;
              t4 = sp_521_mont_sub_9 t4 t3 p521_mod;
              t5 = sqr t2;
              y = mul t1 t5;
              t5 = mul t5 t2;
              z = mul (pt_z p) t2;
              z = mul z (pt_z q);
              x = sqr t4;
              x = sp_521_mont_sub_9 x t5 p521_mod;
              t5 = mul t5 t3;
              t3 = sp_521_mont_dbl_9 y p521_mod;
              x = sp_521_mont_sub_9 x t3 p521_mod;
              y = sp_521_mont_sub_9 y x p521_mod;
              y = mul y t4;
              y = sp_521_mont_sub_9 y t5 p521_mod;
              inf = infinity p AND infinity q;
              rz = select3 (infinity p) (infinity q) (pt_z p) (pt_z q) z
          in \<lparr>pt_x = select3 (infinity p) (infinity q) (pt_x p) (pt_x q) x,
              pt_y = select3 (infinity p) (infinity q) (pt_y p) (pt_y q) y,
              pt_z = rz[0 := rz ! 0 OR inf], infinity = inf\<rparr>))"

section \<open>The inversion chain\<close>

lemma sqr_more_9_funpow: "sqr_more_9 n r m mp = ((\<lambda>x. sp_521_mont_sqr_9 x m mp) ^^ (n - 1)) r"
  by (induction n r m mp rule: sqr_more_9.induct) (simp_all add: funpow_Suc_right del: funpow.simps)

lemma mont_sqr_n_9_funpow:
  "0 < n \<Longrightarrow> sp_521_mont_sqr_n_9 a n m mp = ((\<lambda>x. sp_521_mont_sqr_9 x m mp) ^^ n) a"
  by (cases n) (simp_all add: sp_521_mont_sqr_n_9_def sqr_more_9_funpow funpow_Suc_right
      del: funpow.simps)

lemma power_mult_Suc: "(x ^ e) ^ k * x = x ^ (e * k + 1)" for x :: int and e k :: nat
  by (simp add: power_mult)

text \<open>The exponents the source's comments give for the temporaries.\<close>

lemma mont_inv_9_rep:
  assumes "f521.rep a x"
  shows "f521.rep (sp_521_mont_inv_9 a) (x ^ (2 ^ 521 - 3))"
proof -
  let ?mul = "\<lambda>x y. sp_521_mont_mul_9 x y p521_mod p521_mp_mod"
  let ?sqr = "\<lambda>x. sp_521_mont_sqr_9 x p521_mod p521_mp_mod"
  have a1: "f521.rep a (x ^ (2 ^ 1 - 1))" using assms by simp
  note ones = f521.rep_ones(1) f521.rep_ones(2)
  define e2 where "e2 = ?mul (?sqr a) a"
  have e2: "f521.rep e2 (x ^ (2 ^ 2 - 1))"
    using ones(2) [OF a1 a1] by (simp add: e2_def)
  define e3 where "e3 = ?mul (?sqr e2) a"
  have e3: "f521.rep e3 (x ^ (2 ^ 3 - 1))"
    using ones(2) [OF a1 e2] by (simp add: e3_def)
  define e4 where "e4 = ?mul e2 ((?sqr ^^ 2) e2)"
  have e4: "f521.rep e4 (x ^ (2 ^ 4 - 1))" using ones(1) [OF e2 e2] by (simp add: e4_def)
  define e7 where "e7 = ?mul e3 ((?sqr ^^ 3) e4)"
  have e7: "f521.rep e7 (x ^ (2 ^ 7 - 1))" using ones(1) [OF e3 e4] by (simp add: e7_def)
  have double: "f521.rep (?mul t ((?sqr ^^ k) t)) (x ^ (2 ^ l - 1))"
    if "f521.rep t (x ^ (2 ^ k - 1))" "l = k + k" for t k l
    using ones(1) [OF that(1) that(1)] that(2) by simp
  define e8 where "e8 = ?mul e4 ((?sqr ^^ 4) e4)"
  have e8: "f521.rep e8 (x ^ (2 ^ 8 - 1))" unfolding e8_def by (rule double [OF e4]) simp
  define e16 where "e16 = ?mul e8 ((?sqr ^^ 8) e8)"
  have e16: "f521.rep e16 (x ^ (2 ^ 16 - 1))" unfolding e16_def by (rule double [OF e8]) simp
  define e32 where "e32 = ?mul e16 ((?sqr ^^ 16) e16)"
  have e32: "f521.rep e32 (x ^ (2 ^ 32 - 1))" unfolding e32_def by (rule double [OF e16]) simp
  define e64 where "e64 = ?mul e32 ((?sqr ^^ 32) e32)"
  have e64: "f521.rep e64 (x ^ (2 ^ 64 - 1))" unfolding e64_def by (rule double [OF e32]) simp
  define e128 where "e128 = ?mul e64 ((?sqr ^^ 64) e64)"
  have e128: "f521.rep e128 (x ^ (2 ^ 128 - 1))" unfolding e128_def by (rule double [OF e64]) simp
  define e256 where "e256 = ?mul e128 ((?sqr ^^ 128) e128)"
  have e256: "f521.rep e256 (x ^ (2 ^ 256 - 1))" unfolding e256_def by (rule double [OF e128]) simp
  define e512 where "e512 = ?mul e256 ((?sqr ^^ 256) e256)"
  have e512: "f521.rep e512 (x ^ (2 ^ 512 - 1))" unfolding e512_def by (rule double [OF e256]) simp
  define e519 where "e519 = ?mul e7 ((?sqr ^^ 7) e512)"
  have e519: "f521.rep e519 (x ^ (2 ^ (7 + 512) - 1))"
    unfolding e519_def by (rule ones(1) [OF e7 e512])
  have r: "f521.rep (?mul ((?sqr ^^ 2) e519) a) ((x ^ (2 ^ (7 + 512) - 1)) ^ 2 ^ 2 * x)"
    by (intro f521.rep_mul f521.rep_sqr_funpow e519 assms)
  have "((2 :: nat) ^ (7 + 512) - 1) * 2 ^ 2 + 1 = 2 ^ 521 - 3" by simp
  then have "(x ^ (2 ^ (7 + 512) - 1)) ^ 2 ^ 2 * x = x ^ (2 ^ 521 - 3)"
    by (simp only: power_mult_Suc)
  with r have "f521.rep (?mul ((?sqr ^^ 2) e519) a) (x ^ (2 ^ 521 - 3))" by (simp only:)
  moreover have "sp_521_mont_inv_9 a = ?mul ((?sqr ^^ 2) e519) a"
    unfolding sp_521_mont_inv_9_def Let_def e519_def e512_def e256_def e128_def e64_def e32_def
      e16_def e8_def e7_def e4_def e3_def e2_def
    by (simp only: mont_sqr_n_9_funpow zero_less_numeral)
  ultimately show ?thesis by (simp only:)
qed

section \<open>Doubling\<close>

definition B521 :: int where
  "B521 = lval 58 p521_b"

text \<open>A point whose coordinates stand for the Jacobian coordinates \<open>(x, y, z)\<close>.\<close>

definition pt521 :: "sp_point_521 \<Rightarrow> int \<Rightarrow> int \<Rightarrow> int \<Rightarrow> bool" where
  "pt521 p x y z \<longleftrightarrow> f521.rep (pt_x p) x \<and> f521.rep (pt_y p) y \<and> f521.rep (pt_z p) z"

lemma proj_point_dbl_9_pt:
  assumes "pt521 p x y z" and m: "(3 * ((x + z * z) * (x - z * z))) mod P521 = m mod P521"
  defines "s \<equiv> (2 * y) * (2 * y) * x"
  shows "pt521 (sp_521_proj_point_dbl_9 p)
     (m * m - s - s) ((s - (m * m - s - s)) * m - 8 * y ^ 4) (2 * (y * z))"
proof -
  have x: "f521.rep (pt_x p) x" and y: "f521.rep (pt_y p) y" and z: "f521.rep (pt_z p) z"
    using assms(1) by (simp_all add: pt521_def)
  have "2 * (8 * y ^ 4) = (2 * y) * (2 * y) * ((2 * y) * (2 * y))" by algebra
  then have "f521.rep (sp_521_mont_sqr_9 (sp_521_mont_sqr_9 (sp_521_mont_dbl_9 (pt_y p) p521_mod)
      p521_mod p521_mp_mod) p521_mod p521_mp_mod) (2 * (8 * y ^ 4))"
    using f521.rep_sqr [OF f521.rep_sqr [OF f521.rep_dbl [OF y]]] by (simp only:)
  note half = f521.rep_half [OF this]
  have slope: "f521.rep (sp_521_mont_tpl_9 (sp_521_mont_mul_9
        (sp_521_mont_add_9 (pt_x p) (sp_521_mont_sqr_9 (pt_z p) p521_mod p521_mp_mod) p521_mod)
        (sp_521_mont_sub_9 (pt_x p) (sp_521_mont_sqr_9 (pt_z p) p521_mod p521_mp_mod) p521_mod)
        p521_mod p521_mp_mod) p521_mod) m"
    by (rule f521.rep_cong [OF _ m]) (intro f521.rep_intros x z)
  show ?thesis
    unfolding pt521_def sp_521_proj_point_dbl_9_def Let_def sp_point_521.simps s_def
    by (intro conjI slope f521.rep_intros half x y z)
qed

lemma proj_point_dbl_9_tangent:
  assumes "pt521 p (x * z ^ 2) (y * z ^ 3) z" and "tangent_slope P521 l x y"
  defines "z3 \<equiv> 2 * (y * z ^ 3 * z)"
  shows "pt521 (sp_521_proj_point_dbl_9 p) (aff_x3 l x x * z3 ^ 2) (aff_y3 l x y x * z3 ^ 3) z3"
proof -
  have "3 * ((x * z ^ 2 + z * z) * (x * z ^ 2 - z * z)) = 3 * (x ^ 2 - 1) * z ^ 4"
    and l: "l * z3 = l * (2 * y) * z ^ 4" unfolding z3_def by algebra+
  moreover have "3 * (x ^ 2 - 1) * z ^ 4 mod P521 = l * (2 * y) * z ^ 4 mod P521"
    using assms(2) unfolding tangent_slope_def by (intro mod_mult_cong [OF _ refl]) simp
  ultimately have "(3 * ((x * z ^ 2 + z * z) * (x * z ^ 2 - z * z))) mod P521 = (l * z3) mod P521"
    by (simp only:)
  from proj_point_dbl_9_pt [OF assms(1) this]
    jac_dbl_tangent [OF arg_cong [OF z3_def [THEN meta_eq_to_obj_eq], of "(*) l"] refl z3_def [THEN meta_eq_to_obj_eq]]
  show ?thesis by (simp only: z3_def [THEN meta_eq_to_obj_eq, symmetric])
qed

text \<open>A well-formed point that satisfies the curve equation.\<close>

definition valid521 :: "sp_point_521 \<Rightarrow> bool" where
  "valid521 p \<longleftrightarrow> fe521 (pt_x p) \<and> fe521 (pt_y p) \<and> fe521 (pt_z p) \<and>
     jac_on_curve P521 B521 (val521 (pt_x p)) (val521 (pt_y p)) (val521 (pt_z p))"

lemma pt521_self:
  "fe521 (pt_x p) \<Longrightarrow> fe521 (pt_y p) \<Longrightarrow> fe521 (pt_z p) \<Longrightarrow>
     pt521 p (val521 (pt_x p)) (val521 (pt_y p)) (val521 (pt_z p))"
  by (simp add: pt521_def f521.rep_self)

lemma pt521_valid: "pt521 p x y z \<Longrightarrow> valid521 p \<longleftrightarrow> jac_on_curve P521 B521 x y z"
  unfolding pt521_def valid521_def f521.rep_def
  using jac_on_curve_mod [of "val521 (pt_x p)" P521 x "val521 (pt_y p)" y "val521 (pt_z p)" z B521]
  by blast

lemma proj_point_dbl_9_valid:
  assumes "valid521 p"
  shows "valid521 (sp_521_proj_point_dbl_9 p)"
proof -
  define x y z where "x = val521 (pt_x p)" and "y = val521 (pt_y p)" and "z = val521 (pt_z p)"
  define m where "m = 3 * ((x + z * z) * (x - z * z))"
  define s where "s = (2 * y) * (2 * y) * x"
  have p: "pt521 p x y z" using assms by (simp add: valid521_def x_def y_def z_def pt521_self)
  have "jac_on_curve P521 B521 (m * m - s - s) ((s - (m * m - s - s)) * m - 8 * y ^ 4) (2 * (y * z))"
    using assms curve_poly_dbl [OF m_def s_def refl refl refl]
    by (simp add: jac_on_curve_def valid521_def x_def y_def z_def)
  then show ?thesis
    using pt521_valid [OF proj_point_dbl_9_pt [OF p, of m]] by (simp add: m_def s_def)
qed

section \<open>Addition\<close>

lemma or_0_iff: "(x :: int) OR y = 0 \<longleftrightarrow> x = 0 \<and> y = 0"
  by (auto simp: bit_eq_iff bit_or_iff)

lemma xor_0_iff: "(x :: int) XOR y = 0 \<longleftrightarrow> x = y"
  by (auto simp: bit_eq_iff bit_xor_iff)

lemma cmp_equal_9_iff:
  assumes "9 \<le> length a" "9 \<le> length b"
  shows "sp_521_cmp_equal_9 a b = (if take 9 a = take 9 b then 1 else 0)"
  using assms by (simp add: sp_521_cmp_equal_9_def or_0_iff xor_0_iff take9_nth)

lemma iszero_9_iff:
  assumes "9 \<le> length a"
  shows "sp_521_iszero_9 a = (if take 9 a = [0, 0, 0, 0, 0, 0, 0, 0, 0] then 1 else 0)"
  using assms by (simp add: sp_521_iszero_9_def or_0_iff take9_nth)

lemma select3_simps [simp]:
  "select3 0 0 px qx x = map (\<lambda>i. x ! i) [0..<9]"
  "select3 1 0 px qx x = map (\<lambda>i. qx ! i) [0..<9]"
  "select3 0 1 px qx x = map (\<lambda>i. px ! i) [0..<9]"
  "select3 1 1 px qx x = map (\<lambda>i. x ! i) [0..<9]"
  by (simp_all add: select3_def Let_def c_not_def s64_def del: upt_rec_numeral)

lemma map_nth_9: "9 \<le> length a \<Longrightarrow> map (\<lambda>i. a ! i) [0..<9] = take 9 a"
  by (rule nth_equalityI) (simp_all del: upt_rec_numeral)

lemma rep_take9: "f521.rep a x \<Longrightarrow> f521.rep (take 9 a) x"
  by (simp add: f521.rep_def fe521_def val521_def)

lemma rep_eq_digits:
  "f521.rep a x \<Longrightarrow> f521.rep b y \<Longrightarrow> take 9 a = take 9 b \<Longrightarrow> P521 dvd x - y"
  by (simp add: f521.rep_def val521_def mod_eq_dvd_iff [symmetric])

text \<open>The comparison that sends an addition to the doubling code.\<close>

definition same_9 :: "sp_point_521 \<Rightarrow> sp_point_521 \<Rightarrow> bool" where
  "same_9 p q \<longleftrightarrow>
    (let mul = (\<lambda>x y. sp_521_mont_mul_9 x y p521_mod p521_mp_mod);
         sqr = (\<lambda>x. sp_521_mont_sqr_9 x p521_mod p521_mp_mod)
     in take 9 (mul (sqr (pt_z p)) (pt_x q)) = take 9 (mul (sqr (pt_z q)) (pt_x p)) \<and>
        take 9 (mul (mul (sqr (pt_z p)) (pt_z p)) (pt_y q))
          = take 9 (mul (mul (sqr (pt_z q)) (pt_z q)) (pt_y p)))"

lemma not_same_9:
  assumes p: "pt521 p x1 y1 z1" and q: "pt521 q x2 y2 z2"
    and "\<not> (P521 dvd z1 * z1 * x2 - z2 * z2 * x1 \<and> P521 dvd z1 * z1 * z1 * y2 - z2 * z2 * z2 * y1)"
  shows "\<not> same_9 p q"
proof
  assume same: "same_9 p q"
  have c: "f521.rep (pt_x p) x1" "f521.rep (pt_y p) y1" "f521.rep (pt_z p) z1"
    "f521.rep (pt_x q) x2" "f521.rep (pt_y q) y2" "f521.rep (pt_z q) z2"
    using p q by (simp_all add: pt521_def)
  have "P521 dvd z1 * z1 * x2 - z2 * z2 * x1"
    by (rule rep_eq_digits [OF _ _ conjunct1 [OF same [unfolded same_9_def Let_def]]])
      (intro f521.rep_intros c)+
  moreover have "P521 dvd z1 * z1 * z1 * y2 - z2 * z2 * z2 * y1"
    by (rule rep_eq_digits [OF _ _ conjunct2 [OF same [unfolded same_9_def Let_def]]])
      (intro f521.rep_intros c)+
  ultimately show False using assms(3) by blast
qed

lemma proj_point_add_9_pt:
  assumes p: "pt521 p x1 y1 z1" and q: "pt521 q x2 y2 z2"
    and inf: "infinity p = 0" "infinity q = 0"
  defines "u1 \<equiv> z2 * z2 * x1" and "u2 \<equiv> z1 * z1 * x2"
    and "s1 \<equiv> z2 * z2 * z2 * y1" and "s2 \<equiv> z1 * z1 * z1 * y2"
  assumes ne: "\<not> same_9 p q"
    and r: "(s2 - s1) mod P521 = r mod P521"
  defines "h \<equiv> u2 - u1"
  defines "x3 \<equiv> r * r - h * h * h - 2 * (u1 * (h * h))"
  shows "pt521 (sp_521_proj_point_add_9 p q)
     x3 ((u1 * (h * h) - x3) * r - h * h * h * s1) (z1 * h * z2)"
    and "infinity (sp_521_proj_point_add_9 p q) = 0"
proof -
  let ?mul = "\<lambda>x y. sp_521_mont_mul_9 x y p521_mod p521_mp_mod"
  let ?sqr = "\<lambda>x. sp_521_mont_sqr_9 x p521_mod p521_mp_mod"
  let ?sub = "\<lambda>x y. sp_521_mont_sub_9 x y p521_mod"
  define t1 t2 t3 t4 where "t1 = ?mul (?sqr (pt_z q)) (pt_x p)"
    and "t2 = ?mul (?sqr (pt_z p)) (pt_x q)"
    and "t3 = ?mul (?mul (?sqr (pt_z q)) (pt_z q)) (pt_y p)"
    and "t4 = ?mul (?mul (?sqr (pt_z p)) (pt_z p)) (pt_y q)"
  have c: "f521.rep (pt_x p) x1" "f521.rep (pt_y p) y1" "f521.rep (pt_z p) z1"
    "f521.rep (pt_x q) x2" "f521.rep (pt_y q) y2" "f521.rep (pt_z q) z2"
    using p q by (simp_all add: pt521_def)
  have t: "f521.rep t1 u1" "f521.rep t2 u2" "f521.rep t3 s1" "f521.rep t4 s2"
    unfolding t1_def t2_def t3_def t4_def u1_def u2_def s1_def s2_def
    by (intro f521.rep_intros c)+
  then have len: "9 \<le> length t1" "9 \<le> length t2" "9 \<le> length t3" "9 \<le> length t4"
    by (simp_all add: f521.rep_def fe521_def)
  have "\<not> (take 9 t2 = take 9 t1 \<and> take 9 t4 = take 9 t3)"
    using ne unfolding same_9_def Let_def t1_def t2_def t3_def t4_def .
  then have cond: "sp_521_cmp_equal_9 t2 t1 AND sp_521_cmp_equal_9 t4 t3 = 0"
    by (auto simp: cmp_equal_9_iff len)
  define hh rr where "hh = ?sub t2 t1" and "rr = ?sub t4 t3"
  have hh: "f521.rep hh h" unfolding hh_def h_def by (intro f521.rep_intros t)
  have rr: "f521.rep rr r" unfolding rr_def by (rule f521.rep_cong [OF _ r]) (intro f521.rep_intros t)
  define x where "x = ?sub (?sub (?sqr rr) (?mul (?sqr hh) hh))
     (sp_521_mont_dbl_9 (?mul t1 (?sqr hh)) p521_mod)"
  define y where "y = ?sub (?mul (?sub (?mul t1 (?sqr hh)) x) rr) (?mul (?mul (?sqr hh) hh) t3)"
  define z where "z = ?mul (?mul (pt_z p) hh) (pt_z q)"
  have x: "f521.rep x x3" unfolding x_def x3_def by (intro f521.rep_intros t hh rr)
  have y: "f521.rep y ((u1 * (h * h) - x3) * r - h * h * h * s1)"
    unfolding y_def by (intro f521.rep_intros t hh rr x)
  have z: "f521.rep z (z1 * h * z2)" unfolding z_def by (intro f521.rep_intros c hh)
  have l: "9 \<le> length x" "9 \<le> length y" "9 \<le> length z"
    using x y z by (simp_all add: f521.rep_def fe521_def)
  have add: "sp_521_proj_point_add_9 p q
      = \<lparr>pt_x = take 9 x, pt_y = take 9 y, pt_z = take 9 z, infinity = 0\<rparr>"
    unfolding sp_521_proj_point_add_9_def Let_def t1_def [symmetric] t2_def [symmetric]
      t3_def [symmetric] t4_def [symmetric] hh_def [symmetric] rr_def [symmetric]
      x_def [symmetric] y_def [symmetric] z_def [symmetric] inf select3_simps
    using list_update_id [of "take 9 z" 0] by (simp add: cond map_nth_9 l del: upt_rec_numeral)
  show "pt521 (sp_521_proj_point_add_9 p q) x3 ((u1 * (h * h) - x3) * r - h * h * h * s1) (z1 * h * z2)"
    using x y z by (simp add: add pt521_def rep_take9)
  show "infinity (sp_521_proj_point_add_9 p q) = 0" by (simp add: add)
qed

text \<open>With both operands given by affine coordinates, the result is on the chord.\<close>

lemma proj_point_add_9_chord:
  assumes p: "pt521 p (x1 * z1 ^ 2) (y1 * z1 ^ 3) z1" and q: "pt521 q (x2 * z2 ^ 2) (y2 * z2 ^ 3) z2"
    and inf: "infinity p = 0" "infinity q = 0"
    and ne: "\<not> P521 dvd (x2 - x1) * (z1 * z2) ^ 2"
    and slope: "chord_slope P521 l x1 y1 x2 y2"
  defines "z3 \<equiv> (x2 - x1) * (z1 * z2) ^ 3"
  shows "pt521 (sp_521_proj_point_add_9 p q) (aff_x3 l x1 x2 * z3 ^ 2) (aff_y3 l x1 y1 x2 * z3 ^ 3) z3"
    and "infinity (sp_521_proj_point_add_9 p q) = 0"
proof -
  define z where "z = z1 * z2"
  have u: "z2 * z2 * (x1 * z1 ^ 2) = x1 * z ^ 2" "z1 * z1 * (x2 * z2 ^ 2) = x2 * z ^ 2"
    and s: "z2 * z2 * z2 * (y1 * z1 ^ 3) = y1 * z ^ 3" "z1 * z1 * z1 * (y2 * z2 ^ 3) = y2 * z ^ 3"
    and z3: "z1 * (x2 * z ^ 2 - x1 * z ^ 2) * z2 = z3" "(x2 * z ^ 2 - x1 * z ^ 2) * z = z3"
    unfolding z_def z3_def by algebra+
  have ne': "\<not> same_9 p q"
    by (rule not_same_9 [OF p q]) (unfold u, use ne in \<open>simp add: z_def left_diff_distrib\<close>)
  have "(y2 - y1) * z ^ 3 mod P521 = l * (x2 - x1) * z ^ 3 mod P521"
    using slope unfolding chord_slope_def by (intro mod_mult_cong [OF _ refl]) simp
  then have r: "(y2 * z ^ 3 - y1 * z ^ 3) mod P521 = l * (x2 - x1) * z ^ 3 mod P521"
    by (simp only: left_diff_distrib)
  note add = proj_point_add_9_pt [OF p q inf, unfolded u s, OF ne' r, unfolded z3]
  show "pt521 (sp_521_proj_point_add_9 p q) (aff_x3 l x1 x2 * z3 ^ 2) (aff_y3 l x1 y1 x2 * z3 ^ 3) z3"
    using add(1) jac_add_chord [of _ x2 z x1 _ l _ _ y1, OF refl refl refl refl] by (simp only: z3)
  show "infinity (sp_521_proj_point_add_9 p q) = 0" by (rule add(2))
qed

lemma fe521_mul_length: "fe521 a \<Longrightarrow> fe521 b \<Longrightarrow> 9 \<le> length (sp_521_mont_mul_9 a b m mp)"
  using mont_mul_9(1) by (simp add: fe521_def)

lemma proj_point_add_9_same:
  assumes "fe521 (pt_x p)" "fe521 (pt_y p)" "fe521 (pt_z p)"
    and "fe521 (pt_x q)" "fe521 (pt_y q)" "fe521 (pt_z q)"
    and "infinity p = 0" "infinity q = 0" "same_9 p q"
  shows "sp_521_proj_point_add_9 p q = sp_521_proj_point_dbl_9 p"
  using assms mont_sqr_9(1) mont_mul_9(1) fe521_mul_length
  by (simp add: sp_521_proj_point_add_9_def Let_def cmp_equal_9_iff same_9_def)

lemma proj_point_add_9_self:
  assumes "fe521 (pt_x p)" "fe521 (pt_y p)" "fe521 (pt_z p)" "infinity p = 0"
  shows "sp_521_proj_point_add_9 p p = sp_521_proj_point_dbl_9 p"
  using assms by (intro proj_point_add_9_same) (simp_all add: same_9_def)

lemma proj_point_add_9_valid:
  assumes p: "valid521 p" and q: "valid521 q" and inf: "infinity p = 0" "infinity q = 0"
  shows "valid521 (sp_521_proj_point_add_9 p q)"
proof (cases "same_9 p q")
  case True
  with assms have "sp_521_proj_point_add_9 p q = sp_521_proj_point_dbl_9 p"
    by (intro proj_point_add_9_same) (simp_all add: valid521_def)
  with proj_point_dbl_9_valid [OF p] show ?thesis by simp
next
  case False
  define x1 y1 z1 where "x1 = val521 (pt_x p)" and "y1 = val521 (pt_y p)" and "z1 = val521 (pt_z p)"
  define x2 y2 z2 where "x2 = val521 (pt_x q)" and "y2 = val521 (pt_y q)" and "z2 = val521 (pt_z q)"
  have pt: "pt521 p x1 y1 z1" "pt521 q x2 y2 z2"
    using p q by (simp_all add: valid521_def x1_def y1_def z1_def x2_def y2_def z2_def pt521_self)
  have u: "z2 * z2 * x1 = x1 * z2 ^ 2" "z2 * z2 * z2 * y1 = y1 * z2 ^ 3"
    "z1 * z1 * x2 = x2 * z1 ^ 2" "z1 * z1 * z1 * y2 = y2 * z1 ^ 3" by algebra+
  have d: "jac_on_curve P521 B521 (x1 * z2 ^ 2) (y1 * z2 ^ 3) (z1 * z2)"
    "jac_on_curve P521 B521 (x2 * z1 ^ 2) (y2 * z1 ^ 3) (z1 * z2)"
    using p q curve_poly_scale [of B521 x1 z2 y1 z1] curve_poly_scale [of B521 x2 z1 y2 z2]
    by (simp_all add: valid521_def jac_on_curve_def x1_def y1_def z1_def x2_def y2_def z2_def mult.commute)
  have z: "z1 * h * z2 = h * (z1 * z2)" for h :: int by simp
  show ?thesis
    unfolding proj_point_add_9_pt(1) [OF pt inf False refl, THEN pt521_valid, unfolded u z]
    by (rule jac_on_curve_add [OF d])
qed

lemma proj_point_add_9_infinity:
  assumes "length (pt_x p) \<ge> 9" "length (pt_y p) \<ge> 9" "length (pt_z p) \<ge> 9"
    and "length (pt_x q) \<ge> 9" "length (pt_y q) \<ge> 9" "length (pt_z q) \<ge> 9"
  shows "infinity p = 0 \<Longrightarrow> infinity q = 1 \<Longrightarrow> sp_521_proj_point_add_9 p q
      = \<lparr>pt_x = take 9 (pt_x p), pt_y = take 9 (pt_y p), pt_z = take 9 (pt_z p), infinity = 0\<rparr>"
    and "infinity p = 1 \<Longrightarrow> infinity q = 0 \<Longrightarrow> sp_521_proj_point_add_9 p q
      = \<lparr>pt_x = take 9 (pt_x q), pt_y = take 9 (pt_y q), pt_z = take 9 (pt_z q), infinity = 0\<rparr>"
    and "infinity p = 1 \<Longrightarrow> infinity q = 1 \<Longrightarrow> infinity (sp_521_proj_point_add_9 p q) = 1"
proof -
  have u: "(take 9 a)[0 := a ! 0] = take 9 a" for a :: "int list"
    using list_update_id [of "take 9 a" 0] by simp
  have c: "NOT 1 AND sp_521_cmp_equal_9 a b AND sp_521_cmp_equal_9 c d = 0" for a b c d
    by (simp add: sp_521_cmp_equal_9_def)
  show "infinity p = 0 \<Longrightarrow> infinity q = 1 \<Longrightarrow> sp_521_proj_point_add_9 p q
      = \<lparr>pt_x = take 9 (pt_x p), pt_y = take 9 (pt_y p), pt_z = take 9 (pt_z p), infinity = 0\<rparr>"
    using assms c by (simp add: sp_521_proj_point_add_9_def Let_def map_nth_9 u del: upt_rec_numeral)
  show "infinity p = 1 \<Longrightarrow> infinity q = 0 \<Longrightarrow> sp_521_proj_point_add_9 p q
      = \<lparr>pt_x = take 9 (pt_x q), pt_y = take 9 (pt_y q), pt_z = take 9 (pt_z q), infinity = 0\<rparr>"
    using assms c by (simp add: sp_521_proj_point_add_9_def Let_def map_nth_9 u del: upt_rec_numeral)
  show "infinity p = 1 \<Longrightarrow> infinity q = 1 \<Longrightarrow> infinity (sp_521_proj_point_add_9 p q) = 1"
    using c by (simp add: sp_521_proj_point_add_9_def Let_def del: upt_rec_numeral)
qed

section \<open>Affine coordinates\<close>

lemma fe521_top: "fe521 a \<Longrightarrow> 0 \<le> a ! 8 \<and> a ! 8 < 2 ^ 57"
proof -
  assume fe: "fe521 a"
  have t: "take 9 a = take 8 a @ [a ! 8]"
    using fe by (simp add: fe521_def take_Suc_conv_app_nth [of 8 a, simplified])
  have d: "digits_in 0 (2 ^ 58 + 1) (take 8 a)" "0 \<le> a ! 8"
    using fe unfolding fe521_def t by simp_all
  have "lval 58 (take 8 a @ [a ! 8]) \<le> P521" using fe unfolding fe521_def val521_def t by simp
  moreover have "length (take 8 a) = 8" using fe by (simp add: fe521_def)
  ultimately have "lval 58 (take 8 a) + 2 ^ 464 * a ! 8 \<le> P521" by (simp only: lval_append) simp
  then have "2 ^ 464 * a ! 8 < 2 ^ 464 * 2 ^ 57"
    using lval_nonneg [OF d(1), of 58] by (simp add: P521_def)
  with d show ?thesis by simp
qed

lemma mont_reduce_9_small:
  assumes "fe521 r"
  shows "sp_521_mont_reduce_9 (take 9 r @ replicate 9 0) m mp = digs 58 9 (val521 r) @ replicate 9 0"
proof -
  define a where "a = take 9 r @ replicate 9 (0 :: int)"
  note fe = fe521_digits [OF assms]
  have top: "0 \<le> r ! 8" "r ! 8 < 2 ^ 57" using fe521_top [OF assms] by simp_all
  have dig: "- (2 ^ 63) \<le> r ! i \<and> r ! i < 2 ^ 63" if "i < 9" for i
    using digits_in_nth [OF fe(2), of i] that fe(1) by simp
  have id: "s64 (r ! i) = r ! i" if "i < 9" for i
    using dig [OF that] by (intro s64_id) blast+
  have a: "a ! i = (if i < 9 then r ! i else 0)" if "i < 18" for i
    using that fe(1) by (auto simp: a_def nth_append)
  have m8: "r ! 8 AND (2 ^ 57 - 1) = r ! 8" using top by (simp only: and_mask_mod mod_pos_pos_trivial)
  have z: "s64 (sar (a ! (8 + i)) 57 + s64 (a ! (8 + i + 1) * 2)) = 0" if "i < 9" for i
    using that top by (cases "i = 0") (simp_all add: a sar_def s64_def)
  have sums: "map (\<lambda>i. s64 (a ! i + (s64 (sar (a ! (8 + i)) 57 + s64 (a ! (8 + i + 1) * 2))
            AND 0x3ffffffffffffff))) [0..<8]
        @ [s64 ((a ! 8 AND 0x1ffffffffffffff) + (s64 (sar (a ! (8 + 8)) 57 + s64 (a ! (8 + 8 + 1) * 2))
            AND 0x3ffffffffffffff))] = take 9 r" (is "?l = _")
  proof (rule nth_equalityI)
    show "length ?l = length (take 9 r)" using fe(1) by simp
    fix i assume "i < length ?l"
    then have "i < 8 \<or> i = 8" by auto
    then show "?l ! i = take 9 r ! i"
      using z [of i] id [of i] a [of i] m8 by (auto simp: nth_append simp del: upt_rec_numeral)
  qed
  have n: "sp_521_norm_9 (take 9 r) = digs 58 9 (val521 r)"
    using sp_521_norm_9_digs [of "take 9 r"] fe by (simp add: val521_def)
  have f: "fe521 (digs 58 9 (val521 r))" by (rule reduced_fe521(1) [OF fe(3,4)])
  have t8: "0 \<le> digs 58 9 (val521 r) ! 8" "digs 58 9 (val521 r) ! 8 < 2 ^ 57"
    using fe521_top [OF f] by simp_all
  then have s8: "sar (digs 58 9 (val521 r) ! 8) 57 = 0" by (simp add: sar_def)
  have m8': "digs 58 9 (val521 r) ! 8 AND (2 ^ 57 - 1) = digs 58 9 (val521 r) ! 8"
    using t8 by (simp only: and_mask_mod mod_pos_pos_trivial)
  have "0 \<le> digs 58 9 (val521 r) ! 0 \<and> digs 58 9 (val521 r) ! 0 < 2 ^ 58 + 1"
    using f by (intro digits_in_nth) (simp_all add: fe521_def)
  then have s0: "s64 (digs 58 9 (val521 r) ! 0) = digs 58 9 (val521 r) ! 0"
    by (intro s64_id) simp_all
  have "sp_521_mont_reduce_9 a m mp = digs 58 9 (val521 r) @ drop 9 a"
    unfolding sp_521_mont_reduce_9_def Let_def sums n s8 using m8' by (simp add: s0)
  then show ?thesis using fe(1) by (simp add: a_def)
qed

lemma digs_P521: "digs 58 9 P521 = p521_mod"
proof -
  have "digs 58 (length p521_mod) (lval 58 p521_mod) = p521_mod"
    by (rule digs_lval) (simp_all add: p521_mod_def)
  then show ?thesis by (simp only: p521_mod_digs)
qed

lemma cmp_9_P521:
  assumes "0 \<le> v" "v < 2 ^ 521 - 2 ^ 464"
  shows "sar (sp_521_cmp_9 (digs 58 9 v) p521_mod) 57 = - 1"
proof -
  define c where "c = sp_521_cmp_9 (digs 58 9 v) p521_mod"
  define y :: int where "y = 0x1ffffffffffffff"
  define xs where "xs = take 8 (digs 58 9 v)"
  define ys where "ys = take 8 p521_mod"
  have l: "length xs = length ys" by (simp add: xs_def ys_def p521_mod_def)
  have x: "digs 58 9 v ! 8 = v div 2 ^ 464" by (simp add: digs_nth)
  have "0 \<le> v div 2 ^ 464" using assms by (simp add: pos_imp_zdiv_nonneg_iff)
  moreover have "v div 2 ^ 464 < 2 ^ 57 - 1"
    by (rule div_less_of_less_mult) (use assms in simp_all)
  ultimately have b: "v div 2 ^ 464 < y" "- (2 ^ 57) \<le> v div 2 ^ 464 - y" by (simp_all add: y_def)
  have "take 9 (digs 58 9 v) = xs @ [v div 2 ^ 464]"
    using take_Suc_conv_app_nth [of 8 "digs 58 9 v"] by (simp add: xs_def x)
  moreover have "take 9 p521_mod = ys @ [y]" by (simp add: p521_mod_def ys_def y_def)
  ultimately have "c = cmp_digits 57 (xs @ [v div 2 ^ 464]) (ys @ [y])"
    by (simp only: c_def sp_521_cmp_9_def)
  moreover have "- (2 ^ 63) \<le> v div 2 ^ 464 - y" using b by simp
  ultimately have "v div 2 ^ 464 - y \<le> c" "c < 0"
    using cmp_digits_top_less [OF l b(1), of 57] by simp_all
  with b have "- (2 ^ 57) \<le> c" "c < 0" by linarith+
  then have "sar c 57 = - 1"
    unfolding sar_def by (intro int_div_pos_eq [of _ _ _ "c + 2 ^ 57"]) simp_all
  then show ?thesis by (simp add: c_def)
qed

text \<open>The coordinate depends on the value of the product only.\<close>

lemma map_coord_9_val:
  assumes "fe521 r"
  shows "map_coord_9 r = sp_521_norm_9 (sp_521_cond_sub_9 (digs 58 9 (val521 r)) p521_mod
      (NOT (sar (sp_521_cmp_9 (digs 58 9 (val521 r)) p521_mod) 57)))"
proof -
  have "take 9 (digs 58 9 (val521 r) @ replicate 9 0) = take 9 (digs 58 9 (val521 r))" by simp
  then show ?thesis
    by (simp only: map_coord_9_def Let_def mont_reduce_9_small [OF assms] sp_521_cmp_9_def
        sp_521_cond_sub_9_def)
qed

lemma map_coord_9_digs:
  assumes "f521.rep r x" and "x mod P521 < 2 ^ 521 - 2 ^ 464"
  shows "map_coord_9 r = digs 58 9 (x mod P521)"
proof -
  define v where "v = val521 r"
  have fe: "fe521 r" using assms(1) by (rule f521.rep_fe)
  have v: "0 \<le> v" "v \<le> P521" using fe521_digits [OF fe] by (simp_all add: v_def)
  have d: "digits_in (- (2 ^ 61)) (2 ^ 61) (digs 58 9 v)"
    by (rule digits_in_mono [OF digs9_safe]) (use v in \<open>simp_all add: P521_def\<close>)
  have cs: "sp_521_norm_9 (sp_521_cond_sub_9 (digs 58 9 v) p521_mod (if c then - 1 else 0))
      = digs 58 9 (v - (if c then P521 else 0))" for c
    unfolding sp_521_cond_sub_9_def map2_s64_masked
    using norm_map2_9(2) [OF _ _ d masked_p521_mod(2)] p521_mod_digs by (simp add: masked_p521_mod)
  note m = map_coord_9_val [OF fe, folded v_def]
  have xv: "x mod P521 = v mod P521" using assms(1) by (simp add: f521.rep_def v_def)
  show ?thesis
  proof (cases "v = P521")
    case True
    then have "digs 58 9 v = p521_mod" by (simp only: digs_P521)
    then have "sp_521_cmp_9 (digs 58 9 v) p521_mod = 0"
      by (simp add: sp_521_cmp_9_def p521_mod_def cmp_step_def s64_def)
    then have "map_coord_9 r = digs 58 9 0"
      using m cs [of True] True by (simp add: sar_def)
    then show ?thesis by (simp only: xv True mod_self)
  next
    case False
    with v have xv': "x mod P521 = v" by (simp add: xv)
    with assms(2) v(1) have "sar (sp_521_cmp_9 (digs 58 9 v) p521_mod) 57 = - 1"
      by (intro cmp_9_P521) simp_all
    then have "map_coord_9 r = digs 58 9 v" using m cs [of False] by simp
    then show ?thesis by (simp only: xv')
  qed
qed

lemma rep8: "1 # replicate 8 (0 :: int) = [1, 0, 0, 0, 0, 0, 0, 0, 0]"
  by (simp add: numeral_eq_Suc)

lemma map_9_affine:
  assumes p: "pt521 p (x * z ^ 2) (y * z ^ 3) z"
    and fermat: "z ^ (2 ^ 521 - 2) mod P521 = 1"
    and "x mod P521 < 2 ^ 521 - 2 ^ 464" "y mod P521 < 2 ^ 521 - 2 ^ 464"
  shows "sp_521_map_9 r p = r\<lparr>pt_x := digs 58 9 (x mod P521), pt_y := digs 58 9 (y mod P521),
      pt_z := [1, 0, 0, 0, 0, 0, 0, 0, 0]\<rparr>"
proof -
  define i where "i = z ^ (2 ^ 521 - 3)"
  have "i * z = z ^ (2 ^ 521 - 2)" unfolding i_def by (simp only: power_Suc2 [symmetric]) simp
  with fermat have iz: "(i * z) mod P521 = 1" by (simp only:)
  have one: "(c * (i * z) ^ n) mod P521 = c mod P521" for c n
    using iz by (metis mod_mult_right_eq mult.right_neutral power_mod power_one)
  have c: "f521.rep (pt_x p) (x * z ^ 2)" "f521.rep (pt_y p) (y * z ^ 3)" "f521.rep (pt_z p) z"
    using p by (simp_all add: pt521_def)
  let ?i = "sp_521_mont_inv_9 (pt_z p)"
  let ?i2 = "sp_521_mont_sqr_9 ?i p521_mod p521_mp_mod"
  have inv: "f521.rep ?i i" unfolding i_def by (rule mont_inv_9_rep [OF c(3)])
  have "f521.rep (sp_521_mont_mul_9 (pt_x p) ?i2 p521_mod p521_mp_mod) (x * z ^ 2 * (i * i))"
    by (intro f521.rep_intros c inv)
  moreover have "x * z ^ 2 * (i * i) = x * (i * z) ^ 2" by algebra
  ultimately have X: "f521.rep (sp_521_mont_mul_9 (pt_x p) ?i2 p521_mod p521_mp_mod) x"
    by (simp only:) (erule f521.rep_cong, rule one)
  have "f521.rep (sp_521_mont_mul_9 (pt_y p) (sp_521_mont_mul_9 ?i2 ?i p521_mod p521_mp_mod)
      p521_mod p521_mp_mod) (y * z ^ 3 * (i * i * i))"
    by (intro f521.rep_intros c inv)
  moreover have "y * z ^ 3 * (i * i * i) = y * (i * z) ^ 3" by algebra
  ultimately have Y: "f521.rep (sp_521_mont_mul_9 (pt_y p)
      (sp_521_mont_mul_9 ?i2 ?i p521_mod p521_mp_mod) p521_mod p521_mp_mod) y"
    by (simp only:) (erule f521.rep_cong, rule one)
  show ?thesis
    unfolding sp_521_map_9_def Let_def map_coord_9_digs [OF X assms(3)] map_coord_9_digs [OF Y assms(4)]
    by (simp only: rep8)
qed

text \<open>
  A point of the curve whose \<open>x\<close> has a top digit of all ones.  The comparison
  of \<open>x\<close> with the prime then takes its sign from a lower digit and is below
  \<open>-2\<^sup>5\<^sup>7\<close>, so that \<^verbatim>\<open>~(n >> 57)\<close> is \<open>1\<close>, neither of the two masks.
\<close>

definition map_bad_point :: sp_point_521 where
  "map_bad_point = \<lparr>
     pt_x = [1, 0, 0, 0, 0, 0, 0, 0, 0x1ffffffffffffff],
     pt_y = [0xfcb4b9b7859fb1, 0x152ef409a48b962, 0x1c07833ce423b5d, 0x3299c05f3b1b2c8,
             0x310c0e3d2b172cd, 0xfdc0b5235f49dd, 0x3e581b20a142b20, 0x9b68552d15357d,
             0x198f1c2733ded75],
     pt_z = [1, 0, 0, 0, 0, 0, 0, 0, 0],
     infinity = 0\<rparr>"

lemma map_bad_point_fe:
  "fe521 (pt_x map_bad_point)" "fe521 (pt_y map_bad_point)" "fe521 (pt_z map_bad_point)"
  "val521 (pt_x map_bad_point) = 2 ^ 521 - 2 ^ 464 + 1" "val521 (pt_z map_bad_point) = 1"
  by (simp_all add: map_bad_point_def fe521_def val521_def P521_def)

lemma map_bad_point_curve: "valid521 map_bad_point"
proof -
  let ?y = "val521 (pt_y map_bad_point)"
  define t :: int where "t = 2 ^ 464"
  have t: "t * t = 2 ^ 928" "t * (t * t) = 2 ^ 1392" by (simp_all add: t_def power_add [symmetric])
  have pq: "P521 * q = 2 ^ 521 * q - q" for q by (simp add: P521_def left_diff_distrib)
  have "?y * ?y = P521 * 15744403932561434696684473303452629045213679255131528440951130063136634306810047014785327192773139116009311137858175881440053146837201489985337834546109325294328597926866710269552307243682939340250654862901648099974845908579416774096557890068164773504313446688417
      + (8 - 12 * t + 6 * (t * t) - t * (t * t)) - 3 * (2 - t) + B521"
    unfolding t t_def pq by (simp add: val521_def map_bad_point_def B521_def p521_b_def)
  moreover have "(2 - t) ^ 3 = 8 - 12 * t + 6 * (t * t) - t * (t * t)" by algebra
  ultimately have "P521 dvd ?y ^ 2 - (2 - t) ^ 3 + 3 * (2 - t) * 1 ^ 4 - B521 * 1 ^ 6"
    by (simp add: power2_eq_square)
  then have "jac_on_curve P521 B521 (2 - t) ?y 1" by (simp only: jac_on_curve_def curve_poly_def)
  moreover have "(2 ^ 521 - 2 ^ 464 + 1) mod P521 = (2 - t) mod P521"
    by (simp add: mod_eq_dvd_iff P521_def t_def)
  ultimately have "jac_on_curve P521 B521 (2 ^ 521 - 2 ^ 464 + 1) ?y 1"
    using jac_on_curve_mod [OF _ refl refl] by blast
  then show ?thesis by (simp only: valid521_def map_bad_point_fe simp_thms)
qed

lemma map_bad_coord:
  "val521 (sp_521_norm_9 (sp_521_cond_sub_9 (digs 58 9 (2 ^ 521 - 2 ^ 464 + 1)) p521_mod
      (NOT (sar (sp_521_cmp_9 (digs 58 9 (2 ^ 521 - 2 ^ 464 + 1)) p521_mod) 57)))) \<noteq> 2 ^ 521 - 2 ^ 464 + 1"
  by code_simp

lemma map_bad_point_x: "val521 (pt_x (sp_521_map_9 r map_bad_point)) \<noteq> val521 (pt_x map_bad_point)"
proof -
  let ?p = map_bad_point
  let ?i = "sp_521_mont_inv_9 (pt_z ?p)"
  let ?m = "sp_521_mont_mul_9 (pt_x ?p) (sp_521_mont_sqr_9 ?i p521_mod p521_mp_mod) p521_mod p521_mp_mod"
  define x :: int where "x = 2 ^ 521 - 2 ^ 464 + 1"
  have x: "0 < x" "x < P521" by (simp_all add: x_def P521_def)
  have z: "f521.rep (pt_z ?p) 1" and px: "f521.rep (pt_x ?p) x"
    using f521.rep_self [OF map_bad_point_fe(3)] f521.rep_self [OF map_bad_point_fe(1)]
    by (simp_all only: map_bad_point_fe x_def)
  have "f521.rep ?i 1" using mont_inv_9_rep [OF z] by (simp only: power_one)
  then have m: "f521.rep ?m (x * (1 * 1))" by (intro f521.rep_mul f521.rep_sqr px)
  then have "fe521 ?m" and "val521 ?m mod P521 = x" using x by (simp_all add: f521.rep_def)
  moreover from this have "val521 ?m \<noteq> P521" using x by auto
  ultimately have v: "val521 ?m = x" using fe521_digits [of ?m] by simp
  have "pt_x (sp_521_map_9 r ?p) = map_coord_9 ?m" by (simp add: sp_521_map_9_def Let_def)
  then show ?thesis
    using map_bad_coord by (simp only: map_coord_9_val [OF \<open>fe521 ?m\<close>] v map_bad_point_fe x_def
        not_False_eq_True)
qed

section \<open>Properties\<close>

text \<open>\<open>sp_521_mont_inv_9\<close> computes \<open>a\<close> to the power \<open>p - 2\<close> modulo the prime, the inverse by Fermat's
  theorem: the chain of 520 squarings and 13 products has the exponent its comments claim.\<close>

lemma sp_521_mont_inv_9_power:
  assumes "fe521 a"
  shows "fe521 (sp_521_mont_inv_9 a) \<and>
    val521 (sp_521_mont_inv_9 a) mod P521 = val521 a ^ (2 ^ 521 - 3) mod P521"
  using mont_inv_9_rep [OF f521.rep_self [OF assms]] by (simp add: f521.rep_def)

text \<open>C3: Doubling refines the affine tangent law.  If a point stands for the affine point
  \<open>(x, y)\<close> with any denominator \<open>z\<close> and \<open>l\<close> is the slope of the tangent, the result of
  \<open>sp_521_proj_point_dbl_9\<close> stands for \<open>(l\<^sup>2 - 2 x, l (x - x\<^sub>3) - y)\<close> with denominator \<open>2 y z\<^sup>4\<close>.\<close>

theorem sp_521_proj_point_dbl_9_affine:
  assumes "pt521 p (x * z ^ 2) (y * z ^ 3) z" and "tangent_slope P521 l x y"
  shows "pt521 (sp_521_proj_point_dbl_9 p) (aff_x3 l x x * (2 * (y * z ^ 3 * z)) ^ 2)
    (aff_y3 l x y x * (2 * (y * z ^ 3 * z)) ^ 3) (2 * (y * z ^ 3 * z))"
  by (rule proj_point_dbl_9_tangent [OF assms])

text \<open>Points given by small coordinates, for the witnesses.\<close>

definition small_pt :: "int \<Rightarrow> int \<Rightarrow> int \<Rightarrow> sp_point_521" where
  "small_pt x y z = \<lparr>pt_x = x # replicate 8 0, pt_y = y # replicate 8 0, pt_z = z # replicate 8 0,
     infinity = 0\<rparr>"

lemma small_rep: "0 \<le> x \<Longrightarrow> x < 2 ^ 58 \<Longrightarrow> f521.rep (x # replicate 8 0) x"
  unfolding f521.rep_def fe521_def val521_def by (simp add: P521_def digits_in_def)

theorem sp_521_proj_point_dbl_9_affine_witness:
  "pt521 (sp_521_proj_point_dbl_9 (small_pt 12 24 2)) (aff_x3 4 3 3 * 96 ^ 2) (aff_y3 4 3 3 3 * 96 ^ 3) 96"
proof -
  have "pt521 (small_pt 12 24 2) (3 * 2 ^ 2) (3 * 2 ^ 3) 2"
    using small_rep [of 12] small_rep [of 24] small_rep [of 2] by (simp add: pt521_def small_pt_def)
  from sp_521_proj_point_dbl_9_affine [OF this, of 4] show ?thesis
    by (simp add: tangent_slope_def)
qed

text \<open>C2: Addition refines the affine chord law.  For two points that stand for \<open>(x1, y1)\<close> and
  \<open>(x2, y2)\<close> with any denominators, neither marked as infinity and with different \<open>x\<close>, the result of
  \<open>sp_521_proj_point_add_9\<close> stands for the third point of the chord with slope \<open>l\<close>, reflected,
  and is not marked as infinity.\<close>

theorem sp_521_proj_point_add_9_affine:
  assumes "pt521 p (x1 * z1 ^ 2) (y1 * z1 ^ 3) z1" and "pt521 q (x2 * z2 ^ 2) (y2 * z2 ^ 3) z2"
    and "infinity p = 0" and "infinity q = 0"
    and "\<not> P521 dvd (x2 - x1) * (z1 * z2) ^ 2" and "chord_slope P521 l x1 y1 x2 y2"
  shows "pt521 (sp_521_proj_point_add_9 p q)
      (aff_x3 l x1 x2 * ((x2 - x1) * (z1 * z2) ^ 3) ^ 2)
      (aff_y3 l x1 y1 x2 * ((x2 - x1) * (z1 * z2) ^ 3) ^ 3) ((x2 - x1) * (z1 * z2) ^ 3) \<and>
    infinity (sp_521_proj_point_add_9 p q) = 0"
  using proj_point_add_9_chord [OF assms] by blast

theorem sp_521_proj_point_add_9_affine_witness:
  "pt521 (sp_521_proj_point_add_9 (small_pt 12 24 2) (small_pt 5 13 1))
     (aff_x3 5 3 5 * 16 ^ 2) (aff_y3 5 3 3 5 * 16 ^ 3) 16"
proof -
  have p: "pt521 (small_pt 12 24 2) (3 * 2 ^ 2) (3 * 2 ^ 3) 2"
    using small_rep [of 12] small_rep [of 24] small_rep [of 2] by (simp add: pt521_def small_pt_def)
  have q: "pt521 (small_pt 5 13 1) (5 * 1 ^ 2) (13 * 1 ^ 3) 1"
    using small_rep [of 5] small_rep [of 13] small_rep [of 1] by (simp add: pt521_def small_pt_def)
  have "\<not> P521 dvd (5 - 3) * (2 * 1) ^ 2" by (simp add: P521_def zdvd_not_zless)
  moreover have "chord_slope P521 5 3 3 5 13" by (simp add: chord_slope_def)
  ultimately show ?thesis
    using sp_521_proj_point_add_9_affine [OF p q] by (simp add: small_pt_def)
qed

text \<open>Doubling and adding keep points on the curve: for points of the curve that are not marked
  as infinity, both results have well-formed coordinates that satisfy the curve equation, whichever branch
  the addition takes.\<close>

lemma sp_521_proj_point_ops_on_curve:
  assumes "valid521 p" "valid521 q" "infinity p = 0" "infinity q = 0"
  shows "valid521 (sp_521_proj_point_dbl_9 p) \<and> valid521 (sp_521_proj_point_add_9 p q)"
  using assms proj_point_dbl_9_valid proj_point_add_9_valid by blast

text \<open>The special cases of the addition: a point plus itself is the doubling; a point plus
  infinity is the point; infinity plus infinity is marked as infinity.\<close>

lemma sp_521_proj_point_add_9_cases:
  assumes "fe521 (pt_x p)" "fe521 (pt_y p)" "fe521 (pt_z p)"
    and "fe521 (pt_x q)" "fe521 (pt_y q)" "fe521 (pt_z q)"
  shows "(infinity p = 0 \<longrightarrow> sp_521_proj_point_add_9 p p = sp_521_proj_point_dbl_9 p) \<and>
    (infinity p = 0 \<and> infinity q = 1 \<longrightarrow> sp_521_proj_point_add_9 p q =
       \<lparr>pt_x = take 9 (pt_x p), pt_y = take 9 (pt_y p), pt_z = take 9 (pt_z p), infinity = 0\<rparr>) \<and>
    (infinity p = 1 \<and> infinity q = 0 \<longrightarrow> sp_521_proj_point_add_9 p q =
       \<lparr>pt_x = take 9 (pt_x q), pt_y = take 9 (pt_y q), pt_z = take 9 (pt_z q), infinity = 0\<rparr>) \<and>
    (infinity p = 1 \<and> infinity q = 1 \<longrightarrow> infinity (sp_521_proj_point_add_9 p q) = 1)"
  using proj_point_add_9_self [OF assms(1-3)] proj_point_add_9_infinity [OF assms [THEN fe521_digits(1)]]
  by blast

text \<open>\<open>sp_521_map_9\<close> returns the affine coordinates, fully reduced: for a point that stands for
  \<open>(x, y)\<close> with a denominator \<open>z\<close> that is a unit (\<open>z\<close> to the power \<open>p - 1\<close> is one), the digits
  written are those of \<open>x mod p\<close> and \<open>y mod p\<close>, provided the top digit of neither is all ones.\<close>

lemma sp_521_map_9_affine:
  assumes "pt521 p (x * z ^ 2) (y * z ^ 3) z" and "z ^ (2 ^ 521 - 2) mod P521 = 1"
    and "x mod P521 < 2 ^ 521 - 2 ^ 464" and "y mod P521 < 2 ^ 521 - 2 ^ 464"
  shows "sp_521_map_9 r p = r\<lparr>pt_x := digs 58 9 (x mod P521), pt_y := digs 58 9 (y mod P521),
    pt_z := [1, 0, 0, 0, 0, 0, 0, 0, 0]\<rparr>"
  by (rule map_9_affine [OF assms])

text \<open>C39: The top-digit condition of the map is needed.  For a point of the curve, in affine form,
  whose \<open>x\<close> has a top digit of all ones, \<open>sp_521_map_9\<close> returns another number than \<open>x\<close>.\<close>

theorem sp_521_map_9_wrong:
  "valid521 map_bad_point \<and> val521 (pt_z map_bad_point) = 1 \<and> val521 (pt_x map_bad_point) < P521 \<and>
   val521 (pt_x (sp_521_map_9 r map_bad_point)) \<noteq> val521 (pt_x map_bad_point)"
  using map_bad_point_curve map_bad_point_x [of r] map_bad_point_fe by (simp add: P521_def)

end
