(* ===== verification/Sp521Nb.thy ===== *)
theory Sp521Nb
  imports Sp521Point
begin

text \<open>
  The non-blocking point operations (\<^verbatim>\<open>WOLFSSL_SP_NONBLOCK\<close>): one call does one
  field operation and returns \<open>FP_WOULDBLOCK\<close> until the last.  The state keeps
  the context's \<open>state\<close>, the scratch arrays the context points into and the
  result point \<open>r\<close>; the operand \<open>p\<close> may be the same object as \<open>r\<close>
  (\<open>p_is_r\<close>), in which case it is read from the result.
\<close>

section \<open>Doubling\<close>

record dbl_ctx =
  dstate :: nat
  dt1 :: "int list"
  dt2 :: "int list"
  dr :: sp_point_521

definition dbl_p :: "bool \<Rightarrow> sp_point_521 \<Rightarrow> dbl_ctx \<Rightarrow> sp_point_521" where
  "dbl_p p_is_r p c = (if p_is_r then dr c else p)"

definition sp_521_proj_point_dbl_9_nb ::
    "bool \<Rightarrow> sp_point_521 \<Rightarrow> dbl_ctx \<Rightarrow> sp_ret \<times> dbl_ctx" where
  "sp_521_proj_point_dbl_9_nb p_is_r p0 c =
    (let p = dbl_p p_is_r p0 c; r = dr c;
         mul = (\<lambda>x y. sp_521_mont_mul_9 x y p521_mod p521_mp_mod);
         sqr = (\<lambda>x. sp_521_mont_sqr_9 x p521_mod p521_mp_mod)
     in if dstate c = 0 then
       (FP_WOULDBLOCK, c\<lparr>dstate := 1, dr := (if p_is_r then r else r\<lparr>infinity := infinity p\<rparr>)\<rparr>)
     else if dstate c = 1 then
       (FP_WOULDBLOCK, c\<lparr>dstate := 2, dt1 := sqr (pt_z p)\<rparr>)
     else if dstate c = 2 then
       (FP_WOULDBLOCK, c\<lparr>dstate := 3, dr := r\<lparr>pt_z := mul (pt_y p) (pt_z p)\<rparr>\<rparr>)
     else if dstate c = 3 then
       (FP_WOULDBLOCK, c\<lparr>dstate := 4, dr := r\<lparr>pt_z := sp_521_mont_dbl_9 (pt_z r) p521_mod\<rparr>\<rparr>)
     else if dstate c = 4 then
       (FP_WOULDBLOCK, c\<lparr>dstate := 5, dt2 := sp_521_mont_sub_9 (pt_x p) (dt1 c) p521_mod\<rparr>)
     else if dstate c = 5 then
       (FP_WOULDBLOCK, c\<lparr>dstate := 6, dt1 := sp_521_mont_add_9 (pt_x p) (dt1 c) p521_mod\<rparr>)
     else if dstate c = 6 then
       (FP_WOULDBLOCK, c\<lparr>dstate := 7, dt2 := mul (dt1 c) (dt2 c)\<rparr>)
     else if dstate c = 7 then
       (FP_WOULDBLOCK, c\<lparr>dstate := 8, dt1 := sp_521_mont_tpl_9 (dt2 c) p521_mod\<rparr>)
     else if dstate c = 8 then
       (FP_WOULDBLOCK, c\<lparr>dstate := 9, dr := r\<lparr>pt_y := sp_521_mont_dbl_9 (pt_y p) p521_mod\<rparr>\<rparr>)
     else if dstate c = 9 then
       (FP_WOULDBLOCK, c\<lparr>dstate := 10, dr := r\<lparr>pt_y := sqr (pt_y r)\<rparr>\<rparr>)
     else if dstate c = 10 then
       (FP_WOULDBLOCK, c\<lparr>dstate := 11, dt2 := sqr (pt_y r)\<rparr>)
     else if dstate c = 11 then
       (FP_WOULDBLOCK, c\<lparr>dstate := 12, dt2 := sp_521_mont_div2_9 (dt2 c) p521_mod\<rparr>)
     else if dstate c = 12 then
       (FP_WOULDBLOCK, c\<lparr>dstate := 13, dr := r\<lparr>pt_y := mul (pt_y r) (pt_x p)\<rparr>\<rparr>)
     else if dstate c = 13 then
       (FP_WOULDBLOCK, c\<lparr>dstate := 14, dr := r\<lparr>pt_x := sqr (dt1 c)\<rparr>\<rparr>)
     else if dstate c = 14 then
       (FP_WOULDBLOCK, c\<lparr>dstate := 15, dr := r\<lparr>pt_x := sp_521_mont_sub_9 (pt_x r) (pt_y r) p521_mod\<rparr>\<rparr>)
     else if dstate c = 15 then
       (FP_WOULDBLOCK, c\<lparr>dstate := 16, dr := r\<lparr>pt_x := sp_521_mont_sub_9 (pt_x r) (pt_y r) p521_mod\<rparr>\<rparr>)
     else if dstate c = 16 then
       (FP_WOULDBLOCK, c\<lparr>dstate := 17, dr := r\<lparr>pt_y := sp_521_mont_sub_9 (pt_y r) (pt_x r) p521_mod\<rparr>\<rparr>)
     else if dstate c = 17 then
       (FP_WOULDBLOCK, c\<lparr>dstate := 18, dr := r\<lparr>pt_y := mul (pt_y r) (dt1 c)\<rparr>\<rparr>)
     else if dstate c = 18 then
       (MP_OKAY, c\<lparr>dstate := 19, dr := r\<lparr>pt_y := sp_521_mont_sub_9 (pt_y r) (dt2 c) p521_mod\<rparr>\<rparr>)
     else if dstate c = 19 then (MP_OKAY, c)
     else (FP_WOULDBLOCK, c))"

text \<open>Calling until the operation no longer returns \<open>FP_WOULDBLOCK\<close>, at most \<open>n\<close> times.\<close>

fun nb_loop :: "nat \<Rightarrow> ('c \<Rightarrow> sp_ret \<times> 'c) \<Rightarrow> 'c \<Rightarrow> (nat \<times> 'c) option" where
  "nb_loop 0 step c = None"
| "nb_loop (Suc n) step c =
    (case step c of
       (FP_WOULDBLOCK, c') \<Rightarrow> map_option (\<lambda>(k, d). (Suc k, d)) (nb_loop n step c')
     | (_, c') \<Rightarrow> Some (1, c'))"

lemma dbl_nb_calls:
  assumes "dstate c = 0"
  shows "\<exists>c'. nb_loop 19 (sp_521_proj_point_dbl_9_nb p_is_r p) c = Some (19, c') \<and> dstate c' = 19 \<and>
      dr c' = sp_521_proj_point_dbl_9 (dbl_p p_is_r p c)"
  using assms
  by (cases p_is_r)
    (simp_all add: numeral_eq_Suc sp_521_proj_point_dbl_9_nb_def Let_def sp_521_proj_point_dbl_9_def dbl_p_def)

section \<open>Addition\<close>

record add_ctx =
  astate :: nat
  at1 :: "int list"
  at2 :: "int list"
  at3 :: "int list"
  at4 :: "int list"
  at5 :: "int list"
  at6 :: "int list"
  ar :: sp_point_521

text \<open>
  \<open>ctx->x\<close>, \<open>ctx->y\<close>, \<open>ctx->z\<close> point to \<open>t6\<close>, \<open>t1\<close>, \<open>t2\<close>.  Every call
  first exchanges the operands when \<open>q\<close> is the result object.
\<close>

definition add_ops :: "bool \<Rightarrow> bool \<Rightarrow> sp_point_521 \<Rightarrow> sp_point_521 \<Rightarrow> sp_point_521
    \<Rightarrow> sp_point_521 \<times> sp_point_521" where
  "add_ops p_is_r q_is_r p q r =
    (let p' = (if p_is_r then r else p); q' = (if q_is_r then r else q)
     in if q_is_r then (q', p') else (p', q'))"

definition sp_521_proj_point_add_9_nb ::
    "bool \<Rightarrow> bool \<Rightarrow> sp_point_521 \<Rightarrow> sp_point_521 \<Rightarrow> add_ctx \<Rightarrow> sp_ret \<times> add_ctx" where
  "sp_521_proj_point_add_9_nb p_is_r q_is_r p0 q0 c =
    (let (p, q) = add_ops p_is_r q_is_r p0 q0 (ar c);
         mul = (\<lambda>x y. sp_521_mont_mul_9 x y p521_mod p521_mp_mod);
         sqr = (\<lambda>x. sp_521_mont_sqr_9 x p521_mod p521_mp_mod);
         sub = (\<lambda>x y. sp_521_mont_sub_9 x y p521_mod)
     in if astate c = 0 then
       (FP_WOULDBLOCK, c\<lparr>astate := 1\<rparr>)
     else if astate c = 1 then
       (FP_WOULDBLOCK, c\<lparr>astate := 2, at1 := sqr (pt_z q)\<rparr>)
     else if astate c = 2 then
       (FP_WOULDBLOCK, c\<lparr>astate := 3, at3 := mul (at1 c) (pt_z q)\<rparr>)
     else if astate c = 3 then
       (FP_WOULDBLOCK, c\<lparr>astate := 4, at1 := mul (at1 c) (pt_x p)\<rparr>)
     else if astate c = 4 then
       (FP_WOULDBLOCK, c\<lparr>astate := 5, at2 := sqr (pt_z p)\<rparr>)
     else if astate c = 5 then
       (FP_WOULDBLOCK, c\<lparr>astate := 6, at4 := mul (at2 c) (pt_z p)\<rparr>)
     else if astate c = 6 then
       (FP_WOULDBLOCK, c\<lparr>astate := 7, at2 := mul (at2 c) (pt_x q)\<rparr>)
     else if astate c = 7 then
       (FP_WOULDBLOCK, c\<lparr>astate := 8, at3 := mul (at3 c) (pt_y p)\<rparr>)
     else if astate c = 8 then
       (FP_WOULDBLOCK, c\<lparr>astate := 9, at4 := mul (at4 c) (pt_y q)\<rparr>)
     else if astate c = 9 then
       (if (NOT (infinity p)) AND (NOT (infinity q)) AND sp_521_cmp_equal_9 (at2 c) (at1 c)
           AND sp_521_cmp_equal_9 (at4 c) (at3 c) \<noteq> 0
        then (FP_WOULDBLOCK, c\<lparr>astate := 25, ar := sp_521_proj_point_dbl_9 p\<rparr>)
        else (FP_WOULDBLOCK, c\<lparr>astate := 10\<rparr>))
     else if astate c = 10 then
       (FP_WOULDBLOCK, c\<lparr>astate := 11, at2 := sub (at2 c) (at1 c)\<rparr>)
     else if astate c = 11 then
       (FP_WOULDBLOCK, c\<lparr>astate := 12, at4 := sub (at4 c) (at3 c)\<rparr>)
     else if astate c = 12 then
       (FP_WOULDBLOCK, c\<lparr>astate := 13, at5 := sqr (at2 c)\<rparr>)
     else if astate c = 13 then
       (FP_WOULDBLOCK, c\<lparr>astate := 14, at1 := mul (at1 c) (at5 c)\<rparr>)
     else if astate c = 14 then
       (FP_WOULDBLOCK, c\<lparr>astate := 15, at5 := mul (at5 c) (at2 c)\<rparr>)
     else if astate c = 15 then
       (FP_WOULDBLOCK, c\<lparr>astate := 16, at2 := mul (pt_z p) (at2 c)\<rparr>)
     else if astate c = 16 then
       (FP_WOULDBLOCK, c\<lparr>astate := 17, at2 := mul (at2 c) (pt_z q)\<rparr>)
     else if astate c = 17 then
       (FP_WOULDBLOCK, c\<lparr>astate := 18, at6 := sqr (at4 c)\<rparr>)
     else if astate c = 18 then
       (FP_WOULDBLOCK, c\<lparr>astate := 19, at6 := sub (at6 c) (at5 c)\<rparr>)
     else if astate c = 19 then
       (FP_WOULDBLOCK, c\<lparr>astate := 20, at5 := mul (at5 c) (at3 c)\<rparr>)
     else if astate c = 20 then
       (let t3 = sp_521_mont_dbl_9 (at1 c) p521_mod
        in (FP_WOULDBLOCK, c\<lparr>astate := 21, at3 := t3, at6 := sub (at6 c) t3\<rparr>))
     else if astate c = 21 then
       (FP_WOULDBLOCK, c\<lparr>astate := 22, at1 := sub (at1 c) (at6 c)\<rparr>)
     else if astate c = 22 then
       (FP_WOULDBLOCK, c\<lparr>astate := 23, at1 := mul (at1 c) (at4 c)\<rparr>)
     else if astate c = 23 then
       (FP_WOULDBLOCK, c\<lparr>astate := 24, at1 := sub (at1 c) (at5 c)\<rparr>)
     else if astate c = 24 then
       (let inf = infinity p AND infinity q;
            rz = select3 (infinity p) (infinity q) (pt_z p) (pt_z q) (at2 c)
        in (FP_WOULDBLOCK, c\<lparr>astate := 25, ar := \<lparr>
              pt_x = select3 (infinity p) (infinity q) (pt_x p) (pt_x q) (at6 c),
              pt_y = select3 (infinity p) (infinity q) (pt_y p) (pt_y q) (at1 c),
              pt_z = rz[0 := rz ! 0 OR inf], infinity = inf\<rparr>\<rparr>))
     else if astate c = 25 then (MP_OKAY, c)
     else (FP_WOULDBLOCK, c))"

lemma add_nb_calls:
  assumes "astate c = 0" and pq: "add_ops p_is_r q_is_r p0 q0 (ar c) = (p, q)"
  shows "\<exists>n c'. nb_loop 26 (sp_521_proj_point_add_9_nb p_is_r q_is_r p0 q0) c = Some (n, c') \<and>
      astate c' = 25 \<and> ar c' = sp_521_proj_point_add_9 p q"
proof -
  note eval = numeral_eq_Suc sp_521_proj_point_add_9_nb_def Let_def
  show ?thesis
    using assms by (simp add: eval sp_521_proj_point_add_9_def)
qed

section \<open>Properties\<close>

text \<open>C22: The non-blocking point operations are the blocking ones.  Doubling from state 0 needs exactly
  nineteen calls and leaves the result of \<open>sp_521_proj_point_dbl_9\<close> on the operand as it was at the
  first call, whether or not the operand is the result object itself.  Addition from state 0 terminates
  within 26 calls with the result of the blocking addition of the operands, exchanged when the second
  one is the result object, for every aliasing of operands and result.  The last call returns
  \<open>MP_OKAY\<close>, every earlier one \<open>FP_WOULDBLOCK\<close>.\<close>

theorem sp_521_proj_point_nb_refines:
  assumes "dstate d = 0" "astate c = 0"
  shows "(\<exists>d'. nb_loop 19 (sp_521_proj_point_dbl_9_nb p_is_r p) d = Some (19, d') \<and> dstate d' = 19 \<and>
      dr d' = sp_521_proj_point_dbl_9 (dbl_p p_is_r p d)) \<and>
    (\<exists>n c'. nb_loop 26 (sp_521_proj_point_add_9_nb p_is_r q_is_r p0 q0) c = Some (n, c') \<and>
      astate c' = 25 \<and>
      ar c' = (case add_ops p_is_r q_is_r p0 q0 (ar c) of (p, q) \<Rightarrow> sp_521_proj_point_add_9 p q))"
  using dbl_nb_calls [OF assms(1)] add_nb_calls [OF assms(2), of p_is_r q_is_r p0 q0]
  by (cases "add_ops p_is_r q_is_r p0 q0 (ar c)") simp

theorem sp_521_proj_point_nb_refines_witness:
  "(\<exists>c'. nb_loop 19 (sp_521_proj_point_dbl_9_nb False p521_base)
      \<lparr>dstate = 0, dt1 = [], dt2 = [], dr = p521_base\<rparr> = Some (19, c') \<and>
    dr c' = sp_521_proj_point_dbl_9 p521_base) \<and>
   (\<exists>n c'. nb_loop 26 (sp_521_proj_point_add_9_nb False True p521_base p521_base)
      \<lparr>astate = 0, at1 = [], at2 = [], at3 = [], at4 = [], at5 = [], at6 = [], ar = map_bad_point\<rparr>
        = Some (n, c') \<and>
    ar c' = sp_521_proj_point_add_9 map_bad_point p521_base)"
  using sp_521_proj_point_nb_refines
    [of "\<lparr>dstate = 0, dt1 = [], dt2 = [], dr = p521_base\<rparr>"
        "\<lparr>astate = 0, at1 = [], at2 = [], at3 = [], at4 = [], at5 = [], at6 = [], ar = map_bad_point\<rparr>"
      False p521_base True p521_base p521_base]
  by (simp only: dbl_ctx.select_convs dbl_p_def add_ctx.select_convs add_ops_def Let_def if_True if_False
        prod.case simp_thms) blast

end
