(* ===== verification/Sp521Scalar.thy ===== *)
theory Sp521Scalar
  imports Sp521Point
begin

text \<open>
  The parts of the P-521 scalar multiplication (default build): recoding of the scalar into signed
  6-bit windows, the constant-time table read, repeated doubling, simultaneous addition and
  subtraction, mixed addition, and the window method made of them.
\<close>

section \<open>Definitions\<close>

definition sp_521_mod_mul_norm_9 :: "int list \<Rightarrow> int list" where
  "sp_521_mod_mul_norm_9 a = take 9 a"

definition sp_521_cond_copy_9 :: "int list \<Rightarrow> int list \<Rightarrow> int \<Rightarrow> int list" where
  "sp_521_cond_copy_9 r a m = map2 (\<lambda>x y. x XOR ((x XOR y) AND m)) (take 9 r) (take 9 a)"

text \<open>The body of the doubling loop on \<open>x\<close>, \<open>y\<close> (twice the ordinate), \<open>z\<close> and \<open>w\<close> (the fourth power of \<open>z\<close>);
  the last component is \<open>t1\<close>, the factor of \<open>w\<close>.\<close>

definition dbl_n_body ::
    "int list \<Rightarrow> int list \<Rightarrow> int list \<Rightarrow> int list \<Rightarrow> int list \<times> int list \<times> int list \<times> int list" where
  "dbl_n_body x y z w =
    (let mul = (\<lambda>x y. sp_521_mont_mul_9 x y p521_mod p521_mp_mod);
         sqr = (\<lambda>x. sp_521_mont_sqr_9 x p521_mod p521_mp_mod);
         t1 = sqr x;
         t1 = sp_521_mont_sub_9 t1 w p521_mod;
         a = sp_521_mont_tpl_9 t1 p521_mod;
         t1 = sqr y;
         b = mul t1 x;
         x = sqr a;
         t2 = sp_521_mont_dbl_9 b p521_mod;
         x = sp_521_mont_sub_9 x t2 p521_mod;
         t2 = sp_521_mont_sub_9 b x p521_mod;
         b = sp_521_mont_dbl_9 t2 p521_mod;
         z = mul z y;
         t1 = sqr t1;
         y = mul b a;
         y = sp_521_mont_sub_9 y t1 p521_mod
     in (x, y, z, t1))"

definition dbl_n_round :: "int list \<times> int list \<times> int list \<times> int list \<Rightarrow> int list \<times> int list \<times> int list \<times> int list" where
  "dbl_n_round = (\<lambda>(x, y, z, w). case dbl_n_body x y z w of
     (x, y, z, t1) \<Rightarrow> (x, y, z, sp_521_mont_mul_9 w t1 p521_mod p521_mp_mod))"

definition sp_521_proj_point_dbl_n_9 :: "sp_point_521 \<Rightarrow> nat \<Rightarrow> sp_point_521" where
  "sp_521_proj_point_dbl_n_9 p i =
    (let sqr = (\<lambda>x. sp_521_mont_sqr_9 x p521_mod p521_mp_mod);
         y = sp_521_mont_dbl_9 (pt_y p) p521_mod;
         w = sqr (pt_z p);
         w = sqr w;
         (x, y, z, w) = (dbl_n_round ^^ (i - 1)) (pt_x p, y, pt_z p, w);
         (x, y, z, t1) = dbl_n_body x y z w
     in p\<lparr>pt_x := x, pt_y := sp_521_mont_div2_9 y p521_mod, pt_z := z\<rparr>)"

text \<open>The same with every intermediate point stored; \<open>r[2 * m]\<close> and \<open>r[2^n * m]\<close> serve as scratch space
  and are overwritten by the first and the last round (\<open>1 \<le> n\<close>).\<close>

definition dbl_store_round ::
    "nat \<Rightarrow> nat \<Rightarrow> (int list \<times> int list \<times> int list \<times> int list) \<times> nat \<times> sp_point_521 list \<Rightarrow>
     (int list \<times> int list \<times> int list \<times> int list) \<times> nat \<times> sp_point_521 list" where
  "dbl_store_round n i = (\<lambda>((x, y, z, w), j, r).
     let j = j * 2;
         (x, y, z, t1) = dbl_n_body x y z w;
         w = (if i \<noteq> n then sp_521_mont_mul_9 w t1 p521_mod p521_mp_mod else w)
     in ((x, y, z, w), j,
         r[j := \<lparr>pt_x = x, pt_y = sp_521_mont_div2_9 y p521_mod, pt_z = z, infinity = 0\<rparr>]))"

definition sp_521_proj_point_dbl_n_store_9 :: "sp_point_521 list \<Rightarrow> sp_point_521 \<Rightarrow> nat \<Rightarrow> nat \<Rightarrow> sp_point_521 list" where
  "sp_521_proj_point_dbl_n_store_9 r p n m =
    (let sqr = (\<lambda>x. sp_521_mont_sqr_9 x p521_mod p521_mp_mod);
         y = sp_521_mont_dbl_9 (pt_y p) p521_mod;
         w = sqr (pt_z p);
         w = sqr w
     in snd (snd (fold (dbl_store_round n) [1..<Suc n] ((pt_x p, y, pt_z p, w), m, r))))"

definition sp_521_proj_point_add_sub_9 :: "sp_point_521 \<Rightarrow> sp_point_521 \<Rightarrow> sp_point_521 \<times> sp_point_521" where
  "sp_521_proj_point_add_sub_9 p q =
    (let mul = (\<lambda>x y. sp_521_mont_mul_9 x y p521_mod p521_mp_mod);
         sqr = (\<lambda>x. sp_521_mont_sqr_9 x p521_mod p521_mp_mod);
         xa = take 9 (pt_x p);
         ya = take 9 (pt_y p);
         za = take 9 (pt_z p);
         t1 = sqr (pt_z q);
         t3 = mul t1 (pt_z q);
         t1 = mul t1 xa;
         t2 = sqr za;
         t4 = mul t2 za;
         t2 = mul t2 (pt_x q);
         t3 = mul t3 ya;
         t4 = mul t4 (pt_y q);
         t2 = sp_521_mont_sub_9 t2 t1 p521_mod;
         t6 = sp_521_mont_add_9 t4 t3 p521_mod;
         t4 = sp_521_mont_sub_9 t4 t3 p521_mod;
         za = mul za (pt_z q);
         za = mul za t2;
         zs = take 9 za;
         xa = sqr t4;
         xs = sqr t6;
         t5 = sqr t2;
         ya = mul t1 t5;
         t5 = mul t5 t2;
         xa = sp_521_mont_sub_9 xa t5 p521_mod;
         xs = sp_521_mont_sub_9 xs t5 p521_mod;
         t1 = sp_521_mont_dbl_9 ya p521_mod;
         xa = sp_521_mont_sub_9 xa t1 p521_mod;
         xs = sp_521_mont_sub_9 xs t1 p521_mod;
         ys = sp_521_mont_sub_9 ya xs p521_mod;
         ya = sp_521_mont_sub_9 ya xa p521_mod;
         ya = mul ya t4;
         t6 = sp_521_sub_9 p521_mod t6;
         ys = mul ys t6;
         t5 = mul t5 t3;
         ya = sp_521_mont_sub_9 ya t5 p521_mod;
         ys = sp_521_mont_sub_9 ys t5 p521_mod
     in (\<lparr>pt_x = xa, pt_y = ya, pt_z = za, infinity = 0\<rparr>, \<lparr>pt_x = xs, pt_y = ys, pt_z = zs, infinity = 0\<rparr>))"

definition sp_521_proj_point_add_qz1_9 :: "sp_point_521 \<Rightarrow> sp_point_521 \<Rightarrow> sp_point_521" where
  "sp_521_proj_point_add_qz1_9 p q =
    (let mul = (\<lambda>x y. sp_521_mont_mul_9 x y p521_mod p521_mp_mod);
         sqr = (\<lambda>x. sp_521_mont_sqr_9 x p521_mod p521_mp_mod);
         t2 = sqr (pt_z p);
         t4 = mul t2 (pt_z p);
         t2 = mul t2 (pt_x q);
         t4 = mul t4 (pt_y q)
     in if (NOT (infinity p)) AND (NOT (infinity q)) AND sp_521_cmp_equal_9 (pt_x p) t2
           AND sp_521_cmp_equal_9 (pt_y p) t4 \<noteq> 0
        then sp_521_proj_point_dbl_9 p
        else
         (let t2 = sp_521_mont_sub_9 t2 (pt_x p) p521_mod;
              t4 = sp_521_mont_sub_9 t4 (pt_y p) p521_mod;
              z = mul (pt_z p) t2;
              t1 = sqr t2;
              t3 = mul (pt_x p) t1;
              t1 = mul t1 t2;
              t2 = sqr t4;
              t2 = sp_521_mont_sub_9 t2 t1 p521_mod;
              t5 = sp_521_mont_dbl_9 t3 p521_mod;
              x = sp_521_mont_sub_9 t2 t5 p521_mod;
              t3 = sp_521_mont_sub_9 t3 x p521_mod;
              t3 = mul t3 t4;
              t1 = mul t1 (pt_y p);
              y = sp_521_mont_sub_9 t3 t1 p521_mod;
              inf = infinity p AND infinity q;
              rz = select3 (infinity p) (infinity q) (pt_z p) (pt_z q) z
          in \<lparr>pt_x = select3 (infinity p) (infinity q) (pt_x p) (pt_x q) x,
              pt_y = select3 (infinity p) (infinity q) (pt_y p) (pt_y q) y,
              pt_z = rz[0 := rz ! 0 OR inf], infinity = inf\<rparr>))"

subsection \<open>Recoding and table access\<close>

record ecc_recode_521 =
  rc_i :: int
  rc_neg :: int

definition recode_index_9_6 :: "int list" where
  "recode_index_9_6 = [
     0,  1,  2,  3,  4,  5,  6,  7,  8,  9, 10, 11, 12, 13, 14, 15,
    16, 17, 18, 19, 20, 21, 22, 23, 24, 25, 26, 27, 28, 29, 30, 31,
    32, 31, 30, 29, 28, 27, 26, 25, 24, 23, 22, 21, 20, 19, 18, 17,
    16, 15, 14, 13, 12, 11, 10,  9,  8,  7,  6,  5,  4,  3,  2,  1,
     0,  1]"

definition recode_neg_9_6 :: "int list" where
  "recode_neg_9_6 = [
     0,  0,  0,  0,  0,  0,  0,  0,  0,  0,  0,  0,  0,  0,  0,  0,
     0,  0,  0,  0,  0,  0,  0,  0,  0,  0,  0,  0,  0,  0,  0,  0,
     1,  1,  1,  1,  1,  1,  1,  1,  1,  1,  1,  1,  1,  1,  1,  1,
     1,  1,  1,  1,  1,  1,  1,  1,  1,  1,  1,  1,  1,  1,  1,  1,
     0,  0]"

text \<open>One window: the next six bits of the scalar (a \<open>word8\<close> is its value modulo 256) and the new position
  \<open>(j, n, o)\<close>.\<close>

definition recode_window :: "int list \<Rightarrow> nat \<times> int \<times> nat \<Rightarrow> int \<times> nat \<times> int \<times> nat" where
  "recode_window k = (\<lambda>(j, n, b).
    let y = n mod 2 ^ 8 in
    if b + 6 < 58 then (y AND 0x3f, j, sar n 6, b + 6)
    else if b + 6 = 58 then
      (let n = sar n 6; j = j + 1; n = (if j < 9 then k ! j else n) in (y, j, n, 0))
    else
      (let j = j + 1
       in if j < 9 then
            (let n = k ! j;
                 y = y OR (s64 (n * 2 ^ (58 - b)) AND 0x3f) mod 2 ^ 8;
                 b = b - 52
             in (y, j, sar n b, b))
          else (y, j, n, b)))"

definition recode_step ::
    "int list \<Rightarrow> (nat \<times> int \<times> nat) \<times> int \<times> ecc_recode_521 list \<Rightarrow> (nat \<times> int \<times> nat) \<times> int \<times> ecc_recode_521 list" where
  "recode_step k = (\<lambda>(pos, carry, vs).
    let (y, pos) = recode_window k pos;
        y = (y + carry) mod 2 ^ 8;
        v = \<lparr>rc_i = recode_index_9_6 ! nat y, rc_neg = recode_neg_9_6 ! nat y\<rparr>
    in (pos, sar y 6 + rc_neg v, vs @ [v]))"

definition sp_521_ecc_recode_6_9 :: "int list \<Rightarrow> ecc_recode_521 list" where
  "sp_521_ecc_recode_6_9 k = snd (snd ((recode_step k ^^ 87) ((0, k ! 0, 0), 0, [])))"

definition sp_521_get_point_33_9 :: "sp_point_521 \<Rightarrow> sp_point_521 list \<Rightarrow> int \<Rightarrow> sp_point_521" where
  "sp_521_get_point_33_9 r table idx =
    (let sel = (\<lambda>c. fold (\<lambda>i r. let msk = s64 (0 - (if int i = idx then 1 else 0))
                 in map2 (\<lambda>x y. x OR (msk AND y)) r (take 9 (c (table ! i)))) [1..<33] (replicate 9 0))
     in r\<lparr>pt_x := sel pt_x, pt_y := sel pt_y, pt_z := sel pt_z\<rparr>)"

subsection \<open>The window method\<close>

text \<open>The table \<open>t[0 .. 32]\<close>; \<open>junk\<close> is the contents of the entries before they are written.\<close>

definition point_0 :: sp_point_521 where
  "point_0 = \<lparr>pt_x = replicate 9 0, pt_y = replicate 9 0, pt_z = replicate 9 0, infinity = 1\<rparr>"

definition table_dbl :: "nat \<Rightarrow> nat \<Rightarrow> sp_point_521 list \<Rightarrow> sp_point_521 list" where
  "table_dbl d s t = t[d := sp_521_proj_point_dbl_9 (t ! s)]"

definition table_add_sub :: "nat \<Rightarrow> nat \<Rightarrow> nat \<Rightarrow> nat \<Rightarrow> sp_point_521 list \<Rightarrow> sp_point_521 list" where
  "table_add_sub da ds s q t =
    (case sp_521_proj_point_add_sub_9 (t ! s) (t ! q) of (a, b) \<Rightarrow> t[da := a, ds := b])"

definition mulmod_table :: "sp_point_521 \<Rightarrow> sp_point_521 \<Rightarrow> sp_point_521 list" where
  "mulmod_table junk g =
    (let t = point_0 # \<lparr>pt_x = sp_521_mod_mul_norm_9 (pt_x g), pt_y = sp_521_mod_mul_norm_9 (pt_y g),
           pt_z = sp_521_mod_mul_norm_9 (pt_z g), infinity = 0\<rparr> # replicate 31 junk;
         t = sp_521_proj_point_dbl_n_store_9 t (t ! 1) 5 1;
         t = t[3 := sp_521_proj_point_add_9 (t ! 2) (t ! 1)];
         t = table_dbl 6 3 t;
         t = table_add_sub 7 5 6 1 t;
         t = table_dbl 10 5 t;
         t = table_add_sub 11 9 10 1 t;
         t = table_dbl 12 6 t;
         t = table_dbl 14 7 t;
         t = table_add_sub 15 13 14 1 t;
         t = table_dbl 18 9 t;
         t = table_add_sub 19 17 18 1 t;
         t = table_dbl 20 10 t;
         t = table_dbl 22 11 t;
         t = table_add_sub 23 21 22 1 t;
         t = table_dbl 24 12 t;
         t = table_dbl 26 13 t;
         t = table_add_sub 27 25 26 1 t;
         t = table_dbl 28 14 t;
         t = table_dbl 30 15 t
     in table_add_sub 31 29 30 1 t)"

definition mulmod_read :: "bool \<Rightarrow> sp_point_521 \<Rightarrow> sp_point_521 list \<Rightarrow> int \<Rightarrow> sp_point_521" where
  "mulmod_read ct r t i =
    (if ct then (sp_521_get_point_33_9 r t i)\<lparr>infinity := c_not i\<rparr> else t ! nat i)"

text \<open>The loop body; \<open>t[0].y\<close> is the scratch space \<open>negy\<close>.\<close>

definition mulmod_round ::
    "bool \<Rightarrow> ecc_recode_521 list \<Rightarrow> nat \<Rightarrow> sp_point_521 \<times> sp_point_521 \<times> sp_point_521 list \<Rightarrow>
     sp_point_521 \<times> sp_point_521 \<times> sp_point_521 list" where
  "mulmod_round ct v i = (\<lambda>(rt, p, t).
    let rt = sp_521_proj_point_dbl_n_9 rt 6;
        p = mulmod_read ct p t (rc_i (v ! i));
        negy = sp_521_norm_9 (sp_521_sub_9 p521_mod (pt_y p));
        t = t[0 := (t ! 0)\<lparr>pt_y := negy\<rparr>];
        p = p\<lparr>pt_y := sp_521_cond_copy_9 (pt_y p) negy (s64 (0 - rc_neg (v ! i)))\<rparr>
    in (sp_521_proj_point_add_9 rt p, p, t))"

definition sp_521_ecc_mulmod_win_add_sub_9 ::
    "sp_point_521 \<Rightarrow> sp_point_521 \<Rightarrow> sp_point_521 \<Rightarrow> int list \<Rightarrow> bool \<Rightarrow> bool \<Rightarrow> sp_point_521" where
  "sp_521_ecc_mulmod_win_add_sub_9 junk r g k to_affine ct =
    (let t = mulmod_table junk g;
         v = sp_521_ecc_recode_6_9 k;
         rt = mulmod_read ct junk t (rc_i (v ! 86));
         (rt, p, t) = fold (mulmod_round ct v) (rev [0..<86]) (rt, junk, t)
     in if to_affine then sp_521_map_9 r rt else rt)"

section \<open>Repeated doubling\<close>

text \<open>The doubling formula on integer coordinates.\<close>

definition jdbl :: "int \<times> int \<times> int \<Rightarrow> int \<times> int \<times> int" where
  "jdbl = (\<lambda>(x, y, z). let m = 3 * ((x + z * z) * (x - z * z)); s = (2 * y) * (2 * y) * x
     in (m * m - s - s, (s - (m * m - s - s)) * m - 8 * y ^ 4, 2 * (y * z)))"

definition pt3 :: "sp_point_521 \<Rightarrow> int \<times> int \<times> int \<Rightarrow> bool" where
  "pt3 p = (\<lambda>(x, y, z). pt521 p x y z)"

lemma dbl_9_pt3: "pt3 p c \<Longrightarrow> pt3 (sp_521_proj_point_dbl_9 p) (jdbl c)"
  by (cases c) (simp only: pt3_def jdbl_def Let_def prod.case, rule proj_point_dbl_9_pt [OF _ refl])

lemma dbl_9_funpow_pt3: "pt3 p c \<Longrightarrow> pt3 ((sp_521_proj_point_dbl_9 ^^ n) p) ((jdbl ^^ n) c)"
  by (induction n) (simp_all add: dbl_9_pt3)

text \<open>The loop state stands for a point: \<open>y\<close> is doubled and \<open>w\<close> is the fourth power of \<open>z\<close>.\<close>

definition dbl_state :: "int list \<times> int list \<times> int list \<times> int list \<Rightarrow> int \<times> int \<times> int \<Rightarrow> bool" where
  "dbl_state = (\<lambda>(x, y, z, w) (X, Y, Z).
     f521.rep x X \<and> f521.rep y (2 * Y) \<and> f521.rep z Z \<and> f521.rep w (Z ^ 4))"

lemma dbl_n_body_state:
  assumes "dbl_state (x, y, z, w) c" "dbl_n_body x y z w = (x', y', z', t1)"
  shows "dbl_state (x', y', z', sp_521_mont_mul_9 w t1 p521_mod p521_mp_mod) (jdbl c)"
proof -
  obtain X Y Z where c: "c = (X, Y, Z)" by (cases c)
  have r: "f521.rep x X" "f521.rep y (2 * Y)" "f521.rep z Z" "f521.rep w (Z ^ 4)"
    using assms(1) by (simp_all add: c dbl_state_def)
  note e = assms(2) [unfolded dbl_n_body_def Let_def prod.inject]
  note b = e [THEN conjunct1, symmetric] e [THEN conjunct2, THEN conjunct1, symmetric]
    e [THEN conjunct2, THEN conjunct2, THEN conjunct1, symmetric] e [THEN conjunct2, THEN conjunct2, THEN conjunct2, symmetric]
  let ?m = "3 * (X * X - Z ^ 4)" and ?s = "2 * Y * (2 * Y) * X"
  have m: "?m = 3 * ((X + Z * Z) * (X - Z * Z))" by algebra
  have s: "2 * Y * (2 * Y) * X = (2 * Y) * (2 * Y) * X" ..
  define X3 where "X3 = ?m * ?m - 2 * ?s"
  have X3: "X3 = ?m * ?m - ?s - ?s" by (simp add: X3_def)
  have "f521.rep x' X3" unfolding b X3_def by (intro f521.rep_intros r)
  moreover have "f521.rep y' (2 * (?s - X3) * ?m - (2 * Y * (2 * Y)) * (2 * Y * (2 * Y)))"
    unfolding b X3_def by (intro f521.rep_intros r)
  moreover have "2 * (?s - X3) * ?m - (2 * Y * (2 * Y)) * (2 * Y * (2 * Y)) = 2 * ((?s - X3) * ?m - 8 * Y ^ 4)" by algebra
  moreover have "f521.rep z' (Z * (2 * Y))" unfolding b by (intro f521.rep_intros r)
  moreover have "f521.rep (sp_521_mont_mul_9 w t1 p521_mod p521_mp_mod) (Z ^ 4 * ((2 * Y * (2 * Y)) * (2 * Y * (2 * Y))))"
    unfolding b by (intro f521.rep_intros r)
  moreover have "Z ^ 4 * ((2 * Y * (2 * Y)) * (2 * Y * (2 * Y))) = (2 * (Y * Z)) ^ 4" by algebra
  ultimately show ?thesis
    unfolding dbl_state_def c jdbl_def Let_def prod.case m [symmetric] X3 by (simp add: ac_simps)
qed

lemma dbl_n_round_state: "dbl_state s c \<Longrightarrow> dbl_state (dbl_n_round s) (jdbl c)"
  by (cases s) (auto simp: dbl_n_round_def split: prod.splits intro: dbl_n_body_state)

lemma dbl_n_rounds_state: "dbl_state s c \<Longrightarrow> dbl_state ((dbl_n_round ^^ n) s) ((jdbl ^^ n) c)"
  by (induction n) (simp_all add: dbl_n_round_state)

lemma dbl_state_init:
  assumes "pt3 p c"
  shows "dbl_state (pt_x p, sp_521_mont_dbl_9 (pt_y p) p521_mod, pt_z p,
    sp_521_mont_sqr_9 (sp_521_mont_sqr_9 (pt_z p) p521_mod p521_mp_mod) p521_mod p521_mp_mod) c"
proof -
  obtain X Y Z where c: "c = (X, Y, Z)" by (cases c)
  have r: "f521.rep (pt_x p) X" "f521.rep (pt_y p) Y" "f521.rep (pt_z p) Z"
    using assms by (simp_all add: c pt3_def pt521_def)
  have "f521.rep (sp_521_mont_sqr_9 (sp_521_mont_sqr_9 (pt_z p) p521_mod p521_mp_mod) p521_mod p521_mp_mod) (Z * Z * (Z * Z))"
    by (intro f521.rep_intros r)
  moreover have "Z * Z * (Z * Z) = Z ^ 4" by algebra
  ultimately show ?thesis using r f521.rep_dbl [OF r(2)] by (simp add: c dbl_state_def)
qed

lemma dbl_state_point:
  "dbl_state (x, y, z, w) c \<Longrightarrow> pt3 (p\<lparr>pt_x := x, pt_y := sp_521_mont_div2_9 y p521_mod, pt_z := z\<rparr>) c"
  by (cases c) (simp add: dbl_state_def pt3_def pt521_def f521.rep_half)

lemma dbl_n_9_pt3:
  assumes "pt3 p c" "0 < n"
  shows "pt3 (sp_521_proj_point_dbl_n_9 p n) ((jdbl ^^ n) c)"
proof -
  let ?s0 = "(pt_x p, sp_521_mont_dbl_9 (pt_y p) p521_mod, pt_z p,
    sp_521_mont_sqr_9 (sp_521_mont_sqr_9 (pt_z p) p521_mod p521_mp_mod) p521_mod p521_mp_mod)"
  obtain x y z w where s: "(dbl_n_round ^^ (n - 1)) ?s0 = (x, y, z, w)" by (metis prod_cases4)
  obtain x' y' z' t1 where b: "dbl_n_body x y z w = (x', y', z', t1)" by (metis prod_cases4)
  have "dbl_state (x, y, z, w) ((jdbl ^^ (n - 1)) c)"
    using dbl_n_rounds_state [OF dbl_state_init [OF assms(1)], of "n - 1"] by (simp only: s)
  from dbl_state_point [OF dbl_n_body_state [OF this b], of p]
  have "pt3 (sp_521_proj_point_dbl_n_9 p n) (jdbl ((jdbl ^^ (n - 1)) c))"
    unfolding sp_521_proj_point_dbl_n_9_def Let_def s b prod.case .
  also have "jdbl ((jdbl ^^ (n - 1)) c) = (jdbl ^^ n) c" using assms(2) by (cases n) simp_all
  finally show ?thesis .
qed

lemma dbl_store_round:
  assumes "dbl_state s c"
  obtains s' q where "dbl_store_round n i (s, j, r) = (s', j * 2, r[j * 2 := q])"
    and "pt3 q (jdbl c)" "infinity q = 0" "i \<noteq> n \<Longrightarrow> dbl_state s' (jdbl c)"
proof -
  obtain x y z w where s: "s = (x, y, z, w)" by (metis prod_cases4)
  obtain x' y' z' t1 where b: "dbl_n_body x y z w = (x', y', z', t1)" by (metis prod_cases4)
  note d = dbl_n_body_state [OF assms [unfolded s] b]
  let ?q = "\<lparr>pt_x = x', pt_y = sp_521_mont_div2_9 y' p521_mod, pt_z = z', infinity = 0\<rparr>"
  define s' where "s' = (x', y', z', if i \<noteq> n then sp_521_mont_mul_9 w t1 p521_mod p521_mp_mod else w)"
  have "dbl_store_round n i (s, j, r) = (s', j * 2, r[j * 2 := ?q])"
    by (simp add: dbl_store_round_def s b Let_def s'_def)
  moreover have "pt3 ?q (jdbl c)" using dbl_state_point [OF d, of ?q] by simp
  moreover have "i \<noteq> n \<Longrightarrow> dbl_state s' (jdbl c)" using d by (simp add: s'_def)
  ultimately show ?thesis by (intro that [of s' ?q]) simp_all
qed

definition stored :: "sp_point_521 list \<Rightarrow> sp_point_521 list \<Rightarrow> nat \<Rightarrow> nat \<Rightarrow> int \<times> int \<times> int \<Rightarrow> bool" where
  "stored r r' m k c \<longleftrightarrow> length r' = length r \<and>
     (\<forall>e\<in>{1..k}. pt3 (r' ! (2 ^ e * m)) ((jdbl ^^ e) c) \<and> infinity (r' ! (2 ^ e * m)) = 0) \<and>
     (\<forall>i. (\<forall>e\<in>{1..k}. i \<noteq> 2 ^ e * m) \<longrightarrow> r' ! i = r ! i)"

lemma stored_step:
  assumes "stored r r' m k c" "pt3 q ((jdbl ^^ Suc k) c)" "infinity q = 0" "2 ^ Suc k * m < length r" "0 < m"
  shows "stored r (r'[2 ^ Suc k * m := q]) m (Suc k) c"
proof -
  have ne: "2 ^ e * m \<noteq> 2 ^ Suc k * m" if "e \<in> {1..k}" for e
  proof -
    have "e \<noteq> Suc k" using that by auto
    then show ?thesis using assms(5) by (simp del: power_Suc)
  qed
  have l: "length r' = length r" using assms(1) by (simp add: stored_def)
  have "pt3 (r'[2 ^ Suc k * m := q] ! (2 ^ e * m)) ((jdbl ^^ e) c) \<and> infinity (r'[2 ^ Suc k * m := q] ! (2 ^ e * m)) = 0"
    if "e \<in> {1..Suc k}" for e
  proof (cases "e = Suc k")
    case True
    then show ?thesis using assms l by (simp del: power_Suc funpow.simps)
  next
    case False
    with that have "e \<in> {1..k}" by auto
    with ne [OF this] assms(1) show ?thesis by (simp add: stored_def del: power_Suc)
  qed
  moreover have "r'[2 ^ Suc k * m := q] ! i = r ! i" if "\<forall>e\<in>{1..Suc k}. i \<noteq> 2 ^ e * m" for i
  proof -
    have "i \<noteq> 2 ^ Suc k * m" "\<forall>e\<in>{1..k}. i \<noteq> 2 ^ e * m" using that by (auto simp del: power_Suc)
    then show ?thesis using assms(1) by (simp add: stored_def del: power_Suc)
  qed
  ultimately show ?thesis unfolding stored_def using l by (simp del: power_Suc)
qed

lemma dbl_store_rounds:
  assumes "pt3 p c" "2 ^ n * m < length r" "0 < m" "k < n"
  defines "s0 \<equiv> (pt_x p, sp_521_mont_dbl_9 (pt_y p) p521_mod, pt_z p,
    sp_521_mont_sqr_9 (sp_521_mont_sqr_9 (pt_z p) p521_mod p521_mp_mod) p521_mod p521_mp_mod)"
  shows "\<exists>s r'. fold (dbl_store_round n) [1..<Suc k] (s0, m, r) = (s, 2 ^ k * m, r') \<and>
    dbl_state s ((jdbl ^^ k) c) \<and> stored r r' m k c"
  using assms(4)
proof (induction k)
  case 0
  show ?case using dbl_state_init [OF assms(1)] by (simp add: s0_def stored_def)
next
  case (Suc k)
  then obtain s r' where s: "fold (dbl_store_round n) [1..<Suc k] (s0, m, r) = (s, 2 ^ k * m, r')"
    "dbl_state s ((jdbl ^^ k) c)" "stored r r' m k c" by auto
  obtain s' q where q: "dbl_store_round n (Suc k) (s, 2 ^ k * m, r') = (s', 2 ^ k * m * 2, r'[2 ^ k * m * 2 := q])"
    "pt3 q (jdbl ((jdbl ^^ k) c))" "infinity q = 0" "Suc k \<noteq> n \<Longrightarrow> dbl_state s' (jdbl ((jdbl ^^ k) c))"
    by (rule dbl_store_round [OF s(2), of n "Suc k" "2 ^ k * m" r']) blast
  have "(2 :: nat) ^ Suc k \<le> 2 ^ n" using Suc.prems by (intro power_increasing) simp_all
  then have b: "2 ^ Suc k * m < length r" using assms(2) by (meson le_less_trans mult_le_mono1)
  have e: "2 ^ k * m * 2 = 2 ^ Suc k * m" by simp
  have "stored r (r'[2 ^ Suc k * m := q]) m (Suc k) c"
    by (rule stored_step [OF s(3) _ q(3) b assms(3)]) (use q(2) in simp)
  moreover have "fold (dbl_store_round n) [1..<Suc (Suc k)] (s0, m, r) = (s', 2 ^ Suc k * m, r'[2 ^ Suc k * m := q])"
    using s(1) q(1) by (simp only: e upt_Suc_append fold_append) (simp add: q(1) e)
  ultimately show ?case using q(4) Suc.prems by auto
qed

lemma dbl_n_store_9_stored:
  assumes "pt3 p c" "2 ^ n * m < length r" "0 < m" "0 < n"
  shows "stored r (sp_521_proj_point_dbl_n_store_9 r p n m) m n c"
proof -
  obtain k where n: "n = Suc k" using assms(4) by (cases n) simp_all
  let ?s0 = "(pt_x p, sp_521_mont_dbl_9 (pt_y p) p521_mod, pt_z p,
    sp_521_mont_sqr_9 (sp_521_mont_sqr_9 (pt_z p) p521_mod p521_mp_mod) p521_mod p521_mp_mod)"
  obtain s r' where s: "fold (dbl_store_round n) [1..<Suc k] (?s0, m, r) = (s, 2 ^ k * m, r')"
    "dbl_state s ((jdbl ^^ k) c)" "stored r r' m k c"
    using dbl_store_rounds [OF assms(1-3), of k] n by auto
  obtain s' q where q: "dbl_store_round n (Suc k) (s, 2 ^ k * m, r') = (s', 2 ^ k * m * 2, r'[2 ^ k * m * 2 := q])"
    "pt3 q (jdbl ((jdbl ^^ k) c))" "infinity q = 0"
    by (rule dbl_store_round [OF s(2), of n "Suc k" "2 ^ k * m" r']) blast
  have e: "2 ^ k * m * 2 = 2 ^ Suc k * m" by simp
  have "stored r (r'[2 ^ Suc k * m := q]) m (Suc k) c"
    by (rule stored_step [OF s(3) _ q(3) _ assms(3)]) (use q(2) assms(2) n in simp_all)
  moreover have "fold (dbl_store_round n) [1..<Suc n] (?s0, m, r) = (s', 2 ^ Suc k * m, r'[2 ^ Suc k * m := q])"
    using s(1) q(1) unfolding n by (simp only: e upt_Suc_append fold_append) (simp add: q(1) e)
  ultimately show ?thesis by (simp add: sp_521_proj_point_dbl_n_store_9_def Let_def n del: upt_Suc)
qed

section \<open>Sum and difference\<close>

text \<open>The addition formula on integer coordinates.\<close>

definition jadd :: "int \<times> int \<times> int \<Rightarrow> int \<times> int \<times> int \<Rightarrow> int \<times> int \<times> int" where
  "jadd = (\<lambda>(x1, y1, z1) (x2, y2, z2).
     let u1 = z2 * z2 * x1; u2 = z1 * z1 * x2; s1 = z2 * z2 * z2 * y1; s2 = z1 * z1 * z1 * y2;
         h = u2 - u1; r = s2 - s1; x3 = r * r - h * h * h - 2 * (u1 * (h * h))
     in (x3, (u1 * (h * h) - x3) * r - h * h * h * s1, z1 * h * z2))"

lemma add_9_pt3:
  assumes "pt3 p c" "pt3 q d" "infinity p = 0" "infinity q = 0" "\<not> same_9 p q"
  shows "pt3 (sp_521_proj_point_add_9 p q) (jadd c d)" "infinity (sp_521_proj_point_add_9 p q) = 0"
proof -
  obtain x1 y1 z1 x2 y2 z2 where c: "c = (x1, y1, z1)" and d: "d = (x2, y2, z2)" by (cases c; cases d)
  have p: "pt521 p x1 y1 z1" and q: "pt521 q x2 y2 z2" using assms(1,2) by (simp_all add: c d pt3_def)
  note a = proj_point_add_9_pt [OF p q assms(3-5) refl]
  show "pt3 (sp_521_proj_point_add_9 p q) (jadd c d)"
    unfolding c d pt3_def jadd_def Let_def prod.case by (rule a(1))
  show "infinity (sp_521_proj_point_add_9 p q) = 0" by (rule a(2))
qed

text \<open>Subtraction of a normalised number from the modulus does not borrow.\<close>

lemma sub_from_mod_9:
  assumes "0 \<le> v" "v \<le> P521"
  shows "f521.rep (sp_521_sub_9 p521_mod (digs 58 9 v)) (- v)"
proof -
  let ?d = "digs 58 9 v"
  have d: "digits_in 0 (2 ^ 58) ?d" by (rule digs9_le) (use assms in \<open>simp_all add: P521_def\<close>)
  have le: "0 \<le> ?d ! i \<and> ?d ! i \<le> p521_mod ! i" if "i < 9" for i
  proof (cases "i = 8")
    case True
    have "v div 2 ^ 464 < 2 ^ 57" by (rule div_less_of_less_mult) (use assms in \<open>simp_all add: P521_def\<close>)
    then show ?thesis using assms True by (simp add: digs_nth p521_mod_def pos_imp_zdiv_nonneg_iff)
  next
    case False
    have "p521_mod ! i = 2 ^ 58 - 1" using that False by (auto simp: p521_mod_def less_Suc_eq numeral_eq_Suc)
    then show ?thesis using digits_in_nth [OF d, of i] that by simp
  qed
  have e: "sp_521_sub_9 p521_mod ?d = map2 (-) p521_mod ?d"
    unfolding sp_521_sub_9_def using p521_mod_digs
    by (subst map2_s64_diff) (simp_all add: digits_in_mono [OF d] digits_in_mono [OF p521_mod_digs(3)])
  have "0 \<le> map2 (-) p521_mod ?d ! i \<and> map2 (-) p521_mod ?d ! i < 2 ^ 58 + 1" if "i < 9" for i
    using le [OF that] that digits_in_nth [OF p521_mod_digs(3), of i] by (simp add: p521_mod_digs)
  then have "digits_in 0 (2 ^ 58 + 1) (map2 (-) p521_mod ?d)"
    by (auto simp: digits_in_def in_set_conv_nth p521_mod_digs)
  moreover have "lval 58 (map2 (-) p521_mod ?d) = P521 - v"
    by (simp add: lval_map2_diff p521_mod_digs)
  ultimately show ?thesis
    unfolding e f521.rep_def fe521_def val521_def using assms by (simp add: p521_mod_digs)
qed

lemma add_sub_9_pt3:
  assumes "pt3 p (x1, y1, z1)" "pt3 q (x2, y2, z2)"
  shows "pt3 (fst (sp_521_proj_point_add_sub_9 p q)) (jadd (x1, y1, z1) (x2, y2, z2))"
    and "pt3 (snd (sp_521_proj_point_add_sub_9 p q)) (jadd (x1, y1, z1) (x2, - y2, z2))"
    and "infinity (fst (sp_521_proj_point_add_sub_9 p q)) = 0" "infinity (snd (sp_521_proj_point_add_sub_9 p q)) = 0"
proof -
  let ?mul = "\<lambda>x y. sp_521_mont_mul_9 x y p521_mod p521_mp_mod"
  let ?sqr = "\<lambda>x. sp_521_mont_sqr_9 x p521_mod p521_mp_mod"
  let ?sub = "\<lambda>x y. sp_521_mont_sub_9 x y p521_mod"
  have c: "f521.rep (take 9 (pt_x p)) x1" "f521.rep (take 9 (pt_y p)) y1" "f521.rep (take 9 (pt_z p)) z1"
    "f521.rep (pt_x q) x2" "f521.rep (pt_y q) y2" "f521.rep (pt_z q) z2"
    using assms by (simp_all add: pt3_def pt521_def rep_take9)
  define t1 t2 t3 t4 where "t1 = ?mul (?sqr (pt_z q)) (take 9 (pt_x p))"
    and "t2 = ?mul (?sqr (take 9 (pt_z p))) (pt_x q)"
    and "t3 = ?mul (?mul (?sqr (pt_z q)) (pt_z q)) (take 9 (pt_y p))"
    and "t4 = ?mul (?mul (?sqr (take 9 (pt_z p))) (take 9 (pt_z p))) (pt_y q)"
  let ?u1 = "z2 * z2 * x1" and ?u2 = "z1 * z1 * x2" and ?s1 = "z2 * z2 * z2 * y1" and ?s2 = "z1 * z1 * z1 * y2"
  have t: "f521.rep t1 ?u1" "f521.rep t2 ?u2" "f521.rep t3 ?s1" "f521.rep t4 ?s2"
    unfolding t1_def t2_def t3_def t4_def by (intro f521.rep_intros c)+
  define hh rr where "hh = ?sub t2 t1" and "rr = ?sub t4 t3"
  define ss where "ss = sp_521_mont_add_9 t4 t3 p521_mod"
  let ?h = "?u2 - ?u1" and ?r = "?s2 - ?s1" and ?w = "?s2 + ?s1"
  have hr: "f521.rep hh ?h" "f521.rep rr ?r" "f521.rep ss ?w"
    unfolding hh_def rr_def ss_def by (intro f521.rep_intros t)+
  obtain v where v: "0 \<le> v" "v \<le> P521" "ss = digs 58 9 v"
    using mont_add_9_digs [OF f521.rep_fe [OF t(4)] f521.rep_fe [OF t(3)]] unfolding ss_def by blast
  have "f521.rep (sp_521_sub_9 p521_mod ss) (- v)" unfolding v(3) by (rule sub_from_mod_9 [OF v(1,2)])
  moreover have "v mod P521 = ?w mod P521" using hr(3) reduced_fe521 [OF v(1,2)] by (simp add: f521.rep_def v(3))
  then have "(- v) mod P521 = (- ?w) mod P521" by (metis mod_minus_eq)
  ultimately have n: "f521.rep (sp_521_sub_9 p521_mod ss) (- ?w)" by (rule f521.rep_cong)
  define xa where "xa = ?sub (?sub (?sqr rr) (?mul (?sqr hh) hh)) (sp_521_mont_dbl_9 (?mul t1 (?sqr hh)) p521_mod)"
  define xs where "xs = ?sub (?sub (?sqr ss) (?mul (?sqr hh) hh)) (sp_521_mont_dbl_9 (?mul t1 (?sqr hh)) p521_mod)"
  let ?xa = "?r * ?r - ?h * ?h * ?h - 2 * (?u1 * (?h * ?h))" and ?xs = "?w * ?w - ?h * ?h * ?h - 2 * (?u1 * (?h * ?h))"
  have x: "f521.rep xa ?xa" "f521.rep xs ?xs"
    unfolding xa_def xs_def by (intro f521.rep_intros t hr)+
  have ya: "f521.rep (?sub (?mul (?sub (?mul t1 (?sqr hh)) xa) rr) (?mul (?mul (?sqr hh) hh) t3))
      ((?u1 * (?h * ?h) - ?xa) * ?r - ?h * ?h * ?h * ?s1)"
    by (intro f521.rep_intros t hr x)
  have ys: "f521.rep (?sub (?mul (?sub (?mul t1 (?sqr hh)) xs) (sp_521_sub_9 p521_mod ss)) (?mul (?mul (?sqr hh) hh) t3))
      ((?u1 * (?h * ?h) - ?xs) * (- ?w) - ?h * ?h * ?h * ?s1)"
    by (intro f521.rep_intros t hr x n)
  have z: "f521.rep (?mul (?mul (take 9 (pt_z p)) (pt_z q)) hh) (z1 * z2 * ?h)" by (intro f521.rep_intros c hr)
  have e: "sp_521_proj_point_add_sub_9 p q =
      (\<lparr>pt_x = xa, pt_y = ?sub (?mul (?sub (?mul t1 (?sqr hh)) xa) rr) (?mul (?mul (?sqr hh) hh) t3),
        pt_z = ?mul (?mul (take 9 (pt_z p)) (pt_z q)) hh, infinity = 0\<rparr>,
       \<lparr>pt_x = xs, pt_y = ?sub (?mul (?sub (?mul t1 (?sqr hh)) xs) (sp_521_sub_9 p521_mod ss)) (?mul (?mul (?sqr hh) hh) t3),
        pt_z = take 9 (?mul (?mul (take 9 (pt_z p)) (pt_z q)) hh), infinity = 0\<rparr>)"
    unfolding sp_521_proj_point_add_sub_9_def Let_def t1_def t2_def t3_def t4_def hh_def rr_def ss_def xa_def xs_def ..
  have zz: "z1 * z2 * ?h = z1 * ?h * z2" by (simp only: ac_simps)
  have neg: "z1 * z1 * z1 * (- y2) - ?s1 = - ?w" "- ?w * - ?w = ?w * ?w" by (simp, simp only: minus_mult_minus)
  show "pt3 (fst (sp_521_proj_point_add_sub_9 p q)) (jadd (x1, y1, z1) (x2, y2, z2))"
    unfolding e fst_conv pt3_def jadd_def Let_def prod.case pt521_def using x(1) ya z unfolding zz by simp
  show "pt3 (snd (sp_521_proj_point_add_sub_9 p q)) (jadd (x1, y1, z1) (x2, - y2, z2))"
    unfolding e snd_conv pt3_def jadd_def Let_def prod.case pt521_def neg
    using x(2) ys rep_take9 [OF z] unfolding zz by simp
  show "infinity (fst (sp_521_proj_point_add_sub_9 p q)) = 0" "infinity (snd (sp_521_proj_point_add_sub_9 p q)) = 0"
    by (simp_all add: e)
qed

section \<open>Mixed addition\<close>

text \<open>The test of the mixed addition for equal points: the coordinates of \<open>p\<close> against those of \<open>q\<close> scaled to
  the \<open>z\<close> of \<open>p\<close>, digit by digit.\<close>

definition same_qz1 :: "sp_point_521 \<Rightarrow> sp_point_521 \<Rightarrow> bool" where
  "same_qz1 p q \<longleftrightarrow>
    (let mul = (\<lambda>x y. sp_521_mont_mul_9 x y p521_mod p521_mp_mod);
         t2 = sp_521_mont_sqr_9 (pt_z p) p521_mod p521_mp_mod
     in sp_521_cmp_equal_9 (pt_x p) (mul t2 (pt_x q)) AND sp_521_cmp_equal_9 (pt_y p) (mul (mul t2 (pt_z p)) (pt_y q)) \<noteq> 0)"

lemma add_qz1_9_same:
  assumes "infinity p = 0" "infinity q = 0" "same_qz1 p q"
  shows "sp_521_proj_point_add_qz1_9 p q = sp_521_proj_point_dbl_9 p"
  using assms by (simp add: sp_521_proj_point_add_qz1_9_def same_qz1_def Let_def)

lemma add_qz1_9_pt3:
  assumes p: "pt3 p (x1, y1, z1)" and q: "pt3 q (x2, y2, 1)"
    and inf: "infinity p = 0" "infinity q = 0" and ne: "\<not> same_qz1 p q"
  shows "pt3 (sp_521_proj_point_add_qz1_9 p q) (jadd (x1, y1, z1) (x2, y2, 1))"
    and "infinity (sp_521_proj_point_add_qz1_9 p q) = 0"
proof -
  let ?mul = "\<lambda>x y. sp_521_mont_mul_9 x y p521_mod p521_mp_mod"
  let ?sqr = "\<lambda>x. sp_521_mont_sqr_9 x p521_mod p521_mp_mod"
  let ?sub = "\<lambda>x y. sp_521_mont_sub_9 x y p521_mod"
  have c: "f521.rep (pt_x p) x1" "f521.rep (pt_y p) y1" "f521.rep (pt_z p) z1"
    "f521.rep (pt_x q) x2" "f521.rep (pt_y q) y2"
    using p q by (simp_all add: pt3_def pt521_def)
  define t2 t4 where "t2 = ?mul (?sqr (pt_z p)) (pt_x q)"
    and "t4 = ?mul (?mul (?sqr (pt_z p)) (pt_z p)) (pt_y q)"
  let ?h = "z1 * z1 * x2 - x1" and ?r = "z1 * z1 * z1 * y2 - y1"
  have t: "f521.rep t2 (z1 * z1 * x2)" "f521.rep t4 (z1 * z1 * z1 * y2)"
    unfolding t2_def t4_def by (intro f521.rep_intros c)+
  have cond: "sp_521_cmp_equal_9 (pt_x p) t2 AND sp_521_cmp_equal_9 (pt_y p) t4 = 0"
    using ne by (simp add: same_qz1_def Let_def t2_def t4_def)
  define hh rr where "hh = ?sub t2 (pt_x p)" and "rr = ?sub t4 (pt_y p)"
  have hr: "f521.rep hh ?h" "f521.rep rr ?r" unfolding hh_def rr_def by (intro f521.rep_intros t c)+
  define x where "x = ?sub (?sub (?sqr rr) (?mul (?sqr hh) hh)) (sp_521_mont_dbl_9 (?mul (pt_x p) (?sqr hh)) p521_mod)"
  define y where "y = ?sub (?mul (?sub (?mul (pt_x p) (?sqr hh)) x) rr) (?mul (?mul (?sqr hh) hh) (pt_y p))"
  define z where "z = ?mul (pt_z p) hh"
  let ?x3 = "?r * ?r - ?h * ?h * ?h - 2 * (x1 * (?h * ?h))"
  have x: "f521.rep x ?x3" unfolding x_def by (intro f521.rep_intros c hr)
  have y: "f521.rep y ((x1 * (?h * ?h) - ?x3) * ?r - ?h * ?h * ?h * y1)"
    unfolding y_def by (intro f521.rep_intros c hr x)
  have z: "f521.rep z (z1 * ?h)" unfolding z_def by (intro f521.rep_intros c hr)
  have l: "9 \<le> length x" "9 \<le> length y" "9 \<le> length z"
    using x y z by (simp_all add: f521.rep_def fe521_def)
  have add: "sp_521_proj_point_add_qz1_9 p q = \<lparr>pt_x = take 9 x, pt_y = take 9 y, pt_z = take 9 z, infinity = 0\<rparr>"
    unfolding sp_521_proj_point_add_qz1_9_def Let_def t2_def [symmetric] t4_def [symmetric]
      hh_def [symmetric] rr_def [symmetric] x_def [symmetric] y_def [symmetric] z_def [symmetric] inf select3_simps
    using list_update_id [of "take 9 z" 0] by (simp add: cond map_nth_9 l del: upt_rec_numeral)
  show "pt3 (sp_521_proj_point_add_qz1_9 p q) (jadd (x1, y1, z1) (x2, y2, 1))"
    unfolding pt3_def jadd_def Let_def prod.case mult_1_left mult_1_right
    using x y z by (simp add: add pt521_def rep_take9)
  show "infinity (sp_521_proj_point_add_qz1_9 p q) = 0" by (simp add: add)
qed

lemma same_qz1_dvd:
  assumes p: "pt3 p (x1, y1, z1)" and q: "pt3 q (x2, y2, 1)" and "same_qz1 p q"
  shows "P521 dvd z1 * z1 * x2 - x1 \<and> P521 dvd z1 * z1 * z1 * y2 - y1"
proof -
  let ?mul = "\<lambda>x y. sp_521_mont_mul_9 x y p521_mod p521_mp_mod"
  let ?sqr = "\<lambda>x. sp_521_mont_sqr_9 x p521_mod p521_mp_mod"
  have c: "f521.rep (pt_x p) x1" "f521.rep (pt_y p) y1" "f521.rep (pt_z p) z1"
    "f521.rep (pt_x q) x2" "f521.rep (pt_y q) y2"
    using p q by (simp_all add: pt3_def pt521_def)
  define t2 t4 where "t2 = ?mul (?sqr (pt_z p)) (pt_x q)"
    and "t4 = ?mul (?mul (?sqr (pt_z p)) (pt_z p)) (pt_y q)"
  have t: "f521.rep t2 (z1 * z1 * x2)" "f521.rep t4 (z1 * z1 * z1 * y2)"
    unfolding t2_def t4_def by (intro f521.rep_intros c)+
  then have len: "9 \<le> length t2" "9 \<le> length t4" "9 \<le> length (pt_x p)" "9 \<le> length (pt_y p)"
    using c by (simp_all add: f521.rep_def fe521_def)
  have "sp_521_cmp_equal_9 (pt_x p) t2 AND sp_521_cmp_equal_9 (pt_y p) t4 \<noteq> 0"
    using assms(3) by (simp add: same_qz1_def Let_def t2_def t4_def)
  then have "take 9 (pt_x p) = take 9 t2 \<and> take 9 (pt_y p) = take 9 t4"
    by (auto simp: cmp_equal_9_iff len split: if_splits)
  then show ?thesis
    using rep_eq_digits [OF t(1) c(1)] rep_eq_digits [OF t(2) c(2)] by metis
qed

lemma add_qz1_9_infinity:
  assumes "infinity p = 1 \<and> infinity q = 0 \<or> infinity p = 0 \<and> infinity q = 1"
  shows "sp_521_proj_point_add_qz1_9 p q = sp_521_proj_point_add_9 p q"
proof -
  have c: "NOT 1 AND sp_521_cmp_equal_9 a b AND sp_521_cmp_equal_9 c d = 0" for a b c d
    by (simp add: sp_521_cmp_equal_9_def)
  show ?thesis
    using assms c by (auto simp: sp_521_proj_point_add_qz1_9_def sp_521_proj_point_add_9_def Let_def simp del: upt_rec_numeral)
qed

section \<open>Table access\<close>

lemma or_select_fold:
  assumes "length r = 9" "\<forall>i\<in>set is. 9 \<le> length (f i)" "distinct is"
  shows "fold (\<lambda>i r. let msk = s64 (0 - (if int i = idx then 1 else 0)) in map2 (\<lambda>x y. x OR (msk AND y)) r (take 9 (f i))) is r =
    (if \<exists>i\<in>set is. int i = idx then map2 (OR) r (take 9 (f (nat idx))) else r)"
  using assms
proof (induction "is" arbitrary: r)
  case (Cons i "is")
  have z: "map2 (\<lambda>x y. x) r (take 9 (f i)) = r" by (rule nth_equalityI) (use Cons.prems in auto)
  show ?case
  proof (cases "int i = idx")
    case True
    then have "\<not> (\<exists>j\<in>set is. int j = idx)" using Cons.prems(3) by auto
    moreover have "nat idx = i" using True by auto
    ultimately show ?thesis using True Cons by (simp add: s64_def Let_def)
  next
    case False
    then show ?thesis using Cons by (auto simp: z s64_def Let_def)
  qed
qed simp

lemma get_point_33_9_entry:
  assumes "length table = 33" "\<forall>t\<in>set table. 9 \<le> length (pt_x t) \<and> 9 \<le> length (pt_y t) \<and> 9 \<le> length (pt_z t)"
  shows "1 \<le> idx \<Longrightarrow> idx < 33 \<Longrightarrow> sp_521_get_point_33_9 r table idx =
      r\<lparr>pt_x := take 9 (pt_x (table ! nat idx)), pt_y := take 9 (pt_y (table ! nat idx)), pt_z := take 9 (pt_z (table ! nat idx))\<rparr>"
    and "idx = 0 \<Longrightarrow> sp_521_get_point_33_9 r table idx =
      r\<lparr>pt_x := replicate 9 0, pt_y := replicate 9 0, pt_z := replicate 9 0\<rparr>"
proof -
  have len: "9 \<le> length (pt_x (table ! i))" "9 \<le> length (pt_y (table ! i))" "9 \<le> length (pt_z (table ! i))"
    if "i < 33" for i
    using assms that by simp_all
  have or0: "map2 (OR) (replicate 9 0) (take 9 xs) = take 9 xs" if "9 \<le> length xs" for xs :: "int list"
    by (rule nth_equalityI) (use that in simp_all)
  note f = or_select_fold [of "replicate 9 0" "[1..<33]" _ idx]
  show "1 \<le> idx \<Longrightarrow> idx < 33 \<Longrightarrow> sp_521_get_point_33_9 r table idx =
      r\<lparr>pt_x := take 9 (pt_x (table ! nat idx)), pt_y := take 9 (pt_y (table ! nat idx)), pt_z := take 9 (pt_z (table ! nat idx))\<rparr>"
  proof -
    assume i: "1 \<le> idx" "idx < 33"
    then have "\<exists>i\<in>set [1..<33]. int i = idx" by (intro bexI [of _ "nat idx"]) auto
    moreover have "nat idx < 33" using i by simp
    ultimately show ?thesis
      unfolding sp_521_get_point_33_9_def Let_def [of "\<lambda>c. _ c"]
      using f [of "\<lambda>i. pt_x (table ! i)"] f [of "\<lambda>i. pt_y (table ! i)"] f [of "\<lambda>i. pt_z (table ! i)"] len
      by (simp add: or0 del: upt_rec_numeral)
  qed
  assume i: "idx = 0"
  then have "\<not> (\<exists>i\<in>set [1..<33]. int i = idx)" by auto
  then show "sp_521_get_point_33_9 r table idx =
      r\<lparr>pt_x := replicate 9 0, pt_y := replicate 9 0, pt_z := replicate 9 0\<rparr>"
    unfolding sp_521_get_point_33_9_def Let_def [of "\<lambda>c. _ c"]
    using f [of "\<lambda>i. pt_x (table ! i)"] f [of "\<lambda>i. pt_y (table ! i)"] f [of "\<lambda>i. pt_z (table ! i)"] len
    by (simp del: upt_rec_numeral)
qed

section \<open>Recoding\<close>

text \<open>The multiple of the point a recoded window stands for.\<close>

definition rc_signed :: "ecc_recode_521 \<Rightarrow> int" where
  "rc_signed v = (if rc_neg v = 0 then rc_i v else - rc_i v)"

definition rc_of :: "int \<Rightarrow> ecc_recode_521" where
  "rc_of y = \<lparr>rc_i = recode_index_9_6 ! nat y, rc_neg = recode_neg_9_6 ! nat y\<rparr>"

lemma recode_tables:
  assumes "0 \<le> y" "y \<le> 64"
  shows "rc_signed (rc_of y) + 64 * (sar y 6 + rc_neg (rc_of y)) = y"
    and "sar y 6 + rc_neg (rc_of y) \<in> {0, 1}" "0 \<le> rc_i (rc_of y)" "rc_i (rc_of y) \<le> 32"
    and "y \<le> 32 \<Longrightarrow> rc_i (rc_of y) = y" "rc_neg (rc_of y) \<in> {0, 1}"
proof -
  define good where "good = (\<lambda>n. let y = int n; v = rc_of y in
    rc_signed v + 64 * (sar y 6 + rc_neg v) = y \<and> (sar y 6 + rc_neg v = 0 \<or> sar y 6 + rc_neg v = 1) \<and>
    0 \<le> rc_i v \<and> rc_i v \<le> 32 \<and> (y \<le> 32 \<longrightarrow> rc_i v = y) \<and> (rc_neg v = 0 \<or> rc_neg v = 1))"
  have "list_all good [0..<65]"
    unfolding good_def rc_signed_def rc_of_def recode_index_9_6_def recode_neg_9_6_def sar_def by code_simp
  then have "good (nat y)" using assms by (simp add: list_all_iff del: upt_rec_numeral)
  then show "rc_signed (rc_of y) + 64 * (sar y 6 + rc_neg (rc_of y)) = y"
    "sar y 6 + rc_neg (rc_of y) \<in> {0, 1}" "0 \<le> rc_i (rc_of y)" "rc_i (rc_of y) \<le> 32"
    "y \<le> 32 \<Longrightarrow> rc_i (rc_of y) = y" "rc_neg (rc_of y) \<in> {0, 1}"
    using assms unfolding good_def Let_def by simp_all
qed

text \<open>The position after \<open>i\<close> windows: digit \<open>6 i div 58\<close>, shifted by \<open>6 i mod 58\<close> bits.\<close>

definition window_pos :: "int list \<Rightarrow> nat \<Rightarrow> nat \<times> int \<times> nat \<Rightarrow> bool" where
  "window_pos k i = (\<lambda>(j, n, b). j = 6 * i div 58 \<and> b = 6 * i mod 58 \<and> (j < 9 \<longrightarrow> n = k ! j div 2 ^ b))"

lemma digs_digit:
  assumes "0 \<le> V" "V < 2 ^ 522" "j < 9"
  shows "digs 58 9 V ! j = V div 2 ^ (58 * j) mod 2 ^ 58"
proof (cases "j = 8")
  case True
  have "V div 2 ^ 464 < 2 ^ 58" "0 \<le> V div 2 ^ 464"
    using assms by (simp_all add: div_less_of_less_mult pos_imp_zdiv_nonneg_iff)
  then show ?thesis using True by (simp add: digs_nth)
qed (use assms in \<open>simp add: digs_nth\<close>)

lemma window_cross:
  fixes A :: int
  assumes "52 < b" "b < 58"
  shows "(A mod 2 ^ 58 div 2 ^ b) mod 2 ^ 8 OR (s64 (A div 2 ^ 58 mod 2 ^ 58 * 2 ^ (58 - b)) AND 63) mod 2 ^ 8 = A div 2 ^ b mod 64"
proof -
  define c where "c = 58 - b"
  have c: "c < 6" "58 = b + c" using assms by (simp_all add: c_def)
  define x where "x = A mod 2 ^ 58 div 2 ^ b"
  have xc: "x = A div 2 ^ b mod 2 ^ c" unfolding x_def c(2) by (rule mod_div_pow)
  have le: "(2 :: int) ^ c \<le> 2 ^ 6" using c by (intro power_increasing) simp_all
  have x: "0 \<le> x" "x < 2 ^ c" by (simp_all add: xc)
  then have x8: "x mod 2 ^ 8 = x" using le by (intro mod_pos_pos_trivial) simp_all
  define B where "B = A div 2 ^ 58"
  have six: "(64 :: int) = 2 ^ c * 2 ^ (6 - c)" using c by (simp flip: power_add)
  have "s64 (B mod 2 ^ 58 * 2 ^ c) AND 63 = (B mod 2 ^ 58 * 2 ^ c) mod 64"
    using s64_and_mask [of 6 "B mod 2 ^ 58 * 2 ^ c"] by simp
  also have "\<dots> = 2 ^ c * (B mod 2 ^ 58 mod 2 ^ (6 - c))"
    unfolding six by (simp only: mult.commute [of "B mod 2 ^ 58"] mult_mod_right)
  also have "B mod 2 ^ 58 mod 2 ^ (6 - c) = B mod 2 ^ (6 - c)" by (rule mod_mod_pow) simp
  finally have y: "s64 (B mod 2 ^ 58 * 2 ^ c) AND 63 = 2 ^ c * (B mod 2 ^ (6 - c))" .
  have "B mod 2 ^ (6 - c) < 2 ^ (6 - c)" "0 \<le> B mod 2 ^ (6 - c)" by simp_all
  then have "2 ^ c * (B mod 2 ^ (6 - c)) < 64" unfolding six by (intro mult_strict_left_mono) simp_all
  then have y8: "2 ^ c * (B mod 2 ^ (6 - c)) mod 2 ^ 8 = 2 ^ c * (B mod 2 ^ (6 - c))"
    by (intro mod_pos_pos_trivial) simp_all
  have "A div 2 ^ b div 2 ^ c = B" unfolding B_def c(2) div_div_pow ..
  then have "A div 2 ^ b mod (2 ^ c * 2 ^ (6 - c)) = x + 2 ^ c * (B mod 2 ^ (6 - c))"
    unfolding xc by (simp add: zmod_zmult2_eq)
  then show ?thesis
    unfolding x_def [symmetric] B_def [symmetric] c_def [symmetric] x8 y y8 six
    by (simp only: or_bit_add [OF x])
qed

lemma recode_window_bits:
  assumes V: "0 \<le> V" "V < 2 ^ 522" and i: "i < 87" and pos: "window_pos (digs 58 9 V) i pos"
  obtains pos' where "recode_window (digs 58 9 V) pos = (V div 2 ^ (6 * i) mod 64, pos')"
    and "window_pos (digs 58 9 V) (Suc i) pos'"
proof -
  let ?k = "digs 58 9 V"
  obtain j n b where p: "pos = (j, n, b)" by (cases pos)
  define A where "A = V div 2 ^ (58 * j)"
  have jb: "j = 6 * i div 58" "b = 6 * i mod 58" and j: "j < 9" and b: "b < 58"
    using pos i by (auto simp: p window_pos_def)
  have kj: "?k ! j = A mod 2 ^ 58" unfolding A_def by (rule digs_digit [OF V j])
  have n: "n = A mod 2 ^ 58 div 2 ^ b" using pos j kj by (simp add: p window_pos_def)
  have e6: "6 * i = 58 * j + b" unfolding jb by (simp only: mult_div_mod_eq)
  then have bits: "V div 2 ^ (6 * i) mod 64 = A div 2 ^ b mod 64" unfolding A_def div_div_pow by simp
  have low: "A mod 2 ^ 58 div 2 ^ b mod 64 = A div 2 ^ b mod 64" if "b + 6 \<le> 58"
    using mod_div_mod_pow [OF that, of A] by simp
  consider "b + 6 < 58" | "b + 6 = 58" | "b + 6 > 58" by linarith
  then show ?thesis
  proof cases
    case 1
    have g: "6 * Suc i = (b + 6) + 58 * j" using e6 by simp
    have s: "6 * Suc i div 58 = j" "6 * Suc i mod 58 = b + 6" unfolding g using 1 by simp_all
    have "n mod 2 ^ 8 AND (2 ^ 6 - 1) = n mod 2 ^ 8 mod 2 ^ 6" by (rule and_mask_mod)
    also have "\<dots> = n mod 2 ^ 6" by (rule mod_mod_pow) simp
    finally have "n mod 2 ^ 8 AND 0x3f = V div 2 ^ (6 * i) mod 64" using low 1 by (simp add: bits n)
    moreover have "sar n 6 = ?k ! j div 2 ^ (b + 6)" unfolding sar_def n kj div_div_pow ..
    ultimately show ?thesis
      using 1 s by (intro that [of "(j, sar n 6, b + 6)"]) (simp_all add: p recode_window_def window_pos_def)
  next
    case 2
    then have b52: "b = 52" by simp
    have g: "6 * Suc i = 58 * (j + 1)" using e6 2 by simp
    have s: "6 * Suc i div 58 = j + 1" "6 * Suc i mod 58 = 0" unfolding g by simp_all
    have "n = A div 2 ^ b mod 2 ^ 6" unfolding n b52 using mod_div_pow [of A 52 6] by simp
    then have "n mod 2 ^ 8 = V div 2 ^ (6 * i) mod 64" unfolding bits by (simp add: b52)
    then show ?thesis
      using 2 s by (intro that [of "(j + 1, if j + 1 < 9 then ?k ! (j + 1) else sar n 6, 0)"])
        (simp_all add: p recode_window_def window_pos_def Let_def)
  next
    case 3
    have g: "6 * Suc i = (b - 52) + 58 * (j + 1)" using e6 3 by simp
    have s: "6 * Suc i div 58 = j + 1" "6 * Suc i mod 58 = b - 52"
      unfolding g using b by (simp_all only: div_mult_self2 mod_mult_self2) simp_all
    have j8: "j + 1 < 9" using e6 i 3 by linarith
    have "?k ! (j + 1) = V div 2 ^ (58 * (j + 1)) mod 2 ^ 58" by (rule digs_digit [OF V j8])
    also have "V div 2 ^ (58 * (j + 1)) = A div 2 ^ 58" unfolding A_def div_div_pow by (simp add: algebra_simps)
    finally have k1: "?k ! (j + 1) = A div 2 ^ 58 mod 2 ^ 58" .
    have "n mod 2 ^ 8 OR (s64 (?k ! (j + 1) * 2 ^ (58 - b)) AND 0x3f) mod 2 ^ 8 = V div 2 ^ (6 * i) mod 64"
      unfolding n k1 bits by (rule window_cross) (use 3 b in simp_all)
    moreover have "\<not> b + 6 < 58" "b + 6 \<noteq> 58" using 3 by simp_all
    ultimately show ?thesis
      using j8 s by (intro that [of "(j + 1, sar (?k ! (j + 1)) (b - 52), b - 52)"])
        (simp_all add: p recode_window_def window_pos_def Let_def sar_def)
  qed
qed

definition recode_inv :: "int \<Rightarrow> nat \<Rightarrow> (nat \<times> int \<times> nat) \<times> int \<times> ecc_recode_521 list \<Rightarrow> bool" where
  "recode_inv V m = (\<lambda>(pos, carry, vs). window_pos (digs 58 9 V) m pos \<and> carry \<in> {0, 1} \<and> length vs = m \<and>
     (\<forall>v\<in>set vs. 0 \<le> rc_i v \<and> rc_i v \<le> 32 \<and> rc_neg v \<in> {0, 1}) \<and>
     lval 6 (map rc_signed vs) + 2 ^ (6 * m) * carry = V mod 2 ^ (6 * m))"

lemma recode_step:
  assumes V: "0 \<le> V" "V < 2 ^ 522" and "m < 87" "recode_inv V m (pos, carry, vs)"
  defines "y \<equiv> V div 2 ^ (6 * m) mod 64 + carry"
  obtains pos' where "recode_step (digs 58 9 V) (pos, carry, vs) = (pos', sar y 6 + rc_neg (rc_of y), vs @ [rc_of y])"
    and "window_pos (digs 58 9 V) (Suc m) pos'" "0 \<le> y" "y \<le> 64"
proof -
  have pos: "window_pos (digs 58 9 V) m pos" and c: "carry \<in> {0, 1}" using assms(4) by (simp_all add: recode_inv_def)
  obtain pos' where w: "recode_window (digs 58 9 V) pos = (V div 2 ^ (6 * m) mod 64, pos')"
    "window_pos (digs 58 9 V) (Suc m) pos'"
    by (rule recode_window_bits [OF V assms(3) pos])
  have "V div 2 ^ (6 * m) mod 64 < 64" "0 \<le> V div 2 ^ (6 * m) mod 64" by simp_all
  then have y: "0 \<le> y" "y \<le> 64" using c by (auto simp: y_def)
  then have "(V div 2 ^ (6 * m) mod 64 + carry) mod 2 ^ 8 = y" by (simp add: y_def)
  then show ?thesis
    using w y by (intro that [of pos']) (simp_all add: recode_step_def rc_of_def)
qed

lemma recode_inv_step:
  assumes V: "0 \<le> V" "V < 2 ^ 522" and m: "m < 87" and s: "recode_inv V m s"
  shows "recode_inv V (Suc m) (recode_step (digs 58 9 V) s)"
proof -
  obtain pos carry vs where sv: "s = (pos, carry, vs)" by (cases s)
  define x where "x = V div 2 ^ (6 * m) mod 64"
  obtain pos' where r: "recode_step (digs 58 9 V) s = (pos', sar (x + carry) 6 + rc_neg (rc_of (x + carry)), vs @ [rc_of (x + carry)])"
    "window_pos (digs 58 9 V) (Suc m) pos'" and y: "0 \<le> x + carry" "x + carry \<le> 64"
    unfolding sv x_def by (rule recode_step [OF V m s [unfolded sv]])
  note t = recode_tables [OF y]
  have i: "length vs = m" "\<forall>v\<in>set vs. 0 \<le> rc_i v \<and> rc_i v \<le> 32 \<and> rc_neg v \<in> {0, 1}"
    "lval 6 (map rc_signed vs) + 2 ^ (6 * m) * carry = V mod 2 ^ (6 * m)"
    using s by (simp_all add: sv recode_inv_def)
  define c' where "c' = sar (x + carry) 6 + rc_neg (rc_of (x + carry))"
  have "(2 :: int) ^ (6 * Suc m) = 2 ^ (6 * m) * 64" by (simp add: power_add)
  then have "V mod 2 ^ (6 * Suc m) = 2 ^ (6 * m) * x + V mod 2 ^ (6 * m)"
    unfolding x_def by (simp only: zmod_zmult2_eq [of 64 V "2 ^ (6 * m)"])
  also have "\<dots> = lval 6 (map rc_signed vs) + 2 ^ (6 * m) * (x + carry)" unfolding i(3) [symmetric] by (simp add: distrib_left)
  also have "x + carry = rc_signed (rc_of (x + carry)) + 64 * c'" unfolding c'_def by (rule t(1) [symmetric])
  finally have "lval 6 (map rc_signed (vs @ [rc_of (x + carry)])) + 2 ^ (6 * Suc m) * c' = V mod 2 ^ (6 * Suc m)"
    using i(1) by (simp add: lval_append power_add algebra_simps)
  then show ?thesis
    unfolding recode_inv_def r(1) prod.case c'_def [symmetric]
    using r(2) t(2-4,6) i by (simp add: c'_def del: power_Suc mult_Suc_right)
qed

lemma recode_inv_steps:
  assumes "0 \<le> V" "V < 2 ^ 522" "m \<le> 87"
  shows "recode_inv V m ((recode_step (digs 58 9 V) ^^ m) ((0, digs 58 9 V ! 0, 0), 0, []))"
  using assms(3)
proof (induction m)
  case 0
  show ?case by (simp add: recode_inv_def window_pos_def)
next
  case (Suc m)
  then show ?case using recode_inv_step [OF assms(1,2), of m] by simp
qed

lemma recode_6_9_value:
  assumes "0 \<le> V" "V < 2 ^ 521"
  defines "vs \<equiv> sp_521_ecc_recode_6_9 (digs 58 9 V)"
  shows "length vs = 87" "\<forall>v\<in>set vs. 0 \<le> rc_i v \<and> rc_i v \<le> 32 \<and> rc_neg v \<in> {0, 1}"
    and "lval 6 (map rc_signed (take 86 vs)) + 2 ^ 516 * rc_i (vs ! 86) = V"
proof -
  have V: "0 \<le> V" "V < 2 ^ 522" using assms(1,2) by simp_all
  let ?s = "(recode_step (digs 58 9 V) ^^ 86) ((0, digs 58 9 V ! 0, 0), 0, [])"
  obtain pos carry us where s: "?s = (pos, carry, us)" by (cases ?s)
  have inv: "recode_inv V 86 (pos, carry, us)" using recode_inv_steps [OF V, of 86] by (simp only: s)
  define x where "x = V div 2 ^ (6 * 86) mod 64"
  obtain pos' where r: "recode_step (digs 58 9 V) (pos, carry, us) =
      (pos', sar (x + carry) 6 + rc_neg (rc_of (x + carry)), us @ [rc_of (x + carry)])" and y: "0 \<le> x + carry" "x + carry \<le> 64"
    unfolding x_def by (rule recode_step [OF V _ inv]) simp_all
  have n: "(87 :: nat) = Suc 86" by simp
  have vs: "vs = us @ [rc_of (x + carry)]"
    unfolding vs_def sp_521_ecc_recode_6_9_def n funpow.simps o_apply s r by simp
  have u: "length us = 86" "\<forall>v\<in>set us. 0 \<le> rc_i v \<and> rc_i v \<le> 32 \<and> rc_neg v \<in> {0, 1}" and c: "carry \<in> {0, 1}"
    "lval 6 (map rc_signed us) + 2 ^ (6 * 86) * carry = V mod 2 ^ (6 * 86)"
    using inv by (simp_all add: recode_inv_def)
  show "length vs = 87" by (simp add: vs u)
  show "\<forall>v\<in>set vs. 0 \<le> rc_i v \<and> rc_i v \<le> 32 \<and> rc_neg v \<in> {0, 1}" using u recode_tables(3,4,6) [OF y] by (simp add: vs)
  have b: "V div 2 ^ 516 < 32" "0 \<le> V div 2 ^ 516"
    using assms(1,2) by (simp_all add: div_less_of_less_mult pos_imp_zdiv_nonneg_iff)
  then have x: "x = V div 2 ^ 516" by (simp add: x_def)
  have "x + carry \<le> 32" using b(1) c(1) unfolding x [symmetric] by auto
  then have ri: "rc_i (rc_of (x + carry)) = x + carry" by (rule recode_tables(5) [OF y])
  have tk: "take 86 vs = us" "vs ! 86 = rc_of (x + carry)" using u by (simp_all add: vs nth_append)
  have n516: "6 * 86 = (516 :: nat)" by simp
  have "2 ^ 516 * x + (lval 6 (map rc_signed us) + 2 ^ 516 * carry) = V"
    unfolding c(2) [unfolded n516] x by (rule mult_div_mod_eq)
  then show "lval 6 (map rc_signed (take 86 vs)) + 2 ^ 516 * rc_i (vs ! 86) = V"
    unfolding tk ri by (simp only: distrib_left distrib_right ac_simps)
qed

section \<open>Properties\<close>

text \<open>Two points with well-formed coordinates that are congruent modulo the prime.\<close>

definition wf_pt :: "sp_point_521 \<Rightarrow> bool" where
  "wf_pt p \<longleftrightarrow> fe521 (pt_x p) \<and> fe521 (pt_y p) \<and> fe521 (pt_z p)"

definition same_point :: "sp_point_521 \<Rightarrow> sp_point_521 \<Rightarrow> bool" where
  "same_point p q \<longleftrightarrow> wf_pt p \<and> wf_pt q \<and> val521 (pt_x p) mod P521 = val521 (pt_x q) mod P521 \<and>
     val521 (pt_y p) mod P521 = val521 (pt_y q) mod P521 \<and> val521 (pt_z p) mod P521 = val521 (pt_z q) mod P521"

definition neg_point :: "sp_point_521 \<Rightarrow> sp_point_521 \<Rightarrow> bool" where
  "neg_point q p \<longleftrightarrow> wf_pt p \<and> wf_pt q \<and> val521 (pt_x q) mod P521 = val521 (pt_x p) mod P521 \<and>
     val521 (pt_y q) mod P521 = (- val521 (pt_y p)) mod P521 \<and> val521 (pt_z q) mod P521 = val521 (pt_z p) mod P521"

abbreviation coords :: "sp_point_521 \<Rightarrow> int \<times> int \<times> int" where
  "coords p \<equiv> (val521 (pt_x p), val521 (pt_y p), val521 (pt_z p))"

lemma pt3_coords: "wf_pt p \<Longrightarrow> pt3 p (coords p)"
  by (simp add: wf_pt_def pt3_def pt521_self)

lemma pt3_same_point: "pt3 p c \<Longrightarrow> pt3 q c \<Longrightarrow> same_point p q"
  by (cases c) (auto simp: pt3_def pt521_def same_point_def wf_pt_def f521.rep_def)

lemma wf_base: "wf_pt p521_base" "infinity p521_base = 0"
  using fe521_consts by (simp_all add: wf_pt_def p521_base_def)

lemma one_mod_P521: "1 mod P521 = 1"
  by (simp add: P521_def)

text \<open>C14: The recoding is exact: for every scalar below \<open>2\<^sup>5\<^sup>2\<^sup>1\<close> with normalised digits the 87 windows have
  indices between 0 and 32, and the signed windows, the top one taken without its sign as the
  multiplication does, add up to the scalar in base 64.\<close>

theorem sp_521_ecc_recode_6_9_correct:
  assumes "length k = 9" "digits_in 0 (2 ^ 58) k" "lval 58 k < 2 ^ 521"
  defines "v \<equiv> sp_521_ecc_recode_6_9 k"
  shows "length v = 87 \<and> (\<forall>w\<in>set v. 0 \<le> rc_i w \<and> rc_i w \<le> 32 \<and> rc_neg w \<in> {0, 1}) \<and>
    lval 6 (map rc_signed (take 86 v)) + 2 ^ 516 * rc_i (v ! 86) = lval 58 k"
proof -
  have "k \<noteq> []" using assms(1) by auto
  then have k: "digs 58 9 (lval 58 k) = k" using digs_lval [of k 58] assms(1,2) by (simp add: digits_in_def in_set_butlastD)
  show ?thesis
    using recode_6_9_value [OF lval_nonneg [OF assms(2)] assms(3)] unfolding k v_def [symmetric] by blast
qed

theorem sp_521_ecc_recode_6_9_correct_witness:
  "lval 6 (map rc_signed (take 86 (sp_521_ecc_recode_6_9 p521_order2))) + 2 ^ 516 * rc_i (sp_521_ecc_recode_6_9 p521_order2 ! 86) =
    lval 58 p521_order2"
proof -
  have "length p521_order2 = 9" "digits_in 0 (2 ^ 58) p521_order2" "lval 58 p521_order2 < 2 ^ 521"
    by (simp_all add: p521_order2_def)
  from sp_521_ecc_recode_6_9_correct [OF this] show ?thesis by blast
qed

text \<open>C15: Repeated doubling is the doubling iterated: for every well-formed point and \<open>n > 0\<close>,
  \<^verbatim>\<open>proj_point_dbl_n\<close> returns \<open>n\<close> doublings, coordinate by coordinate modulo the prime, and
  \<^verbatim>\<open>proj_point_dbl_n_store\<close> stores the \<open>e\<close>-fold doubling in entry \<open>2\<^sup>e m\<close> of its table for \<open>1 \<le> e \<le> n\<close>,
  with the infinity flag cleared, and changes no other entry.\<close>

theorem sp_521_proj_point_dbl_n_9_iterates:
  assumes "wf_pt p" "0 < n" "0 < m" "2 ^ n * m < length r"
  shows "same_point (sp_521_proj_point_dbl_n_9 p n) ((sp_521_proj_point_dbl_9 ^^ n) p) \<and>
    infinity (sp_521_proj_point_dbl_n_9 p n) = infinity p \<and>
    (let r' = sp_521_proj_point_dbl_n_store_9 r p n m in
     (\<forall>e\<in>{1..n}. same_point (r' ! (2 ^ e * m)) ((sp_521_proj_point_dbl_9 ^^ e) p) \<and> infinity (r' ! (2 ^ e * m)) = 0) \<and>
     (\<forall>i. (\<forall>e\<in>{1..n}. i \<noteq> 2 ^ e * m) \<longrightarrow> r' ! i = r ! i))"
proof -
  note c = pt3_coords [OF assms(1)]
  note d = dbl_9_funpow_pt3 [OF c]
  have "infinity (sp_521_proj_point_dbl_n_9 p n) = infinity p"
    by (simp add: sp_521_proj_point_dbl_n_9_def Let_def split: prod.splits)
  then show ?thesis
    using pt3_same_point [OF dbl_n_9_pt3 [OF c assms(2)] d] pt3_same_point [OF _ d]
      dbl_n_store_9_stored [OF c assms(4,3,2)]
    unfolding stored_def Let_def by blast
qed

theorem sp_521_proj_point_dbl_n_9_iterates_witness:
  "same_point (sp_521_proj_point_dbl_n_9 p521_base 6) ((sp_521_proj_point_dbl_9 ^^ 6) p521_base) \<and>
   same_point (sp_521_proj_point_dbl_n_store_9 (replicate 33 p521_base) p521_base 5 1 ! 32) ((sp_521_proj_point_dbl_9 ^^ 5) p521_base)"
proof -
  have 6: "2 ^ 6 * 1 < length (replicate 65 p521_base)" and 5: "2 ^ 5 * 1 < length (replicate 33 p521_base)" by simp_all
  have "(5 :: nat) \<in> {1..5}" "2 ^ 5 * 1 = (32 :: nat)" by simp_all
  then show ?thesis
    using sp_521_proj_point_dbl_n_9_iterates [OF wf_base(1) _ _ 6] sp_521_proj_point_dbl_n_9_iterates [OF wf_base(1) _ _ 5]
    unfolding Let_def by (metis zero_less_numeral zero_less_one)
qed

text \<open>The routine that adds and subtracts at once agrees with two additions: for well-formed finite
  points \<open>p\<close> and \<open>q\<close> and the negative \<open>q'\<close> of \<open>q\<close>, when neither addition is a doubling, its two
  results are \<open>p + q\<close> and \<open>p + q'\<close>, coordinate by coordinate modulo the prime.\<close>

lemma sp_521_proj_point_add_sub_9_correct:
  assumes "wf_pt p" "neg_point q' q" "infinity p = 0" "infinity q = 0" "infinity q' = 0" "\<not> same_9 p q" "\<not> same_9 p q'"
  shows "same_point (fst (sp_521_proj_point_add_sub_9 p q)) (sp_521_proj_point_add_9 p q) \<and>
    same_point (snd (sp_521_proj_point_add_sub_9 p q)) (sp_521_proj_point_add_9 p q')"
proof -
  have q: "wf_pt q" and q': "pt3 q' (val521 (pt_x q), - val521 (pt_y q), val521 (pt_z q))"
    using assms(2) by (auto simp: neg_point_def wf_pt_def pt3_def pt521_def f521.rep_def)
  note s = add_sub_9_pt3 [OF pt3_coords [OF assms(1)] pt3_coords [OF q]]
  show ?thesis
    using pt3_same_point [OF s(1) add_9_pt3(1) [OF pt3_coords [OF assms(1)] pt3_coords [OF q] assms(3,4,6)]]
      pt3_same_point [OF s(2) add_9_pt3(1) [OF pt3_coords [OF assms(1)] q' assms(3,5,7)]] by blast
qed

text \<open>Mixed addition agrees with the general addition: for a well-formed \<open>p\<close> and a well-formed \<open>q\<close> whose
  \<open>z\<close> is one, when exactly one of them is at infinity the results are equal, and when both are finite and
  different the results are congruent modulo the prime in every coordinate.\<close>

lemma sp_521_proj_point_add_qz1_9_correct:
  assumes "wf_pt p" "wf_pt q" "val521 (pt_z q) mod P521 = 1" "infinity p \<in> {0, 1}" "infinity q \<in> {0, 1}"
    and "\<not> (infinity p = 1 \<and> infinity q = 1)"
    and "\<not> (P521 dvd val521 (pt_z p) ^ 2 * val521 (pt_x q) - val521 (pt_x p) \<and>
            P521 dvd val521 (pt_z p) ^ 3 * val521 (pt_y q) - val521 (pt_y p))"
  shows "infinity (sp_521_proj_point_add_qz1_9 p q) = infinity (sp_521_proj_point_add_9 p q) \<and>
    (if infinity p = 0 \<and> infinity q = 0
     then same_point (sp_521_proj_point_add_qz1_9 p q) (sp_521_proj_point_add_9 p q)
     else sp_521_proj_point_add_qz1_9 p q = sp_521_proj_point_add_9 p q)"
proof (cases "infinity p = 0 \<and> infinity q = 0")
  case True
  note c = pt3_coords [OF assms(1)]
  have q: "pt3 q (val521 (pt_x q), val521 (pt_y q), 1)"
    using assms(2,3) by (simp add: wf_pt_def pt3_def pt521_def f521.rep_def one_mod_P521)
  let ?x1 = "val521 (pt_x p)" and ?y1 = "val521 (pt_y p)" and ?z1 = "val521 (pt_z p)"
  have ne: "\<not> (P521 dvd ?z1 * ?z1 * val521 (pt_x q) - ?x1 \<and> P521 dvd ?z1 * ?z1 * ?z1 * val521 (pt_y q) - ?y1)"
    using assms(7) by (simp only: power2_eq_square power3_eq_cube simp_thms)
  have "\<not> same_qz1 p q" using same_qz1_dvd [OF c q] ne by blast
  note m = add_qz1_9_pt3 [OF c q conjunct1 [OF True] conjunct2 [OF True] this]
  have "\<not> same_9 p q"
    by (rule not_same_9 [OF c [unfolded pt3_def prod.case] q [unfolded pt3_def prod.case]]) (use ne in simp)
  note a = add_9_pt3 [OF c q conjunct1 [OF True] conjunct2 [OF True] this]
  show ?thesis using True m(2) a(2) pt3_same_point [OF m(1) a(1)] by simp
next
  case False
  then have "infinity p = 1 \<and> infinity q = 0 \<or> infinity p = 0 \<and> infinity q = 1" using assms(4-6) by auto
  then show ?thesis using False by (auto simp: add_qz1_9_infinity)
qed

end
