(* ===== verification/Sp521Mulmod.thy ===== *)
theory Sp521Mulmod
  imports Sp521Scalar
begin

text \<open>
  The window multiplication \<^verbatim>\<open>sp_521_ecc_mulmod_win_add_sub_9\<close> as a whole: every table entry is read
  within bounds and every point it computes is on the curve or marked as infinity.
\<close>

section \<open>Curve points in integer coordinates\<close>

definition curve3 :: "int \<times> int \<times> int \<Rightarrow> bool" where
  "curve3 = (\<lambda>(x, y, z). jac_on_curve P521 B521 x y z)"

lemma pt3_valid: "pt3 p c \<Longrightarrow> valid521 p \<longleftrightarrow> curve3 c"
  by (cases c) (simp add: pt3_def curve3_def pt521_valid)

lemma pt3_wf: "pt3 p c \<Longrightarrow> wf_pt p"
  by (cases c) (simp add: pt3_def pt521_def wf_pt_def f521.rep_def)

lemma valid_wf: "valid521 p \<Longrightarrow> wf_pt p"
  by (simp add: valid521_def wf_pt_def)

lemma valid_curve3: "valid521 p \<Longrightarrow> pt3 p (coords p) \<and> curve3 (coords p)"
  by (simp add: valid_wf pt3_coords curve3_def) (simp add: valid521_def)

lemma curve3_jdbl: "curve3 c \<Longrightarrow> curve3 (jdbl c)"
proof -
  assume c: "curve3 c"
  obtain x y z where xyz: "c = (x, y, z)" by (cases c)
  show ?thesis
    using c unfolding curve3_def xyz jdbl_def Let_def prod.case jac_on_curve_def curve_poly_dbl [OF refl refl refl refl refl]
    by simp
qed

lemma curve3_jdbl_funpow: "curve3 c \<Longrightarrow> curve3 ((jdbl ^^ n) c)"
  by (induction n) (simp_all add: curve3_jdbl)

lemma curve3_neg: "curve3 (x, y, z) \<Longrightarrow> curve3 (x, - y, z)"
  by (simp add: curve3_def jac_on_curve_def curve_poly_def)

lemma curve3_jadd:
  assumes "curve3 c" "curve3 d"
  shows "curve3 (jadd c d)"
proof -
  obtain x1 y1 z1 x2 y2 z2 where c: "c = (x1, y1, z1)" and d: "d = (x2, y2, z2)" by (cases c; cases d)
  have s: "z2 * z2 * x1 = x1 * z2 ^ 2" "z2 * z2 * z2 * y1 = y1 * z2 ^ 3"
    "z1 * z1 * x2 = x2 * z1 ^ 2" "z1 * z1 * z1 * y2 = y2 * z1 ^ 3" "z1 * h * z2 = h * (z1 * z2)" for h
    by (simp_all add: power2_eq_square power3_eq_cube)
  have "jac_on_curve P521 B521 (x1 * z2 ^ 2) (y1 * z2 ^ 3) (z1 * z2)"
    using assms(1) by (simp add: curve3_def c jac_on_curve_def curve_poly_scale)
  moreover have "jac_on_curve P521 B521 (x2 * z1 ^ 2) (y2 * z1 ^ 3) (z2 * z1)"
    using assms(2) by (simp add: curve3_def d jac_on_curve_def curve_poly_scale)
  then have "jac_on_curve P521 B521 (x2 * z1 ^ 2) (y2 * z1 ^ 3) (z1 * z2)" by (simp only: mult.commute [of z2 z1])
  ultimately show ?thesis
    unfolding curve3_def c d jadd_def Let_def prod.case s by (rule jac_on_curve_add)
qed

section \<open>The point operations\<close>

text \<open>A point the multiplication may hold: on the curve, or marked as infinity with well-formed
  coordinates.\<close>

definition ok_pt :: "sp_point_521 \<Rightarrow> bool" where
  "ok_pt p \<longleftrightarrow> infinity p = 0 \<and> valid521 p \<or> infinity p = 1 \<and> wf_pt p"

lemma ok_pt_wf: "ok_pt p \<Longrightarrow> wf_pt p"
  by (auto simp: ok_pt_def valid_wf)

lemma take9_valid:
  assumes "valid521 p"
  shows "valid521 \<lparr>pt_x = take 9 (pt_x p), pt_y = take 9 (pt_y p), pt_z = take 9 (pt_z p), infinity = i\<rparr>"
  using assms by (simp add: valid521_def fe521_def val521_def)

lemma dbl_n_9_ok:
  assumes "ok_pt p" "0 < n"
  shows "ok_pt (sp_521_proj_point_dbl_n_9 p n)"
proof -
  have i: "infinity (sp_521_proj_point_dbl_n_9 p n) = infinity p"
    by (simp add: sp_521_proj_point_dbl_n_9_def Let_def split: prod.splits)
  note d = dbl_n_9_pt3 [OF pt3_coords [OF ok_pt_wf [OF assms(1)]] assms(2)]
  show ?thesis
    using assms(1) pt3_wf [OF d] pt3_valid [OF d] curve3_jdbl_funpow [of "coords p" n] valid_curve3 [of p]
    unfolding ok_pt_def i by blast
qed

lemma mul_by_zero_9:
  assumes "fe521 a" "take 9 b = replicate 9 0" "9 \<le> length b"
  shows "take 9 (sp_521_mont_mul_9 a b p521_mod p521_mp_mod) = replicate 9 0"
proof -
  have v: "val521 b = 0" by (simp add: val521_def assms(2))
  have "fe521 b" using assms(2,3) v by (simp add: fe521_def P521_def digits_in_def)
  from mul_9_digs [OF assms(1) this] have "sp_521_mul_9 a b = digs 58 18 0" by (simp add: v)
  then show ?thesis unfolding sp_521_mont_mul_9_def by (simp only:) code_simp
qed

lemma add_9_both_infinite:
  assumes w: "wf_pt p" "wf_pt q" and inf: "infinity p = 1" "infinity q = 1" and z: "take 9 (pt_z q) = replicate 9 0"
  shows "wf_pt (sp_521_proj_point_add_9 p q) \<and> infinity (sp_521_proj_point_add_9 p q) = 1"
proof -
  let ?mul = "\<lambda>x y. sp_521_mont_mul_9 x y p521_mod p521_mp_mod"
  let ?sqr = "\<lambda>x. sp_521_mont_sqr_9 x p521_mod p521_mp_mod"
  let ?sub = "\<lambda>x y. sp_521_mont_sub_9 x y p521_mod"
  define t1 t2 t3 t4 where "t1 = ?mul (?sqr (pt_z q)) (pt_x p)"
    and "t2 = ?mul (?sqr (pt_z p)) (pt_x q)"
    and "t3 = ?mul (?mul (?sqr (pt_z q)) (pt_z q)) (pt_y p)"
    and "t4 = ?mul (?mul (?sqr (pt_z p)) (pt_z p)) (pt_y q)"
  define hh rr where "hh = ?sub t2 t1" and "rr = ?sub t4 t3"
  define x where "x = ?sub (?sub (?sqr rr) (?mul (?sqr hh) hh)) (sp_521_mont_dbl_9 (?mul t1 (?sqr hh)) p521_mod)"
  define y where "y = ?sub (?mul (?sub (?mul t1 (?sqr hh)) x) rr) (?mul (?mul (?sqr hh) hh) t3)"
  define v where "v = ?mul (?mul (pt_z p) hh) (pt_z q)"
  have c: "fe521 (pt_x p)" "fe521 (pt_y p)" "fe521 (pt_z p)" "fe521 (pt_x q)" "fe521 (pt_y q)" "fe521 (pt_z q)"
    using w by (simp_all add: wf_pt_def)
  note fe = mont_mul_9(1) mont_sqr_9(1) mont_sub_9(1) mont_dbl_9(1)
  have t: "fe521 t1" "fe521 t2" "fe521 t3" "fe521 t4" unfolding t1_def t2_def t3_def t4_def by (intro fe c)+
  have h: "fe521 hh" "fe521 rr" unfolding hh_def rr_def by (intro fe t)+
  have x: "fe521 x" unfolding x_def by (intro fe t h)
  have y: "fe521 y" unfolding y_def by (intro fe t h x)
  have v: "take 9 v = replicate 9 0"
    unfolding v_def by (rule mul_by_zero_9 [OF _ z]) (use c h in \<open>simp_all add: fe fe521_digits\<close>)
  have "fe521 v" unfolding v_def by (intro fe c h)
  then have l: "9 \<le> length x" "9 \<le> length y" "9 \<le> length v" using x y by (simp_all add: fe521_def)
  have cond: "NOT 1 AND sp_521_cmp_equal_9 a b AND sp_521_cmp_equal_9 c d = 0" for a b c d
    by (simp add: sp_521_cmp_equal_9_def)
  have "sp_521_proj_point_add_9 p q
      = \<lparr>pt_x = take 9 x, pt_y = take 9 y, pt_z = (take 9 v)[0 := take 9 v ! 0 OR 1], infinity = 1\<rparr>"
    unfolding sp_521_proj_point_add_9_def Let_def t1_def [symmetric] t2_def [symmetric]
      t3_def [symmetric] t4_def [symmetric] hh_def [symmetric] rr_def [symmetric]
      x_def [symmetric] y_def [symmetric] v_def [symmetric] inf select3_simps
    using cond by (simp add: map_nth_9 l del: upt_rec_numeral)
  moreover have "fe521 ((replicate 9 0)[0 := 1])" by (simp add: fe521_def val521_def P521_def numeral_eq_Suc)
  moreover have "fe521 (take 9 x)" "fe521 (take 9 y)" using x y by (simp_all add: fe521_def val521_def)
  ultimately show ?thesis unfolding v wf_pt_def by (simp add: numeral_eq_Suc)
qed

lemma add_9_finite:
  assumes "valid521 p" "valid521 q" "infinity p = 0" "infinity q = 0"
  shows "infinity (sp_521_proj_point_add_9 p q) = 0"
proof (cases "same_9 p q")
  case True
  then show ?thesis
    using proj_point_add_9_same [of p q] assms by (simp add: valid521_def sp_521_proj_point_dbl_9_def Let_def)
next
  case False
  then show ?thesis
    using add_9_pt3(2) [OF pt3_coords pt3_coords assms(3,4)] assms by (simp add: valid_wf)
qed

lemma add_9_ok:
  assumes "ok_pt p" "ok_pt q" and z: "infinity q = 1 \<longrightarrow> take 9 (pt_z q) = replicate 9 0"
  shows "ok_pt (sp_521_proj_point_add_9 p q)"
proof -
  have w: "wf_pt p" "wf_pt q" using assms(1,2) by (simp_all add: ok_pt_wf)
  note f = w [unfolded wf_pt_def]
  have len: "9 \<le> length (pt_x p)" "9 \<le> length (pt_y p)" "9 \<le> length (pt_z p)"
    "9 \<le> length (pt_x q)" "9 \<le> length (pt_y q)" "9 \<le> length (pt_z q)"
    using f by (simp_all add: fe521_def)
  note inf = proj_point_add_9_infinity [OF len]
  consider (00) "infinity p = 0" "valid521 p" "infinity q = 0" "valid521 q"
    | (01) "infinity p = 0" "valid521 p" "infinity q = 1" | (10) "infinity p = 1" "infinity q = 0" "valid521 q"
    | (11) "infinity p = 1" "infinity q = 1"
    using assms(1,2) by (auto simp: ok_pt_def)
  then show ?thesis
  proof cases
    case 00
    then show ?thesis using proj_point_add_9_valid add_9_finite by (simp add: ok_pt_def)
  next
    case 01
    then show ?thesis using inf(1) take9_valid [of p 0] by (simp add: ok_pt_def)
  next
    case 10
    then show ?thesis using inf(2) take9_valid [of q 0] by (simp add: ok_pt_def)
  next
    case 11
    with add_9_both_infinite [OF w 11] z show ?thesis by (simp add: ok_pt_def)
  qed
qed

section \<open>The table\<close>

definition zero_entry :: "sp_point_521 \<Rightarrow> bool" where
  "zero_entry p \<longleftrightarrow> infinity p = 1 \<and> wf_pt p \<and> take 9 (pt_z p) = replicate 9 0"

definition good_table :: "nat set \<Rightarrow> sp_point_521 list \<Rightarrow> bool" where
  "good_table I t \<longleftrightarrow> length t = 33 \<and> zero_entry (t ! 0) \<and> (\<forall>i\<in>I. infinity (t ! i) = 0 \<and> valid521 (t ! i))"

lemma good_table_update:
  "good_table I t \<Longrightarrow> 0 < d \<Longrightarrow> d < 33 \<Longrightarrow> infinity p = 0 \<Longrightarrow> valid521 p \<Longrightarrow> good_table (insert d I) (t[d := p])"
  by (auto simp: good_table_def nth_list_update)

lemma dbl_9_infinity: "infinity (sp_521_proj_point_dbl_9 p) = infinity p"
  by (simp add: sp_521_proj_point_dbl_9_def Let_def)

lemma good_table_dbl:
  "good_table I t \<Longrightarrow> s \<in> I \<Longrightarrow> 0 < d \<Longrightarrow> d < 33 \<Longrightarrow> good_table (insert d I) (table_dbl d s t)"
  unfolding table_dbl_def
  by (rule good_table_update) (auto simp: good_table_def proj_point_dbl_9_valid dbl_9_infinity)

lemma good_table_add_sub:
  assumes "good_table I t" "s \<in> I" "q \<in> I" "0 < da" "da < 33" "0 < ds" "ds < 33"
  shows "good_table (insert ds (insert da I)) (table_add_sub da ds s q t)"
proof -
  have v: "valid521 (t ! s)" "valid521 (t ! q)" using assms by (auto simp: good_table_def)
  obtain a b where ab: "sp_521_proj_point_add_sub_9 (t ! s) (t ! q) = (a, b)" by (cases "sp_521_proj_point_add_sub_9 (t ! s) (t ! q)")
  note c = valid_curve3 [OF v(1)] valid_curve3 [OF v(2)]
  note r = add_sub_9_pt3 [OF conjunct1 [OF c(1)] conjunct1 [OF c(2)], unfolded ab fst_conv snd_conv]
  have "curve3 (jadd (coords (t ! s)) (coords (t ! q)))" using c by (blast intro: curve3_jadd)
  moreover have "curve3 (jadd (coords (t ! s)) (val521 (pt_x (t ! q)), - val521 (pt_y (t ! q)), val521 (pt_z (t ! q))))"
    using c by (blast intro: curve3_jadd curve3_neg)
  ultimately have "valid521 a" "valid521 b" using pt3_valid [OF r(1)] pt3_valid [OF r(2)] by simp_all
  then show ?thesis unfolding table_add_sub_def ab prod.case using r(3,4) assms by (intro good_table_update) simp_all
qed

lemma good_table_store:
  assumes "good_table {1} t"
  shows "good_table {1, 2, 4, 8, 16, 32} (sp_521_proj_point_dbl_n_store_9 t (t ! 1) 5 1)"
proof -
  have l: "length t = 33" and z: "zero_entry (t ! 0)" and 1: "infinity (t ! 1) = 0" "valid521 (t ! 1)"
    using assms by (simp_all add: good_table_def)
  note c = valid_curve3 [OF 1(2)]
  let ?r = "sp_521_proj_point_dbl_n_store_9 t (t ! 1) 5 1"
  have "stored t ?r 1 5 (coords (t ! 1))" by (rule dbl_n_store_9_stored [OF conjunct1 [OF c]]) (simp_all add: l)
  then have s: "length ?r = 33"
    "\<And>e. e \<in> {1..5} \<Longrightarrow> pt3 (?r ! (2 ^ e)) ((jdbl ^^ e) (coords (t ! 1))) \<and> infinity (?r ! (2 ^ e)) = 0"
    "\<And>i. \<forall>e\<in>{1..5}. i \<noteq> 2 ^ e \<Longrightarrow> ?r ! i = t ! i"
    using l by (simp_all add: stored_def)
  have e: "infinity (?r ! (2 ^ e)) = 0 \<and> valid521 (?r ! (2 ^ e))" if "e \<in> {1..5}" for e
    using s(2) [OF that] pt3_valid curve3_jdbl_funpow c by blast
  have p1: "(1 :: nat) \<noteq> 2 ^ e" if "e \<in> {1..5}" for e using that by (cases e) simp_all
  have "?r ! 0 = t ! 0" by (rule s(3)) simp
  moreover have "?r ! 1 = t ! 1" by (rule s(3)) (use p1 in blast)
  moreover note e [of 1] e [of 2] e [of 3] e [of 4] e [of 5]
  ultimately show ?thesis using s(1) z 1 by (simp add: good_table_def)
qed

lemma mulmod_table_good:
  assumes "valid521 g"
  shows "good_table {1..32} (mulmod_table junk g)"
proof -
  let ?g = "\<lparr>pt_x = sp_521_mod_mul_norm_9 (pt_x g), pt_y = sp_521_mod_mul_norm_9 (pt_y g),
    pt_z = sp_521_mod_mul_norm_9 (pt_z g), infinity = 0\<rparr>"
  have "zero_entry point_0"
    by (simp add: zero_entry_def point_0_def wf_pt_def fe521_def val521_def digits_in_def P521_def)
  then have "good_table {1} (point_0 # ?g # replicate 31 junk)"
    using take9_valid [OF assms, of 0] by (simp add: good_table_def sp_521_mod_mul_norm_9_def)
  from good_table_store [OF this] have t0: "good_table {1, 2, 4, 8, 16, 32}
      (sp_521_proj_point_dbl_n_store_9 (point_0 # ?g # replicate 31 junk) ((point_0 # ?g # replicate 31 junk) ! 1) 5 1)"
      (is "good_table _ ?t") .
  then have v: "valid521 (?t ! 1)" "valid521 (?t ! 2)" "infinity (?t ! 1) = 0" "infinity (?t ! 2) = 0" by (simp_all add: good_table_def)
  then have "ok_pt (sp_521_proj_point_add_9 (?t ! 2) (?t ! 1))" by (intro add_9_ok) (simp_all add: ok_pt_def)
  moreover have "infinity (sp_521_proj_point_add_9 (?t ! 2) (?t ! 1)) = 0" using v by (intro add_9_finite)
  ultimately have "good_table {3, 1, 2, 4, 8, 16, 32} (?t[3 := sp_521_proj_point_add_9 (?t ! 2) (?t ! 1)])"
    using good_table_update [OF t0, of 3] by (simp add: ok_pt_def)
  note t1 = good_table_dbl [OF this, of 3 6]
  note t2 = good_table_add_sub [OF t1, of 6 1 7 5]
  note t3 = good_table_dbl [OF t2, of 5 10]
  note t4 = good_table_add_sub [OF t3, of 10 1 11 9]
  note t5 = good_table_dbl [OF t4, of 6 12]
  note t6 = good_table_dbl [OF t5, of 7 14]
  note t7 = good_table_add_sub [OF t6, of 14 1 15 13]
  note t8 = good_table_dbl [OF t7, of 9 18]
  note t9 = good_table_add_sub [OF t8, of 18 1 19 17]
  note t10 = good_table_dbl [OF t9, of 10 20]
  note t11 = good_table_dbl [OF t10, of 11 22]
  note t12 = good_table_add_sub [OF t11, of 22 1 23 21]
  note t13 = good_table_dbl [OF t12, of 12 24]
  note t14 = good_table_dbl [OF t13, of 13 26]
  note t15 = good_table_add_sub [OF t14, of 26 1 27 25]
  note t16 = good_table_dbl [OF t15, of 14 28]
  note t17 = good_table_dbl [OF t16, of 15 30]
  note t18 = good_table_add_sub [OF t17, of 30 1 31 29]
  have "good_table {29, 31, 30, 28, 25, 27, 26, 24, 21, 23, 22, 20, 17, 19, 18, 13, 15, 14, 12, 9, 11, 10, 5, 7, 6, 3, 1, 2, 4, 8, 16, 32}
      (mulmod_table junk g)"
    unfolding mulmod_table_def Let_def by (rule t18) simp_all
  moreover have "{1..32} = {29, 31, 30, 28, 25, 27, 26, 24, 21, 23, 22, 20, 17, 19, 18, 13, 15, 14, 12, 9, 11, 10, 5, 7, 6, 3, 1, 2, 4, 8, 16, 32 :: nat}"
    by (rule set_eqI, unfold atLeastAtMost_iff insert_iff empty_iff, presburger)
  ultimately show ?thesis by simp
qed

section \<open>The loop\<close>

text \<open>What a table read returns.\<close>

definition entry_ok :: "sp_point_521 \<Rightarrow> bool" where
  "entry_ok p \<longleftrightarrow> infinity p = 0 \<and> valid521 p \<or> zero_entry p"

lemma entry_okD: "entry_ok p \<Longrightarrow> ok_pt p" "entry_ok p \<Longrightarrow> infinity p = 1 \<Longrightarrow> take 9 (pt_z p) = replicate 9 0"
  "entry_ok p \<Longrightarrow> wf_pt p"
  by (auto simp: entry_ok_def ok_pt_def zero_entry_def valid_wf)

lemma good_table_entry: "good_table {1..32} t \<Longrightarrow> i < 33 \<Longrightarrow> entry_ok (t ! i)"
  by (cases "i = 0") (auto simp: good_table_def entry_ok_def)

lemma mulmod_read_ok:
  assumes t: "good_table {1..32} t" and i: "0 \<le> i" "i \<le> 32"
  shows "entry_ok (mulmod_read ct r t i)"
proof (cases ct)
  case True
  have l: "length t = 33" using t by (simp add: good_table_def)
  have "wf_pt (t ! j)" if "j < 33" for j using entry_okD(3) [OF good_table_entry [OF t that]] .
  then have "\<forall>p\<in>set t. 9 \<le> length (pt_x p) \<and> 9 \<le> length (pt_y p) \<and> 9 \<le> length (pt_z p)"
    using l by (auto simp: in_set_conv_nth wf_pt_def fe521_def)
  note g = get_point_33_9_entry [OF l this]
  show ?thesis
  proof (cases "i = 0")
    case True
    have "fe521 (replicate 9 0)" by (simp add: fe521_def val521_def digits_in_def P521_def)
    then show ?thesis
      using g(2) [OF True, of r] True \<open>ct\<close> by (simp add: mulmod_read_def entry_ok_def zero_entry_def wf_pt_def c_not_def)
  next
    case False
    then have "nat i \<in> {1..32}" using i by auto
    then have v: "valid521 (t ! nat i)" using t by (simp add: good_table_def)
    then show ?thesis
      using g(1) [of i r] False i \<open>ct\<close> take9_valid [OF v, of 0]
      by (simp add: mulmod_read_def entry_ok_def c_not_def valid521_def)
  qed
next
  case False
  have "nat i < 33" using i by simp
  then show ?thesis using False good_table_entry [OF t] by (simp add: mulmod_read_def)
qed

lemma cond_copy_9_select:
  assumes "9 \<le> length r" "9 \<le> length a" "n \<in> {0, 1}"
  shows "sp_521_cond_copy_9 r a (s64 (0 - n)) = (if n = 0 then take 9 r else take 9 a)"
proof -
  have "map2 (\<lambda>x y. x) (take 9 r) (take 9 a) = take 9 r" "map2 (\<lambda>x y. y) (take 9 r) (take 9 a) = take 9 a"
    by (rule nth_equalityI; use assms(1,2) in simp)+
  then show ?thesis using assms(3) by (auto simp: sp_521_cond_copy_9_def s64_def xor.assoc [symmetric])
qed

lemma negate_9:
  assumes "fe521 y"
  shows "f521.rep (sp_521_norm_9 (sp_521_sub_9 p521_mod y)) (- val521 y)"
proof -
  have p: "val521 p521_mod = P521" using p521_mod_digs by (simp add: val521_def)
  have "0 \<le> P521 - val521 y" "P521 - val521 y \<le> P521" using fe521_digits [OF assms] by simp_all
  note r = reduced_fe521 [OF this]
  have "sp_521_norm_9 (sp_521_sub_9 p521_mod y) = digs 58 9 (P521 - val521 y)"
    using norm_add_9(2) [OF fe521_consts(1) assms] by (simp only: p)
  then show ?thesis using r by (simp add: f521.rep_def)
qed

lemma signed_entry_ok:
  assumes "entry_ok p" "n \<in> {0, 1}"
  defines "negy \<equiv> sp_521_norm_9 (sp_521_sub_9 p521_mod (pt_y p))"
  shows "entry_ok (p\<lparr>pt_y := sp_521_cond_copy_9 (pt_y p) negy (s64 (0 - n))\<rparr>)" "fe521 negy"
proof -
  have w: "wf_pt p" by (rule entry_okD(3) [OF assms(1)])
  then have y: "fe521 (pt_y p)" by (simp add: wf_pt_def)
  have r: "f521.rep negy (- val521 (pt_y p))" unfolding negy_def by (rule negate_9 [OF y])
  show fe: "fe521 negy" by (rule f521.rep_fe [OF r])
  have len: "9 \<le> length (pt_y p)" "9 \<le> length negy" using y fe by (simp_all add: fe521_def)
  have e: "sp_521_cond_copy_9 (pt_y p) negy (s64 (0 - n)) = (if n = 0 then take 9 (pt_y p) else take 9 negy)"
    by (rule cond_copy_9_select [OF len assms(2)])
  have f: "fe521 (take 9 (pt_y p))" "fe521 (take 9 negy)" using y fe by (simp_all add: fe521_def val521_def)
  have "valid521 (p\<lparr>pt_y := if n = 0 then take 9 (pt_y p) else take 9 negy\<rparr>)" if v: "valid521 p"
  proof -
    let ?q = "p\<lparr>pt_y := if n = 0 then take 9 (pt_y p) else take 9 negy\<rparr>"
    have "pt3 ?q (val521 (pt_x p), if n = 0 then val521 (pt_y p) else - val521 (pt_y p), val521 (pt_z p))"
      using w y rep_take9 [OF r] rep_take9 [OF f521.rep_self [OF y]]
      by (simp add: pt3_def pt521_def wf_pt_def f521.rep_self)
    moreover have "curve3 (val521 (pt_x p), if n = 0 then val521 (pt_y p) else - val521 (pt_y p), val521 (pt_z p))"
      using valid_curve3 [OF v] curve3_neg by auto
    ultimately show ?thesis using pt3_valid by blast
  qed
  then show "entry_ok (p\<lparr>pt_y := sp_521_cond_copy_9 (pt_y p) negy (s64 (0 - n))\<rparr>)"
    using assms(1) f unfolding e by (auto simp: entry_ok_def zero_entry_def wf_pt_def)
qed

lemma mulmod_round_ok:
  assumes "ok_pt rt" "good_table {1..32} t" "0 \<le> rc_i (v ! i)" "rc_i (v ! i) \<le> 32" "rc_neg (v ! i) \<in> {0, 1}"
    and "mulmod_round ct v i (rt, p, t) = (rt', p', t')"
  shows "ok_pt rt' \<and> good_table {1..32} t'"
proof -
  define q where "q = mulmod_read ct p t (rc_i (v ! i))"
  have q: "entry_ok q" unfolding q_def by (rule mulmod_read_ok [OF assms(2-4)])
  define negy where "negy = sp_521_norm_9 (sp_521_sub_9 p521_mod (pt_y q))"
  note s = signed_entry_ok [OF q assms(5), folded negy_def]
  note e = assms(6) [unfolded mulmod_round_def Let_def prod.case, folded q_def, folded negy_def, unfolded prod.inject]
  note rt' = e [THEN conjunct1, symmetric] and t' = e [THEN conjunct2, THEN conjunct2, symmetric]
  have "ok_pt (sp_521_proj_point_dbl_n_9 rt 6)" by (rule dbl_n_9_ok [OF assms(1)]) simp
  then have "ok_pt rt'" unfolding rt' by (rule add_9_ok [OF _ entry_okD(1) [OF s(1)]]) (use entry_okD(2) [OF s(1)] in blast)
  moreover have "good_table {1..32} t'"
    using assms(2) s(2) unfolding t' good_table_def
    by (cases t) (auto simp: zero_entry_def wf_pt_def nth_Cons split: nat.splits)
  ultimately show ?thesis by blast
qed

lemma mulmod_rounds_ok:
  assumes "ok_pt rt" "good_table {1..32} t" "\<forall>i\<in>set is. 0 \<le> rc_i (v ! i) \<and> rc_i (v ! i) \<le> 32 \<and> rc_neg (v ! i) \<in> {0, 1}"
    and "fold (mulmod_round ct v) is (rt, p, t) = (rt', p', t')"
  shows "ok_pt rt'"
  using assms
proof (induction "is" arbitrary: rt p t)
  case (Cons i "is")
  obtain rt1 p1 t1 where r: "mulmod_round ct v i (rt, p, t) = (rt1, p1, t1)" by (metis prod_cases3)
  have "ok_pt rt1 \<and> good_table {1..32} t1"
    by (rule mulmod_round_ok [OF Cons.prems(1,2) _ _ _ r]) (use Cons.prems(3) in simp_all)
  then show ?case using Cons.IH [of rt1 t1 p1] Cons.prems(3,4) by (simp add: r)
qed simp

lemma mulmod_win_ok:
  assumes "valid521 g" "length k = 9" "digits_in 0 (2 ^ 58) k" "lval 58 k < 2 ^ 521"
  shows "\<forall>w\<in>set (sp_521_ecc_recode_6_9 k). nat (rc_i w) < length (mulmod_table junk g)"
    and "ok_pt (sp_521_ecc_mulmod_win_add_sub_9 junk r g k False ct)"
proof -
  let ?v = "sp_521_ecc_recode_6_9 k" and ?t = "mulmod_table junk g"
  have "k \<noteq> []" using assms(2) by auto
  then have k: "digs 58 9 (lval 58 k) = k" using digs_lval [of k 58] assms(2,3) by (simp add: digits_in_def in_set_butlastD)
  note v = recode_6_9_value(1,2) [OF lval_nonneg [OF assms(3), of 58] assms(4), unfolded k]
  have t: "good_table {1..32} ?t" by (rule mulmod_table_good [OF assms(1)])
  have e: "0 \<le> rc_i (?v ! i) \<and> rc_i (?v ! i) \<le> 32 \<and> rc_neg (?v ! i) \<in> {0, 1}" if "i < 87" for i
    using v that by simp
  define rt where "rt = mulmod_read ct junk ?t (rc_i (?v ! 86))"
  have rt: "ok_pt rt" unfolding rt_def by (intro entry_okD(1) mulmod_read_ok [OF t]) (use e [of 86] in simp_all)
  obtain rt' p' t' where f: "fold (mulmod_round ct ?v) (rev [0..<86]) (rt, junk, ?t) = (rt', p', t')" by (metis prod_cases3)
  have p: "sp_521_ecc_mulmod_win_add_sub_9 junk r g k False ct = rt'"
    unfolding sp_521_ecc_mulmod_win_add_sub_9_def Let_def rt_def [symmetric] f by simp
  show "ok_pt (sp_521_ecc_mulmod_win_add_sub_9 junk r g k False ct)"
    unfolding p by (rule mulmod_rounds_ok [OF rt t _ f]) (use e in auto)
  have "length ?t = 33" using t by (simp add: good_table_def)
  then show "\<forall>w\<in>set (sp_521_ecc_recode_6_9 k). nat (rc_i w) < length ?t" using v by auto
qed

lemma mulmod_win_map:
  "sp_521_ecc_mulmod_win_add_sub_9 junk r g k True ct = sp_521_map_9 r (sp_521_ecc_mulmod_win_add_sub_9 junk r g k False ct)"
  by (simp add: sp_521_ecc_mulmod_win_add_sub_9_def Let_def case_prod_unfold)

text \<open>C4: Scalar multiplication stays on the curve: for a point of the curve and any scalar below \<open>2\<^sup>5\<^sup>2\<^sup>1\<close>, with
  or without the cache-resistant table reads, every table index is within the 33 entries and the
  Jacobian result, before it is converted to affine coordinates (\<open>map = 0\<close>), is a curve point with well-formed coordinates
  or is marked as infinity; this holds through the table construction, the 516 doublings and the 86
  signed additions, whichever special case of the addition occurs.  With \<open>map = 1\<close> the function returns
  \<^verbatim>\<open>sp_521_map_9\<close> of that point, nothing else.\<close>

theorem sp_521_ecc_mulmod_on_curve:
  fixes junk r :: sp_point_521 and ct :: bool
  assumes "valid521 g" "length k = 9" "digits_in 0 (2 ^ 58) k" "lval 58 k < 2 ^ 521"
  defines "p \<equiv> sp_521_ecc_mulmod_win_add_sub_9 junk r g k False ct"
  shows "(\<forall>w\<in>set (sp_521_ecc_recode_6_9 k). nat (rc_i w) < length (mulmod_table junk g)) \<and>
    (infinity p = 0 \<and> valid521 p \<or> infinity p = 1 \<and> wf_pt p) \<and>
    sp_521_ecc_mulmod_win_add_sub_9 junk r g k True ct = sp_521_map_9 r p"
  using mulmod_win_ok [OF assms(1-4)]
  by (simp add: p_def ok_pt_def mulmod_win_map)

theorem sp_521_ecc_mulmod_on_curve_witness:
  "let p = sp_521_ecc_mulmod_win_add_sub_9 p521_base p521_base map_bad_point p521_order2 False True
   in (infinity p = 0 \<and> valid521 p \<or> infinity p = 1 \<and> wf_pt p) \<and>
     sp_521_ecc_mulmod_win_add_sub_9 p521_base p521_base map_bad_point p521_order2 True True = sp_521_map_9 p521_base p"
proof -
  have "length p521_order2 = 9" "digits_in 0 (2 ^ 58) p521_order2" "lval 58 p521_order2 < 2 ^ 521"
    by (simp_all add: p521_order2_def)
  from sp_521_ecc_mulmod_on_curve [OF map_bad_point_curve this] show ?thesis unfolding Let_def by blast
qed

end
