(* ===== verification/Sp521Stripe.thy ===== *)
theory Sp521Stripe
  imports Sp521Mulmod
begin

text \<open>
  Striped (comb) multiplication by a point with a precomputed table of 256 combinations of the eight
  multiples by \<open>2\<^sup>6\<^sup>6\<^sup>j\<close>, of \<^verbatim>\<open>wolfssl-src/patches/sp_c64.c\<close>: the constant-time table read, the collection of
  the eight scalar bits of a column, and the loop of 65 doublings and mixed additions. The table
  is an argument; \<^verbatim>\<open>Sp521Table\<close> has the one of the base point.
\<close>

section \<open>Definitions\<close>

record sp_table_entry_521 =
  te_x :: "int list"
  te_y :: "int list"

text \<open>The mask of entry \<open>i\<close>: two unsigned 64 bit comparisons by their borrow, all ones exactly when \<open>i = idx\<close>.\<close>

definition entry_mask :: "nat \<Rightarrow> int \<Rightarrow> int" where
  "entry_mask i idx =
    (let gte = s64 ((u64 (int i - u64 idx) div 2 ^ 63 - 1) mod 2 ^ 64);
         lte = s64 ((u64 (u64 idx - int i) div 2 ^ 63 - 1) mod 2 ^ 64)
     in gte AND lte)"

definition sp_521_get_entry_256_9 :: "sp_point_521 \<Rightarrow> sp_table_entry_521 list \<Rightarrow> int \<Rightarrow> sp_point_521" where
  "sp_521_get_entry_256_9 r table idx =
    (let sel = (\<lambda>c. fold (\<lambda>i r. map2 (\<lambda>x y. x OR (entry_mask i idx AND y)) r (take 9 (c (table ! i))))
                 [1..<256] (replicate 9 0))
     in r\<lparr>pt_x := sel te_x, pt_y := sel te_y\<rparr>)"

text \<open>The loop \<^verbatim>\<open>for (j=0; j<8 && x<521; j++)\<close> that collects the scalar bits \<open>x\<close>, \<open>x + 66\<close>, \<dots> into \<open>y\<close>.\<close>

function comb_loop :: "int list \<Rightarrow> nat \<Rightarrow> nat \<Rightarrow> int \<Rightarrow> int" where
  "comb_loop k j x y =
    (if j < 8 \<and> x < 521
     then comb_loop k (j + 1) (x + 66) (y OR (sar (k ! (x div 58)) (x mod 58) AND 1) * 2 ^ j)
     else y)"
  by pat_completeness auto
termination by (relation "measure (\<lambda>(k, j, x, y). 8 - j)") auto

declare comb_loop.simps [simp del]

definition comb_index :: "int list \<Rightarrow> nat \<Rightarrow> int" where
  "comb_index k i = comb_loop k 0 i 0"

definition stripe_read :: "bool \<Rightarrow> sp_point_521 \<Rightarrow> sp_table_entry_521 list \<Rightarrow> int \<Rightarrow> sp_point_521" where
  "stripe_read ct r table y =
    (if ct then sp_521_get_entry_256_9 r table y
     else r\<lparr>pt_x := take 9 (te_x (table ! nat y)), pt_y := take 9 (te_y (table ! nat y))\<rparr>)
    \<lparr>infinity := c_not y\<rparr>"

definition stripe_round ::
    "bool \<Rightarrow> sp_table_entry_521 list \<Rightarrow> int list \<Rightarrow> nat \<Rightarrow> sp_point_521 \<times> sp_point_521 \<Rightarrow> sp_point_521 \<times> sp_point_521" where
  "stripe_round ct table k i = (\<lambda>(rt, p).
    let y = comb_index k i;
        rt = sp_521_proj_point_dbl_9 rt;
        p = stripe_read ct p table y
    in (sp_521_proj_point_add_qz1_9 rt p, p))"

text \<open>\<open>junk\<close> is the contents of the two local points before they are written.\<close>

definition sp_521_ecc_mulmod_stripe_9 ::
    "sp_point_521 \<Rightarrow> sp_point_521 \<Rightarrow> sp_table_entry_521 list \<Rightarrow> int list \<Rightarrow> bool \<Rightarrow> bool \<Rightarrow> sp_point_521" where
  "sp_521_ecc_mulmod_stripe_9 junk r table k to_affine ct =
    (let p = junk\<lparr>pt_z := p521_norm_mod\<rparr>;
         rt = junk\<lparr>pt_z := p521_norm_mod\<rparr>;
         rt = stripe_read ct rt table (comb_index k 65);
         (rt, p) = fold (stripe_round ct table k) (rev [0..<65]) (rt, p)
     in if to_affine then sp_521_map_9 r rt else rt)"

section \<open>Table access\<close>

lemma entry_mask_eq:
  assumes "0 \<le> idx" "idx < 256" "i < 256"
  shows "entry_mask i idx = (if int i = idx then - 1 else 0)"
proof -
  have u: "u64 idx = idx" using assms by (simp add: u64_def)
  have d: "u64 (a - b) div 2 ^ 63 = (if a < b then 1 else 0)" if "0 \<le> a" "a < 256" "0 \<le> b" "b < 256" for a b :: int
  proof (cases "a < b")
    case True
    have "u64 (a - b) = (a - b + 2 ^ 64) mod 2 ^ 64" by (simp add: u64_def)
    also have "\<dots> = a - b + 2 ^ 64" using that True by (intro mod_pos_pos_trivial) simp_all
    finally have "u64 (a - b) = a - b + 2 ^ 64" .
    moreover have "(a - b + 2 ^ 64) div 2 ^ 63 = 1" using that True by (intro int_div_pos_eq [where r = "a - b + 2 ^ 63"]) simp_all
    ultimately show ?thesis using True by simp
  next
    case False
    then have "u64 (a - b) = a - b" using that by (simp add: u64_def)
    moreover have "(a - b) div 2 ^ 63 = 0" using that False by (intro div_pos_pos_trivial) simp_all
    ultimately show ?thesis using False by simp
  qed
  have i: "0 \<le> int i" "int i < 256" using assms(3) by simp_all
  have m: "s64 ((0 - 1) mod 2 ^ 64) = - 1" "s64 ((1 - 1) mod 2 ^ 64) = 0" by (simp_all add: s64_def)
  show ?thesis
    unfolding entry_mask_def u d [OF i assms(1,2)] d [OF assms(1,2) i] Let_def
    using m by (cases "int i < idx"; cases "idx < int i") (simp_all del: upt_rec_numeral)
qed

lemma entry_sel:
  assumes "\<forall>i<256. 9 \<le> length (f i)" "0 \<le> idx" "idx < 256"
  shows "fold (\<lambda>i r. map2 (\<lambda>x y. x OR (entry_mask i idx AND y)) r (take 9 (f i))) [1..<256] (replicate 9 0) =
    (if idx = 0 then replicate 9 0 else take 9 (f (nat idx)))"
proof -
  have "fold (\<lambda>i r. map2 (\<lambda>x y. x OR (entry_mask i idx AND y)) r (take 9 (f i))) [1..<256] (replicate 9 0) =
    fold (\<lambda>i r. let msk = s64 (0 - (if int i = idx then 1 else 0)) in map2 (\<lambda>x y. x OR (msk AND y)) r (take 9 (f i)))
      [1..<256] (replicate 9 0)"
    by (rule fold_cong) (auto simp: entry_mask_eq assms Let_def s64_def)
  also have "\<dots> = (if \<exists>i\<in>set [1..<256]. int i = idx then map2 (OR) (replicate 9 0) (take 9 (f (nat idx))) else replicate 9 0)"
    using assms(1) by (intro or_select_fold) (auto simp del: upt_rec_numeral)
  also have "(\<exists>i\<in>set [1..<256]. int i = idx) \<longleftrightarrow> idx \<noteq> 0"
    using assms(2,3) by (auto intro!: bexI [of _ "nat idx"] simp del: upt_rec_numeral)
  also have "map2 (OR) (replicate 9 0) (take 9 (f (nat idx))) = take 9 (f (nat idx))"
    by (rule nth_equalityI) (use assms in simp_all)
  finally show ?thesis by simp
qed

lemma get_entry_256_9_entry:
  assumes "length table = 256" "\<forall>e\<in>set table. 9 \<le> length (te_x e) \<and> 9 \<le> length (te_y e)" "0 \<le> idx" "idx < 256"
  shows "sp_521_get_entry_256_9 r table idx =
    (if idx = 0 then r\<lparr>pt_x := replicate 9 0, pt_y := replicate 9 0\<rparr>
     else r\<lparr>pt_x := take 9 (te_x (table ! nat idx)), pt_y := take 9 (te_y (table ! nat idx))\<rparr>)"
proof -
  have l: "\<forall>i<256. 9 \<le> length (te_x (table ! i))" "\<forall>i<256. 9 \<le> length (te_y (table ! i))"
    using assms(1,2) by simp_all
  show ?thesis
    unfolding sp_521_get_entry_256_9_def Let_def [of "\<lambda>c. _ c"] entry_sel [OF l(1) assms(3,4)] entry_sel [OF l(2) assms(3,4)]
    by simp
qed

section \<open>The columns of the scalar\<close>

lemma lval_map_sum: "lval b (map f [0..<n]) = (\<Sum>i<n. 2 ^ (b * i) * f i)"
  by (induction n) (simp_all add: lval_append)

text \<open>Bit \<open>n\<close> of a number, and the number as the sum of its bits.\<close>

definition vbit :: "int \<Rightarrow> nat \<Rightarrow> int" where
  "vbit v n = v div 2 ^ n mod 2"

lemma vbit_range: "vbit v n \<in> {0, 1}" "0 \<le> vbit v n" "vbit v n < 2"
  by (auto simp: vbit_def)

lemma vbit_sum: "(\<Sum>n<m. 2 ^ n * vbit v n) = v mod 2 ^ m"
proof (induction m)
  case (Suc m)
  have "v mod (2 ^ m * 2) = 2 ^ m * (v div 2 ^ m mod 2) + v mod 2 ^ m" by (rule zmod_zmult2_eq) simp
  then show ?case using Suc by (simp add: vbit_def mult.commute)
qed simp

lemma scalar_bit:
  assumes V: "0 \<le> V" "V < 2 ^ 521" and x: "x < 521"
  shows "sar (digs 58 9 V ! (x div 58)) (x mod 58) AND 1 = vbit V x"
proof -
  have q: "x div 58 < 9" using x by linarith
  have x: "58 * (x div 58) + x mod 58 = x" by simp
  let ?d = "V div 2 ^ (58 * (x div 58))"
  have "sar (digs 58 9 V ! (x div 58)) (x mod 58) mod 2 = ?d div 2 ^ (x mod 58) mod 2"
  proof (cases "x div 58 = 8")
    case True
    then show ?thesis by (simp add: digs_nth sar_def)
  next
    case False
    then have "digs 58 9 V ! (x div 58) = ?d mod 2 ^ 58" using q by (simp add: digs_nth)
    moreover have "?d mod 2 ^ 58 div 2 ^ (x mod 58) mod 2 = ?d div 2 ^ (x mod 58) mod 2"
    proof -
      have e: "58 = x mod 58 + Suc (57 - x mod 58)" by (simp add: Suc_diff_le [symmetric])
      have "?d mod 2 ^ (x mod 58 + Suc (57 - x mod 58)) div 2 ^ (x mod 58) mod 2 = ?d div 2 ^ (x mod 58) mod 2 ^ Suc (57 - x mod 58) mod 2"
        by (simp only: mod_div_pow)
      also have "\<dots> = ?d div 2 ^ (x mod 58) mod 2" by (simp add: mod_mod_cancel)
      finally show ?thesis using e by metis
    qed
    ultimately show ?thesis by (simp add: sar_def)
  qed
  also have "\<dots> = vbit V x" unfolding vbit_def div_div_pow x ..
  finally show ?thesis by (simp add: and_one_eq)
qed

lemma comb_loop_bits:
  assumes "0 \<le> V" "V < 2 ^ 521" "j \<le> 8" "0 \<le> y" "y < 2 ^ j"
  shows "comb_loop (digs 58 9 V) j x y = y + 2 ^ j * lval 1 (map (\<lambda>l. vbit V (x + 66 * l)) [0..<8 - j])"
  using assms(3-5)
proof (induction "8 - j" arbitrary: j x y)
  case 0
  then show ?case by (simp add: comb_loop.simps)
next
  case (Suc n)
  have zero: "vbit V m = 0" if "521 \<le> m" for m
  proof -
    have "(2 :: int) ^ 521 \<le> 2 ^ m" using that by (intro power_increasing) simp_all
    then have "V < 2 ^ m" using assms(2) by linarith
    then show ?thesis using assms(1) by (simp add: vbit_def)
  qed
  show ?case
  proof (cases "x < 521")
    case True
    let ?b = "vbit V x"
    have y: "y OR ?b * 2 ^ j = y + 2 ^ j * ?b" using or_bit_add [OF Suc.prems(2,3), of ?b] by (simp add: mult.commute)
    have r: "0 \<le> y + 2 ^ j * ?b" "y + 2 ^ j * ?b < 2 ^ (j + 1)"
      using Suc.prems(2,3) vbit_range [of V x] by auto
    have j: "j + 1 \<le> 8" "n = 8 - (j + 1)" "j < 8" "8 - j = Suc n" using Suc.hyps(2) by simp_all
    have "comb_loop (digs 58 9 V) j x y = comb_loop (digs 58 9 V) (j + 1) (x + 66) (y + 2 ^ j * ?b)"
      using True j by (subst comb_loop.simps) (simp add: scalar_bit [OF assms(1,2)] y)
    also have "\<dots> = y + 2 ^ j * ?b + 2 ^ (j + 1) * lval 1 (map (\<lambda>l. vbit V (x + 66 + 66 * l)) [0..<n])"
      using Suc.hyps(1) [OF j(2,1) r] j(2) by simp
    also have "\<dots> = y + 2 ^ j * lval 1 (map (\<lambda>l. vbit V (x + 66 * l)) [0..<Suc n])"
      by (simp add: upt_conv_Cons map_Suc_upt [symmetric] o_def algebra_simps del: upt_Suc)
    finally show ?thesis using j by simp
  next
    case False
    have "map (\<lambda>l. vbit V (x + 66 * l)) [0..<8 - j] = replicate (8 - j) 0"
      using False zero by (intro nth_equalityI) simp_all
    then show ?thesis using False by (subst comb_loop.simps) simp
  qed
qed

lemma comb_index_bits:
  assumes "0 \<le> V" "V < 2 ^ 521"
  shows "comb_index (digs 58 9 V) i = lval 1 (map (\<lambda>j. vbit V (i + 66 * j)) [0..<8])"
  using comb_loop_bits [OF assms, of 0 0 i] by (simp add: comb_index_def del: upt_rec_numeral)

text \<open>The multiple of the point that entry \<open>y\<close> of the table stands for: bit \<open>j\<close> of \<open>y\<close> selects \<open>2\<^sup>6\<^sup>6\<^sup>j\<close>.\<close>

definition comb_weight :: "int \<Rightarrow> int" where
  "comb_weight y = lval 66 (digs 1 8 y)"

lemma comb_index_weight:
  assumes "0 \<le> V" "V < 2 ^ 521"
  shows "0 \<le> comb_index (digs 58 9 V) i" "comb_index (digs 58 9 V) i < 256"
    and "comb_weight (comb_index (digs 58 9 V) i) = (\<Sum>j<8. 2 ^ (66 * j) * vbit V (i + 66 * j))"
proof -
  let ?b = "map (\<lambda>j. vbit V (i + 66 * j)) [0..<8]"
  have d: "digits_in 0 (2 ^ 1) ?b" using vbit_range by (simp add: digits_in_def del: upt_rec_numeral)
  then have d': "digits_in 0 (2 ^ 1) (butlast ?b)" unfolding digits_in_def using in_set_butlastD by fast
  show "0 \<le> comb_index (digs 58 9 V) i" "comb_index (digs 58 9 V) i < 256"
    unfolding comb_index_bits [OF assms] using lval_nonneg [OF d, of 1] lval_upper [OF d] by (simp_all del: upt_rec_numeral)
  have "digs 1 8 (lval 1 ?b) = ?b"
    using digs_lval [of ?b 1] d' by (simp del: upt_rec_numeral)
  then show "comb_weight (comb_index (digs 58 9 V) i) = (\<Sum>j<8. 2 ^ (66 * j) * vbit V (i + 66 * j))"
    unfolding comb_weight_def comb_index_bits [OF assms] by (simp only: lval_map_sum)
qed

lemma horner_fold: "fold (\<lambda>i a. 2 * a + w i) (rev [0..<n]) (w n) = (\<Sum>i<Suc n. 2 ^ i * w i)" for w :: "nat \<Rightarrow> int"
proof -
  have "fold (\<lambda>i a. 2 * a + w i) (rev [0..<n]) c = (\<Sum>i<n. 2 ^ i * w i) + 2 ^ n * c" for c
    by (induction n arbitrary: c) (simp_all add: algebra_simps)
  then show ?thesis by simp
qed

lemma comb_schedule:
  assumes "0 \<le> V" "V < 2 ^ 521"
  shows "fold (\<lambda>i a. 2 * a + comb_weight (comb_index (digs 58 9 V) i)) (rev [0..<65]) (comb_weight (comb_index (digs 58 9 V) 65)) = V"
proof -
  have "(\<Sum>i<Suc 65. 2 ^ i * comb_weight (comb_index (digs 58 9 V) i)) =
    (\<Sum>i<66. \<Sum>j<8. 2 ^ (i + 66 * j) * vbit V (i + 66 * j))"
    by (simp add: comb_index_weight(3) [OF assms] sum_distrib_left power_add algebra_simps del: sum.lessThan_Suc)
  also have "\<dots> = (\<Sum>j<8. \<Sum>i<66. 2 ^ (i + 66 * j) * vbit V (i + 66 * j))" by (rule sum.swap)
  also have "\<dots> = (\<Sum>j<8. \<Sum>n\<in>{j * 66..<j * 66 + 66}. 2 ^ n * vbit V n)"
    by (rule sum.cong [OF refl]) (simp add: sum.atLeastLessThan_shift_0 [where m = "_ * 66"] atLeast0LessThan add.commute mult.commute)
  also have "\<dots> = (\<Sum>n<8 * 66. 2 ^ n * vbit V n)" by (rule sum.nat_group)
  also have "\<dots> = V" using assms by (simp add: vbit_sum)
  finally show ?thesis by (rule trans [OF horner_fold])
qed

section \<open>The points\<close>

text \<open>The point the multiplication makes of a table entry.\<close>

definition entry_point :: "sp_table_entry_521 \<Rightarrow> sp_point_521" where
  "entry_point e = \<lparr>pt_x = take 9 (te_x e), pt_y = take 9 (te_y e), pt_z = p521_norm_mod, infinity = 0\<rparr>"

definition len9 :: "sp_point_521 \<Rightarrow> bool" where
  "len9 p \<longleftrightarrow> 9 \<le> length (pt_x p) \<and> 9 \<le> length (pt_y p) \<and> 9 \<le> length (pt_z p)"

lemma len9_wf: "wf_pt p \<Longrightarrow> len9 p"
  by (simp add: len9_def wf_pt_def fe521_def)

lemma length_norm_mod: "length p521_norm_mod = 9"
  by (simp add: p521_norm_mod_def)

definition table_lengths :: "sp_table_entry_521 list \<Rightarrow> bool" where
  "table_lengths table \<longleftrightarrow> length table = 256 \<and> (\<forall>e\<in>set table. length (te_x e) = 9 \<and> length (te_y e) = 9)"

lemma stripe_read_entry:
  assumes "table_lengths table" "pt_z r = p521_norm_mod" "0 < y" "y < 256"
  shows "stripe_read ct r table y = entry_point (table ! nat y)"
  using get_entry_256_9_entry [of table y r] assms
  by (auto simp: stripe_read_def table_lengths_def entry_point_def c_not_def)

lemma stripe_read_zero:
  assumes "table_lengths table" "pt_z r = p521_norm_mod"
  shows "infinity (stripe_read ct r table 0) = 1" "len9 (stripe_read ct r table 0)"
    "pt_z (stripe_read ct r table 0) = p521_norm_mod"
  using get_entry_256_9_entry [of table 0 r] assms nth_mem [of 0 table]
  by (auto simp: stripe_read_def table_lengths_def len9_def c_not_def length_norm_mod)

lemma mont_lengths:
  "length (sp_521_mont_mul_9 a b m mp) = 18" "length (sp_521_mont_sqr_9 a m mp) = 18"
  "length (sp_521_mont_sub_9 a b m) = min 9 (min (length a) (min (length b) (length m)))"
  "length (sp_521_mont_dbl_9 a m) = min 9 (min (length a) (length m))"
  "length (sp_521_mont_tpl_9 a m) = min 9 (min (length a) (length m))"
  "length (sp_521_mont_add_9 a b m) = min 9 (min (length a) (min (length b) (length m)))"
  "length (sp_521_mont_div2_9 a m) = 9"
  by (simp_all add: sp_521_mont_mul_9_def sp_521_mont_sqr_9_def sp_521_mont_sub_9_def sp_521_mont_dbl_9_def
      sp_521_mont_tpl_9_def sp_521_mont_add_9_def sp_521_mont_div2_9_def sp_521_mont_reduce_9_def sp_521_norm_9_def
      sp_521_sub_9_def sp_521_add_9_def sp_521_cond_add_9_def sp_521_cond_sub_9_def sp_521_mul_9_def sp_521_sqr_9_def
      sp_521_rshift1_9_def Let_def carry_cols_def del: upt_rec_numeral) (simp_all add: min_def)

lemma dbl_9_len9: "len9 p \<Longrightarrow> len9 (sp_521_proj_point_dbl_9 p)"
  using p521_mod_digs(1) by (simp add: len9_def sp_521_proj_point_dbl_9_def Let_def mont_lengths)

lemma add_qz1_9_both_infinite:
  assumes "infinity p = 1" "infinity q = 1"
  shows "infinity (sp_521_proj_point_add_qz1_9 p q) = 1" "len9 (sp_521_proj_point_add_qz1_9 p q)"
proof -
  have c: "NOT 1 AND sp_521_cmp_equal_9 a b AND sp_521_cmp_equal_9 c d = 0" for a b c d
    by (simp add: sp_521_cmp_equal_9_def)
  show "infinity (sp_521_proj_point_add_qz1_9 p q) = 1" "len9 (sp_521_proj_point_add_qz1_9 p q)"
    using assms c by (simp_all add: sp_521_proj_point_add_qz1_9_def len9_def select3_def Let_def del: upt_rec_numeral)
qed

text \<open>What the loop needs of a property of points: it passes to the copy of a point, to its double and to
  its sum with a point whose \<open>z\<close> is one.\<close>

locale comb_points =
  fixes G :: "sp_point_521 \<Rightarrow> bool"
  assumes G_len: "G p \<Longrightarrow> len9 p"
    and G_copy: "G p \<Longrightarrow> G \<lparr>pt_x = take 9 (pt_x p), pt_y = take 9 (pt_y p), pt_z = take 9 (pt_z p), infinity = 0\<rparr>"
    and G_dbl: "G p \<Longrightarrow> G (sp_521_proj_point_dbl_9 p)"
    and G_add: "G p \<Longrightarrow> G q \<Longrightarrow> infinity p = 0 \<Longrightarrow> infinity q = 0 \<Longrightarrow> pt_z q = p521_norm_mod \<Longrightarrow>
      G (sp_521_proj_point_add_qz1_9 p q) \<and> infinity (sp_521_proj_point_add_qz1_9 p q) = 0"
begin

definition held :: "sp_point_521 \<Rightarrow> bool" where
  "held p \<longleftrightarrow> infinity p = 0 \<and> G p \<or> infinity p = 1 \<and> len9 p"

definition stripe_table :: "sp_table_entry_521 list \<Rightarrow> bool" where
  "stripe_table table \<longleftrightarrow> table_lengths table \<and> (\<forall>i\<in>{1..<256}. G (entry_point (table ! i)))"

lemma held_dbl: "held p \<Longrightarrow> held (sp_521_proj_point_dbl_9 p)"
  by (auto simp: held_def dbl_9_infinity G_dbl dbl_9_len9)

lemma held_add:
  assumes "held p" "held q" "pt_z q = p521_norm_mod"
  shows "held (sp_521_proj_point_add_qz1_9 p q)"
proof -
  have l: "9 \<le> length (pt_x p)" "9 \<le> length (pt_y p)" "9 \<le> length (pt_z p)"
    "9 \<le> length (pt_x q)" "9 \<le> length (pt_y q)" "9 \<le> length (pt_z q)"
    using assms(1,2) G_len by (auto simp: held_def len9_def)
  note i = proj_point_add_9_infinity [OF l]
  consider "infinity p = 0" "G p" "infinity q = 0" "G q" | "infinity p = 0" "G p" "infinity q = 1"
    | "infinity p = 1" "infinity q = 0" "G q" | "infinity p = 1" "infinity q = 1"
    using assms(1,2) by (auto simp: held_def)
  then show ?thesis
  proof cases
    case 1
    then show ?thesis using G_add assms(3) by (simp add: held_def)
  next
    case 2
    then show ?thesis using i(1) G_copy [of p] by (simp add: held_def add_qz1_9_infinity)
  next
    case 3
    then show ?thesis using i(2) G_copy [of q] by (simp add: held_def add_qz1_9_infinity)
  next
    case 4
    then show ?thesis using add_qz1_9_both_infinite by (simp add: held_def)
  qed
qed

lemma held_read:
  assumes "stripe_table table" "pt_z r = p521_norm_mod" "0 \<le> y" "y < 256"
  shows "held (stripe_read ct r table y) \<and> pt_z (stripe_read ct r table y) = p521_norm_mod"
proof (cases "y = 0")
  case True
  then show ?thesis using stripe_read_zero [of table r ct] assms by (simp add: held_def stripe_table_def)
next
  case False
  then have "nat y \<in> {1..<256}" using assms(3,4) by auto
  then have "G (entry_point (table ! nat y))" using assms(1) unfolding stripe_table_def by blast
  moreover have "stripe_read ct r table y = entry_point (table ! nat y)"
    using assms False by (intro stripe_read_entry) (simp_all add: stripe_table_def)
  ultimately show ?thesis by (simp add: held_def entry_point_def)
qed

lemma held_rounds:
  assumes "stripe_table table" "\<forall>i\<in>set is. 0 \<le> comb_index k i \<and> comb_index k i < 256"
    and "held rt" "pt_z p = p521_norm_mod"
  shows "held (fst (fold (stripe_round ct table k) is (rt, p)))"
  using assms(2-)
proof (induction "is" arbitrary: rt p)
  case (Cons i "is")
  let ?p = "stripe_read ct p table (comb_index k i)"
  have p: "held ?p" "pt_z ?p = p521_norm_mod" using held_read [OF assms(1) Cons.prems(3)] Cons.prems(1) by simp_all
  have "held (sp_521_proj_point_add_qz1_9 (sp_521_proj_point_dbl_9 rt) ?p)"
    by (intro held_add held_dbl Cons.prems(2) p)
  from Cons.IH [OF _ this p(2)] Cons.prems(1) show ?case by (simp add: stripe_round_def Let_def)
qed simp

lemma held_stripe:
  assumes "stripe_table table" "0 \<le> V" "V < 2 ^ 521"
  shows "held (sp_521_ecc_mulmod_stripe_9 junk r table (digs 58 9 V) False ct)"
proof -
  note c = comb_index_weight(1,2) [OF assms(2,3)]
  let ?j = "junk\<lparr>pt_z := p521_norm_mod\<rparr>"
  have "held (stripe_read ct ?j table (comb_index (digs 58 9 V) 65))"
    using held_read [OF assms(1) _ c, of ?j] by simp
  from held_rounds [OF assms(1) _ this, of "rev [0..<65]" "digs 58 9 V" ?j] c show ?thesis
    by (simp add: sp_521_ecc_mulmod_stripe_9_def Let_def case_prod_beta del: upt_rec_numeral)
qed

lemma add_finite:
  assumes "held p" "held q" "pt_z q = p521_norm_mod" "infinity (sp_521_proj_point_add_qz1_9 p q) = 1"
  shows "infinity p = 1 \<and> infinity q = 1"
proof -
  have l: "9 \<le> length (pt_x p)" "9 \<le> length (pt_y p)" "9 \<le> length (pt_z p)"
    "9 \<le> length (pt_x q)" "9 \<le> length (pt_y q)" "9 \<le> length (pt_z q)"
    using assms(1,2) G_len by (auto simp: held_def len9_def)
  note i = proj_point_add_9_infinity [OF l]
  show ?thesis
    using assms i G_add [of p q] by (cases "infinity p = 0"; cases "infinity q = 0") (auto simp: held_def add_qz1_9_infinity)
qed

lemma read_finite: "infinity (stripe_read ct r table y) = 1 \<longleftrightarrow> y = 0"
  by (simp add: stripe_read_def c_not_def)

lemma rounds_finite:
  assumes "stripe_table table" "\<forall>i\<in>set is. 0 \<le> comb_index k i \<and> comb_index k i < 256"
    and "held rt" "pt_z p = p521_norm_mod" "infinity (fst (fold (stripe_round ct table k) is (rt, p))) = 1"
  shows "infinity rt = 1 \<and> (\<forall>i\<in>set is. comb_index k i = 0)"
  using assms(2-)
proof (induction "is" arbitrary: rt p)
  case (Cons i "is")
  let ?p = "stripe_read ct p table (comb_index k i)"
  have p: "held ?p" "pt_z ?p = p521_norm_mod" using held_read [OF assms(1) Cons.prems(3)] Cons.prems(1) by simp_all
  have h: "held (sp_521_proj_point_add_qz1_9 (sp_521_proj_point_dbl_9 rt) ?p)"
    by (intro held_add held_dbl Cons.prems(2) p)
  have f: "infinity (fst (fold (stripe_round ct table k) is (sp_521_proj_point_add_qz1_9 (sp_521_proj_point_dbl_9 rt) ?p, ?p))) = 1"
    using Cons.prems(4) by (simp add: stripe_round_def [of _ _ _ i] Let_def)
  have "\<forall>i\<in>set is. 0 \<le> comb_index k i \<and> comb_index k i < 256" using Cons.prems(1) by simp
  note s = Cons.IH [OF this h p(2) f]
  then have "infinity rt = 1" "infinity ?p = 1"
    using add_finite [OF held_dbl [OF Cons.prems(2)] p] dbl_9_infinity [of rt] by simp_all
  then show ?case using s read_finite by simp
qed simp

text \<open>Only the scalar 0 gives the point at infinity.\<close>

lemma stripe_finite:
  assumes "stripe_table table" "0 < V" "V < 2 ^ 521"
  shows "infinity (sp_521_ecc_mulmod_stripe_9 junk r table (digs 58 9 V) False ct) = 0
    \<and> G (sp_521_ecc_mulmod_stripe_9 junk r table (digs 58 9 V) False ct)"
proof (rule ccontr)
  have V: "0 \<le> V" using assms(2) by simp
  let ?k = "digs 58 9 V" and ?j = "junk\<lparr>pt_z := p521_norm_mod\<rparr>"
  let ?s = "stripe_read ct ?j table (comb_index ?k 65)"
  note c = comb_index_weight(1,2) [OF V assms(3)]
  assume "\<not> (infinity (sp_521_ecc_mulmod_stripe_9 junk r table ?k False ct) = 0
    \<and> G (sp_521_ecc_mulmod_stripe_9 junk r table ?k False ct))"
  then have "infinity (sp_521_ecc_mulmod_stripe_9 junk r table ?k False ct) = 1"
    using held_stripe [OF assms(1) V assms(3)] by (auto simp: held_def)
  then have i: "infinity (fst (fold (stripe_round ct table ?k) (rev [0..<65]) (?s, ?j))) = 1"
    by (simp add: sp_521_ecc_mulmod_stripe_9_def Let_def case_prod_beta del: upt_rec_numeral)
  have h: "held ?s" using held_read [OF assms(1) _ c, of ?j] by simp
  have "comb_index ?k 65 = 0" "\<forall>i<65. comb_index ?k i = 0"
    using rounds_finite [OF assms(1) _ h _ i] c by (auto simp: read_finite simp del: upt_rec_numeral)
  then have z: "comb_index ?k i = 0" if "i < 66" for i using that by (cases "i = 65") auto
  have w: "comb_weight 0 = 0" by code_simp
  have "V = fold (\<lambda>i a. 2 * a + comb_weight (comb_index ?k i)) (rev [0..<65]) (comb_weight (comb_index ?k 65))"
    by (rule comb_schedule [OF V assms(3), symmetric])
  also have "\<dots> = (\<Sum>i<Suc 65. 2 ^ i * comb_weight (comb_index ?k i))" by (rule horner_fold)
  also have "\<dots> = 0" using z w by (intro sum.neutral) simp
  finally show False using assms(2) by simp
qed

end

text \<open>The two properties used: well-formed coordinates, and being on the curve.\<close>

lemma qz1_coords: "wf_pt q \<Longrightarrow> pt_z q = p521_norm_mod \<Longrightarrow> pt3 q (val521 (pt_x q), val521 (pt_y q), 1)"
  using pt3_coords [of q] by (simp add: val521_def p521_norm_mod_def)

interpretation comb_wf: comb_points wf_pt
proof
  fix p q
  show "len9 p" if "wf_pt p" by (rule len9_wf [OF that])
  show "wf_pt \<lparr>pt_x = take 9 (pt_x p), pt_y = take 9 (pt_y p), pt_z = take 9 (pt_z p), infinity = 0\<rparr>" if "wf_pt p"
    using that by (simp add: wf_pt_def fe521_def val521_def)
  show d: "wf_pt (sp_521_proj_point_dbl_9 p)" if "wf_pt p" using pt3_wf [OF dbl_9_pt3 [OF pt3_coords [OF that]]] .
  show "wf_pt (sp_521_proj_point_add_qz1_9 p q) \<and> infinity (sp_521_proj_point_add_qz1_9 p q) = 0"
    if "wf_pt p" "wf_pt q" "infinity p = 0" "infinity q = 0" "pt_z q = p521_norm_mod"
    using add_qz1_9_same [OF that(3,4)] d [OF that(1)] dbl_9_infinity [of p] that(3)
      add_qz1_9_pt3 [OF pt3_coords [OF that(1)] qz1_coords [OF that(2,5)] that(3,4)] pt3_wf
    by (cases "same_qz1 p q") auto
qed

interpretation comb_curve: comb_points valid521
proof
  fix p q
  show "len9 p" if "valid521 p" by (rule len9_wf [OF valid_wf [OF that]])
  show "valid521 \<lparr>pt_x = take 9 (pt_x p), pt_y = take 9 (pt_y p), pt_z = take 9 (pt_z p), infinity = 0\<rparr>" if "valid521 p"
    by (rule take9_valid [OF that])
  show d: "valid521 (sp_521_proj_point_dbl_9 p)" if "valid521 p" by (rule proj_point_dbl_9_valid [OF that])
  show "valid521 (sp_521_proj_point_add_qz1_9 p q) \<and> infinity (sp_521_proj_point_add_qz1_9 p q) = 0"
    if v: "valid521 p" "valid521 q" and i: "infinity p = 0" "infinity q = 0" and z: "pt_z q = p521_norm_mod"
  proof (cases "same_qz1 p q")
    case True
    then show ?thesis using add_qz1_9_same [OF i] d [OF v(1)] dbl_9_infinity [of p] i(1) by simp
  next
    case False
    have q: "pt3 q (val521 (pt_x q), val521 (pt_y q), 1)" by (rule qz1_coords [OF valid_wf [OF v(2)] z])
    note a = add_qz1_9_pt3 [OF pt3_coords [OF valid_wf [OF v(1)]] q i False]
    have "curve3 (val521 (pt_x q), val521 (pt_y q), 1)" using pt3_valid [OF q] v(2) by simp
    then show ?thesis using a pt3_valid [OF a(1)] curve3_jadd valid_curve3 [OF v(1)] by blast
  qed
qed

section \<open>The base point\<close>

lemma base_curve: "valid521 p521_base"
proof -
  let ?x = "val521 (pt_x p521_base)" and ?y = "val521 (pt_y p521_base)"
  define q1 q2 q3 r1 r2 r3 :: int where
    "q1 = 0x4cf96eafa26fea7e28bd64dbbee5490925d1d6a4d9d6bc6f63f996ced9af87a06d0a16821501201643168743d1883809f503ce9430576f12e985e994485fea5857" and
    "q2 = 0xa199456fcd4338993e99f0179fa7882a78241d65cbf60f3751c2e61acda416b987a5fac8f5ebc011e1a1ccd2ed45dd2f0a6d99bf0a0629b9571ac5b8b283b4cc17" and
    "q3 = 0x995e8bae2ff72f26125d28a017616fc6bf04994bf6989853c7b0875a1fd4ac3460bb08afd897949b8b70ad887675edc19e6fc44bbb3a923e5dfd878439122bd4e6" and
    "r1 = 0x1a0c5f6b208884c559039bfcd9ce1e18654802685c92a22d428bee74ec50b2a6be5b56f5205a9faadebf612dd3ab10c46b0d790b1c6e816ce8ab9157e8f5c861cfb" and
    "r2 = 0x17f16c1416064ffe2fad5fc11737406dc7168ac123efb8d9ed677f28c6b8c95cbf9673d52da967edc020bcecf223cc699854fac105bf4a6508ab09a79198710a719" and
    "r3 = 0x17d1b55e69ce70dbfb18dd9d0e1bfcb0098365900ef85819564482d07dbd99f1caad97470c4b347640227c84c688f795df1eb45d49fa193bda8b3641e58a9afade6"
  have pq: "P521 * q = 2 ^ 521 * q - q" for q by (simp add: P521_def left_diff_distrib)
  have x: "?x = 0xc6858e06b70404e9cd9e3ecb662395b4429c648139053fb521f828af606b4d3dbaa14b5e77efe75928fe1dc127a2ffa8de3348b3c1856a429bf97e7e31c2e5bd66" and y: "?y = 0x11839296a789a3bc0045c8a5fb42c7d1bd998f54449579b446817afbd17273e662c97ee72995ef42640c550b9013fad0761353c7086a272c24088be94769fd16650"
    by (simp_all add: val521_def p521_base_def)
  have 1: "?x * ?x = P521 * q1 + r1" unfolding pq x q1_def r1_def by (simp only: arith_simps power_numeral pow.simps sqr.simps)
  have 2: "r1 * ?x = P521 * q2 + r2" unfolding pq x q2_def r1_def r2_def by (simp only: arith_simps power_numeral pow.simps sqr.simps)
  have 3: "?y * ?y = P521 * q3 + r3" unfolding pq y q3_def r3_def by (simp only: arith_simps power_numeral pow.simps sqr.simps)
  have 4: "r3 - r2 + 3 * ?x - B521 = P521 * (1)" unfolding x r2_def r3_def by (simp add: P521_def B521_def p521_b_def)
  have "curve_poly B521 ?x ?y 1 = ?y * ?y - ?x * ?x * ?x + 3 * ?x - B521" by (rule curve_poly_affine)
  also have "\<dots> = P521 * q3 - P521 * q1 * ?x - P521 * q2 + (r3 - r2 + 3 * ?x - B521)"
    unfolding 1 3 distrib_right 2 by (simp only: algebra_simps)
  also have "\<dots> = P521 * (q3 - q1 * ?x - q2 + (1))" unfolding 4 by (simp only: algebra_simps)
  finally have "jac_on_curve P521 B521 ?x ?y 1" by (simp only: jac_on_curve_def dvd_triv_left)
  moreover have "val521 (pt_z p521_base) = 1" by (simp add: val521_def p521_base_def)
  ultimately show ?thesis using wf_base(1) by (simp only: valid521_def wf_pt_def simp_thms)
qed

section \<open>Properties\<close>

lemma digs9_self: "length k = 9 \<Longrightarrow> digits_in 0 (2 ^ 58) k \<Longrightarrow> digs 58 9 (lval 58 k) = k"
  using digs_lval [of k 58] by (cases "k = []") (simp_all add: digits_in_def in_set_butlastD)

lemma stripe_read_ct:
  assumes "table_lengths table" "te_x (table ! 0) = replicate 9 0" "te_y (table ! 0) = replicate 9 0" "0 \<le> y" "y < 256"
  shows "stripe_read True r table y = stripe_read False r table y"
  using get_entry_256_9_entry [of table y r] assms by (auto simp: stripe_read_def table_lengths_def)

lemma stripe_ct:
  assumes "table_lengths table" "te_x (table ! 0) = replicate 9 0" "te_y (table ! 0) = replicate 9 0"
    and "\<And>i. 0 \<le> comb_index k i \<and> comb_index k i < 256"
  shows "sp_521_ecc_mulmod_stripe_9 junk r table k to_affine True = sp_521_ecc_mulmod_stripe_9 junk r table k to_affine False"
proof -
  have "stripe_read True r table (comb_index k i) = stripe_read False r table (comb_index k i)" for r i
    by (rule stripe_read_ct [OF assms(1-3)]) (use assms(4) in simp_all)
  then have "stripe_round True table k = stripe_round False table k" "\<And>r. stripe_read True r table (comb_index k 65) = stripe_read False r table (comb_index k 65)"
    by (auto simp: stripe_round_def fun_eq_iff)
  then show ?thesis by (simp only: sp_521_ecc_mulmod_stripe_9_def)
qed

text \<open>
  What the loop computes, as an expression over the table: an entry, the double of an expression, and
  the sum of an expression and an entry.  \<open>eval_pt\<close> gives it the meaning the code's point operations
  have; \<open>weight\<close> is the multiple of the point it stands for.
\<close>

datatype pt_expr = Entry int | Dbl pt_expr | Add pt_expr int

definition table_point :: "sp_table_entry_521 list \<Rightarrow> int \<Rightarrow> sp_point_521" where
  "table_point table y = (entry_point (table ! nat y))\<lparr>infinity := (if y = 0 then 1 else 0)\<rparr>"

fun eval_pt :: "sp_table_entry_521 list \<Rightarrow> pt_expr \<Rightarrow> sp_point_521" where
  "eval_pt table (Entry y) = table_point table y"
| "eval_pt table (Dbl e) = sp_521_proj_point_dbl_9 (eval_pt table e)"
| "eval_pt table (Add e y) = sp_521_proj_point_add_qz1_9 (eval_pt table e) (table_point table y)"

fun weight :: "pt_expr \<Rightarrow> int" where
  "weight (Entry y) = comb_weight y"
| "weight (Dbl e) = 2 * weight e"
| "weight (Add e y) = weight e + comb_weight y"

fun entries :: "pt_expr \<Rightarrow> int set" where
  "entries (Entry y) = {y}"
| "entries (Dbl e) = entries e"
| "entries (Add e y) = insert y (entries e)"

text \<open>The expression of a scalar: 65 times, double and add the entry of the next column.\<close>

definition comb_expr :: "int list \<Rightarrow> pt_expr" where
  "comb_expr k = fold (\<lambda>i e. Add (Dbl e) (comb_index k i)) (rev [0..<65]) (Entry (comb_index k 65))"

lemma weight_comb:
  "weight (fold (\<lambda>i e. Add (Dbl e) (f i)) is e) = fold (\<lambda>i a. 2 * a + comb_weight (f i)) is (weight e)"
  by (induction "is" arbitrary: e) simp_all

lemma entries_comb: "entries (fold (\<lambda>i e. Add (Dbl e) (f i)) is e) = entries e \<union> f ` set is"
  by (induction "is" arbitrary: e) auto

lemma stripe_read_point:
  assumes "table_lengths table" "te_x (table ! 0) = replicate 9 0" "te_y (table ! 0) = replicate 9 0"
    and "pt_z r = p521_norm_mod" "0 \<le> y" "y < 256"
  shows "stripe_read ct r table y = table_point table y"
proof (cases "y = 0")
  case True
  have "stripe_read ct r table 0 = stripe_read False r table 0"
    using stripe_read_ct [OF assms(1-3), of 0] by (cases ct) simp_all
  also have "\<dots> = table_point table 0"
    using assms(2-4) by (cases r) (simp add: stripe_read_def table_point_def entry_point_def c_not_def)
  finally show ?thesis by (simp add: True)
next
  case False
  then show ?thesis
    using stripe_read_entry [OF assms(1,4), of y ct] assms(5,6) by (simp add: table_point_def entry_point_def)
qed

lemma stripe_rounds_eval:
  assumes "table_lengths table" "te_x (table ! 0) = replicate 9 0" "te_y (table ! 0) = replicate 9 0"
    and "\<And>i. 0 \<le> comb_index k i \<and> comb_index k i < 256"
    and "rt = eval_pt table e" "pt_z p = p521_norm_mod"
  shows "fst (fold (stripe_round ct table k) is (rt, p)) = eval_pt table (fold (\<lambda>i e. Add (Dbl e) (comb_index k i)) is e)"
  using assms(5,6)
proof (induction "is" arbitrary: rt p e)
  case (Cons i "is")
  have r: "stripe_read ct p table (comb_index k i) = table_point table (comb_index k i)"
    by (rule stripe_read_point [OF assms(1-3) Cons.prems(2)]) (use assms(4) in simp_all)
  have z: "pt_z (table_point table (comb_index k i)) = p521_norm_mod" by (simp add: table_point_def entry_point_def)
  show ?case
    using Cons.IH [OF _ z, of _ "Add (Dbl e) (comb_index k i)"] Cons.prems(1) by (simp add: stripe_round_def Let_def r)
qed simp

lemma stripe_eval:
  assumes "table_lengths table" "te_x (table ! 0) = replicate 9 0" "te_y (table ! 0) = replicate 9 0"
    and "\<And>i. 0 \<le> comb_index k i \<and> comb_index k i < 256"
  shows "sp_521_ecc_mulmod_stripe_9 junk r table k to_affine ct =
    (let p = eval_pt table (comb_expr k) in if to_affine then sp_521_map_9 r p else p)"
proof -
  let ?j = "junk\<lparr>pt_z := p521_norm_mod\<rparr>"
  have s: "stripe_read ct ?j table (comb_index k 65) = eval_pt table (Entry (comb_index k 65))"
    using stripe_read_point [OF assms(1-3), of ?j] assms(4) by simp
  have "fst (fold (stripe_round ct table k) (rev [0..<65]) (stripe_read ct ?j table (comb_index k 65), ?j)) = eval_pt table (comb_expr k)"
    unfolding comb_expr_def by (rule stripe_rounds_eval [OF assms s]) simp
  then show ?thesis
    by (simp add: sp_521_ecc_mulmod_stripe_9_def Let_def case_prod_beta del: upt_rec_numeral)
qed

text \<open>C5: The loop of the striped multiplication computes the multiple by the scalar.  For every scalar below \<open>2\<^sup>5\<^sup>2\<^sup>1\<close> with
  normalised digits and every table whose entry 0 is zero, the function returns, with direct reads as with
  cache-resistant ones, the value of the expression \<open>comb_expr k\<close> under the code's doubling and mixed addition
  (converted to affine coordinates when that is asked for); the multiple of the point this expression stands
  for, when entry \<open>y\<close> stands for the sum of the multiples \<open>2\<^sup>6\<^sup>6\<^sup>j\<close> over the bits \<open>j\<close> of \<open>y\<close>, is the scalar;
  and all entries it reads are in the table.\<close>

theorem sp_521_stripe_schedule:
  fixes junk r :: sp_point_521 and table :: "sp_table_entry_521 list" and to_affine ct :: bool
  assumes "length k = 9" "digits_in 0 (2 ^ 58) k" "lval 58 k < 2 ^ 521"
    and "table_lengths table" "te_x (table ! 0) = replicate 9 0" "te_y (table ! 0) = replicate 9 0"
  shows "sp_521_ecc_mulmod_stripe_9 junk r table k to_affine ct =
      (let p = eval_pt table (comb_expr k) in if to_affine then sp_521_map_9 r p else p) \<and>
    weight (comb_expr k) = lval 58 k \<and> entries (comb_expr k) \<subseteq> {0..<256}"
proof -
  note k = digs9_self [OF assms(1,2)] and V = lval_nonneg [OF assms(2), of 58] assms(3)
  note c = comb_index_weight(1,2) [OF V, unfolded k]
  have "weight (comb_expr k) = lval 58 k"
    using comb_schedule [OF V, unfolded k] by (simp only: comb_expr_def weight_comb weight.simps)
  moreover have "entries (comb_expr k) \<subseteq> {0..<256}" using c by (auto simp: comb_expr_def entries_comb simp del: upt_rec_numeral)
  ultimately show ?thesis using stripe_eval [OF assms(4-6)] c by blast
qed

text \<open>A table with the base point in every entry but the first.\<close>

definition toy_table :: "sp_table_entry_521 list" where
  "toy_table = \<lparr>te_x = replicate 9 0, te_y = replicate 9 0\<rparr> #
     replicate 255 \<lparr>te_x = pt_x p521_base, te_y = pt_y p521_base\<rparr>"

lemma toy_table_entries:
  "table_lengths toy_table" "te_x (toy_table ! 0) = replicate 9 0" "te_y (toy_table ! 0) = replicate 9 0"
  "\<And>i. i \<in> {1..<256} \<Longrightarrow> entry_point (toy_table ! i) = p521_base"
proof -
  show "table_lengths toy_table" "te_x (toy_table ! 0) = replicate 9 0" "te_y (toy_table ! 0) = replicate 9 0"
    by (simp_all add: toy_table_def table_lengths_def p521_base_def)
  fix i :: nat
  assume "i \<in> {1..<256}"
  then obtain j where "i = Suc j" "j < 255" by (cases i) auto
  then show "entry_point (toy_table ! i) = p521_base"
    by (simp add: toy_table_def entry_point_def p521_base_def p521_norm_mod_def)
qed

lemma order2_scalar: "length p521_order2 = 9" "digits_in 0 (2 ^ 58) p521_order2" "lval 58 p521_order2 < 2 ^ 521"
  by (simp_all add: p521_order2_def)

theorem sp_521_stripe_schedule_witness:
  "sp_521_ecc_mulmod_stripe_9 p521_base p521_base toy_table p521_order2 False True =
     eval_pt toy_table (comb_expr p521_order2) \<and> weight (comb_expr p521_order2) = lval 58 p521_order2"
  using sp_521_stripe_schedule [OF order2_scalar toy_table_entries(1-3), of p521_base p521_base False True] by simp

text \<open>C6: Striped multiplication stays on the curve: with a table whose entries other than the first are
  affine curve points, and any scalar below \<open>2\<^sup>5\<^sup>2\<^sup>1\<close>, the result before the conversion to affine
  coordinates is a curve point with well-formed coordinates or is marked as infinity, through all 65
  doublings and mixed additions, whether an addition meets equal points, a point and its negative,
  or infinity on either side.\<close>

theorem sp_521_ecc_mulmod_stripe_9_on_curve:
  fixes junk r :: sp_point_521 and ct :: bool
  assumes "length k = 9" "digits_in 0 (2 ^ 58) k" "lval 58 k < 2 ^ 521"
    and "table_lengths table" "\<forall>i\<in>{1..<256}. valid521 (entry_point (table ! i))"
  defines "p \<equiv> sp_521_ecc_mulmod_stripe_9 junk r table k False ct"
  shows "infinity p = 0 \<and> valid521 p \<or> infinity p = 1"
proof -
  have "comb_curve.stripe_table table" using assms(4,5) by (simp add: comb_curve.stripe_table_def)
  from comb_curve.held_stripe [OF this lval_nonneg [OF assms(2), of 58] assms(3)]
  show ?thesis by (auto simp: p_def digs9_self [OF assms(1,2)] comb_curve.held_def)
qed

theorem sp_521_ecc_mulmod_stripe_9_on_curve_witness:
  "let p = sp_521_ecc_mulmod_stripe_9 p521_base p521_base toy_table p521_order2 False True
   in infinity p = 0 \<and> valid521 p \<or> infinity p = 1"
proof -
  have "\<forall>i\<in>{1..<256}. valid521 (entry_point (toy_table ! i))"
    using toy_table_entries(4) base_curve by simp
  from sp_521_ecc_mulmod_stripe_9_on_curve [OF order2_scalar toy_table_entries(1) this] show ?thesis unfolding Let_def .
qed

end
