(* ===== verification/Sp521Table.thy ===== *)
theory Sp521Table
  imports Sp521Stripe
begin

text \<open>
  The precomputed table of the base point, \<^verbatim>\<open>p521_table\<close> of \<^verbatim>\<open>wolfssl-src/patches/sp_c64.c\<close>, in the digits
  of the source, and the multiplication of the base point with it.
\<close>

section \<open>The table\<close>

definition p521_table_0 :: "sp_table_entry_521 list" where
  "p521_table_0 = [
   \<lparr>te_x = [0, 0, 0, 0, 0,
      0, 0, 0, 0],
    te_y = [0, 0, 0, 0, 0,
      0, 0, 0, 0]\<rparr>,
   \<lparr>te_x = [0x17e7e31c2e5bd66, 0x22cf0615a90a6fe, 0x127a2ffa8de334, 0x1dfbf9d64a3f877, 0x6b4d3dbaa14b5e,
      0x14fed487e0a2bd8, 0x15b4429c6481390, 0x3a73678fb2d988e, 0xc6858e06b70404],
    te_y = [0xbe94769fd16650, 0x31c21a89cb09022, 0x39013fad0761353, 0x2657bd099031542, 0x3273e662c97ee72,
      0x1e6d11a05ebef45, 0x3d1bd998f544495, 0x3001172297ed0b1, 0x11839296a789a3b]\<rparr>,
   \<lparr>te_x = [0x3986670f0ccb51, 0x387404d9525d2a0, 0xf21b2b29ed9b87, 0x2aa8eb74cddfd63, 0xe9d08ffb06c0e9,
      0x19d8589fc4ecd74, 0xa3ef4dd8bf44c9, 0xeb6e92863051d6, 0x13e96a576dda004],
    te_y = [0x3de24f8632d95a3, 0x57bc5314920a4a, 0x63e9bdaba1979f, 0x3d2a58adc1eab76, 0x214258d98dde053,
      0x18708d7316628b7, 0x3fd32c9fa5a19d0, 0x33ab03b519443a3, 0x1852aea9dd1ef78]\<rparr>,
   \<lparr>te_x = [0xa91dd8eaaf1fe3, 0xe19891002d4af4, 0x6a921abf0d20db, 0x26a9da32503fda8, 0x9a1eec37941287,
      0x1ce0d0f3cde46af, 0x22abc1c913fbe62, 0x3cc4dca2d0aaf88, 0x157874c0a862b9e],
    te_y = [0x2c8f184e6f03d49, 0xd5f907922f80c2, 0x1ef3815cbdefa9c, 0x2ad7f6370f00b39, 0x1faeb109d7a41c7,
      0x213d34e12fbd9f2, 0x2f0aae2f98cca1a, 0x25a2df80f51f59c, 0x724b1ab581d58]\<rparr>,
   \<lparr>te_x = [0x4f2d4bdf9314e0, 0x3a14379e802ab24, 0x1083582efb03daa, 0x20fb1ff9b49e48c, 0x2199d74a880f1c2,
      0x25401f9cb56ce65, 0x33f03e5f120b9b3, 0x2da18c348ddcd1d, 0x121f4c192733b78],
    te_y = [0x103ff6dfa8b51f0, 0x2bed45038af7c3c, 0x380e83254171ae7, 0x2e33684365444c0, 0x24f3a8c01e83501,
      0x3201c1a4415ddc7, 0x2238218f52196aa, 0x29fc4d826c2aa95, 0x1db8c25790694a0]\<rparr>,
   \<lparr>te_x = [0x370ccb2c0958d, 0x3bc599a69ece1cc, 0x33cf480c9b3889a, 0x3cbeacf85249e4b, 0x2507489670b2984,
      0x34cf6caa5d4790d, 0xa4daa9cab99d5a, 0x1cc95365174cad1, 0xaa26cca5216c7],
    te_y = [0x1be1d41f9e66d18, 0x3bbe5aa845f9eb3, 0x14a2ddb0d24b80a, 0x9d7262defc14c8, 0x2dfd3c8486dcfb2,
      0x329354b184f9d0d, 0x151e646e703fa13, 0x149f43238a5dc61, 0x1c6f5e90eacbfa8]\<rparr>,
   \<lparr>te_x = [0x2c2f1e74ab2d58f, 0x2fe0b0a825e00a8, 0x2b24770bb76ac1b, 0x3b5599fdef5960f, 0x2fd96897e8e4ed9,
      0x3ef83c576300761, 0x1cdcb166395a133, 0x3ac954793ce7766, 0x82de08424a720d],
    te_y = [0x3aa53b260ea91af, 0x212bdde8c77f765, 0x32395cd09bbea43, 0x36bcc016387360b, 0x2e5c78e97997c19,
      0x1d6c611510ed831, 0x2ce16faae9b5f5, 0x3ea1973a1bccc23, 0x73983ce58f4f63]\<rparr>,
   \<lparr>te_x = [0x2e931318217609d, 0x2a7750904bf002b, 0x264c286c63297f8, 0x359efc7197b845f, 0x38d03eee5cc3782,
      0x2ae4de67a305136, 0x3784c701acacb29, 0x3361c857ac6d6c1, 0xf82c409fa81aff],
    te_y = [0x7d3766378139a4, 0x25a7aed56faa4c0, 0xd6f68c8bc9dc6d, 0x1857e4fc90b1f18, 0x2741717d9844e84,
      0x2fc483a118728a, 0x1699d78e930e79f, 0x2db7b85552809ad, 0x7de69c77026a4f]\<rparr>,
   \<lparr>te_x = [0x1b51bb04bee80d7, 0x3da87dda4b79a58, 0x246ca0ebc3bd0e1, 0x29e4c1913c20de7, 0x3390db0771c0bff,
      0x2b6873a65f19ee1, 0x14b512095c33e1f, 0x21958f1402b76b1, 0xb0c231d360d311],
    te_y = [0x228929839bcab2f, 0x19e01937488281, 0x2084763dc2a0c0c, 0x1cc64e30f8c18bd, 0x152e46eb988e9da,
      0x297783f5a6fa3cb, 0x2c0e26e55c8d2d6, 0x3fd5fce8ff58f6c, 0x14a899c6d9f1e4b]\<rparr>,
   \<lparr>te_x = [0x3f6e3a1ec05ce88, 0x30925adabf480a7, 0x20776fbeb007f8f, 0x2f7baf7b5002e74, 0x2693700f7b50ec0,
      0x3dec0c3abbe5dd0, 0x101f77806e37a13, 0x2b83d73c5f45c6e, 0x1599036e5dfca95],
    te_y = [0xaf64b5000e8e0c, 0xab8101bed37e40, 0x1a67449f23bad3f, 0x108956c96a57d87, 0x28e33c6500ca918,
      0xb009f07e9abcf9, 0x2840a514373c00c, 0x1090267cf36865c, 0xe798c62b79d0e8]\<rparr>,
   \<lparr>te_x = [0xc7c4a8ae4d0f28, 0x2957bd59b401bba, 0x1f65066e40233a8, 0x2d574c86dd8de61, 0x2b8351b078decca,
      0x1f5522ace2e59b5, 0x31ab0b2e889e535, 0x14dedea7a38bf98, 0x5945c60f95e75c],
    te_y = [0xa27d347867d79c, 0x182c5607206602f, 0x19ab976b8c517f4, 0x21986e47b65fb0b, 0x1d9c1d15ffcd044,
      0x253276e5cc29e89, 0x2c5a3b8a2cf259f, 0xc7ba39e12e1d77, 0x4062526073e51]\<rparr>,
   \<lparr>te_x = [0x2e04e5cf1631bba, 0x1b077c55bd14937, 0x3f30e4c3099040e, 0x10dadaafb1c1980, 0xf6b94f6edb649a,
      0x1adf82d4d53d427, 0x1e6dd27fecf4693, 0x1432a9e9c41fae8, 0x22889edac56894],
    te_y = [0x12916ed05596f2, 0x76b2c08f2e2e4, 0x13ece7d4abe1e39, 0x102a7240c4c9407, 0x1c6d146d0b28150,
      0x13b8625a76f34fc, 0x1226fb6fa1d5b17, 0x261126ba8586a4, 0x154754ceedfb8a8]\<rparr>,
   \<lparr>te_x = [0x24e27b04270b2f0, 0xd3922fd35d35ed, 0x3e8b0c2722ba84b, 0x2767fe6dc72c61a, 0x334fd6bc4f54a58,
      0x104bd276621f937, 0x389d16b7c669fd7, 0x381d1002366eddf, 0x1cfafb9426bc902],
    te_y = [0xa4f2d1662935ca, 0x1f1c0e65f7311b3, 0x29e5353c79f8284, 0x2254857c3d30227, 0x80911b9d9ed8d9,
      0x3789ea8d673c22f, 0x1e320d4b03540e6, 0x64ed4bd358fbda, 0xe6a0217fd694ef]\<rparr>,
   \<lparr>te_x = [0x37de62774214780, 0x19a05c81d167aad, 0x39b7e9c7fb01ca0, 0x3075b52df1fde15, 0xa66caa39e55548,
      0x2141693d15d5864, 0x864ebf8141b039, 0x274fe972835f132, 0x53bf8af9509e12],
    te_y = [0x9b29d885285092, 0xc76aa3bb5797ef, 0x290ef618aab982f, 0x3d34989bb4670cd, 0x307ed8e090eee14,
      0x1cdb410108a55c2, 0x27d01d1977920e8, 0x2dced1fb897ffb7, 0x1b93c921c3abc7a]\<rparr>,
   \<lparr>te_x = [0x36a07cca08b2b14, 0x1e37aefc5d31fc2, 0x3828c40cb2a4aa9, 0x1ca42b720e0a472, 0x28c1edde695c782,
      0x3ef4880236a2ca, 0x2db94e741ceb2f9, 0x152397e272794c8, 0x7d18266085b73c],
    te_y = [0x1ebf82a2defd012, 0x32c2516854dfbda, 0x35353ef0811d01e, 0x29ecaf537a8f155, 0x27bf969c859c882,
      0x2c96b46c0287e5c, 0x136005063adf5e0, 0x3f861307fcc1bc9, 0x1178e515bec4112]\<rparr>,
   \<lparr>te_x = [0x314787fefe3d3d5, 0x1dbd967625c89e4, 0x3ed1e0b6acf529e, 0x80717a3764571d, 0x15f5667af9c2b7b,
      0xd5dbbd1e200e3c, 0x154af38c766ff, 0xed4e7c188f2001, 0x9647d3c44bde88],
    te_y = [0x2075638de1b21a4, 0xe67055c420704c, 0x206775c03599bb6, 0x1feb79833d4c8b9, 0xefc190595c7fde,
      0x35ece5806c65510, 0x2fa73e7e70ac8cd, 0x1d912a96a0f5a9, 0x4234f8cfac6308]\<rparr>,
   \<lparr>te_x = [0x231e71a286492ad, 0xf791197e1ab13b, 0xd4da713cb408f, 0x3a6a1adc413a25c, 0x32572c1617ad0f5,
      0x173072676698b93, 0x162e0c77d223ef2, 0x2c817b7fda584ee, 0x8e818d28f381d8],
    te_y = [0x21231cf8cdf1f60, 0x103cad9c5dd83dc, 0x2f8ce045a4038b6, 0x3700dc1a27ef9c9, 0x372ea0dcb422285,
      0x2021988dc65afe3, 0x26fe48a16f7855c, 0x2fd1353867f1f0c, 0x13efdbc856e8f68]\<rparr>,
   \<lparr>te_x = [0x234d04fe6a3ace5, 0x2d80fa258647077, 0x7f75ed0f40db, 0x2f256c966d6d370, 0x22615f02015e0e6,
      0xc7a8fe37ef2e99, 0x3ff824b2ec5433d, 0xccb90ac2c39040, 0x11119315060c480],
    te_y = [0x197ea28045452f1, 0x19e33dc7cfdcee6, 0x3ddc41e9328e80b, 0x1bb9abc708d294a, 0x1b44215e7b7f265,
      0x2900a2f10e016e, 0x2476e23aa734f2f, 0x33df8f1c91e508, 0x1f16dc2e8b068c6]\<rparr>,
   \<lparr>te_x = [0xdfae6ffffc0de5, 0x6053ead297c92f, 0x3658ea2aa8dda80, 0x3d7693c11046404, 0x334100611f3b1ca,
      0x1b833e23c92e736, 0x55c8248c324ed9, 0xb8a52dfa8cd08c, 0x1d36e835b648909],
    te_y = [0x2b77ae707372f27, 0x26d3ea0eeb8669f, 0x1ae165429ebb477, 0x19bf00fbcfe85d7, 0x16991c7c4942ec2,
      0x1894f4f0397f1aa, 0x34e738a0f61e4f5, 0x3a465e847fd6379, 0x260524cd4624d]\<rparr>,
   \<lparr>te_x = [0x1b5d0ca01342e08, 0x3b53c2dd27c2bd1, 0x2d96529d804509, 0x36db600d673ad54, 0x34c3848005eb087,
      0x1d6a1e13aa99aa1, 0x34317ee972c7a0c, 0x3efd2305a7885a1, 0x14f81c556e0e5c9],
    te_y = [0x2b0b12be120674d, 0x3c26e4867c02b09, 0x332dd658caa6c6b, 0x2be0a4b66787879, 0x125fdbf80c771c5,
      0x199b0df57604d4a, 0xdf680e61bd7983, 0x260e36b251a874, 0x9f58dcf684c39f]\<rparr>,
   \<lparr>te_x = [0x1691027b7dc837, 0x65d52d43ac7105, 0x92ad7e6741b2d7, 0x76f20928e013d0, 0x2c8e20bcf1d0a7f,
      0x286076c15c2c815, 0x3b508a6732e3b9d, 0x1249e2018db829, 0x4511af502cc9f7],
    te_y = [0x3820d94c56f4ffa, 0x8168b13c303e82, 0x3d4ea1a0606a1c6, 0x199e6cc5bee67cc, 0x2e4f240fc1bab64,
      0xb5f710c16a8214, 0x23c07322539b789, 0x198cc0d95fc481b, 0x5928405280cedb]\<rparr>]"

definition p521_table_1 :: "sp_table_entry_521 list" where
  "p521_table_1 = [
   \<lparr>te_x = [0xd087114397760c, 0x82dd8727f341a4, 0x7fa987e24f7b90, 0x281488cd6831ffb, 0x1ae21ca100e33b8,
      0x2c0c8881cf6fabf, 0x145da6458c060a3, 0x18bbe6e71cee3b8, 0xaa31c661e527ff],
    te_y = [0x3518eb081430b5e, 0x3e73a943b835a6b, 0x30b5aa6ebe8bb32, 0x3ca7f875a243b36, 0x31a59cc9a1f15f7,
      0x22aca98f3975a3c, 0x7ce54f4d679940, 0x1ddba16c73bd0d, 0x1768ff423c0286d]\<rparr>,
   \<lparr>te_x = [0x164104c33dcec23, 0x3586f3741d4661, 0x2f514c4f309abaf, 0x3d779221c5521b6, 0x1d3539ba3f01bc8,
      0x28efa3b3775aebc, 0x1d865fbb7e665d3, 0x12683e4676b0f2d, 0x173fe203da3f121],
    te_y = [0x3ae9a178d4a3d1, 0x173d62194c5b601, 0x26c041176463a4d, 0x23fe12be913abc0, 0x3ffea422d316c63,
      0x188ad84d44bc8e5, 0x27068d691eaa046, 0x2ccf12215ba8e5f, 0x1b542d1b2e3f4a1]\<rparr>,
   \<lparr>te_x = [0x11b2d5e1f487402, 0x5b99eabc7757d, 0x31f56da9c20ae36, 0x187b3916ff47acf, 0x3027a9e1825b7d3,
      0x210459250b6c18c, 0x773d0bf228777e, 0x297c3d7f3831116, 0x1fb2b3151d2dd7],
    te_y = [0x2773e8fbaa096a, 0x1c9baf824ea1e04, 0xd072c7f1781152, 0x342ad7729d9714f, 0x187ef2d4a38d3df,
      0x1fac470aed29f61, 0x2da22f5c9c2013b, 0x3b2b578d4f0d02d, 0x39846d50a5a325]\<rparr>,
   \<lparr>te_x = [0x2da77361677df58, 0x2f559c72d435b1d, 0x7d70a080ff2364, 0xa6194c90c0110f, 0x2c35101e7a0a854,
      0x231735da0800b74, 0x2cf13fbebc61434, 0x23703fc5646bb29, 0xfb91c7c2e698bf],
    te_y = [0x27c5cad12de14d5, 0x12317d95872089a, 0x24307cdbb3dabc4, 0x471da0475e7e37, 0x2754620499c58f0,
      0x269d39247a2601b, 0x3e37c3e52ad0a2c, 0x31cb480d1a172ca, 0xec7a8632450a0b]\<rparr>,
   \<lparr>te_x = [0x3818c218a86786e, 0xdfdd084df8b20c, 0x10d1a7e6eb20ed5, 0x1c17371200d765a, 0x24f7bd759790ec,
      0x387c3c511a458b2, 0x1915ca09e7ef9d4, 0x89bf4c304a2f3a, 0x2d810145f66c71],
    te_y = [0x12749f5b71d87e5, 0xec505ec0b3b68c, 0x2d2ee0baff1625f, 0x2a7f2b9989c0915, 0x337bd985f97f7b3,
      0x3e9b430435bafe3, 0x32f13720aa81b97, 0x376c6ca7c680487, 0x3de326a2f85cc0]\<rparr>,
   \<lparr>te_x = [0x2f3398b38c2ee78, 0xf44069d682fb89, 0x1706565a7f8e40c, 0x38c10067974d68c, 0x2b8174b6ed12985,
      0x3e0294a8878a990, 0x18d80e25a15ee8a, 0x3aa6974783f9a14, 0x848cbbc13804f6],
    te_y = [0x2828690dfd45169, 0x1f8261674fa341d, 0x811cdb8bfc238d, 0x1e858b3d9208dd6, 0x3b4d15b8c849954,
      0x18126699252eace, 0x21cfed822cbc57c, 0x1662eb10c893aa2, 0xd94356346957c6]\<rparr>,
   \<lparr>te_x = [0x306925368271323, 0x2782a12734135ca, 0x1fbf2b31cc7d24d, 0x13d5e8f8d86ab8d, 0x20294e85644f64b,
      0xf3b52b852411a1, 0x2cda47ddc82ee74, 0x3e5a32e4a9a95f8, 0x13f989c42efbfc1],
    te_y = [0x2d98bdfb8651600, 0x18d0d1e8f3ebbaf, 0x254335b1a2268c3, 0x3775609541e4e84, 0x3852eb1e9558da7,
      0xa57d516945cec8, 0x6d101df5ae5852, 0x3e18b951b8bbd99, 0x1faf7e16a2c5d89]\<rparr>,
   \<lparr>te_x = [0x1746c8ec7ec136d, 0x7609f3444d46c3, 0x3ad3f187a116f8e, 0x23c4dba1195d928, 0x850983c22f1b96,
      0x39c5c967506a8a5, 0x3c149c2123ecc4b, 0x2e0b77372ad49d8, 0x16da7f50b181022],
    te_y = [0x19e532d0ca5e258, 0x22b45e5ed8a9efe, 0x242ec77fddefa14, 0x335d3e6db123428, 0x7fd122d458518b,
      0x2d42cb5f14ecc2e, 0x1aae9bb8cd193f, 0x1b824685a6bbaf0, 0x1c57e49b10a1de2]\<rparr>,
   \<lparr>te_x = [0xabe67521210716, 0xa5a8c1f809000b, 0x11d8c83795b81a, 0xd3767be9aa52bf, 0x3677d686f68f203,
      0x3d7389d56f8be7a, 0x357c5c6a13f277b, 0x12e33df648906e5, 0x13270c3d2f4c74f],
    te_y = [0x1c8609c8d209aa4, 0x104e8b6cad50dbe, 0x2d1a2992345d46f, 0x3ae521f0d3e5adc, 0x2b440a375186f2a,
      0x3694d6393e9c85d, 0x25b3103a4209367, 0x182e3c47ab78ffc, 0x1a99a570153505d]\<rparr>,
   \<lparr>te_x = [0x21513936e7495bb, 0xbf4a12421e746b, 0x2b0b29fd76fcebd, 0x26f1839c872708c, 0x3517a09e2a1a0d4,
      0x362eb7e27d60ae0, 0x148bb4ac37809e9, 0x3121d2a937a782b, 0x27fd041312cb6c],
    te_y = [0x5502eeead4fb6d, 0x3097b42980b2fb0, 0x2841bd7f4a07760, 0xc953b7385162e9, 0x10397614cc28b60,
      0x207bb64ee75078e, 0x2d4b0b4221b71d1, 0x3906740438f08cc, 0x96dfe58a27dab0]\<rparr>,
   \<lparr>te_x = [0xd6fcd67debd24e, 0x3f29826b8ac1d53, 0x22ef217c26cbe3, 0x382e58838fe9f63, 0x2c7f9f87dd42d03,
      0x25cbffb98d2fc85, 0xd3e7722b1ec538, 0x14dfa0ea55f0758, 0x162edfe5f860f6a],
    te_y = [0xa05400f0ea20b8, 0xab1f875e5a4010, 0x25c90edb0cac287, 0xc2d8a4e69ddd96, 0x2af2cb7089df5b9,
      0xbfaf04bde299db, 0x190ad3030732bf5, 0x38d04e999037ae8, 0xd536eae15f93e7]\<rparr>,
   \<lparr>te_x = [0x6119f6a1c88f3c, 0x397fb0bb1a5129b, 0x2c605742ff2a924, 0x7b76c8b1f1322a, 0xfa5d25bb60adde,
      0x3045f7825ca24e3, 0x2929c1fa5ac4f7e, 0x257d507cd6add20, 0x180d1c4e8f90afd],
    te_y = [0x3c4e73da7cd8358, 0x18695fca872480b, 0x3130ad94d288393, 0x198ada9e38bdbcb, 0x379c262cde37e24,
      0x6d65ee42eaffe2, 0xd4e646cae01ef6, 0x3e1167078cfc298, 0xe52a42280dd01]\<rparr>,
   \<lparr>te_x = [0x2d640a40f013755, 0x3739dfee0e03a5c, 0xe797eb64b310b6, 0x2e4f2968d89e27, 0x358bdffc98e704b,
      0x8c30dc8630d83f, 0x3385d153b1f323b, 0xefdf5ace422169, 0x4a071130f556b9],
    te_y = [0x1a2096bfeef3f88, 0x2ea1a6e0ace514a, 0x184a872664a722e, 0x286163fe509ff88, 0x17490c9daa0dc0b,
      0x56233a0cde67ad, 0x32cee21d356f628, 0x2bba5f766f1fe9e, 0xd21e61a4e8a3cf]\<rparr>,
   \<lparr>te_x = [0x5db629e9068656, 0x2f5c327fb7937fb, 0x15bdfcd45546623, 0x3498a469d071e2b, 0x2761e688ef7981d,
      0x16e49cbceb14f64, 0x146fec6a96892a5, 0xbd59085f9ee019, 0x15e793c03cbab9e],
    te_y = [0xfd95436eff39be, 0x2bc1fb6ffd3da02, 0x3abdb02416165a1, 0x3f751e600a60f51, 0x60b2e6fb37c5d2,
      0x3a36e662761b65e, 0x28b9bbe3e3284ec, 0x62ce7c127ad761, 0x18e3b3e8a789dad]\<rparr>,
   \<lparr>te_x = [0x3026c56e51e61f0, 0x2f2a8cc1fc9d5d5, 0x26ebb1aeaf41ddd, 0x1f38b5fd6ea4a80, 0x2bc5ead91a33e93,
      0x391a01f47df3007, 0x1951990ab665d2, 0x101270a913d554d, 0xaa099c1ca67966],
    te_y = [0x161a9098f97e387, 0x145de1178775a6d, 0x112b7ff1d6abf60, 0x293426a72247fe9, 0x1d2282e2b42da55,
      0x1d0616b57969f1c, 0xbaeffdfa5a203e, 0x285866c4da77a8, 0x1a3a5eef9141ecc]\<rparr>,
   \<lparr>te_x = [0x2f20d0a7a573b81, 0x3072a1986533bca, 0x2d8d0b711c347ea, 0x1b2e826750bbc34, 0x5067a8ca6aea01,
      0x284d47be998274a, 0x1c26346a52c6007, 0xcf36ae16062c4, 0x121f17fa45dbb1c],
    te_y = [0x3b8b87afc3279d6, 0x39daaf0807c7867, 0x2a83806c21dde30, 0xaf18fe093c0abd, 0x246bd1a53eafd7e,
      0x84e4591ec1d389, 0x32d9bfcd6f4931a, 0x273c6acb3f4e705, 0x10a62f3eb4b4db5]\<rparr>,
   \<lparr>te_x = [0x2de36e0689a1b, 0x3327f5f72bf9cb9, 0x2d7e255d0bfb9dc, 0x3b92b681367937a, 0x2bfd2e774d7ee87,
      0x1c2cae6d6a140e7, 0x103bba282c66577, 0x141c69eb2a09ae8, 0x11aac7028bac7cd],
    te_y = [0x261d39c680c8f04, 0x271332d22ced78b, 0x9bd95744f3c2f0, 0x2d2ab32d64c4c58, 0x25adfb2096d72e4,
      0x3f4fb33f6dc1832, 0x352a73c67d9e431, 0x215f0521e89bf85, 0x1e33d95366364d0]\<rparr>,
   \<lparr>te_x = [0x264506b4cec9e7f, 0x1592d0c2aae63f9, 0x101f173fa284a44, 0x1f85725d1c9786d, 0x82dec033e7b7bd,
      0x298edd8b5b319ea, 0xe2fcd1fe2e9340, 0x39d48e821386cfe, 0xfdccce4da89ae6],
    te_y = [0x397f8eec12fd820, 0x3e24aa5b691ccc1, 0x241d55997bf4325, 0x2b00add4f3d65f4, 0x1f677ceba3aef35,
      0x6eeb1b229cfe57, 0x1278b05b2892b7d, 0x117da41d4560f31, 0x1c2f5ed53fa47f]\<rparr>,
   \<lparr>te_x = [0x114165eab40b79c, 0x1bbb6096d226a0e, 0x2b7d8a6c107fbfb, 0x22e3807ca2f684d, 0x1a4d79907d431db,
      0x11c79a161397437, 0x376ff869a91472a, 0x47f56341a5a660, 0x6ce369b74c463],
    te_y = [0x773d11add1452, 0x3a7257b63a68a9b, 0xe32ca15a40c2e4, 0xdabd8bc63fa3fe, 0x2eec9484b3fcb7d,
      0x2c81016cb28cdbb, 0x2d8352a4d6e7a93, 0xf9db64340c655, 0xe5dd375603d9ca]\<rparr>,
   \<lparr>te_x = [0x5f297d8b481bf7, 0xa8f90a84ce0f33, 0x128cdc40b96c06a, 0x17c462768f27851, 0x16cd57fa79a2bf3,
      0xd5f4caee2b6e62, 0x176fadc1a4935c9, 0xf78547ec96030b, 0x1ba98721eb424f2],
    te_y = [0x2daaf52a4b397, 0x17d330342d39523, 0xdb37b7e79cdc3c, 0x3b2cce5c2d8a6f9, 0x92808c7ff34336,
      0x8a236c7b4f72df, 0x2ed59aec290eff0, 0x3e97ca91e7547a5, 0x929d7ed87076d8]\<rparr>,
   \<lparr>te_x = [0xedaf0be660043c, 0x28b32c05b81d376, 0x28e7e2cc3b3d84a, 0xc1709a7f12748d, 0x13de33e3647b501,
      0x2272941340653b8, 0xdb11ddb3361b97, 0x24bc2335460ce61, 0xc6d5b801ecc8ec],
    te_y = [0x3f91c1547ab9887, 0x2178a9ad6ac044c, 0xe5a133fc8182f2, 0x1d0e361a4b26dcd, 0x43282e815c435a,
      0x31ef36a8f24ad1f, 0x158c86191231f59, 0xf328eb90970d34, 0x117f568febc5a2]\<rparr>]"

definition p521_table_2 :: "sp_table_entry_521 list" where
  "p521_table_2 = [
   \<lparr>te_x = [0xcbd9d5bf5caa87, 0x3f183da37632763, 0xdbbc7d4dede17b, 0x11609c2d6fd8fad, 0x1cc098fe7bf6e59,
      0x175ee3d621c4de9, 0x25a533ca5eb6870, 0x29b12df7bbb92c, 0xef8e045c324a70],
    te_y = [0x20c1c9270cf52bc, 0xfd8ea43318a605, 0x21cbf3028fb4bf, 0x35d48efbfc57ffd, 0x38b9ce1050a8102,
      0x19886c7bfccc268, 0xa78078e9da4d00, 0x2184a5dd7e27f30, 0xeb590448650017]\<rparr>,
   \<lparr>te_x = [0x26664fdebbd33ec, 0x269983396b55e62, 0x2c0550fb56ed0cf, 0x2b4756aa9bbb341, 0x3948a7f07b4ca5f,
      0x3f870468db6bb96, 0x12544bd2e37887e, 0x363a907d86b1247, 0xbe49df70712bff],
    te_y = [0xe2f1f565acdb56, 0x4f21179796f798, 0x1354e17a0412f2f, 0x33f6724efbee5ff, 0x325a957e48a2867,
      0x28618d7e72a745a, 0x26ae711f55c19b4, 0x150766ce1a3d634, 0xac4480414c94]\<rparr>,
   \<lparr>te_x = [0x1bcf89d4ad38db, 0x3ce04f5c51445b, 0x2759cb70243a118, 0x18c58e9c5b16d30, 0x213648bdb5dd64d,
      0x137a65a6ef4bbfa, 0x1e8c45a47187f9e, 0x3429d9779a44b8b, 0x48e075f29c4bda],
    te_y = [0x3354745e4dd88d, 0x20d8e2015debf00, 0x1c01227288f7182, 0x2479a26277b92cd, 0x1cd3f71bad008fd,
      0x3936878908508c5, 0x262bb15cb023ff3, 0x13f95f9ae70d6d5, 0x72143f41657fb0]\<rparr>,
   \<lparr>te_x = [0x6b046c26f40f2c, 0x3491b1b35f0c76c, 0x22701953a9b7bd5, 0x2e23c010dbeaa95, 0x21d0660d5ac929,
      0x2f5b6f9864dce4b, 0x3c43f9d279ed159, 0x34094ddf1356b45, 0x179800eda50b8fc],
    te_y = [0x8ddc0b36132f31, 0x3d3c04ab79ce8ee, 0x1ec3203de2b96f8, 0x508c6d94cce216, 0xa14093caedb038,
      0x30af8be6b423348, 0x2bc09fb9f86d445, 0x11e37f4f654cbdb, 0x13d757b58991aef]\<rparr>,
   \<lparr>te_x = [0x19ad100580f894b, 0x9222b649791bdf, 0x3e142e5a6865b61, 0x14c5fe6a04d1525, 0x2f8a33541c86e10,
      0x299b55e362aa082, 0x358e23a67906607, 0x2ad711f7d82b97d, 0x107cadd4c90a7f8],
    te_y = [0x16b044f6764ad0e, 0x3f8384940626ccd, 0xa625f14db6af69, 0x27c6f5df550b7ab, 0x25cfa895ce9f277,
      0x1bc66b0e5e6447c, 0x2f44b1d4e94cedb, 0x9fd70d4cd05c06, 0x3bcac43fff50c7]\<rparr>,
   \<lparr>te_x = [0x342951c83c1d4cf, 0x1e4742c9170d3c5, 0xef69c2dcc71e03, 0xa4a8c41d9faa3e, 0x3b12948bd2ea57a,
      0x3fabae0c956d1ae, 0x1abf592adc1e090, 0x29a26834b463112, 0x199e8c9ff5c4a8],
    te_y = [0x1f7b9cdeb28171a, 0x1e100f55da61ef2, 0x33bf22ff824cefd, 0x24efcccf31562d3, 0x2b01ceb72ee09b3,
      0x80a6737affe0e8, 0x2bf7515bb34c452, 0x173ce8f0fa2819b, 0x1a65dee07bb49d0]\<rparr>,
   \<lparr>te_x = [0x1a958d6b114257b, 0x2bf507525d78c02, 0x39b53aae7b11729, 0x24fb746b20c1ca1, 0x11eb679750791b0,
      0x99d6d2b3fbf1f4, 0x29517f0e54bd37e, 0x268e2698b5fa35, 0x6b96f805d82021],
    te_y = [0x15d51757b5f9f4, 0x2790d9016d13452, 0x1de0e4870160e5c, 0x2547bdacfe0d10b, 0x1f7497faf953fef,
      0x5bbc2de467933d, 0x12eeed24e3cc4d0, 0x5c0ff172aa1c94, 0x1b6f1ba4029a3bd]\<rparr>,
   \<lparr>te_x = [0x2668435529252ac, 0x189b01d39ec360a, 0xcc1e0be86ab3da, 0x3dd3b57714d5420, 0xcd41fd0534a53,
      0x19d22472a7bfc50, 0x13b5ad0e7c945c5, 0x26237a92e257b1, 0x1ffefc67bef1515],
    te_y = [0x8dc109306033fd, 0x21e5e7cda1d7666, 0x2f26e3c335c51b2, 0x3f44938a75934e6, 0xc41dbdfca47259,
      0x33036255758315c, 0x28ff8606224b610, 0x21c1e81075397ba, 0x1fd2920e15cae4d]\<rparr>,
   \<lparr>te_x = [0x2d15f0ccd67da85, 0x22dbd16b1528559, 0x2021f1ac71c3ae9, 0x991d564890bc17, 0x166e856dc1feb22,
      0x3ed2e91ca8bc558, 0x1d920b65eb14566, 0x32e6cd1a22f4a8a, 0x61943ce86ef9d4],
    te_y = [0x696218aac91174, 0x1467b1077648d2d, 0x2df29f0763a485b, 0x9dc4b22ccedfbe, 0x3b053863098517f,
      0x3fcf8f9280b9fb0, 0x9648646bc45bb1, 0x2e4fd1aba25bca5, 0x1462aeb1649ebd2]\<rparr>,
   \<lparr>te_x = [0x334f41fe8e4d3c3, 0x361ffd6edfa76c7, 0x2c0ad910b579c80, 0x186e1cd26bbc085, 0x2b0a6cc02a24b7,
      0x3cb4655c152f14a, 0x3e6cdd3b4c7029a, 0x28d0392e438ab6, 0xcf8e774f812606],
    te_y = [0x7f9dbc2e229950, 0x7e11b67e0adc0f, 0x19a3f10c05f3ab1, 0x13c3c608328adeb, 0xccbfb332203ead,
      0x199c1bc5476f2f2, 0x59d5e3bd9caf00, 0x3993968e6f89418, 0x14c984387c8dcaf]\<rparr>,
   \<lparr>te_x = [0x8a757f8e011531, 0x16c5cb0f7355f1c, 0x9fdc2d99e297f4, 0x7ee4ed9056a3ab, 0xa5488e869d4ee8,
      0x2edeadc2960ced5, 0x3df3a9ddd561c30, 0xccaed6f68e12ce, 0x124f909f8e01ddf],
    te_y = [0x1b8aa84ab41e782, 0x8049a14776e1f1, 0x2a7d99482bd21de, 0x3afd2d904efd26e, 0x37cd1e22405963d,
      0x2eb583bbb4da7ee, 0x2e30eddcf495dd1, 0x84b7ad1d5a4e24, 0x10baaf11bd8af0a]\<rparr>,
   \<lparr>te_x = [0x146017416ec64e2, 0x52b3df5f1baf9c, 0x4a3668b7176bfd, 0x3cdd06c107078d4, 0x22d3b67b072e3f3,
      0x15f64a35947e952, 0x8f419623edca3e, 0x2ebbca6dd3a2dcb, 0x383d99cb47327a],
    te_y = [0x8dd0b3da342a3f, 0x918b7bd2a5520, 0x242eeab5a860120, 0x141b952db46c71, 0x310c6cf1a5e1e2a,
      0x3e40f3426e85c43, 0x166f5334fc3660, 0x10d4e5a7800044d, 0xfafaa26074155c]\<rparr>,
   \<lparr>te_x = [0x5cd0e6712de285, 0x3fe2c21a7d77172, 0x2b92df4ed389cd2, 0xc156e67210dca8, 0x2e07a003363524d,
      0x1b82524d1bfbd68, 0x28952b0a2c82dad, 0x1fadacd899885ca, 0x2c9afcb188af21],
    te_y = [0x3b9d4769a64c5b5, 0x23577913133f874, 0x18ef11c6dbffa0d, 0x23d07052bb55821, 0x235efe854ce1d97,
      0x11d15d74947e79c, 0x289c03f9d0c14c0, 0x2770034b20e3af6, 0x16fa25f040b36cc]\<rparr>,
   \<lparr>te_x = [0x23d9dea9cad682d, 0x32c6cd18da4e46c, 0x19885c0f24d787a, 0x31f50620f3a7d70, 0x353555e46dff62f,
      0x2473681746aca77, 0x633ed569b1cb28, 0x150a36c536f114b, 0x1941acbb86c2a34],
    te_y = [0x6a70c824db8127, 0x1958fd06df3d6f6, 0x1abeb908d9b484a, 0x18e2670982a3613, 0x344436957aaeaae,
      0x2a4b2344fb5aca, 0xbcb973bc94f99d, 0x1597e5e3cb8af41, 0x7456a388ef716a]\<rparr>,
   \<lparr>te_x = [0x82dfe496fc1f77, 0x310d7c4d1eb5a98, 0x14dc25ebe457b04, 0x1a6dbdd92abd09a, 0x104d83da164a170,
      0x3208cc380e1cf5, 0x239b3eb0b9db52e, 0x536a621acd3b50, 0x16a76587f2a5988],
    te_y = [0x118f8e8ebc71a5d, 0x10690a150148cda, 0x9ccc182cbcc491, 0x34f82415e9f58fc, 0x1e239d8eb4afe59,
      0x365252cb98cf6c3, 0x4fd61bac8582df, 0x3bf662e4569051c, 0x10ee0866a9dfcea]\<rparr>,
   \<lparr>te_x = [0x350c47052e07a4d, 0x34e2e3975d1740a, 0x47ce1af12267f6, 0x12ce71417ded053, 0x186f739be03e4b4,
      0x1f0bc6f167cf5e5, 0x23fad4ca19bca7e, 0x22bec7147007b01, 0x80da3937a57f42],
    te_y = [0x1d8ca9d102369fa, 0x26ffedc1b038d7a, 0x19a796b55d80e00, 0x37ab0342530b828, 0x1787c187ada0e42,
      0x33e812d9b06f8b1, 0x1773406d4ae2cc9, 0x18a156c33a981d9, 0xd82d525245c7c9]\<rparr>,
   \<lparr>te_x = [0x1cb238cae93de69, 0xf20cceff6ba6db, 0x1f4de8b79836496, 0x112ba2fe2b8cf20, 0x24c3ebacce13a22,
      0x15696b582f1b9e1, 0x3e9459a837a53c5, 0x1bf361d7634d6f1, 0x1fb3705534f9f4],
    te_y = [0xe9270c7fb974a1, 0x123e83a7b49205e, 0x2c3d64bffbd4234, 0x10f5e7d2cf05059, 0x13b9f32a0a05aa4,
      0x32408d7b615693c, 0x352b484bebcf8da, 0x27459612661e36, 0x183aa4d59f1e48d]\<rparr>,
   \<lparr>te_x = [0x2585d75dbffad9f, 0x3d85d3d06763f3b, 0x3f59e6c6934564d, 0x3460f566c31bdce, 0x3929c8950b80793,
      0x2658aeadaebd3f0, 0x291273bd445a952, 0x1e16d4ad86517aa, 0x1be4fccdfff3d1c],
    te_y = [0x1c384d97cb2857f, 0x20c1601adeafd01, 0x1d1743ace6b24cf, 0x28af10f5adbd4a3, 0x314e564b92c7b8f,
      0xae7c06a3c38a2f, 0x1383e61b69bc73d, 0x251aeae2fad00f7, 0xaeaccea0c59791]\<rparr>,
   \<lparr>te_x = [0x268baee0163c2de, 0x342cafac9da2926, 0x3124ffdae767c42, 0x3542ab2a50d5a1b, 0x2e01091cf926da5,
      0xc92fb35a670d33, 0x13a0a93d2545405, 0x332746dad63c506, 0x14ff144925ed611],
    te_y = [0x361a60cc1ed9259, 0xdea8cbc7569fdf, 0x313d07aef4311be, 0x12539be9ee80e11, 0x28bd3730c99f33d,
      0x2e555f710e4a305, 0x22bee573cf8ccf5, 0x158402f1b518346, 0x14527cd194383b1]\<rparr>,
   \<lparr>te_x = [0x3e651353427af4e, 0x302ec4c4364df52, 0x276acaa671c32e6, 0x3534ea70ddaf63a, 0x3471709aa9d7b3f,
      0x60147004933a18, 0x28ee1c225ce41d0, 0x13b215224a13fe7, 0x13d22d829c9535c],
    te_y = [0x301ed9da1b15e02, 0x24aeb0c07961a1a, 0x21835764135b1d0, 0x2ddbdc56692fe9e, 0x118090d0dc0ee59,
      0x2014865a45c6814, 0x1279045c1531bbb, 0x1da15d024c3f082, 0x8963b48cc7633]\<rparr>,
   \<lparr>te_x = [0x3e8b620f4aaaed5, 0x2379f7fa1c7ba03, 0x30ffebfcb4b106, 0x39f0e88556cac88, 0x2769b805d4dfbe,
      0x34e7abc29e89aa3, 0x15f032377de7706, 0x2dcc7c6a4911fd8, 0x12aa1b81a8442d9],
    te_y = [0x19e67d0b1152e8f, 0x1cf65e4ad78530a, 0x1073f1cb57a22e7, 0x272fc76928b8360, 0x2c22b449a03af0a,
      0x34b5f4745a6c583, 0x98ee4b82c1ac8d, 0x3a855d422b29aff, 0x15054992440e3cb]\<rparr>]"

definition p521_table_3 :: "sp_table_entry_521 list" where
  "p521_table_3 = [
   \<lparr>te_x = [0x4a0aa13a4602, 0x31c68f434b1839c, 0x2463a6d79bc5505, 0xeb553677d293f8, 0x373d3c7b8e878eb,
      0x113b3e95fb32a41, 0x24d1795b3bb2782, 0xabc228c3d87ec4, 0x1155b7e50014f63],
    te_y = [0x2c42ecc9ef0021a, 0x5ff5fe15b27518, 0x3b82e6478bc580, 0x1a45416936c4389, 0x4cd7eea5af0746,
      0x14abb42b66ec287, 0x9f09de8ba39a2d, 0x3e9901d1d126ad5, 0x13fd5c8f7bd9e57]\<rparr>,
   \<lparr>te_x = [0x3d8ce7b5a53c22b, 0xcff35f2ad11a86, 0x24e248acb394787, 0x7a8e31e43f1132, 0x315c34237a9888b,
      0x2dc0818cdabedba, 0x3508fab913b8a8f, 0x1ccacd2ddf31645, 0x50a931d7a7f9e4],
    te_y = [0x10a429056d21d18, 0x198c1d56d04286a, 0xa8b894a6b05826, 0x18e0a33dd72d1a1, 0x2127702a38a1ade,
      0x37dedc253ecbe16, 0xd1db683ff7d05a, 0x3357074fd6a4a9a, 0xf5243ce1dbc093]\<rparr>,
   \<lparr>te_x = [0x3c183c3d37d7891, 0x140527f6197b2a3, 0x3d68f21844117b, 0x95681fd9603db9, 0x3ad303202af51ec,
      0x19dbbd63f969b2, 0xe000c95de68f31, 0x14951d4238c7f29, 0x159783e5a957773],
    te_y = [0x1db5712e537ad9, 0x1c44b4d6fa73def, 0x2b48d57f9bcb5e8, 0x242a2cf2f1eed48, 0x1e5ecdb5c1eff78,
      0xe1f9fb53cc1b84, 0x321e3d30da83923, 0x299f13647f3d1c8, 0x9f8487bb62e412]\<rparr>,
   \<lparr>te_x = [0x2f5f80f8cb8e08e, 0x34b104925bfb5a1, 0x374360b7dcdf7cf, 0x37d5fd3417c0186, 0x2458061f24dbaff,
      0x37a65312c664f0a, 0x7e0626c6ca8d09, 0x172f3bdc349349d, 0xffd4e5d4e3b999],
    te_y = [0x171e245c6f40077, 0xb81141c8f9418c, 0x2f7e6a6bfd88159, 0x345b6767380d721, 0x3eb5770cba0959,
      0x10358f74b9fe3fa, 0x1e441958eb0881c, 0x7d3558ccef6bae, 0x34fb0397df3afd]\<rparr>,
   \<lparr>te_x = [0x384e05eb358815c, 0x32cb5390421f65e, 0x188907f05d7a3ab, 0x355ea7520721e9d, 0x42d64cbd350778,
      0x33ca27fa74d33fe, 0x2b2c6e0859cd5ac, 0x2d8a0dcb564774, 0x6bc06d482e18b4],
    te_y = [0x10695a0da4ed375, 0x2bd620a636abab4, 0x21b4f4b7092c51b, 0x2b9e8cd6cd6c0a2, 0x20567efd88ab87d,
      0xc830dd29cd64d8, 0x158b307a49fc103, 0x33a6dcdeb2b128d, 0x1ed30696a34c0f]\<rparr>,
   \<lparr>te_x = [0x1550ab0bd3902fe, 0x292d2e1aa74ecf6, 0x20a9975cac379bb, 0xc4ccd81770e967, 0x21afc2c58045e87,
      0x3be72fc7cb16630, 0x383c4281ff8d6fe, 0xc7560afb57426f, 0x1579d1d9d5b5281],
    te_y = [0x7da3055519258e, 0x14e7e409f78aa1a, 0x1747d6a230d673f, 0x8d7d745a11a7ea, 0x35f7e41f5ab1aeb,
      0x1a9ffacd6effa51, 0x2d5187bd546abb1, 0x14f74abef53a385, 0x1607437be13bcc9]\<rparr>,
   \<lparr>te_x = [0x1f165a9ee9755a3, 0x35686ae0b26ac55, 0x245aab6b97e60c8, 0x2c2ac1789c59687, 0x26db0830f3004cd,
      0x16b2f7ae7830ed4, 0x1e8498aae1ec1a7, 0x318b904f51211d8, 0x1e9589e09bbb1b9],
    te_y = [0x35120819c72258d, 0x335cd170564f519, 0x3a7b91c11fdb61d, 0x2fe215e4239b189, 0x2530bc68ed1d3e9,
      0x2d6d13fe6ab01bf, 0x10edd5125c16bb6, 0x36d70e2182edb6e, 0x1aa96fe8b08fbbe]\<rparr>,
   \<lparr>te_x = [0x23a5dd8f257c0f8, 0x13724b74e84364c, 0x39cebbb8ce03488, 0x14e91c98aa40fcd, 0x352e06c6d6217ad,
      0xc90a336877c805, 0x30c62cf5b723e0c, 0x20b307974e224b0, 0x1fdd9a90f1f477f],
    te_y = [0x30d27ba1763ab59, 0x1f64f9c8de0fa60, 0x264945968aacf2, 0xc85c0357560556, 0x303146d9f63251a,
      0x196fc3cb3daef9c, 0x2323fb6cdcf455e, 0x11d1202a803398c, 0x1496e49e62cd96a]\<rparr>,
   \<lparr>te_x = [0x2ff0b7e40574c09, 0x3c990cffa03a5af, 0x1352eb237d91b76, 0x2ddfb70c4082cef, 0x3424a36dc3c0c62,
      0x31b10d7be624e52, 0x8d076e9ea64c27, 0x2792cb7f087138e, 0x139cc3852f6a4e6],
    te_y = [0x238a3ffbb096b91, 0xb2795cf6350f94, 0x1b118c577558ee7, 0x34b711f52d3045b, 0x142e1955f54ec89,
      0x10dd1d70801b74d, 0x2e9041004aed6a7, 0xcb2707770ca8af, 0x1fb597417a2ed93]\<rparr>,
   \<lparr>te_x = [0xf1981859bae66, 0x23a6c61175f06cf, 0x1c03452a3c1eab4, 0x33fe040ce71b3a, 0x15f98d6fe2384a0,
      0x2283756f35fb784, 0x3e1c06f7a00e3d3, 0x2987d5b765228f1, 0xd09d21a7d18e53],
    te_y = [0x1cfdbaf880eb3fb, 0x3f4a5d7a0fdf27e, 0x3d6fa28a74b464c, 0x17f7ec4f80d86e9, 0x3232a6128b8200d,
      0x6a361b80ef23d2, 0x2d6ea7d1fb92c28, 0x6309a19d7eb9c1, 0x11d9b08608aefab]\<rparr>,
   \<lparr>te_x = [0x3cf6146bbd2f539, 0x14bf01db89ae885, 0x1d18d4be4a67960, 0x8a7cfce6a0da08, 0x1433f873a8f8234,
      0x5bd15a1a2e11ae, 0x1477507a1d3f367, 0x3889b7d80f8a0bf, 0x377cb02c56975],
    te_y = [0x275add38c01dd59, 0x4ea7ae7068debc, 0x11044dfc54039c2, 0x181fb83619a42b, 0x1661fc40e202ee2,
      0x2c0bd5a25bb7a5, 0x2f1a246b4d7398d, 0x1c49732e5a64796, 0x9fd5c281afc13f]\<rparr>,
   \<lparr>te_x = [0x58c54bd7073a5a, 0x206972187ab1f72, 0xa39e720201a87c, 0x23903800f3947e1, 0x358f199de952a9f,
      0x15b300addaf712a, 0x3162f31cf12322d, 0x27846d98d398e0f, 0x16984c017ee8f96],
    te_y = [0x1f433625c89f1fa, 0xa98c2da5ec1e3c, 0x1e5c4b05b7f44a0, 0x1453fb79330ccc4, 0x4b025aa4a7ccae,
      0x2136deb4349ba1d, 0x31c1fe7d5b77bbf, 0x33480e7bc6aa3d5, 0x18d65eba928418c]\<rparr>,
   \<lparr>te_x = [0x37866ab8abb2537, 0x3132ed96cc25be8, 0x27ed2a428ad314a, 0x18843a7865a09fe, 0x89801b4e95d19f,
      0x2ba2e08cc7ae5e8, 0x1c9642aae77a62a, 0x22e125a4f58a97d, 0xadff5bfe973e36],
    te_y = [0x3efae21492b0dee, 0xfa7ba580b0b3a8, 0x3c996f3b99e5214, 0x2c3a4ee3d6484d9, 0x1064c13edd78b2,
      0x15ce39ea355070e, 0x33b1a4e6b970daf, 0x823ebdbb305a0d, 0x180dbfa3f4f74ae]\<rparr>,
   \<lparr>te_x = [0x24621a907a6aa0, 0x1b2da101e1e7dac, 0xb688168a934ef5, 0x34e6e6a4121130e, 0x82541f2070d638,
      0x3f222d41a5a32a8, 0x2357840c5970531, 0x2533d55937b56bd, 0x97e7e898c7c4d4],
    te_y = [0x1dc98d96b6ebb2f, 0x285ff1eaa7849b8, 0xfdbfa2a2c68292, 0x32cb86146ed83c, 0x181ca4cfe9c6327,
      0x46567562636c99, 0xb8d1994082638b, 0xc253913cc23a95, 0xd696399eb844e6]\<rparr>,
   \<lparr>te_x = [0x200f362b83769ee, 0x102b0fbf132cfe, 0x388957abd68772d, 0x965029c4a30e4c, 0x3ec242a31622644,
      0x168695464271323, 0x1c2172d1e48f1e6, 0x1ff51a2f5c3c412, 0x41c8692d2b709b],
    te_y = [0x2388aa1df816784, 0x23229406f9d7393, 0x1ffb02a678124a5, 0x383b69c87826d27, 0x1e67a65eca73299,
      0x15b1c6da282f47d, 0x5aa30d81e91e88, 0x2efc8debb8bd300, 0x73d94007500595]\<rparr>,
   \<lparr>te_x = [0x112ac4a010c0ef3, 0x152f613a06c682a, 0x23dc4f3535090e6, 0x3ced1f4626a3c15, 0x2f238c09c10dc41,
      0x106b3d9c48bb741, 0x358520224c16afc, 0x2b9bc732e4cd20d, 0x1271a4b5f292275],
    te_y = [0x12fd4733ce688b5, 0x19b4df72a71a2de, 0x326e541711d0145, 0x3b8f30d06a3f3a4, 0x2122c11fe3ba14,
      0x174de6d5ae2ad33, 0x122f91c0fa763bf, 0x25696578b4abbc5, 0xacd4e21b3d31cf]\<rparr>,
   \<lparr>te_x = [0x13a7791d8e061a, 0x1f9c2b32128c10, 0x266eb2f636a627, 0x85dec97275ab02, 0x170ff35cfe917ea,
      0x106262fb76de2ef, 0xae4455008db2b0, 0x3439c3d6293f338, 0x43ed0923972257],
    te_y = [0xad77b3e2e129e6, 0x312a1c3c6f935cb, 0xdff20056333fb8, 0x304a9a4550ebb94, 0x2b8fe2640bc2658,
      0x259682be5770332, 0x11d99e694eb5841, 0x3721df4eea94fb7, 0x832df13b208a1e]\<rparr>,
   \<lparr>te_x = [0x2ad2247d181c3f2, 0x34d6fbccdec8fff, 0x3cba74890672915, 0x23ff69e8e876d33, 0x179275686e4f70d,
      0x3fc7de7889ad906, 0x1fa4e8e80408636, 0x27d8263a12ce73d, 0xda57aa0be9d8a0],
    te_y = [0xcecf54efcea66, 0x3cabb2bf1dbebb5, 0x1a48c91585a898d, 0x29c4fc02a958fc6, 0x344b5cb9fb111bd,
      0x149883459a1ebea, 0xb35abc6d5fb126, 0x3134abe54fc6eeb, 0xed99709370ff94]\<rparr>,
   \<lparr>te_x = [0x9f56e068b54c89, 0x3305f739cdf08ab, 0x283fab089b5308e, 0xa550fef46c823b, 0x844dd706b0f3a1,
      0x3b0b90346c8133e, 0x19914a80975c89d, 0x137dc22c046ba4e, 0x176b4ba1707467],
    te_y = [0x1216ea98fdfc175, 0x1ff18df83d6c31c, 0x285fceb33a3477b, 0x13c088faade2340, 0x351c6d922b67981,
      0x304fd47641e1c82, 0x2d60b55859d5a49, 0x32acb9a7e142feb, 0x5c2499a8446d0c]\<rparr>,
   \<lparr>te_x = [0x1d581fb73e7bcf1, 0x37987374f05ef90, 0x17ecfa199fd916d, 0x1cf05676e5f18a6, 0x2641328301a7588,
      0x250aa4613b5de25, 0x2ba4bb9672ce892, 0x375ffcfb9161e05, 0x1234fb7a148ce54],
    te_y = [0x5d80aff009be8c, 0x24e35de37c6e87c, 0x2e84312de62062e, 0x1fd81c312e69f88, 0x3a1b5da3748d29e,
      0x11c5d14d73670fa, 0x2b9e671e51bd2fa, 0x31a8650262ac15a, 0x49bb584abc49f7]\<rparr>,
   \<lparr>te_x = [0x1f255301ea470f7, 0x2fe023a49538c2a, 0x29ea71a0038da01, 0x385644f2a1c2615, 0x3b8281fdb0d2b2e,
      0x63970aab85c012, 0x2943abdb5c6eb01, 0x3540695ab19307e, 0x531aaf64771a92],
    te_y = [0x279ef4906345730, 0x2aa93a11bcdf0a5, 0x26b01a7c3aab946, 0x28a059b7d3be05c, 0x24e04dc3ecb808d,
      0x1bb066d3a7ecff0, 0x16d13e9e0b61db7, 0x14e11b9fd997bbb, 0xe570ed8c0786a7]\<rparr>]"

definition p521_table_4 :: "sp_table_entry_521 list" where
  "p521_table_4 = [
   \<lparr>te_x = [0x2456e58108ce13f, 0x3f163438e5e04d9, 0x284bea3949e9b5b, 0x2f1d6bd99f412da, 0xa891566bea9b66,
      0x3d856569f2d35b7, 0x2e25201b3cecf0b, 0x297e90c4b1cf400, 0x14b81d768986135],
    te_y = [0x47bc25841078ec, 0x2a72585e7115350, 0x6094851f8fc75a, 0xfb38d0247da858, 0x88e54102998d4e,
      0x36a2b17a6a7d9c1, 0x2c230cbf280f885, 0x2ddd71932b2823f, 0x2b0ac864b05094]\<rparr>,
   \<lparr>te_x = [0x3606e398f5daf7f, 0x2152244249d419a, 0x1c5c08c58a72483, 0x343243cfb8e8895, 0x8795f022f362f,
      0x1097d6ab258cebd, 0x6dbfb71710bd10, 0x2ef370805f817b0, 0x1c8d9c7dc82c1b8],
    te_y = [0x1b41fdf18b8bed9, 0x20cc238e88c495f, 0x1de77291c4bbe94, 0xad05122abef3e4, 0x3c44da4629b0b97,
      0x6fd428a577f18c, 0x1e313190b9c4630, 0x2ab6462d9bdde1a, 0xf5a8a4e2fa121b]\<rparr>,
   \<lparr>te_x = [0xa55109ca0251ea, 0x3bb62c9e9b26c23, 0xbeb5620f528f2a, 0x3a2b84ff15a406a, 0x85993c079a8421,
      0x346ac35c4d27c71, 0x35d90929e083590, 0x299be5b8a4a6eba, 0xce96c2f1f8f599],
    te_y = [0xbc4b5112be8bd7, 0x11a83cf19fa66f9, 0x7d34d3a3864f48, 0x49cfd0e6076273, 0x26dce5671f6471,
      0xac25af0caf0c9, 0x682b7f7134ebff, 0x22d655813c02c34, 0x11cfd23d7eae3ce]\<rparr>,
   \<lparr>te_x = [0x9646cca27689a6, 0x1f710d55905cafe, 0x248eb57cbfccd6a, 0x3ed6c6b7f94c2f6, 0x3711d8bf49b11ff,
      0x1c39696e7cb6036, 0x118a1de879fdf0b, 0x354125d4d060daf, 0x114c8c526bd8cbf],
    te_y = [0x1fe725bef7388bd, 0xf6f7f9ffeba9f5, 0x1b897e6de2acf1c, 0x26a7afc6fede0e5, 0x36978514681a72c,
      0x1499c2bd94995c1, 0x157d483925ecd9f, 0x32c090def374a0f, 0x1ceb5d732a7c80e]\<rparr>,
   \<lparr>te_x = [0x3f9fccecfd376d7, 0x3aacfa99ac21369, 0xd08d5b91bd86b4, 0x1fa2a8c1361ab24, 0x37f866a4faa3d5b,
      0x2e04eb849fcf50a, 0xa920695d19fa8b, 0x73774e1e635f8d, 0x73df7c0a69a32c],
    te_y = [0x22c01bb38315b16, 0x29f226786323e6f, 0x3fb408b6b8531da, 0x231a024aa068f50, 0x2836faad4b159e4,
      0x11a65cc1dfa4f67, 0x17e476d4ed6361a, 0x7e995a72cfd98a, 0x185b69d8183e781]\<rparr>,
   \<lparr>te_x = [0xf27eb3ab9cb764, 0x3bf0863af075b46, 0xddb0479aa79bbb, 0x9027950bd51dd8, 0x1bc699b96b4d16d,
      0x3236322b8d70e34, 0x23a45d13b2ae258, 0x1301215e705499e, 0xd9773b73576c55],
    te_y = [0x220a4730218c299, 0x38a6ce67de28ce5, 0x2009484f414f69b, 0xde68b293511a12, 0x268db7ab3b2c749,
      0xd70d5fc2701dcf, 0x3de3f26181f0599, 0x1b82024c4c0f62d, 0x60f3effcd0e0fb]\<rparr>,
   \<lparr>te_x = [0x23c14beb25d6530, 0x56ce66a5f503dc, 0x3c4bfbf7f6225e0, 0x27052d3c3c48270, 0x23f7e8ecf83d8c5,
      0x3ac7bc3f3c00bf7, 0x1f0c6035d353c91, 0x3b8d0e5310a9480, 0x1b5787128ab7be8],
    te_y = [0x937d3ab70110cd, 0x293bf11de446d68, 0x2f5bc53a4c19e0f, 0x3cce35427cb1ab2, 0x3e54ac1c6bd3010,
      0x13ca8efcfb8aa0a, 0x9c7b931ea67c3e, 0xd8bde93299bbc2, 0xb05bda2c4f34a2]\<rparr>,
   \<lparr>te_x = [0x24a071d1f575cd, 0x24ec06948dc60ad, 0x36029a2c9d40156, 0x22e72452980504c, 0x1095b31c150c434,
      0xbf5258a40915cf, 0x10b2776f975fd22, 0x24dee85c1221b88, 0x1f6ac29b8136dba],
    te_y = [0x1edef55775da491, 0x14fe78adaab6082, 0x21061bb40d5b259, 0x4535449f619a5a, 0x181ead062cfc453,
      0x3cedc48cbc8772a, 0x6f20d3f3e4f07a, 0x3d6ec4b341ae259, 0x15e241363696910]\<rparr>,
   \<lparr>te_x = [0x844fd03ecfc44e, 0x17cb21410ecf543, 0x27dbc9bd059a409, 0x3ebd96fb37e697f, 0x1a67961cd239328,
      0x2ed77f778c4091c, 0x3dc5baea9e39bfb, 0x30de6008adb404c, 0x141bed7aa9b5f12],
    te_y = [0x16f0059fd94d941, 0x3a7c01f53fc0602, 0x3598779f05e3fc6, 0x2cc0120f26798eb, 0x372a198704c40f0,
      0x192929c4134bfbb, 0x367f1edb773b5b4, 0x2f4a802d9dc3d24, 0x1694f7e03012a9f]\<rparr>,
   \<lparr>te_x = [0x1f5dd738a9095fd, 0x1e80874f3a15e83, 0x396be5edc767c4b, 0x3fc6028202242a9, 0x366f10aab56497e,
      0x261e5d9ae615b87, 0x280601312988243, 0x2a4a585d233dcee, 0x1207d9076c555d],
    te_y = [0x3049a011c44394d, 0x97bdc339279142, 0x9f0b1694265f5f, 0x3f8426ccfe078e8, 0x3a30932e42c5bd9,
      0x1b3e2bc81fca90f, 0x366722736abfcac, 0x9ac2b7dfe813cc, 0xe02f1e92fbfa9d]\<rparr>,
   \<lparr>te_x = [0x124e4a663be4d4a, 0x15efb59bcf32465, 0x13fa7e7a7ccd1fa, 0x1aa2317474f75f2, 0x23f251f1e70e8cf,
      0xd5533d6c95e65e, 0x1a71090a5ec58ee, 0x227a9a349a35c19, 0x4c7c23d4d20850],
    te_y = [0x3ae575bbd52d132, 0x236a9ce32073158, 0x2e51e4e63b990fb, 0x19ac8e74e1c25a9, 0xa5d49fed51d6b3,
      0xea301ebb57e21d, 0x286ae2025091d94, 0x3bd68403e116b91, 0x1c21af59d747eb4]\<rparr>,
   \<lparr>te_x = [0x37bc01edd441308, 0xd251218c222417, 0xa74759611cd0dc, 0x185308f3998abce, 0x1f8bafed211a712,
      0x324f81e4dfcc5ed, 0xc52cf4efbb9ff4, 0x360aa203c3b763b, 0x28480cdd2cddc9],
    te_y = [0xf1ca0dc3f807ac, 0x393f0af41c1527a, 0xa1491f8bb6c6a3, 0x3f4f5b7eb36b4f4, 0x15fb46ffbe3ee1c,
      0x37573ef3b91ac6e, 0x38e8b75207b3ac7, 0x3446b56030366c6, 0x8452c669f4c7bd]\<rparr>,
   \<lparr>te_x = [0x2b4747c0ace6d5, 0x32d92ef9ca1eb69, 0x89989bc2614d5a, 0xdbfc171c7bccc1, 0x2d35ac450817fe8,
      0x1d6a70f1dcbac91, 0xd6fd7f5fc2163, 0x25ccfedbe786b2f, 0x9a7643c315720e],
    te_y = [0x32216b4f3845ccf, 0x1d3a0242f016f52, 0xc74d60490379c1, 0x2858d632019e954, 0x1aa677b6dbd7220,
      0x1b8b823a0e3e710, 0x2f6da537332c196, 0x18c36c0ca1d7925, 0xc52b274cf9c30]\<rparr>,
   \<lparr>te_x = [0x2c2e7828ea58beb, 0x13074d997e921b, 0x1fad20b40ff02b4, 0x2d8a74f9a9551b5, 0x166c81991fb5df7,
      0x38b3f8fbc61a11b, 0x10d16bbe690bde6, 0x23a4a5ebae68050, 0xcb59d81548bacc],
    te_y = [0x105d3adbaf66a23, 0xdce1d037ec2076, 0x35de4b00f432c33, 0x3a01f4e80f9b554, 0x3066bca80e17fe8,
      0x2b7fe954a5513fd, 0x226ea460c2b96cb, 0x13ff27c06365116, 0x11ed543816724a3]\<rparr>,
   \<lparr>te_x = [0x2a873fbbd7f8a61, 0x2335c6ef9602ed8, 0x1eb3667f69805e1, 0x1855c74f703f572, 0x1783f9bc8ab8d4f,
      0x10e62c538b91485, 0x1811b536c3774b2, 0x38f0cb6d28d8dd3, 0x1389f7f12972deb],
    te_y = [0x397f21c798fefb2, 0x1bf2d441eea9cae, 0x3760fadbb5689c7, 0x39f4cfa9b144bef, 0x3236134a51a648b,
      0x261624ed04a8a64, 0x26ada44a3d81698, 0x2d15d8512563cf9, 0x140b4dfc79b7687]\<rparr>,
   \<lparr>te_x = [0x3b145707abe5bb9, 0x32ff63947606fa0, 0x1f49c9827affae0, 0x1229a1ed550836b, 0x3eeb41733c3a725,
      0xe09f18c20098fe, 0x23b70e7014fdc3d, 0x1c5a1f4063e12d7, 0x151d483e00fbcf],
    te_y = [0x14e3c7c6b578aa3, 0x33a6d74c10f6b85, 0x1e9bb6008101511, 0x4bd016b1bd57e2, 0x2008ac7b4ec311,
      0x1714be99f99a936, 0xac2eb73c00d392, 0x1d14fb86e66622b, 0x8fdfa31d9560b5]\<rparr>,
   \<lparr>te_x = [0x74a0e0251cf8d8, 0x225274107caf4b3, 0xa4933ebce52d4d, 0x145716f36b82dcd, 0x16200b93e1ac5f,
      0x1e4dcdbb4fb37f3, 0x2e69402506a266a, 0x3e4d56168722fa9, 0xe081cdd539190],
    te_y = [0x15f995653e28412, 0x149bcb6c9c592c1, 0x25eb1df3adc70d1, 0x32b74d77b773558, 0x1a838ffe2d2c453,
      0x30339627b510a12, 0x19b609ad20c1375, 0x3ec1cb57eea06f6, 0x1ad5be41dcc622e]\<rparr>,
   \<lparr>te_x = [0x23af6678f850756, 0xdeab94bced65d5, 0xa53796842f586d, 0x27fdd0fe65c434e, 0x193f1a8bacdaaf9,
      0x27df364be9d579, 0x10650b1af04e154, 0x3f6698efe682b5b, 0xe67b1cead55ab],
    te_y = [0x260a8e0b5f43178, 0x3504b6730d6cccd, 0x3a63880f680856b, 0x198b988b1c4f5ef, 0x36ff824457f372d,
      0x36c13946b5edef9, 0x115c8d0f2bde808, 0xbcb879e07f92f, 0x1941f475bfbb8e5]\<rparr>,
   \<lparr>te_x = [0x1482bf9d63543ec, 0x32d9f2845fbcf9e, 0x638160ccc63985, 0x355ca6f707a2b14, 0x1a22686df556cbe,
      0x207addf358bb65f, 0x3a2ed9b124cb5fc, 0x16e5935ed3d99cb, 0x17260b29aa77833],
    te_y = [0x1bfc7b6a43df7c6, 0x32b08ef081c1b08, 0x37bc345d958085a, 0x34a8ca822f3adbc, 0x2d1953c5e9d8f20,
      0x13da0343c22493d, 0x29912c7d25d7c6c, 0x19131939a88dcb7, 0xebda1c06c452ce]\<rparr>,
   \<lparr>te_x = [0x2677c5c411dd110, 0x1e1ea8b26471289, 0x2a41a45666d60d6, 0x2ab057e7c554ef9, 0x30e0cc7b273e716,
      0x29892ac2a4ee18f, 0x39c260a40571172, 0x3c4c3979d95b868, 0x46af8d78b52ef6],
    te_y = [0x16214b170f38dff, 0x1760a048e84415e, 0x4d4957ed8123e3, 0x2e83698058411a9, 0x154f84413618fa9,
      0x27aa56af9f374a9, 0x2a30b4f1c2563e1, 0x26aa7111678532c, 0x183c748add661ff]\<rparr>,
   \<lparr>te_x = [0x2981f399de58caf, 0x2e03f61d4fa990c, 0x1f242d11948605b, 0x180fbac02b20fe, 0x17c73d79cf490cf,
      0x935186d00dfc94, 0x2420cf844209fd7, 0x23e89ac0fdb489c, 0x1526f4bd29eb343],
    te_y = [0x24d034ac389e51c, 0x2957a5b6df663a5, 0x17dee913c583acd, 0x1effac0d102caba, 0x9d461e29079307,
      0x10efe2faa85b8de, 0x3d8c3fb0a675330, 0x977275d2690ae9, 0xec7c41e6d66bb9]\<rparr>]"

definition p521_table_5 :: "sp_table_entry_521 list" where
  "p521_table_5 = [
   \<lparr>te_x = [0x29b345dc5da8398, 0x1a107eece310c0b, 0x5627c3bb47abc6, 0xadce34b37738eb, 0x3687311858fbeb1,
      0x2f53d3d352f0ab5, 0xe1b0e9521db1cb, 0x2f8f8a9a432bbf9, 0x194375215eb7bfe],
    te_y = [0xb234f12edfd661, 0x26613bb54b07d13, 0x3260d8f8f98c014, 0x391ef8e1640cb49, 0x195e8b672fe76e4,
      0xac03a0950d61cf, 0x161eb8916c397ff, 0x6ef8ee6fdc16eb, 0x7ee90182ae13]\<rparr>,
   \<lparr>te_x = [0x36fea9e93fbcb5c, 0x2f960e7ea14a6f4, 0x3125fd611ba0382, 0x1ff362898dc2c90, 0x23d8d4704a59ae3,
      0x13106de6ade3183, 0x249cc51bac243d4, 0x1fa7f10007fabb6, 0xf6988ea44a83dc],
    te_y = [0x190caa4f077f79e, 0x5d807678964353, 0x3bb3d21b4b77f4d, 0x18240df86d8477a, 0x2135becf0031b3f,
      0xa40f76bc44fb60, 0x319296f6c01379f, 0x2b614daf79f2a9b, 0x6c57d3b6849dbb]\<rparr>,
   \<lparr>te_x = [0x23fee389abfccb0, 0x38a892e59db98e5, 0xf0284ba6d276c6, 0x2e919614f47e1da, 0x11b8ab9b6c38ba3,
      0x1e81ccc5b8eacdb, 0x233f3201fc97424, 0x379ebf7505c6094, 0x214dacfa81ac61],
    te_y = [0x25a9f37eaa3198c, 0x228d17f22e6754d, 0x312ad4f5ecbccbe, 0x180308dd452909f, 0x228a27b05e841ff,
      0xa167fcd767a316, 0xbde372d3774446, 0x16fe0701183ffaa, 0x1810a0e49a129cf]\<rparr>,
   \<lparr>te_x = [0x8203af45843c3e, 0x78c0eaafaeb9da, 0x8f3624df62b460, 0x22b48796aa0e5ec, 0x39a242b0e568734,
      0xa9db1b4b3c4b1c, 0x2751a2c848ed013, 0xb416dcaa870bd4, 0xf3b63296c392c0],
    te_y = [0x24b42adc6f3d1f0, 0x37314cbd4cae533, 0x333583443d9c2f0, 0x3bb7237672d5e04, 0x1ee87192fb50118,
      0x15d06708c0e7869, 0x396b0c9977267d5, 0x30d6918bbe930c3, 0x1f7454fb7963cd3]\<rparr>,
   \<lparr>te_x = [0xf281949d153926, 0xa32460ad5d5204, 0x3b30509e94c942e, 0xab7a75ad5d2d08, 0x18b3ca314c5acc5,
      0x18f56f16a9d1b0e, 0xcc9890f4ea307c, 0x2465109554e8b87, 0x8e271198bff76d],
    te_y = [0x3900e463c8e672b, 0x19d734fcb7f09f1, 0x11f7af2163c9703, 0x21eb3aaac1c125, 0x17e8d236974d699,
      0x4f7045520bc86a, 0x36cd13dcfbc1dc8, 0x2bfc8338af20013, 0x3f2a54662c82bf]\<rparr>,
   \<lparr>te_x = [0x1cf41e61588a8bc, 0x23343884314b2c3, 0x22bd758e7a456f4, 0x12d22e6e55cce15, 0x3a6b89b9e1600d5,
      0x263320bd1877e02, 0x177147f7fd4f170, 0x317e459fc073452, 0x48b13385116116],
    te_y = [0x2b763335d2617f0, 0x295dc9bb2e181b7, 0x32d1b91fce93f9, 0x22db212e65ea4f0, 0x1823ca5bef7a438,
      0x168cbdaeffa0089, 0xb5c586f19c0283, 0x7767c9b356b78f, 0x1e77f5ddc776d0c]\<rparr>,
   \<lparr>te_x = [0x9feec86ee764c9, 0x3b20dac1f20b30f, 0x32e6a005b142d1b, 0x28ca7a297a9afc6, 0x23ffe241c70ef51,
      0xa59b0a145f4a63, 0x3acc76bb389e287, 0x86d4e8b6a2a4b1, 0x4a902c9126732a],
    te_y = [0x2c51b9c8f7ce110, 0xcea1ebac0dbc65, 0x10980a6a59e2dcc, 0x29f9e36d40209a5, 0xc95bb030ceaf26,
      0x1310bd0a0bcf0e1, 0x2c4a0a6dd6e9f72, 0xbbf1da3778a5c2, 0x16f4aedce4b03d2]\<rparr>,
   \<lparr>te_x = [0x37f032aeded03c0, 0x128149623775341, 0x3c4f9a85be0f268, 0x1ff82e6daedb426, 0x2f2fb5887bdda0c,
      0x30f339f865a271f, 0xd2ae5f8a96960e, 0x866ac10f6755da, 0x6829c8081bdb21],
    te_y = [0x3f872fade59f006, 0x27ff1b2e5fbd69a, 0x15db58ae7ef8c2b, 0x287d332a87cdc64, 0x289c27cc4c2e23c,
      0x21af73186be3183, 0x18de43eee5d7e7c, 0x3c22e4896d1fe6f, 0xb453e7f4634b24]\<rparr>,
   \<lparr>te_x = [0xc496d0e3048bda, 0x19d2650f0f79395, 0x9f74c2d509ee2b, 0x7950f14226b081, 0x3105a365bb01f69,
      0x22c5c1273665828, 0x2c946734d93ffe7, 0x29d540a7e66cfe0, 0x91785c5ea20161],
    te_y = [0x55f978953dbdb6, 0x3a13665fb2867ed, 0x102936d4d75aea9, 0x2a30549dbe91cef, 0x347c76356a9c17c,
      0xe5ce34a73d984c, 0x3336094a68360b0, 0x1fc874f90c2a1a5, 0x1b40ae532dee2b2]\<rparr>,
   \<lparr>te_x = [0x110e825164cb8b, 0x26bd3c954a99f5a, 0x2d0e8d185527697, 0x21fed93ab138435, 0x3ac424592cf6c57,
      0x33836042102058e, 0x4c15c5d8fff37f, 0xfb262ca139276a, 0x10ed8055673266],
    te_y = [0x6f403051f3ee9e, 0x38fba6ce2b7c784, 0x3a6ea13d64492e8, 0x1160386aec74f21, 0x10bfd729827b49f,
      0x3f1e8d7f0a0f45e, 0x23ad4f8fe50fa5a, 0x77c9dcf69516b7, 0x1f878bfaae4d9a2]\<rparr>,
   \<lparr>te_x = [0x260d8e8abad5678, 0x29cb3b9803096eb, 0x20b44c288e210af, 0x1db49533e7ee753, 0x959e2ba564447f,
      0x25844cb07ecdaf1, 0x140f19393c44d72, 0x199235ea2207ff0, 0x9127a861288d09],
    te_y = [0x136c0218a9e690c, 0x331487aad3e856d, 0x423b00ee54c85d, 0x96bcea392026bd, 0xb7731d85b37935,
      0x1073ed5787cd8c2, 0x3c4529b5361d781, 0x98d3a907ca7bbf, 0xe8cf5755b19f7d]\<rparr>,
   \<lparr>te_x = [0x1edb80dd212b398, 0x25860754f74dcc0, 0x20478a52fa95d03, 0xca9e0979b43821, 0x1330ece4fad1e64,
      0x1e24dbf80616f1, 0x3f6ea3508f7313b, 0x1ad8077260bf679, 0xe8dbf3a602d555],
    te_y = [0x3763234279e05bc, 0x3d03b3d1114f4f0, 0x1f4d7fa307937f5, 0xd84235f888c431, 0x3c2a98bbc5cffad,
      0x1f51fe03cbc07bc, 0x322e1c30ab1719d, 0x37e51ef27e462a6, 0x1f9f53dc52ae834]\<rparr>,
   \<lparr>te_x = [0x266b49ec183f89b, 0x2d7c097d601b53c, 0x2b594ec3080d3f, 0x100dc73645f4c29, 0x3b7f7e26d4b6b19,
      0x356ded93dd506aa, 0x36c5e55269eb2, 0x99d4386a1705fe, 0x1cea0ff0f22da5f],
    te_y = [0x2bd56a3a8e11f8, 0x190087d7e6ad518, 0x2c5a0ccc92d7298, 0x39948fd942f19d0, 0x3f7fabfb4d64569,
      0xf279b2f2391a06, 0x35ff20b4275947c, 0x2ba88ace54b54e3, 0x1b0818f8e381f04]\<rparr>,
   \<lparr>te_x = [0x3e5bffae50d90f0, 0xec46fd4047370e, 0x2711a691dfac4cb, 0x753a869dcf8432, 0x3e586eeb662ec21,
      0x30bc7f56a5e7ae, 0x3bbfea4df16ab1a, 0x9bdbfa78fdfb15, 0x15e1b05960e5ae5],
    te_y = [0x8e04a58630e62e, 0xc439911f86dc7, 0x2b6143b4447a3d0, 0x145d18b9e8f3c79, 0x2724d92abb8,
      0x114a5b7e0c27a82, 0xed8121d805d70e, 0x351383ce126ccf5, 0x962d6bffbc6834]\<rparr>,
   \<lparr>te_x = [0x13fe58d48e07711, 0x20d92349c28ecb4, 0x92d8cdff04c70f, 0x1e145047c50545e, 0x3e4f8a5515bb65,
      0x104cd8bdb0c7364, 0x206d4d73f871520, 0xc5fcbf8097bbb2, 0xad32a6e417954e],
    te_y = [0x238c63f69d147df, 0x2ec1b9c42fcdedf, 0x2bef28d514deb69, 0x3ee34470f66e537, 0x10385c6044b2307,
      0x1e003a0cecda77e, 0x101c1c68ea2f49e, 0x1e063c0a2c961f5, 0x55970782215cef]\<rparr>,
   \<lparr>te_x = [0xc351db54c1d751, 0x114c06e83e54484, 0x334fbfdc8bed814, 0xe33c8da02a9dfa, 0xe04f2860498d81,
      0x1a96db6a4a30529, 0x1a910396192dba1, 0x10409277aa56d7e, 0x8580dd45780172],
    te_y = [0x10725000e09221c, 0x16c87c877815ba, 0x2fa1e0e6095062e, 0x1edbddd44a51232, 0x1f1f34aca657fb9,
      0x27fc575974a646f, 0x9ec79a66cd5ac4, 0x2baa37075a25f41, 0x67388fca84e72b]\<rparr>,
   \<lparr>te_x = [0x120b49da6ef1dd3, 0x281178ee9b35d99, 0x180af33d5f48391, 0x2cbbc1d1d2a7212, 0x278bfb1eae53cf5,
      0x36a41bea8d6cba6, 0x1f2cf4eca97fd6e, 0x21627c6a4de246e, 0x10d667533693ab2],
    te_y = [0x351049673691faf, 0xf4ea755fb18616, 0x21bb930a8525dc7, 0x7902c16da5f8a4, 0x3413bedca094f57,
      0x3469ae617a5a805, 0x2de8b79e7d4f728, 0x115355450ff68fa, 0xfb859b8444d16e]\<rparr>,
   \<lparr>te_x = [0x22083e7c667aaf, 0x1172e52a4732e9f, 0x19318ca0e94a335, 0x8f93aa831f287a, 0x242f56844c3afff,
      0x354b42e886b10d, 0x1301d4fcc68a8b6, 0x2f3850069616daa, 0xa3547f762c907a],
    te_y = [0x3dd3ed3fbe260ce, 0x1dd4b6037007e98, 0x375d6f1da3e4271, 0x1294987c43b57ea, 0x3d20cd6bb5f1686,
      0x86b195af9ec7d8, 0x3b918e9d638c102, 0xbee0c4dee3d99c, 0x17423eb44384ada]\<rparr>,
   \<lparr>te_x = [0x14e27c42a1fbcf4, 0x34a16d7eb357b86, 0x2bdd915e66074c0, 0x43bc29aa69d70b, 0x1067cf4581e6965,
      0x2fb87ee84f16be8, 0x1279e72be013c17, 0x33d6616901b5b6b, 0x310042951d5142],
    te_y = [0x2735ec1a22bbc45, 0x14e469fd5bd361a, 0x39d0236001de4ee, 0x146a8be3494c16b, 0x187db78aa8b218,
      0x6a2230c38b0db6, 0x3e7d5bcfcc083fa, 0x3408ee476adfef4, 0xf462d85460f4fd]\<rparr>,
   \<lparr>te_x = [0x168ba024972d703, 0x132874e426280fd, 0x2542ae28c855fc4, 0x1816c6d14dba6e3, 0x34c7f7e484fd4f3,
      0x8c208f4b822c1e, 0x9fd13042f3b982, 0x20d6727ff4c4c62, 0x1bb56af0652c6c6],
    te_y = [0x1bf05e206e0f16a, 0x2b0beb5d191297b, 0xa980f92c71afc1, 0x35cdb2002879668, 0x2236178dc13ae37,
      0x2d1bbc417c83bf1, 0x2509e4443a58b82, 0x366c32545f73d10, 0x1667d0bb415640e]\<rparr>,
   \<lparr>te_x = [0x2a30a613d22842d, 0x3803d6cf13b380e, 0xf876df82b798c6, 0x1b5e34823161d93, 0x1e788854ada92d8,
      0x166c2650294b4e4, 0x5fc9a499b26fba, 0x3c4d17704ceb413, 0x1dda5c0926934e3],
    te_y = [0x30dcac2fad6d673, 0x3f7c1403cecff9b, 0x1941631756e96d8, 0x24c2936038fb39c, 0x231d130013990f4,
      0x156058e3cab2a4d, 0x1d5679ee91966c7, 0x7369b7c3d5d39b, 0x111be124868ccd7]\<rparr>]"

definition p521_table_6 :: "sp_table_entry_521 list" where
  "p521_table_6 = [
   \<lparr>te_x = [0x244c726475cc1b4, 0x3f0be4adce5e33d, 0x26d10e3d7eb7915, 0x6bd030e381969f, 0x1e1ad24fcbb44e2,
      0xd581b9662198ae, 0xf93f7270ba4ddc, 0x2935f0e0d28b069, 0x2193d0c9a23362],
    te_y = [0x2cb7b8cf769fd7f, 0x176a5e26884ee78, 0xc566b910fef181, 0x249a4c50e1ed3e, 0x1925b37c02088b3,
      0x1a9903951dedc6f, 0x21c6efa049a9212, 0x15acb4f77c6f7f4, 0x649b5f9d7d232a]\<rparr>,
   \<lparr>te_x = [0x240adf8679a9c35, 0x36638f2dd35e5b5, 0xebb5f8e9dafcda, 0x13ab5281cf1192e, 0x22edde557473861,
      0x1db382e6f61b03b, 0x15fb96773317385, 0x2bab66d74cc9d02, 0x13672f0aeb3ee09],
    te_y = [0x388c76d64e54ba5, 0x39ebc7711d34868, 0x29d1b2a7708163f, 0x27b784902b5fe8f, 0x2c720303a0447b4,
      0x1af4084f67d92d9, 0x203ea5b1c78029e, 0x174ac72bc71c02a, 0x103179180eb3bb8]\<rparr>,
   \<lparr>te_x = [0x1bf4f9faf2ed12f, 0x346793ce03f62ab, 0x3db5a39e81aece1, 0x8589bbdaf0255e, 0x20cf5b28df98333,
      0xe4b350442b97a, 0x67855ab1594502, 0x187199f12621daf, 0x4ace7e5938a3fd],
    te_y = [0x1c5b9ef28c7dea9, 0x3e56e829a9c6116, 0x2578202769cd02, 0x225375a2580d37, 0x3b5dea95a213b0b,
      0x5f2a2240dcc2df, 0x1ba052fe243ed06, 0x25b685b3d345fec, 0x1c0d8691d6b226f]\<rparr>,
   \<lparr>te_x = [0x22edf3fbf8015c2, 0x208db712540b62a, 0x36e0a6a43157e7f, 0x968b412c33a243, 0x1a809dbab318ef3,
      0x299f288673019a3, 0x3ebc49dd26937ad, 0x261123c9f04b20f, 0x2987b3db2f3c9b],
    te_y = [0x3e7aed0fd2e3dc7, 0x3a2f6dd057f554d, 0x2c9a58a45f25498, 0x2e882721743f035, 0x2d579e1ee83d5ba,
      0x140affb4c7b2371, 0x1bef11f4cad0ba, 0x3299710cb9b387d, 0x1913b10afaabbff]\<rparr>,
   \<lparr>te_x = [0x19f7df053053af7, 0x11d96ca2873d2f, 0x38fc7ce90438603, 0x1bab2317775105d, 0x3fb59ec618fbed3,
      0x6c6fb3c9ec4c4e, 0x1973a99d2656ffa, 0x2d654cd384d1651, 0x18c3261888cc362],
    te_y = [0x13a414aa7f6ff8, 0x2bae20feadf1ebd, 0x86b7cc307ba092, 0x948d18403be876, 0x302140c93dc81c1,
      0x184120d64f5349c, 0x1795f3a1ed7e3ce, 0x3505b8ae47b3f7c, 0x191160dc11a369e]\<rparr>,
   \<lparr>te_x = [0x272f46e8b57d7cc, 0x2c3952fc08e1a6, 0x396e05b3a91d314, 0x2a693b09b8221b0, 0x3c50f58e91b9ab3,
      0x1789abc1d0bfaba, 0x1cd9f71592c6085, 0xb22650f351daec, 0x17c3ed97fd4c7f0],
    te_y = [0x3b02503e6d54964, 0x34458b1a8c63014, 0x2cf49cc28c22d9b, 0x1000d4d190063fd, 0x2b4cc0668a45c78,
      0x10b6f80e3a8ccd7, 0x36c3cd7ad727f8f, 0xb5dac55fa447f7, 0x1b3a7f894c9ec99]\<rparr>,
   \<lparr>te_x = [0x1e6e397af09ea77, 0x1d82e5d77097164, 0xc08b94a197b26a, 0x2a2da3398663010, 0x15bd23564041bac,
      0x25deccfe8668345, 0x3bd02986ca5b94d, 0x7e67cc7e1fe397, 0xb8f76c55a6b190],
    te_y = [0x35bf8c33846ec9f, 0x8817277ab29185, 0x1ec0a3108df0f46, 0x20f3ebb64a24b2d, 0x65049fb2879db2,
      0x1bb940c51df7001, 0x2dce4548d24bac9, 0x1a13e9f6dac595a, 0xfc0110cdabab1c]\<rparr>,
   \<lparr>te_x = [0x11b66d84d308bf2, 0x4f27f598e00105, 0x1f92fd383bf9990, 0x210fff23bf1a24b, 0x313ea287a10efd,
      0x2837dd0149f8c5b, 0x2bd2a18ef6e3cd3, 0x3933b2e5b90c3db, 0x18cc1ebecf2a70e],
    te_y = [0xd14ad71a70404c, 0x87743e738a8c20, 0x3cde3aa3e0726ad, 0x458d8e9a42e532, 0x1c6b1e2b40ab596,
      0x1b3bb16f9c2ffd1, 0x3757c01296dd0b6, 0x247a3532ca9d1d1, 0xaa08988ca63d7d]\<rparr>,
   \<lparr>te_x = [0x22dcfcaf8db0396, 0x3a3cded08b69daa, 0x34996485724e8a, 0x311efc524fd94be, 0x2b0247a4ef647c3,
      0x2baf6a3a2d802d1, 0x158df0abf3e4397, 0x2eac8b8748c7e9e, 0xef38e692b1f881],
    te_y = [0x33c168926cf3047, 0x53e51654e61607, 0x1d1c293f20b6dad, 0x1bbd5eaec5ff7a1, 0x1794de382ea543,
      0x2ffb34bc346a3ff, 0x3860429ba508e22, 0xc7e0443c29ff6d, 0x1962ade6f647cde]\<rparr>,
   \<lparr>te_x = [0x196a537fec78898, 0x2779cb783e9dff2, 0x36acd34cb08f0b3, 0x20b69e34d4fdb41, 0x3a0392cc1acd8bb,
      0x160552757fa0134, 0x27c6d9ab7adedee, 0xfcde20e4068301, 0x1915855ffa24ed9],
    te_y = [0x1570e36bf9ebef3, 0x11a977d2cc5dca, 0x1a95a6816b5ce21, 0x204a2343847e6e2, 0x13979159aadf392,
      0x323eaecb5aeaaf9, 0x7af10411afee05, 0x38defc64b0ebf97, 0xf7aa72e81cd7dc]\<rparr>,
   \<lparr>te_x = [0xfa3c0f16c386ee, 0x2c11a7530260e48, 0x1722876a3136b33, 0x248f101b019e783, 0x24debe27d343c0a,
      0x25bc03abbc8838f, 0x29dcff09d7b1e11, 0x34215283d776092, 0x1e253582ec599c1],
    te_y = [0x8ef2625138c7ed, 0x10c651951fe2373, 0x13addd0a9488dec, 0x3ea095faf70adb9, 0x31f08c989eb9f1e,
      0x58dda3160f1ba, 0x20e3df17369114, 0x145398a0bfe2f6f, 0xd526b810059cbd]\<rparr>,
   \<lparr>te_x = [0x49522fa0025949, 0x36223c2ef625149, 0x2f5fe637216fb26, 0x1911ca09fd8cd10, 0x399fc2681d8ec3b,
      0x231dc4364762868, 0x1b27626d232ead6, 0x27e9e396ff8bf94, 0x40f9f4fedfd10],
    te_y = [0x152ea516b4a05e0, 0x3523bbc871e3ac6, 0x26191997dfdbcb0, 0x122d3087f5934d, 0x2be92303a0d11b2,
      0x2317a0269bd5a6d, 0x5d8e2b8f60967, 0x27289c89ad6acda, 0x1bdd6cff180db34]\<rparr>,
   \<lparr>te_x = [0x9f8576943cc612, 0x10c67a0cacc71e9, 0x2297cccadebdc91, 0x10ac18660864897, 0x25b1cc7c4918fb,
      0x191b97c2b32cc21, 0xe3e22751d3347a, 0x23abed2ab964, 0x151821460382c4a],
    te_y = [0x2481dbbf96a461, 0x48ba6d4a8ee90f, 0x58e464db08b51c, 0x1e1b5a82074870a, 0xf533cef7b1014b,
      0x5517df059f4fb5, 0x1b7b9f6cfb32948, 0x30a67a91b4c7112, 0x81cfad76139621]\<rparr>,
   \<lparr>te_x = [0x3796327478a7f0e, 0x60f8b785dc177b, 0x26df572117e8914, 0x26df354b3f4928, 0x3ad83c1603cdb1b,
      0x27be326790ae7e, 0x254ccd6971d2ea7, 0x83f06253f16e3b, 0xfcf757b4e534a5],
    te_y = [0x25518cc86b62347, 0x72749ef0aa4a16, 0x2b052966727fec5, 0xe82b90f9bcbba8, 0x205ca066bbc8a8e,
      0x20ce61b6014d6d7, 0x374cdd91ffcdb18, 0x890cbd296ee8c8, 0x12408763a490d20]\<rparr>,
   \<lparr>te_x = [0x98b9724efac14d, 0x12fe369e6a74f39, 0xdbdd6e07c29b6f, 0x3f5c5dc54e03c7a, 0x271b03263fac30c,
      0x26d157d53247b48, 0x3092bfbf9383351, 0xef65da979e2449, 0x128a97674e1b481],
    te_y = [0x1b63c41583e5924, 0x26bfc63c5c7418a, 0x33cdab227a2861f, 0x36a2846adc0ad16, 0xe8db6971939d5d,
      0x3b042014afed1ec, 0xe1801562379df0, 0x12aeabd69920493, 0x1508d98c43434f9]\<rparr>,
   \<lparr>te_x = [0x2a9fe73cfffc80f, 0x38ba6f50d1cfdb7, 0x3ed3c9d37ba7e23, 0x349e8ff0d5c9fec, 0x38e04a03d733766,
      0x2ef83d0f436d33c, 0x186f4f8ce017522, 0x2c0df61fadc676a, 0x1536d1b50ae2fe6],
    te_y = [0x31f5defda40bab1, 0x1aa2be6caf698cd, 0x1c890d4aca8707d, 0x3fd90ffe2ad7a29, 0x14bf8ec2f4d72f0,
      0x3ae4f88a7130436, 0x2dfd0136b0eaba0, 0x2820af12c3a3c74, 0x1429f252e5a9d34]\<rparr>,
   \<lparr>te_x = [0x2ffd4c17d0e7020, 0x1a6aaad52085a12, 0x1708588f348f9b1, 0x3fe21661aef6f80, 0x115f9c381daebf6,
      0x12a529eecce61fd, 0x2d68497e455f2c0, 0x1e630e690510a83, 0x1541c1ad4a61ef7],
    te_y = [0x247b628072709c4, 0x35a2e204397f9d, 0x874e92e0f63b33, 0x2e7e2faa6eb46f6, 0x8318981a144e4f,
      0x1a31a81f056bf06, 0x200b66e19c5c82b, 0x1ebb216315e88db, 0x119b25511007cb]\<rparr>,
   \<lparr>te_x = [0x21ced27c887027d, 0x3ccd4afeaca184, 0x3c1c19d511e2605, 0x2a5fd31a7d5b8dc, 0x325226bb402d4c3,
      0xf9eb0c39bcd5ab, 0x18fdfb3b9011c38, 0x28d8d0ec308f4cf, 0xba8c390f7af2e],
    te_y = [0x30c3d67e851bac, 0x70e2697d513f31, 0x3c6467fba061899, 0x13a5f2f6fd001ae, 0x17734adadd49d02,
      0x232db4a914e6df7, 0x24b3ad90ba8f9f2, 0x1a4a1ea4860c137, 0x6ab28732efa7b9]\<rparr>,
   \<lparr>te_x = [0x1dab52d22ed5986, 0x3989e9614cf819c, 0x237acf155fe3dee, 0x35eba2c4cba3fb, 0x134a08b94cd6149,
      0x270570c09c1b861, 0x25ad46a85ffd52f, 0x2ef568893cd46, 0x1e644d1b6d554d7],
    te_y = [0x2830686862e4e9c, 0x335db121d8ff925, 0x1679c0839caafe5, 0x3ae360f58b580c2, 0x211bc4ae2c0e4cb,
      0x13f2818a4478953, 0x22704596a0d7c86, 0x104b3d5e17757a6, 0x1be2f4677d0f3e0]\<rparr>,
   \<lparr>te_x = [0x12ddab01a6dc, 0x2f5b06b86b6da53, 0x1aecb9b05079391, 0x2798a84187ceb9f, 0x3a96536b7c2714f,
      0x385d952dc65e3b9, 0x2b3dd4eec11bd05, 0x2fd871c459b83be, 0x1d70f7aa57287ed],
    te_y = [0x2ea6f7d51eb5932, 0x3a82a97e20b2909, 0x20977739f7dc354, 0xaa6f95e4d05d6d, 0x378545eccd33519,
      0x2d90f2766007d08, 0x23abec32b8e2567, 0x19426e504775c8f, 0xee656dea68cf1c]\<rparr>,
   \<lparr>te_x = [0x138e140a0890deb, 0x2f61f6f3ae12f53, 0x3f72ba041decbf7, 0x2a9a082fa547c3, 0x38c486298afeec7,
      0x1c043b11d546428, 0x3879b1ecdba558e, 0x85733b6476e231, 0x14c08de3e4cef5e],
    te_y = [0x1534ed16266da2, 0xc8baded3240267, 0xaef699276889ce, 0x1fc170a1134df7b, 0x31ac519ab652509,
      0x168f321b48edf84, 0xc4575682ebb726, 0x14dcc314c76e58a, 0xbe2e00e8b87380]\<rparr>]"

definition p521_table_7 :: "sp_table_entry_521 list" where
  "p521_table_7 = [
   \<lparr>te_x = [0x7c80057ed32e9, 0x39033df009265ce, 0x2abbabb54830427, 0x1bf3a082fd16141, 0x3b2c43e81564977,
      0x3fbd9922d4d4ca4, 0x3bdca5671e8353c, 0x3f5e49c85f4fe40, 0x1dc40a9c109a813],
    te_y = [0x3eaa6c33db21a38, 0x88b875cfbdf91a, 0x4e7bd1d507fcae, 0x19161e9deac7fda, 0x20c64a4d6f5bac6,
      0x29f0de29631d3d8, 0x2e4094ca837d96, 0x3853fd0f7d4c4f9, 0x13f8a9a4347fb49]\<rparr>,
   \<lparr>te_x = [0x1ab4edf992f8923, 0x2a9781bf4827ce1, 0x1b871b1340eee24, 0x7e4782ed009efa, 0x2f3d4c62c2957d1,
      0x1ffdeabd096beb4, 0x14cbe92d231286c, 0xd4a65904acac04, 0x19f6706a231c3e2],
    te_y = [0x2b3bbd2225c02af, 0x2f0598fe8fa6341, 0x2b75b84f482e53e, 0x84aff1577e9b7c, 0x512a73da912b45,
      0x354faa90c2f6f50, 0x27fd53ac0f43d93, 0x92d3f0d63f9030, 0xa32cb183be9194]\<rparr>,
   \<lparr>te_x = [0x39b0c2d3fa6a746, 0x29e488756892a38, 0x91478cdf2b5e84, 0x1f4c199b2cdc296, 0x2f6d71d068a8806,
      0x1974612c269c27, 0x1c944850007a3e0, 0x24eb1c11abd2ee3, 0x1fd2b6a3129c654],
    te_y = [0x3d5d5bde45f2771, 0xac22bd0cbb6574, 0xfbf232a6bb854, 0x10fa2fb32c8bb35, 0x2bf8e247f0fcb61,
      0x368c0e6f3b3144e, 0x2a0df955d56f78, 0x3f8aa455f18655b, 0x18ca6d35cbf3031]\<rparr>,
   \<lparr>te_x = [0x1800b1bbe0c4923, 0x2b9d01a40a41ef7, 0x337f957bd0c7046, 0x2765957e2e08e62, 0x2500f4150aa8e1a,
      0xb9ebbb34a49fe, 0x29692e826a9c6d2, 0x15df2d33d62ce7c, 0x11f3093868cbf41],
    te_y = [0x1cb5e7a333ed442, 0x3238be41bfbdeeb, 0x1233d98f228ae5, 0x369fff84970b66c, 0x1ba2318354632f2,
      0xb4b14496521dcc, 0x17d9c4a0caae5b1, 0x3dafc03996261, 0x172c5d1008654f2]\<rparr>,
   \<lparr>te_x = [0x9540462fc283e0, 0xce611fb8220396, 0x340eb7fd1622f76, 0x7bd66317b7ebc6, 0x37e00d9bbecf515,
      0x2310ff51ad364bd, 0x11d1d27543e3b3a, 0x2db4ce65384b194, 0xc6dd841a1daf05],
    te_y = [0x3da17e023b991ad, 0xac84dc7ee94508, 0x2c5a0ddc1879aab, 0x2b57d8eb372d05f, 0x1e2a7d50173bc8,
      0x41b4020bf3d484, 0x3012cf63373fd06, 0x117bc7a084779f6, 0x18ca07766d95765]\<rparr>,
   \<lparr>te_x = [0x24347b9af80dfaf, 0x2d8c7e71199fce3, 0x1b266ddbc238a80, 0x196aa1c6281bfc7, 0xaf31c35f6161e3,
      0x31a11ba39fdeb24, 0x175b4c03831d1f, 0x1cc68799a7441a1, 0xc76da9d620934b],
    te_y = [0x1f597ba3e4e78b, 0x137b7154267e6a6, 0x399593088c612c1, 0x1e6c81d162fcdc, 0x3a22769007c5683,
      0x1f9b6bcf1110311, 0x129103b6df23c8f, 0x1e58d3d98b0950a, 0xf9f4ea6db18b3b]\<rparr>,
   \<lparr>te_x = [0x269eb88ced36049, 0x13ff87d06e67e31, 0x35636a72e10887a, 0x2319682ee29a42d, 0x96e4295567dd6a,
      0x2aaffeb50b3e316, 0x2f26a45286b5f31, 0x3940c7df7ebca3d, 0x120c5d9e0ac0e1a],
    te_y = [0x3bee3ffacc10da7, 0xb57e651251b96b, 0x3e863c4220ff67e, 0x52f5bd8cba3b05, 0x3c3fc9ef4fe6f74,
      0xefee1c12a78f03, 0x3342d25ff3cba0, 0x334b863f4d802ec, 0x1ac1e63e7530050]\<rparr>,
   \<lparr>te_x = [0x183d07c8f3d6a02, 0x3050f1fbd343477, 0xbf0d4c7af6171f, 0x26209f173c32a65, 0x32b697882c8a93e,
      0x2957a2e92840b1e, 0x2d64f0633c87d58, 0x7f06ba208bf30, 0x1c12ce9b53f986d],
    te_y = [0x19639fd95dc1b79, 0x23dd50fd3985aa1, 0x3c4cede2fb9f272, 0x203543eba79b9c0, 0x3c2d530ed042f76,
      0x375662b0151af0e, 0x29491000a4006bc, 0x258a4fcca1b2784, 0x14677782255b6bf]\<rparr>,
   \<lparr>te_x = [0x381421ee30c98fe, 0x3fac3f0b35c16b, 0xca614df6ad2deb, 0x37a6e8c53a26cb1, 0x4f04b16dd38134,
      0x1fe32a2910f7ae, 0xf3917fc556ee0f, 0x33504f0720eece9, 0x1998397dd24b1ad],
    te_y = [0x201e17edf4781e6, 0x1f0c651bc7e4072, 0x2613b53090da32d, 0x3729f23181e889e, 0x2ddc697092495b1,
      0x1582026073cbefb, 0x1134d71d3d82bb4, 0x231073f37768c21, 0xd23dd171b59679]\<rparr>,
   \<lparr>te_x = [0x3a40f84d4dd7e96, 0x1323aa1027f0325, 0x29e6a9d11393711, 0x863f631b5b15bc, 0x200269e7c3b6066,
      0x164a757eb4eeaa1, 0x2e365b1413c6b00, 0x2abb306b5f90088, 0x1d36a82621a4798],
    te_y = [0x2ac45c4c1003c81, 0x27bd6bd0f6180ab, 0x1f5e60f774699ef, 0x2aefd74a160da99, 0x1c84acef1f312e7,
      0x34922d48bd4fb20, 0x265c6063e32ca29, 0x65cffa6a9f1607, 0x17e3686c9a5284]\<rparr>,
   \<lparr>te_x = [0x32efe659e90de99, 0x1216f2b416ad8c2, 0x2a52e14e4892be4, 0xc0898a1a1f1229, 0x15eb3db542ad854,
      0x11796104987c3a5, 0x17573948e81863d, 0x2b7933f87383e3b, 0x3fbd6f1ff57d84],
    te_y = [0x3711ddd1bf968c, 0x235f35237e91cb5, 0x1223e425a566d55, 0xe1709b410527c2, 0x17c2c17430cf833,
      0x50f6766f9ee07c, 0x3d3faee3bdc33e5, 0x2046bce16b0d653, 0x1137551cf429fd1]\<rparr>,
   \<lparr>te_x = [0x128f55b20193bb2, 0x15e741cc42e1c92, 0x2309d345d27696e, 0xcaa1c61a297b81, 0x1110386839a43e4,
      0xccbc420a3044f8, 0x5cbb48286ecf3a, 0x236bccd22a8dc0e, 0xc6698ffcaaef15],
    te_y = [0x44c54af6908745, 0xcdb91a8cd4fee8, 0x2852d561e821a6b, 0x1c0d8d245fda530, 0x181f613151b2979,
      0x3d1a97bdb8408ee, 0x114f7f6817dc2be, 0x316fe4f7a82be38, 0x136c3cf3cd5ed72]\<rparr>,
   \<lparr>te_x = [0x38799ab7b080de4, 0x3de0775a760e5ae, 0x2aaa986f8f633b8, 0xe2952f1729dad0, 0x1a9c2fbb95d74c0,
      0x5e24c1dbf2d81, 0x286f0d8451b4408, 0xc98d03c030e274, 0x14c3038e9520c54],
    te_y = [0x14bc3816977aad9, 0x3f420b5c21ef8f2, 0x20c875fed08adb, 0x350d1595bf01b42, 0xfd6dd4ee1ce84,
      0x297ead01c713638, 0x2eeb6f23338b226, 0x309b351dfab042e, 0x78e4db08bb5f80]\<rparr>,
   \<lparr>te_x = [0x111d12a1078342a, 0x11c979566841900, 0x1d590fd3ffdd053, 0x27c1bc2b07fa916, 0x33e19bc69cf694a,
      0x27773403db492b6, 0x32dd4e3ce38f5eb, 0x7154e1003d9ad8, 0x85cab8fdfbe15e],
    te_y = [0x2943f6b8d09422f, 0xa5d583e6230ec2, 0x1fa2ef2e4d917d, 0xecd7df04fd5691, 0x3edaad3ff674352,
      0xd1c90b49d34d01, 0x38615d594114359, 0x2533472c9cc04ee, 0x7da0437004bd77]\<rparr>,
   \<lparr>te_x = [0x24b99a62d712c44, 0xda3e29a5895de0, 0x432d65e2287148, 0x19bd6f17e23b5a, 0x14ec3479d140283,
      0xc9b6dc39b3cc48, 0x32936b96db6f449, 0x86bf296b026328, 0x4d69e248c72fea],
    te_y = [0x2a89092a71269fb, 0x2f6ea061942d802, 0x2a39fb55db22f6, 0x37d8c47a7407673, 0x90ac2c1d0fceb0,
      0x2c7cdca9bebade7, 0xc41932393b222c, 0x399d18a9bcf7ef2, 0x19dea30b22fe8]\<rparr>,
   \<lparr>te_x = [0x1f689ac12b3118b, 0x3b8e75b2dba959f, 0x22c2187cd978d06, 0x206354df61f3f30, 0x2e9f56db2b985b6,
      0x38263055d611454, 0x212cd20f8398715, 0x711efa5a9720ec, 0x1fb3dda0338d9ac],
    te_y = [0x6b7fe0cfa0a9b8, 0x22eb1f88b73dd7c, 0x1e04136887c8947, 0x37a453152f3ce05, 0xf51ea64ed811d,
      0x321c15df2309058, 0x2bbcb463914d834, 0x3d4bbb493954aa2, 0x19e5eb9e82644]\<rparr>,
   \<lparr>te_x = [0x365a04e66d52313, 0x25151534fdcaf47, 0x1dafa6b7ae11fd6, 0x3615c6ac91caf03, 0x2ae5a8d68921f79,
      0x3b17384f5317e59, 0x24bd39fde17716a, 0x19e0dc39bb692dd, 0x1efffe94085990d],
    te_y = [0x3fa0e27d88f92e8, 0x3bc3f671dc48f3c, 0x174c89274dbaa21, 0x296e6e89d898966, 0x246ebcaf6d4cfa4,
      0x3e38a1c04324274, 0x3aeea20317a10d8, 0x2c28ec1dc778514, 0xeadf0c479168c6]\<rparr>,
   \<lparr>te_x = [0x1bc1e484c854477, 0x3096d218e391f04, 0x202b869c54d92be, 0xcaf879fb490f53, 0x6b460c4ae318de,
      0x2909abfbd51c7ac, 0x52dc138ae7bf3a, 0x37a748eb89b7761, 0x1649d3fc1d55782],
    te_y = [0x7cae310ade1979, 0x1c1074ed2f1ca36, 0x3c4056c3c9bea84, 0xab5d2b919ce248, 0xecbe49ae36fe18,
      0x3107e7d64affdbd, 0x2307156680db80d, 0x1cc1cd6eb01bf91, 0xc06d68b4c7d6d0]\<rparr>,
   \<lparr>te_x = [0x3e22be7854dfcf2, 0x69f7e9ab8ef436, 0x3ad1a521ec46ee2, 0x1e906a52133d18c, 0x32aa123f3ee9452,
      0x2b8f2a484517ae6, 0x5d9255634a82ac, 0xb63385dab283f2, 0x78504cf7fc1908],
    te_y = [0x34ce7c43799793c, 0x375862d5467ed75, 0x1f9395ff980874d, 0x346e2fd8798b3db, 0x3dcfcf54f00ea45,
      0xc00d6c09a18d84, 0x28a9cb67423b760, 0x1dfa7ef1d4d100, 0xf47b52ce37051a]\<rparr>,
   \<lparr>te_x = [0x3f7d8ad96bec962, 0x3207d85f8041eba, 0x509214e1058d1c, 0x10d08e5327d9311, 0x11a6605136c298c,
      0x37e090f644014b, 0x1cdea4c36437549, 0x2dec48c4ef87bf9, 0x76249a60f7d27f],
    te_y = [0x9758381cf593a0, 0x33bbee0d931679d, 0x1333e05c99910c9, 0x7d0860238cbd68, 0x34f5e8f4f30ea5e,
      0x1b032d1d5bece93, 0x3dcc6a2cae6e2eb, 0x3045d82cc1ff422, 0x1aee17901c0ff8]\<rparr>,
   \<lparr>te_x = [0x48336b89aa9e14, 0xd09c7d9d9c03f0, 0x433906b6980666, 0x387aedeac8d36a8, 0x3eb59a05330247e,
      0x3d3565a6d2a9, 0x26b5bd78ef8258, 0x15b13976ce3ad18, 0x3b06a43e5d7d68],
    te_y = [0x20ae838ed2a0ee7, 0x2f94a3c5ba204ea, 0x1f5c4ea6413704b, 0x2d81b8a619e2adb, 0x2f459ed2b5be80c,
      0x1d85486bc66c6dc, 0x116f3b7a9cce4d1, 0x1a494e6bfe652a9, 0x797d92e86b341]\<rparr>]"

definition p521_table_8 :: "sp_table_entry_521 list" where
  "p521_table_8 = [
   \<lparr>te_x = [0x1aeede15af3a8ca, 0x91e0a970d47b09, 0x23fbf93ec080339, 0x3139bd096d1079e, 0x81e76009b04f93,
      0x603ff1b93b04bb, 0xaef3a797366d45, 0x76474a4f2ed438, 0x61a149694468d7],
    te_y = [0x12c541c675a67a1, 0xe34c23d7fa41bd, 0x3cccf6be988e67d, 0x2f861626218a9c2, 0x27067045bae03ec,
      0x32a365bb340985, 0x735d1facdd991, 0x3c871ea842a08c3, 0x152a27e5543328]\<rparr>,
   \<lparr>te_x = [0x1d609e0e6057e27, 0x22da9f1e915368f, 0x11451f32dd5b87e, 0x22343bd478bfd66, 0x125567546ea397a,
      0x8a2d20312619a8, 0x1997aea45c8b13, 0x19f48f6f839df74, 0x1f80e2ea28fc518],
    te_y = [0x295412d69d0820b, 0x1cc49c7a9968618, 0x221eb06380d031, 0x3f1d7fa5c1b09f2, 0x35a71d2507ffd4e,
      0x1f2dd50dece5a95, 0xdbee361c80051c, 0xb51781f6d35eb5, 0x1431c7481f49b19]\<rparr>,
   \<lparr>te_x = [0x2ab2d0408e1cc4d, 0x1d634eb4b707b97, 0x3dfe5c9c7393e93, 0x2a74cde5a0c33ad, 0x2e24f86d7530d86,
      0x2c6ec2fbd4a0f2, 0x1b4e3cab5d1a64f, 0x31665aaaf07d53, 0x1443e3d87cc3bc0],
    te_y = [0x10a82131d60e7b0, 0x2d8a6d74cf40639, 0x2e42fd05338dfc9, 0x303a0871bab152b, 0x306ac09cb0678f2,
      0xc0637db97275d7, 0x38c667833575135, 0x38b760729beb02f, 0xe17fc8020e9d0a]\<rparr>,
   \<lparr>te_x = [0x2dd47411baaa5eb, 0x2edd65e6f600da2, 0xc40cdffed2202c, 0x3c13824450761a0, 0x120748b871c23a8,
      0x167a4a25974507b, 0x6dbfe586a15756, 0x269d1f1a35f3540, 0x148da0ad0df2256],
    te_y = [0xfcc5db7f9069d7, 0x1f49157014c6932, 0x899e9a2db3a248, 0xe2d3fa5c8316ad, 0xd27f35e452bfd5,
      0x38b6b24dce81329, 0x3ee7e27cbbc549e, 0x24d800a1c8a77fc, 0xd03179878d28da]\<rparr>,
   \<lparr>te_x = [0x1b7e9bb3b66c047, 0x1961a580a8f8762, 0x2297c8db9c0022e, 0x28f4229d28d13e0, 0x1fcd398de0e76ac,
      0xc8399abefc69c7, 0x1c9fc52fbb6eaa8, 0x2cad2a0b43af05e, 0xf4e00cf6f4e7a],
    te_y = [0x24c0e9a4890c439, 0x1928aef0d69ac90, 0x79dd9b7497d375, 0x3584b7a50a5691, 0xe60d0033a1ff3f,
      0x8905f68d6189ff, 0x2b8385815da8c05, 0x25aa941841353bd, 0x120800728d2f16e]\<rparr>,
   \<lparr>te_x = [0x36f2372ab039042, 0x1a5e327e8213b65, 0x1d2f58bec14310e, 0x7f881170f40ff, 0x2b0a5a9283200c1,
      0x187ebfe39a1a3de, 0x31226526c95d1de, 0x3b45e8788049ede, 0x898e63dd78c2a5],
    te_y = [0x36533da22bba4ee, 0x3d8e5fd25a95d2e, 0x29f714f2a6b93ef, 0x2f477f75cfd024c, 0x269bca1b1a08248,
      0x28b80c9d8bccfcb, 0x1df7419a177e64b, 0x2f472f143a64dd7, 0x95b87a979f4a56]\<rparr>,
   \<lparr>te_x = [0x3736a967c1f177, 0x34d4218004cf27a, 0x3b926eac9a5b1b6, 0x29b09fbcc725092, 0x1122b48707a9c01,
      0x346b2616b64eee9, 0x3f175b9eb94e2a9, 0x364514470081b54, 0xb1d13eb2525102],
    te_y = [0x3e7dbeb675a1171, 0x20a5705b034ac73, 0x1b5a057c88cab22, 0x25b4c03a73e36c9, 0x3269552eb73ea9e,
      0x383e637ec3800df, 0x10480fea9d035c9, 0x2cc66183926e34a, 0x37a35e9512c036]\<rparr>,
   \<lparr>te_x = [0x16729ee8f00df48, 0x329ed846b20c131, 0x17f98b3a8123b89, 0x6708728fa925e9, 0x3e2bb3ce7e0431b,
      0x371de065169cf7a, 0x2b3df12f86cc2ba, 0x373c17fc0179397, 0x5ef955dd7add27],
    te_y = [0xc22ffa00ee402f, 0xd78a8ecc2ed338, 0x11d0643cb1015b3, 0x114f3465a215095, 0x2f0be54b4c6183f,
      0x3083379319993c8, 0x24c475a5f4cfee4, 0x7b6772aa5cbe02, 0x19cde4af2005911]\<rparr>,
   \<lparr>te_x = [0x29d0bc8d771f428, 0x7b36790f28e0a7, 0x2480eb93acf03ac, 0x2041968a8fe357b, 0x22f0b8a7316232f,
      0x951d2887f013ea, 0x315f6f4a8df7e70, 0x394946b13fc8ee, 0x6b66e21b73e095],
    te_y = [0x1c9848067a41dee, 0x2a56b9ecf8acfd6, 0x386891454e12cf, 0x37fbbf29a915366, 0x11e9cb75f0dddb,
      0x3bc8230d7da46c9, 0x333cf6a9b9e766f, 0x1d2a7a37c400062, 0x1c4b8a55ac9d1c1]\<rparr>,
   \<lparr>te_x = [0x19f58625c4cccb8, 0x3d4824bbd34fbea, 0x257689efc87870b, 0x25b685081b8a3d3, 0x7c52107da2366f,
      0x1283c3c240cc680, 0x2a47b0478d4cead, 0x1d526ca267b891c, 0x110ae96534e6420],
    te_y = [0xc1d655cced05b0, 0x30fc2405d6550cb, 0x30a48e577cd7aba, 0x24d03a635b6ebad, 0x3603d24f184b008,
      0x15c85cf49a60d94, 0x1141de6e1458832, 0x1fcd074d22c9984, 0x6be52257dcefa2]\<rparr>,
   \<lparr>te_x = [0x2678f33c947e655, 0x3edda82248de564, 0x2745790239d1ff0, 0x248f36edf3acb7f, 0x105f6d41cea0874,
      0x2771562084c9b6e, 0x317025b1ae9ae7, 0x22a738514d033a7, 0xc307502c29a2c3],
    te_y = [0x124f11c156ace2, 0x1c3f9de7fc94a43, 0x1a816e1171b22c1, 0x20d57789e5d837e, 0x27c6cc79da19bca,
      0x3587ddc06b649fa, 0x1c06bb285901121, 0x10aeffa03209898, 0x15e4050d338aa26]\<rparr>,
   \<lparr>te_x = [0x1397829eaad87bc, 0x324d9e07a132f72, 0x24d6ade4fdee0a, 0x295a435fd5ad5e7, 0x3d14fb0b950b9ab,
      0x16839edbc26ca74, 0x2f4ff3d0684f232, 0x1ccec1453a74d81, 0x77e63bdd26e8ad],
    te_y = [0x2fd06ece0d25c6d, 0x86802e8b73c2, 0x17708c5bb398dd9, 0x360663fe3f06c09, 0x1b7e2cd68077f06,
      0x18e8d5ca1f543fc, 0x125a9aef75e0572, 0x3a56fc95e24bea, 0x111847d3df0739d]\<rparr>,
   \<lparr>te_x = [0x2ab9cc7fec82924, 0x1b75a69c8835a54, 0x27dea06ef0e21c7, 0x3089c60e41298d4, 0x2716807c8ab3e51,
      0x123c491bd36cd7a, 0x1560958f3ede0a7, 0xe37bc524d91104, 0xf75f6583d1874b],
    te_y = [0x39189e10b927eb7, 0x318d670b8bc49e8, 0x2337fe966f4a87, 0x208417956142dcb, 0x2e58c39f9102b83,
      0x246d4ca58ffb801, 0x2ff97b3f052ee39, 0x14181fd6e15332e, 0x16a935e5f6c5f80]\<rparr>,
   \<lparr>te_x = [0x19a0355dfd88d38, 0x33638f15277d03c, 0x29e304d006e1555, 0x1b3f42c3398c89c, 0x135f2ad31f16b70,
      0x1e8f7e7fc55b702, 0x1e5fb5b30c5213f, 0x2368a7ca7324a95, 0x144a0ecfdd42b85],
    te_y = [0x1c115df52658a92, 0xfb45f10a0585ad, 0x1f707fd92a91bce, 0x3f67357625a9565, 0x35a9472b1663c8b,
      0xcf86f41dd8d0f, 0x1c02fb14e44ca8b, 0x3ecc89e87261879, 0x1b5ece0f2c4cc4f]\<rparr>,
   \<lparr>te_x = [0x3127bab31211943, 0x232b195a10c9705, 0xb88d855fc3e44a, 0x333a47ba974bf8, 0x78ec7d1247abab,
      0x3367fbe9748f771, 0x255766a3986de70, 0x31fe8cb1ee19e09, 0x873e54018beeae],
    te_y = [0x16e86f2b38d17c1, 0x3ef431c7e810372, 0x2b79f88499cb9cb, 0x33bdc7b202f8446, 0x146c896921d47c5,
      0x34c58cc6b2a8ef0, 0x28765b5f921c0e3, 0x3c9c0c7e8207b9d, 0xfed5dafd5f41ef]\<rparr>,
   \<lparr>te_x = [0x2f10b9d4cda1348, 0x1a7f48970c04ea2, 0x25b18957c22bb07, 0x31fd6b3c711142a, 0x9fef80295cafd6,
      0x38227d773dc6850, 0x3d2ba8e12029f5e, 0x32d625d4aa3ec3e, 0x9061e2275f6f70],
    te_y = [0x30a4ac51fbda16a, 0x439e7c77e8a8ad, 0x2132d9945f6f799, 0x2bbad2e93bee8b3, 0x34bf2d53d450d59,
      0x18831ea1aa3826c, 0x13c6f476010204e, 0x3d5a98fe250f429, 0x13214c91d1987ea]\<rparr>,
   \<lparr>te_x = [0x14fb120490d66c3, 0x35cca2837208139, 0xc3804b4294deae, 0x2acc777119ee805, 0x28342ed113f2fa2,
      0xc0d3839c3fd57a, 0xae3c1b18da72f2, 0x1680ab70c36faf6, 0x9c179bdf6f3e94],
    te_y = [0x2c928ef7484c26f, 0x2df6c7bcab6ec51, 0x35483f58dda7206, 0x312f1fb6d8221f, 0x1975cafdcfde4e2,
      0x1afbb0812134487, 0x16db67c5b596708, 0x1d222d5e6aa229b, 0x1522c6d87e4118]\<rparr>,
   \<lparr>te_x = [0x2890757c471d4ae, 0x12c6950e8769d82, 0x31826aa701a1fef, 0x14967197e4ee24a, 0x1d789df35bf4d4e,
      0x2de70fca48ebe4a, 0xcf1303ccb46c60, 0x3b125560b39f3d, 0x11c7da081b4257f],
    te_y = [0x12c6ae59aeef274, 0x16fd3c50df020fe, 0x3023e13c86afe6c, 0x398a8894d82a9d2, 0x22589fa5d21dac,
      0x3e9d2c3ecf55cae, 0x2891a93d4a3916d, 0x33ef79db36372c4, 0x19aa0391a3f59f4]\<rparr>,
   \<lparr>te_x = [0x14ba69e203fc3f1, 0x1a332d8841a8a41, 0x540aad5fa9f091, 0x3affdfb5bec206, 0xbef94afdecb8f2,
      0x2af476cb202986, 0xe0a7ce25d8ca0b, 0x16e69d799e9040a, 0x1b2dd7662ddd6e9],
    te_y = [0x3dff279f289d7ee, 0x157567ba8881721, 0x3d54c18adac64d7, 0x33dfb004066bac3, 0x2b48d70a43a8c46,
      0x2ce7be1bf2439f, 0x145a20965c53c11, 0x8f9155ddf30e1, 0x16ea33430f757dd]\<rparr>,
   \<lparr>te_x = [0x29f39490ff53d2c, 0x24565ac00d26e7e, 0x1014d59979678dc, 0x2aea29ade2bc429, 0x8b517b104dd72d,
      0x1b4e6f83bd77950, 0x217f70142b90bca, 0x44632baa8fa7b6, 0x16da01689d606b3],
    te_y = [0x26ca563f46afff7, 0x171ee8d29797cfa, 0x24c8aa998fd8394, 0x11ad8fd4d7b07ff, 0xd1f509e542a601,
      0x3e33436d4205a22, 0x236772d1918daa9, 0x3719994179aede2, 0x1ef4ab03a819cc6]\<rparr>,
   \<lparr>te_x = [0x2089d14d376d986, 0x1381de8b70d6c01, 0x309a53ff2c86d0f, 0x11448f0ff207045, 0x31b656fc2fef4ba,
      0x3fbea2ee14b3569, 0x110b77b57c74891, 0x284a63c14e0f920, 0x4c4b55d3ad52c5],
    te_y = [0x110cff3f3827633, 0x1e1357802bfa594, 0x38823ead32fa086, 0x58ae47361b2ce1, 0xe6f3638a3dcf4d,
      0x22dff5081e2da96, 0x1683e733792112e, 0x210cda5901137b9, 0x1223b84210f28e2]\<rparr>]"

definition p521_table_9 :: "sp_table_entry_521 list" where
  "p521_table_9 = [
   \<lparr>te_x = [0x28a9a9c3ebeb27, 0x3372d4fbd643e1b, 0x2e114dae7f37d7b, 0x391c9ba9f27a228, 0x28c141388033522,
      0x58855d667540e1, 0x564d859b1aeca6, 0x238d9c67f3faff3, 0x433a577af11aeb],
    te_y = [0x3f26ce06feba922, 0x320fb91d695a4f0, 0x274028bf378e5f6, 0x1a2f70fdbc5fde5, 0x2a6ed90aed2a5e3,
      0x291f2f54f40d282, 0xe2bc83b1c3a4c4, 0x3ae93c2a9b937, 0x1c097c7af4374ca]\<rparr>,
   \<lparr>te_x = [0x37717879c28de7, 0x2a8aaaae70cc300, 0x182666bc61eb617, 0x33d35e2d4110c20, 0x19870fc72e0b5b5,
      0x102def175da9d4b, 0x32d03a3b4689f5d, 0x182a6a5ff619e1f, 0x1c06ab7b5eefd60],
    te_y = [0x19eadb1ffb71704, 0x3962ece43f8ec7a, 0x382cab4f19aa436, 0x3eb83cf6773bb2a, 0x16e20ad12da492d,
      0x36ef4988a83d52f, 0x12eb54af89fa0f7, 0x1d637314286ba3, 0xb79799f816ef7d]\<rparr>,
   \<lparr>te_x = [0x2c46462104f98cc, 0x56489cabb7aba7, 0x3dd07e62186f451, 0x9a35b5a6d9eba4, 0xfd43a8f3d17ce0,
      0x302ade5ed4d1d82, 0x1f991de87f1c137, 0x38358efd65ea04e, 0x8de293a85be547],
    te_y = [0x182add38ef668b1, 0x39acb584725d902, 0x2b121c1d4263c54, 0x23bbfd939ccf39d, 0x2871612a3134b2,
      0x2824d652bdc6a6b, 0x1108e831c88af2b, 0xdf682d92444aea, 0x1138febc5c55cf4]\<rparr>,
   \<lparr>te_x = [0x29ca589c4a2daa2, 0x29c0f1003d8231f, 0x1058d517510318e, 0x1c92aedbca5be33, 0x194296ab4264934,
      0x314595f42f954f8, 0x80ea89af9398fa, 0x386c788cb7bb13e, 0x1372f81761e67b1],
    te_y = [0x1014bc73a20f662, 0x1f9df127b654094, 0x96fb62b96521fb, 0x19e8ba34dfa27d4, 0x25804170e3a659c,
      0x3b5428d03caca89, 0x3c00f1674fce69, 0x2764eaa914dfbf7, 0x198f3c3bfda4ce9]\<rparr>,
   \<lparr>te_x = [0x2b1f5cd81614189, 0x15b11492c967dee, 0x24b245fb415ec7d, 0x371ebdafbe71eea, 0x74b48e82302bc8,
      0x2db46c7e46ddc38, 0x280c974a1336e09, 0x2d894a1704d5f99, 0x12d59bcb813c7cc],
    te_y = [0x1ad83b47c019927, 0x3c999d8c37f56f7, 0x2c5a31e05d23e10, 0x3e915ab1180576f, 0x1243cac822aa6e5,
      0x372327a51a5594a, 0xa4065c69c9c7f4, 0xc06eb6c9f82789, 0x1ccdfa7a34eae41]\<rparr>,
   \<lparr>te_x = [0x36a864d59cb1a7d, 0x19328dabbee3b85, 0x3acb1c22b0d84d8, 0x3af66037c743ba0, 0x7f94ced97e80a6,
      0x29cb0457d60ab31, 0x107bb7a29cd1233, 0x28c3384a8aa31c, 0x1500229ca564ed8],
    te_y = [0x374bad52f1c180b, 0x2fa6635d26a8425, 0x8ab56dbd1bad08, 0x3902befaa6a5e31, 0x3153dc5fc6ed3e3,
      0x2fa4fb422a2fa5e, 0x2e23bdadc7f0959, 0xa77a3490a420b3, 0x16417523c6dc27]\<rparr>,
   \<lparr>te_x = [0xeeccf16c14a31e, 0x3894d2cb78f0b5d, 0x35997cec43c3488, 0x27645ab24dbe6ec, 0x29f7e4400421045,
      0x1154d60dc745700, 0x14a4678c9c7c124, 0x2eb67325d5237b2, 0x14e4ca678183167],
    te_y = [0x33af0558d0312bf, 0x2fd3d5505879980, 0x5a7fa41781dbd1, 0x2a003bbc7549665, 0x79c3b8d033494d,
      0x327db9a5b1417b0, 0x30aaa70ae1ade1, 0x18300a23c305da, 0xc7f4cfe3ba62a]\<rparr>,
   \<lparr>te_x = [0x18b447d057d6006, 0x25db9bf5c722c03, 0x2029abcf40f538b, 0x21bc40e9e0d79df, 0x5e472c4b13bee3,
      0x7f2c650829ab08, 0xabf4943b045f63, 0x1ade79770767f00, 0x1b528c0bc70a555],
    te_y = [0x29d07ee8a8640b8, 0x4408f438d004ae, 0x255bbe24ae89256, 0x93e95e77371f39, 0x1377bbfe5e358e5,
      0x30251f915f389c5, 0x29782664651c6c3, 0x305697ef63543d2, 0x8d6fcdd28fe2e1]\<rparr>,
   \<lparr>te_x = [0x164a2f65c7202c8, 0xd01496952c362d, 0x16721434fbf57d6, 0x1787660c28e1053, 0x15ef0fbe1811421,
      0x1bd5fe7f1e9d635, 0x2269d35705dcf8e, 0x27e5d7752695b64, 0xf18f015d7abdb4],
    te_y = [0x3131110b4799ce6, 0x2fee64b2f2df6c1, 0xc9ff7ba21e235b, 0x4ec63d27fb07c0, 0x1abcf959b009d69,
      0x350851ba3698654, 0x1f23f10e6872130, 0xe1ad560ca05eb9, 0x143c9b5bb689ae7]\<rparr>,
   \<lparr>te_x = [0x23328db48c74424, 0x5b8474672cbad0, 0x192a40d6e217326, 0x13032f71d4b94d0, 0xd733bb01dd83a9,
      0x2de914817188c14, 0x11c8cd0d631a5, 0x1f3573370289669, 0x1e622f112cc646e],
    te_y = [0x3d6e29a3e1e4c4b, 0x2094e27ec552291, 0x5b54fd3e319d5f, 0x2682822e599f8dc, 0x3d8cbe8db8c4ce5,
      0x3bb0f5d6f29d279, 0x1a313dcc4496eaa, 0x24d805f71c8ea28, 0x1a5250ff77a8ceb]\<rparr>,
   \<lparr>te_x = [0x15a0726fe29bd79, 0x12a0413e642cd29, 0x146daad56983657, 0x2e543507fbda41a, 0x6e6f7f450e580a,
      0x3cdc62af1d6d45, 0x234087508cc97bf, 0x2244146e8b29295, 0x17275c39077e64d],
    te_y = [0x37cccaff77ca6bd, 0x37d06f6c637d7c, 0xff8019e01f7e0a, 0x112a9975cae7d1b, 0x6e3663e9be4f3d,
      0x3be76db5e08b62b, 0x24a9aa5f37f9223, 0x322e9fc2b4e76af, 0x98a0a57c70f69c]\<rparr>,
   \<lparr>te_x = [0x1c50cf400fd5286, 0x16e755ca92c0f36, 0xf9e051ae73e1ea, 0x10a546ce093d798, 0x9fb4d667fe9b51,
      0x3714215ac0d2cb4, 0x30022e4b537a80e, 0x22bb9a7b8404a32, 0xed7c8b9e5c6a54],
    te_y = [0x6007bcd933619b, 0x1d9a38ae77f865d, 0x15d3cc6e2a2e0ce, 0x17dfbafccbea7bb, 0x167cc4f6435a14f,
      0x214305b1d72e263, 0x379c96cb2185fc7, 0x11d10261d29d917, 0x1397468f8ae27db]\<rparr>,
   \<lparr>te_x = [0x1de68adc88684f6, 0x3b6aad8669f6ff1, 0x1735b27a18f57c1, 0x1963b3627ac9634, 0x2d879f7eab27e7b,
      0x1f56fbecf622271, 0x3ad73ca8fdc96d6, 0x15b5f21361ab8de, 0x1a4c7e91976ce8e],
    te_y = [0x1a5406319ffa6, 0x3993b04d3b01314, 0x296cd541242c0ca, 0x3bafcb2bbb87da6, 0x28bee8059da259,
      0x23a24392239e5e3, 0x227fd9e9484bebb, 0x18c6039491b43ec, 0x1b78be2a54a625d]\<rparr>,
   \<lparr>te_x = [0x223554af472f13a, 0x264edd5ccfa4728, 0x29f096c168a2fac, 0x752c49d4d49abf, 0x3e77070ca7cfe76,
      0x1f9f37da10c061c, 0x162ed466b6aaadc, 0x3e36368b757aa85, 0x16a81a2e0039fa],
    te_y = [0x80759c4e3de3bf, 0x38b8454bcc222aa, 0x2d9aaa7eba5b0c1, 0x14e7e70472b2cb7, 0x3b0dc5c194c65d5,
      0x28fd2d842ae6f61, 0xb5f9fd32f8c96c, 0x877d2610bf30a3, 0xf431ae27ccb90e]\<rparr>,
   \<lparr>te_x = [0x32a0a0d6a0ccd0a, 0x3bb209664ed554e, 0x6fd9de672a6a3e, 0x1203681773ec4d2, 0x16739874d8d9c51,
      0xa68d72712a9113, 0x177eadd9cf35b2e, 0x1c2875af66d7e24, 0x1d69af0f59d2a04],
    te_y = [0x2f844c7ba7535fd, 0x3530f6a10bfce6c, 0x9ede951974b45b, 0x25ff5114fb17f85, 0x1e6c37c0e6982e9,
      0xb0fbdaa98fdc17, 0x36a8d609b0f6a9d, 0x6de2fb74d6185d, 0x1764048a46aede1]\<rparr>,
   \<lparr>te_x = [0x7c6ee551a251d1, 0x12fc48349e77f69, 0x138cec518a28bef, 0x21ce202f9b930b5, 0x21be9b20b1b2b78,
      0x1e5a867b1a733e3, 0x10bdeae41dfeae3, 0x20300959dbf27ed, 0x16a8b815a0503e1],
    te_y = [0xa085f653f5ef65, 0x3eefe5dec94414b, 0x7e3a3346fe661d, 0x3b86e57dfbe23aa, 0x15b65eaec25ddfd,
      0x30b808ec881d39a, 0x283bb511869a154, 0x1f9f61806d5dd0b, 0x151464652cfa87]\<rparr>,
   \<lparr>te_x = [0x10853c857fa58f1, 0x2939a1329319c09, 0x2d0a1b81f40db58, 0x41563a32f41ee5, 0x242e388cfa4651e,
      0x110d8220699011b, 0x2b8fd051b0d5394, 0x33f3b0afcd6cf89, 0xfd4ae787095702],
    te_y = [0x79bc29df53d498, 0xc713844dfd890f, 0x56c17a3cedf4cf, 0x71b36445764eda, 0x39228cddb246113,
      0x3480afc6acc2914, 0x108612e97757b68, 0x9ad2999b79f398, 0x51c200fe654f60]\<rparr>,
   \<lparr>te_x = [0x296103cb1a2b4b5, 0x332ffa10f025a3a, 0x72d986ffb5b98d, 0x3c85a74eb09a8dc, 0x2771371f12fa07a,
      0x1f0a67be2ee16e6, 0x372efceae10d34e, 0x15bc4f52f71a788, 0x39378df75d8dd8],
    te_y = [0x1e902ffde7ff5d9, 0x2a1748c9682728c, 0x13a6f4192fcd0e9, 0xdc56c1dacf5c6e, 0x26e711d1cf52a57,
      0x30a4a0675c9aaa1, 0x15de60b61b1df2, 0x2791c89395d7320, 0x1dc68e893e118b7]\<rparr>,
   \<lparr>te_x = [0x3924ff96ffeda73, 0x27d01a83688062d, 0x20eaf89584dfe70, 0xba0d568100da38, 0xfd777d7c009511,
      0x2fe3cb20967514a, 0x5311bb0c495652, 0x36755fd8c64a113, 0xd5698d0e4f8466],
    te_y = [0x10d64fa015d204d, 0x9afe9b744314f8, 0xe63a7698c947b6, 0x11c14cde95821fe, 0xdf5c782f525a65,
      0x157eebfd5638891, 0x2e383048aa1e418, 0x18f4d23c886391f, 0x4df25239591384]\<rparr>,
   \<lparr>te_x = [0x2f4fd69d8695310, 0x3ac27dfa1da3a9d, 0x1812e0d532a8e28, 0x11315cab1e40e70, 0x785d6293dda677,
      0x369daec87e60038, 0x3c72172bfe2a5a3, 0x22a39bb456e428a, 0x4cd80e61bfd178],
    te_y = [0x1f4037016730056, 0x117fbf73b4f50ee, 0x363c1aa5074246f, 0x14bfe4ab9cc2bf5, 0x11bb2063f21e5c6,
      0xb489501bbc20c3, 0x15001c18306ecc1, 0x150913b766ce87c, 0x1f4e4eb25b8c0cc]\<rparr>,
   \<lparr>te_x = [0x161a714a1db5c18, 0x139879d9dc1d33b, 0x3be57bf685de945, 0x14f48516f97a5c3, 0x3ee49a5f2221b0c,
      0x12c4740ee4c6206, 0x2213700b91afa1, 0x2bf1abbf924fb, 0x13c50554e945262],
    te_y = [0x2c45e77364c92e, 0x995cd4863a35, 0x1a0284d3f3c5e05, 0x936fdd91af4a07, 0x2485f304f312f84,
      0x49e944f86a23ca, 0x20e0bc583f56311, 0x1c293b5e5431c69, 0xc692855e104b7b]\<rparr>]"

definition p521_table_10 :: "sp_table_entry_521 list" where
  "p521_table_10 = [
   \<lparr>te_x = [0x106185c644614e7, 0x1b2b91d2690923, 0x12ea2587e5282e9, 0x2b44a15f356150, 0xba5593b5376399,
      0x3574a919dc31fdc, 0x29a1bac2cf6dc4d, 0x2576959369158ed, 0x1c8639f7e141878],
    te_y = [0x1c96b02f8589620, 0x11a28d079101501, 0x1a11096ad09c2fe, 0x2627194abbafc8b, 0x3547e1b8fbc73c2,
      0x1df6fdcf37be7e2, 0x13552d7073785a9, 0xf4fc2a4a86a9f8, 0x15b227611403a39]\<rparr>,
   \<lparr>te_x = [0x1a5a7b01fbfaf32, 0x298b42f99874862, 0xf5ef5e3b44d5c5, 0x3b7d0eefd891e5c, 0x1260ae5a03ea001,
      0x1a5f18b2a39d0a1, 0x1a7643eb899ebd2, 0x9698da800f99d4, 0xeaef178c51ba07],
    te_y = [0x2cf8e9f9bd51f28, 0x3aef6ea1c48112a, 0x2d3a5bfc836539f, 0x334439bc23e1e02, 0x8241ab0e408a34,
      0x22998a860413284, 0x2048d6843e71ce9, 0x3461e773a14508c, 0x1fa5cba23be1cf3]\<rparr>,
   \<lparr>te_x = [0x3e8c9d22973a15c, 0x3b237750a5e7ccb, 0xa390b6afb3e66f, 0xdaad97bc88e6bd, 0x266c5fcdb0bb1e4,
      0x2bd21c2e3c98807, 0x344e243cffe8a35, 0x5c8996b8a1bcae, 0x114da2e283a51dd],
    te_y = [0x29c9a56c1e3d708, 0x18b4fc72c3be992, 0x298497e875404fe, 0x1acf3a91bebc1c0, 0x283886263138b7d,
      0x70c24241e018d3, 0x3864727e842807, 0x2899fc2bde75f96, 0x104c1b86582b236]\<rparr>,
   \<lparr>te_x = [0x2ff09eda526c894, 0x2fc48052b1f48cc, 0xdcd3cd9293495a, 0x4a4b9ad55adbe5, 0x21036c31bffaaeb,
      0x1ffccb864de5ba, 0x1d67b8a9d237e77, 0x922f59696c360a, 0x1b348edb556db29],
    te_y = [0x2e9f9b2ded46575, 0x32822bfe9a6b3db, 0x33a1f16d37d1496, 0x2c5e279740756ba, 0x1c827cc454a507d,
      0x259399dc178b38a, 0xe46f229b6e4a52, 0x19214158ec2e930, 0xa3e75c24484bc4]\<rparr>,
   \<lparr>te_x = [0x3cb476fd2f6615d, 0x3e6de36636a6a43, 0x1f1cd2bdf1074b7, 0x21a6e55bcc78bf7, 0x3b596eadf2bda30,
      0x156c94e3cf328bd, 0x846db91c09f8b3, 0x190b91bcfdbcf1b, 0x1ff9bb9398e2a14],
    te_y = [0x118d4f5a17bd645, 0xcfaaf6f5b55494, 0x6fc734d0957570, 0x17d7d4f10d401fa, 0x3fd27dd1998ca06,
      0x254b472a652766f, 0x2c101cddc4e3046, 0x2c01e132ad3ee06, 0x346d079f94a56]\<rparr>,
   \<lparr>te_x = [0x1eb8e4fa6bfdedd, 0x28a179e9d31be65, 0x14d13d09a252993, 0x3986697dd9e2f57, 0x20cebb340eaa10b,
      0x36fdea0f4f6c20f, 0xf23e1c633a78b1, 0x20de49992f0fb0c, 0x1c96630f8f107a0],
    te_y = [0x3f4cb4bdef86a80, 0x13b1e0fe0966aee, 0x3604609532c81fa, 0x3322e427a4a92fd, 0x31788416071bb7a,
      0x286ae4a32875cc5, 0x455a57f7f14bec, 0x3a266ffa805b97e, 0x2d7b8c76b9bf21]\<rparr>,
   \<lparr>te_x = [0x28605634b9f8e7d, 0x5dadd8ff162a11, 0x1a7e2feed68a201, 0xf99460c6439e97, 0x2e9377ad6cc6776,
      0x1c0c8c85f5f4040, 0xbb505ccfc47207, 0x9da55cfb80c54d, 0xf31bf1ef8c0f1a],
    te_y = [0x35f5c4b0c935667, 0x14b0e41834ae2d8, 0x2c2e37c3a574741, 0x1302dcb8337bfea, 0x1f4f60247fd5fcc,
      0x2785bccedd0fe6e, 0x34ef9c05c2e3547, 0x2b38e888d311cc1, 0x1244092f279495a]\<rparr>,
   \<lparr>te_x = [0x3fd7851b30f9170, 0x2a87a4dff396c56, 0x15e0928437b9715, 0x1670cbc49cf3ff5, 0x248be1e3488acd2,
      0x296f18ad685173c, 0x156f463a3408607, 0x3870d8a5bac5460, 0x1e7397fad192774],
    te_y = [0x22f99f49c8225b5, 0x3f39251addf134d, 0x35308541e91b33e, 0xd0e3cf5a4d1477, 0x2e727b54e0bd2d9,
      0x188b65002d778b5, 0x36a94b42d929c27, 0x3c814dab39c8d5b, 0x4464a18cd5fcca]\<rparr>,
   \<lparr>te_x = [0x1be0aababa95d63, 0x203185ed2cd1b63, 0x38630e0d8142927, 0xaad5bbc13190c3, 0x1785e3633875be0,
      0x4b24f930a3fae5, 0x2f82a3d5401795c, 0x2bf5a27fd47078d, 0x16b3c48c89510ee],
    te_y = [0x1287ebad4f064be, 0x1f555553af6a65e, 0x1ef2623727ea1a7, 0x24627cd9b1919d1, 0x1c59d6ebda911f5,
      0x1493484df950d73, 0x15b38d3a84daea7, 0xf1271ec774710e, 0x1cca13e7041a82]\<rparr>,
   \<lparr>te_x = [0x399860c874d64b0, 0x16c248594f38318, 0xeaa11986337, 0x258873457459c0, 0x277d70dcd62c679,
      0x16f5336f875f75, 0x2f8f30eff0f2703, 0x16de01dbb1884d8, 0x1d8812048167e44],
    te_y = [0x1749a0e161f9758, 0x2457fa8f13f38a0, 0xe41911dd8afe60, 0x2b1e6946827d4df, 0x2ca5cf8efe36a8,
      0x12415fd59fed52d, 0x244b641bdcae07e, 0x1960edc7fc31690, 0x1064815a5364b60]\<rparr>,
   \<lparr>te_x = [0xc69c3eef39cc39, 0x11593e98d5b45e, 0x3542412fb990983, 0x34de76eca96f4f0, 0xe7e75e3da1d531,
      0x2c051ec52197c62, 0x129ab02dac4e220, 0x1d3bfd6794728cf, 0xf1c964f7fe37b0],
    te_y = [0x80c0a60e301262, 0x1601814e4288b5c, 0x3f9acc8a90299a4, 0x15c5303c70b699d, 0x26e66d9f7dfae90,
      0x1e11a490d997fc5, 0xc307cc866dd8c4, 0x1439316bfa63f13, 0x3960e3ba63e0bf]\<rparr>,
   \<lparr>te_x = [0x2785136959ecdb3, 0x2bd85fe7a566f86, 0x32b8cde0dc88289, 0x2c1f01e78554516, 0x350e22415fe9070,
      0x1635b50bddfc134, 0x3b629ab3ab73723, 0x3f49453f506e6e9, 0x1937b32d80e7400],
    te_y = [0x1d80d4d7147886f, 0x33b5855db2072b9, 0x692642717bbe08, 0x262aed2f487853a, 0x26530308b9dcdf1,
      0x2674671d962f991, 0xab126fbf192dad, 0x378c5568f46ccc1, 0xe943f4be5fa24]\<rparr>,
   \<lparr>te_x = [0x14240587fe9ea48, 0x13e09586d5d21b1, 0x13c78719740af2, 0x1e5c3ae1d3674b1, 0xb62ba3aa27a9be,
      0x306fc2b10ffbe38, 0x3130e10a23f2862, 0x33afd4709dbcd2b, 0x185f6cd1e9aae55],
    te_y = [0xdefa7f40369093, 0x76759616078289, 0x3f33e512ed9e11f, 0x167b448225a6402, 0x28b73c399bf8a84,
      0x3dbd53fa0c91557, 0x25235554a305698, 0xecc4aa75b694f0, 0x16ae6a6f9042a09]\<rparr>,
   \<lparr>te_x = [0x2e123c9152cdd35, 0x390ea21900bbc6c, 0x30dfb9ce5bd5ae6, 0x129d601245224af, 0x3f502eec2b4acb8,
      0x28cfbd3a31fd57f, 0x1d20019c8a7b93a, 0x2f3ac1ac40d5ff6, 0x273e319ff00ba3],
    te_y = [0x2c2f77abe360a3, 0x3d7212b7fbf2986, 0xca6650b6fcc57e, 0x15aabc2c80a693c, 0xa24ef1563f4f8e,
      0x3a917c4d7214228, 0x36dbed8f62fd91, 0x40efcb248e80a0, 0x18a4a9ca4c01a4d]\<rparr>,
   \<lparr>te_x = [0x23fb7985448e339, 0x1dc33c628e65d8a, 0x174d7a69170cde8, 0x164ad819eb04581, 0x848138ab4bb05c,
      0x24279e537834b6c, 0x315f7149dab924, 0x289620e8cdad9e4, 0x13ccd9074d9a335],
    te_y = [0x39c5e0ac1b784d, 0x17231bb949eb87a, 0x2146a1c88ec0ab6, 0x2411b06fd634f21, 0x33fda502a2201f7,
      0x96e4195c73b189, 0x16dfcdff3f88eb2, 0x29731b07c326315, 0xacaa3222aa484f]\<rparr>,
   \<lparr>te_x = [0x3e74bc3c9b4dfd6, 0x2a014fe39d8a4c5, 0x1c059d8c352025b, 0x332e16882d00c1f, 0x2238713591c9036,
      0x2a57ed3bcb18fc2, 0x10c6c61a99d9d8c, 0x259a0f5f13ce661, 0x169162969c96829],
    te_y = [0x113c267cb63ee53, 0x4b985d7ab0d4df, 0x1a11191abfca67b, 0x277b86bda7eccda, 0x11dc11e75ad064,
      0x2e7e5d9535e9bc0, 0x2b133280f030b8d, 0x3318a8800068fc2, 0x194e17c98d239d8]\<rparr>,
   \<lparr>te_x = [0x20d80b41d8fe898, 0x28a2dcc86114d1c, 0x38504f217408d7, 0x35459aa9abfc7cf, 0xcc560e355d381c,
      0x39878b367379821, 0x34951acb041f0a5, 0x2b0b188445bd766, 0xc4509e16d37ee2],
    te_y = [0x2a20c42c6fd79e, 0x1fb938ebde2c3ae, 0x23c1bad819ca95b, 0x37a615495a4f66d, 0x2f9c19d0f10d674,
      0x1f179aa45f7992c, 0x22db6fa03fabaf4, 0x3463a162f12b4b3, 0xc976c2380a1fc9]\<rparr>,
   \<lparr>te_x = [0x1171ef8b064f114, 0x2c55953cbc3d324, 0x185457b262b783c, 0x43cd24db0c149, 0x299a41fed468c67,
      0x1fdfdaa7bc9b4bf, 0x1bfc1bf6da2267a, 0x3b500958ee36e80, 0xe14b36c85c340],
    te_y = [0x257e26425db67e6, 0x3d3a25fcba417d7, 0x2514026c426885d, 0x188fa1d424de0cb, 0x3c538691312be2,
      0x15cd3e7615ad6f6, 0x2a48615b1cae559, 0x2ed61681eff8b56, 0x1d07a4c96f0ce8a]\<rparr>,
   \<lparr>te_x = [0x3f54d05523aa2e9, 0x107833b4f42181e, 0x36e27f9bfb69c88, 0x11058af7e155a0f, 0x107b0dcc9dcb07f,
      0x15e94db98b45e0e, 0x347d3ca2cbb8ab6, 0x18dc262e68349f3, 0x1f2ff154d685eea],
    te_y = [0x28b768a56b232ac, 0x35b8d8fca94aad5, 0x3a168837fc604e8, 0x20f4429da46eba1, 0xf9455fbeebc58a,
      0x359538bab5792bc, 0x3c82551a20d6c37, 0x2e4c63103f2e769, 0xb26d7b3cd760d9]\<rparr>,
   \<lparr>te_x = [0x3090c3ebb2eaf45, 0x1364718bfee4bde, 0x3ea4a736f23ded2, 0x2f5bfc3f78efca8, 0x1ca1102f5b5b99e,
      0x1f80caa2f28ad57, 0x3f17a8f6203cd80, 0x156c55042d122a2, 0x109b86660a7e1dc],
    te_y = [0x148b1da02a2fbd8, 0x217a2cec8ba296c, 0x20e48712b509fed, 0x1231a8f94584de2, 0x1633b503685601,
      0x15449c45c402487, 0x131047939251432, 0x382eded24c7481f, 0xea623e722b8542]\<rparr>,
   \<lparr>te_x = [0x4823d324972688, 0x20f04800fd5d882, 0x26906d0d452858b, 0x210b1bdd1f86535, 0x10146d89a842195,
      0x1146ef0b23e28ba, 0x3284fa29ec1de77, 0x3913fd88adae3df, 0x6083f1dbe97b71],
    te_y = [0x1649333999dd56b, 0x2b02ea5e91f7a66, 0x18aebbe8fb202cf, 0x363d875ef299983, 0x185adc14d47c29d,
      0x3e7f5071bd7ed47, 0x113e6ce65ac7884, 0x274f8739a7753fd, 0x231ace591effe5]\<rparr>]"

definition p521_table_11 :: "sp_table_entry_521 list" where
  "p521_table_11 = [
   \<lparr>te_x = [0x267a438a9fda771, 0x3d94b2198c4038b, 0x1e48e133f23b626, 0x3c80d74b47f7ec6, 0x28d13e878599f88,
      0x2d47381c5c8e844, 0x19ba82890aa292f, 0x52d397ce9c3aef, 0x155dde826733745],
    te_y = [0xb2b77ed6f59a95, 0x214f8c080810802, 0x2ac1ebac779793f, 0x266d5ad99d94894, 0x19722a5006ecdcb,
      0x138aeb412af6e7e, 0x34dd4d26210f3f0, 0x2e034329683fcc0, 0x41333d8080dac0]\<rparr>,
   \<lparr>te_x = [0x51070935a85a06, 0x19b9d90bbc6d13a, 0xb71a07b3a6d4e1, 0xc0ca79aa12a4, 0x13d555259d6dd6c,
      0x3e2b41788312e99, 0x34cccdee3b26af6, 0x19090838f5504aa, 0x1bd79798934a940],
    te_y = [0x2a1d1848e0c7ff0, 0x217bf2550ecd03c, 0x31aef51d318bbae, 0x139d61e3e9ba590, 0x3c2895f52e5d3ed,
      0x3c4419f134a8a76, 0x3f4ee53af278771, 0x1d369b337a59279, 0x19235188da1a56d]\<rparr>,
   \<lparr>te_x = [0x83212003d310ed, 0x3ba33261ec0c46c, 0x1d2684c558a8d20, 0x33adc59fb227952, 0x4bf55bb55e25f3,
      0x1872405eb3c453d, 0x3343c0819edc770, 0x2d7b5d669139b7a, 0x7858df9f7e04c9],
    te_y = [0x3a47ebb3bf13222, 0x147737a81f68453, 0x3ac3c0d8242f1e4, 0x134dbae1c786fa7, 0x2bea3190d93257d,
      0x3af8accfd279dd6, 0x110096406d191f4, 0x2b1e19eab14f030, 0x1f45215cf8bd381]\<rparr>,
   \<lparr>te_x = [0x7e8a8efa493b79, 0x389c2d3ac70ab0e, 0x3fa09ff22320b20, 0x2baa470e4f67ce4, 0x2138a8d965ee1ba,
      0x1ef543937b6a586, 0x23c8e069ab238c9, 0x1305bfda352288d, 0x158af8e00e5ce4c],
    te_y = [0xcdcf06cfc509a1, 0x1047bf09b301d5b, 0x1fd64d9c57f060f, 0x14ccba672b1b433, 0x18b8e9510a95148,
      0x4370ff563e6acf, 0x2f3509a7e98709b, 0x4b1e0e4210f5d7, 0x1b628ccc9d05a93]\<rparr>,
   \<lparr>te_x = [0x1934f00e341463f, 0x229b3854369e807, 0x20fc4109553f14c, 0x16aa4fd2a476d21, 0x32cd58067c23bde,
      0x10cf72027d1f1e1, 0x232a7d1d3300548, 0x176a4302f9fe5d6, 0x12e08b777d588c7],
    te_y = [0x3c1281761a10d37, 0x2d86057143d6977, 0x15db79477c60ed7, 0x1dccf14c42ca2be, 0x53118267a0aa2b,
      0x2d06567e417eaae, 0x337784f40e98166, 0x1ab32732d09485a, 0xc56835d77c6986]\<rparr>,
   \<lparr>te_x = [0x1d714cb2b450a66, 0x222171f6ff7053a, 0xd85b466a0c0131, 0x2656f7f0699956a, 0xe67792d102a21e,
      0x15429e5de835f26, 0x34d3372a01bb57b, 0x352550b1188cd75, 0x8b7be4e1c088da],
    te_y = [0x73b03f95812273, 0x1bb4cbb8fdd5fc6, 0xeae6da6217a2e2, 0x1d098767d3cb1c4, 0x1b7c1da2d9b50b5,
      0x12a1779d0e5c7ea, 0x22137b22c4fb87c, 0x649bdcb0d147b0, 0x1731345668c77ba]\<rparr>,
   \<lparr>te_x = [0x23e8c7a8a3ba183, 0x33aeeff8e27e9cf, 0x6870f9ba60f4e8, 0xd72d806a0e3a91, 0x212e52db455176e,
      0x3dc4afc7e42f709, 0x2054cd95f9e4598, 0x3502e6f4c803efa, 0x17a2cf19bf6dd5f],
    te_y = [0x1cf6ca266736feb, 0x21bd2779f3f8bdc, 0x3ce8fc290563bde, 0x339c9adb93f182a, 0x13f29235baae8a3,
      0x143fe97b48e0911, 0x3ef744a4b557f56, 0x1b74a8514f95044, 0x1b07c676a533e42]\<rparr>,
   \<lparr>te_x = [0x1e603f235d96872, 0x288f30fe96e32bd, 0x71be988dc5fab1, 0x22750c302f55166, 0x764d9cc3e32e84,
      0xb031035fb09a78, 0x3b83b4f7238212f, 0x29044b651860e21, 0x10281fa6712f18],
    te_y = [0x28048f64858b37, 0x526bcd5f797660, 0x791619ebb18e0e, 0x2ce7cac2e82c886, 0x21039cbae210200,
      0x255e74756a1fab9, 0x8515e4efdcddb3, 0x1e2a86ce23aa89e, 0x2c1a552c3cc818]\<rparr>,
   \<lparr>te_x = [0x2c7f5000ea723dc, 0x3c13d10ac548c5e, 0x1445be885c860a5, 0xfffc465c098f52, 0xc4c58cea61f999,
      0x273580db0fee917, 0x3923bbe6d151e6b, 0x3f519d68eac555e, 0x1474ec07c52ceb2],
    te_y = [0x6a3d32ed88239d, 0x2e2b9a0d6b9a531, 0x23259feeb2e70d1, 0x710ef02ed7d3f7, 0x38f62a705223bf7,
      0x3f9e6694f34882d, 0x2b7f932224860e9, 0x2562f61561c0c92, 0x10f8e0f7330b594]\<rparr>,
   \<lparr>te_x = [0x335c7bb3c67d520, 0x12562c8ff2a7b2b, 0x31948bbaa808d8f, 0x33884d7a2b81de3, 0x1c888eff7418c30,
      0x1cc512af376366a, 0x6a53472075df0f, 0x1ff16d527225514, 0x11c4ef389795fbb],
    te_y = [0x3e2c9ac43f5e698, 0x1ff2f38e2978e8f, 0x90e3089c2e1ce7, 0x3feb0756005b417, 0x381b9d2a5a74f3,
      0x17ce582ebbb6888, 0x37abbed958b143f, 0x2dc6197ff414436, 0xce8e97e6807a05]\<rparr>,
   \<lparr>te_x = [0x251e61b8ce86a83, 0x10567efdf9c5808, 0x3dd748f03377860, 0xdd1414890bf049, 0x934ea09b87cb2c,
      0x119e5106f52543d, 0x3a416a5146c403c, 0x23ac7a2b51c408e, 0x1b389b81a60af63],
    te_y = [0x299934ee8150c69, 0x1d642389f052f39, 0x28916a0194ff74f, 0xc86f546dd97702, 0x21877963038f49d,
      0x34ed29a1af0cc17, 0xaf189fe2f3fbff, 0x426c5026cddf5f, 0x1b3029ea13b9b8f]\<rparr>,
   \<lparr>te_x = [0x37938d225a2fd88, 0x3cbdf33ae8180fb, 0x1c80d7a6dff4890, 0xd8a20fe61930f8, 0x2998e530500c78f,
      0x97771cfb64ad64, 0x13708a018a8f1b3, 0xa2edb7ff661f57, 0x59dcd3554f0d1f],
    te_y = [0x3c6e41d23a74e7d, 0x187af976ccb7d85, 0x3fa79e7ffa0b94b, 0x2dcbaede834f0bf, 0x201adf9c3473662,
      0x119e4992a19057b, 0x209c571502c3265, 0x242185a444d24be, 0x195897f34aa2474]\<rparr>,
   \<lparr>te_x = [0x45d359abadc253, 0x12e4b31e5f25792, 0x35bd9a218212e05, 0x17a94ae209c8aa6, 0x22e61c6769bb80a,
      0x22c3e2cfa8e39e3, 0x1d854cfb274b1a0, 0xb5cedaa90b8f6e, 0x1638ba225235601],
    te_y = [0xec0e6f75c8c576, 0x839f392f1f749f, 0x20c869d80726abb, 0x1aa2808fadc2562, 0x276110b15a908c6,
      0x21bd869b2a7d43a, 0xa69d8668c99941, 0x2843e777c8bb4a8, 0x1e0bfee1897bbf8]\<rparr>,
   \<lparr>te_x = [0x2d8681848319e4f, 0x1bdad56961be809, 0x1886267132656be, 0x316614a73eafbd7, 0x162b29cfbac252a,
      0xa98d6379f3117c, 0xac70ee050609a, 0x2c7c3df2e7290a5, 0x1adfb44aaeca885],
    te_y = [0x2b7a936e798678e, 0x7840e655010e19, 0x1e37816860b7ca0, 0x20edd17615fc924, 0xa4705ed6eeffd4,
      0xa9743dd76ecd8a, 0x9fee357d68d49b, 0x35a1b46a14a688e, 0x1addbbc25491a7f]\<rparr>,
   \<lparr>te_x = [0x10cba20969686a3, 0x2c71578f014fd78, 0x313426f47102308, 0x2c5240cc0e05c4a, 0x32d01527b1f9165,
      0x2a68d38916dc805, 0x3e35c86fcf6647a, 0x38e0947d52e52c2, 0xe3fccb22a55a15],
    te_y = [0x271e4ec5b4dc0be, 0xd89236c735712a, 0x3f43046e1007bb1, 0x35f6a72668fcdaf, 0x28349bc505a6806,
      0x4f8214272ff1bb, 0x3448c126871e73e, 0x2ebe579aa889d9f, 0x1b9ba77787c2da7]\<rparr>,
   \<lparr>te_x = [0x2be58eec5a73375, 0x37da75ea2b10e06, 0x150aceca835a175, 0x27d41f4c3cb3cc, 0x3c60b0424b87b06,
      0x43e43b26b94e8a, 0x1689bb4931e1824, 0x6a3914b1f43eb7, 0x13ab4534914763],
    te_y = [0x32dd8568c84f3af, 0x3702486eab8cfab, 0x2a858b96b070829, 0x103a2a094591950, 0x5c35322b42260d,
      0x27b6834ae797b6b, 0x22b90abca795603, 0x14c0a1af41f1ae5, 0x10a2e22dac7b1ec]\<rparr>,
   \<lparr>te_x = [0x25fc09d239d8f0a, 0xb80f2ae2840859, 0x17680173477b92b, 0x27e38d8581390da, 0x19eb061beab38ed,
      0x3a1159c1e6c0247, 0x21a2e0cd4226543, 0xc3e83ddfb1cbf, 0x931d242162760a],
    te_y = [0x29f834cf8646bc3, 0x25294902ba5be7e, 0x3890379177d17df, 0x113ffad9b364070, 0x77b924659dfd06,
      0x3660753e06bb0bb, 0x37b0932df3b7f2c, 0x2762f26f0fda7cd, 0x125daef34f3dd85]\<rparr>,
   \<lparr>te_x = [0x8451ba2c123bc, 0x20e9a02063e952b, 0x170298957b8ad1e, 0xd3c3c4bc595b75, 0x30a9fa14dcc7f2e,
      0xbf9e0b07daa70c, 0x1f54ddefc9a2bbb, 0x294f4c671a5dc2, 0x1dc0b8238cbd646],
    te_y = [0x249290144dfb6f6, 0x35f2d1b900749bd, 0x240e48537ad8270, 0x2d5c3636f6469c2, 0x2f170d58b84d661,
      0xd13874b289c88e, 0x1de1faeeb4cf146, 0x17a9c8957f256ae, 0x1f8cd6e110adbdc]\<rparr>,
   \<lparr>te_x = [0x257c6b978b8a0a7, 0x12badba0cfb7a8a, 0x17c14bd13fe724b, 0x223f0ba3b927918, 0x1fb147eefc41868,
      0x3998b3ee34e6292, 0xba2ece9f191f12, 0x35435861c8a2656, 0x2dbd6d0f1b00b8],
    te_y = [0x15cfdfe24c93cc9, 0x35de02e79c639e2, 0x3a5838baf7eb29e, 0x1f93772fda40722, 0x3a180d6bb022538,
      0x251f1f0992c942f, 0x23f3cd6d68e548c, 0xf34a0a9ed8ca64, 0xfb8f036132d10]\<rparr>,
   \<lparr>te_x = [0x198b3f08cd9d494, 0x196e653d3e7ce0, 0x22203c738fa99b2, 0x536348a72dd992, 0xc51c54b3199f4c,
      0x84e8ccb76b5d71, 0xc7b2f9a32ce0bd, 0x3c82bce88421622, 0xd16defa3625b1f],
    te_y = [0xe0054819a296eb, 0x13fc5746a44c4d1, 0x2d2bfeaa454f1d9, 0xd3502f5ff5f7a, 0x21801a4afae65a8,
      0x178379dd813c51f, 0x172ca0983048f9a, 0x3445e8ec67297fd, 0xe0a237dba71821]\<rparr>,
   \<lparr>te_x = [0x1babf8491630ee8, 0x16270817ad4c07b, 0x2b2da051f47bde6, 0x25884aefa067df4, 0x294292124aeaa9f,
      0x110d796f73b4f57, 0x11f66f691f5b89f, 0x3c368658130ce50, 0xe6b7fc09ca4356],
    te_y = [0x294e413f74f811c, 0xb60c77e36376c4, 0x3217963418c91a4, 0x6223af37b09fd5, 0x2ea305bc95fde52,
      0x319a2d87f75781b, 0x11861ed1e6088a, 0x33af0ccebc05bae, 0x1c95ecb192d15dd]\<rparr>]"

definition p521_table_12 :: "sp_table_entry_521 list" where
  "p521_table_12 = [
   \<lparr>te_x = [0x27b37a3e0bde442, 0x10ffa19bde9cfa4, 0x1d208ed10c2ee05, 0x1069985e8cb4c36, 0xd1d5cf8baf79c3,
      0xeaf3e2f9cd9e1c, 0x2b5e7b02d0dce9e, 0x1c317f88f4b75dc, 0x10b29fceea01ffc],
    te_y = [0x1bcae4d62d803ff, 0x3a44ff6f0c1aa4c, 0x27abd8c1066293e, 0xab9e9b5962bc77, 0x2102f4e06d48578,
      0xdbebf9a449964b, 0x37121391a3127f1, 0x58d11ae4d10220, 0xba53bb4380a31e]\<rparr>,
   \<lparr>te_x = [0x2e517fcca5636b0, 0x1b8085aae8571d8, 0x3d7c212e7b2d429, 0x1b55c5eb6116aa3, 0x398b2f3579517ce,
      0x3d66c1f39d8ae16, 0x3ef6f042f996b5d, 0x2d227cdccaaefcd, 0x15da5d145ea4542],
    te_y = [0x277c55eaa7f6e3f, 0x36669ea92816f07, 0x3d77458282273f4, 0x3eddedd23ee95b5, 0x20629f5d1db0895,
      0x16600fec7121333, 0x20b8d0f5b1c90a3, 0x4fc90eb13ca45c, 0xe98c10bfe872ac]\<rparr>,
   \<lparr>te_x = [0x11c4785c06c4fd6, 0x2e40974970ae767, 0x1eb1d4982f24bf4, 0x30ae93fbcac104d, 0x398de07ab3ab3ed,
      0x25bd2df556948e7, 0x4c815d5fc49ab0, 0x1acaf1428a580e1, 0x47db1148d01567],
    te_y = [0x9f9cc510f3bad9, 0x2223f008a407531, 0x15ebc47b44df490, 0x31bce7cada245e9, 0x304e9962a20b2eb,
      0x1cf756dc31638eb, 0x29f76c52ab7c1b5, 0x328ecad52b75a8c, 0x10859dad1eb82f4]\<rparr>,
   \<lparr>te_x = [0x22c4128a182d1ad, 0x5e5b88245b1159, 0x272ba681647775, 0x3eae4b217069dc1, 0x3aefb2e07fac8b0,
      0x2186ccb481eacb7, 0x2ed145c73530a07, 0x292758f6fb59622, 0xbd547bcdca0a53],
    te_y = [0x3c1382f87056b51, 0x247b6c4c3e644a9, 0x1e46d3805b42c3d, 0x3aff4c6a657df1f, 0xcd3fb8aa456101,
      0x3ac5ef387bf48ad, 0x2c0c32fe391df79, 0x3bbd2d353031985, 0x11219f023be711b]\<rparr>]"

definition p521_table :: "sp_table_entry_521 list" where
  "p521_table =
    p521_table_0 @ p521_table_1 @ p521_table_2 @ p521_table_3 @ p521_table_4 @ p521_table_5 @ p521_table_6 @ p521_table_7 @ p521_table_8 @ p521_table_9 @ p521_table_10 @ p521_table_11 @ p521_table_12"

definition sp_521_ecc_mulmod_base_9 :: "sp_point_521 \<Rightarrow> sp_point_521 \<Rightarrow> int list \<Rightarrow> bool \<Rightarrow> bool \<Rightarrow> sp_point_521" where
  "sp_521_ecc_mulmod_base_9 junk r k to_affine ct = sp_521_ecc_mulmod_stripe_9 junk r p521_table k to_affine ct"

section \<open>The shape of the table\<close>

definition entry_digits :: "int list \<Rightarrow> bool" where
  "entry_digits a \<longleftrightarrow> length a = 9 \<and> list_all (\<lambda>x. 0 \<le> x \<and> x < 0x400000000000000) a \<and> last a < 0x200000000000000"

definition entry_shape :: "sp_table_entry_521 \<Rightarrow> bool" where
  "entry_shape e \<longleftrightarrow> entry_digits (te_x e) \<and> entry_digits (te_y e)"

lemma entry_digits_fe521:
  assumes "entry_digits a"
  shows "fe521 a"
proof -
  have l: "length a = 9" and d: "digits_in 0 (2 ^ 58) a" and t: "last a < 2 ^ 57"
    using assms by (simp_all add: entry_digits_def list_all_iff digits_in_def)
  have a: "a = butlast a @ [last a]" using l by (cases "a = []") simp_all
  have "digits_in 0 (2 ^ 58) (butlast a)" using d by (auto simp: digits_in_def dest: in_set_butlastD)
  from lval_upper [OF this] have b: "lval 58 (butlast a) < 2 ^ 464" using l by simp
  have "lval 58 a = lval 58 (butlast a) + 2 ^ 464 * last a" using l by (subst a) (simp add: lval_append)
  also have "\<dots> \<le> (2 ^ 464 - 1) + 2 ^ 464 * (2 ^ 57 - 1)" using b t by (intro add_mono mult_left_mono) simp_all
  also have "\<dots> = P521" by (simp add: P521_def)
  finally have "lval 58 a \<le> P521" .
  moreover have "digits_in 0 (2 ^ 58 + 1) a" using d by (rule digits_in_mono) simp_all
  ultimately show ?thesis using l by (simp add: fe521_def val521_def)
qed

lemma p521_table_0_shape: "length p521_table_0 = 21 \<and> list_all entry_shape p521_table_0"
  by (simp add: p521_table_0_def entry_shape_def entry_digits_def)

lemma p521_table_1_shape: "length p521_table_1 = 21 \<and> list_all entry_shape p521_table_1"
  by (simp add: p521_table_1_def entry_shape_def entry_digits_def)

lemma p521_table_2_shape: "length p521_table_2 = 21 \<and> list_all entry_shape p521_table_2"
  by (simp add: p521_table_2_def entry_shape_def entry_digits_def)

lemma p521_table_3_shape: "length p521_table_3 = 21 \<and> list_all entry_shape p521_table_3"
  by (simp add: p521_table_3_def entry_shape_def entry_digits_def)

lemma p521_table_4_shape: "length p521_table_4 = 21 \<and> list_all entry_shape p521_table_4"
  by (simp add: p521_table_4_def entry_shape_def entry_digits_def)

lemma p521_table_5_shape: "length p521_table_5 = 21 \<and> list_all entry_shape p521_table_5"
  by (simp add: p521_table_5_def entry_shape_def entry_digits_def)

lemma p521_table_6_shape: "length p521_table_6 = 21 \<and> list_all entry_shape p521_table_6"
  by (simp add: p521_table_6_def entry_shape_def entry_digits_def)

lemma p521_table_7_shape: "length p521_table_7 = 21 \<and> list_all entry_shape p521_table_7"
  by (simp add: p521_table_7_def entry_shape_def entry_digits_def)

lemma p521_table_8_shape: "length p521_table_8 = 21 \<and> list_all entry_shape p521_table_8"
  by (simp add: p521_table_8_def entry_shape_def entry_digits_def)

lemma p521_table_9_shape: "length p521_table_9 = 21 \<and> list_all entry_shape p521_table_9"
  by (simp add: p521_table_9_def entry_shape_def entry_digits_def)

lemma p521_table_10_shape: "length p521_table_10 = 21 \<and> list_all entry_shape p521_table_10"
  by (simp add: p521_table_10_def entry_shape_def entry_digits_def)

lemma p521_table_11_shape: "length p521_table_11 = 21 \<and> list_all entry_shape p521_table_11"
  by (simp add: p521_table_11_def entry_shape_def entry_digits_def)

lemma p521_table_12_shape: "length p521_table_12 = 4 \<and> list_all entry_shape p521_table_12"
  by (simp add: p521_table_12_def entry_shape_def entry_digits_def)

lemma p521_table_shape: "length p521_table = 256 \<and> list_all entry_shape p521_table"
  by (simp add: p521_table_def p521_table_0_shape
      p521_table_1_shape
      p521_table_2_shape
      p521_table_3_shape
      p521_table_4_shape
      p521_table_5_shape
      p521_table_6_shape
      p521_table_7_shape
      p521_table_8_shape
      p521_table_9_shape
      p521_table_10_shape
      p521_table_11_shape
      p521_table_12_shape)

lemma entry_shape_wf: "entry_shape e \<Longrightarrow> wf_pt (entry_point e)"
  using entry_digits_fe521 fe521_consts(2)
  by (auto simp: wf_pt_def entry_point_def entry_shape_def fe521_def val521_def)

lemma p521_table_lengths: "table_lengths p521_table"
  using p521_table_shape by (auto simp: table_lengths_def list_all_iff entry_shape_def entry_digits_def)

lemma p521_table_wf: "comb_wf.stripe_table p521_table"
  using p521_table_shape p521_table_lengths by (auto simp: comb_wf.stripe_table_def list_all_length entry_shape_wf)

lemma p521_table_first:
  "te_x (p521_table ! 0) = replicate 9 0" "te_y (p521_table ! 0) = replicate 9 0"
  "entry_point (p521_table ! 1) = p521_base"
  by (simp_all add: p521_table_def p521_table_0_def entry_point_def p521_base_def p521_norm_mod_def numeral_eq_Suc)

section \<open>Properties\<close>

text \<open>C13: The table of the base point is well-typed and serves every scalar: it has 256 entries of two times nine
  digits below \<open>2\<^sup>5\<^sup>8\<close> with a top digit below \<open>2\<^sup>5\<^sup>7\<close>, entry 0 is zero and entry 1 is the base point, which is on the
  curve; the multiplication of the base point by any scalar below \<open>2\<^sup>5\<^sup>2\<^sup>1\<close> reads within the table, gives the
  same result with cache-resistant and with direct reads, and leaves three reduced coordinates or
  the infinity mark.\<close>

theorem sp_521_ecc_mulmod_base_9_typed:
  fixes junk r :: sp_point_521
  assumes "length k = 9" "digits_in 0 (2 ^ 58) k" "lval 58 k < 2 ^ 521"
  defines "p \<equiv> \<lambda>ct. sp_521_ecc_mulmod_base_9 junk r k False ct"
  shows "length p521_table = 256 \<and> list_all entry_shape p521_table \<and>
    te_x (p521_table ! 0) = replicate 9 0 \<and> te_y (p521_table ! 0) = replicate 9 0 \<and>
    entry_point (p521_table ! 1) = p521_base \<and> valid521 p521_base \<and>
    (\<forall>i. 0 \<le> comb_index k i \<and> nat (comb_index k i) < length p521_table) \<and> p True = p False \<and>
    (infinity (p True) = 0 \<and> wf_pt (p True) \<or> infinity (p True) = 1)"
proof -
  note k = digs9_self [OF assms(1,2)] and V = lval_nonneg [OF assms(2), of 58] assms(3)
  note c = comb_index_weight(1,2) [OF V, unfolded k]
  have "nat (comb_index k i) < 256" for i using c [of i] by simp
  moreover have "p True = p False"
    unfolding p_def sp_521_ecc_mulmod_base_9_def by (rule stripe_ct [OF p521_table_lengths p521_table_first(1,2)]) (use c in blast)
  moreover have "infinity (p True) = 0 \<and> wf_pt (p True) \<or> infinity (p True) = 1"
    using comb_wf.held_stripe [OF p521_table_wf V] by (auto simp: p_def sp_521_ecc_mulmod_base_9_def k comb_wf.held_def)
  ultimately show ?thesis using c p521_table_shape p521_table_first base_curve by simp
qed

theorem sp_521_ecc_mulmod_base_9_typed_witness:
  "sp_521_ecc_mulmod_base_9 p521_base p521_base p521_order2 False True =
     sp_521_ecc_mulmod_base_9 p521_base p521_base p521_order2 False False \<and> entry_point (p521_table ! 1) = p521_base"
  using sp_521_ecc_mulmod_base_9_typed [OF order2_scalar] by blast

end
