(* ===== verification/Sp521Div.thy ===== *)
theory Sp521Div
  imports Sp521Point
begin

text \<open>
  Reduction modulo a 521-bit number by trial division (\<open>sp_521_div_9\<close>, with the
  repository's correction after the loop) and the check that a point is on the
  curve, which is its first client.

  The temporaries of \<open>sp_521_div_9\<close> are stack arrays (\<^verbatim>\<open>SP_DECL_VAR\<close> without
  \<^verbatim>\<open>WOLFSSL_SP_SMALL_STACK\<close>), so that it cannot fail: \<open>t1\<close> has 19 digits,
  \<open>t2\<close> and \<open>sd\<close> ten.
\<close>

section \<open>Shifts and scalar products\<close>

definition sp_521_rshift_9 :: "int list \<Rightarrow> nat \<Rightarrow> int list" where
  "sp_521_rshift_9 a n =
     map (\<lambda>i. sar (a ! i) n OR (s64 (a ! (i + 1) * 2 ^ (58 - n)) AND 0x3ffffffffffffff)) [0..<8]
       @ [sar (a ! 8) n]"

definition sp_521_mul_d_9 :: "int list \<Rightarrow> int \<Rightarrow> int list" where
  "sp_521_mul_d_9 a b = split_cols 58 (map (\<lambda>x. s128 (b * x)) (take 9 a))"

definition sp_521_lshift_18 :: "int list \<Rightarrow> nat \<Rightarrow> int list" where
  "sp_521_lshift_18 a n =
     (s64 (a ! 0 * 2 ^ n) AND 0x3ffffffffffffff) #
     map (\<lambda>i. (u64 (u64 (a ! i) * 2 ^ n) OR u64 (a ! (i - 1)) div 2 ^ (58 - n)) AND 0x3ffffffffffffff)
       [1..<18] @
     [s64 (u64 (a ! 17) div 2 ^ (58 - n))]"

section \<open>Division\<close>

text \<open>\<open>put i ys xs\<close>: the digits \<open>ys\<close> written to \<open>xs\<close> from index \<open>i\<close>.\<close>

definition put :: "nat \<Rightarrow> int list \<Rightarrow> int list \<Rightarrow> int list" where
  "put i ys xs = take i xs @ ys @ drop (i + length ys) xs"

text \<open>
  The loop body works on the window \<open>t1[i .. 9 + i]\<close> of ten digits:
  \<open>sp_521_norm_9(&t1[i + 1])\<close> normalises all digits of it but the first.
\<close>

definition sp_521_div_window :: "int list \<Rightarrow> int list \<Rightarrow> int list" where
  "sp_521_div_window sd w =
    (let r1 = w ! 9;
         t2 = sp_521_mul_d_9 sd r1;
         w = sp_521_sub_9 w t2 @ [s64 (w ! 9 - t2 ! 9)];
         w = hd w # sp_521_norm_9 (tl w);
         mask = NOT (sar (s64 (w ! 9 - 1)) 63);
         w = sp_521_cond_sub_9 w sd mask @ [w ! 9]
     in hd w # sp_521_norm_9 (tl w))"

definition sp_521_div_step :: "int list \<Rightarrow> int list \<Rightarrow> nat \<Rightarrow> int list" where
  "sp_521_div_step sd t1 i = put i (sp_521_div_window sd (take 10 (drop i t1))) t1"

definition sp_521_div_9 :: "int list \<Rightarrow> int list \<Rightarrow> int list" where
  "sp_521_div_9 a d =
    (let sd = sp_521_mul_d_9 d (2 ^ 1);
         t1 = sp_521_lshift_18 a 1;
         t1 = t1[18 := s64 (t1 ! 18 + sar (t1 ! 17) 58)];
         t1 = t1[17 := t1 ! 17 AND 0x3ffffffffffffff];
         t1 = foldl (sp_521_div_step sd) t1 (rev [0..<9]);
         t1 = put 0 (sp_521_norm_9 t1) t1;
         mask = sar (t1 ! 8) 63;
         t1 = put 0 (map2_s64 (\<lambda>x y. x + (y AND mask)) (take 9 t1) (take 9 sd)) t1;
         t1 = put 0 (sp_521_norm_9 t1) t1
     in sp_521_rshift_9 t1 1)"

definition sp_521_mod_9 :: "int list \<Rightarrow> int list \<Rightarrow> int list" where
  "sp_521_mod_9 a m = sp_521_div_9 a m"

section \<open>Points on the curve\<close>

definition sp_521_ecc_is_point_9 :: "sp_point_521 \<Rightarrow> sp_ret" where
  "sp_521_ecc_is_point_9 point =
    (let t1 = sp_521_sqr_9 (pt_y point);
         t1 = sp_521_mod_9 t1 p521_mod;
         t2 = sp_521_sqr_9 (pt_x point);
         t2 = sp_521_mod_9 t2 p521_mod;
         t2 = sp_521_mul_9 t2 (pt_x point);
         t2 = sp_521_mod_9 t2 p521_mod;
         t1 = sp_521_mont_sub_9 t1 t2 p521_mod;
         t1 = sp_521_mont_add_9 t1 (pt_x point) p521_mod;
         t1 = sp_521_mont_add_9 t1 (pt_x point) p521_mod;
         t1 = sp_521_mont_add_9 t1 (pt_x point) p521_mod
     in if sp_521_cmp_9 t1 p521_b \<noteq> 0 then MP_VAL else MP_OKAY)"

section \<open>Windows\<close>

text \<open>Digit-wise operations on the first nine digits of a window.\<close>

lemma window_list: "length w = 10 \<Longrightarrow> take 9 w @ [w ! 9] = w"
  using take_Suc_conv_app_nth [of 9 w] by simp

lemma sub_window:
  assumes "length w = 10" "length t = 10"
  shows "sp_521_sub_9 w t @ [s64 (w ! 9 - t ! 9)] = map2_s64 (-) w t"
proof -
  have "map2_s64 (-) (take 9 w @ [w ! 9]) (take 9 t @ [t ! 9]) = sp_521_sub_9 w t @ [s64 (w ! 9 - t ! 9)]"
    using assms by (simp add: map2_s64_def sp_521_sub_9_def)
  then show ?thesis by (simp only: window_list assms)
qed

lemma norm_tail_9:
  assumes "length w = 10" "length t = 10"
    and "digits_in (- (2 ^ 60)) (2 ^ 60) w" "digits_in 0 (2 ^ 60) t"
  shows "hd (map2_s64 (-) w t) # sp_521_norm_9 (tl (map2_s64 (-) w t))
      = (hd w - hd t) # digs 58 9 (lval 58 (tl w) - lval 58 (tl t))"
proof -
  have "map2_s64 (-) w t = map2 (-) w t"
    by (rule map2_s64_diff) (use assms in \<open>auto intro: digits_in_mono\<close>)
  moreover obtain w0 ws t0 ts where wt: "w = w0 # ws" "t = t0 # ts" "length ws = 9" "length ts = 9"
    using assms by (cases w; cases t) simp_all
  moreover have d: "digits_in (- (2 ^ 60) - 2 ^ 60) (2 ^ 60 - 0) (map2 (-) ws ts)"
    using assms(3,4) by (intro digits_in_map2_diff) (simp_all add: wt)
  have "sp_521_norm_9 (map2 (-) ws ts) = digs 58 9 (val521 (map2 (-) ws ts))"
    by (intro sp_521_norm_9_digs digits_in_take digits_in_mono [OF d]) (simp_all add: wt)
  ultimately show ?thesis by (simp add: val521_def lval_map2_diff wt)
qed

lemma lval_hd_tl: "xs \<noteq> [] \<Longrightarrow> lval b xs = hd xs + 2 ^ b * lval b (tl xs)"
  by (cases xs) simp_all

text \<open>
  \<open>div_clear v\<close>: the lowest 464 bits of \<open>v\<close> are not within \<open>2\<^sup>5\<^sup>9\<close> of
  \<open>2\<^sup>4\<^sup>6\<^sup>4\<close>.  Where the partial remainder is clear, the digit the step leaves
  unnormalised cannot disturb the quotient digit or the comparison.
\<close>

definition div_clear :: "int \<Rightarrow> bool" where
  "div_clear v \<longleftrightarrow> v mod 2 ^ 464 + 2 ^ 59 \<le> 2 ^ 464"

lemma quotient_digit:
  fixes e U :: int
  assumes "- (2 ^ 59) < e" "e < 2 ^ 58" "0 \<le> U" "0 \<le> e + 2 ^ 58 * U"
    and clear: "0 \<le> e \<or> div_clear (e + 2 ^ 58 * U)"
  defines "m \<equiv> e + 2 ^ 58 * U - 2 ^ 464 * (U div 2 ^ 406)"
  shows "0 \<le> m" "m < 2 ^ 464"
proof -
  define u where "u = U mod 2 ^ 406"
  have u: "0 \<le> u" "u < 2 ^ 406" by (simp_all add: u_def)
  have "U = 2 ^ 406 * (U div 2 ^ 406) + u" by (simp add: u_def)
  then have "2 ^ 58 * U = 2 ^ (58 + 406) * (U div 2 ^ 406) + 2 ^ 58 * u"
    by (metis distrib_left mult.assoc power_add)
  then have m: "m = e + 2 ^ 58 * u" by (simp add: m_def)
  show "m < 2 ^ 464" using u assms(2) by (simp add: m)
  show "0 \<le> m"
  proof (rule ccontr)
    assume neg: "\<not> 0 \<le> m"
    with u m have "e < 0" by simp
    with clear have "div_clear (e + 2 ^ 58 * U)" by simp
    moreover have "(e + 2 ^ 58 * U) mod 2 ^ 464 = m mod 2 ^ 464"
      unfolding m_def by (simp add: mod_diff_right_eq [symmetric])
    moreover have "m mod 2 ^ 464 = m + 2 ^ 464"
    proof -
      have "m mod 2 ^ 464 = (m + 2 ^ 464) mod 2 ^ 464" by simp
      also have "\<dots> = m + 2 ^ 464"
        using neg m u assms(1) by (intro mod_pos_pos_trivial) simp_all
      finally show ?thesis .
    qed
    moreover have "- (2 ^ 59) < m" using m u assms(1) by simp
    ultimately show False by (simp add: div_clear_def)
  qed
qed

text \<open>
  The inputs on which every partial remainder the loop passes on is clear, and is not left unreduced
  close below \<open>2\<^sup>5\<^sup>2\<^sup>2\<close>.
\<close>

definition div_safe :: "int \<Rightarrow> int \<Rightarrow> bool" where
  "div_safe M a \<longleftrightarrow> list_all (\<lambda>j. let v = 2 * a div 2 ^ (58 * j) mod (2 * M)
     in div_clear v \<and> \<not> (2 ^ 522 - 2 * M - 2 ^ 59 < v \<and> v < 2 ^ 522 - 2 * M - 2 ^ 58)) [1..<9]"

section \<open>The shift by one bit\<close>

lemma lshift_18_digs:
  assumes "0 \<le> a" "a < 2 ^ 1043"
  shows "sp_521_lshift_18 (digs 58 18 a) 1 = digs 58 18 (2 * a) @ [0]"
proof (rule nth_equalityI)
  let ?x = "digs 58 18 a"
  have "a < 2 ^ (58 * 18)" using assms by simp
  then have dx: "digits_in 0 (2 ^ 58) ?x" by (intro digs_digits_in assms(1))
  have xr: "0 \<le> ?x ! i \<and> ?x ! i < 2 ^ 58" if "i < 18" for i
    using digits_in_nth [OF dx] that by simp
  show "length (sp_521_lshift_18 ?x 1) = length (digs 58 18 (2 * a) @ [0])"
    by (simp add: sp_521_lshift_18_def)
  fix i assume "i < length (sp_521_lshift_18 ?x 1)"
  then have "i < 19" by (simp add: sp_521_lshift_18_def)
  then consider "i = 0" | "1 \<le> i" "i < 18" | "i = 18" by linarith
  then show "sp_521_lshift_18 ?x 1 ! i = (digs 58 18 (2 * a) @ [0]) ! i"
  proof cases
    case 1
    have "s64 (?x ! 0 * 2 ^ 1) AND (2 ^ 58 - 1) = (?x ! 0 * 2) mod 2 ^ 58"
      by (simp only: s64_and_mask) simp
    also have "\<dots> = (a mod 2 ^ 58 * 2) mod 2 ^ 58" by (simp add: digs_nth)
    also have "\<dots> = (a * 2) mod 2 ^ 58" by (rule mod_mult_left_eq)
    also have "\<dots> = (2 * a) mod 2 ^ 58" by (simp only: mult.commute)
    finally show ?thesis using 1 by (simp add: sp_521_lshift_18_def nth_append digs_nth)
  next
    case 2
    then obtain j where j: "i = Suc j" "j < 17" by (cases i) simp_all
    define u where "u = a div 2 ^ (58 * j)"
    have xj: "?x ! j = u mod 2 ^ 58" using j by (simp add: digs_nth u_def)
    have "u div 2 ^ 58 = a div 2 ^ (58 * i)" unfolding u_def div_div_pow by (simp add: j algebra_simps)
    then have xi: "?x ! i = (if i = 17 then u div 2 ^ 58 else u div 2 ^ 58 mod 2 ^ 58)"
      using 2 by (subst digs_nth) auto
    have c: "0 \<le> u mod 2 ^ 58 div 2 ^ 57" "u mod 2 ^ 58 div 2 ^ 57 < 2 ^ 1"
      using mod_div_pow [of u 57 1] by simp_all
    have "u64 (?x ! i) = ?x ! i" "u64 (?x ! i * 2 ^ 1) = ?x ! i * 2 ^ 1" "u64 (?x ! j) = ?x ! j"
      using xr [of i] xr [of j] 2 j by (simp_all add: u64_id)
    then have "(u64 (u64 (?x ! i) * 2 ^ 1) OR u64 (?x ! j) div 2 ^ 57) AND (2 ^ 58 - 1)
        = (u mod 2 ^ 58 div 2 ^ 57 OR 2 ^ 1 * ?x ! i) mod 2 ^ 58"
      by (simp only: and_mask_mod xj or.commute mult.commute)
    also have "\<dots> = (u mod 2 ^ 58 div 2 ^ 57 + 2 * ?x ! i) mod 2 ^ 58"
      using or_bit_add [OF c, of "?x ! i"] by (simp only: power_one_right)
    also have "\<dots> = u div 2 ^ 57 mod 2 ^ 58"
      unfolding xi by (cases "i = 17") (simp_all only: simp_thms if_True if_False fold_digit)
    also have "u div 2 ^ 57 = 2 * a div 2 ^ (58 * i)"
    proof -
      have "2 * a div 2 ^ (1 + (58 * j + 57)) = 2 * a div 2 ^ 1 div 2 ^ (58 * j + 57)"
        by (simp only: div_div_pow)
      moreover have "u div 2 ^ 57 = a div 2 ^ (58 * j + 57)" unfolding u_def div_div_pow ..
      moreover have "58 * i = 1 + (58 * j + 57)" by (simp add: j)
      ultimately show ?thesis by simp
    qed
    also have "2 * a div 2 ^ (58 * i) mod 2 ^ 58 = digs 58 18 (2 * a) ! i"
    proof (cases "i = 17")
      case True
      have "2 * a div 2 ^ 986 < 2 ^ 58" by (rule div_less_of_less_mult) (use assms in simp_all)
      moreover have "0 \<le> 2 * a div 2 ^ 986" using assms by (simp add: pos_imp_zdiv_nonneg_iff)
      ultimately have "2 * a div 2 ^ 986 mod 2 ^ 58 = 2 * a div 2 ^ 986" by (intro mod_pos_pos_trivial)
      moreover have "digs 58 18 (2 * a) ! i = 2 * a div 2 ^ 986" by (simp add: digs_nth True)
      ultimately show ?thesis by (simp only: True) simp
    qed (use 2 in \<open>simp add: digs_nth\<close>)
    finally show ?thesis
      using 2 j by (simp add: sp_521_lshift_18_def nth_append nth_Cons' del: upt_rec_numeral)
  next
    case 3
    have "?x ! 17 = a div 2 ^ 986" by (simp add: digs_nth)
    moreover have "a div 2 ^ 986 < 2 ^ 57" by (rule div_less_of_less_mult) (use assms in simp_all)
    ultimately have "0 \<le> ?x ! 17" "?x ! 17 < 2 ^ 57" using xr [of 17] by simp_all
    then have "s64 (u64 (?x ! 17) div 2 ^ 57) = 0" by (simp add: u64_id s64_def)
    then show ?thesis using 3 by (simp add: sp_521_lshift_18_def nth_append del: upt_rec_numeral)
  qed
qed

lemma rshift_9_rshift1:
  assumes "digits_in 0 (2 ^ 58) (take 9 a)" "9 \<le> length a"
  shows "sp_521_rshift_9 a 1 = sp_521_rshift1_9 a"
proof -
  have "sar (a ! i) 1 OR (s64 (a ! (i + 1) * 2 ^ 57) AND 0x3ffffffffffffff)
      = s64 (sar (a ! i) 1 + (s64 (a ! (i + 1) * 2 ^ 57) AND 0x3ffffffffffffff))" if "i < 8" for i
  proof -
    define y where "y = a ! (i + 1)"
    have "0 \<le> a ! i \<and> a ! i < 2 ^ 58"
      using digits_in_nth [OF assms(1), of i] assms(2) that by simp
    then have h: "0 \<le> sar (a ! i) 1" "sar (a ! i) 1 < 2 ^ 57"
      by (simp_all add: sar_def div_less_of_less_mult)
    have "s64 (y * 2 ^ 57) AND (2 ^ 58 - 1) = y * 2 ^ 57 mod 2 ^ (57 + 1)"
      by (simp only: s64_and_mask) simp
    also have "\<dots> = 2 ^ 57 * (y mod 2)"
      by (simp only: power_add power_one_right mult.commute [of y] mult_mod_right)
    finally have m: "s64 (y * 2 ^ 57) AND 0x3ffffffffffffff = 2 ^ 57 * (y mod 2)" by simp
    have "s64 (sar (a ! i) 1 + 2 ^ 57 * c) = sar (a ! i) 1 + 2 ^ 57 * c" if "0 \<le> c" "c < 2" for c
      by (rule s64_id) (use h that in simp_all)
    then have "s64 (sar (a ! i) 1 + 2 ^ 57 * (y mod 2)) = sar (a ! i) 1 + 2 ^ 57 * (y mod 2)" by simp
    then show ?thesis by (simp only: m y_def [symmetric] or_bit_add [OF h])
  qed
  then show ?thesis by (simp add: sp_521_rshift_9_def sp_521_rshift1_9_def del: upt_rec_numeral)
qed

section \<open>Divisors\<close>

lemma put_window:
  "length xs = i \<Longrightarrow> length w = length v \<Longrightarrow> put i v (xs @ w @ rest) = xs @ v @ rest"
  by (simp add: put_def)

text \<open>
  The division relies on a divisor just below \<open>2\<^sup>5\<^sup>2\<^sup>1\<close>: then the top digit of the remainder is the
  quotient digit, or one less.  Both moduli of the curve, the prime and the group order, are of this
  form.  \<open>sd\<close> is the doubled divisor the loop subtracts.
\<close>

locale divisor =
  fixes d sd :: "int list" and M :: int
  assumes mul_d: "sp_521_mul_d_9 d 2 = sd"
    and sd: "length sd = 10" "digits_in 0 (2 ^ 58) sd" "lval 58 (take 9 sd) = 2 * M"
    and M: "2 ^ 521 - 2 ^ 260 \<le> M" "M < 2 ^ 521"
begin

definition low :: int where
  "low = hd sd"

definition high :: int where
  "high = lval 58 (tl (take 9 sd))"

definition gap :: int where
  "gap = 2 ^ 522 - 2 * M"

lemma gap: "2 \<le> gap" "gap \<le> 2 ^ 261" "2 * M = 2 ^ 522 - gap"
  using M by (simp_all add: gap_def)

lemma sd_split: "2 * M = low + 2 ^ 58 * high" "0 \<le> low" "low < 2 ^ 58"
proof -
  obtain x xs where sx: "sd = x # xs" "9 \<le> length xs" using sd(1) by (cases sd) auto
  then have t: "take 9 sd = x # take 8 xs" by (simp add: numeral_eq_Suc)
  show "2 * M = low + 2 ^ 58 * high" unfolding sd(3) [symmetric] low_def high_def t by (simp add: sx)
  show "0 \<le> low" "low < 2 ^ 58" using sd(2) unfolding low_def by (simp_all add: sx)
qed

lemma high: "2 ^ 464 - 2 ^ 204 \<le> high" "high \<le> 2 ^ 464 - 1"
  using gap sd_split by simp_all


lemma mul_d_sd:
  assumes "0 \<le> q" "q < 2 ^ 58"
  defines "t \<equiv> sp_521_mul_d_9 sd q"
  shows "length t = 10" "digits_in 0 (2 ^ 59) t" "lval 58 t = q * (2 * M)" "hd t = (q * low) mod 2 ^ 58"
proof -
  have d9: "digits_in 0 (2 ^ 58) (take 9 sd)" using sd(2) by (rule digits_in_take)
  define ts where "ts = map ((*) q) (take 9 sd)"
  have tb: "0 \<le> z \<and> z < 2 ^ 116" if z: "z \<in> set ts" for z
  proof -
    obtain x where x: "x \<in> set (take 9 sd)" "z = q * x" using z by (auto simp: ts_def)
    then have "0 \<le> x" "x < 2 ^ 58" using d9 by (auto simp: digits_in_def)
    then have "q * x < 2 ^ 58 * 2 ^ 58" using assms by (intro mult_strict_mono') (auto simp: x)
    with assms x \<open>0 \<le> x\<close> show ?thesis by simp
  qed
  have "s128 z = z" if "z \<in> set ts" for z using tb [OF that] by (intro s128_id) simp_all
  then have "map s128 ts = ts" by (intro map_idI) blast
  then have s: "map (\<lambda>x. s128 (q * x)) (take 9 sd) = ts" by (simp add: ts_def comp_def)
  have t: "t = split_cols 58 ts" by (simp add: t_def sp_521_mul_d_9_def s)
  have td: "digits_in (- (2 ^ (62 + 58))) (2 ^ (62 + 58)) ts"
    using tb by (force simp: digits_in_def)
  have e: "t = map2 (+) (0 # map (\<lambda>t. t div 2 ^ 58) ts) (map (\<lambda>t. t mod 2 ^ 58) ts @ [0])"
    unfolding t by (rule split_cols_exact) (use td in simp_all)
  show "length t = 10" by (simp add: t ts_def sd)
  have "digits_in 0 (2 ^ 58) (0 # map (\<lambda>t. t div 2 ^ 58) ts)"
    using tb by (auto simp: digits_in_def pos_imp_zdiv_nonneg_iff intro!: div_less_of_less_mult)
  moreover have "digits_in 0 (2 ^ 58) (map (\<lambda>t. t mod 2 ^ 58) ts @ [0])"
    by (auto simp: digits_in_def)
  ultimately have "digits_in (0 + 0) (2 ^ 58 + 2 ^ 58) t"
    unfolding e by (rule digits_in_map2_add)
  then show "digits_in 0 (2 ^ 59) t" by simp
  have "lval 58 t = lval 58 ts" unfolding t by (rule lval_split_cols) (use td in simp_all)
  then show "lval 58 t = q * (2 * M)" by (simp only: ts_def lval_scale sd)
  obtain x xs where "sd = x # xs" using sd(1) by (cases sd) auto
  then show "hd t = (q * low) mod 2 ^ 58" unfolding e low_def by (simp add: ts_def numeral_eq_Suc)
qed

lemma cond_sub_window:
  assumes "length w = 10" "- (2 ^ 63) \<le> w ! 9" "w ! 9 < 2 ^ 63"
  shows "sp_521_cond_sub_9 w sd (if c then - 1 else 0) @ [w ! 9]
      = map2_s64 (-) w (map (\<lambda>y. if c then y else 0) (take 9 sd) @ [0])"
proof -
  have "s64 (w ! 9) = w ! 9" using assms by (intro s64_id)
  then have "map2_s64 (-) (take 9 w @ [w ! 9]) (map (\<lambda>y. if c then y else 0) (take 9 sd) @ [0])
      = map2_s64 (-) (take 9 w) (map (\<lambda>y. if c then y else 0) (take 9 sd)) @ [w ! 9]"
    using assms(1) by (simp add: map2_s64_def sd)
  then show ?thesis
    by (simp only: window_list [OF assms(1)] sp_521_cond_sub_9_def map2_s64_masked)
qed

lemma masked_sd:
  defines "s \<equiv> \<lambda>c. map (\<lambda>y. if c then y else 0) (take 9 sd) @ [0]"
  shows "length (s c) = 10" "digits_in 0 (2 ^ 60) (s c)" "hd (s c) = (if c then low else 0)"
    "lval 58 (tl (s c)) = (if c then high else 0)"
proof -
  have d9: "digits_in 0 (2 ^ 58) (take 9 sd)" using sd(2) by (rule digits_in_take)
  show "length (s c) = 10" by (simp add: s_def sd)
  show "digits_in 0 (2 ^ 60) (s c)" using d9 by (force simp: s_def digits_in_def)
  obtain x xs where sx: "sd = x # xs" "take 9 sd = x # take 8 xs" using sd(1) by (cases sd) (auto simp: numeral_eq_Suc)
  show "hd (s c) = (if c then low else 0)" unfolding low_def by (simp add: s_def sx)
  have "lval 58 (map (\<lambda>y. 0) (ys :: int list)) = 0" for ys by (induction ys) simp_all
  then show "lval 58 (tl (s c)) = (if c then high else 0)"
    unfolding high_def by (simp add: s_def sx(2) lval_append)
qed

lemma div_window_exact:
  fixes w0 e U :: int
  assumes w0: "0 \<le> w0" "w0 < 2 ^ 58" and e: "- (2 ^ 59) < e" "e < 2 ^ 59" and U: "0 \<le> U" "U < 2 ^ 464"
  defines "q \<equiv> U div 2 ^ 406"
  defines "T \<equiv> w0 + 2 ^ 58 * (e + 2 ^ 58 * U) - q * (2 * M)"
  defines "e' \<equiv> w0 - (q * low) mod 2 ^ 58"
  defines "V \<equiv> (T - e') div 2 ^ 58"
  assumes V: "0 \<le> V" "V < 2 ^ 500"
  shows "T = e' + 2 ^ 58 * V"
    and "sp_521_div_window sd (w0 # e # digs 58 8 U) =
      (if 2 ^ 464 \<le> V then (e' - low) # digs 58 9 (V - high) else e' # digs 58 9 V)"
proof -
  define w where "w = w0 # e # digs 58 8 U"
  define t where "t = sp_521_mul_d_9 sd q"
  have q: "0 \<le> q" "q < 2 ^ 58"
    using U by (simp_all add: q_def pos_imp_zdiv_nonneg_iff div_less_of_less_mult)
  note t = mul_d_sd [OF q, folded t_def]
  have lw: "length w = 10" by (simp add: w_def)
  have w9: "w ! 9 = q" using digs_last [of 8 58 U] by (simp add: w_def q_def)
  have "digits_in 0 (2 ^ 58) (digs 58 8 U)" by (rule digs_digits_in) (use U in simp_all)
  then have "digits_in (- (2 ^ 60)) (2 ^ 60) (digs 58 8 U)" by (rule digits_in_mono) simp_all
  then have dw: "digits_in (- (2 ^ 60)) (2 ^ 60) w" using w0 e by (simp add: w_def)
  have dt: "digits_in 0 (2 ^ 60) t" by (rule digits_in_mono [OF t(2)]) simp_all
  have hd: "hd w - hd t = e'" by (simp add: w_def t e'_def)
  have "lval 58 w = w0 + 2 ^ 58 * (e + 2 ^ 58 * U)" by (simp add: w_def)
  then have "T = lval 58 w - lval 58 t" by (simp only: T_def t)
  also have "\<dots> = e' + 2 ^ 58 * (lval 58 (tl w) - lval 58 (tl t))"
    using lval_hd_tl [of w 58] lval_hd_tl [of t 58] t(1) hd
    by (cases w; cases t) (simp_all add: w_def right_diff_distrib)
  finally have T: "T = e' + 2 ^ 58 * (lval 58 (tl w) - lval 58 (tl t))" .
  then have tl: "lval 58 (tl w) - lval 58 (tl t) = V" by (simp add: V_def)
  with T show "T = e' + 2 ^ 58 * V" by (simp only:)
  define v where "v = e' # digs 58 9 V"
  have n1: "hd (map2_s64 (-) w t) # sp_521_norm_9 (tl (map2_s64 (-) w t)) = v"
    by (simp only: norm_tail_9 [OF lw t(1) dw dt] hd tl v_def)
  have v9: "v ! 9 = V div 2 ^ 464" using digs_last [of 9 58 V] by (simp add: v_def)
  have top: "0 \<le> V div 2 ^ 464" "V div 2 ^ 464 < 2 ^ 36"
    using V by (simp_all add: pos_imp_zdiv_nonneg_iff div_less_of_less_mult)
  have "0 < V div 2 ^ 464 \<longleftrightarrow> 2 ^ 464 \<le> V"
    using V pos_imp_zdiv_pos_iff [of "2 ^ 464" V] by simp
  moreover have "NOT (sar (s64 (V div 2 ^ 464 - 1)) 63) = (if 0 < V div 2 ^ 464 then - 1 else 0)"
    by (rule over_mask) (use top in simp_all)
  ultimately have mask: "NOT (sar (s64 (v ! 9 - 1)) 63) = (if 2 ^ 464 \<le> V then - 1 else 0)"
    by (simp only: v9)
  have lv: "length v = 10" by (simp add: v_def)
  have eb: "- (2 ^ 58) \<le> e'" "e' < 2 ^ 58"
    using w0 pos_mod_bound [of "2 ^ 58" "q * low"] pos_mod_sign [of "2 ^ 58" "q * low"]
    unfolding e'_def by linarith+
  have "digits_in 0 (2 ^ 58) (digs 58 9 V)" by (rule digs9_le) (use V in simp_all)
  then have "digits_in (- (2 ^ 60)) (2 ^ 60) (digs 58 9 V)" by (rule digits_in_mono) simp_all
  then have dv: "digits_in (- (2 ^ 60)) (2 ^ 60) v" using eb by (simp add: v_def)
  note s = masked_sd [of "2 ^ 464 \<le> V"]
  have v9b: "- (2 ^ 63) \<le> v ! 9" "v ! 9 < 2 ^ 63" using top by (simp_all add: v9)
  let ?s = "map (\<lambda>y. if 2 ^ 464 \<le> V then y else 0) (take 9 sd) @ [0]"
  have "sp_521_div_window sd w = hd (map2_s64 (-) v ?s) # sp_521_norm_9 (tl (map2_s64 (-) v ?s))"
    unfolding sp_521_div_window_def Let_def w9 t_def [symmetric]
    by (simp only: w9 [symmetric] sub_window [OF lw t(1)] n1 mask cond_sub_window [OF lv v9b])
  also have "\<dots> = (e' - hd ?s) # digs 58 9 (V - lval 58 (tl ?s))"
    by (simp only: norm_tail_9 [OF lv s(1) dv s(2)]) (simp add: v_def)
  finally show "sp_521_div_window sd (w0 # e # digs 58 8 U) =
      (if 2 ^ 464 \<le> V then (e' - low) # digs 58 9 (V - high) else e' # digs 58 9 V)"
    by (simp only: s w_def) simp
qed

definition clear :: "int \<Rightarrow> bool" where
  "clear v \<longleftrightarrow> div_clear v \<and> \<not> (gap - 2 ^ 59 < v \<and> v < gap - 2 ^ 58)"

lemma top_mod:
  assumes "2 ^ 522 - 2 ^ 464 \<le> (T :: int)" "T < 2 ^ 522"
  shows "T mod 2 ^ 464 = T - (2 ^ 522 - 2 ^ 464)"
proof -
  have "T mod 2 ^ 464 = (T - (2 ^ 522 - 2 ^ 464)) mod 2 ^ 464"
    using mod_mult_self2 [of "T - (2 ^ 522 - 2 ^ 464)" "2 ^ 464" "2 ^ 58 - 1"] by simp
  also have "\<dots> = T - (2 ^ 522 - 2 ^ 464)" using assms by (intro mod_pos_pos_trivial) simp_all
  finally show ?thesis .
qed

text \<open>The remainder after the conditional subtraction: it is clear when the reduced remainder is.\<close>

lemma clear_subtracted:
  assumes "2 ^ 522 - 2 ^ 58 < T" "T - 2 * M < 2 ^ 320" "clear (T mod (2 * M))"
  shows "0 \<le> T - 2 * M \<and> div_clear (T - 2 * M)"
proof -
  have nn: "0 \<le> T - 2 * M"
  proof (rule ccontr)
    assume "\<not> 0 \<le> T - 2 * M"
    then have T: "0 \<le> T" "T < 2 * M" using assms(1) by simp_all
    then have "div_clear T" using assms(3) by (simp add: clear_def)
    moreover have "T mod 2 ^ 464 = T - (2 ^ 522 - 2 ^ 464)"
      using assms(1) T gap by (intro top_mod) simp_all
    ultimately show False using assms(1) by (simp add: div_clear_def)
  qed
  then have "(T - 2 * M) mod 2 ^ 464 = T - 2 * M" using assms(2) by (intro mod_pos_pos_trivial) simp_all
  with nn assms(2) show ?thesis by (simp add: div_clear_def)
qed

lemma clear_kept:
  assumes "0 \<le> T" "T < 2 ^ 522 - 2 ^ 58" "clear (T mod (2 * M))"
  shows "div_clear T"
proof (cases "T < 2 * M")
  case True
  then show ?thesis using assms(1,3) by (simp add: clear_def)
next
  case False
  have "T mod (2 * M) = (T - 2 * M) mod (2 * M)" by simp
  also have "\<dots> = T - 2 * M" using False assms(2) gap by (intro mod_pos_pos_trivial) simp_all
  finally have "T - 2 * M \<le> gap - 2 ^ 59"
    using assms(2,3) gap(3) by (auto simp: clear_def)
  then have T: "T \<le> 2 ^ 522 - 2 ^ 59" using gap(3) by simp
  moreover have "T mod 2 ^ 464 = T - (2 ^ 522 - 2 ^ 464)"
    using False T gap by (intro top_mod) simp_all
  ultimately show ?thesis by (simp add: div_clear_def)
qed

lemma div_window_step:
  fixes w0 e U :: int
  assumes w0: "0 \<le> w0" "w0 < 2 ^ 58" and e: "- (2 ^ 59) < e" "e < 2 ^ 58" and U: "0 \<le> U" "U < 2 ^ 464"
    and R: "0 \<le> e + 2 ^ 58 * U" and clr: "0 \<le> e \<or> div_clear (e + 2 ^ 58 * U)"
  defines "rho \<equiv> (w0 + 2 ^ 58 * (e + 2 ^ 58 * U)) mod (2 * M)"
  shows "\<exists>e1 U1. sp_521_div_window sd (w0 # e # digs 58 8 U) = e1 # digs 58 9 U1 \<and>
      - (2 ^ 59) < e1 \<and> e1 < 2 ^ 58 \<and> 0 \<le> U1 \<and> U1 < 2 ^ 464 \<and>
      - (2 ^ 58) < e1 + 2 ^ 58 * U1 \<and> e1 + 2 ^ 58 * U1 < 2 ^ 522 \<and>
      (e1 + 2 ^ 58 * U1) mod (2 * M) = rho \<and>
      (clear rho \<longrightarrow> 0 \<le> e1 + 2 ^ 58 * U1 \<and> (0 \<le> e1 \<or> div_clear (e1 + 2 ^ 58 * U1)))"
proof -
  define q where "q = U div 2 ^ 406"
  define m where "m = e + 2 ^ 58 * U - 2 ^ 464 * q"
  define T where "T = w0 + 2 ^ 58 * (e + 2 ^ 58 * U) - q * (2 * M)"
  define k where "k = (q * low) mod 2 ^ 58"
  define e' where "e' = w0 - k"
  define V where "V = (T - e') div 2 ^ 58"
  have m: "0 \<le> m" "m < 2 ^ 464"
    using quotient_digit [OF e U(1) R clr] by (simp_all add: m_def q_def)
  have q: "0 \<le> q" "q < 2 ^ 58"
    using U by (simp_all add: q_def pos_imp_zdiv_nonneg_iff div_less_of_less_mult)
  have "gap * q \<le> 2 ^ 261 * 2 ^ 58" using gap q by (intro mult_mono) simp_all
  then have X: "0 \<le> gap * q" "gap * q \<le> 2 ^ 319" using gap(1) q(1) by simp_all
  have k: "0 \<le> k" "k < 2 ^ 58" by (simp_all add: k_def)
  have "q * (2 * M) = 2 ^ 522 * q - gap * q" unfolding gap(3) right_diff_distrib by (simp only: mult.commute)
  then have T: "T = w0 + 2 ^ 58 * m + gap * q" by (simp only: T_def) (simp add: m_def)
  have "T - e' < 2 ^ 58 * (2 ^ 464 + 2 ^ 262)" using m(2) k X unfolding T e'_def by simp
  moreover have "0 \<le> T - e'" using m(1) k X unfolding T e'_def by simp
  ultimately have Vb: "0 \<le> V" "V < 2 ^ 464 + 2 ^ 262"
    unfolding V_def by (simp_all add: pos_imp_zdiv_nonneg_iff div_less_of_less_mult)
  have V500: "V < 2 ^ 500" using Vb by simp
  have e59: "e < 2 ^ 59" using e by simp
  note win = div_window_exact [OF w0 e(1) e59 U, folded q_def, folded T_def k_def, folded e'_def,
      folded V_def, OF Vb(1) V500]
  have TV: "T = e' + 2 ^ 58 * V" by (rule win(1))
  have eb: "- (2 ^ 58) < e'" "e' < 2 ^ 58" using w0 k by (simp_all add: e'_def)
  have rho: "T mod (2 * M) = rho"
    unfolding T_def rho_def by (simp add: mod_diff_right_eq [symmetric])
  have T0: "0 \<le> T" using T m q w0 X by simp
  show ?thesis
  proof (cases "2 ^ 464 \<le> V")
    case True
    let ?e1 = "e' - low" and ?U1 = "V - high"
    have R1: "?e1 + 2 ^ 58 * ?U1 = T - 2 * M" using sd_split(1) by (simp add: TV)
    have small: "T - 2 * M < 2 ^ 320" using T m X w0 gap by simp
    have big: "2 ^ 522 - 2 ^ 58 < T" using True TV eb by simp
    then have low: "- (2 ^ 58) < T - 2 * M" using gap by simp
    have clr: "clear rho \<longrightarrow> 0 \<le> T - 2 * M \<and> div_clear (T - 2 * M)"
      using clear_subtracted [OF big small, unfolded rho] by blast
    have "sp_521_div_window sd (w0 # e # digs 58 8 U) = ?e1 # digs 58 9 ?U1"
      using win(2) True by simp
    moreover have "- (2 ^ 59) < ?e1" "?e1 < 2 ^ 58" "0 \<le> ?U1" "?U1 < 2 ^ 464" "T - 2 * M < 2 ^ 522"
      using eb True Vb small high sd_split(2,3) by simp_all
    moreover have "(T - 2 * M) mod (2 * M) = rho" by (simp add: rho [symmetric])
    ultimately show ?thesis using clr low R1 by (intro exI [of _ ?e1] exI [of _ ?U1]) simp
  next
    case False
    have clr: "clear rho \<longrightarrow> 0 \<le> e' \<or> div_clear T"
    proof (cases "0 \<le> e'")
      case neg: False
      then have "T < 2 ^ 522 - 2 ^ 58" using TV False by simp
      from clear_kept [OF T0 this, unfolded rho] show ?thesis by blast
    qed simp
    have "T < 2 ^ 522" using TV False eb by simp
    moreover have "sp_521_div_window sd (w0 # e # digs 58 8 U) = e' # digs 58 9 V"
      using win(2) False by simp
    ultimately show ?thesis using clr eb Vb False T0 rho TV by (intro exI [of _ e'] exI [of _ V]) simp
  qed
qed

text \<open>The invariant of the loop.\<close>

definition div_inv :: "int \<Rightarrow> nat \<Rightarrow> int list \<Rightarrow> bool" where
  "div_inv a i t \<longleftrightarrow> (\<exists>e U rest. t = take i (digs 58 18 (2 * a)) @ e # digs 58 8 U @ rest \<and>
     - (2 ^ 59) < e \<and> e < 2 ^ 58 \<and> 0 \<le> U \<and> U < 2 ^ 464 \<and> 0 \<le> e + 2 ^ 58 * U \<and>
     e + 2 ^ 58 * U < 2 ^ 522 \<and> (0 \<le> e \<or> div_clear (e + 2 ^ 58 * U)) \<and>
     (e + 2 ^ 58 * U) mod (2 * M) = 2 * a div 2 ^ (58 * i) mod (2 * M))"

text \<open>After the last step the remainder may be negative by less than \<open>2\<^sup>5\<^sup>8\<close>.\<close>

definition div_post :: "int \<Rightarrow> int list \<Rightarrow> bool" where
  "div_post a t \<longleftrightarrow> (\<exists>e U rest. t = e # digs 58 8 U @ rest \<and>
     - (2 ^ 59) < e \<and> e < 2 ^ 58 \<and> 0 \<le> U \<and> U < 2 ^ 464 \<and> - (2 ^ 58) < e + 2 ^ 58 * U \<and>
     e + 2 ^ 58 * U < 2 ^ 522 \<and> (e + 2 ^ 58 * U) mod (2 * M) = 2 * a mod (2 * M))"

lemma div_step:
  assumes "0 \<le> a" "i < 17" "div_inv a (Suc i) t"
  defines "rho \<equiv> 2 * a div 2 ^ (58 * i) mod (2 * M)"
  shows "clear rho \<Longrightarrow> div_inv a i (sp_521_div_step sd t i)"
    and "i = 0 \<Longrightarrow> div_post a (sp_521_div_step sd t i)"
proof -
  let ?X = "digs 58 18 (2 * a)"
  obtain e U rest where t: "t = take (Suc i) ?X @ e # digs 58 8 U @ rest"
    and e: "- (2 ^ 59) < e" "e < 2 ^ 58" and U: "0 \<le> U" "U < 2 ^ 464"
    and R: "0 \<le> e + 2 ^ 58 * U" "e + 2 ^ 58 * U < 2 ^ 522"
    and clear: "0 \<le> e \<or> div_clear (e + 2 ^ 58 * U)"
    and mod: "(e + 2 ^ 58 * U) mod (2 * M) = 2 * a div 2 ^ (58 * Suc i) mod (2 * M)"
    using assms(3) unfolding div_inv_def by blast
  define w0 where "w0 = ?X ! i"
  define W where "W = w0 # e # digs 58 8 U"
  have w0e: "w0 = 2 * a div 2 ^ (58 * i) mod 2 ^ 58" using assms(2) by (simp add: w0_def digs_nth)
  then have w0: "0 \<le> w0" "w0 < 2 ^ 58" by simp_all
  have t': "t = take i ?X @ W @ rest"
    using assms(2) by (simp add: t W_def w0_def take_Suc_conv_app_nth)
  have lens: "length (take i ?X) = i" "length W = 10" using assms(2) by (simp_all add: W_def)
  have win: "take 10 (drop i t) = W" unfolding t' using append_eq_conv_conj lens by (simp del: length_take)
  have "2 * a div 2 ^ (58 * i) = 2 ^ 58 * (2 * a div 2 ^ (58 * i) div 2 ^ 58) + w0"
    by (simp only: w0e mult_div_mod_eq)
  moreover have "2 * a div 2 ^ (58 * i) div 2 ^ 58 = 2 * a div 2 ^ (58 * Suc i)"
    unfolding div_div_pow by (simp add: add.commute)
  ultimately have pre: "2 * a div 2 ^ (58 * i) = w0 + 2 ^ 58 * (2 * a div 2 ^ (58 * Suc i))" by simp
  have rho: "(w0 + 2 ^ 58 * (e + 2 ^ 58 * U)) mod (2 * M) = rho"
    unfolding rho_def pre by (intro mod_add_cong mod_mult_cong refl mod)
  obtain e1 U1 where s: "sp_521_div_window sd W = e1 # digs 58 9 U1"
      "- (2 ^ 59) < e1" "e1 < 2 ^ 58" "0 \<le> U1" "U1 < 2 ^ 464"
      "- (2 ^ 58) < e1 + 2 ^ 58 * U1" "e1 + 2 ^ 58 * U1 < 2 ^ 522"
      "(e1 + 2 ^ 58 * U1) mod (2 * M) = rho"
      "clear rho \<longrightarrow> 0 \<le> e1 + 2 ^ 58 * U1 \<and> (0 \<le> e1 \<or> div_clear (e1 + 2 ^ 58 * U1))"
    using div_window_step [OF w0 e U R(1) clear] unfolding rho W_def by blast
  have "digs 58 9 U1 = digs 58 8 U1 @ [0]"
    using digs_snoc_0 [of U1 58 8] s(4,5) by simp
  moreover have "sp_521_div_step sd t i = take i ?X @ (e1 # digs 58 9 U1) @ rest"
    unfolding sp_521_div_step_def win s(1) unfolding t' using lens by (intro put_window) simp_all
  ultimately have st: "sp_521_div_step sd t i = take i ?X @ e1 # digs 58 8 U1 @ 0 # rest" by simp
  show "clear rho \<Longrightarrow> div_inv a i (sp_521_div_step sd t i)"
    unfolding div_inv_def st using s(2-9) rho_def
    by (intro exI [of _ e1] exI [of _ U1] exI [of _ "0 # rest"]) simp
  show "i = 0 \<Longrightarrow> div_post a (sp_521_div_step sd t i)"
    unfolding div_post_def st using s(2-8) rho_def
    by (intro exI [of _ e1] exI [of _ U1] exI [of _ "0 # rest"]) simp
qed

lemma div_loop:
  assumes "0 \<le> a" "i < 17" "div_inv a (Suc i) t"
    and "\<forall>j\<in>{1..i}. clear (2 * a div 2 ^ (58 * j) mod (2 * M))"
  shows "div_post a (foldl (sp_521_div_step sd) t (rev [0..<Suc i]))"
  using assms
proof (induction i arbitrary: t)
  case 0
  then show ?case using div_step(2) [of a 0 t] by simp
next
  case (Suc i)
  have "div_inv a (Suc i) (sp_521_div_step sd t (Suc i))"
    using Suc.prems(4) by (intro div_step(1) Suc.prems(1-3)) (erule bspec, simp)
  with Suc have "div_post a (foldl (sp_521_div_step sd) (sp_521_div_step sd t (Suc i)) (rev [0..<Suc i]))"
    by (intro Suc.IH) simp_all
  then show ?case by simp
qed

lemma div_inv_init:
  assumes "0 \<le> a" "a < 2 ^ 1043"
  shows "div_inv a 9 (digs 58 18 (2 * a) @ [0])"
proof -
  let ?X = "digs 58 18 (2 * a)"
  define v where "v = 2 * a div 2 ^ 522"
  have v: "0 \<le> v" "v < 2 ^ 522"
    using assms by (simp_all add: v_def pos_imp_zdiv_nonneg_iff div_less_of_less_mult)
  define e U where "e = v mod 2 ^ 58" and "U = v div 2 ^ 58"
  have "drop 9 ?X = digs 58 9 v" using drop_digs [of 9 18 58 "2 * a"] by (simp add: v_def)
  also have "\<dots> = e # digs 58 8 U" using digs_Suc [of 8 58 v] by (simp add: e_def U_def)
  finally have X: "?X @ [0] = take 9 ?X @ e # digs 58 8 U @ [0]"
    using append_take_drop_id [of 9 ?X] by (metis append.assoc append_Cons)
  have sum: "e + 2 ^ 58 * U = v" unfolding e_def U_def by (simp only: mod_mult_div_eq)
  have e: "0 \<le> e" "e < 2 ^ 58" by (simp_all add: e_def)
  have U: "0 \<le> U" "U < 2 ^ 464"
    using v by (simp_all add: U_def pos_imp_zdiv_nonneg_iff div_less_of_less_mult)
  have pre: "2 * a div 2 ^ (58 * 9) = v" by (simp add: v_def)
  have "- (2 ^ 59) < e" using e by simp
  then show ?thesis
    unfolding div_inv_def X pre
    by (intro exI [of _ e] exI [of _ U] exI [of _ "[0]"] conjI refl) (simp_all only: sum e U v simp_thms)
qed

lemma div_finish:
  assumes "div_post a t"
  defines "t' \<equiv> put 0 (sp_521_norm_9 t) t"
  defines "u \<equiv> put 0 (map2_s64 (\<lambda>x y. x + (y AND sar (t' ! 8) 63)) (take 9 t') (take 9 sd)) t'"
  shows "\<exists>r. 0 \<le> r \<and> r < 2 ^ 521 \<and> r mod M = a mod M \<and>
    sp_521_rshift_9 (put 0 (sp_521_norm_9 u) u) 1 = digs 58 9 r"
proof -
  obtain e U rest where t: "t = e # digs 58 8 U @ rest" and e: "- (2 ^ 59) < e" "e < 2 ^ 58"
    and U: "0 \<le> U" "U < 2 ^ 464"
    and R: "- (2 ^ 58) < e + 2 ^ 58 * U" "e + 2 ^ 58 * U < 2 ^ 522"
    and mod: "(e + 2 ^ 58 * U) mod (2 * M) = 2 * a mod (2 * M)"
    using assms(1) unfolding div_post_def by blast
  define v where "v = e + 2 ^ 58 * U"
  have t9: "take 9 t = e # digs 58 8 U" "9 \<le> length t" by (simp_all add: t)
  have "digits_in 0 (2 ^ 58) (digs 58 8 U)" by (rule digs_digits_in) (use U in simp_all)
  then have "digits_in (- (2 ^ 62)) (2 ^ 62) (digs 58 8 U)" by (rule digits_in_mono) simp_all
  then have "sp_521_norm_9 t = digs 58 9 v"
    using e t9 by (subst sp_521_norm_9_digs) (simp_all add: val521_def v_def)
  then have t': "t' = digs 58 9 v @ rest" by (simp add: t'_def put_def t)
  have vb: "- (2 ^ 523) < v" "v < 2 ^ 523" using R by (simp_all add: v_def)
  have "sar (t' ! 8) 63 = v div 2 ^ 464 div 2 ^ 63"
    using digs_last [of 9 58 v] by (simp add: t' nth_append sar_def)
  also have "\<dots> = v div 2 ^ (464 + 63)" by (simp only: div_div_pow)
  also have "\<dots> = (if v < 0 then - 1 else 0)"
  proof (cases "v < 0")
    case True
    then show ?thesis
      using R by (simp only: if_True, intro int_div_pos_eq [of _ _ _ "v + 2 ^ (464 + 63)"]) (simp_all add: v_def)
  next
    case False
    then show ?thesis using R by (simp add: v_def)
  qed
  finally have mask: "sar (t' ! 8) 63 = (if v < 0 then - 1 else 0)" .
  define r where "r = v + (if v < 0 then 2 * M else 0)"
  have rb: "0 \<le> r" "r < 2 ^ 522" using R gap by (auto simp: r_def v_def)
  have d1: "digits_in (- (2 ^ 61)) (2 ^ 61) (digs 58 9 v)"
    by (rule digits_in_mono [OF digs9_safe [OF vb]]) simp_all
  have d2: "digits_in (- (2 ^ 60)) (2 ^ 60) (map (\<lambda>y. if v < 0 then y else 0) (take 9 sd))"
    "lval 58 (map (\<lambda>y. if v < 0 then y else 0) (take 9 sd)) = (if v < 0 then 2 * M else 0)"
  proof -
    have "digits_in 0 (2 ^ 58) (take 9 sd)" using sd(2) by (rule digits_in_take)
    then show "digits_in (- (2 ^ 60)) (2 ^ 60) (map (\<lambda>y. if v < 0 then y else 0) (take 9 sd))"
      by (force simp: digits_in_def)
    have "lval 58 (map (\<lambda>y. 0) (ys :: int list)) = 0" for ys by (induction ys) simp_all
    then show "lval 58 (map (\<lambda>y. if v < 0 then y else 0) (take 9 sd)) = (if v < 0 then 2 * M else 0)"
      using sd(3) by simp
  qed
  define s where "s = map2_s64 (+) (digs 58 9 v) (map (\<lambda>y. if v < 0 then y else 0) (take 9 sd))"
  have sl: "length s = 9" by (simp add: s_def sd)
  have "u = put 0 s t'" unfolding u_def mask map2_s64_masked s_def by (simp add: t')
  then have u: "u = s @ rest" by (simp add: put_def t' sl)
  have "sp_521_norm_9 s = digs 58 9 r"
    using norm_map2_9(1) [OF _ _ d1 d2(1)] sd by (simp add: s_def r_def d2(2))
  then have "sp_521_norm_9 u = digs 58 9 r" using sl by (simp add: sp_521_norm_9_def u)
  then have p: "put 0 (sp_521_norm_9 u) u = digs 58 9 r @ rest" by (simp add: put_def u sl)
  have d: "digits_in 0 (2 ^ 58) (digs 58 9 r)" by (rule digs9_le [OF rb])
  have "sp_521_rshift_9 (digs 58 9 r @ rest) 1 = sp_521_rshift1_9 (digs 58 9 r @ rest)"
    by (rule rshift_9_rshift1) (use d in simp_all)
  also have "\<dots> = sp_521_rshift1_9 (digs 58 9 r)"
    by (simp add: sp_521_rshift1_9_def nth_append)
  also have "\<dots> = digs 58 9 (r div 2)" by (rule rshift1_9_digs [OF rb])
  finally have res: "sp_521_rshift_9 (put 0 (sp_521_norm_9 u) u) 1 = digs 58 9 (r div 2)" by (simp only: p)
  have "r mod (2 * M) = (2 * a) mod (2 * M)" using mod by (simp add: r_def v_def)
  then have "2 * M dvd r - 2 * a" by (simp only: mod_eq_dvd_iff)
  then obtain c where "r - 2 * a = 2 * M * c" by (rule dvdE)
  then have "r = 2 * (a + M * c)" by (simp add: distrib_left)
  then have "r div 2 = a + M * c" by simp
  moreover have "0 \<le> r div 2" "r div 2 < 2 ^ 521" using rb by simp_all
  ultimately show ?thesis using res by (intro exI [of _ "r div 2"]) simp
qed

lemma mod_9:
  assumes "0 \<le> a" "a < 2 ^ 1043" "div_safe M a"
  shows "\<exists>r. 0 \<le> r \<and> r < 2 ^ 521 \<and> r mod M = a mod M \<and> sp_521_mod_9 (digs 58 18 a) d = digs 58 9 r"
proof -
  let ?X = "digs 58 18 (2 * a) @ [0]"
  have x17: "?X ! 17 = 2 * a div 2 ^ 986" by (simp add: nth_append digs_nth)
  have b: "0 \<le> 2 * a div 2 ^ 986" "2 * a div 2 ^ 986 < 2 ^ 58"
    using assms by (simp_all add: pos_imp_zdiv_nonneg_iff div_less_of_less_mult)
  have "sar (?X ! 17) 58 = 0" unfolding x17 sar_def using b by (rule div_pos_pos_trivial)
  then have "s64 (?X ! 18 + sar (?X ! 17) 58) = 0" by (simp only:) (simp add: nth_append s64_def)
  then have e18: "?X[18 := s64 (?X ! 18 + sar (?X ! 17) 58)] = ?X" by (simp add: list_update_append)
  have "?X ! 17 AND (2 ^ 58 - 1) = ?X ! 17"
    unfolding x17 and_mask_mod using b by (intro mod_pos_pos_trivial)
  then have e17: "?X[17 := ?X ! 17 AND 0x3ffffffffffffff] = ?X" by simp
  have "\<forall>j\<in>{1..8}. clear (2 * a div 2 ^ (58 * j) mod (2 * M))"
    using assms(3) by (auto simp: div_safe_def clear_def gap_def list_all_iff Let_def simp del: upt_rec_numeral)
  then have post: "div_post a (foldl (sp_521_div_step sd) ?X (rev [0..<Suc 8]))"
    using div_inv_init [OF assms(1,2)] assms(1) by (intro div_loop) simp_all
  have two: "(2 :: int) ^ 1 = 2" and n9: "Suc 8 = 9" by simp_all
  show ?thesis
    using div_finish [OF post]
    by (simp only: sp_521_mod_9_def sp_521_div_9_def Let_def two mul_d lshift_18_digs [OF assms(1,2)]
        e18 e17 n9)
qed

end

section \<open>Reduction modulo the prime\<close>

definition sd521 :: "int list" where
  "sd521 = [0x3fffffffffffffe, 0x3ffffffffffffff, 0x3ffffffffffffff, 0x3ffffffffffffff,
     0x3ffffffffffffff, 0x3ffffffffffffff, 0x3ffffffffffffff, 0x3ffffffffffffff,
     0x3ffffffffffffff, 0]"

interpretation div_p: divisor p521_mod sd521 P521
proof
  show "sp_521_mul_d_9 p521_mod 2 = sd521"
    unfolding sp_521_mul_d_9_def p521_mod_def sd521_def split_cols_def by code_simp
qed (simp_all add: sd521_def P521_def)

lemma mod_9_P521:
  assumes "0 \<le> a" "a < 2 ^ 1043" "div_safe P521 a"
  shows "\<exists>r. 0 \<le> r \<and> r \<le> P521 \<and> r mod P521 = a mod P521 \<and>
    sp_521_mod_9 (digs 58 18 a) p521_mod = digs 58 9 r"
  using div_p.mod_9 [OF assms] by (auto simp: P521_def)

end
