(* ===== verification/Sp521Order.thy ===== *)
theory Sp521Order
  imports Sp521Field
begin

text \<open>
  Arithmetic modulo the order of the P-521 base point: Montgomery reduction with a real
  quotient per digit (\<^verbatim>\<open>sp_521_mont_reduce_order_9\<close>), products, squares and the inversion
  chain that ECDSA signing uses. Montgomery form is \<open>x * 2\<^sup>5\<^sup>2\<^sup>1\<close> modulo the order.
\<close>

section \<open>Definitions\<close>

definition sp_521_mul_add_9 :: "int list \<Rightarrow> int list \<Rightarrow> int \<Rightarrow> int list" where
  "sp_521_mul_add_9 r a b =
     map2_s64 (+) (take 10 r) (split_cols 58 (map (\<lambda>x. s128 (b * x)) (take 9 a))) @ drop 10 r"

text \<open>The statements \<^verbatim>\<open>n += (sp_uint64)a[9 + i] << 1; r[i] = n & mask; n >>= 58\<close>; the last digit is not masked.\<close>

fun mont_shift_digits :: "int \<Rightarrow> int list \<Rightarrow> int list" where
  "mont_shift_digits n [] = []"
| "mont_shift_digits n [x] = [s64 (u64 (n + u64 (u64 x * 2)))]"
| "mont_shift_digits n (x # y # xs) =
    (let n = u64 (n + u64 (u64 x * 2))
     in s64 (n AND 0x3ffffffffffffff) # mont_shift_digits (n div 2 ^ 58) (y # xs))"

definition sp_521_mont_shift_9 :: "int list \<Rightarrow> int list" where
  "sp_521_mont_shift_9 a =
     mont_shift_digits (u64 (sar (a ! 8) 57)) (take 9 (drop 9 a)) @ replicate 9 0"

text \<open>One round: the multiple \<open>mu\<close> of the modulus that clears the masked bits of digit \<open>i\<close> is
  added, and the digit's carry passed on.\<close>

definition reduce_order_step :: "int \<Rightarrow> int list \<Rightarrow> int \<Rightarrow> nat \<Rightarrow> int list \<Rightarrow> int list" where
  "reduce_order_step msk m mp i a =
    (let mu = s64 (u64 (u64 (a ! i) * u64 mp) AND msk);
         a = take i a @ sp_521_mul_add_9 (drop i a) m mu
     in a[i + 1 := s64 (a ! (i + 1) + sar (a ! i) 58)])"

definition sp_521_mont_reduce_order_9 :: "int list \<Rightarrow> int list \<Rightarrow> int \<Rightarrow> int list" where
  "sp_521_mont_reduce_order_9 a m mp =
    (let a = take 9 a @ sp_521_norm_9 (drop 9 a);
         a = fold (reduce_order_step 0x3ffffffffffffff m mp) [0..<8] a;
         a = reduce_order_step 0x1ffffffffffffff m mp 8 a;
         a = a[8 := a ! 8 AND 0x3ffffffffffffff];
         a = sp_521_mont_shift_9 a;
         over = sar (a ! 8) 57
     in sp_521_norm_9 (sp_521_cond_sub_9 a m (NOT (sar (s64 (over - 1)) 63))) @ drop 9 a)"

definition sp_521_mont_mul_order_9 :: "int list \<Rightarrow> int list \<Rightarrow> int list" where
  "sp_521_mont_mul_order_9 a b = sp_521_mont_reduce_order_9 (sp_521_mul_9 a b) p521_order p521_mp_order"

definition p521_order_low :: "int list" where
  "p521_order_low = [0xbb6fb71e91386407, 0x3bb5c9b8899c47ae, 0x7fcc0148f709a5d0, 0x51868783bf2f966b,
     0xfffffffffffffffa]"

definition sp_521_mont_sqr_order_9 :: "int list \<Rightarrow> int list" where
  "sp_521_mont_sqr_order_9 a = sp_521_mont_reduce_order_9 (sp_521_sqr_9 a) p521_order p521_mp_order"

definition sp_521_mont_sqr_n_order_9 :: "int list \<Rightarrow> nat \<Rightarrow> int list" where
  "sp_521_mont_sqr_n_order_9 a n =
     fold (\<lambda>_. sp_521_mont_sqr_order_9) [1..<n] (sp_521_mont_sqr_order_9 a)"

text \<open>\<^verbatim>\<open>(p521_order_low[i / 64] & ((sp_int_digit)1 << (i % 64))) != 0\<close>\<close>

definition order_low_bit :: "nat \<Rightarrow> bool" where
  "order_low_bit i \<longleftrightarrow> p521_order_low ! (i div 64) AND 2 ^ (i mod 64) \<noteq> 0"

definition sp_521_mont_inv_order_9 :: "int list \<Rightarrow> int list" where
  "sp_521_mont_inv_order_9 a =
    (let mul = sp_521_mont_mul_order_9; sqr = sp_521_mont_sqr_order_9; sqr_n = sp_521_mont_sqr_n_order_9;
         t = sqr a;
         t = mul t a;
         t2 = sqr_n t 2;
         t = mul t2 t;
         t3 = sqr t;
         t3 = mul t3 a;
         t2 = sqr_n t 4;
         t = mul t2 t;
         t2 = sqr_n t 8;
         t = mul t2 t;
         t2 = sqr_n t 16;
         t = mul t2 t;
         t2 = sqr_n t 32;
         t = mul t2 t;
         t2 = sqr_n t 64;
         t = mul t2 t;
         t2 = sqr_n t 128;
         t = mul t2 t;
         t2 = sqr_n t 5;
         t2 = mul t2 t3;
         t2 = fold (\<lambda>i t2. let t2 = sqr t2 in if order_low_bit i then mul t2 a else t2) (rev [1..<260]) t2;
         t2 = sqr t2
     in mul t2 a)"

section \<open>One round of the reduction\<close>

lemma scaled_digits:
  assumes "digits_in 0 (2 ^ 58) xs" "0 \<le> q" "q < 2 ^ 58"
  shows "map (\<lambda>x. s128 (q * x)) xs = map ((*) q) xs" "digits_in 0 (2 ^ 116) (map ((*) q) xs)"
proof -
  have *: "0 \<le> q * x \<and> q * x < 2 ^ 116" if "x \<in> set xs" for x
  proof -
    have x: "0 \<le> x" "x < 2 ^ 58" using assms(1) that by (auto simp: digits_in_def)
    have "q * x < 2 ^ 58 * 2 ^ 58" using assms x by (intro mult_strict_mono) simp_all
    then show ?thesis using x assms by simp
  qed
  then show "digits_in 0 (2 ^ 116) (map ((*) q) xs)" by (auto simp: digits_in_def)
  have "s128 (q * x) = q * x" if "x \<in> set xs" for x
    by (rule s128_id) (use * [OF that] in simp_all)
  then show "map (\<lambda>x. s128 (q * x)) xs = map ((*) q) xs" by simp
qed

lemma split_cols_scaled:
  assumes "digits_in 0 (2 ^ 58) xs" "0 \<le> q" "q < 2 ^ 58" "xs \<noteq> []"
  defines "t \<equiv> split_cols 58 (map (\<lambda>x. s128 (q * x)) xs)"
  shows "length t = Suc (length xs)" "digits_in 0 (2 ^ 59) t" "lval 58 t = q * lval 58 xs"
    "t ! 0 = (q * xs ! 0) mod 2 ^ 58"
proof -
  note s = scaled_digits [OF assms(1-3)]
  have d: "digits_in (- (2 ^ (62 + 58))) (2 ^ (62 + 58)) (map ((*) q) xs)"
    by (rule digits_in_mono [OF s(2)]) simp_all
  show "length t = Suc (length xs)" by (simp add: t_def)
  show "lval 58 t = q * lval 58 xs"
    unfolding t_def s(1) by (subst lval_split_cols [OF _ _ d]) (simp_all add: lval_scale)
  have e: "t = map2 (+) (0 # map (\<lambda>t. t div 2 ^ 58) (map ((*) q) xs)) (map (\<lambda>t. t mod 2 ^ 58) (map ((*) q) xs) @ [0])"
    unfolding t_def s(1) by (rule split_cols_exact [OF _ _ d]) simp_all
  have "digits_in 0 (2 ^ 58) (0 # map (\<lambda>t. t div 2 ^ 58) (map ((*) q) xs))"
    using s(2) by (auto simp: digits_in_def pos_imp_zdiv_nonneg_iff intro!: div_less_of_less_mult)
  moreover have "digits_in 0 (2 ^ 58) (map (\<lambda>t. t mod 2 ^ 58) (map ((*) q) xs) @ [0])"
    by (auto simp: digits_in_def)
  ultimately have "digits_in (0 + 0) (2 ^ 58 + 2 ^ 58) t" unfolding e by (rule digits_in_map2_add)
  then show "digits_in 0 (2 ^ 59) t" by simp
  show "t ! 0 = (q * xs ! 0) mod 2 ^ 58" using assms(4) unfolding e by (cases xs) simp_all
qed

lemma mul_add_9_exact:
  assumes "10 \<le> length r" "length m = 9" "digits_in 0 B r" "B \<le> 2 ^ 63 - 2 ^ 60"
    and "digits_in 0 (2 ^ 58) m" "0 \<le> q" "q < 2 ^ 58"
  defines "w \<equiv> sp_521_mul_add_9 r m q"
  shows "length w = length r" "digits_in 0 (B + 2 ^ 59) w" "lval 58 w = lval 58 r + q * lval 58 m"
    "w ! 0 = r ! 0 + (q * m ! 0) mod 2 ^ 58"
proof -
  have "m \<noteq> []" using assms(2) by auto
  define t where "t = split_cols 58 (map (\<lambda>x. s128 (q * x)) m)"
  note t = split_cols_scaled [OF assms(5-7) \<open>m \<noteq> []\<close>, folded t_def]
  have B: "digits_in 0 B (take 10 r)" by (rule digits_in_take [OF assms(3)])
  have "map2_s64 (+) (take 10 r) t = map2 (+) (take 10 r) t"
  proof (rule map2_s64_exact)
    fix x y assume "(x, y) \<in> set (zip (take 10 r) t)"
    then have "x \<in> set (take 10 r)" "y \<in> set t" by (blast dest: set_zip_leftD set_zip_rightD)+
    then have "0 \<le> x" "x < B" "0 \<le> y" "y < 2 ^ 59" using B t(2) by (auto simp: digits_in_def)
    then show "- (2 ^ 63) \<le> x + y \<and> x + y < 2 ^ 63" using assms(4) by simp
  qed
  then have w: "w = map2 (+) (take 10 r) t @ drop 10 r"
    unfolding w_def sp_521_mul_add_9_def t_def using assms(2) by simp
  show l: "length w = length r" using assms(1,2) t(1) by (simp add: w)
  have "digits_in (0 + 0) (B + 2 ^ 59) (map2 (+) (take 10 r) t)" by (rule digits_in_map2_add [OF B t(2)])
  moreover have "digits_in 0 (B + 2 ^ 59) (drop 10 r)"
    by (rule digits_in_mono [OF digits_in_drop [OF assms(3)]]) simp_all
  ultimately show "digits_in 0 (B + 2 ^ 59) w" unfolding w by (auto simp: digits_in_def)
  have "lval 58 r = lval 58 (take 10 r) + 2 ^ (58 * 10) * lval 58 (drop 10 r)"
    using lval_append [of 58 "take 10 r" "drop 10 r"] assms(1) by simp
  then show "lval 58 w = lval 58 r + q * lval 58 m"
    unfolding w lval_append using assms(1,2) t(1,3) by (simp add: lval_map2_add)
  obtain a as b bs where "r = a # as" "t = b # bs" using assms(1) t(1) by (cases r; cases t) auto
  then show "w ! 0 = r ! 0 + (q * m ! 0) mod 2 ^ 58" using t(4) by (simp add: w)
qed

text \<open>The quotient digit: the product of the digit with \<open>mp\<close>, the negative inverse of the modulus, modulo \<open>2\<^sup>k\<close>.\<close>

lemma order_mu:
  assumes "k \<le> 58"
  shows "s64 (u64 (u64 x * u64 y) AND (2 ^ k - 1)) = (x * y) mod 2 ^ k"
proof -
  have "u64 (u64 x * u64 y) mod 2 ^ k = (x * y) mod 2 ^ 64 mod 2 ^ k"
    by (simp add: u64_def mod_mult_eq)
  also have "\<dots> = (x * y) mod 2 ^ k" using assms by (intro mod_mod_pow) simp
  finally show ?thesis using assms by (simp only: and_mask_mod s64_mod)
qed

lemma mu_clears:
  fixes x m mp :: int
  assumes "(m * mp) mod 2 ^ k = - 1 mod 2 ^ k"
  shows "(x + (x * mp) mod 2 ^ k * m) mod 2 ^ k = 0"
proof -
  define c where "c = x * mp div 2 ^ k"
  have "2 ^ k dvd m * mp - - 1" using assms by (simp only: mod_eq_dvd_iff)
  then have "2 ^ k dvd x * (m * mp - - 1) - 2 ^ k * (c * m)" by simp
  also have "x * (m * mp - - 1) - 2 ^ k * (c * m) = x + (x * mp - 2 ^ k * c) * m" by (simp add: algebra_simps)
  also have "x * mp - 2 ^ k * c = (x * mp) mod 2 ^ k" by (simp add: c_def minus_mult_div_eq_mod)
  finally show ?thesis by simp
qed

lemma order_mp_inverse:
  "k \<le> 58 \<Longrightarrow> (p521_order ! 0 * p521_mp_order) mod 2 ^ k = - 1 mod 2 ^ k"
proof -
  assume k: "k \<le> 58"
  have "(p521_order ! 0 * p521_mp_order) mod 2 ^ 58 = - 1 mod (2 ^ 58 :: int)"
    by (simp add: p521_order_def p521_mp_order_def)
  then have "(p521_order ! 0 * p521_mp_order) mod 2 ^ 58 mod 2 ^ k = - 1 mod (2 ^ 58 :: int) mod 2 ^ k" by (simp only:)
  then show ?thesis by (simp only: mod_mod_pow [OF k])
qed

definition N521 :: int where
  "N521 = lval 58 p521_order"

lemma N521_numeral: "N521 = 0x1fffffffffffffffffffffffffffffffffffffffffffffffffffffffffffffffffa51868783bf2f966b7fcc0148f709a5d03bb5c9b8899c47aebb6fb71e91386409"
  by (simp add: N521_def p521_order_def)

lemma p521_order_digs: "length p521_order = 9" "digits_in 0 (2 ^ 58) p521_order" "lval 58 p521_order = N521"
  by (simp_all add: p521_order_def N521_def)

text \<open>The round on the digits from index \<open>i\<close> on: \<open>w\<close> before, its rest after the round.\<close>

lemma reduce_order_step:
  assumes "i + 10 \<le> length a" "digits_in 0 B (drop i a)" "B \<le> 2 ^ 63 - 2 ^ 60" "k \<le> 58"
  defines "q \<equiv> (a ! i * p521_mp_order) mod 2 ^ k"
  defines "w \<equiv> sp_521_mul_add_9 (drop i a) p521_order q"
  shows "reduce_order_step (2 ^ k - 1) p521_order p521_mp_order i a =
      take i a @ w ! 0 # (w ! 1 + w ! 0 div 2 ^ 58) # drop 2 w"
    and "w ! 0 mod 2 ^ k = 0" "lval 58 w = lval 58 (drop i a) + q * N521"
    and "length w = length a - i" "digits_in 0 (B + 2 ^ 59) w"
    and "0 \<le> q" "q < 2 ^ k" "0 \<le> w ! 0 div 2 ^ 58" "w ! 0 div 2 ^ 58 < 32"
proof -
  show q: "0 \<le> q" "q < 2 ^ k" by (simp_all add: q_def)
  have "(2 :: int) ^ k \<le> 2 ^ 58" using assms(4) by (intro power_increasing) simp_all
  then have q58: "q < 2 ^ 58" using q by linarith
  have l: "10 \<le> length (drop i a)" using assms(1) by simp
  note w = mul_add_9_exact [OF l p521_order_digs(1) assms(2,3) p521_order_digs(2) q(1) q58, folded w_def]
  show "lval 58 w = lval 58 (drop i a) + q * N521" by (simp only: w(3) p521_order_digs(3))
  show lw: "length w = length a - i" using w(1) by simp
  show d: "digits_in 0 (B + 2 ^ 59) w" by (rule w(2))
  have h: "drop i a ! 0 = a ! i" using assms(1) by simp
  have "w ! 0 mod 2 ^ k = (a ! i + q * p521_order ! 0) mod 2 ^ k"
    unfolding w(4) h by (metis mod_add_right_eq mod_mod_pow assms(4))
  also have "\<dots> = 0" unfolding q_def by (rule mu_clears [OF order_mp_inverse [OF assms(4)]])
  finally show "w ! 0 mod 2 ^ k = 0" .
  have w0: "0 \<le> w ! 0 \<and> w ! 0 < B + 2 ^ 59" "0 \<le> w ! 1 \<and> w ! 1 < B + 2 ^ 59"
    using assms(1) lw by (intro digits_in_nth [OF d]; simp)+
  then show c: "0 \<le> w ! 0 div 2 ^ 58" "w ! 0 div 2 ^ 58 < 32"
    using assms(3) by (auto simp: pos_imp_zdiv_nonneg_iff intro!: div_less_of_less_mult)
  have s: "s64 (w ! 1 + sar (w ! 0) 58) = w ! 1 + w ! 0 div 2 ^ 58"
    unfolding sar_def by (rule s64_id) (use w0 c assms(3) in simp_all)
  have mu: "s64 (u64 (u64 (a ! i) * u64 p521_mp_order) AND (2 ^ k - 1)) = q"
    unfolding q_def by (rule order_mu [OF assms(4)])
  obtain x y zs where xyz: "w = x # y # zs"
    using assms(1) lw by (cases w; cases "tl w") auto
  have "i < length a" using assms(1) by simp
  then show "reduce_order_step (2 ^ k - 1) p521_order p521_mp_order i a =
      take i a @ w ! 0 # (w ! 1 + w ! 0 div 2 ^ 58) # drop 2 w"
    unfolding reduce_order_step_def mu Let_def w_def [symmetric]
    using s by (simp add: nth_append list_update_append xyz)
qed

section \<open>The whole reduction\<close>

text \<open>What is left to reduce after \<open>k\<close> rounds: the digits from \<open>k\<close> on, the input plus a multiple of the order.\<close>

definition order_inv :: "int list \<Rightarrow> nat \<Rightarrow> int list \<Rightarrow> bool" where
  "order_inv a k A \<longleftrightarrow> length A = 18 \<and> digits_in 0 (2 ^ 58 + int k * (2 ^ 59 + 32)) (drop k A) \<and>
     (\<exists>M. 0 \<le> M \<and> M < 2 ^ (58 * k) \<and> 2 ^ (58 * k) * lval 58 (drop k A) = lval 58 a + M * N521)"

lemma order_inv_bound: "k \<le> 8 \<Longrightarrow> 2 ^ 58 + int k * (2 ^ 59 + 32) \<le> 2 ^ 63 - 2 ^ 60"
proof -
  assume "k \<le> 8"
  then have "int k * (2 ^ 59 + 32) \<le> 8 * (2 ^ 59 + 32)" by (intro mult_right_mono) simp_all
  then show ?thesis by simp
qed

lemma multiple_step:
  fixes M q L L' V N :: int
  assumes "0 \<le> M" "M < 2 ^ n" "2 ^ n * L = V + M * N" "0 \<le> q" "q < 2 ^ k" "2 ^ k * L' = L + q * N"
  shows "0 \<le> M + 2 ^ n * q" "M + 2 ^ n * q < 2 ^ (n + k)" "2 ^ (n + k) * L' = V + (M + 2 ^ n * q) * N"
proof -
  show "0 \<le> M + 2 ^ n * q" using assms by simp
  have "2 ^ n * (q + 1) \<le> 2 ^ n * 2 ^ k" using assms(5) by (intro mult_left_mono) simp_all
  then show "M + 2 ^ n * q < 2 ^ (n + k)" using assms(2) by (simp add: algebra_simps power_add)
  have "2 ^ (n + k) * L' = 2 ^ n * (2 ^ k * L')" by (simp add: power_add)
  also have "\<dots> = 2 ^ n * L + 2 ^ n * q * N" unfolding assms(6) by (simp add: algebra_simps)
  finally show "2 ^ (n + k) * L' = V + (M + 2 ^ n * q) * N" unfolding assms(3) by (simp add: algebra_simps)
qed

lemma order_inv_step:
  assumes "order_inv a k A" "k < 8"
  shows "order_inv a (Suc k) (reduce_order_step (2 ^ 58 - 1) p521_order p521_mp_order k A)"
proof -
  define B where "B = 2 ^ 58 + int k * (2 ^ 59 + 32)"
  obtain M where l: "length A = 18" and d: "digits_in 0 B (drop k A)" and M: "0 \<le> M" "M < 2 ^ (58 * k)"
    "2 ^ (58 * k) * lval 58 (drop k A) = lval 58 a + M * N521"
    using assms(1) unfolding order_inv_def B_def by blast
  have len: "k + 10 \<le> length A" and B: "B \<le> 2 ^ 63 - 2 ^ 60"
    using assms(2) l order_inv_bound [of k] by (simp_all add: B_def)
  define q where "q = (A ! k * p521_mp_order) mod 2 ^ 58"
  define w where "w = sp_521_mul_add_9 (drop k A) p521_order q"
  note s = reduce_order_step [OF len d B order_refl, folded q_def, folded w_def]
  define A' where "A' = reduce_order_step (2 ^ 58 - 1) p521_order p521_mp_order k A"
  obtain x y zs where w: "w = x # y # zs" using len s(4) by (cases w; cases "tl w") auto
  have A': "A' = take k A @ x # (y + x div 2 ^ 58) # zs" unfolding A'_def s(1) by (simp add: w)
  have "length (take k A) = k" using len by simp
  then have dr: "drop (Suc k) A' = (y + x div 2 ^ 58) # zs" by (simp add: A')
  have "length A' = 18" using s(4) l len by (simp add: A' w)
  moreover have "digits_in 0 (2 ^ 58 + int (Suc k) * (2 ^ 59 + 32)) (drop (Suc k) A')"
  proof -
    have eB: "2 ^ 58 + int (Suc k) * (2 ^ 59 + 32) = B + 2 ^ 59 + 32" by (simp add: B_def algebra_simps)
    have bz: "digits_in 0 (B + 2 ^ 59 + 32) zs" and "0 \<le> y" "y < B + 2 ^ 59"
      using s(5) by (auto simp: w intro: digits_in_mono)
    then show ?thesis unfolding dr eB using s(8,9) by (simp add: w)
  qed
  moreover have "2 ^ 58 * lval 58 (drop (Suc k) A') = lval 58 (drop k A) + q * N521"
  proof -
    have "x = 2 ^ 58 * (x div 2 ^ 58)" using s(2) mult_div_mod_eq [of "2 ^ 58" x] by (simp add: w)
    moreover have "lval 58 w = x + 2 ^ 58 * (y + 2 ^ 58 * lval 58 zs)" by (simp add: w)
    ultimately have "lval 58 w = 2 ^ 58 * (y + x div 2 ^ 58 + 2 ^ 58 * lval 58 zs)" by (simp only: distrib_left)
    then show ?thesis unfolding s(3) [symmetric] dr by simp
  qed
  note multiple_step [OF M s(6,7) this]
  ultimately show ?thesis unfolding order_inv_def A'_def [symmetric] by (auto simp: add.commute)
qed

lemma order_inv_rounds:
  assumes "length a = 18" "digits_in 0 (2 ^ 58) a" "k \<le> 8"
  shows "order_inv a k (fold (reduce_order_step (2 ^ 58 - 1) p521_order p521_mp_order) [0..<k] a)"
  using assms(3)
proof (induction k)
  case 0
  show ?case using assms(1,2) by (auto simp: order_inv_def)
next
  case (Suc k)
  then show ?case using order_inv_step [of a k] by simp
qed

lemma mont_shift_digits_digs:
  assumes "xs \<noteq> []" "0 \<le> n" "n < 64" "digits_in 0 (2 ^ 63 - 2 ^ 58) xs"
    and "n + 2 * lval 58 xs < 2 ^ (58 * (length xs - 1) + 63)"
  shows "mont_shift_digits n xs = digs 58 (length xs) (n + 2 * lval 58 xs)"
  using assms
proof (induction n xs rule: mont_shift_digits.induct)
  case (2 n x)
  then have u: "u64 (n + u64 (u64 x * 2)) = n + 2 * x" by (simp add: u64_id)
  show ?case using 2 by (simp add: u s64_id)
next
  case (3 n x y xs)
  have u: "u64 (n + u64 (u64 x * 2)) = n + 2 * x" using "3.prems" by (simp add: u64_id)
  define m where "m = (n + 2 * x) div 2 ^ 58"
  have m: "0 \<le> m" "m < 64"
    unfolding m_def using "3.prems" by (auto simp: pos_imp_zdiv_nonneg_iff intro!: div_less_of_less_mult)
  have v: "n + 2 * lval 58 (x # y # xs) = n + 2 * x + 2 ^ 58 * (2 * lval 58 (y # xs))" by simp
  have q: "(n + 2 * lval 58 (x # y # xs)) div 2 ^ 58 = m + 2 * lval 58 (y # xs)"
    unfolding v m_def by simp
  have "(2 :: int) ^ (58 * (length (x # y # xs) - 1) + 63) = 2 ^ 58 * 2 ^ (58 * length xs + 63)"
    by (simp only: power_add [symmetric]) simp
  with "3.prems"(5) have "n + 2 * lval 58 (x # y # xs) < 2 ^ 58 * 2 ^ (58 * length xs + 63)" by (simp only:)
  then have "m + 2 * lval 58 (y # xs) < 2 ^ (58 * length xs + 63)"
    unfolding q [symmetric] by (intro div_less_of_less_mult) simp_all
  then have IH: "mont_shift_digits m (y # xs) = digs 58 (length (y # xs)) (m + 2 * lval 58 (y # xs))"
    using "3.IH" [OF refl] "3.prems" m unfolding u m_def by simp
  have "s64 ((n + 2 * x) AND (2 ^ 58 - 1)) = (n + 2 * lval 58 (x # y # xs)) mod 2 ^ 58"
    unfolding v by (simp only: and_mask_mod s64_mod mod_mult_self2)
  then have "s64 ((n + 2 * x) AND 0x3ffffffffffffff) = (n + 2 * lval 58 (x # y # xs)) mod 2 ^ 58" by simp
  then show ?case
    using IH unfolding mont_shift_digits.simps Let_def u m_def [symmetric] list.size add_Suc_right add_0_right
      digs.simps q by (simp only:)
qed simp_all

text \<open>The conditional subtraction at the end, for any normalised modulus.\<close>

lemma cond_sub_9_order:
  assumes "0 \<le> s" "s < 2 ^ 522"
  shows "sp_521_norm_9 (sp_521_cond_sub_9 (digs 58 9 s @ r) p521_order
            (NOT (sar (s64 (sar ((digs 58 9 s @ r) ! 8) 57 - 1)) 63)))
      = digs 58 9 (if 2 ^ 521 \<le> s then s - N521 else s)"
proof -
  have o: "sar ((digs 58 9 s @ r) ! 8) 57 = s div 2 ^ 521"
    by (simp only: sar_def nth_append length_digs) (simp add: digs_nth div_div_pow flip: power_add)
  have o1: "0 \<le> s div 2 ^ 521" "s div 2 ^ 521 < 2"
    using assms by (simp_all add: pos_imp_zdiv_nonneg_iff div_less_of_less_mult)
  have "0 < s div 2 ^ 521 \<longleftrightarrow> 2 ^ 521 \<le> s"
    using assms pos_imp_zdiv_pos_iff [of "2 ^ 521" s] by simp
  with o1 have msk: "NOT (sar (s64 (sar ((digs 58 9 s @ r) ! 8) 57 - 1)) 63) = (if 2 ^ 521 \<le> s then - 1 else 0)"
    unfolding o by (subst over_mask) simp_all
  have "digits_in (- (2 ^ 60)) (2 ^ 60) (digs 58 9 s)"
    by (rule digs9_safe) (use assms in simp_all)
  then have d: "digits_in (- (2 ^ 61)) (2 ^ 61) (digs 58 9 s)" by (rule digits_in_mono) simp_all
  have m: "digits_in (- (2 ^ 60)) (2 ^ 60) (map (\<lambda>y. if c then y else 0) p521_order)"
    "lval 58 (map (\<lambda>y. if c then y else 0) p521_order) = (if c then N521 else 0)" for c
    by (simp_all add: p521_order_def N521_def)
  show ?thesis
    unfolding sp_521_cond_sub_9_def msk map2_s64_masked
    using norm_map2_9(2) [OF _ _ d m(1)] p521_order_digs by (simp add: m)
qed

text \<open>The last round clears 57 bits, so that the whole reduction divides by \<open>2\<^sup>5\<^sup>2\<^sup>1\<close>.\<close>

lemma order_last_round:
  assumes "order_inv a 8 A"
  defines "A' \<equiv> reduce_order_step (2 ^ 57 - 1) p521_order p521_mp_order 8 A"
  defines "A'' \<equiv> A'[8 := A' ! 8 AND (2 ^ 58 - 1)]"
  obtains S M where "0 \<le> M" "M < 2 ^ 521" "2 ^ 521 * S = lval 58 a + M * N521"
    and "S < 2 ^ (58 * 8 + 63) \<Longrightarrow> sp_521_mont_shift_9 A'' = digs 58 9 S @ replicate 9 0"
proof -
  define B :: int where "B = 2 ^ 58 + 8 * (2 ^ 59 + 32)"
  obtain M where l: "length A = 18" and d: "digits_in 0 B (drop 8 A)" and M: "0 \<le> M" "M < 2 ^ (58 * 8)"
    "2 ^ (58 * 8) * lval 58 (drop 8 A) = lval 58 a + M * N521"
    using assms(1) unfolding order_inv_def B_def by (metis of_nat_numeral)
  define q where "q = (A ! 8 * p521_mp_order) mod 2 ^ 57"
  define w where "w = sp_521_mul_add_9 (drop 8 A) p521_order q"
  have "8 + 10 \<le> length A" "B \<le> 2 ^ 63 - 2 ^ 60" "57 \<le> (58 :: nat)" by (simp_all add: l B_def)
  note s = reduce_order_step [OF this(1) d this(2,3), folded q_def, folded w_def]
  obtain x y zs where w: "w = x # y # zs" and zs: "length zs = 8" using l s(4) by (cases w; cases "tl w") auto
  define R where "R = (y + x div 2 ^ 58) # zs"
  have R9: "length R = 9" by (simp add: R_def zs)
  have t8: "length (take 8 A) = 8" by (simp add: l)
  have A': "A' = take 8 A @ x # R" unfolding A'_def s(1) by (simp add: w R_def)
  have A'': "A'' = take 8 A @ (x mod 2 ^ 58) # R"
    unfolding A''_def A' and_mask_mod using t8 by (simp add: nth_append list_update_append)
  define n where "n = x mod 2 ^ 58 div 2 ^ 57"
  have n: "0 \<le> n" "n < 2" unfolding n_def using mod_div_pow [of x 57 1] by simp_all
  have "x mod 2 ^ 58 mod 2 ^ 57 = 0" using s(2) by (simp add: w mod_mod_pow del: mod_mod_pow)
    (simp only: mod_mod_pow [of 57 58 x, simplified])
  then have x: "x mod 2 ^ 58 = 2 ^ 57 * n" unfolding n_def using mult_div_mod_eq [of "2 ^ 57" "x mod 2 ^ 58"] by simp
  have "lval 58 w = x mod 2 ^ 58 + 2 ^ 58 * lval 58 R"
    using mult_div_mod_eq [of "2 ^ 58" x] by (simp add: w R_def algebra_simps)
  then have "2 ^ 57 * (n + 2 * lval 58 R) = lval 58 (drop 8 A) + q * N521"
    unfolding s(3) [symmetric] x by (simp add: algebra_simps)
  note m = multiple_step [OF M s(6,7) this]
  have dR: "digits_in 0 (2 ^ 63 - 2 ^ 58) R"
  proof -
    have "0 \<le> y" "y < B + 2 ^ 59" "digits_in 0 (B + 2 ^ 59) zs" using s(5) by (auto simp: w)
    moreover have "B + 2 ^ 59 + 32 \<le> 2 ^ 63 - 2 ^ 58" by (simp add: B_def)
    ultimately show ?thesis using s(8,9) by (auto simp: R_def w intro: digits_in_mono)
  qed
  have sh: "sp_521_mont_shift_9 A'' = digs 58 9 (n + 2 * lval 58 R) @ replicate 9 0"
    if S: "n + 2 * lval 58 R < 2 ^ (58 * 8 + 63)"
  proof -
    have a8: "A'' ! 8 = x mod 2 ^ 58" using t8 by (simp add: A'' nth_append)
    have u: "u64 (sar (A'' ! 8) 57) = n" unfolding a8 sar_def n_def [symmetric] using n by (intro u64_id) simp_all
    have "drop 9 A'' = R" using t8 by (simp add: A'')
    moreover have "mont_shift_digits n R = digs 58 (length R) (n + 2 * lval 58 R)"
      by (rule mont_shift_digits_digs) (use n dR S R9 in \<open>auto simp: R_def\<close>)
    ultimately show ?thesis unfolding sp_521_mont_shift_9_def u by (simp add: R9)
  qed
  from m sh show ?thesis by (intro that [of "M + 2 ^ (58 * 8) * q" "n + 2 * lval 58 R"]) simp_all
qed

lemma mont_reduce_order_9_digs:
  assumes "0 \<le> v" "v < 2 ^ 1042"
  defines "r \<equiv> sp_521_mont_reduce_order_9 (digs 58 18 v) p521_order p521_mp_order"
  shows "fe521 r" "(2 ^ 521 * val521 r) mod N521 = v mod N521" "take 9 r = digs 58 9 (val521 r)"
proof -
  let ?X = "digs 58 18 v"
  have vb: "v < 2 ^ (58 * 18)" using assms(2) by simp
  have dX: "digits_in 0 (2 ^ 58) ?X" by (rule digs_digits_in [OF assms(1) vb])
  have "drop 9 ?X = digs 58 9 (v div 2 ^ 522)" using drop_digs [of 9 18 58 v] by simp
  moreover have "sp_521_norm_9 (digs 58 9 (v div 2 ^ 522)) = digs 58 9 (v div 2 ^ 522)"
  proof -
    have "digits_in 0 (2 ^ 58) (take 9 (drop 9 ?X))" by (intro digits_in_take digits_in_drop dX)
    then have "digits_in (- (2 ^ 62)) (2 ^ 62) (take 9 (drop 9 ?X))" by (rule digits_in_mono) simp_all
    then show ?thesis using calculation by (subst sp_521_norm_9_digs) (simp_all add: val521_def)
  qed
  ultimately have n: "take 9 ?X @ sp_521_norm_9 (drop 9 ?X) = ?X" by (metis append_take_drop_id)
  define A where "A = fold (reduce_order_step (2 ^ 58 - 1) p521_order p521_mp_order) [0..<8] ?X"
  have "order_inv ?X 8 A" unfolding A_def by (rule order_inv_rounds [OF length_digs dX order_refl])
  then obtain S M where M: "0 \<le> M" "M < 2 ^ 521" "2 ^ 521 * S = lval 58 ?X + M * N521"
    and sh: "S < 2 ^ (58 * 8 + 63) \<Longrightarrow>
      sp_521_mont_shift_9 ((reduce_order_step (2 ^ 57 - 1) p521_order p521_mp_order 8 A)
        [8 := reduce_order_step (2 ^ 57 - 1) p521_order p521_mp_order 8 A ! 8 AND (2 ^ 58 - 1)]) = digs 58 9 S @ replicate 9 0"
    using order_last_round [of ?X A] by blast
  have N: "0 < N521" "N521 < 2 ^ 521" by (simp_all add: N521_numeral)
  have e: "2 ^ 521 * S = v + M * N521" using M(3) by simp
  have S: "0 \<le> S" "S < 2 ^ 521 + N521"
  proof -
    have "0 \<le> 2 ^ 521 * S" unfolding e using assms(1) M N by simp
    then show "0 \<le> S" by (simp add: zero_le_mult_iff)
    have "M * N521 \<le> 2 ^ 521 * N521" using M N by (intro mult_right_mono) simp_all
    moreover have "v < 2 ^ 521 * 2 ^ 521" using assms(2) by (simp only: power_add [symmetric]) simp
    ultimately have "2 ^ 521 * S < 2 ^ 521 * (2 ^ 521 + N521)" unfolding e by (simp only: distrib_left)
    then show "S < 2 ^ 521 + N521" by (simp only: mult_less_cancel_left_pos zero_less_power zero_less_numeral)
  qed
  then have S2: "S < 2 ^ 522" "S < 2 ^ (58 * 8 + 63)" using N by (simp_all add: N521_numeral)
  define z where "z = (if 2 ^ 521 \<le> S then S - N521 else S)"
  have r: "r = digs 58 9 z @ replicate 9 0"
    unfolding r_def sp_521_mont_reduce_order_9_def Let_def n z_def
    using sh [OF S2(2)] cond_sub_9_order [OF S(1) S2(1), of "replicate 9 0"]
    by (simp add: A_def del: upt_rec_numeral)
  have z: "0 \<le> z" "z \<le> P521" using S N by (simp_all add: z_def P521_def)
  have v9: "take 9 r = digs 58 9 z" by (simp add: r)
  show "fe521 r" using reduced_fe521(1) [OF z] by (simp add: fe521_def val521_def v9) (simp add: r)
  have "val521 r = z" by (simp add: val521_def v9)
  moreover have "(2 ^ 521 * z) mod N521 = (2 ^ 521 * S) mod N521"
    by (simp add: z_def right_diff_distrib mod_diff_right_eq [symmetric]) 
  ultimately show "(2 ^ 521 * val521 r) mod N521 = v mod N521" "take 9 r = digs 58 9 (val521 r)"
    by (simp only: e, simp, simp only: v9)
qed

section \<open>Products and inversion\<close>

text \<open>\<open>R521inv\<close> is the inverse of \<open>2\<^sup>5\<^sup>2\<^sup>1\<close>, and \<open>ord_den a\<close> the number whose Montgomery form \<open>a\<close> is.\<close>

definition R521inv :: int where
  "R521inv = 0xf2e4ce0adf19220182de0e06035ef8e920be81a64310875c3817dfcc6fff2162c3b2ed89f2282f42700b1db52741897551d74261f30b00f85b26fa81327278261e"

definition ord_den :: "int list \<Rightarrow> int" where
  "ord_den a = val521 a * R521inv"

lemma R521inv: "(2 ^ 521 * R521inv) mod N521 = 1"
  unfolding R521inv_def N521_numeral by code_simp

lemma order_mont_form:
  assumes "(2 ^ 521 * z) mod N521 = (x * y) mod N521"
  shows "(z * R521inv) mod N521 = (x * R521inv * (y * R521inv)) mod N521"
proof -
  have "(z * R521inv) mod N521 = (z * R521inv * ((2 ^ 521 * R521inv) mod N521)) mod N521"
    by (simp only: R521inv mult_1_right)
  also have "\<dots> = (z * R521inv * (2 ^ 521 * R521inv)) mod N521" by (rule mod_mult_right_eq)
  also have "\<dots> = (2 ^ 521 * z * (R521inv * R521inv)) mod N521" by (simp only: ac_simps)
  also have "\<dots> = (x * y * (R521inv * R521inv)) mod N521" by (rule mod_mult_cong [OF assms refl])
  finally show ?thesis by (simp only: ac_simps)
qed

lemma mont_mul_order_9:
  assumes "fe521 a" "fe521 b"
  shows "fe521 (sp_521_mont_mul_order_9 a b)"
    and "(2 ^ 521 * val521 (sp_521_mont_mul_order_9 a b)) mod N521 = (val521 a * val521 b) mod N521"
    and "take 9 (sp_521_mont_mul_order_9 a b) = digs 58 9 (val521 (sp_521_mont_mul_order_9 a b))"
proof -
  have "val521 a * val521 b < 2 ^ 1042" using fe521_prod [OF assms] P521_sq_less by linarith
  note r = mont_reduce_order_9_digs [OF fe521_prod(1) [OF assms] this]
  show "fe521 (sp_521_mont_mul_order_9 a b)"
    "(2 ^ 521 * val521 (sp_521_mont_mul_order_9 a b)) mod N521 = (val521 a * val521 b) mod N521"
    "take 9 (sp_521_mont_mul_order_9 a b) = digs 58 9 (val521 (sp_521_mont_mul_order_9 a b))"
    unfolding sp_521_mont_mul_order_9_def mul_9_digs [OF assms] by (rule r)+
qed

lemma mont_sqr_order_9: "fe521 a \<Longrightarrow> sp_521_mont_sqr_order_9 a = sp_521_mont_mul_order_9 a a"
  by (simp only: sp_521_mont_sqr_order_9_def sp_521_mont_mul_order_9_def sqr_9_mul_9 fe521_digits(1))

interpretation o521: mont_ring N521 fe521 ord_den sp_521_mont_mul_order_9 sp_521_mont_sqr_order_9
proof
  fix a b assume a: "fe521 a" and b: "fe521 b"
  show "fe521 (sp_521_mont_mul_order_9 a b) \<and>
      ord_den (sp_521_mont_mul_order_9 a b) mod N521 = (ord_den a * ord_den b) mod N521"
    using mont_mul_order_9 [OF a b] unfolding ord_den_def by (blast intro: order_mont_form)
next
  fix a assume a: "fe521 a"
  show "fe521 (sp_521_mont_sqr_order_9 a) \<and>
      ord_den (sp_521_mont_sqr_order_9 a) mod N521 = (ord_den a * ord_den a) mod N521"
    using mont_mul_order_9 [OF a a] unfolding ord_den_def mont_sqr_order_9 [OF a] by (blast intro: order_mont_form)
qed

lemma mont_sqr_n_order_9_funpow: "0 < n \<Longrightarrow> sp_521_mont_sqr_n_order_9 a n = (sp_521_mont_sqr_order_9 ^^ n) a"
proof (induction n)
  case (Suc n)
  then show ?case by (cases "n = 0") (simp_all add: sp_521_mont_sqr_n_order_9_def)
qed simp

lemma order_exponent:
  "fold (\<lambda>i e. if order_low_bit i then 2 * e + 1 else 2 * e) (rev [1..<260]) (2 ^ 261 - 1) = (3432398830065304857490950399540696608634717650071652704697231729592771591698827697122528873166608598766481998185681660556932384306220190170186404446353502723 :: nat)"
proof -
  have "[1..<260] = (1 :: nat) # [2..<260]" by (subst upt_conv_Cons) (simp_all add: numeral_2_eq_2)
  then show ?thesis unfolding order_low_bit_def p521_order_low_def by (simp only: rev.simps fold_append) simp
qed

lemma mont_inv_order_9_rep:
  assumes "o521.rep a x"
  shows "o521.rep (sp_521_mont_inv_order_9 a) (x ^ nat (N521 - 2))"
proof -
  let ?mul = sp_521_mont_mul_order_9 and ?sqr = sp_521_mont_sqr_order_9
  have a1: "o521.rep a (x ^ (2 ^ 1 - 1))" using assms by simp
  note ones = o521.rep_ones(2)
  have double: "o521.rep (?mul ((?sqr ^^ k) t) t) (x ^ (2 ^ l - 1))"
    if "o521.rep t (x ^ (2 ^ k - 1))" "l = k + k" for t k l
    using ones [OF that(1) that(1)] that(2) by simp
  define e2 where "e2 = ?mul (?sqr a) a"
  have e2: "o521.rep e2 (x ^ (2 ^ 2 - 1))" using ones [OF a1 a1] by (simp add: e2_def)
  define e4 where "e4 = ?mul ((?sqr ^^ 2) e2) e2"
  have e4: "o521.rep e4 (x ^ (2 ^ 4 - 1))" unfolding e4_def by (rule double [OF e2]) simp
  define e5 where "e5 = ?mul (?sqr e4) a"
  have e5: "o521.rep e5 (x ^ (2 ^ 5 - 1))" using ones [OF a1 e4] by (simp add: e5_def)
  define e8 where "e8 = ?mul ((?sqr ^^ 4) e4) e4"
  have e8: "o521.rep e8 (x ^ (2 ^ 8 - 1))" unfolding e8_def by (rule double [OF e4]) simp
  define e16 where "e16 = ?mul ((?sqr ^^ 8) e8) e8"
  have e16: "o521.rep e16 (x ^ (2 ^ 16 - 1))" unfolding e16_def by (rule double [OF e8]) simp
  define e32 where "e32 = ?mul ((?sqr ^^ 16) e16) e16"
  have e32: "o521.rep e32 (x ^ (2 ^ 32 - 1))" unfolding e32_def by (rule double [OF e16]) simp
  define e64 where "e64 = ?mul ((?sqr ^^ 32) e32) e32"
  have e64: "o521.rep e64 (x ^ (2 ^ 64 - 1))" unfolding e64_def by (rule double [OF e32]) simp
  define e128 where "e128 = ?mul ((?sqr ^^ 64) e64) e64"
  have e128: "o521.rep e128 (x ^ (2 ^ 128 - 1))" unfolding e128_def by (rule double [OF e64]) simp
  define e256 where "e256 = ?mul ((?sqr ^^ 128) e128) e128"
  have e256: "o521.rep e256 (x ^ (2 ^ 256 - 1))" unfolding e256_def by (rule double [OF e128]) simp
  define e261 where "e261 = ?mul ((?sqr ^^ 5) e256) e5"
  have e261: "o521.rep e261 (x ^ (2 ^ 261 - 1))"
    unfolding e261_def using ones [OF e5 e256] by (simp only: add_num_simps add_numeral_left numeral_plus_numeral)
  define e520 where "e520 = fold (\<lambda>i t. let t = ?sqr t in if order_low_bit i then ?mul t a else t) (rev [1..<260]) e261"
  have e520: "o521.rep e520 (x ^ 3432398830065304857490950399540696608634717650071652704697231729592771591698827697122528873166608598766481998185681660556932384306220190170186404446353502723)"
    using o521.rep_bits [OF assms e261, of order_low_bit "rev [1..<260]"] unfolding e520_def order_exponent .
  have "o521.rep (?mul (?sqr e520) a) (x ^ 3432398830065304857490950399540696608634717650071652704697231729592771591698827697122528873166608598766481998185681660556932384306220190170186404446353502723 * x ^ 3432398830065304857490950399540696608634717650071652704697231729592771591698827697122528873166608598766481998185681660556932384306220190170186404446353502723 * x)"
    by (rule o521.rep_mul [OF o521.rep_sqr [OF e520] assms])
  also have "x ^ 3432398830065304857490950399540696608634717650071652704697231729592771591698827697122528873166608598766481998185681660556932384306220190170186404446353502723 * x ^ 3432398830065304857490950399540696608634717650071652704697231729592771591698827697122528873166608598766481998185681660556932384306220190170186404446353502723 * x = x ^ (3432398830065304857490950399540696608634717650071652704697231729592771591698827697122528873166608598766481998185681660556932384306220190170186404446353502723 + 3432398830065304857490950399540696608634717650071652704697231729592771591698827697122528873166608598766481998185681660556932384306220190170186404446353502723 + 1)"
    by (simp only: power_add power_one_right)
  also have "3432398830065304857490950399540696608634717650071652704697231729592771591698827697122528873166608598766481998185681660556932384306220190170186404446353502723 + 3432398830065304857490950399540696608634717650071652704697231729592771591698827697122528873166608598766481998185681660556932384306220190170186404446353502723 + 1 = nat (N521 - 2)" by (simp add: N521_numeral)
  finally have "o521.rep (?mul (?sqr e520) a) (x ^ nat (N521 - 2))" .
  moreover have "sp_521_mont_inv_order_9 a = ?mul (?sqr e520) a"
    unfolding sp_521_mont_inv_order_9_def Let_def e520_def e261_def e256_def e128_def e64_def e32_def
      e16_def e8_def e5_def e4_def e2_def
    by (simp only: mont_sqr_n_order_9_funpow zero_less_numeral)
  ultimately show ?thesis by (simp only:)
qed

section \<open>Properties\<close>

lemma fe521_order: "fe521 p521_norm_order" "fe521 p521_order"
  by (simp_all add: fe521_def val521_def P521_def p521_norm_order_def p521_order_def)

text \<open>Montgomery multiplication and squaring modulo the group order: for operands with digits of at
  most \<open>2\<^sup>5\<^sup>8\<close> and values below \<open>2\<^sup>5\<^sup>2\<^sup>1\<close> no 64-bit or 128-bit intermediate overflows, the result is of
  the same form, and \<open>2\<^sup>5\<^sup>2\<^sup>1\<close> times it is the product modulo the order.\<close>

lemma sp_521_mont_mul_order_correct:
  assumes "fe521 a" "fe521 b"
  shows "fe521 (sp_521_mont_mul_order_9 a b) \<and>
    (2 ^ 521 * val521 (sp_521_mont_mul_order_9 a b)) mod N521 = (val521 a * val521 b) mod N521 \<and>
    fe521 (sp_521_mont_sqr_order_9 a) \<and>
    (2 ^ 521 * val521 (sp_521_mont_sqr_order_9 a)) mod N521 = (val521 a * val521 a) mod N521"
  using mont_mul_order_9 [OF assms] mont_mul_order_9 [OF assms(1,1)] by (simp only: mont_sqr_order_9 [OF assms(1)])

text \<open>The inversion modulo the order computes the power \<open>order - 2\<close> (the inverse, by Fermat's theorem):
  for a well-formed array that is the Montgomery form of \<open>x\<close>, the result is the Montgomery form
  of \<open>x\<close> to that power; the chain of 261 ones and the loop over \<^verbatim>\<open>p521_order_low\<close> miss no bit.\<close>

lemma sp_521_mont_inv_order_9_power:
  assumes "fe521 a" "val521 a mod N521 = (x * 2 ^ 521) mod N521"
  shows "fe521 (sp_521_mont_inv_order_9 a) \<and>
    val521 (sp_521_mont_inv_order_9 a) mod N521 = (x ^ nat (N521 - 2) * 2 ^ 521) mod N521"
proof -
  have one: "(y * R521inv * 2 ^ 521) mod N521 = y mod N521" for y
    by (metis R521inv mod_mult_right_eq mult.assoc mult.commute mult_1_right)
  have "ord_den a mod N521 = (x * 2 ^ 521 * R521inv) mod N521"
    unfolding ord_den_def by (rule mod_mult_cong [OF assms(2) refl])
  also have "\<dots> = (x * R521inv * 2 ^ 521) mod N521" by (simp only: ac_simps)
  finally have "o521.rep a x" using assms(1) by (simp only: o521.rep_def one)
  from mont_inv_order_9_rep [OF this]
  have r: "fe521 (sp_521_mont_inv_order_9 a)"
    "(val521 (sp_521_mont_inv_order_9 a) * R521inv) mod N521 = x ^ nat (N521 - 2) mod N521"
    by (simp_all only: o521.rep_def ord_den_def)
  have "(val521 (sp_521_mont_inv_order_9 a) * R521inv * 2 ^ 521) mod N521 = (x ^ nat (N521 - 2) * 2 ^ 521) mod N521"
    by (rule mod_mult_cong [OF r(2) refl])
  then show ?thesis using r(1) by (simp only: one)
qed

end
