(* ===== verification/Sp521Enc.thy ===== *)
theory Sp521Enc
  imports Sp521Div Sp521Order
begin

text \<open>
  Encodings of numbers modulo the P-521 prime and order: bytes in big-endian order
  (\<^verbatim>\<open>sp_521_from_bin\<close>, \<^verbatim>\<open>sp_521_to_bin_9\<close>), the 64-bit digits of an \<^verbatim>\<open>mp_int\<close> (\<^verbatim>\<open>sp_521_from_mp\<close>,
  \<^verbatim>\<open>sp_521_to_mp\<close>), random scalars (\<^verbatim>\<open>sp_521_ecc_gen_k_9\<close>) and the truncation of a hash to 521 bits.

  All four conversions regroup the bits of a number from words of one width into
  words of another.  Their loops keep the number of the current target word (\<open>j\<close>)
  and the number of its bits that are already filled (\<open>s\<close>).
\<close>

section \<open>Bytes\<close>

fun from_bin_loop :: "nat \<Rightarrow> byte list \<Rightarrow> int list \<Rightarrow> nat \<Rightarrow> nat \<Rightarrow> int list \<times> nat" where
  "from_bin_loop sz [] r j s = (r, j)"
| "from_bin_loop sz (x # xs) r j s =
    (let r = r[j := r ! j OR s64 (uint x * 2 ^ s)]
     in if s \<ge> 50
        then (let r = r[j := r ! j AND 0x3ffffffffffffff];
                  s = 58 - s
              in if j + 1 \<ge> sz then (r, j)
                 else from_bin_loop sz xs (r[j + 1 := sar (uint x) s]) (j + 1) (8 - s))
        else from_bin_loop sz xs r j (s + 8))"

text \<open>\<^verbatim>\<open>for (j++; j < size; j++) r[j] = 0;\<close>\<close>

definition clear_above :: "nat \<Rightarrow> int list \<times> nat \<Rightarrow> int list" where
  "clear_above sz = (\<lambda>(r, j). take (j + 1) r @ replicate (sz - (j + 1)) 0 @ drop (max sz (j + 1)) r)"

definition sp_521_from_bin :: "int list \<Rightarrow> nat \<Rightarrow> byte list \<Rightarrow> nat \<Rightarrow> int list" where
  "sp_521_from_bin r sz a n = clear_above sz (from_bin_loop sz (rev (take n a)) (r[0 := 0]) 0 0)"

text \<open>\<^verbatim>\<open>while (b < 58) { a[j--] = (byte)(r[i] >> b); b += 8; if (j < 0) break; }\<close>\<close>

function to_bin_bytes :: "int \<Rightarrow> nat \<Rightarrow> int \<Rightarrow> byte list \<Rightarrow> byte list \<times> int \<times> nat" where
  "to_bin_bytes d b j a =
    (if b < 58
     then (let a = a[nat j := word_of_int (sar d b)]; j = j - 1; b = b + 8
           in if j < 0 then (a, j, b) else to_bin_bytes d b j a)
     else (a, j, b))"
  by pat_completeness auto

termination
  by (relation "measure (\<lambda>(d, b, j, a). 58 - b)") auto

declare to_bin_bytes.simps [simp del]

fun to_bin_loop :: "int list \<Rightarrow> byte list \<Rightarrow> int \<Rightarrow> nat \<Rightarrow> byte list" where
  "to_bin_loop [] a j s = a"
| "to_bin_loop (d # ds) a j s =
    (if j < 0 then a
     else let a = a[nat j := a ! nat j OR word_of_int (s64 (d * 2 ^ s))]; j = j - 1; b = 8 - s
          in if j < 0 then a
             else (case to_bin_bytes d b j a of (a, j, b) \<Rightarrow>
               let s = nat (8 - (int b - 58));
                   a = (if j \<ge> 0 then a[nat j := 0] else a);
                   j = (if s \<noteq> 0 then j + 1 else j)
               in to_bin_loop ds a j s))"

text \<open>Returns the normalised digits, which are written back to \<open>r\<close>, and the bytes.\<close>

definition sp_521_to_bin_9 :: "int list \<Rightarrow> byte list \<Rightarrow> int list \<times> byte list" where
  "sp_521_to_bin_9 r a =
    (let r = sp_521_norm_9 r;
         j = 528 div 8 - 1;
         a = a[j := 0]
     in (r, to_bin_loop r a (int j) 0))"

section \<open>Digits of an \<open>mp_int\<close>\<close>

text \<open>
  The fields of an \<^verbatim>\<open>mp_int\<close> that the conversions use, with the 64-bit digits of the default
  build (\<^verbatim>\<open>DIGIT_BIT == 64\<close>), and the two functions of wolfSSL they call: \<^verbatim>\<open>mp_grow\<close> makes room
  for a number of digits or fails, \<^verbatim>\<open>mp_clamp\<close> drops leading zeros.
\<close>

record mp_int =
  used :: nat
  dp :: "64 word list"

record mp_lib =
  mp_grow :: "mp_int \<Rightarrow> nat \<Rightarrow> int \<times> mp_int"
  mp_clamp :: "mp_int \<Rightarrow> mp_int"

text \<open>\<^verbatim>\<open>while ((s + 58U) <= (word32)DIGIT_BIT)\<close>\<close>

function from_mp_more :: "nat \<Rightarrow> 64 word \<Rightarrow> int list \<Rightarrow> nat \<Rightarrow> nat \<Rightarrow> int list \<times> nat \<times> nat" where
  "from_mp_more sz x r j s =
    (if s + 58 \<le> 64
     then (let s = s + 58; r = r[j := r ! j AND 0x3ffffffffffffff]
           in if j + 1 \<ge> sz then (r, j, s)
              else from_mp_more sz x (r[j + 1 := if s < 64 then s64 (uint x div 2 ^ s) else 0]) (j + 1) s)
     else (r, j, s))"
  by pat_completeness auto

termination
  by (relation "measure (\<lambda>(sz, x, r, j, s). 64 - s)") auto

declare from_mp_more.simps [simp del]

fun from_mp_loop :: "nat \<Rightarrow> 64 word list \<Rightarrow> int list \<Rightarrow> nat \<Rightarrow> nat \<Rightarrow> int list \<times> nat" where
  "from_mp_loop sz [] r j s = (r, j)"
| "from_mp_loop sz (x # xs) r j s =
    (if \<not> j < sz then (r, j)
     else let r = r[j := r ! j OR s64 (uint x * 2 ^ s)];
              r = r[j := r ! j AND 0x3ffffffffffffff];
              s = 58 - s
          in if j + 1 \<ge> sz then (r, j)
             else (case from_mp_more sz x (r[j + 1 := s64 (uint x div 2 ^ s)]) (j + 1) s of
               (r, j, s) \<Rightarrow> from_mp_loop sz xs r j (64 - s)))"

definition sp_521_from_mp :: "int list \<Rightarrow> nat \<Rightarrow> mp_int \<Rightarrow> int list" where
  "sp_521_from_mp r sz a = clear_above sz (from_mp_loop sz (take (used a) (dp a)) (r[0 := 0]) 0 0)"

fun to_mp_loop :: "int list \<Rightarrow> 64 word list \<Rightarrow> nat \<Rightarrow> nat \<Rightarrow> 64 word list" where
  "to_mp_loop [] ds j s = ds"
| "to_mp_loop (a # as) ds j s =
    (let ds = ds[j := ds ! j OR push_bit s (word_of_int a)]
     in if s + 58 \<ge> 64
        then (let s = 64 - s in to_mp_loop as (ds[j + 1 := word_of_int (sar a s)]) (j + 1) (58 - s))
        else to_mp_loop as ds j (s + 58))"

definition sp_521_to_mp :: "mp_lib \<Rightarrow> int list \<Rightarrow> mp_int \<Rightarrow> int \<times> mp_int" where
  "sp_521_to_mp lib a r =
    (case mp_grow lib r ((521 + 64 - 1) div 64) of (err, r) \<Rightarrow>
       if err = 0
       then (0, mp_clamp lib (r\<lparr>used := (521 + 64 - 1) div 64, dp := to_mp_loop (take 9 a) ((dp r)[0 := 0]) 0 0\<rparr>))
       else (err, r))"

section \<open>Random scalars and hashes\<close>

definition sp_521_add_one_9 :: "int list \<Rightarrow> int list" where
  "sp_521_add_one_9 a = sp_521_norm_9 (a[0 := s64 (a ! 0 + 1)])"

text \<open>
  \<open>gen rng\<close> is the call \<^verbatim>\<open>wc_RNG_GenerateBlock(rng, buf, 66)\<close>: the error code, the 66 bytes and the
  next state of the generator.  The loop runs until a block is accepted or the generator fails.
\<close>

partial_function (option) sp_521_ecc_gen_k_9 ::
    "('r \<Rightarrow> int \<times> byte list \<times> 'r) \<Rightarrow> int list \<Rightarrow> 'r \<Rightarrow> (int \<times> int list \<times> 'r) option" where
  "sp_521_ecc_gen_k_9 gen k rng =
    (case gen rng of (err, buf, rng) \<Rightarrow>
       if err = 0
       then (let buf = buf[0 := buf ! 0 AND 0x1];
                 k = sp_521_from_bin k 9 buf 66
             in if sp_521_cmp_9 k p521_order2 \<le> 0 then Some (err, sp_521_add_one_9 k, rng)
                else sp_521_ecc_gen_k_9 gen k rng)
       else Some (err, k, rng))"

text \<open>The number that is signed: the statements of \<^verbatim>\<open>sp_ecc_sign_521\<close> and \<^verbatim>\<open>sp_ecc_verify_521\<close> that load the hash.\<close>

definition load_hash :: "int list \<Rightarrow> byte list \<Rightarrow> nat \<Rightarrow> int list" where
  "load_hash e hash hashLen =
    (let hashLen = (if hashLen > 66 then 66 else hashLen);
         e = sp_521_from_bin e 9 hash hashLen
     in if hashLen = 66
        then (let e = sp_521_rshift_9 e 7 in e[8 := e ! 8 OR s64 (uint (hash ! 0) * 2 ^ 49)])
        else e)"

section \<open>Bytes: correctness\<close>

definition be_num :: "byte list \<Rightarrow> int" where
  "be_num a = lval 8 (rev (map uint a))"

definition be_bytes :: "nat \<Rightarrow> int \<Rightarrow> byte list" where
  "be_bytes n v = map (\<lambda>k. word_of_int (v div 2 ^ (8 * (n - 1 - k)))) [0..<n]"

lemma regroup_or:
  assumes "0 \<le> cur" "cur < 2 ^ s"
  shows "cur OR (x :: int) * 2 ^ s = cur + x * 2 ^ s"
  using or_bit_add [OF assms, of x] by (simp add: mult.commute)

lemma or_s64_mask:
  assumes "0 \<le> cur" "cur < 2 ^ s" "b \<le> 63"
  shows "(cur OR s64 (x * 2 ^ s)) AND (2 ^ b - 1) = (cur + x * 2 ^ s) mod 2 ^ b"
proof -
  have "(cur OR s64 y) AND (2 ^ b - 1) = (cur OR y) AND (2 ^ b - 1)" for y
  proof -
    have "s64 y AND (2 ^ b - 1) = y AND (2 ^ b - 1)"
      using s64_and_mask [of b y] assms(3) by (simp add: and_mask_mod)
    then show ?thesis by (simp only: bit.conj_disj_distrib2)
  qed
  then show ?thesis using assms(1,2) by (simp add: regroup_or and_mask_mod)
qed

text \<open>The first \<open>b\<close> bits of a word fill the current digit, the others start the next one.\<close>

lemma regroup_carry:
  assumes "0 \<le> cur" "cur < 2 ^ s" "s \<le> b"
  shows "(cur + x * 2 ^ s) mod 2 ^ b + 2 ^ b * (x div 2 ^ (b - s)) = (cur :: int) + x * 2 ^ s"
proof -
  have "(cur + x * 2 ^ s) div 2 ^ b = (cur + x * 2 ^ s) div 2 ^ s div 2 ^ (b - s)"
    unfolding div_div_pow using assms(3) by simp
  also have "\<dots> = x div 2 ^ (b - s)" using assms(1,2) by (simp add: div_pos_pos_trivial)
  finally show ?thesis using mod_mult_div_eq [of "cur + x * 2 ^ s" "2 ^ b"] by simp
qed

text \<open>The state of a conversion to 58-bit digits: the bits of \<open>X\<close> up to bit \<open>58 * j + s\<close> are in place.\<close>

definition filled :: "nat \<Rightarrow> int list \<Rightarrow> nat \<Rightarrow> nat \<Rightarrow> int \<Rightarrow> bool" where
  "filled sz r j s X \<longleftrightarrow> length r = sz \<and> j < sz \<and> s < 58 \<and> digits_in 0 (2 ^ 58) (take j r) \<and>
     0 \<le> r ! j \<and> r ! j < 2 ^ s \<and> lval 58 (take (Suc j) r) = X"

lemma take_Suc_update: "j < length r \<Longrightarrow> take (Suc j) (r[j := x]) = take j r @ [x]"
  by (simp add: take_Suc_conv_app_nth)

lemma lval_take_Suc: "j < length r \<Longrightarrow> lval b (take (Suc j) r) = lval b (take j r) + 2 ^ (b * j) * r ! j"
  by (simp add: take_Suc_conv_app_nth lval_append)

lemma filled_keep:
  assumes "filled sz r j s X" "s + n < 58" "0 \<le> x" "x < 2 ^ n"
  shows "filled sz (r[j := r ! j OR s64 (x * 2 ^ s)]) j (s + n) (X + 2 ^ (58 * j + s) * x)"
proof -
  have f: "j < length r" "0 \<le> r ! j" "r ! j < 2 ^ s" "lval 58 (take (Suc j) r) = X"
    using assms(1) by (auto simp: filled_def)
  have "x * 2 ^ s < 2 ^ (s + n)" "0 \<le> x * 2 ^ s" using assms(3,4) by (simp_all add: power_add mult.commute)
  moreover have "(2 :: int) ^ (s + n) \<le> 2 ^ 57" using assms(2) by (intro power_increasing) simp_all
  ultimately have s: "s64 (x * 2 ^ s) = x * 2 ^ s" by (intro s64_id) simp_all
  have "x * 2 ^ s \<le> (2 ^ n - 1) * 2 ^ s" using assms(4) by (intro mult_right_mono) simp_all
  also have "\<dots> = 2 ^ (s + n) - 2 ^ s" by (simp add: power_add algebra_simps)
  finally have b: "r ! j + x * 2 ^ s < 2 ^ (s + n)" using f(3) by simp
  show ?thesis
    using assms f b s \<open>0 \<le> x * 2 ^ s\<close>
    by (simp add: filled_def regroup_or take_Suc_update lval_take_Suc lval_append algebra_simps power_add)
qed

lemma filled_next:
  assumes "filled sz r j s X" "Suc j < sz" "58 \<le> s + n" "s + n < 116" "0 \<le> x" "x < 2 ^ n"
  shows "filled sz (r[j := (r ! j OR s64 (x * 2 ^ s)) AND 0x3ffffffffffffff, Suc j := x div 2 ^ (58 - s)])
    (Suc j) (s + n - 58) (X + 2 ^ (58 * j + s) * x)"
proof -
  have f: "Suc j < length r" "s < 58" "0 \<le> r ! j" "r ! j < 2 ^ s" "lval 58 (take (Suc j) r) = X"
    "digits_in 0 (2 ^ 58) (take j r)" "length r = sz"
    using assms(1,2) by (auto simp: filled_def)
  have m: "(r ! j OR s64 (x * 2 ^ s)) AND 0x3ffffffffffffff = (r ! j + x * 2 ^ s) mod 2 ^ 58"
    using or_s64_mask [OF f(3,4), of 58 x] by simp
  have n: "n = (s + n - 58) + (58 - s)" using assms(3) f(2) by simp
  have q: "0 \<le> x div 2 ^ (58 - s)" "x div 2 ^ (58 - s) < 2 ^ (s + n - 58)"
    using assms(5,6) n by (simp add: pos_imp_zdiv_nonneg_iff, intro div_less_of_less_mult)
      (simp_all add: power_add [symmetric])
  have c: "(r ! j + x * 2 ^ s) mod 2 ^ 58 + 2 ^ 58 * (x div 2 ^ (58 - s)) = r ! j + x * 2 ^ s"
    using regroup_carry [OF f(3,4), of 58 x] f(2) by simp
  let ?r = "r[j := (r ! j + x * 2 ^ s) mod 2 ^ 58, Suc j := x div 2 ^ (58 - s)]"
  have t: "take (Suc j) ?r = take j r @ [(r ! j + x * 2 ^ s) mod 2 ^ 58]"
    using f(1) by (simp add: take_Suc_update)
  then have "lval 58 (take (Suc (Suc j)) ?r)
      = lval 58 (take j r) + 2 ^ (58 * j) * ((r ! j + x * 2 ^ s) mod 2 ^ 58 + 2 ^ 58 * (x div 2 ^ (58 - s)))"
    using f(1) by (simp add: lval_take_Suc lval_append algebra_simps power_add)
  also have "\<dots> = X + 2 ^ (58 * j + s) * x"
    using f(1,5) unfolding c by (simp add: lval_take_Suc algebra_simps power_add)
  finally show ?thesis
    using f q t assms(2,4) unfolding m by (simp add: filled_def)
qed

lemma mod_low_high:
  assumes "0 \<le> lo" "lo < 2 ^ m"
  shows "(lo + 2 ^ m * (hi :: int)) mod 2 ^ (m + n) = lo + 2 ^ m * (hi mod 2 ^ n)"
proof -
  have "(lo + 2 ^ m * hi) mod 2 ^ (m + n) = 2 ^ m * ((lo + 2 ^ m * hi) div 2 ^ m mod 2 ^ n) + (lo + 2 ^ m * hi) mod 2 ^ m"
    by (simp add: power_add zmod_zmult2_eq)
  then show ?thesis using assms by (simp add: div_pos_pos_trivial)
qed

lemma filled_last:
  fixes x :: int
  assumes "filled sz r j s X" "Suc j = sz"
  defines "r' \<equiv> r[j := (r ! j OR s64 (x * 2 ^ s)) AND 0x3ffffffffffffff]"
  shows "length r' = sz" "digits_in 0 (2 ^ 58) r'" "lval 58 r' = (X + 2 ^ (58 * j + s) * x) mod 2 ^ (58 * sz)"
proof -
  have f: "j < length r" "s < 58" "0 \<le> r ! j" "r ! j < 2 ^ s" "lval 58 (take (Suc j) r) = X"
    "digits_in 0 (2 ^ 58) (take j r)" "length r = sz"
    using assms(1) by (auto simp: filled_def)
  have "(r ! j OR s64 (x * 2 ^ s)) AND 0x3ffffffffffffff = (r ! j + x * 2 ^ s) mod 2 ^ 58"
    using or_s64_mask [OF f(3,4), of 58 x] by simp
  then have r': "r' = take j r @ [(r ! j + x * 2 ^ s) mod 2 ^ 58]"
    using f(1,7) assms(2) unfolding r'_def by (metis length_list_update take_Suc_update take_all le_refl)
  show "length r' = sz" "digits_in 0 (2 ^ 58) r'" using f assms(2) by (simp_all add: r')
  have "lval 58 r' = lval 58 (take j r) + 2 ^ (58 * j) * ((r ! j + x * 2 ^ s) mod 2 ^ 58)"
    using f(1) by (simp add: r' lval_append)
  also have "\<dots> = (X + 2 ^ (58 * j + s) * x) mod 2 ^ (58 * sz)"
  proof -
    have "X + 2 ^ (58 * j + s) * x = lval 58 (take j r) + 2 ^ (58 * j) * (r ! j + x * 2 ^ s)"
      using f(1,5) by (simp add: lval_take_Suc algebra_simps power_add)
    moreover have "58 * sz = 58 * j + 58" using assms(2) by simp
    moreover have "0 \<le> lval 58 (take j r)" "lval 58 (take j r) < 2 ^ (58 * j)"
      using lval_nonneg [OF f(6)] lval_upper [OF f(6)] f(1) by simp_all
    ultimately show ?thesis by (simp only: mod_low_high)
  qed
  finally show "lval 58 r' = (X + 2 ^ (58 * j + s) * x) mod 2 ^ (58 * sz)" .
qed

lemma filled_done:
  assumes "filled sz r j s X"
  shows "length r = sz \<and> j < sz \<and> digits_in 0 (2 ^ 58) (take (Suc j) r) \<and> lval 58 (take (Suc j) r) = X mod 2 ^ (58 * sz)"
proof -
  have f: "j < length r" "digits_in 0 (2 ^ 58) (take j r)" "0 \<le> r ! j" "r ! j < 2 ^ s" "s < 58" "length r = sz"
    "lval 58 (take (Suc j) r) = X"
    using assms by (auto simp: filled_def)
  have "(2 :: int) ^ s \<le> 2 ^ 58" using f(5) by (intro power_increasing) simp_all
  then have d: "digits_in 0 (2 ^ 58) (take (Suc j) r)" using f by (simp add: take_Suc_conv_app_nth)
  have "length (take (Suc j) r) = Suc j" using f(1) by simp
  then have "X < 2 ^ (58 * Suc j)" using lval_upper [OF d] f(7) by simp
  also have "\<dots> \<le> (2 :: int) ^ (58 * sz)" using f(1,6) by (intro power_increasing) simp_all
  finally have "X < 2 ^ (58 * sz)" "0 \<le> X" using lval_nonneg [OF d, of 58] f(7) by simp_all
  then show ?thesis using f d by simp
qed

lemma from_bin_loop_filled:
  assumes "filled sz r j s X" "from_bin_loop sz xs r j s = (r', j')"
  shows "length r' = sz \<and> j' < sz \<and> digits_in 0 (2 ^ 58) (take (Suc j') r') \<and>
    lval 58 (take (Suc j') r') = (X + 2 ^ (58 * j + s) * lval 8 (map uint xs)) mod 2 ^ (58 * sz)"
  using assms
proof (induction xs arbitrary: r j s X)
  case Nil
  then show ?case using filled_done [OF Nil.prems(1)] by simp
next
  case (Cons x xs)
  have x: "0 \<le> uint x" "uint x < 2 ^ 8" using uint_lt2p [of x] by simp_all
  have split: "X + 2 ^ (58 * j + s) * uint x + 2 ^ (58 * j + s + 8) * lval 8 (map uint xs)
      = X + 2 ^ (58 * j + s) * lval 8 (map uint (x # xs))"
    by (simp add: algebra_simps power_add)
  have s: "s < 58" "j < length r" "length r = sz" using Cons.prems(1) by (auto simp: filled_def)
  consider "s < 50" | "50 \<le> s" "Suc j < sz" | "50 \<le> s" "Suc j = sz" using s by linarith
  then show ?case
  proof cases
    case 1
    with Cons.prems(2) have "from_bin_loop sz xs (r[j := r ! j OR s64 (uint x * 2 ^ s)]) j (s + 8) = (r', j')"
      by simp
    moreover have "s + 8 < 58" using 1 by simp
    ultimately show ?thesis
      using Cons.IH [OF filled_keep [OF Cons.prems(1) _ x]] split by (simp add: add.assoc)
  next
    case 2
    have "from_bin_loop sz xs (r[j := (r ! j OR s64 (uint x * 2 ^ s)) AND 0x3ffffffffffffff, Suc j := uint x div 2 ^ (58 - s)])
        (Suc j) (s + 8 - 58) = (r', j')"
      using Cons.prems(2) 2 s by (simp add: sar_def Let_def)
    moreover have "58 * Suc j + (s + 8 - 58) = 58 * j + s + 8" "58 \<le> s + 8" "s + 8 < 116" using 2 s by simp_all
    ultimately show ?thesis
      using Cons.IH [OF filled_next [OF Cons.prems(1) 2(2) _ _ x]] split by (simp only: simp_thms)
  next
    case 3
    have r: "r' = r[j := (r ! j OR s64 (uint x * 2 ^ s)) AND 0x3ffffffffffffff]" "j' = j"
      using Cons.prems(2) 3 s by (auto simp: Let_def)
    note l = filled_last [OF Cons.prems(1) 3(2), of "uint x", folded r(1)]
    have "58 * j + s + 8 = 58 * sz + (s - 50)" using 3 by simp
    then have "(2 :: int) ^ (58 * j + s + 8) = 2 ^ (58 * sz) * 2 ^ (s - 50)" by (simp add: power_add)
    then have "(X + 2 ^ (58 * j + s) * lval 8 (map uint (x # xs))) mod 2 ^ (58 * sz)
        = (X + 2 ^ (58 * j + s) * uint x) mod 2 ^ (58 * sz)"
      unfolding split [symmetric] by (simp add: mult.assoc)
    then show ?thesis using l 3(2) s r(2) by simp
  qed
qed

lemma clear_above_digs:
  assumes "length r = sz" "j < sz" "digits_in 0 (2 ^ 58) (take (Suc j) r)"
  shows "clear_above sz (r, j) = digs 58 sz (lval 58 (take (Suc j) r))"
proof -
  let ?l = "take (Suc j) r @ replicate (sz - Suc j) 0"
  have d: "digits_in 0 (2 ^ 58) ?l" using assms(3) by (auto simp: digits_in_def)
  have "?l \<noteq> []" "digits_in 0 (2 ^ 58) (butlast ?l)"
    using assms d by (auto simp: digits_in_def dest: in_set_butlastD)
  from digs_lval [OF this] have "?l = digs 58 sz (lval 58 ?l)" using assms by simp
  moreover have "clear_above sz (r, j) = ?l" using assms by (simp add: clear_above_def)
  ultimately show ?thesis by (simp add: lval_append)
qed

lemma from_bin_digs:
  assumes "length r = sz" "0 < sz"
  shows "sp_521_from_bin r sz a n = digs 58 sz (be_num (take n a) mod 2 ^ (58 * sz))"
proof -
  obtain r' j' where l: "from_bin_loop sz (rev (take n a)) (r[0 := 0]) 0 0 = (r', j')" by fastforce
  have "filled sz (r[0 := 0]) 0 0 0" using assms by (cases r) (auto simp: filled_def)
  from from_bin_loop_filled [OF this l] show ?thesis
    using clear_above_digs [of r' sz j'] l by (simp add: sp_521_from_bin_def be_num_def rev_map)
qed

text \<open>\<open>packed X i n a\<close>: the last \<open>n\<close> bytes of \<open>a\<close> hold the first \<open>i\<close> digits of \<open>X\<close>.\<close>

definition packed :: "int \<Rightarrow> nat \<Rightarrow> nat \<Rightarrow> byte list \<Rightarrow> bool" where
  "packed X i n a \<longleftrightarrow> length a = 66 \<and> n \<le> 66 \<and>
     (\<forall>u<n. a ! (65 - u) = word_of_int (X mod 2 ^ (58 * i) div 2 ^ (8 * u)))"

lemma packedD: "packed X i n a \<Longrightarrow> u < n \<Longrightarrow> a ! (65 - u) = word_of_int (X mod 2 ^ (58 * i) div 2 ^ (8 * u))"
  by (simp add: packed_def)

lemma word_of_int_byte: "x mod 2 ^ 8 = y mod 2 ^ 8 \<Longrightarrow> (word_of_int x :: byte) = word_of_int y"
  by (simp add: word_of_int_eq_iff take_bit_eq_mod)

lemma or_word_of_int: "(word_of_int x :: byte) OR word_of_int y = word_of_int (x OR y)"
  by (rule bit_word_eqI) (simp add: bit_simps)

lemma packed_mono:
  assumes "8 * Suc u \<le> 58 * i"
  shows "(word_of_int (X mod 2 ^ (58 * i) div 2 ^ (8 * u)) :: byte) = word_of_int (X mod 2 ^ (58 * Suc i) div 2 ^ (8 * u))"
  using mod_div_mod_pow [of "8 * u" 8 "58 * i" X] mod_div_mod_pow [of "8 * u" 8 "58 * Suc i" X] assms
  by (intro word_of_int_byte) simp

lemma packed_or:
  assumes "packed X i (Suc t) a" "8 * t + s = 58 * i"
  defines "d \<equiv> X div 2 ^ (58 * i) mod 2 ^ 58"
  shows "packed X (Suc i) (Suc t) (a[65 - t := a ! (65 - t) OR word_of_int (s64 (d * 2 ^ s))])"
proof -
  define lo where "lo = X mod 2 ^ (58 * i) div 2 ^ (8 * t)"
  have lo: "0 \<le> lo" "lo < 2 ^ s"
    using assms(2) unfolding lo_def
    by (simp add: pos_imp_zdiv_nonneg_iff, intro div_less_of_less_mult) (simp_all add: power_add [symmetric] add.commute)
  have "X mod 2 ^ (58 * Suc i) = X mod 2 ^ (58 * i) + 2 ^ s * d * 2 ^ (8 * t)"
  proof -
    have "X mod 2 ^ (58 * i + 58) = 2 ^ (58 * i) * d + X mod 2 ^ (58 * i)"
      unfolding d_def by (simp add: power_add zmod_zmult2_eq)
    then show ?thesis using assms(2) by (simp add: power_add [symmetric] mult.commute mult.left_commute add.commute)
  qed
  then have n: "X mod 2 ^ (58 * Suc i) div 2 ^ (8 * t) = lo + d * 2 ^ s" unfolding lo_def by (simp add: mult.commute)
  have "(word_of_int (s64 (d * 2 ^ s)) :: byte) = word_of_int (d * 2 ^ s)"
    using s64_and_mask [of 8 "d * 2 ^ s"] unfolding and_mask_mod by (intro word_of_int_byte) simp
  moreover have "a ! (65 - t) = word_of_int lo" using assms(1) by (simp add: packed_def lo_def)
  ultimately have top: "a ! (65 - t) OR word_of_int (s64 (d * 2 ^ s)) = word_of_int (X mod 2 ^ (58 * Suc i) div 2 ^ (8 * t))"
    by (simp only: or_word_of_int regroup_or [OF lo] n)
  show ?thesis
    unfolding packed_def
  proof (intro conjI allI impI)
    fix u
    assume u: "u < Suc t"
    show "a[65 - t := a ! (65 - t) OR word_of_int (s64 (d * 2 ^ s))] ! (65 - u)
        = word_of_int (X mod 2 ^ (58 * Suc i) div 2 ^ (8 * u))"
    proof (cases "u = t")
      case True
      then show ?thesis using assms(1) top by (simp add: packed_def)
    next
      case False
      then have "65 - t \<noteq> 65 - u" using u assms(1) by (auto simp: packed_def)
      moreover have "8 * Suc u \<le> 58 * i" using u False assms(2) by simp
      ultimately show ?thesis using assms(1) u packed_mono [of u i X] by (simp add: packed_def)
    qed
  qed (use assms(1) in \<open>simp_all add: packed_def\<close>)
qed

lemma packed_put:
  assumes "packed X (Suc i) n a" "n < 66" "8 * n = 58 * i + b"
  shows "packed X (Suc i) (Suc n) (a[65 - n := word_of_int (sar (X div 2 ^ (58 * i) mod 2 ^ 58) b)])"
proof -
  have "X div 2 ^ (58 * i) mod 2 ^ 58 = X mod 2 ^ (58 * Suc i) div 2 ^ (58 * i)"
    using mod_div_pow [of X "58 * i" 58] by (simp add: add.commute)
  then have "sar (X div 2 ^ (58 * i) mod 2 ^ 58) b = X mod 2 ^ (58 * Suc i) div 2 ^ (8 * n)"
    unfolding sar_def assms(3) by (simp only: div_div_pow)
  moreover have "65 - n \<noteq> 65 - u" if "u < n" for u using that assms(2) by auto
  ultimately show ?thesis using assms(1,2) by (auto simp: packed_def less_Suc_eq)
qed

lemma to_bin_bytes_packed:
  assumes "packed X (Suc i) n a" "n < 66" "8 * n = 58 * i + b" "b \<le> 65" "i \<le> 8"
    and "to_bin_bytes (X div 2 ^ (58 * i) mod 2 ^ 58) b (65 - int n) a = (a', j', b')"
  shows "\<exists>n'. packed X (Suc i) n' a' \<and> j' = 65 - int n' \<and> 0 < n' \<and> 8 * n' = 58 * i + b' \<and> 58 \<le> b' \<and> b' \<le> 65"
  using assms
proof (induction "X div 2 ^ (58 * i) mod 2 ^ 58" b "65 - int n" a arbitrary: n rule: to_bin_bytes.induct)
  case (1 b a)
  let ?a = "a[65 - n := word_of_int (sar (X div 2 ^ (58 * i) mod 2 ^ 58) b)]"
  have j: "nat (65 - int n) = 65 - n" "65 - int n - 1 = 65 - int (Suc n)" using "1.prems"(2) by simp_all
  show ?case
  proof (cases "b < 58")
    case True
    note p = packed_put [OF "1.prems"(1,2,3)]
    have n8: "8 * Suc n = 58 * i + (b + 8)" "b + 8 \<le> 65" using "1.prems"(3) True by simp_all
    show ?thesis
    proof (cases "n = 65")
      case n: True
      then have "a' = ?a" "j' = 65 - int (Suc n)" "b' = b + 8"
        using "1.prems"(6) True j by (simp_all add: to_bin_bytes.simps [of _ b] Let_def)
      moreover have "58 \<le> b + 8" using n n8(1) assms(5) by (simp, presburger)
      ultimately show ?thesis using p n8 by (intro exI [of _ "Suc n"]) simp
    next
      case False
      then have m: "Suc n < 66" "\<not> 65 - int n - 1 < 0" using "1.prems"(2) by simp_all
      have e: "to_bin_bytes (X div 2 ^ (58 * i) mod 2 ^ 58) (b + 8) (65 - int (Suc n)) ?a = (a', j', b')"
        using "1.prems"(6) True m j by (simp add: to_bin_bytes.simps [of _ b] Let_def)
      show ?thesis
        by (rule "1.hyps" [of _ "Suc n" "b + 8"]) (use True p m n8 "1.prems"(5) e j in simp_all)
    qed
  next
    case False
    then have "a' = a" "j' = 65 - int n" "b' = b"
      using "1.prems"(6) by (simp_all add: to_bin_bytes.simps [of _ b])
    moreover have "0 < n" using "1.prems"(3) False by simp
    ultimately show ?thesis using "1.prems"(1-4) False by (intro exI [of _ n]) simp
  qed
qed

lemma to_bin_loop_packed:
  assumes "packed X i (Suc t) a" "8 * t + s = 58 * i" "s \<le> 8" "i \<le> 9"
    and "ds = map (\<lambda>k. X div 2 ^ (58 * k) mod 2 ^ 58) [i..<9]"
  shows "packed X 9 66 (to_bin_loop ds a (65 - int t) s)"
  using assms
proof (induction ds arbitrary: i t a s)
  case Nil
  then have i: "i = 9" by simp
  moreover have "t = 65" using Nil.prems(2,3) unfolding i by presburger
  ultimately have "i = 9" "t = 65" by simp_all
  with Nil show ?case by simp
next
  case (Cons d ds)
  let ?a = "a[65 - t := a ! (65 - t) OR word_of_int (s64 (d * 2 ^ s))]"
  have i: "i \<le> 8" using Cons.prems(5) by (cases "i \<le> 8") simp_all
  then have ds: "d = X div 2 ^ (58 * i) mod 2 ^ 58" "ds = map (\<lambda>k. X div 2 ^ (58 * k) mod 2 ^ 58) [Suc i..<9]"
    using Cons.prems(5) by (simp_all add: upt_conv_Cons)
  have t: "t < 65" using Cons.prems(2) i by simp
  have p: "packed X (Suc i) (Suc t) ?a" using packed_or [OF Cons.prems(1,2)] by (simp only: ds(1))
  obtain a' j' b' where b: "to_bin_bytes d (8 - s) (65 - int (Suc t)) ?a = (a', j', b')" by (metis prod_cases3)
  obtain n where n: "packed X (Suc i) n a'" "j' = 65 - int n" "0 < n" "8 * n = 58 * i + b'" "58 \<le> b'" "b' \<le> 65"
    using to_bin_bytes_packed [OF p _ _ _ i] b t Cons.prems(2,3) unfolding ds(1) by force
  define a2 where "a2 = (if j' \<ge> 0 then a'[nat j' := 0] else a')"
  obtain m where m: "n = Suc m" using n(3) by (cases n) simp_all
  have "nat (65 - int n) \<noteq> 65 - u" if "u < n" "n \<le> 65" for u using that by linarith
  then have p2: "packed X (Suc i) n a2" using n(1,2) by (auto simp: packed_def a2_def)
  have "to_bin_loop (d # ds) a (65 - int t) s = to_bin_loop ds a2 (65 - int m) (66 - b')"
    using t b n m unfolding a2_def by (simp add: Let_def nat_diff_distrib)
  then show ?case
    using Cons.IH [of "Suc i" m a2 "66 - b'"] p2 m n i ds(2) by simp
qed

lemma to_bin_digs:
  assumes "length a = 66" "0 \<le> X" "X < 2 ^ 522"
  shows "to_bin_loop (digs 58 9 X) (a[65 := 0]) 65 0 = be_bytes 66 X"
proof -
  have "digs 58 9 X = map (\<lambda>k. X div 2 ^ (58 * k) mod 2 ^ 58) [0..<9]"
  proof (rule nth_equalityI)
    fix k
    assume "k < length (digs 58 9 X)"
    then have k: "k < 9" by simp
    have "X div 2 ^ 464 < 2 ^ 58" "0 \<le> X div 2 ^ 464"
      using assms by (simp_all add: div_less_of_less_mult pos_imp_zdiv_nonneg_iff)
    then have "X div 2 ^ 464 mod 2 ^ 58 = X div 2 ^ 464" by simp
    moreover have "k < 8 \<or> k = 8" using k by linarith
    ultimately have "digs 58 9 X ! k = X div 2 ^ (58 * k) mod 2 ^ 58"
      using k digs_nth [of k 9 58 X] digs_last [of 9 58 X] by auto
    then show "digs 58 9 X ! k = map (\<lambda>k. X div 2 ^ (58 * k) mod 2 ^ 58) [0..<9] ! k"
      using k by (simp del: upt_rec_numeral)
  qed simp
  moreover have "packed X 0 (Suc 0) (a[65 := 0])" using assms(1) by (simp add: packed_def)
  ultimately have p: "packed X 9 66 (to_bin_loop (digs 58 9 X) (a[65 := 0]) 65 0)"
    using to_bin_loop_packed [of X 0 0 "a[65 := 0]" 0] by simp
  show ?thesis
  proof (rule nth_equalityI)
    show "length (to_bin_loop (digs 58 9 X) (a[65 := 0]) 65 0) = length (be_bytes 66 X)"
      using p by (simp add: packed_def be_bytes_def)
    fix k
    assume "k < length (to_bin_loop (digs 58 9 X) (a[65 := 0]) 65 0)"
    then have k: "k < 66" "65 - (65 - k) = k" using p by (auto simp: packed_def)
    have "to_bin_loop (digs 58 9 X) (a[65 := 0]) 65 0 ! k = word_of_int (X mod 2 ^ (58 * 9) div 2 ^ (8 * (65 - k)))"
      using packedD [OF p, of "65 - k"] k(2) by simp
    then show "to_bin_loop (digs 58 9 X) (a[65 := 0]) 65 0 ! k = be_bytes 66 X ! k"
      using k assms by (simp add: be_bytes_def)
  qed
qed

section \<open>Digits of an \<open>mp_int\<close>: correctness\<close>

definition mp_val :: "mp_int \<Rightarrow> int" where
  "mp_val m = lval 64 (map uint (take (used m) (dp m)))"

text \<open>A word that spans three digits: the second one is full.\<close>

lemma filled_next_next:
  fixes x :: int
  assumes "filled sz r j s X" "Suc (Suc j) < sz" "52 \<le> s" "0 \<le> x" "x < 2 ^ 64"
  shows "filled sz (r[j := (r ! j OR s64 (x * 2 ^ s)) AND 0x3ffffffffffffff,
      Suc j := x div 2 ^ (58 - s) AND 0x3ffffffffffffff, Suc (Suc j) := x div 2 ^ (58 - s) div 2 ^ 58])
    (Suc (Suc j)) (s - 52) (X + 2 ^ (58 * j + s) * x)"
proof -
  have f: "s < 58" "Suc (Suc j) < length r" "0 \<le> r ! j" "r ! j < 2 ^ s" using assms(1,2) by (auto simp: filled_def)
  define lo hi where "lo = x mod 2 ^ (58 - s)" and "hi = x div 2 ^ (58 - s)"
  have x: "x = lo + 2 ^ (58 - s) * hi" unfolding lo_def hi_def by simp
  have lo: "0 \<le> lo" "lo < 2 ^ (58 - s)" unfolding lo_def by simp_all
  have "(2 :: int) ^ 64 = 2 ^ (6 + s) * 2 ^ (58 - s)" using f(1) by (simp flip: power_add)
  then have hi: "0 \<le> hi" "hi < 2 ^ (6 + s)"
    using assms(4,5) unfolding hi_def
    by (simp add: pos_imp_zdiv_nonneg_iff, intro div_less_of_less_mult) (simp_all add: mult.commute)
  have same: "(r ! j OR s64 (lo * 2 ^ s)) AND 0x3ffffffffffffff = (r ! j OR s64 (x * 2 ^ s)) AND 0x3ffffffffffffff"
  proof -
    have "x * 2 ^ s = lo * 2 ^ s + hi * 2 ^ 58"
    proof -
      have "(2 :: int) ^ 58 = 2 ^ (58 - s) * 2 ^ s" using f(1) by (simp flip: power_add)
      then show ?thesis by (simp only: x) (simp add: algebra_simps)
    qed
    then have "(r ! j + x * 2 ^ s) mod 2 ^ 58 = (r ! j + lo * 2 ^ s) mod 2 ^ 58" by (simp add: add.assoc [symmetric])
    then show ?thesis using or_s64_mask [OF f(3,4), of 58] by simp
  qed
  have "58 \<le> s + (58 - s)" "s + (58 - s) < 116" "Suc j < sz" using f(1) assms(2) by simp_all
  then have "filled sz (r[j := (r ! j OR s64 (lo * 2 ^ s)) AND 0x3ffffffffffffff, Suc j := 0]) (Suc j) 0 (X + 2 ^ (58 * j + s) * lo)"
    using filled_next [OF assms(1) _ _ _ lo] lo f(1) by simp
  moreover have "58 \<le> 0 + (6 + s)" "0 + (6 + s) < 116" using assms(3) f(1) by simp_all
  moreover have "s64 hi AND 0x3ffffffffffffff = hi AND 0x3ffffffffffffff"
    using s64_and_mask [of 58 hi] and_mask_mod [of hi 58] by simp
  ultimately have "filled sz (r[j := (r ! j OR s64 (x * 2 ^ s)) AND 0x3ffffffffffffff,
      Suc j := hi AND 0x3ffffffffffffff, Suc (Suc j) := hi div 2 ^ 58])
    (Suc (Suc j)) (s - 52) (X + 2 ^ (58 * j + s) * lo + 2 ^ (58 * Suc j + 0) * hi)"
    using filled_next [of sz _ "Suc j" 0 _ "6 + s", OF _ assms(2) _ _ hi] same f(2) by fastforce
  moreover have "X + 2 ^ (58 * j + s) * lo + 2 ^ (58 * Suc j + 0) * hi = X + 2 ^ (58 * j + s) * x"
  proof -
    have "(2 :: int) ^ (58 * Suc j) = 2 ^ (58 * j + s) * 2 ^ (58 - s)" using f(1) by (simp flip: power_add)
    then show ?thesis using x by (simp add: algebra_simps)
  qed
  ultimately show ?thesis by (simp only: hi_def)
qed

lemma from_mp_more_stop: "6 < s \<Longrightarrow> from_mp_more sz x r j s = (r, j, s)"
  by (simp add: from_mp_more.simps)

lemma from_mp_more_once:
  "s \<le> 6 \<Longrightarrow> Suc j < sz \<Longrightarrow> from_mp_more sz x r j s =
    (r[j := r ! j AND 0x3ffffffffffffff, Suc j := if s + 58 < 64 then s64 (uint x div 2 ^ (s + 58)) else 0], Suc j, s + 58)"
  by (subst from_mp_more.simps) (simp add: from_mp_more_stop Let_def)

lemma from_mp_loop_filled:
  assumes "filled 9 r j s X" "64 * i = 58 * j + s" "from_mp_loop 9 xs r j s = (r', j')"
  shows "length r' = 9 \<and> j' < 9 \<and> digits_in 0 (2 ^ 58) (take (Suc j') r') \<and>
    lval 58 (take (Suc j') r') = (X + 2 ^ (58 * j + s) * lval 64 (map uint xs)) mod 2 ^ 522"
  using assms
proof (induction xs arbitrary: r i j s X)
  case Nil
  then show ?case using filled_done [OF Nil.prems(1)] by simp
next
  case (Cons x xs)
  have x: "0 \<le> uint x" "uint x < 2 ^ 64" using uint_lt2p [of x] by simp_all
  have split: "X + 2 ^ (58 * j + s) * uint x + 2 ^ (58 * j + s + 64) * lval 64 (map uint xs)
      = X + 2 ^ (58 * j + s) * lval 64 (map uint (x # xs))"
    by (simp add: algebra_simps power_add)
  have s: "s < 58" "j < length r" "length r = 9" using Cons.prems(1) by (auto simp: filled_def)
  let ?q = "uint x div 2 ^ (58 - s)"
  have "(2 :: int) ^ 1 \<le> 2 ^ (58 - s)" using s(1) by (intro power_increasing) simp_all
  then have "(2 :: int) ^ 64 \<le> 2 ^ (58 - s) * 2 ^ 63" by simp
  then have "?q < 2 ^ 63" "0 \<le> ?q"
    using x by (intro div_less_of_less_mult) (simp_all add: pos_imp_zdiv_nonneg_iff)
  then have q: "s64 ?q = ?q" by (intro s64_id) simp_all
  consider "Suc j = 9" | "Suc j < 9" "s < 52" | "Suc (Suc j) < 9" "52 \<le> s" | "Suc (Suc j) = 9" "52 \<le> s"
    using s by linarith
  then show ?case
  proof cases
    case 1
    have "r' = r[j := (r ! j OR s64 (uint x * 2 ^ s)) AND 0x3ffffffffffffff]" "j' = j"
      using Cons.prems(3) 1 s by (auto simp: Let_def)
    moreover have "(X + 2 ^ (58 * j + s) * lval 64 (map uint (x # xs))) mod 2 ^ 522
        = (X + 2 ^ (58 * j + s) * uint x) mod 2 ^ 522"
    proof -
      have "58 * j + s + 64 = 522 + (s + 6)" using 1 by simp
      then have "(2 :: int) ^ (58 * j + s + 64) = 2 ^ 522 * 2 ^ (s + 6)" by (simp only: power_add)
      then show ?thesis unfolding split [symmetric] by (simp add: mult.assoc)
    qed
    ultimately show ?thesis using filled_last [OF Cons.prems(1) 1, of "uint x"] 1 by simp
  next
    case 2
    have "from_mp_loop 9 xs (r[j := (r ! j OR s64 (uint x * 2 ^ s)) AND 0x3ffffffffffffff, Suc j := ?q])
        (Suc j) (s + 64 - 58) = (r', j')"
      using Cons.prems(3) 2 s q by (simp add: Let_def from_mp_more_stop)
    moreover have "58 * Suc j + (s + 64 - 58) = 58 * j + s + 64" "64 * Suc i = 58 * j + s + 64" "58 \<le> s + 64" "s + 64 < 116"
      using Cons.prems(2) 2 by simp_all
    ultimately show ?thesis
      using Cons.IH [OF filled_next [OF Cons.prems(1) 2(1) _ _ x]] split by (metis (no_types, lifting))
  next
    case 3
    let ?r = "r[j := (r ! j OR s64 (uint x * 2 ^ s)) AND 0x3ffffffffffffff, Suc j := ?q AND 0x3ffffffffffffff,
      Suc (Suc j) := ?q div 2 ^ 58]"
    have big: "(if 58 - s + 58 < 64 then s64 (uint x div 2 ^ (58 - s + 58)) else 0) = ?q div 2 ^ 58"
    proof -
      have e: "uint x div 2 ^ (58 - s + 58) = ?q div 2 ^ 58" by (simp only: div_div_pow)
      have "s64 (q div 2 ^ 58) = q div 2 ^ 58" if "0 \<le> q" "q < 2 ^ 63" for q
        using that div_less_of_less_mult [of "2 ^ 58" q "2 ^ 63"] by (intro s64_id) (simp_all add: pos_imp_zdiv_nonneg_iff)
      then have "s64 (?q div 2 ^ 58) = ?q div 2 ^ 58" using \<open>?q < 2 ^ 63\<close> \<open>0 \<le> ?q\<close> by blast
      moreover have "?q div 2 ^ 58 = 0" if "\<not> 58 - s + 58 < 64"
      proof -
        have "58 - s + 58 = 64" using that 3 s(1) by simp
        then show ?thesis using e x by simp
      qed
      ultimately show ?thesis unfolding e by simp
    qed
    have "from_mp_loop 9 xs ?r (Suc (Suc j)) (s - 52) = (r', j')"
      using Cons.prems(3) 3 s q big by (simp add: Let_def from_mp_more_once)
    moreover have "58 * Suc (Suc j) + (s - 52) = 58 * j + s + 64" "64 * Suc i = 58 * j + s + 64"
      using Cons.prems(2) 3 by simp_all
    ultimately show ?thesis
      using Cons.IH [OF filled_next_next [OF Cons.prems(1) 3 x]] split by (metis (no_types, lifting))
  next
    case 4
    then have "64 * i = 406 + s" using Cons.prems(2) by simp
    with 4 s(1) have False by presburger
    then show ?thesis ..
  qed
qed

lemma from_mp_digs:
  assumes "length r = 9"
  shows "sp_521_from_mp r 9 m = digs 58 9 (mp_val m mod 2 ^ 522)"
proof -
  obtain r' j' where l: "from_mp_loop 9 (take (used m) (dp m)) (r[0 := 0]) 0 0 = (r', j')" by fastforce
  have "filled 9 (r[0 := 0]) 0 0 0" using assms by (cases r) (auto simp: filled_def)
  from from_mp_loop_filled [OF this _ l, of 0] show ?thesis
    using clear_above_digs [of r' 9 j'] l by (simp add: sp_521_from_mp_def mp_val_def)
qed

text \<open>The state of a conversion to 64-bit digits.\<close>

definition filled64 :: "64 word list \<Rightarrow> nat \<Rightarrow> nat \<Rightarrow> int \<Rightarrow> bool" where
  "filled64 ds j s X \<longleftrightarrow> j < length ds \<and> s < 64 \<and> uint (ds ! j) < 2 ^ s \<and> lval 64 (map uint (take (Suc j) ds)) = X"

lemma uint_or_push:
  fixes w :: "64 word"
  assumes "uint w < 2 ^ s" "s < 64" "0 \<le> a" "a < 2 ^ 58"
  shows "uint (w OR push_bit s (word_of_int a)) = (uint w + a * 2 ^ s) mod 2 ^ 64"
proof -
  have "uint (w OR push_bit s (word_of_int a)) = take_bit 64 (uint w OR push_bit s a)"
    by (rule bit_eqI) (auto simp: bit_simps dest: bit_imp_le_length)
  also have "uint w OR push_bit s a = uint w + a * 2 ^ s"
    using regroup_or [OF _ assms(1), of a] by (simp add: push_bit_eq_mult)
  finally show ?thesis by (simp add: take_bit_eq_mod)
qed

lemma lval_take_Suc64: "j < length ds \<Longrightarrow> lval 64 (map uint (take (Suc j) ds)) = lval 64 (map uint (take j ds)) + 2 ^ (64 * j) * uint (ds ! j)"
  for ds :: "64 word list"
  by (simp add: take_Suc_conv_app_nth lval_append)

lemma to_mp_loop_filled:
  assumes "filled64 ds j s X" "64 * j + s = 58 * i" "digits_in 0 (2 ^ 58) as" "i + length as = 9" "9 \<le> length ds" "i \<le> 9"
  shows "length (to_mp_loop as ds j s) = length ds \<and>
    lval 64 (map uint (take 9 (to_mp_loop as ds j s))) = X + 2 ^ (58 * i) * lval 58 as"
  using assms
proof (induction as arbitrary: ds i j s X)
  case Nil
  then have "i = 9" by simp
  then have "64 * j + s = 522" "s < 64" using Nil.prems(1,2) by (simp_all add: filled64_def)
  then have "j = 8" by presburger
  then show ?case using Nil.prems by (simp add: filled64_def)
next
  case (Cons a as)
  have f: "j < length ds" "s < 64" "uint (ds ! j) < 2 ^ s" "lval 64 (map uint (take (Suc j) ds)) = X"
    using Cons.prems(1) by (simp_all add: filled64_def)
  have a: "0 \<le> a" "a < 2 ^ 58" "digits_in 0 (2 ^ 58) as" using Cons.prems(3) by simp_all
  note u = uint_or_push [OF f(3,2) a(1,2)]
  have X: "X + 2 ^ (58 * i) * a + 2 ^ (58 * Suc i) * lval 58 as = X + 2 ^ (58 * i) * lval 58 (a # as)"
    by (simp add: algebra_simps power_add)
  have i: "i \<le> 8" "Suc i + length as = 9" using Cons.prems(4) by simp_all
  show ?case
  proof (cases "s + 58 \<ge> 64")
    case True
    let ?ds = "ds[j := ds ! j OR push_bit s (word_of_int a), Suc j := word_of_int (a div 2 ^ (64 - s))]"
    have j: "Suc j < length ds" using Cons.prems(2,5) i(1) True by simp
    have q: "0 \<le> a div 2 ^ (64 - s)" "a div 2 ^ (64 - s) < 2 ^ (s - 6)"
      using a f(2) True by (simp add: pos_imp_zdiv_nonneg_iff, intro div_less_of_less_mult) (simp_all flip: power_add)
    have "(2 :: int) ^ (s - 6) \<le> 2 ^ 64" using f(2) by (intro power_increasing) simp_all
    with q have w: "uint (word_of_int (a div 2 ^ (64 - s)) :: 64 word) = a div 2 ^ (64 - s)"
      by (simp add: uint_word_of_int)
    have c: "(uint (ds ! j) + a * 2 ^ s) mod 2 ^ 64 + 2 ^ 64 * (a div 2 ^ (64 - s)) = uint (ds ! j) + a * 2 ^ s"
      using regroup_carry [OF _ f(3), of 64 a] f(2) by simp
    have "lval 64 (map uint (take (Suc (Suc j)) ?ds))
        = lval 64 (map uint (take j ds)) + 2 ^ (64 * j) * ((uint (ds ! j) + a * 2 ^ s) mod 2 ^ 64 + 2 ^ 64 * (a div 2 ^ (64 - s)))"
      using j u w by (simp add: lval_take_Suc64 algebra_simps power_add)
    also have "\<dots> = X + 2 ^ (64 * j + s) * a"
      using f(1,4) unfolding c by (simp add: lval_take_Suc64 algebra_simps power_add)
    finally have "filled64 ?ds (Suc j) (s - 6) (X + 2 ^ (58 * i) * a)"
      using f j q w Cons.prems(2) by (simp add: filled64_def)
    moreover have "to_mp_loop (a # as) ds j s = to_mp_loop as ?ds (Suc j) (s - 6)"
      using True f(2) by (simp add: Let_def sar_def)
    moreover have "64 * Suc j + (s - 6) = 58 * Suc i" using Cons.prems(2) True by simp
    ultimately show ?thesis
      using Cons.IH [of ?ds "Suc j" "s - 6" "X + 2 ^ (58 * i) * a" "Suc i"] a(3) i Cons.prems(5) X by simp
  next
    case False
    let ?ds = "ds[j := ds ! j OR push_bit s (word_of_int a)]"
    have "a * 2 ^ s \<le> (2 ^ 58 - 1) * 2 ^ s" using a by (intro mult_right_mono) simp_all
    also have "\<dots> = 2 ^ (s + 58) - 2 ^ s" by (simp add: power_add algebra_simps)
    finally have b: "uint (ds ! j) + a * 2 ^ s < 2 ^ (s + 58)" "0 \<le> a * 2 ^ s" using f(3) a by simp_all
    have "(2 :: int) ^ (s + 58) \<le> 2 ^ 64" using False by (intro power_increasing) simp_all
    with b u have u': "uint (ds ! j OR push_bit s (word_of_int a)) = uint (ds ! j) + a * 2 ^ s" by simp
    have "lval 64 (map uint (take (Suc j) ?ds)) = X + 2 ^ (64 * j + s) * a"
      using f(1,4) u' by (simp add: lval_take_Suc64 algebra_simps power_add)
    then have "filled64 ?ds j (s + 58) (X + 2 ^ (58 * i) * a)"
      using f b u' False Cons.prems(2) by (simp add: filled64_def)
    moreover have "to_mp_loop (a # as) ds j s = to_mp_loop as ?ds j (s + 58)" using False by simp
    moreover have "64 * j + (s + 58) = 58 * Suc i" using Cons.prems(2) by simp
    ultimately show ?thesis
      using Cons.IH [of ?ds j "s + 58" "X + 2 ^ (58 * i) * a" "Suc i"] a(3) i Cons.prems(5) X by simp
  qed
qed

lemma to_mp_correct:
  assumes "length a = 9" "digits_in 0 (2 ^ 58) a" "mp_grow lib m 9 = (0, m1)" "9 \<le> length (dp m1)"
    and "\<And>x. mp_val (mp_clamp lib x) = mp_val x"
  shows "\<exists>m2. sp_521_to_mp lib a m = (0, m2) \<and> mp_val m2 = lval 58 a"
proof -
  have "filled64 ((dp m1)[0 := 0]) 0 0 0" using assms(4) by (cases "dp m1") (auto simp: filled64_def)
  from to_mp_loop_filled [OF this _ assms(2), of 0] assms show ?thesis
    by (simp add: sp_521_to_mp_def mp_val_def)
qed

section \<open>Random scalars: correctness\<close>

text \<open>The number a random block stands for, and the state of the generator after \<open>n\<close> blocks.\<close>

definition block_val :: "byte list \<Rightarrow> int" where
  "block_val buf = be_num buf mod 2 ^ 521"

definition rng_after :: "('r \<Rightarrow> int \<times> byte list \<times> 'r) \<Rightarrow> nat \<Rightarrow> 'r \<Rightarrow> 'r" where
  "rng_after gen n rng = ((\<lambda>r. snd (snd (gen r))) ^^ n) rng"

definition rejected :: "int \<times> byte list \<times> 'r \<Rightarrow> bool" where
  "rejected g \<longleftrightarrow> fst g = 0 \<and> N521 - 1 \<le> block_val (fst (snd g))"

lemma be_num_Cons: "be_num (x # xs) = be_num xs + 2 ^ (8 * length xs) * uint x"
  by (simp add: be_num_def lval_append)

lemma be_num_range: "0 \<le> be_num a" "be_num a < 2 ^ (8 * length a)"
proof -
  have d: "digits_in 0 (2 ^ 8) (rev (map uint a))"
    using uint_lt2p [where 'a = 8] by (auto simp: digits_in_def)
  show "0 \<le> be_num a" "be_num a < 2 ^ (8 * length a)"
    using lval_nonneg [OF d] lval_upper [OF d] by (simp_all add: be_num_def)
qed

lemma masked_block:
  assumes "length buf = 66"
  shows "be_num (buf[0 := buf ! 0 AND 1]) = block_val buf"
proof -
  obtain x xs where b: "buf = x # xs" "length xs = 65" using assms by (cases buf) auto
  have "uint (x AND 1) = uint x mod 2" by (simp only: uint_and) (simp add: and_one_eq)
  moreover have "(be_num xs + 2 ^ 520 * uint x) mod 2 ^ (520 + 1) = be_num xs + 2 ^ 520 * (uint x mod 2 ^ 1)"
    using be_num_range [of xs] b(2) by (intro mod_low_high) simp_all
  ultimately show ?thesis using b by (simp add: block_val_def be_num_Cons)
qed

lemma order2_digs: "length p521_order2 = 9" "digits_in 0 (2 ^ 58) p521_order2" "lval 58 p521_order2 = N521 - 2"
  by (simp_all add: p521_order2_def N521_def p521_order_def)

lemma add_one_digs:
  assumes "0 \<le> v" "v < 2 ^ 522"
  shows "sp_521_add_one_9 (digs 58 9 v) = digs 58 9 (v + 1)"
proof -
  obtain x xs where x: "digs 58 9 v = x # xs" "length xs = 8" by (metis length_digs length_Suc_conv numeral_eq_Suc pred_numeral_simps(2) eval_nat_numeral(3) semiring_norm(28))
  have d: "digits_in 0 (2 ^ 58) (x # xs)" using digs9_le [OF assms] by (simp only: x(1))
  then have s: "s64 (x + 1) = x + 1" by (intro s64_id) simp_all
  have "digits_in (- (2 ^ 62)) (2 ^ 62) xs" by (rule digits_in_mono [of 0 "2 ^ 58"]) (use d in simp_all)
  then have "sp_521_norm_9 ((x + 1) # xs) = digs 58 9 (val521 ((x + 1) # xs))"
    using d x(2) by (intro sp_521_norm_9_digs) simp_all
  moreover have "val521 ((x + 1) # xs) = lval 58 (x # xs) + 1" using x(2) by (simp add: val521_def)
  moreover have "lval 58 (x # xs) = v" using lval_digs [of 9 58 v] by (simp only: x(1) zero_less_numeral simp_thms)
  ultimately show ?thesis using s by (simp add: sp_521_add_one_9_def x(1))
qed

lemma gen_k_accepts:
  assumes "length k = 9" "length buf = 66"
  defines "v \<equiv> block_val buf"
  shows "sp_521_from_bin k 9 (buf[0 := buf ! 0 AND 1]) 66 = digs 58 9 v"
    and "sp_521_cmp_9 (digs 58 9 v) p521_order2 \<le> 0 \<longleftrightarrow> v < N521 - 1"
    and "sp_521_add_one_9 (digs 58 9 v) = digs 58 9 (v + 1)"
proof -
  have v: "0 \<le> v" "v < 2 ^ 521" by (simp_all add: v_def block_val_def)
  then show "sp_521_from_bin k 9 (buf[0 := buf ! 0 AND 1]) 66 = digs 58 9 v"
    using assms(1,2) masked_block [OF assms(2)] by (simp add: from_bin_digs v_def)
  have d: "digits_in 0 (2 ^ 58) (digs 58 9 v)" by (rule digs9_le) (use v in simp_all)
  have "sgn (sp_521_cmp_9 (digs 58 9 v) p521_order2) = sgn (v - (N521 - 2))"
    using sp_521_cmp_9_sign [of "digs 58 9 v" p521_order2] d order2_digs by (simp add: val521_def)
  then show "sp_521_cmp_9 (digs 58 9 v) p521_order2 \<le> 0 \<longleftrightarrow> v < N521 - 1"
    by (auto simp: sgn_if split: if_splits)
  show "sp_521_add_one_9 (digs 58 9 v) = digs 58 9 (v + 1)" by (rule add_one_digs) (use v in simp_all)
qed

lemma gen_k_step:
  assumes "length k = 9" "fst (gen rng) = 0 \<longrightarrow> length (fst (snd (gen rng))) = 66"
  defines "v \<equiv> block_val (fst (snd (gen rng)))"
  shows "sp_521_ecc_gen_k_9 gen k rng =
    (if fst (gen rng) \<noteq> 0 then Some (fst (gen rng), k, snd (snd (gen rng)))
     else if v < N521 - 1 then Some (0, digs 58 9 (v + 1), snd (snd (gen rng)))
     else sp_521_ecc_gen_k_9 gen (digs 58 9 v) (snd (snd (gen rng))))"
proof -
  obtain err buf rng' where g: "gen rng = (err, buf, rng')" by (metis prod_cases3)
  show ?thesis
  proof (cases "err = 0")
    case True
    then have "length buf = 66" using assms(2) g by simp
    note a = gen_k_accepts [OF assms(1) this]
    show ?thesis using True by (subst sp_521_ecc_gen_k_9.simps) (simp add: g Let_def a v_def)
  next
    case False
    then show ?thesis by (subst sp_521_ecc_gen_k_9.simps) (simp add: g v_def)
  qed
qed

lemma rng_after_Suc: "rng_after gen (Suc n) rng = rng_after gen n (snd (snd (gen rng)))"
  unfolding rng_after_def by (simp only: funpow_Suc_right o_def)

lemma gen_k_stops:
  assumes "length k = 9" "\<forall>r. length (fst (snd (gen r))) = 66"
    and "\<forall>m<n. rejected (gen (rng_after gen m rng))"
    and "\<not> rejected (gen (rng_after gen n rng))"
  defines "g \<equiv> gen (rng_after gen n rng)"
  shows "\<exists>k'. sp_521_ecc_gen_k_9 gen k rng = Some (fst g, k', snd (snd g)) \<and>
    (fst g = 0 \<longrightarrow> k' = digs 58 9 (block_val (fst (snd g)) + 1) \<and> block_val (fst (snd g)) < N521 - 1)"
  using assms(1,3,4) unfolding g_def
proof (induction n arbitrary: k rng)
  case 0
  then show ?case
    using gen_k_step [of k gen rng] assms(2) by (auto simp: rng_after_def rejected_def)
next
  case (Suc n)
  let ?rng = "snd (snd (gen rng))"
  have r: "rejected (gen rng)" using Suc.prems(2) by (auto simp: rng_after_def)
  then have e: "sp_521_ecc_gen_k_9 gen k rng = sp_521_ecc_gen_k_9 gen (digs 58 9 (block_val (fst (snd (gen rng))))) ?rng"
    using gen_k_step [of k gen rng] Suc.prems(1) assms(2) by (auto simp: rejected_def)
  have "\<forall>m<n. rejected (gen (rng_after gen m ?rng))"
    using Suc.prems(2) by (auto simp: rng_after_Suc [symmetric])
  then show ?case using Suc.IH [of "digs 58 9 (block_val (fst (snd (gen rng))))" ?rng] Suc.prems(3) e
    by (simp only: rng_after_Suc length_digs simp_thms)
qed

lemma gen_k_not_rejected:
  assumes "sp_521_ecc_gen_k_9 gen k rng = Some y" "\<forall>r. length (fst (snd (gen r))) = 66" "length k = 9"
  shows "\<exists>m. \<not> rejected (gen (rng_after gen m rng))"
proof -
  have "(\<forall>r. length (fst (snd (gen r))) = 66) \<longrightarrow> length k = 9 \<longrightarrow> (\<exists>m. \<not> rejected (gen (rng_after gen m rng)))"
    using assms(1)
  proof (rule sp_521_ecc_gen_k_9.raw_induct [rotated])
    fix f :: "('a \<Rightarrow> int \<times> byte list \<times> 'a) \<Rightarrow> int list \<Rightarrow> 'a \<Rightarrow> (int \<times> int list \<times> 'a) option"
      and gen :: "'a \<Rightarrow> int \<times> byte list \<times> 'a" and k rng y
    assume IH: "\<And>gen k rng y. f gen k rng = Some y \<Longrightarrow>
        (\<forall>r. length (fst (snd (gen r))) = 66) \<longrightarrow> length k = 9 \<longrightarrow> (\<exists>m. \<not> rejected (gen (rng_after gen m rng)))"
      and step: "(case gen rng of (err, buf, rng) \<Rightarrow>
       if err = 0
       then (let buf = buf[0 := buf ! 0 AND 0x1];
                 k = sp_521_from_bin k 9 buf 66
             in if sp_521_cmp_9 k p521_order2 \<le> 0 then Some (err, sp_521_add_one_9 k, rng)
                else f gen k rng)
       else Some (err, k, rng)) = Some y"
    obtain err buf rng' where g: "gen rng = (err, buf, rng')" by (metis prod_cases3)
    show "(\<forall>r. length (fst (snd (gen r))) = 66) \<longrightarrow> length k = 9 \<longrightarrow> (\<exists>m. \<not> rejected (gen (rng_after gen m rng)))"
    proof (intro impI, cases "rejected (gen rng)")
      assume len: "\<forall>r. length (fst (snd (gen r))) = 66" "length k = 9" and "rejected (gen rng)"
      then have r: "err = 0" "\<not> block_val buf < N521 - 1" by (simp_all add: rejected_def g)
      have "length buf = 66" using len(1) g by (metis fst_conv snd_conv)
      note a = gen_k_accepts [OF len(2) this]
      have "f gen (digs 58 9 (block_val buf)) rng' = Some y" using step r by (simp add: g Let_def a)
      from IH [OF this] obtain m where "\<not> rejected (gen (rng_after gen m rng'))" using len(1) by auto
      then have "\<not> rejected (gen (rng_after gen (Suc m) rng))" by (simp add: rng_after_Suc g)
      then show "\<exists>m. \<not> rejected (gen (rng_after gen m rng))" by blast
    next
      assume "\<not> rejected (gen rng)"
      then show "\<exists>m. \<not> rejected (gen (rng_after gen m rng))" by (intro exI [of _ 0]) (simp add: rng_after_def)
    qed
  qed
  with assms show ?thesis by blast
qed

section \<open>Hashes: correctness\<close>

lemma shift_digit:
  fixes u y :: int
  assumes "y mod 2 ^ 58 = u div 2 ^ 58 mod 2 ^ 58" "0 < n" "n < 58"
  shows "u mod 2 ^ 58 div 2 ^ n OR (y * 2 ^ (58 - n)) mod 2 ^ 58 = u div 2 ^ n mod 2 ^ 58"
proof -
  have "take_bit 58 y = take_bit 58 (drop_bit 58 u)" using assms(1) by (simp add: take_bit_eq_mod drop_bit_eq_div)
  then have y: "bit y k = bit u (58 + k)" if "k < 58" for k
    using that by (metis bit_take_bit_iff bit_drop_bit_eq comp_apply)
  have "drop_bit n (take_bit 58 u) OR take_bit 58 (push_bit (58 - n) y) = take_bit 58 (drop_bit n u)"
  proof (rule bit_eqI)
    fix k
    show "bit (drop_bit n (take_bit 58 u) OR take_bit 58 (push_bit (58 - n) y)) k = bit (take_bit 58 (drop_bit n u)) k"
    proof (cases "k < 58 - n \<or> 58 \<le> k")
      case True
      then show ?thesis using assms(2,3) by (auto simp: bit_simps)
    next
      case False
      define m where "m = k - (58 - n)"
      have m: "k = m + (58 - n)" "m < 58" using False assms(2,3) unfolding m_def by linarith+
      have "n + k = 58 + m" using m(1) assms(3) by simp
      then show ?thesis using y [OF m(2)] False assms(2,3) m(1) by (auto simp: bit_simps add.commute [of m 58])
    qed
  qed
  then show ?thesis by (simp add: take_bit_eq_mod drop_bit_eq_div push_bit_eq_mult)
qed

lemma rshift_9_nth:
  "i < 8 \<Longrightarrow> sp_521_rshift_9 a n ! i = sar (a ! i) n OR (s64 (a ! (i + 1) * 2 ^ (58 - n)) AND 0x3ffffffffffffff)"
  "sp_521_rshift_9 a n ! 8 = sar (a ! 8) n"
  by (simp_all add: sp_521_rshift_9_def nth_append del: upt_rec_numeral)

lemma rshift_9_digs:
  assumes "0 < n" "n < 58"
  shows "sp_521_rshift_9 (digs 58 9 X) n = digs 58 9 (X div 2 ^ n)"
proof (rule nth_equalityI)
  fix i
  assume "i < length (sp_521_rshift_9 (digs 58 9 X) n)"
  then have i: "i < 8 \<or> i = 8" by (auto simp: sp_521_rshift_9_def)
  have hi: "digs 58 9 (X div 2 ^ n) ! 8 = digs 58 9 X ! 8 div 2 ^ n"
  proof -
    have "X div 2 ^ n div 2 ^ (58 * 8) = X div 2 ^ (58 * 8) div 2 ^ n" by (simp only: div_div_pow add.commute)
    then show ?thesis by (simp add: digs_nth)
  qed
  have lo: "digs 58 9 (X div 2 ^ n) ! i
      = digs 58 9 X ! i div 2 ^ n OR (s64 (digs 58 9 X ! (i + 1) * 2 ^ (58 - n)) AND 0x3ffffffffffffff)" if "i < 8"
  proof -
    define u y where "u = X div 2 ^ (58 * i)" and "y = digs 58 9 X ! (i + 1)"
    have "digs 58 9 X ! i = u mod 2 ^ 58" using that by (simp add: digs_nth u_def)
    moreover have "y mod 2 ^ 58 = u div 2 ^ 58 mod 2 ^ 58"
      using that unfolding y_def u_def div_div_pow by (subst digs_nth) (auto simp: algebra_simps)
    moreover have "digs 58 9 (X div 2 ^ n) ! i = u div 2 ^ n mod 2 ^ 58"
      using that unfolding u_def div_div_pow by (subst digs_nth) (auto simp: div_div_pow add.commute)
    moreover have "s64 (y * 2 ^ (58 - n)) AND 0x3ffffffffffffff = (y * 2 ^ (58 - n)) mod 2 ^ 58"
      using s64_and_mask [of 58 "y * 2 ^ (58 - n)"] by simp
    ultimately show ?thesis using shift_digit [of y u n, OF _ assms] by (simp only: y_def)
  qed
  show "sp_521_rshift_9 (digs 58 9 X) n ! i = digs 58 9 (X div 2 ^ n) ! i"
    using i lo hi rshift_9_nth(1) [of i "digs 58 9 X" n] rshift_9_nth(2) [of "digs 58 9 X" n] by (auto simp only: sar_def)
qed (simp add: sp_521_rshift_9_def)

text \<open>The bits of the first byte that did not fit into nine digits are put in place after the shift.\<close>

lemma hash_top:
  fixes V :: int
  shows "V mod 2 ^ 522 div 2 ^ 7 div 2 ^ 464 OR V div 2 ^ 520 * 2 ^ 49 = V div 2 ^ 471"
proof -
  have "drop_bit 464 (drop_bit 7 (take_bit 522 V)) OR push_bit 49 (drop_bit 520 V) = drop_bit 471 V"
  proof (rule bit_eqI)
    fix n :: nat
    show "bit (drop_bit 464 (drop_bit 7 (take_bit 522 V)) OR push_bit 49 (drop_bit 520 V)) n = bit (drop_bit 471 V) n"
    proof (cases "49 \<le> n")
      case True
      then obtain m where "n = 49 + m" by (rule less_eqE)
      then show ?thesis by (auto simp: bit_simps)
    next
      case False
      then show ?thesis by (simp add: bit_simps)
    qed
  qed
  then show ?thesis by (simp only: take_bit_eq_mod drop_bit_eq_div push_bit_eq_mult)
qed

lemma digs9_top: "digs 58 9 X ! 8 = X div 2 ^ 464"
  using digs_last [of 9 58 X] by simp

lemma be_num_append: "be_num (xs @ ys) = be_num xs * 2 ^ (8 * length ys) + be_num ys"
  by (simp add: be_num_def lval_append)

lemma be_num_take: "n \<le> length a \<Longrightarrow> be_num (take n a) = be_num a div 2 ^ (8 * (length a - n))"
  using be_num_append [of "take n a" "drop n a"] be_num_range [of "drop n a"] by (simp add: div_pos_pos_trivial)

lemma load_hash_digs:
  assumes "length e = 9"
  shows "load_hash e hash (length hash) = digs 58 9 (be_num hash div 2 ^ (8 * length hash - 521))"
proof (cases "length hash \<ge> 66")
  case False
  have "(2 :: int) ^ (8 * length hash) \<le> 2 ^ 522" using False by (intro power_increasing) simp_all
  then have "be_num hash mod 2 ^ 522 = be_num hash" using be_num_range [of hash] by (intro mod_pos_pos_trivial) linarith+
  then show ?thesis using False assms from_bin_digs [of e 9 hash "length hash"] by (simp add: load_hash_def Let_def)
next
  case True
  define V where "V = be_num (take 66 hash)"
  obtain x xs where x: "take 66 hash = x # xs" "length xs = 65" using True by (cases "take 66 hash") (auto dest: arg_cong [where f = length])
  have "hash ! 0 = x" using x(1) True by (metis nth_Cons_0 nth_take zero_less_numeral)
  moreover have "V div 2 ^ 520 = uint x"
    using be_num_range [of xs] x by (simp add: V_def be_num_Cons div_pos_pos_trivial)
  moreover have "s64 (uint x * 2 ^ 49) = uint x * 2 ^ 49" 
  proof -
    have "s64 (y * 2 ^ 49) = y * 2 ^ 49" if "0 \<le> y" "y < 2 ^ 8" for y
      by (rule s64_id) (use that in simp_all)
    then show ?thesis using uint_lt2p [of x] by simp
  qed
  ultimately have h: "s64 (uint (hash ! 0) * 2 ^ 49) = V div 2 ^ 520 * 2 ^ 49" by simp
  let ?e = "digs 58 9 (V mod 2 ^ 522 div 2 ^ 7)"
  have "load_hash e hash (length hash) = ?e[8 := ?e ! 8 OR V div 2 ^ 520 * 2 ^ 49]"
    using True assms from_bin_digs [of e 9 hash 66] rshift_9_digs [of 7] h by (simp add: load_hash_def Let_def V_def)
  also have "?e ! 8 OR V div 2 ^ 520 * 2 ^ 49 = V div 2 ^ 471" by (simp only: digs9_top hash_top)
  also have "?e[8 := V div 2 ^ 471] = digs 58 9 (V div 2 ^ 7)"
  proof (rule nth_equalityI)
    fix i
    assume "i < length (?e[8 := V div 2 ^ 471])"
    then consider "i < 8" | "i = 8" by (simp, linarith)
    then show "?e[8 := V div 2 ^ 471] ! i = digs 58 9 (V div 2 ^ 7) ! i"
    proof cases
      case 1
      then have "7 + 58 * i + 58 \<le> 522" by simp
      from mod_div_mod_pow [OF this, of V] have "V mod 2 ^ 522 div 2 ^ 7 div 2 ^ (58 * i) mod 2 ^ 58 = V div 2 ^ 7 div 2 ^ (58 * i) mod 2 ^ 58"
        by (simp only: div_div_pow)
      moreover have "digs 58 9 X ! i = X div 2 ^ (58 * i) mod 2 ^ 58" for X using 1 by (simp add: digs_nth)
      moreover have neq: "8 \<noteq> i" using 1 by simp
      ultimately show ?thesis by (simp only: nth_list_update_neq [OF neq])
    next
      case 2
      have "V div 2 ^ 7 div 2 ^ 464 = V div 2 ^ 471" by (simp only: div_div_pow) simp
      then show ?thesis using 2 by (simp only: digs9_top nth_list_update_eq length_digs)
    qed
  qed simp
  also have "V div 2 ^ 7 = be_num hash div 2 ^ (8 * length hash - 521)"
  proof -
    have "8 * (length hash - 66) + 7 = 8 * length hash - 521" using True by simp
    then show ?thesis using be_num_take [OF True] by (simp only: V_def div_div_pow)
  qed
  finally show ?thesis .
qed

section \<open>Round trips\<close>

lemma be_bytes_Suc: "be_bytes (Suc n) v = word_of_int (v div 2 ^ (8 * n)) # be_bytes n v"
proof -
  have "[0..<Suc n] = 0 # map Suc [0..<n]" by (simp add: upt_conv_Cons map_Suc_upt)
  then show ?thesis by (simp add: be_bytes_def del: upt_Suc)
qed

lemma length_be_bytes [simp]: "length (be_bytes n v) = n"
  by (simp add: be_bytes_def)

lemma be_num_be_bytes: "be_num (be_bytes n v) = v mod 2 ^ (8 * n)"
proof (induction n)
  case (Suc n)
  have "v mod 2 ^ (8 * n + 8) = 2 ^ (8 * n) * (v div 2 ^ (8 * n) mod 2 ^ 8) + v mod 2 ^ (8 * n)"
    by (simp add: power_add zmod_zmult2_eq)
  then show ?case
    using Suc by (simp add: be_bytes_Suc be_num_Cons uint_word_of_int add.commute)
qed (simp add: be_bytes_def be_num_def)

lemma be_bytes_mod: "be_bytes n (v mod 2 ^ (8 * n)) = be_bytes n v"
proof -
  have "(word_of_int (v mod 2 ^ (8 * n) div 2 ^ (8 * (n - 1 - k))) :: byte) = word_of_int (v div 2 ^ (8 * (n - 1 - k)))"
    if "k < n" for k
    using mod_div_mod_pow [of "8 * (n - 1 - k)" 8 "8 * n" v] that by (intro word_of_int_byte) simp
  then show ?thesis by (simp add: be_bytes_def)
qed

lemma be_bytes_be_val: "be_bytes (length b) (be_num b) = b"
proof (induction b)
  case (Cons x xs)
  have "be_num (x # xs) div 2 ^ (8 * length xs) = uint x"
    using be_num_range [of xs] by (simp add: be_num_Cons div_pos_pos_trivial)
  moreover have "be_bytes (length xs) (be_num (x # xs)) = be_bytes (length xs) (be_num (x # xs) mod 2 ^ (8 * length xs))"
    by (simp only: be_bytes_mod)
  moreover have "be_num (x # xs) mod 2 ^ (8 * length xs) = be_num xs"
    using be_num_range [of xs] by (simp add: be_num_Cons)
  ultimately show ?case using Cons by (simp add: be_bytes_Suc)
qed (simp add: be_bytes_def)

lemma to_bin_correct:
  assumes "length r = 9" "digits_in (- (2 ^ 62)) (2 ^ 62) r" "0 \<le> lval 58 r" "lval 58 r < 2 ^ 522" "length a = 66"
  shows "sp_521_to_bin_9 r a = (digs 58 9 (lval 58 r), be_bytes 66 (lval 58 r))"
proof -
  have "sp_521_norm_9 r = digs 58 9 (lval 58 r)" using assms(1,2) sp_521_norm_9_digs [of r] by (simp add: val521_def)
  then show ?thesis using to_bin_digs [OF assms(5,3,4)] by (simp add: sp_521_to_bin_9_def Let_def)
qed

section \<open>Properties\<close>

text \<open>C21: The byte encodings are exact and inverse to each other.  Writing a number below \<open>2\<^sup>5\<^sup>2\<^sup>2\<close> (with carries still to be
  propagated) gives its 66 bytes in big-endian order; reading them gives the normalised
  digits back, and writing what was read from 66 bytes gives the bytes back.  Reading any number of bytes
  of any buffer gives the digits of their value modulo \<open>2\<^sup>5\<^sup>2\<^sup>2\<close>.\<close>

theorem sp_521_bin_roundtrip:
  assumes "length r = 9" "digits_in (- (2 ^ 62)) (2 ^ 62) r" "0 \<le> lval 58 r" "lval 58 r < 2 ^ 522" "length a = 66"
    and "length r' = 9" "length b = 66" "be_num b < 2 ^ 522"
  shows "sp_521_to_bin_9 r a = (digs 58 9 (lval 58 r), be_bytes 66 (lval 58 r)) \<and>
    sp_521_from_bin r' 9 (snd (sp_521_to_bin_9 r a)) 66 = fst (sp_521_to_bin_9 r a) \<and>
    snd (sp_521_to_bin_9 (sp_521_from_bin r' 9 b 66) a) = b \<and>
    sp_521_from_bin r' 9 c n = digs 58 9 (be_num (take n c) mod 2 ^ 522)"
proof (intro conjI)
  note t = to_bin_correct [OF assms(1-5)]
  show "sp_521_to_bin_9 r a = (digs 58 9 (lval 58 r), be_bytes 66 (lval 58 r))" by (rule t)
  note f = from_bin_digs [OF assms(6), of _ _, simplified]
  have "be_num (be_bytes 66 (lval 58 r)) = lval 58 r" using assms(3,4) be_num_be_bytes [of 66 "lval 58 r"] by simp
  moreover have "length (be_bytes 66 (lval 58 r)) = 66" by (simp add: be_bytes_def)
  ultimately show "sp_521_from_bin r' 9 (snd (sp_521_to_bin_9 r a)) 66 = fst (sp_521_to_bin_9 r a)"
    using f [of "be_bytes 66 (lval 58 r)" 66] assms(3,4) by (simp add: t)
  let ?d = "digs 58 9 (be_num b)"
  have "digits_in (- (2 ^ 62)) (2 ^ 62) ?d"
    by (rule digits_in_mono [OF digs9_le [OF be_num_range(1) assms(8)]]) simp_all
  moreover have "sp_521_from_bin r' 9 b 66 = ?d"
    using f [of b 66] assms(7,8) be_num_range(1) [of b] by simp
  ultimately show "snd (sp_521_to_bin_9 (sp_521_from_bin r' 9 b 66) a) = b"
    using to_bin_correct [of ?d a] be_bytes_be_val [of b] be_num_range(1) [of b] assms(5,7,8) by simp
  show "sp_521_from_bin r' 9 c n = digs 58 9 (be_num (take n c) mod 2 ^ 522)" using f by simp
qed

theorem sp_521_bin_roundtrip_witness:
  "snd (sp_521_to_bin_9 [5, 2 ^ 58, 0, 0, 0, 0, 0, 0, 7] (replicate 66 0)) = be_bytes 66 (5 + 2 ^ 116 + 7 * 2 ^ 464) \<and>
   snd (sp_521_to_bin_9 (sp_521_from_bin (replicate 9 0) 9 (3 # replicate 65 255) 66) (replicate 66 0)) = 3 # replicate 65 255"
proof -
  let ?r = "[5, 2 ^ 58, 0, 0, 0, 0, 0, 0, 7] :: int list" and ?b = "3 # replicate 65 (255 :: byte)"
  have r: "length ?r = 9" "digits_in (- (2 ^ 62)) (2 ^ 62) ?r" "lval 58 ?r = 5 + 2 ^ 116 + 7 * 2 ^ 464" by simp_all
  have b: "be_num ?b < 2 ^ 522" using be_num_range(2) [of "replicate 65 (255 :: byte)"] by (simp add: be_num_Cons)
  show ?thesis
    using sp_521_bin_roundtrip [of ?r "replicate 66 0" "replicate 9 0" ?b "[]" 0] r b by simp
qed

text \<open>C38: The conversions between 58-bit digits and the 64-bit digits of an \<^verbatim>\<open>mp_int\<close> are exact: reading any \<^verbatim>\<open>mp_int\<close> gives the
  digits of its value modulo \<open>2\<^sup>5\<^sup>2\<^sup>2\<close>, writing normalised digits gives an \<^verbatim>\<open>mp_int\<close> of their value, and reading it back gives
  the digits.  A failure to grow the \<^verbatim>\<open>mp_int\<close> is returned.  \<^verbatim>\<open>mp_grow\<close> is assumed to make the
  room asked for when it succeeds and \<^verbatim>\<open>mp_clamp\<close> to keep the value.\<close>

theorem sp_521_mp_roundtrip:
  assumes "length a = 9" "digits_in 0 (2 ^ 58) a" "length r = 9"
    and "\<And>m k m1. mp_grow lib m k = (0, m1) \<Longrightarrow> k \<le> length (dp m1)"
    and "\<And>m. mp_val (mp_clamp lib m) = mp_val m"
  shows "(case mp_grow lib m 9 of (err, m1) \<Rightarrow>
      if err = 0 then \<exists>m2. sp_521_to_mp lib a m = (0, m2) \<and> mp_val m2 = lval 58 a \<and> sp_521_from_mp r 9 m2 = a
      else sp_521_to_mp lib a m = (err, m1)) \<and>
    sp_521_from_mp r 9 m' = digs 58 9 (mp_val m' mod 2 ^ 522)"
proof -
  obtain err m1 where g: "mp_grow lib m 9 = (err, m1)" by fastforce
  have "a \<noteq> []" "digits_in 0 (2 ^ 58) (butlast a)"
    using assms(1,2) by (auto simp: digits_in_def dest: in_set_butlastD)
  then have d: "digs 58 9 (lval 58 a) = a" using digs_lval assms(1) by fastforce
  have v: "0 \<le> lval 58 a" "lval 58 a < 2 ^ 522"
    using lval_nonneg [OF assms(2)] lval_upper [OF assms(2)] assms(1) by simp_all
  have "\<exists>m2. sp_521_to_mp lib a m = (0, m2) \<and> mp_val m2 = lval 58 a \<and> sp_521_from_mp r 9 m2 = a" if "err = 0"
  proof -
    have g0: "mp_grow lib m 9 = (0, m1)" using g that by simp
    obtain m2 where "sp_521_to_mp lib a m = (0, m2)" "mp_val m2 = lval 58 a"
      using to_mp_correct [OF assms(1,2) g0 assms(4) [OF g0] assms(5)] by blast
    then show ?thesis using from_mp_digs [OF assms(3), of m2] v d by simp
  qed
  moreover have "sp_521_to_mp lib a m = (err, m1)" if "err \<noteq> 0" using g that by (simp add: sp_521_to_mp_def)
  ultimately show ?thesis using g from_mp_digs [OF assms(3)] by simp
qed

text \<open>An \<^verbatim>\<open>mp_int\<close> library in which growing always succeeds and clamping drops the leading zeros.\<close>

definition toy_mp :: mp_lib where
  "toy_mp = \<lparr>mp_grow = (\<lambda>m k. (0, m\<lparr>dp := dp m @ replicate (k - length (dp m)) 0\<rparr>)),
     mp_clamp = (\<lambda>m. m\<lparr>used := length (rev (dropWhile ((=) 0) (rev (take (used m) (dp m)))))\<rparr>)\<rparr>"

lemma toy_mp_clamp: "mp_val (mp_clamp toy_mp m) = mp_val m"
proof -
  define ds where "ds = take (used m) (dp m)"
  define zs where "zs = takeWhile ((=) 0) (rev ds)"
  define c where "c = rev (dropWhile ((=) 0) (rev ds))"
  have "rev ds = zs @ dropWhile ((=) 0) (rev ds)" by (simp add: zs_def)
  then have ds: "ds = c @ rev zs" unfolding c_def by (metis rev_append rev_rev_ident)
  have "set zs \<subseteq> {0}" unfolding zs_def by (auto dest: set_takeWhileD)
  then have "map uint (rev zs) = replicate (length zs) 0"
    by (intro replicate_eqI) (auto simp: subset_iff)
  then have "lval 64 (map uint ds) = lval 64 (map uint c)" by (simp add: ds lval_append)
  moreover have "take (length c) (dp m) = c"
    using ds unfolding ds_def by (metis append_eq_conv_conj append_take_drop_id append.assoc)
  moreover have "length (dropWhile ((=) 0) (rev ds)) = length c" by (simp add: c_def)
  ultimately show ?thesis by (simp add: mp_val_def toy_mp_def ds_def [symmetric])
qed

theorem sp_521_mp_roundtrip_witness:
  "\<exists>m2. sp_521_to_mp toy_mp [1, 2, 3, 4, 5, 6, 7, 8, 9] \<lparr>used = 0, dp = []\<rparr> = (0, m2) \<and>
    sp_521_from_mp (replicate 9 0) 9 m2 = [1, 2, 3, 4, 5, 6, 7, 8, 9]"
proof -
  let ?a = "[1, 2, 3, 4, 5, 6, 7, 8, 9] :: int list" and ?m = "\<lparr>used = 0, dp = []\<rparr>"
  have "k \<le> length (dp m1)" if "mp_grow toy_mp m k = (0, m1)" for m k m1
    using that by (auto simp: toy_mp_def)
  moreover have "mp_grow toy_mp ?m 9 = (0, \<lparr>used = 0, dp = replicate 9 0\<rparr>)" by (simp add: toy_mp_def)
  ultimately show ?thesis
    using conjunct1 [OF sp_521_mp_roundtrip [of ?a "replicate 9 0" toy_mp ?m, OF _ _ _ _ toy_mp_clamp]] by auto
qed

text \<open>C20: Generating a random scalar returns exactly when the generator fails or gives an acceptable block, and
  then at the first such block: a failure is passed on; otherwise the scalar is the number of
  the block (its lowest 521 bits) plus one, which is in the range from 1 to the order minus 1.  Every scalar of the range is the result for
  exactly one such number.  When every block is rejected, the function does not return.\<close>

theorem sp_521_ecc_gen_k_9_live:
  assumes "length k = 9" "\<forall>r. length (fst (snd (gen r))) = 66"
  shows "(\<forall>n. (\<forall>m<n. rejected (gen (rng_after gen m rng))) \<and> \<not> rejected (gen (rng_after gen n rng)) \<longrightarrow>
      (case gen (rng_after gen n rng) of (err, buf, rng') \<Rightarrow>
         \<exists>k'. sp_521_ecc_gen_k_9 gen k rng = Some (err, k', rng') \<and>
           (err = 0 \<longrightarrow> length k' = 9 \<and> digits_in 0 (2 ^ 58) k' \<and> lval 58 k' = block_val buf + 1 \<and>
             1 \<le> lval 58 k' \<and> lval 58 k' < lval 58 p521_order))) \<and>
    ((\<forall>m. rejected (gen (rng_after gen m rng))) \<longleftrightarrow> sp_521_ecc_gen_k_9 gen k rng = None)"
proof (intro conjI allI impI)
  fix n
  assume r: "(\<forall>m<n. rejected (gen (rng_after gen m rng))) \<and> \<not> rejected (gen (rng_after gen n rng))"
  obtain err buf rng' where g: "gen (rng_after gen n rng) = (err, buf, rng')" by (metis prod_cases3)
  obtain k' where k: "sp_521_ecc_gen_k_9 gen k rng = Some (err, k', rng')"
      "err = 0 \<longrightarrow> k' = digs 58 9 (block_val buf + 1) \<and> block_val buf < N521 - 1"
    using gen_k_stops [OF assms, of n rng] r g by auto
  have "0 \<le> block_val buf" "N521 < 2 ^ 522" by (simp_all add: block_val_def N521_numeral)
  then have "err = 0 \<longrightarrow> length k' = 9 \<and> digits_in 0 (2 ^ 58) k' \<and> lval 58 k' = block_val buf + 1 \<and>
      1 \<le> lval 58 k' \<and> lval 58 k' < lval 58 p521_order"
    using k(2) digs9_le [of "block_val buf + 1"] p521_order_digs(3) by auto
  then show "case gen (rng_after gen n rng) of (err, buf, rng') \<Rightarrow>
      \<exists>k'. sp_521_ecc_gen_k_9 gen k rng = Some (err, k', rng') \<and>
        (err = 0 \<longrightarrow> length k' = 9 \<and> digits_in 0 (2 ^ 58) k' \<and> lval 58 k' = block_val buf + 1 \<and>
          1 \<le> lval 58 k' \<and> lval 58 k' < lval 58 p521_order)"
    using g k(1) by auto
next
  show "(\<forall>m. rejected (gen (rng_after gen m rng))) \<longleftrightarrow> sp_521_ecc_gen_k_9 gen k rng = None"
  proof
    assume "\<forall>m. rejected (gen (rng_after gen m rng))"
    then show "sp_521_ecc_gen_k_9 gen k rng = None"
      using gen_k_not_rejected [OF _ assms(2,1)] by (cases "sp_521_ecc_gen_k_9 gen k rng") blast+
  next
    assume none: "sp_521_ecc_gen_k_9 gen k rng = None"
    show "\<forall>m. rejected (gen (rng_after gen m rng))"
    proof (rule ccontr)
      assume "\<not> (\<forall>m. rejected (gen (rng_after gen m rng)))"
      then have "\<exists>n. \<not> rejected (gen (rng_after gen n rng)) \<and> (\<forall>m<n. rejected (gen (rng_after gen m rng)))"
        using exists_least_iff [of "\<lambda>n. \<not> rejected (gen (rng_after gen n rng))"] by blast
      then obtain n where "\<not> rejected (gen (rng_after gen n rng))" "\<forall>m<n. rejected (gen (rng_after gen m rng))" by blast
      then show False using gen_k_stops [OF assms, of n rng] none by simp
    qed
  qed
qed

text \<open>A generator whose first block is too large and whose second block is the number 4.\<close>

theorem sp_521_ecc_gen_k_9_live_witness:
  "\<exists>k. sp_521_ecc_gen_k_9 (\<lambda>i :: nat. (0, if i = 0 then replicate 66 255 else replicate 65 0 @ [4], Suc i)) (replicate 9 0) 0 = Some (0, k, 2) \<and>
     lval 58 k = 5"
proof -
  let ?g = "\<lambda>i :: nat. (0 :: int, if i = 0 then replicate 66 255 else replicate 65 (0 :: byte) @ [4], Suc i)"
  have a: "rng_after ?g m 0 = m" for m by (induction m) (simp_all add: rng_after_def)
  have "block_val (replicate 66 255) = 2 ^ 521 - 1" "block_val (replicate 65 0 @ [4]) = 4" by code_simp+
  then have "rejected (?g 0)" "\<not> rejected (?g 1)" "block_val (fst (snd (?g 1))) = 4"
    by (simp_all add: rejected_def N521_numeral)
  moreover have "\<forall>m<1. rejected (?g m)" using \<open>rejected (?g 0)\<close> by auto
  moreover have "\<forall>r. length (fst (snd (?g r))) = 66" by simp
  ultimately show ?thesis
    using conjunct1 [OF sp_521_ecc_gen_k_9_live [of "replicate 9 0" ?g 0], THEN spec, of 1] by (auto simp: a numeral_2_eq_2)
qed

end
