(* ===== verification/Sp521Inv.thy ===== *)
theory Sp521Inv
  imports Sp521Field
begin

text \<open>
  The non-constant-time modular inversion of the default build, used by signature verification
  (\<^verbatim>\<open>sp_521_num_bits_58_9\<close>, \<^verbatim>\<open>sp_521_num_bits_9\<close>, \<^verbatim>\<open>sp_521_mod_inv_9\<close> of \<^verbatim>\<open>sp_c64.c\<close>).

  The binary extended Euclidean algorithm keeps \<open>u\<close>, \<open>v\<close> with their bit lengths and \<open>b\<close>, \<open>d\<close> with
  \<open>b * a = u\<close> and \<open>d * a = v\<close> modulo \<open>m\<close>.  The loop that strips the factors of two of \<open>v\<close> and the main loop are partial
  functions of the option monad, in which a loop that does not end is \<open>None\<close>; the inner \<open>do-while\<close> loop
  is bounded by its counter.  Note that \<open>b\<close> and \<open>d\<close> are not normalised between an addition of \<open>m\<close> and
  the halving: their digits grow beyond 58 bits, but stay below \<open>2\<^sup>5\<^sup>9\<close>.

  The product in \<open>sp_521_num_bits_58_9\<close> is a product of signed 64-bit numbers that overflows for most
  arguments; it is modelled with the wrap-around that the table was computed for.
\<close>

section \<open>The functions of the source\<close>

definition sp_521_tab64_9 :: "int list" where
  "sp_521_tab64_9 = [
    64,  1, 59,  2, 60, 48, 54,  3,
    61, 40, 49, 28, 55, 34, 43,  4,
    62, 52, 38, 41, 50, 19, 29, 21,
    56, 31, 35, 12, 44, 15, 23,  5,
    63, 58, 47, 53, 39, 27, 33, 42,
    51, 37, 18, 20, 30, 11, 14, 22,
    57, 46, 26, 32, 36, 17, 10, 13,
    45, 25, 16,  9, 24,  8,  7,  6]"

definition sp_521_num_bits_58_9 :: "int \<Rightarrow> int" where
  "sp_521_num_bits_58_9 v =
    (let v = v OR sar v 1;
         v = v OR sar v 2;
         v = v OR sar v 4;
         v = v OR sar v 8;
         v = v OR sar v 16;
         v = v OR sar v 32
     in sp_521_tab64_9 ! nat (u64 (s64 ((v - sar v 1) * 0x07EDD5E59A4E28C2)) div 2 ^ 58))"

fun num_bits_from :: "int list \<Rightarrow> nat \<Rightarrow> int" where
  "num_bits_from a 0 = 0"
| "num_bits_from a (Suc i) =
    (if a ! i \<noteq> 0 then sp_521_num_bits_58_9 (a ! i) + int i * 58 else num_bits_from a i)"

definition sp_521_num_bits_9 :: "int list \<Rightarrow> int" where
  "sp_521_num_bits_9 a = num_bits_from a 9"

text \<open>\<^verbatim>\<open>if (d[0] & 1) sp_521_add_9(d, d, m); sp_521_rshift1_9(d, d);\<close>\<close>

definition inv_halve :: "int list \<Rightarrow> int list \<Rightarrow> int list" where
  "inv_halve m d = sp_521_rshift1_9 (if d ! 0 AND 1 \<noteq> 0 then sp_521_add_9 d m else d)"

partial_function (option) inv_strip ::
    "int list \<Rightarrow> int list \<Rightarrow> int list \<Rightarrow> int \<Rightarrow> (int list \<times> int list \<times> int) option" where
  "inv_strip m v d vt =
    (if v ! 0 AND 1 = 0 then inv_strip m (sp_521_rshift1_9 v) (inv_halve m d) (vt - 1) else Some (v, d, vt))"

function inv_shift :: "int list \<Rightarrow> int list \<Rightarrow> int list \<Rightarrow> int \<Rightarrow> int list \<times> int list \<times> int" where
  "inv_shift m u b ut =
    (let u = sp_521_rshift1_9 u; b = inv_halve m b; ut = ut - 1
     in if ut > 0 \<and> u ! 0 AND 1 = 0 then inv_shift m u b ut else (u, b, ut))"
  by pat_completeness auto

termination
  by (relation "measure (\<lambda>(m, u, b, ut). nat ut)") auto

text \<open>One branch of the main loop: the smaller number is subtracted from the larger one.\<close>

definition inv_sub :: "int list \<Rightarrow> int list \<Rightarrow> int list \<Rightarrow> int list \<Rightarrow> int list \<Rightarrow> int list \<times> int list \<times> int" where
  "inv_sub m u v b d =
    (let u = sp_521_norm_9 (sp_521_sub_9 u v);
         b = sp_521_norm_9 (sp_521_sub_9 b d);
         b = sp_521_norm_9 (if b ! 8 < 0 then sp_521_add_9 b m else b);
         ut = sp_521_num_bits_9 u
     in inv_shift m u b ut)"

partial_function (option) inv_loop ::
    "int list \<Rightarrow> int list \<Rightarrow> int list \<Rightarrow> int list \<Rightarrow> int list \<Rightarrow> int \<Rightarrow> int \<Rightarrow> int list option" where
  "inv_loop m u v b d ut vt =
    (if ut > 1 \<and> vt > 1 then
       (if ut > vt \<or> ut = vt \<and> sp_521_cmp_9 u v \<ge> 0
        then (case inv_sub m u v b d of (u, b, ut) \<Rightarrow> inv_loop m u v b d ut vt)
        else (case inv_sub m v u d b of (v, d, vt) \<Rightarrow> inv_loop m u v b d ut vt))
     else Some (if ut = 1 then b else d))"

definition sp_521_mod_inv_9 :: "int list \<Rightarrow> int list \<Rightarrow> int list option" where
  "sp_521_mod_inv_9 a m =
    (let u = take 9 m; v = take 9 a;
         ut = sp_521_num_bits_9 u; vt = sp_521_num_bits_9 v;
         b = replicate 9 0
     in do {
       (v, d, vt) \<leftarrow>
         (if v ! 0 AND 1 = 0
          then (let d = take 9 m; d = sp_521_rshift1_9 (d[0 := s64 (d ! 0 + 1)])
                in inv_strip m (sp_521_rshift1_9 v) d (vt - 1))
          else Some (v, 1 # replicate 8 0, vt));
       inv_loop m u v b d ut vt })"

section \<open>Bit lengths\<close>

definition nbits :: "int \<Rightarrow> nat \<Rightarrow> bool" where
  "nbits x n \<longleftrightarrow> 0 < n \<and> 2 ^ (n - 1) \<le> x \<and> x < 2 ^ n"

lemma nbits_pos: "nbits x n \<Longrightarrow> 0 < x"
  using zero_less_power [of "2 :: int" "n - 1"] unfolding nbits_def by linarith

lemma nbits_double:
  assumes "nbits (x div 2) n"
  shows "nbits x (Suc n)"
proof -
  obtain k where k: "n = Suc k" using assms by (cases n) (auto simp: nbits_def)
  then show ?thesis using assms unfolding nbits_def by auto
qed

lemma nbits_ex: "0 < x \<Longrightarrow> \<exists>n. nbits x n"
proof (induction "nat x" arbitrary: x rule: less_induct)
  case less
  show ?case
  proof (cases "x = 1")
    case False
    with less.prems have "nat (x div 2) < nat x" "0 < x div 2" by (auto simp: nat_less_eq_zless)
    then obtain n where "nbits (x div 2) n" using less.hyps by blast
    then show ?thesis using nbits_double by blast
  qed (auto simp: nbits_def intro!: exI [of _ 1])
qed

lemma nbits_le:
  assumes "nbits x i" "nbits y j" "x \<le> y"
  shows "i \<le> j"
proof (rule ccontr)
  assume "\<not> i \<le> j"
  then have "(2 :: int) ^ j \<le> 2 ^ (i - 1)" by (intro power_increasing) auto
  then show False using assms unfolding nbits_def by linarith
qed

lemma nbits_unique: "nbits x n \<Longrightarrow> nbits x k \<Longrightarrow> n = k"
  by (meson nbits_le order_antisym order_refl)

lemma nbits_bit:
  assumes "nbits v n"
  shows "bit v (n - 1)" and "bit v i \<Longrightarrow> i < n"
proof -
  have v: "0 \<le> v" "take_bit n v = v"
    using assms nbits_pos [OF assms] by (simp_all add: nbits_def take_bit_eq_mod)
  show "bit v (n - 1)"
  proof -
    obtain k where k: "n = Suc k" using assms by (cases n) (auto simp: nbits_def)
    have "v div 2 ^ k = 1"
    proof (rule int_div_pos_eq [where r = "v - 2 ^ k"])
      show "v = 2 ^ k * 1 + (v - 2 ^ k)" "0 \<le> v - 2 ^ k" "v - 2 ^ k < 2 ^ k"
        using assms by (simp_all add: nbits_def k)
    qed
    then show ?thesis by (simp add: bit_iff_odd k)
  qed
  show "i < n" if "bit v i" using that v(2) by (metis bit_take_bit_iff)
qed

text \<open>A word whose bit \<open>i\<close> says that some bit of the window \<open>[i, i + k)\<close> is set; one step doubles the window.\<close>

definition smeared :: "int \<Rightarrow> nat \<Rightarrow> int \<Rightarrow> bool" where
  "smeared v k w \<longleftrightarrow> (\<forall>i. bit w i \<longleftrightarrow> (\<exists>j<k. bit v (i + j)))"

lemma smeared_step:
  assumes "smeared v k w"
  shows "smeared v (2 * k) (w OR sar w k)"
  unfolding smeared_def
proof
  fix i
  have "bit (w OR sar w k) i \<longleftrightarrow> (\<exists>j<k. bit v (i + j)) \<or> (\<exists>j<k. bit v (k + i + j))"
    using assms by (simp add: smeared_def bit_or_iff sar_def bit_drop_bit_eq flip: drop_bit_eq_div)
  also have "\<dots> \<longleftrightarrow> (\<exists>j<2 * k. bit v (i + j))"
  proof
    assume "\<exists>j<2 * k. bit v (i + j)"
    then obtain j where j: "j < 2 * k" "bit v (i + j)" by blast
    show "(\<exists>j<k. bit v (i + j)) \<or> (\<exists>j<k. bit v (k + i + j))"
    proof (cases "j < k")
      case False
      with j have "j - k < k" "bit v (k + i + (j - k))" by (simp_all add: add.commute)
      then show ?thesis by blast
    qed (use j in blast)
  next
    assume "(\<exists>j<k. bit v (i + j)) \<or> (\<exists>j<k. bit v (k + i + j))"
    then show "\<exists>j<2 * k. bit v (i + j)"
    proof
      assume "\<exists>j<k. bit v (k + i + j)"
      then obtain j where "j < k" "bit v (i + (k + j))" by (auto simp: ac_simps)
      then show ?thesis by (intro exI [of _ "k + j"]) simp
    next
      assume "\<exists>j<k. bit v (i + j)"
      then obtain j where "j < k" "bit v (i + j)" by blast
      then show ?thesis by (intro exI [of _ j]) simp
    qed
  qed
  finally show "bit (w OR sar w k) i \<longleftrightarrow> (\<exists>j<2 * k. bit v (i + j))" .
qed

lemma tab64_bits: "list_all (\<lambda>n. sp_521_tab64_9 ! nat (u64 (s64 (2 ^ (n - 1) * 0x07EDD5E59A4E28C2)) div 2 ^ 58) = int n) [1..<59]"
  by code_simp

lemma num_bits_58:
  assumes "nbits v n" "n \<le> 58"
  shows "sp_521_num_bits_58_9 v = int n"
proof -
  define w where "w = (let v = v OR sar v 1; v = v OR sar v 2; v = v OR sar v 4; v = v OR sar v 8; v = v OR sar v 16 in v OR sar v 32)"
  have "smeared v 1 v" by (simp add: smeared_def)
  from smeared_step [OF this] have "smeared v 2 (v OR sar v 1)" by simp
  from smeared_step [OF smeared_step [OF smeared_step [OF smeared_step [OF smeared_step [OF this]]]]]
  have "smeared v 64 w" by (simp add: w_def Let_def)
  then have w: "bit w i \<longleftrightarrow> (\<exists>j<64. bit v (i + j))" for i by (simp add: smeared_def)
  have "bit w i \<longleftrightarrow> i < n" for i
  proof
    assume "bit w i"
    then obtain j where "bit v (i + j)" using w by blast
    then show "i < n" using nbits_bit(2) [OF assms(1)] by fastforce
  next
    assume "i < n"
    then have "bit v (i + (n - 1 - i))" "n - 1 - i < 64" using nbits_bit(1) [OF assms(1)] assms(2) by simp_all
    then show "bit w i" using w by blast
  qed
  then have "w = mask n" by (intro bit_eqI) (simp add: bit_mask_iff)
  then have m: "w = 2 ^ n - 1" by (simp add: mask_eq_exp_minus_1)
  obtain k where k: "n = Suc k" using assms(1) by (cases n) (auto simp: nbits_def)
  have "w - sar w 1 = 2 ^ (n - 1)" unfolding m k sar_def by simp
  moreover have "sp_521_tab64_9 ! nat (u64 (s64 (2 ^ (n - 1) * 0x07EDD5E59A4E28C2)) div 2 ^ 58) = int n"
    using tab64_bits [unfolded list_all_iff, THEN bspec, of n] assms(2) k by simp
  ultimately show ?thesis unfolding sp_521_num_bits_58_9_def w_def Let_def by simp
qed

text \<open>The bit length of a normalised number.\<close>

lemma div_bracket:
  fixes e x :: int
  assumes "0 < e"
  shows "e * (x div e) \<le> x" "x < e * (x div e + 1)"
  using pos_mod_sign [OF assms, of x] pos_mod_bound [OF assms, of x] minus_mod_eq_mult_div [of x e]
  unfolding distrib_left mult_1_right by linarith+

lemma num_bits_from_digs:
  assumes "nbits x n" "x < 2 ^ (58 * i)" "0 < i" "\<And>j. j < i \<Longrightarrow> a ! j = x div 2 ^ (58 * j) mod 2 ^ 58"
  shows "num_bits_from a i = int n"
  using assms(2-4)
proof (induction i)
  case (Suc i)
  have x: "0 < x" by (rule nbits_pos [OF assms(1)])
  have q: "x div 2 ^ (58 * i) < 2 ^ 58"
    using Suc.prems(1) by (intro div_less_of_less_mult) (simp_all add: power_add)
  then have ai: "a ! i = x div 2 ^ (58 * i)" using Suc.prems(3) [of i] x by (simp add: mod_pos_pos_trivial pos_imp_zdiv_nonneg_iff)
  show ?case
  proof (cases "x < 2 ^ (58 * i)")
    case True
    then have "0 < i" using x by (cases i) auto
    moreover have "a ! i = 0" using ai True x by simp
    ultimately show ?thesis using Suc True by simp
  next
    case False
    define y where "y = x div 2 ^ (58 * i)"
    have y: "2 ^ (58 * i) * y \<le> x" "x < 2 ^ (58 * i) * (y + 1)"
      unfolding y_def by (rule div_bracket; simp)+
    have "y \<noteq> 0" using False x by (simp add: y_def zdiv_eq_0_iff not_less)
    moreover have "0 \<le> y" using x by (simp add: y_def pos_imp_zdiv_nonneg_iff)
    ultimately have "0 < y" by linarith
    then obtain l where l: "nbits y l" using nbits_ex by blast
    have "(2 :: int) ^ (l - 1) < 2 ^ 58" using l q by (simp add: nbits_def y_def)
    from power_less_imp_less_exp [OF _ this] have l58: "l \<le> 58" by simp
    have "nbits x (l + 58 * i)"
    proof -
      have "(2 :: int) ^ (58 * i) * 2 ^ (l - 1) \<le> 2 ^ (58 * i) * y" using l by (simp add: nbits_def)
      moreover have "(2 :: int) ^ (58 * i) * (y + 1) \<le> 2 ^ (58 * i) * 2 ^ l" using l by (simp add: nbits_def)
      ultimately show ?thesis using y l unfolding nbits_def by (auto simp: power_add [symmetric] add.commute)
    qed
    then have "n = l + 58 * i" using nbits_unique assms(1) by blast
    then show ?thesis using \<open>y \<noteq> 0\<close> ai num_bits_58 [OF l l58] by (simp add: y_def)
  qed
qed simp

lemma num_bits_9_digs:
  assumes "nbits x n" "x < 2 ^ 522"
  shows "sp_521_num_bits_9 (digs 58 9 x) = int n"
proof -
  have "digs 58 9 x ! j = x div 2 ^ (58 * j) mod 2 ^ 58" if "j < 9" for j
  proof (cases "j = 8")
    case True
    have "x div 2 ^ (58 * 8) < 2 ^ 58"
      by (rule div_less_of_less_mult) (use assms(2) in \<open>simp_all flip: power_add\<close>)
    then show ?thesis using nbits_pos [OF assms(1)] unfolding True by (simp add: digs_nth pos_imp_zdiv_nonneg_iff)
  qed (use that in \<open>simp add: digs_nth\<close>)
  then show ?thesis unfolding sp_521_num_bits_9_def
    by (intro num_bits_from_digs [OF assms(1)]) (use assms(2) in simp_all)
qed

section \<open>Halving\<close>

text \<open>The shift of digits that need not be normalised.\<close>

fun halves :: "int list \<Rightarrow> int list" where
  "halves [] = []"
| "halves [x] = [x div 2]"
| "halves (x # y # xs) = (x div 2 + 2 ^ 57 * (y mod 2)) # halves (y # xs)"

lemma lval_mod_2: "lval 58 (y # xs) mod 2 = y mod 2"
  by (simp add: mod_add_right_eq [symmetric])

lemma lval_halves: "xs \<noteq> [] \<Longrightarrow> lval 58 (halves xs) = lval 58 xs div 2"
proof (induction xs rule: halves.induct)
  case (3 x y xs)
  define L where "L = lval 58 (y # xs)"
  have "L mod 2 = y mod 2" unfolding L_def by (rule lval_mod_2)
  then have "2 ^ 58 * (L div 2) = 2 ^ 57 * (L - y mod 2)" using minus_mod_eq_mult_div [of L 2] by simp
  moreover have "lval 58 (halves (x # y # xs)) = x div 2 + 2 ^ 57 * (y mod 2) + 2 ^ 58 * (L div 2)"
    using 3 by (simp add: L_def)
  moreover have "lval 58 (x # y # xs) div 2 = x div 2 + 2 ^ 57 * L"
    using div_mult_self2 [of 2 x "2 ^ 57 * L"] by (simp add: L_def)
  ultimately show ?case by (simp add: algebra_simps)
qed simp_all

lemma rshift1_9_halves:
  assumes "length a = 9" "digits_in 0 (2 ^ 60) a"
  shows "sp_521_rshift1_9 a = halves a"
proof -
  have d: "s64 (sar x 1 + (s64 (y * 2 ^ 57) AND 0x3ffffffffffffff)) = x div 2 + 2 ^ 57 * (y mod 2)"
    if "0 \<le> x" "x < 2 ^ 60" for x y
  proof -
    have "y * 2 ^ 57 mod 2 ^ (57 + 1) = 2 ^ 57 * (y mod 2)"
      by (simp only: power_add power_one_right mult.commute [of y] mult_mod_right)
    then have "s64 (y * 2 ^ 57) AND (2 ^ 58 - 1) = 2 ^ 57 * (y mod 2)" using s64_and_mask [of 58 "y * 2 ^ 57"] by simp
    moreover have "0 \<le> y mod 2" "y mod 2 \<le> 1" by (simp_all add: int_one_le_iff_zero_less)
    ultimately show ?thesis using that by (simp add: sar_def s64_id)
  qed
  have a: "a = [a ! 0, a ! 1, a ! 2, a ! 3, a ! 4, a ! 5, a ! 6, a ! 7, a ! 8]" by (rule list9 [OF assms(1)])
  have b: "0 \<le> a ! i" "a ! i < 2 ^ 60" if "i < 9" for i using digits_in_nth [OF assms(2), of i] assms(1) that by auto
  have "sp_521_rshift1_9 a = map (\<lambda>i. a ! i div 2 + 2 ^ 57 * (a ! (i + 1) mod 2)) [0..<8] @ [a ! 8 div 2]"
    unfolding sp_521_rshift1_9_def by (intro arg_cong2 [of _ _ _ _ "(@)"] map_cong refl d) (use b in \<open>simp_all add: sar_def\<close>)
  also have "\<dots> = halves [a ! 0, a ! 1, a ! 2, a ! 3, a ! 4, a ! 5, a ! 6, a ! 7, a ! 8]"
    by (simp add: upt_rec numeral_eq_Suc)
  finally show ?thesis by (simp only: a [symmetric])
qed

lemma digits_in_halves: "digits_in 0 (2 ^ 59 + 2 ^ 58) xs \<Longrightarrow> digits_in 0 (2 ^ 59) (halves xs)"
proof (induction xs rule: halves.induct)
  case (3 x y xs)
  have "0 \<le> y mod 2" "y mod 2 \<le> 1" by (simp_all add: int_one_le_iff_zero_less)
  moreover have "0 \<le> x" "x < 2 * (2 ^ 58 + 2 ^ 57)" using 3(2) by simp_all
  then have "0 \<le> x div 2" "x div 2 < 2 ^ 58 + 2 ^ 57" using div_less_of_less_mult [of 2 x] by simp_all
  ultimately show ?case using 3 by simp
qed (simp_all add: div_less_of_less_mult)

lemma length_halves [simp]: "length (halves xs) = length xs"
  by (induction xs rule: halves.induct) simp_all

text \<open>Coefficients: nine digits below \<open>2\<^sup>5\<^sup>9\<close>.\<close>

definition loose :: "int list \<Rightarrow> int \<Rightarrow> bool" where
  "loose x v \<longleftrightarrow> length x = 9 \<and> digits_in 0 (2 ^ 59) x \<and> lval 58 x = v"

definition modulus :: "int list \<Rightarrow> int \<Rightarrow> bool" where
  "modulus m v \<longleftrightarrow> length m = 9 \<and> digits_in 0 (2 ^ 58) m \<and> lval 58 m = v \<and> odd v \<and> 1 < v"

lemma modulus_digs: "modulus m v \<Longrightarrow> m = digs 58 9 v"
proof -
  assume m: "modulus m v"
  then have "m \<noteq> []" "digits_in 0 (2 ^ 58) (butlast m)"
    by (auto simp: modulus_def digits_in_def dest: in_set_butlastD)
  from digs_lval [OF this] m show ?thesis by (simp add: modulus_def)
qed

lemma modulus_less: "modulus m v \<Longrightarrow> v < 2 ^ 522"
  using lval_upper [of 58 m] by (simp add: modulus_def)

lemma loose_odd:
  assumes "length x = 9"
  shows "x ! 0 AND 1 = lval 58 x mod 2"
proof -
  have "lval 58 x mod 2 = x ! 0 mod 2" using assms lval_mod_2 by (cases x) auto
  then show ?thesis using and_mask_mod [of "x ! 0" 1] by simp
qed

lemma rshift1_9_loose: "loose b B \<Longrightarrow> sp_521_rshift1_9 b = halves b"
  by (rule rshift1_9_halves) (auto simp: loose_def intro: digits_in_mono)

lemma loose_digs: "0 \<le> v \<Longrightarrow> v < 2 ^ 522 \<Longrightarrow> loose (digs 58 9 v) v"
  using digs_digits_in [of v 58 9] by (auto simp: loose_def intro: digits_in_mono)

lemma add_9_loose:
  assumes "loose b B" "modulus m M"
  shows "sp_521_add_9 b m = map2 (+) b m" "digits_in 0 (2 ^ 59 + 2 ^ 58) (map2 (+) b m)" "lval 58 (map2 (+) b m) = B + M"
proof -
  have b: "length b = 9" "digits_in 0 (2 ^ 59) b" and m: "length m = 9" "digits_in 0 (2 ^ 58) m"
    using assms by (simp_all add: loose_def modulus_def)
  show "sp_521_add_9 b m = map2 (+) b m"
    unfolding sp_521_add_9_def using b m by (subst map2_s64_add) (auto intro: digits_in_mono)
  show "digits_in 0 (2 ^ 59 + 2 ^ 58) (map2 (+) b m)" using digits_in_map2_add [OF b(2) m(2)] by simp
  show "lval 58 (map2 (+) b m) = B + M" using assms lval_map2_add [of b m] by (simp add: loose_def modulus_def)
qed

lemma inv_halve_loose:
  assumes "loose b B" "0 \<le> B" "B < M" "modulus m M"
  shows "\<exists>B'. loose (inv_halve m b) B' \<and> 0 \<le> B' \<and> B' < M \<and> M dvd 2 * B' - B"
proof (cases "even B")
  case True
  have "inv_halve m b = halves b"
    using assms(1) True loose_odd [of b] rshift1_9_loose [OF assms(1)]
    by (simp add: inv_halve_def loose_def even_iff_mod_2_eq_zero)
  then have "loose (inv_halve m b) (B div 2)"
    using assms(1) lval_halves [of b] digits_in_halves [OF digits_in_mono, of 0 "2 ^ 59" b]
    by (cases b) (simp_all add: loose_def)
  then show ?thesis using assms(2,3) True by (intro exI [of _ "B div 2"]) auto
next
  case False
  note s = add_9_loose [OF assms(1,4)]
  have l: "length (map2 (+) b m) = 9" using assms(1,4) by (simp add: loose_def modulus_def)
  have "inv_halve m b = halves (map2 (+) b m)"
    using assms(1) False loose_odd [of b] s(1) rshift1_9_halves [OF l digits_in_mono [OF s(2)]]
    by (simp add: inv_halve_def loose_def odd_iff_mod_2_eq_one)
  then have "loose (inv_halve m b) ((B + M) div 2)"
    using s(3) l lval_halves [of "map2 (+) b m"] digits_in_halves [OF s(2)] unfolding loose_def by fastforce
  moreover have "even (B + M)" using False assms(4) by (simp add: modulus_def)
  then have "2 * ((B + M) div 2) - B = M" by simp
  ultimately show ?thesis using assms(2,3) by (intro exI [of _ "(B + M) div 2"]) auto
qed

section \<open>The loops\<close>

text \<open>One of the two pairs of the algorithm: a positive number with its bit length, and a coefficient below the
  modulus that represents it as a multiple of \<open>A\<close>.\<close>

definition tracked :: "int \<Rightarrow> int \<Rightarrow> int list \<Rightarrow> int \<Rightarrow> int list \<Rightarrow> int \<Rightarrow> bool" where
  "tracked M A u U b ut \<longleftrightarrow> u = digs 58 9 U \<and> 0 < U \<and> U < 2 ^ 522 \<and> (\<exists>n. nbits U n \<and> ut = int n) \<and>
    (\<exists>B. loose b B \<and> 0 \<le> B \<and> B < M \<and> M dvd B * A - U)"

lemma tracked_halve:
  assumes "tracked M A u U b ut" "even U" "modulus m M"
  shows "tracked M A (sp_521_rshift1_9 u) (U div 2) (inv_halve m b) (ut - 1)"
proof -
  obtain n B where n: "nbits U n" "ut = int n" and B: "loose b B" "0 \<le> B" "B < M" "M dvd B * A - U"
    and U: "u = digs 58 9 U" "0 < U" "U < 2 ^ 522"
    using assms(1) by (auto simp: tracked_def)
  obtain W where W: "U = 2 * W" using assms(2) by blast
  have "0 < W" "W < 2 ^ 522" using U W by simp_all
  then obtain k where k: "nbits W k" using nbits_ex by blast
  then have "nbits U (Suc k)" using nbits_double [of U k] W by simp
  then have "n = Suc k" using n(1) nbits_unique by blast
  obtain B' where B': "loose (inv_halve m b) B'" "0 \<le> B'" "B' < M" "M dvd 2 * B' - B"
    using inv_halve_loose [OF B(1-3) assms(3)] by blast
  have "M dvd (2 * B' - B) * A + (B * A - U)" using B(4) B'(4) by simp
  moreover have "(2 * B' - B) * A + (B * A - U) = 2 * (B' * A - W)" by (simp add: W algebra_simps)
  ultimately have "M dvd 2 * (B' * A - W)" by metis
  moreover have "coprime M 2" using assms(3) by (simp add: modulus_def coprime_commute)
  ultimately have "M dvd B' * A - W" using coprime_dvd_mult_right_iff by blast
  then show ?thesis
    unfolding tracked_def using B' k n(2) \<open>n = Suc k\<close> \<open>0 < W\<close> \<open>W < 2 ^ 522\<close> rshift1_9_digs [of U] U
    by (auto simp: W)
qed

lemma tracked_even: "tracked M A u U b ut \<Longrightarrow> u ! 0 AND 1 = U mod 2"
  using loose_odd [of u] by (simp add: tracked_def)

lemma tracked_ut: "tracked M A u U b ut \<Longrightarrow> 0 < ut"
  by (auto simp: tracked_def nbits_def)

text \<open>The bounded loop divides by all factors of two.\<close>

lemma inv_shift_tracked:
  assumes "tracked M A u U b ut" "even U" "modulus m M" "inv_shift m u b ut = (u', b', ut')"
  shows "\<exists>U'. tracked M A u' U' b' ut' \<and> odd U' \<and> U' < U \<and> U' dvd U"
  using assms
proof (induction "nat U" arbitrary: U u b ut rule: less_induct)
  case less
  note h = tracked_halve [OF less.prems(1-3)]
  have U: "0 < U" using less.prems(1) by (simp add: tracked_def)
  then have lt: "U div 2 < U" "U div 2 dvd U" using less.prems(2) by (auto simp: dvd_def)
  show ?case
  proof (cases "even (U div 2)")
    case True
    then have "inv_shift m u b ut = inv_shift m (sp_521_rshift1_9 u) (inv_halve m b) (ut - 1)"
      using tracked_even [OF h] tracked_ut [OF h] by (subst inv_shift.simps) (simp add: Let_def even_iff_mod_2_eq_zero)
    then have "inv_shift m (sp_521_rshift1_9 u) (inv_halve m b) (ut - 1) = (u', b', ut')" using less.prems(4) by simp
    from less.hyps [OF _ h True less.prems(3) this] lt U obtain U'
      where "tracked M A u' U' b' ut'" "odd U'" "U' < U div 2" "U' dvd U div 2" by auto
    then show ?thesis using lt by (meson dvd_trans less_trans)
  next
    case False
    then have "inv_shift m u b ut = (sp_521_rshift1_9 u, inv_halve m b, ut - 1)"
      using tracked_even [OF h] by (subst inv_shift.simps) (simp add: Let_def odd_iff_mod_2_eq_one)
    then show ?thesis using h False lt less.prems(4) by auto
  qed
qed

lemma inv_strip_tracked:
  assumes "tracked M A v V d vt" "modulus m M"
  shows "\<exists>v' V' d' vt'. inv_strip m v d vt = Some (v', d', vt') \<and> tracked M A v' V' d' vt' \<and> odd V' \<and> V' dvd V"
  using assms(1)
proof (induction "nat V" arbitrary: V v d vt rule: less_induct)
  case less
  show ?case
  proof (cases "even V")
    case True
    note h = tracked_halve [OF less.prems True assms(2)]
    have "0 < V" using less.prems by (simp add: tracked_def)
    then have "nat (V div 2) < nat V" "V div 2 dvd V" using True by (auto simp: dvd_def)
    moreover have "inv_strip m v d vt = inv_strip m (sp_521_rshift1_9 v) (inv_halve m d) (vt - 1)"
      using tracked_even [OF less.prems] True by (subst inv_strip.simps) (simp add: even_iff_mod_2_eq_zero)
    ultimately show ?thesis using less.hyps [OF _ h] by (metis dvd_trans)
  next
    case False
    then have "inv_strip m v d vt = Some (v, d, vt)"
      using tracked_even [OF less.prems] by (subst inv_strip.simps) (simp add: odd_iff_mod_2_eq_one)
    with False less.prems show ?thesis by auto
  qed
qed

lemma norm_sub_loose:
  assumes "loose b B" "loose d D"
  shows "sp_521_norm_9 (sp_521_sub_9 b d) = digs 58 9 (B - D)"
proof -
  have "digits_in (- (2 ^ 61)) (2 ^ 61) b" "digits_in (- (2 ^ 60)) (2 ^ 60) d"
    using assms by (auto simp: loose_def elim!: digits_in_mono)
  with norm_map2_9(2) [of b d] assms show ?thesis by (simp add: sp_521_sub_9_def loose_def)
qed

text \<open>The difference of two coefficients, made non-negative.\<close>

lemma sub_coeff:
  assumes "loose b B" "loose d D" "0 \<le> B" "B < M" "0 \<le> D" "D < M" "modulus m M"
  defines "e \<equiv> sp_521_norm_9 (sp_521_sub_9 b d)"
  shows "sp_521_norm_9 (if e ! 8 < 0 then sp_521_add_9 e m else e) = digs 58 9 (if B < D then B - D + M else B - D)"
proof -
  have M: "0 < M" "M < 2 ^ 522" using modulus_less [OF assms(7)] assms(7) by (auto simp: modulus_def)
  have e: "e = digs 58 9 (B - D)" unfolding e_def by (rule norm_sub_loose [OF assms(1,2)])
  have s: "- (2 ^ 522) < B - D" "B - D < 2 ^ 522" using assms(3-6) M by linarith+
  have "e ! 8 = (B - D) div 2 ^ 464" by (simp add: e digs_nth)
  then have neg: "e ! 8 < 0 \<longleftrightarrow> B < D" by (simp add: pos_imp_zdiv_neg_iff)
  have d: "digits_in (- (2 ^ 60)) (2 ^ 60) (digs 58 9 (B - D))" by (rule digs9_safe) (use s in simp_all)
  have "sp_521_norm_9 (sp_521_add_9 e m) = digs 58 9 (B - D + M)"
  proof -
    have "digits_in (- (2 ^ 61)) (2 ^ 61) (digs 58 9 (B - D))" by (rule digits_in_mono [OF d]) simp_all
    moreover have "digits_in (- (2 ^ 60)) (2 ^ 60) m" "length m = 9" "lval 58 m = M"
      using assms(7) by (auto simp: modulus_def elim!: digits_in_mono)
    ultimately show ?thesis using norm_map2_9(1) [of "digs 58 9 (B - D)" m] by (simp add: sp_521_add_9_def e)
  qed
  moreover have "sp_521_norm_9 e = digs 58 9 (B - D)"
    using digits_in_mono [OF d, of "- (2 ^ 62)" "2 ^ 62"] sp_521_norm_9_digs [of "digs 58 9 (B - D)"]
    unfolding e by (simp add: val521_def)
  ultimately show ?thesis using neg by simp
qed

lemma inv_sub_tracked:
  assumes "tracked M A u U b ut" "tracked M A v V d vt" "modulus m M" "odd U" "odd V" "V < U"
    and "inv_sub m u v b d = (u', b', ut')"
  shows "\<exists>U'. tracked M A u' U' b' ut' \<and> odd U' \<and> U' < U \<and> (coprime U V \<longrightarrow> coprime U' V)"
proof -
  obtain B D where B: "loose b B" "0 \<le> B" "B < M" "M dvd B * A - U" and D: "loose d D" "0 \<le> D" "D < M" "M dvd D * A - V"
    and U: "u = digs 58 9 U" "U < 2 ^ 522" and V: "v = digs 58 9 V" "0 < V" "V < 2 ^ 522"
    using assms(1,2) by (auto simp: tracked_def)
  define C where "C = (if B < D then B - D + M else B - D)"
  have C: "0 \<le> C" "C < M" using B D by (auto simp: C_def)
  have M: "M < 2 ^ 522" by (rule modulus_less [OF assms(3)])
  have u: "sp_521_norm_9 (sp_521_sub_9 u v) = digs 58 9 (U - V)"
    using norm_sub_loose [OF loose_digs loose_digs] U V assms(6) by simp
  have r: "0 < U - V" "U - V < 2 ^ 522" using U V assms(6) by linarith+
  then obtain n where n: "nbits (U - V) n" using nbits_ex by blast
  have "M dvd (B * A - U) - (D * A - V)" using B(4) D(4) by simp
  then have "M dvd C * A - (U - V)"
    using dvd_add [of M "(B * A - U) - (D * A - V)" "M * A"] by (auto simp: C_def algebra_simps)
  then have t: "tracked M A (digs 58 9 (U - V)) (U - V) (digs 58 9 C) (sp_521_num_bits_9 (digs 58 9 (U - V)))"
    using r n num_bits_9_digs [OF n r(2)] loose_digs [of C] C M unfolding tracked_def by auto
  have "inv_sub m u v b d = inv_shift m (digs 58 9 (U - V)) (digs 58 9 C) (sp_521_num_bits_9 (digs 58 9 (U - V)))"
    unfolding inv_sub_def Let_def u sub_coeff [OF B(1) D(1) B(2,3) D(2,3) assms(3)] C_def ..
  with assms(7) obtain U' where U': "tracked M A u' U' b' ut'" "odd U'" "U' < U - V" "U' dvd U - V"
    using inv_shift_tracked [OF t _ assms(3)] assms(4,5) by auto
  moreover have "coprime U' V" if "coprime U V"
  proof -
    have "coprime (U - V) V" using that by (metis coprime_iff_gcd_eq_1 gcd_diff1)
    then show ?thesis using U'(4) coprime_divisors dvd_refl by blast
  qed
  ultimately show ?thesis using V(2) by auto
qed

lemma cmp_9_digs:
  assumes "0 \<le> U" "U < 2 ^ 522" "0 \<le> V" "V < 2 ^ 522"
  shows "0 \<le> sp_521_cmp_9 (digs 58 9 U) (digs 58 9 V) \<longleftrightarrow> V \<le> U"
proof -
  have "digits_in 0 (2 ^ 58) (digs 58 9 U)" "digits_in 0 (2 ^ 58) (digs 58 9 V)"
    using digs_digits_in [of U 58 9] digs_digits_in [of V 58 9] assms by simp_all
  then have "sgn (sp_521_cmp_9 (digs 58 9 U) (digs 58 9 V)) = sgn (U - V)"
    using sp_521_cmp_9_sign [of "digs 58 9 U" "digs 58 9 V"] by (simp add: val521_def)
  then show ?thesis by (auto simp: sgn_if split: if_splits)
qed

lemma coprime_odd_eq_1: "coprime U U \<Longrightarrow> 0 < U \<Longrightarrow> U = (1 :: int)"
  by simp

lemma tracked_1:
  assumes "tracked M A u U b ut"
  shows "ut \<le> 1 \<longleftrightarrow> U = 1" "ut = 1 \<longleftrightarrow> U = 1"
proof -
  obtain n where n: "nbits U n" "ut = int n" using assms by (auto simp: tracked_def)
  have "U = 1" if "n = 1" using n that by (simp add: nbits_def)
  moreover have "n = 1" if "U = 1"
    using n(1) nbits_unique [of 1 n 1] that by (simp add: nbits_def)
  moreover have "0 < n" using n by (simp add: nbits_def)
  ultimately show "ut \<le> 1 \<longleftrightarrow> U = 1" "ut = 1 \<longleftrightarrow> U = 1" using n(2) by auto
qed

text \<open>The bit lengths decide which number is larger.\<close>

lemma tracked_larger:
  assumes "tracked M A u U b ut" "tracked M A v V d vt"
  shows "ut > vt \<or> ut = vt \<and> sp_521_cmp_9 u v \<ge> 0 \<longleftrightarrow> V \<le> U"
proof -
  obtain n k where n: "nbits U n" "ut = int n" "nbits V k" "vt = int k"
    and UV: "u = digs 58 9 U" "0 < U" "U < 2 ^ 522" "v = digs 58 9 V" "0 < V" "V < 2 ^ 522"
    using assms by (auto simp: tracked_def)
  have "sp_521_cmp_9 u v \<ge> 0 \<longleftrightarrow> V \<le> U" unfolding UV by (rule cmp_9_digs) (use UV in simp_all)
  moreover have "n \<le> k" if "U \<le> V" using nbits_le [OF n(1,3) that] .
  moreover have "k \<le> n" if "V \<le> U" using nbits_le [OF n(3,1) that] .
  ultimately show ?thesis using n(2,4) by fastforce
qed

lemma inv_loop_tracked:
  assumes "tracked M A u U b ut" "tracked M A v V d vt" "odd U" "odd V" "coprime U V" "modulus m M"
  shows "\<exists>r R. inv_loop m u v b d ut vt = Some r \<and> loose r R \<and> 0 \<le> R \<and> R < M \<and> M dvd R * A - 1"
  using assms(1-5)
proof (induction "nat (U + V)" arbitrary: u U b ut v V d vt rule: less_induct)
  case less
  have pos: "0 < U" "0 < V" using less.prems by (simp_all add: tracked_def)
  show ?case
  proof (cases "ut > 1 \<and> vt > 1")
    case False
    then consider "U = 1" | "U \<noteq> 1" "V = 1"
      using tracked_1(1) [OF less.prems(1)] tracked_1(1) [OF less.prems(2)] by linarith
    moreover have "inv_loop m u v b d ut vt = Some (if ut = 1 then b else d)"
      using False by (subst inv_loop.simps) auto
    ultimately show ?thesis
      using tracked_1(2) [OF less.prems(1)] less.prems(1,2) by cases (fastforce simp: tracked_def)+
  next
    case True
    then have ne: "U \<noteq> 1" using tracked_1(1) [OF less.prems(1)] by simp
    show ?thesis
    proof (cases "V \<le> U")
      case le: True
      with ne less.prems(5) pos have lt: "V < U" by (auto simp: order.order_iff_strict)
      obtain u' b' ut' where s: "inv_sub m u v b d = (u', b', ut')" by (metis prod_cases3)
      obtain U' where U': "tracked M A u' U' b' ut'" "odd U'" "U' < U" "coprime U' V"
        using inv_sub_tracked [OF less.prems(1,2) assms(6) less.prems(3,4) lt s] less.prems(5) by blast
      have "inv_loop m u v b d ut vt = inv_loop m u' v b' d ut' vt"
        using True le tracked_larger [OF less.prems(1,2)] by (subst inv_loop.simps) (simp add: s)
      moreover have "nat (U' + V) < nat (U + V)" using U' pos by simp
      ultimately show ?thesis using less.hyps [OF _ U'(1) less.prems(2) U'(2) less.prems(4) U'(4)] by simp
    next
      case nle: False
      then have lt: "U < V" by simp
      obtain v' d' vt' where s: "inv_sub m v u d b = (v', d', vt')" by (metis prod_cases3)
      obtain V' where V': "tracked M A v' V' d' vt'" "odd V'" "V' < V" "coprime V' U"
        using inv_sub_tracked [OF less.prems(2,1) assms(6) less.prems(4,3) lt s] less.prems(5) by (auto simp: coprime_commute)
      have "inv_loop m u v b d ut vt = inv_loop m u v' b d' ut vt'"
        using True nle tracked_larger [OF less.prems(1,2)] by (subst inv_loop.simps) (auto simp: s)
      moreover have "nat (U + V') < nat (U + V)" using V' pos by simp
      moreover have "coprime U V'" using V'(4) by (simp add: coprime_commute)
      ultimately show ?thesis using less.hyps [OF _ less.prems(1) V'(1) less.prems(3) V'(2)] by simp
    qed
  qed
qed

text \<open>The initial state.\<close>

lemma tracked_modulus:
  assumes "modulus m M"
  shows "tracked M A m M (replicate 9 0) (sp_521_num_bits_9 m)"
proof -
  obtain n where n: "nbits M n" using nbits_ex [of M] assms by (auto simp: modulus_def)
  have "loose (replicate 9 0) 0" by (simp add: loose_def digits_in_def)
  then show ?thesis unfolding tracked_def
    using num_bits_9_digs [OF n modulus_less [OF assms]] n modulus_digs [OF assms] modulus_less [OF assms] assms
    by (auto simp: modulus_def)
qed

lemma tracked_one:
  assumes "0 < A" "A < 2 ^ 522" "1 < M"
  shows "tracked M A (digs 58 9 A) A (1 # replicate 8 0) (sp_521_num_bits_9 (digs 58 9 A))"
proof -
  obtain n where n: "nbits A n" using nbits_ex [OF assms(1)] by blast
  have "loose (1 # replicate 8 0) 1" by (simp add: loose_def digits_in_def)
  then show ?thesis unfolding tracked_def using num_bits_9_digs [OF n assms(2)] n assms by fastforce
qed

lemma inv_halve_one:
  assumes "modulus m M"
  shows "sp_521_rshift1_9 ((take 9 m)[0 := s64 (take 9 m ! 0 + 1)]) = inv_halve m (1 # replicate 8 0)"
proof -
  have l: "length m = 9" "digits_in 0 (2 ^ 58) m" using assms by (simp_all add: modulus_def)
  have "sp_521_add_9 (1 # replicate 8 0) m = m[0 := s64 (m ! 0 + 1)]"
  proof -
    have m: "m = [m ! 0, m ! 1, m ! 2, m ! 3, m ! 4, m ! 5, m ! 6, m ! 7, m ! 8]" by (rule list9 [OF l(1)])
    have b: "s64 (m ! i) = m ! i" if "i < 9" for i using digits_in_nth [OF l(2), of i] l(1) that by (intro s64_id) auto
    have "sp_521_add_9 (1 # replicate 8 0) m = map2_s64 (+) [1, 0, 0, 0, 0, 0, 0, 0, 0] [m ! 0, m ! 1, m ! 2, m ! 3, m ! 4, m ! 5, m ! 6, m ! 7, m ! 8]"
      unfolding sp_521_add_9_def using m l(1) by (simp add: numeral_eq_Suc)
    also have "\<dots> = [s64 (m ! 0 + 1), m ! 1, m ! 2, m ! 3, m ! 4, m ! 5, m ! 6, m ! 7, m ! 8]"
      using b [of 1] b [of 2] b [of 3] b [of 4] b [of 5] b [of 6] b [of 7] b [of 8] by (simp add: map2_s64_def add.commute)
    also have "\<dots> = m[0 := s64 (m ! 0 + 1)]" by (subst (10) m) simp
    finally show ?thesis .
  qed
  then show ?thesis using l by (simp add: inv_halve_def)
qed

lemma mod_inv_9_inverse:
  assumes "0 < A" "A < 2 ^ 522" "coprime A M" "modulus m M"
  shows "\<exists>r R. sp_521_mod_inv_9 (digs 58 9 A) m = Some r \<and> loose r R \<and> 0 \<le> R \<and> R < M \<and> M dvd R * A - 1"
proof -
  have m: "take 9 m = m" "1 < M" "odd M" using assms(4) by (simp_all add: modulus_def)
  have take9: "take 9 (digs 58 9 A) = digs 58 9 A" by simp
  note one = tracked_one [OF assms(1,2) m(2)]
  let ?v = "digs 58 9 A" and ?d = "1 # replicate 8 0" and ?vt = "sp_521_num_bits_9 (digs 58 9 A)"
  obtain v' V' d' vt' where s: "(if ?v ! 0 AND 1 = 0
        then inv_strip m (sp_521_rshift1_9 ?v) (inv_halve m ?d) (?vt - 1) else Some (?v, ?d, ?vt)) = Some (v', d', vt')"
    and V: "tracked M A v' V' d' vt'" "odd V'" "V' dvd A"
  proof (cases "even A")
    case True
    have "A div 2 dvd A" using True by (auto simp: dvd_def)
    then show ?thesis
      using inv_strip_tracked [OF tracked_halve [OF one True assms(4)] assms(4)] tracked_even [OF one] True that
      by (auto simp: even_iff_mod_2_eq_zero intro: dvd_trans)
  next
    case False
    then show ?thesis using that [OF _ one] tracked_even [OF one] by (simp add: odd_iff_mod_2_eq_one)
  qed
  have "coprime M V'" using assms(3) V(3) by (metis coprime_commute coprime_divisors dvd_refl)
  from inv_loop_tracked [OF tracked_modulus [OF assms(4)] V(1) m(3) V(2) this assms(4)]
  obtain r R where "inv_loop m m v' (replicate 9 0) d' (sp_521_num_bits_9 m) vt' = Some r"
    "loose r R" "0 \<le> R" "R < M" "M dvd R * A - 1" by blast
  moreover have "sp_521_mod_inv_9 ?v m = inv_loop m m v' (replicate 9 0) d' (sp_521_num_bits_9 m) vt'"
    unfolding sp_521_mod_inv_9_def Let_def m(1) take9 inv_halve_one [OF assms(4), unfolded m(1)] s by simp
  ultimately have "sp_521_mod_inv_9 ?v m = Some r \<and> loose r R \<and> 0 \<le> R \<and> R < M \<and> M dvd R * A - 1" by simp
  then have "\<exists>R. sp_521_mod_inv_9 ?v m = Some r \<and> loose r R \<and> 0 \<le> R \<and> R < M \<and> M dvd R * A - 1" by (rule exI)
  then show ?thesis by (rule exI)
qed

text \<open>Stripping the factors of two of zero never ends.\<close>

lemma inv_strip_zero: "inv_strip m (replicate 9 0) d vt = None"
proof -
  have z: "sp_521_rshift1_9 (replicate 9 0) = replicate 9 0" by code_simp
  have "v \<noteq> replicate 9 0" if "inv_strip m v d vt = Some y" for v d vt y
    by (rule inv_strip.raw_induct [where P = "\<lambda>m v d vt y. v \<noteq> replicate 9 0", OF _ that])
      (fastforce simp: z split: if_splits)
  from this [of "replicate 9 0" d vt] show ?thesis by (cases "inv_strip m (replicate 9 0) d vt") auto
qed

section \<open>Properties\<close>

text \<open>C18: The modular inversion used by verification terminates and is correct for every odd modulus.  For a number below
  \<open>2\<^sup>5\<^sup>2\<^sup>2\<close> that is coprime to the modulus, all loops end, and the result is the inverse modulo the modulus,
  with nine digits below \<open>2\<^sup>5\<^sup>9\<close> and a value below the modulus.  For zero the function never
  returns: the loop that strips factors of two does not end.\<close>

theorem sp_521_mod_inv_9_correct:
  assumes "length a = 9" "digits_in 0 (2 ^ 58) a" "length m = 9" "digits_in 0 (2 ^ 58) m"
    and "odd (lval 58 m)" "1 < lval 58 m" "0 < lval 58 a" "coprime (lval 58 a) (lval 58 m)"
  shows "(\<exists>r. sp_521_mod_inv_9 a m = Some r \<and> length r = 9 \<and> digits_in 0 (2 ^ 59) r \<and>
      0 \<le> lval 58 r \<and> lval 58 r < lval 58 m \<and> lval 58 r * lval 58 a mod lval 58 m = 1) \<and>
    sp_521_mod_inv_9 (replicate 9 0) m = None"
proof -
  have a: "a = digs 58 9 (lval 58 a)"
  proof -
    have "a \<noteq> []" "digits_in 0 (2 ^ 58) (butlast a)"
      using assms(1,2) by (auto simp: digits_in_def dest: in_set_butlastD)
    from digs_lval [OF this] assms(1) show ?thesis by simp
  qed
  have "lval 58 a < 2 ^ 522" using lval_upper [OF assms(2)] assms(1) by simp
  moreover have mm: "modulus m (lval 58 m)" using assms by (simp add: modulus_def)
  ultimately obtain r R where r: "sp_521_mod_inv_9 a m = Some r" "loose r R" "0 \<le> R" "R < lval 58 m"
    "lval 58 m dvd R * lval 58 a - 1"
    using mod_inv_9_inverse [OF assms(7) _ assms(8) mm, unfolded a [symmetric]] by blast
  have "R * lval 58 a mod lval 58 m = 1 mod lval 58 m" using r(5) by (simp only: mod_eq_dvd_iff)
  then have "lval 58 r * lval 58 a mod lval 58 m = 1" using r(2) assms(6) by (simp add: loose_def)
  moreover have "sp_521_mod_inv_9 (replicate 9 0) m = None"
  proof -
    have "sp_521_rshift1_9 (replicate 9 0) = replicate 9 0" by code_simp
    then show ?thesis by (simp add: sp_521_mod_inv_9_def Let_def inv_strip_zero)
  qed
  ultimately show ?thesis using r by (auto simp: loose_def)
qed

theorem sp_521_mod_inv_9_correct_witness:
  "\<exists>r. sp_521_mod_inv_9 (6 # replicate 8 0) p521_order = Some r \<and> lval 58 r * 6 mod lval 58 p521_order = 1"
proof -
  have "lval 58 p521_order mod 6 = 5" by code_simp
  then have "gcd (lval 58 p521_order) 6 = gcd 6 5" by (metis gcd_red_int)
  moreover have "gcd 6 (5 :: int) = 1" by code_simp
  ultimately have "coprime 6 (lval 58 p521_order)" by (simp add: coprime_iff_gcd_eq_1 gcd.commute)
  moreover have "odd (lval 58 p521_order)" "1 < lval 58 p521_order" "length p521_order = 9" "digits_in 0 (2 ^ 58) p521_order"
    by (simp_all add: p521_order_def)
  moreover have "length (6 # replicate 8 (0 :: int)) = 9" "digits_in 0 (2 ^ 58) (6 # replicate 8 0)" "lval 58 (6 # replicate 8 0) = 6"
    by (simp_all add: digits_in_def)
  ultimately show ?thesis using sp_521_mod_inv_9_correct [of "6 # replicate 8 0" p521_order] by auto
qed

end
