(* ===== verification/Sp521Ecdsa.thy ===== *)
theory Sp521Ecdsa
  imports Sp521Enc Sp521Inv
begin

text \<open>
  The scalars of an ECDSA signature: the second signature value (\<^verbatim>\<open>sp_521_calc_s_9\<close>) and the two
  multipliers of the verification (the first half of \<^verbatim>\<open>sp_521_calc_vfy_point_9\<close>, default build).

  Both reduce products modulo the group order by trial division, so that the group order is the second
  instance of the locale of divisors.
\<close>

section \<open>The functions of the source\<close>

text \<open>
  \<^verbatim>\<open>sp_521_add_9\<close> always returns the carry 0, and the reductions cannot fail in the default build.
\<close>

definition sp_521_calc_s_9 :: "int list \<Rightarrow> int list \<Rightarrow> int list \<Rightarrow> int list \<Rightarrow> int list" where
  "sp_521_calc_s_9 r k x e =
    (let k = sp_521_mul_9 k p521_norm_order;
         k = sp_521_mod_9 k p521_order;
         k = sp_521_norm_9 k;
         kInv = sp_521_mont_inv_order_9 k;
         kInv = sp_521_norm_9 kInv;
         x = sp_521_mul_9 x r;
         x = sp_521_mod_9 x p521_order;
         x = sp_521_norm_9 x;
         carry = 0;
         s = sp_521_add_9 e x;
         s = sp_521_cond_sub_9 s p521_order (0 - carry);
         s = sp_521_norm_9 s;
         c = sp_521_cmp_9 s p521_order;
         s = sp_521_cond_sub_9 s p521_order (0 - (if c \<ge> 0 then 1 else 0));
         s = sp_521_norm_9 s;
         s = sp_521_mont_mul_order_9 s kInv
     in sp_521_norm_9 s)"

text \<open>The multipliers \<open>u1 = e / s\<close> and \<open>u2 = r / s\<close>, from \<open>u1 = e\<close> and \<open>u2 = r\<close>.\<close>

definition vfy_scalars :: "int list \<Rightarrow> int list \<Rightarrow> int list \<Rightarrow> (int list \<times> int list) option" where
  "vfy_scalars s u1 u2 =
    (case sp_521_mod_inv_9 s p521_order of
       None \<Rightarrow> None
     | Some s \<Rightarrow>
         let s = sp_521_mul_9 s p521_norm_order;
             s = sp_521_mod_9 s p521_order;
             s = sp_521_norm_9 s
         in Some (sp_521_mont_mul_order_9 u1 s, sp_521_mont_mul_order_9 u2 s))"

section \<open>Reduction modulo the order\<close>

definition sd_order :: "int list" where
  "sd_order = [0x2df6e3d2270c812, 0x2e4dc44ce23d75d, 0x291ee134ba0776, 0x1df97cb35bfe60,
     0x3fffffff4a30d0f, 0x3ffffffffffffff, 0x3ffffffffffffff, 0x3ffffffffffffff, 0x3ffffffffffffff, 0]"

interpretation div_n: divisor p521_order sd_order N521
proof
  show "sp_521_mul_d_9 p521_order 2 = sd_order"
    unfolding sp_521_mul_d_9_def p521_order_def sd_order_def split_cols_def by code_simp
qed (simp_all add: sd_order_def N521_numeral)

lemma norm_fe521: "fe521 a \<Longrightarrow> sp_521_norm_9 a = digs 58 9 (val521 a)"
  using sp_521_norm_9_digs [of a] fe521_digits [of a] by simp

lemma mod_order:
  assumes "0 \<le> v" "v < 2 ^ 1043" "div_safe N521 v" "w = digs 58 18 v"
  shows "\<exists>t. 0 \<le> t \<and> t \<le> P521 \<and> t mod N521 = v mod N521 \<and>
    sp_521_norm_9 (sp_521_mod_9 w p521_order) = digs 58 9 t"
proof -
  obtain t where t: "0 \<le> t" "t < 2 ^ 521" "t mod N521 = v mod N521" "sp_521_mod_9 w p521_order = digs 58 9 t"
    using div_n.mod_9 [OF assms(1-3)] assms(4) by blast
  then have "t \<le> P521" by (simp add: P521_def)
  then have "sp_521_norm_9 (digs 58 9 t) = digs 58 9 t"
    using norm_fe521 reduced_fe521 [OF t(1)] by simp
  then show ?thesis using t \<open>t \<le> P521\<close> by auto
qed

lemma mul_mod_order:
  assumes "fe521 a" "fe521 b" "div_safe N521 (val521 a * val521 b)"
  shows "\<exists>t. 0 \<le> t \<and> t \<le> P521 \<and> t mod N521 = val521 a * val521 b mod N521 \<and>
    sp_521_norm_9 (sp_521_mod_9 (sp_521_mul_9 a b) p521_order) = digs 58 9 t"
proof (rule mod_order)
  have "val521 a * val521 b < 2 ^ 1042" using fe521_prod [OF assms(1,2)] P521_sq_less by linarith
  then show "val521 a * val521 b < 2 ^ 1043" by simp
qed (use assms fe521_prod mul_9_digs in simp_all)

lemma cond_sub_9_none:
  assumes "length a = 9" "digits_in (- (2 ^ 63)) (2 ^ 63) a"
  shows "sp_521_cond_sub_9 a p521_order 0 = a"
proof -
  have "map2_s64 (\<lambda>x y. x - (y AND 0)) xs ys = xs"
    if "length xs = length ys" "digits_in (- (2 ^ 63)) (2 ^ 63) xs" for xs ys
    using that by (induction xs ys rule: list_induct2) (auto simp: map2_s64_def s64_id)
  from this [of a p521_order] show ?thesis using assms p521_order_digs(1) by (simp add: sp_521_cond_sub_9_def)
qed

lemma cond_sub_9_reduces:
  assumes "0 \<le> v" "v < 2 ^ 522"
  defines "a \<equiv> digs 58 9 v"
  shows "sp_521_norm_9 (sp_521_cond_sub_9 a p521_order (0 - (if sp_521_cmp_9 a p521_order \<ge> 0 then 1 else 0)))
    = digs 58 9 (if v \<ge> N521 then v - N521 else v)"
proof -
  have d: "digits_in 0 (2 ^ 58) a" unfolding a_def by (rule digs9_le [OF assms(1,2)])
  have "sgn (sp_521_cmp_9 a p521_order) = sgn (v - N521)"
    using sp_521_cmp_9_sign [of a p521_order] d p521_order_digs by (simp add: val521_def a_def)
  then have c: "sp_521_cmp_9 a p521_order \<ge> 0 \<longleftrightarrow> v \<ge> N521" by (auto simp: sgn_if split: if_splits)
  have m: "0 - (if v \<ge> N521 then 1 else 0) = (if v \<ge> N521 then - 1 else (0 :: int))" by simp
  have "digits_in (- (2 ^ 61)) (2 ^ 61) a" by (rule digits_in_mono [OF d]) simp_all
  moreover have "digits_in (- (2 ^ 60)) (2 ^ 60) (map (\<lambda>y. if c then y else 0) p521_order)"
    "lval 58 (map (\<lambda>y. if c then y else 0) p521_order) = (if c then N521 else 0)" for c
    by (simp_all add: p521_order_def N521_def)
  ultimately show ?thesis
    unfolding sp_521_cond_sub_9_def c m map2_s64_masked
    using norm_map2_9(2) [of a "map (\<lambda>y. if v \<ge> N521 then y else 0) p521_order"] p521_order_digs
    by (simp add: a_def)
qed

lemma add_order:
  assumes "fe521 a" "fe521 b" "val521 a < N521"
  defines "v \<equiv> val521 a + val521 b"
  shows "sp_521_norm_9 (sp_521_cond_sub_9 (sp_521_add_9 a b) p521_order 0) = digs 58 9 v"
    and "0 \<le> v" "v < 2 ^ 522" "(if v \<ge> N521 then v - N521 else v) \<le> P521"
proof -
  have d: "digits_in 0 (2 ^ 58 + 1) (take 9 a)" "digits_in 0 (2 ^ 58 + 1) (take 9 b)" "9 \<le> length a" "9 \<le> length b"
    using assms(1,2) by (simp_all add: fe521_def)
  have "sp_521_add_9 a b = map2 (+) (take 9 a) (take 9 b)"
    unfolding sp_521_add_9_def using d by (intro map2_s64_add) (auto intro: digits_in_mono)
  moreover have "digits_in (0 + 0) (2 ^ 58 + 1 + (2 ^ 58 + 1)) (map2 (+) (take 9 a) (take 9 b))"
    by (rule digits_in_map2_add) (use d in simp_all)
  ultimately have "digits_in (- (2 ^ 63)) (2 ^ 63) (sp_521_add_9 a b)" "length (sp_521_add_9 a b) = 9"
    using d(3,4) by (auto intro: digits_in_mono)
  then have "sp_521_cond_sub_9 (sp_521_add_9 a b) p521_order 0 = sp_521_add_9 a b" by (intro cond_sub_9_none)
  then show "sp_521_norm_9 (sp_521_cond_sub_9 (sp_521_add_9 a b) p521_order 0) = digs 58 9 v"
    using norm_add_9 [OF assms(1,2)] by (simp add: v_def)
  show "0 \<le> v" "v < 2 ^ 522" using fe521_sum [OF assms(1,2)] by (simp_all add: v_def P521_def)
  show "(if v \<ge> N521 then v - N521 else v) \<le> P521"
    using fe521_digits(4) [OF assms(2)] assms(3) by (auto simp: v_def P521_def N521_numeral)
qed

section \<open>The second signature value\<close>

lemma cancel_R521:
  assumes "(2 ^ 521 * a) mod N521 = (b * 2 ^ 521) mod N521"
  shows "a mod N521 = b mod N521"
proof -
  have one: "(y * (2 ^ 521 * R521inv)) mod N521 = y mod N521" for y
    using mod_mult_right_eq [of y "2 ^ 521 * R521inv" N521] by (simp only: R521inv mult_1_right)
  have "(2 ^ 521 * a * R521inv) mod N521 = (b * 2 ^ 521 * R521inv) mod N521" by (rule mod_mult_cong [OF assms refl])
  moreover have "2 ^ 521 * a * R521inv = a * (2 ^ 521 * R521inv)" "b * 2 ^ 521 * R521inv = b * (2 ^ 521 * R521inv)"
    by (simp_all only: ac_simps)
  ultimately show ?thesis by (simp only: one)
qed

lemma norm_order: "val521 p521_norm_order mod N521 = 2 ^ 521 mod N521"
  by (simp add: val521_def p521_norm_order_def N521_numeral)

lemma to_mont_order: "(x * val521 p521_norm_order) mod N521 = (x * 2 ^ 521) mod N521"
  by (rule mod_mult_cong [OF refl norm_order])

lemma calc_s_9_correct:
  assumes fe: "fe521 r" "fe521 k" "fe521 x" "fe521 e" and e: "val521 e < N521"
    and safe: "div_safe N521 (val521 k * val521 p521_norm_order)" "div_safe N521 (val521 x * val521 r)"
  shows "\<exists>s. sp_521_calc_s_9 r k x e = digs 58 9 s \<and> 0 \<le> s \<and> s \<le> P521 \<and>
    s mod N521 = ((val521 e + val521 x * val521 r) * val521 k ^ nat (N521 - 2)) mod N521"
proof -
  let ?pow = "val521 k ^ nat (N521 - 2)"
  obtain t where t: "0 \<le> t" "t \<le> P521" "t mod N521 = val521 k * val521 p521_norm_order mod N521"
      "sp_521_norm_9 (sp_521_mod_9 (sp_521_mul_9 k p521_norm_order) p521_order) = digs 58 9 t"
    using mul_mod_order [OF fe(2) fe521_order(1) safe(1)] by blast
  obtain u where u: "0 \<le> u" "u \<le> P521" "u mod N521 = val521 x * val521 r mod N521"
      "sp_521_norm_9 (sp_521_mod_9 (sp_521_mul_9 x r) p521_order) = digs 58 9 u"
    using mul_mod_order [OF fe(3,1) safe(2)] by blast
  note ft = reduced_fe521 [OF t(1,2)] and fu = reduced_fe521 [OF u(1,2)]
  have "val521 (digs 58 9 t) mod N521 = (val521 k * 2 ^ 521) mod N521" using t(3) by (simp only: ft(2) to_mont_order)
  from sp_521_mont_inv_order_9_power [OF ft(1) this]
  have i: "fe521 (sp_521_mont_inv_order_9 (digs 58 9 t))"
    "val521 (sp_521_mont_inv_order_9 (digs 58 9 t)) mod N521 = (?pow * 2 ^ 521) mod N521"
    by simp_all
  define j where "j = val521 (sp_521_mont_inv_order_9 (digs 58 9 t))"
  have fj: "fe521 (digs 58 9 j)" "val521 (digs 58 9 j) = j"
    using reduced_fe521 [of j] fe521_digits(3,4) [OF i(1)] by (simp_all add: j_def)
  define v where "v = val521 e + u"
  define w where "w = (if v \<ge> N521 then v - N521 else v)"
  note a = add_order [OF fe(4) fu(1) e, unfolded fu(2), folded v_def]
  have w: "0 \<le> w" "w \<le> P521" using a(2,4) by (auto simp: w_def)
  note fw = reduced_fe521 [OF w]
  define z where "z = val521 (sp_521_mont_mul_order_9 (digs 58 9 w) (digs 58 9 j))"
  note m = mont_mul_order_9 [OF fw(1) fj(1), folded z_def]
  have "sp_521_calc_s_9 r k x e = sp_521_norm_9 (sp_521_mont_mul_order_9 (digs 58 9 w) (digs 58 9 j))"
    unfolding sp_521_calc_s_9_def Let_def t(4) u(4) norm_fe521 [OF i(1), folded j_def] diff_0_right a(1)
      cond_sub_9_reduces [OF a(2,3), folded w_def] ..
  also have "\<dots> = digs 58 9 z" unfolding z_def by (rule norm_fe521 [OF m(1)])
  finally have s: "sp_521_calc_s_9 r k x e = digs 58 9 z" .
  have "w mod N521 = (val521 e + val521 x * val521 r) mod N521"
  proof -
    have "w mod N521 = v mod N521" by (simp add: w_def)
    also have "\<dots> = (val521 e + val521 x * val521 r) mod N521" unfolding v_def by (rule mod_add_cong [OF refl u(3)])
    finally show ?thesis .
  qed
  then have "(w * j) mod N521 = ((val521 e + val521 x * val521 r) * (?pow * 2 ^ 521)) mod N521"
    using i(2) unfolding j_def by (rule mod_mult_cong)
  then have "(2 ^ 521 * z) mod N521 = ((val521 e + val521 x * val521 r) * ?pow * 2 ^ 521) mod N521"
    using m(2) unfolding fw(2) fj(2) by (simp only: mult.assoc)
  from cancel_R521 [OF this] show ?thesis
    using s fe521_digits(3,4) [OF m(1)] unfolding z_def by blast
qed

section \<open>The multipliers of the verification\<close>

lemma mul_9_loose:
  assumes "length a = 9" "digits_in 0 (2 ^ 59) a" "fe521 b" "0 \<le> lval 58 a" "lval 58 a \<le> P521"
  shows "sp_521_mul_9 a b = digs 58 18 (lval 58 a * val521 b)"
proof -
  let ?c = "pmul a (take 9 b)"
  have b: "length (take 9 b) = 9" "digits_in 0 (2 ^ 58 + 1) (take 9 b)" "9 \<le> length b" using assms(3) by (simp_all add: fe521_def)
  then have "a \<noteq> []" "take 9 b \<noteq> []" using assms(1) by auto
  with b assms(1) have len: "length ?c = 17" by (simp add: length_pmul)
  have v: "lval 58 ?c = lval 58 a * val521 b" by (simp add: lval_pmul val521_def)
  have "\<forall>z\<in>set ?c. 0 \<le> z \<and> z \<le> int (length a) * (2 ^ 59 * 2 ^ 58)"
    using assms(2) b(2) by (intro pmul_bound) (force simp: digits_in_def)+
  then have d: "digits_in 0 (2 ^ 126) ?c" unfolding assms(1) by (fastforce simp: digits_in_def)
  have "lval 58 a * val521 b \<le> P521 * P521" using assms(4,5) fe521_digits [OF assms(3)] by (intro mult_mono) simp_all
  then have "lval 58 ?c < 2 ^ (58 * length ?c + 63)" using P521_sq_less by (simp add: v len)
  then have "carry_cols 58 ?c = digs 58 (length ?c + 1) (lval 58 ?c)"
    by (intro carry_cols_digs) (use len d in auto)
  then show ?thesis using sp_521_mul_9_cols [of a b] assms(1) b(3) by (simp add: len v)
qed

lemma order_modulus: "modulus p521_order N521"
  using p521_order_digs by (simp add: modulus_def N521_numeral)

lemma vfy_scalars_correct:
  assumes "0 \<le> S" "S \<le> P521" "coprime S N521" "fe521 u1" "fe521 u2"
    and "\<forall>t. sp_521_mod_inv_9 (digs 58 9 S) p521_order = Some t \<longrightarrow> div_safe N521 (val521 t * val521 p521_norm_order)"
  shows "\<exists>a b R. vfy_scalars (digs 58 9 S) u1 u2 = Some (a, b) \<and> fe521 a \<and> fe521 b \<and> (R * S) mod N521 = 1 \<and>
    val521 a mod N521 = (val521 u1 * R) mod N521 \<and> val521 b mod N521 = (val521 u2 * R) mod N521 \<and>
    take 9 a = digs 58 9 (val521 a) \<and> take 9 b = digs 58 9 (val521 b)"
proof -
  have "S \<noteq> 0" using assms(3) by (auto simp: N521_numeral)
  then have S: "0 < S" "S < 2 ^ 522" using assms(1,2) by (simp_all add: P521_def)
  obtain t R where t: "sp_521_mod_inv_9 (digs 58 9 S) p521_order = Some t" "loose t R" "0 \<le> R" "R < N521" "N521 dvd R * S - 1"
    using mod_inv_9_inverse [OF S assms(3) order_modulus] by blast
  have l: "length t = 9" "digits_in 0 (2 ^ 59) t" "lval 58 t = R" using t(2) by (simp_all add: loose_def)
  have v: "val521 t = R" using l by (simp add: val521_def)
  have R: "R \<le> P521" using t(4) by (simp add: N521_numeral P521_def)
  have "(R * S) mod N521 = 1 mod N521" using t(5) by (simp only: mod_eq_dvd_iff)
  then have inv: "(R * S) mod N521 = 1" by (simp add: N521_numeral)
  have prod: "sp_521_mul_9 t p521_norm_order = digs 58 18 (R * val521 p521_norm_order)"
    using mul_9_loose [OF l(1,2) fe521_order(1)] l(3) t(3) R by simp
  have "R * val521 p521_norm_order \<le> P521 * P521"
    using R t(3) fe521_digits [OF fe521_order(1)] by (intro mult_mono) simp_all
  then have b: "R * val521 p521_norm_order < 2 ^ 1043" using P521_sq_less by simp
  have nn: "0 \<le> R * val521 p521_norm_order" using t(3) fe521_digits(3) [OF fe521_order(1)] by simp
  have "div_safe N521 (R * val521 p521_norm_order)" using assms(6) t(1) v by simp
  from mod_order [OF nn b this prod] obtain q where q: "0 \<le> q" "q \<le> P521"
      "q mod N521 = R * val521 p521_norm_order mod N521"
      "sp_521_norm_9 (sp_521_mod_9 (sp_521_mul_9 t p521_norm_order) p521_order) = digs 58 9 q"
    by blast
  note fq = reduced_fe521 [OF q(1,2)]
  have e: "vfy_scalars (digs 58 9 S) u1 u2 = Some (sp_521_mont_mul_order_9 u1 (digs 58 9 q), sp_521_mont_mul_order_9 u2 (digs 58 9 q))"
    by (simp only: vfy_scalars_def t(1) option.case Let_def q(4))
  have m: "val521 (sp_521_mont_mul_order_9 u (digs 58 9 q)) mod N521 = (val521 u * R) mod N521" if "fe521 u" for u
  proof (rule cancel_R521)
    have "(2 ^ 521 * val521 (sp_521_mont_mul_order_9 u (digs 58 9 q))) mod N521 = (val521 u * q) mod N521"
      using mont_mul_order_9(2) [OF that fq(1)] by (simp only: fq(2))
    also have "\<dots> = (val521 u * (R * 2 ^ 521)) mod N521"
      using q(3) unfolding to_mont_order by (intro mod_mult_cong refl)
    finally show "(2 ^ 521 * val521 (sp_521_mont_mul_order_9 u (digs 58 9 q))) mod N521 = (val521 u * R * 2 ^ 521) mod N521"
      by (simp only: mult.assoc)
  qed
  show ?thesis
    using e m [OF assms(4)] m [OF assms(5)] mont_mul_order_9(1,3) [OF assms(4) fq(1)] mont_mul_order_9(1,3) [OF assms(5) fq(1)] inv
    by blast
qed

text \<open>The algebra of the scheme: \<open>K\<close> is invertible by Fermat's theorem.\<close>

lemma fermat_cancel:
  fixes n :: int
  assumes "S mod n = (h * K ^ m) mod n" "K ^ Suc m mod n = 1"
  shows "(S * K) mod n = h mod n"
proof -
  have "(S * K) mod n = (h * K ^ m * K) mod n" by (rule mod_mult_cong [OF assms(1) refl])
  also have "h * K ^ m * K = h * K ^ Suc m" by simp
  also have "\<dots> mod n = h mod n" using mod_mult_right_eq [of h "K ^ Suc m" n] assms(2) by simp
  finally show ?thesis .
qed

lemma inverse_cancel:
  fixes n :: int
  assumes "(R * S) mod n = 1" "y mod n = (z * R) mod n"
  shows "(y * S) mod n = z mod n"
proof -
  have "(y * S) mod n = (z * R * S) mod n" by (rule mod_mult_cong [OF assms(2) refl])
  also have "\<dots> = z mod n" using mod_mult_right_eq [of z "R * S" n] assms(1) by (simp add: mult.assoc)
  finally show ?thesis .
qed

section \<open>Properties\<close>

text \<open>C19: Signing and verification agree on scalars.  For a nonce \<open>k\<close>, a private key \<open>x\<close>, a first signature value \<open>r\<close>
  and a hash \<open>e\<close> below the order, the second signature value \<open>s\<close> is \<open>(e + x r) / k\<close> modulo the order (division by Fermat's exponent), and the multipliers that
  verification derives from \<open>s\<close> exist, are \<open>e / s\<close> and \<open>r / s\<close>, and satisfy
  \<open>u1 + x u2 = k\<close> modulo the order, so that \<open>u1 G + u2 Q\<close> is the point \<open>k G\<close> that \<open>r\<close> was taken from.  The products are assumed to be
  numbers on which the trial division is exact, \<open>s\<close> to be invertible, and
  \<open>k\<close> to satisfy Fermat's theorem (the order is prime).\<close>

theorem sp_521_ecdsa_scalars:
  assumes "fe521 r" "fe521 k" "fe521 x" "fe521 e" "val521 e < N521"
    and "div_safe N521 (val521 k * val521 p521_norm_order)" "div_safe N521 (val521 x * val521 r)"
    and "val521 k ^ nat (N521 - 1) mod N521 = 1"
    and "coprime (val521 (sp_521_calc_s_9 r k x e)) N521"
    and "\<forall>t. sp_521_mod_inv_9 (sp_521_calc_s_9 r k x e) p521_order = Some t \<longrightarrow>
      div_safe N521 (val521 t * val521 p521_norm_order)"
  shows "fe521 (sp_521_calc_s_9 r k x e) \<and>
    (val521 (sp_521_calc_s_9 r k x e) * val521 k) mod N521 = (val521 e + val521 x * val521 r) mod N521 \<and>
    (\<exists>u1 u2. vfy_scalars (sp_521_calc_s_9 r k x e) e r = Some (u1, u2) \<and> fe521 u1 \<and> fe521 u2 \<and>
      (val521 u1 * val521 (sp_521_calc_s_9 r k x e)) mod N521 = val521 e mod N521 \<and>
      (val521 u2 * val521 (sp_521_calc_s_9 r k x e)) mod N521 = val521 r mod N521 \<and>
      (val521 u1 + val521 x * val521 u2) mod N521 = val521 k mod N521)"
proof -
  let ?h = "val521 e + val521 x * val521 r" and ?m = "nat (N521 - 2)"
  obtain S where S: "sp_521_calc_s_9 r k x e = digs 58 9 S" "0 \<le> S" "S \<le> P521" "S mod N521 = (?h * val521 k ^ ?m) mod N521"
    using calc_s_9_correct [OF assms(1-7)] by blast
  note fs = reduced_fe521 [OF S(2,3)]
  have n: "nat (N521 - 1) = Suc ?m" by (simp add: N521_numeral)
  obtain u1 u2 R where u: "vfy_scalars (digs 58 9 S) e r = Some (u1, u2)" "fe521 u1" "fe521 u2" "(R * S) mod N521 = 1"
      "val521 u1 mod N521 = (val521 e * R) mod N521" "val521 u2 mod N521 = (val521 r * R) mod N521"
    using vfy_scalars_correct [OF S(2,3) _ assms(4,1)] assms(9,10) unfolding S(1) fs(2) by blast
  have k: "val521 k ^ Suc ?m mod N521 = 1" using assms(8) by (simp only: n)
  note sk = fermat_cancel [OF S(4) k]
  have "(val521 u1 + val521 x * val521 u2) mod N521 = (val521 e * R + val521 x * (val521 r * R)) mod N521"
    by (intro mod_add_cong mod_mult_cong refl u(5,6))
  also have "\<dots> = (?h * R) mod N521" by (simp add: algebra_simps)
  also have "\<dots> = (S * val521 k * R) mod N521" by (rule mod_mult_cong [OF sk [symmetric] refl])
  also have "S * val521 k * R = val521 k * R * S" by (simp only: ac_simps)
  also have "\<dots> mod N521 = val521 k mod N521" by (rule inverse_cancel [OF u(4) refl])
  finally show ?thesis
    using fs sk u inverse_cancel [OF u(4,5)] inverse_cancel [OF u(4,6)] unfolding S(1) fs(2) by blast
qed

lemma div_safe_small_order:
  assumes "0 \<le> a" "a < 2 ^ 261"
  shows "div_safe N521 a"
proof -
  have "2 * a div 2 ^ (58 * j) mod (2 * N521) = 2 * a div 2 ^ (58 * j) \<and> 0 \<le> 2 * a div 2 ^ (58 * j) \<and> 2 * a div 2 ^ (58 * j) < 2 ^ 204"
    if "1 \<le> j" for j
  proof -
    have "2 * a < 2 ^ 58 * 2 ^ 204" using assms(2) by simp
    also have "\<dots> \<le> 2 ^ (58 * j) * (2 :: int) ^ 204" using that by (intro mult_right_mono power_increasing) simp_all
    finally have "2 * a div 2 ^ (58 * j) < 2 ^ 204" by (intro div_less_of_less_mult) simp_all
    moreover have "0 \<le> 2 * a div 2 ^ (58 * j)" using assms(1) by (simp add: pos_imp_zdiv_nonneg_iff)
    ultimately show ?thesis by (simp add: N521_numeral)
  qed
  moreover have "div_clear v \<and> \<not> (2 ^ 522 - 2 * N521 - 2 ^ 59 < v \<and> v < 2 ^ 522 - 2 * N521 - 2 ^ 58)"
    if "0 \<le> v" "v < 2 ^ 204" for v
    using that by (simp add: div_clear_def N521_numeral)
  ultimately show ?thesis by (simp add: div_safe_def list_all_iff Let_def del: upt_rec_numeral)
qed

theorem sp_521_ecdsa_scalars_witness:
  "\<exists>u1 u2. vfy_scalars (sp_521_calc_s_9 (digs 58 9 1) (digs 58 9 1) (digs 58 9 1) (digs 58 9 0)) (digs 58 9 0) (digs 58 9 1) = Some (u1, u2) \<and>
    (val521 u1 + val521 u2) mod N521 = 1"
proof -
  let ?s = "sp_521_calc_s_9 (digs 58 9 1) (digs 58 9 1) (digs 58 9 1) (digs 58 9 0)"
  have "0 \<le> (0 :: int)" "0 \<le> P521" "0 \<le> (1 :: int)" "1 \<le> P521" by (simp_all add: P521_def)
  note f = reduced_fe521 [OF this(1,2)] reduced_fe521 [OF this(3,4)]
  have order: "1 < N521" "val521 p521_norm_order < 2 ^ 261" "0 \<le> val521 p521_norm_order"
    by (simp_all add: N521_numeral val521_def p521_norm_order_def)
  have safe: "div_safe N521 (val521 p521_norm_order)" "div_safe N521 1"
    using order by (simp_all add: div_safe_small_order)
  obtain S where S: "?s = digs 58 9 S" "0 \<le> S" "S \<le> P521" "S mod N521 = 1"
    using calc_s_9_correct [OF f(3,3,3,1)] f order safe by auto
  have v: "val521 ?s = S" using reduced_fe521 [OF S(2,3)] by (simp only: S(1))
  have cop: "coprime S N521" using S(4) by (metis coprime_iff_gcd_eq_1 gcd.commute gcd_1_int gcd_red_int)
  then have "S \<noteq> 0" using order(1) by auto
  then have Sb: "0 < S" "S < 2 ^ 522" using S(2,3) by (simp_all add: P521_def)
  have "val521 t = 1" if "sp_521_mod_inv_9 ?s p521_order = Some t" for t
  proof -
    obtain t' R where R': "sp_521_mod_inv_9 (digs 58 9 S) p521_order = Some t'" "loose t' R" "0 \<le> R" "R < N521" "N521 dvd R * S - 1"
      using mod_inv_9_inverse [OF Sb cop order_modulus] by blast
    then have R: "loose t R" "0 \<le> R" "R < N521" "N521 dvd R * S - 1" using that by (simp_all add: S(1))
    have "(R * S) mod N521 = R mod N521" using mod_mult_right_eq [of R S N521] S(4) by simp
    moreover have "(R * S) mod N521 = 1 mod N521" using R(4) by (simp only: mod_eq_dvd_iff)
    ultimately have "R = 1" using R(2,3) order(1) by simp
    then show ?thesis using R(1) by (simp add: loose_def val521_def)
  qed
  then show ?thesis
    using sp_521_ecdsa_scalars [OF f(3,3,3,1)] f order(1) safe cop unfolding v by auto
qed

end
