(* ===== verification/Sp521IsPoint.thy ===== *)
theory Sp521IsPoint
  imports Sp521Div
begin

text \<open>
  The check that a point is on the curve: it decides the curve equation on
  every point whose three reductions meet only clear partial remainders, and it
  rejects a point of the curve where one does not.
\<close>

section \<open>The decision\<close>

definition is_point_safe :: "sp_point_521 \<Rightarrow> bool" where
  "is_point_safe p \<longleftrightarrow>
     div_safe P521 (val521 (pt_y p) * val521 (pt_y p)) \<and>
     div_safe P521 (val521 (pt_x p) * val521 (pt_x p)) \<and>
     div_safe P521 (val521 (sp_521_mod_9 (sp_521_sqr_9 (pt_x p)) p521_mod) * val521 (pt_x p))"

lemma p521_b_digs: "length p521_b = 9" "digits_in 0 (2 ^ 58) p521_b" "0 < B521" "B521 < P521"
  by (simp_all add: p521_b_def B521_def P521_def)

lemma cmp_9_b:
  assumes "0 \<le> r" "r \<le> P521"
  shows "sp_521_cmp_9 (digs 58 9 r) p521_b = 0 \<longleftrightarrow> r mod P521 = B521 mod P521"
proof -
  have d: "digits_in 0 (2 ^ 58) (digs 58 9 r)"
    by (rule digs9_le) (use assms in \<open>simp_all add: P521_def\<close>)
  have "sgn (cmp_digits (58 - 1) (digs 58 9 r) p521_b) = sgn (lval 58 (digs 58 9 r) - lval 58 p521_b)"
    using cmp_digits_sgn [of "digs 58 9 r" p521_b 58] d p521_b_digs by simp
  then have "sp_521_cmp_9 (digs 58 9 r) p521_b = 0 \<longleftrightarrow> r = B521"
    by (simp add: sp_521_cmp_9_def B521_def p521_b_digs) (metis eq_iff_diff_eq_0 sgn_0_0)
  also have "\<dots> \<longleftrightarrow> r mod P521 = B521 mod P521"
    using assms p521_b_digs by (cases "r = P521") simp_all
  finally show ?thesis .
qed

lemma mod_9_rep:
  assumes "0 \<le> a" "a \<le> P521 * P521" "div_safe P521 a"
  shows "f521.rep (sp_521_mod_9 (digs 58 18 a) p521_mod) a"
proof -
  have "a < 2 ^ 1043" using assms(2) P521_sq_less(2) by simp
  from mod_9_P521 [OF assms(1) this assms(3)]
  obtain r where "0 \<le> r" "r \<le> P521" "r mod P521 = a mod P521"
    "sp_521_mod_9 (digs 58 18 a) p521_mod = digs 58 9 r" by blast
  then show ?thesis by (simp add: f521.rep_def reduced_fe521)
qed

lemma is_point_9_iff:
  assumes x: "fe521 (pt_x p)" and y: "fe521 (pt_y p)" and safe: "is_point_safe p"
  shows "sp_521_ecc_is_point_9 p = MP_OKAY \<longleftrightarrow>
    jac_on_curve P521 B521 (val521 (pt_x p)) (val521 (pt_y p)) 1"
proof -
  define X Y where "X = val521 (pt_x p)" and "Y = val521 (pt_y p)"
  define t1 where "t1 = sp_521_mod_9 (sp_521_sqr_9 (pt_y p)) p521_mod"
  define t2 where "t2 = sp_521_mod_9 (sp_521_sqr_9 (pt_x p)) p521_mod"
  define t3 where "t3 = sp_521_mod_9 (sp_521_mul_9 t2 (pt_x p)) p521_mod"
  have rx: "f521.rep (pt_x p) X" using f521.rep_self [OF x] by (simp add: X_def)
  have sq: "sp_521_sqr_9 a = digs 58 18 (val521 a * val521 a)" if "fe521 a" for a
    using that by (simp only: sqr_9_mul_9 fe521_digits mul_9_digs)
  have t1: "f521.rep t1 (Y * Y)"
    unfolding t1_def sq [OF y] Y_def
    using safe fe521_prod [OF y y] by (intro mod_9_rep) (simp_all add: is_point_safe_def)
  have t2: "f521.rep t2 (X * X)"
    unfolding t2_def sq [OF x] X_def
    using safe fe521_prod [OF x x] by (intro mod_9_rep) (simp_all add: is_point_safe_def)
  have f2: "fe521 t2" using t2 by (rule f521.rep_fe)
  have "f521.rep t3 (val521 t2 * X)"
    unfolding t3_def mul_9_digs [OF f2 x] X_def
    using safe fe521_prod [OF f2 x] by (intro mod_9_rep) (simp_all add: is_point_safe_def t2_def)
  moreover have "(val521 t2 * X) mod P521 = (X * X * X) mod P521"
    using t2 by (intro mod_mult_cong refl) (simp add: f521.rep_def)
  ultimately have t3: "f521.rep t3 (X * X * X)" by (rule f521.rep_cong)
  define s where "s = sp_521_mont_add_9 (sp_521_mont_add_9 (sp_521_mont_sub_9 t1 t3 p521_mod) (pt_x p) p521_mod)
      (pt_x p) p521_mod"
  have s: "f521.rep s (Y * Y - X * X * X + X + X)" unfolding s_def by (intro f521.rep_intros t1 t3 rx)
  obtain r where r: "0 \<le> r" "r \<le> P521" "r mod P521 = (val521 s + X) mod P521"
      "sp_521_mont_add_9 s (pt_x p) p521_mod = digs 58 9 r"
    using mont_add_9_digs [OF f521.rep_fe [OF s] x] unfolding X_def by blast
  have "r mod P521 = (Y * Y - X * X * X + X + X + X) mod P521"
    unfolding r(3) using s by (intro mod_add_cong refl) (simp add: f521.rep_def)
  moreover have "(sp_521_ecc_is_point_9 p = MP_OKAY) \<longleftrightarrow> sp_521_cmp_9 (digs 58 9 r) p521_b = 0"
    unfolding sp_521_ecc_is_point_9_def Let_def t1_def [symmetric] t2_def [symmetric] t3_def [symmetric]
      s_def [symmetric] r(4) by simp
  ultimately have "(sp_521_ecc_is_point_9 p = MP_OKAY) \<longleftrightarrow>
      P521 dvd Y * Y - X * X * X + X + X + X - B521"
    by (simp only: cmp_9_b [OF r(1,2)]) (simp only: mod_eq_dvd_iff)
  moreover have "curve_poly B521 X Y 1 = Y * Y - X * X * X + X + X + X - B521"
    by (simp add: curve_poly_affine)
  ultimately show ?thesis by (simp only: jac_on_curve_def X_def Y_def)
qed

section \<open>A rejected point of the curve\<close>

text \<open>
  The square of this point's \<open>x\<close> has the upper digits all ones; the borrow of
  loop \<open>i = 7\<close> is lost and the remainder is \<open>2\<^sup>4\<^sup>0\<^sup>6\<close> too large.
\<close>

definition is_point_bad :: sp_point_521 where
  "is_point_bad = \<lparr>
     pt_x = [0xf8a54e5ed5b88e, 0x1047e333da08c16, 0x30cd0d63b2c30bc, 0x34b9db2e9a4796f,
      0x3b23908d9f06f1d, 0x143a7bda2df07a3, 0x6434aac8e7b604, 0x490973e8190c8a,
      0x27311c28],
     pt_y = [0x464e69c4c842b1, 0x2a1f9357a11bc97, 0x38bad769013d930, 0x242c8e0ebfdc442,
      0x1beecc2f2b811a1, 0x2843e57465f3097, 0x3b0dfa4daae3bf, 0x20295a5a2147098,
      0x1078316731271e6],
     pt_z = [1, 0, 0, 0, 0, 0, 0, 0, 0],
     infinity = 0\<rparr>"

lemma bad_y2: "sp_521_mod_9 (sp_521_sqr_9 (pt_y is_point_bad)) p521_mod =
   [0x2756128fb250ea7, 0x2e8e181748a7a01, 0xdbae5b83e99c54, 0x3de8c3b5c02231c,
      0x2de0122c116f014, 0xddcd9740544e9d, 0x6c33c69a39a05c, 0x103e0dc2953d0c3,
      0x93207782e10def]"
  by code_simp

lemma bad_x2: "sp_521_mod_9 (sp_521_sqr_9 (pt_x is_point_bad)) p521_mod =
   [0x65287ce9586ec3, 0x232370d118e1d28, 0x407a0d94eb38bd, 0x381f92a64b0eb87,
      0x2f28622389ea635, 0xd9ef7725a9698c, 0xcac87e6dda9f57, 0x2db349413bb3991,
      0x1ffffffef04d1e7]"
  by code_simp

lemma bad_x3: "sp_521_mod_9 (sp_521_mul_9
   [0x65287ce9586ec3, 0x232370d118e1d28, 0x407a0d94eb38bd, 0x381f92a64b0eb87,
      0x2f28622389ea635, 0xd9ef7725a9698c, 0xcac87e6dda9f57, 0x2db349413bb3991,
      0x1ffffffef04d1e7]
   (pt_x is_point_bad)) p521_mod =
   [0x33d2ec22ae5ac9, 0x395b571b5a7d4a8, 0x15abf34cd5e996d, 0x30102d510c14568,
      0x12e2488ff61903d, 0x2ce123b0af65c39, 0x144c2dd15abd4ff, 0x6f243bd7ee2c15,
      0x146096c7cb36061]"
  by code_simp

lemma bad_cmp: "sp_521_cmp_9 (sp_521_mont_add_9 (sp_521_mont_add_9 (sp_521_mont_add_9 (sp_521_mont_sub_9
   [0x2756128fb250ea7, 0x2e8e181748a7a01, 0xdbae5b83e99c54, 0x3de8c3b5c02231c,
      0x2de0122c116f014, 0xddcd9740544e9d, 0x6c33c69a39a05c, 0x103e0dc2953d0c3,
      0x93207782e10def]
   [0x33d2ec22ae5ac9, 0x395b571b5a7d4a8, 0x15abf34cd5e996d, 0x30102d510c14568,
      0x12e2488ff61903d, 0x2ce123b0af65c39, 0x144c2dd15abd4ff, 0x6f243bd7ee2c15,
      0x146096c7cb36061] p521_mod)
   (pt_x is_point_bad) p521_mod) (pt_x is_point_bad) p521_mod) (pt_x is_point_bad) p521_mod) p521_b \<noteq> 0"
  by code_simp

lemma is_point_bad_rejected: "sp_521_ecc_is_point_9 is_point_bad = MP_VAL"
  unfolding sp_521_ecc_is_point_9_def Let_def bad_y2 bad_x2 bad_x3 using bad_cmp by simp

lemma bad_x_sq: "(31320846555329654464542803029703644129575953389032150646232626380096427351705669655230498543916757094898388534234378964117736265782144938927096969358 :: int) * 31320846555329654464542803029703644129575953389032150646232626380096427351705669655230498543916757094898388534234378964117736265782144938927096969358 = 980995428942505481825340315911866891993473643529236090799332020602738389091433217614622539198940299799433599472857495262317332720055219156126517722279389536528532038328494137793412664398929086391709037686321948220499975784829068138909295886519998906229473962945284643332983836510410200788390932164"
  by simp

lemma bad_x_cube: "(980995428942505481825340315911866891993473643529236090799332020602738389091433217614622539198940299799433599472857495262317332720055219156126517722279389536528532038328494137793412664398929086391709037686321948220499975784829068138909295886519998906229473962945284643332983836510410200788390932164 :: int) * 31320846555329654464542803029703644129575953389032150646232626380096427351705669655230498543916757094898388534234378964117736265782144938927096969358 = 30725607301388009636344804367714420048272000677129406219887083392211430643780507283146420169670401540075771070519716042016602340901377550701980325001898397147993331871773100120271170573140000095166251872949776377429467779236801397111667907650765142496353755540903025939543354212127276206724544448143407074469079930534985501861942358775736837113596665898490053818705836683805680769945782624760024166802928715421999527062351785499481310572964630712"
  by simp

lemma bad_y_sq: "(3533119105162996942053009693108971112680170755653582072373093916919707618803153375238386200000648098451402120839257600383178456774297932420283555602435162801 :: int) * 3533119105162996942053009693108971112680170755653582072373093916919707618803153375238386200000648098451402120839257600383178456774297932420283555602435162801 =
   2 ^ 521 * (- 4475821258336028493734745140346385812193720935929428874474078040208513291166091111105421502787410069323759861756889871592763558304324909560276391652738453775319457402180920502353505509214513371650722218898213584284472233061282953556928879526121973195512821314631457988366305942811011340371) - (- 4475821258336028493734745140346385812193720935929428874474078040208513291166091111105421502787410069323759861756889871592763558304324909560276391652738453775319457402180920502353505509214513371650722218898213584284472233061282953556928879526121973195512821314631457988366305942811011340371) + 30725607301388009636344804367714420048272000677129406219887083392211430643780507283146420169670401540075771070519716042016602340901377550701980325001898397147993331871773100120271170573140000095166251872949776377429467779236801397111667907650765142496353755540903025939543354212127276206724544448143407074469079930534985501861942358775736837113596665898490053818705836683805680769945782624760024166802928715421999527062351785499481310572964630712 - 3 * 31320846555329654464542803029703644129575953389032150646232626380096427351705669655230498543916757094898388534234378964117736265782144938927096969358 + 1093849038073734274511112390766805569936207598951683748994586394495953116150735016013708737573759623248592132296706313309438452531591012912142327488478985984"
  by simp

lemma is_point_bad_fe:
  "fe521 (pt_x is_point_bad)" "fe521 (pt_y is_point_bad)" "fe521 (pt_z is_point_bad)"
  "val521 (pt_x is_point_bad) = 31320846555329654464542803029703644129575953389032150646232626380096427351705669655230498543916757094898388534234378964117736265782144938927096969358"
  "val521 (pt_y is_point_bad) = 3533119105162996942053009693108971112680170755653582072373093916919707618803153375238386200000648098451402120839257600383178456774297932420283555602435162801"
  "val521 (pt_z is_point_bad) = 1"
  by (simp_all add: is_point_bad_def fe521_def val521_def P521_def)

lemma is_point_bad_valid: "valid521 is_point_bad"
proof -
  define X Y Q X3 :: int where "X = 31320846555329654464542803029703644129575953389032150646232626380096427351705669655230498543916757094898388534234378964117736265782144938927096969358"
    and "Y = 3533119105162996942053009693108971112680170755653582072373093916919707618803153375238386200000648098451402120839257600383178456774297932420283555602435162801" and "Q = (- 4475821258336028493734745140346385812193720935929428874474078040208513291166091111105421502787410069323759861756889871592763558304324909560276391652738453775319457402180920502353505509214513371650722218898213584284472233061282953556928879526121973195512821314631457988366305942811011340371)" and "X3 = 30725607301388009636344804367714420048272000677129406219887083392211430643780507283146420169670401540075771070519716042016602340901377550701980325001898397147993331871773100120271170573140000095166251872949776377429467779236801397111667907650765142496353755540903025939543354212127276206724544448143407074469079930534985501861942358775736837113596665898490053818705836683805680769945782624760024166802928715421999527062351785499481310572964630712"
  have B: "B521 = 1093849038073734274511112390766805569936207598951683748994586394495953116150735016013708737573759623248592132296706313309438452531591012912142327488478985984" by (simp add: B521_def p521_b_def)
  have x3: "X * X * X = X3" unfolding X_def X3_def bad_x_sq by (rule bad_x_cube)
  have y2: "Y * Y = 2 ^ 521 * Q - Q + X3 - 3 * X + B521"
    unfolding Y_def Q_def X3_def X_def B by (rule bad_y_sq)
  have "curve_poly B521 X Y 1 = Y * Y - X * X * X + 3 * X - B521" by (rule curve_poly_affine)
  also have "\<dots> = (2 ^ 521 - 1) * Q" by (simp only: x3 y2 left_diff_distrib)
  finally have "curve_poly B521 X Y 1 = P521 * Q" by (simp only: P521_def)
  then have "jac_on_curve P521 B521 X Y 1" by (simp only: jac_on_curve_def dvd_triv_left)
  then show ?thesis
    by (simp only: valid521_def is_point_bad_fe X_def [symmetric] Y_def [symmetric] simp_thms)
qed

section \<open>Properties\<close>

text \<open>Reduction by trial division is correct on every number whose partial remainders are
  clear (their lowest 464 bits are not within \<open>2^59\<close> of \<open>2^464\<close>): for 18 normalised digits of
  \<open>a\<close> it returns nine normalised digits of a number between 0 and the prime that is \<open>a\<close> modulo the
  prime.\<close>

lemma sp_521_mod_9_correct:
  assumes "0 \<le> a" "a < 2 ^ 1043" "div_safe P521 a"
  shows "\<exists>r. 0 \<le> r \<and> r \<le> P521 \<and> r mod P521 = a mod P521 \<and>
    sp_521_mod_9 (digs 58 18 a) p521_mod = digs 58 9 r"
  by (rule mod_9_P521 [OF assms])

lemma div_safe_small: "0 \<le> a \<Longrightarrow> a < 2 ^ 57 \<Longrightarrow> div_safe P521 a"
proof -
  assume a: "0 \<le> a" "a < 2 ^ 57"
  have "2 * a div 2 ^ (58 * j) = 0" if "1 \<le> j" for j
  proof -
    have "(2 :: int) ^ 58 \<le> 2 ^ (58 * j)" using that by (intro power_increasing) simp_all
    then have "2 * a < 2 ^ (58 * j)" using a by simp
    with a show ?thesis by simp
  qed
  then show ?thesis by (auto simp: div_safe_def list_all_iff div_clear_def P521_def simp del: upt_rec_numeral)
qed

text \<open>C17: On a point with well-formed coordinates whose three reductions are of the kind above,
  \<open>sp_521_ecc_is_point_9\<close> returns \<open>MP_OKAY\<close> exactly when the coordinates satisfy the curve
  equation.\<close>

theorem sp_521_ecc_is_point_9_decides:
  assumes "fe521 (pt_x p)" "fe521 (pt_y p)" "is_point_safe p"
  shows "sp_521_ecc_is_point_9 p = MP_OKAY \<longleftrightarrow>
    jac_on_curve P521 B521 (val521 (pt_x p)) (val521 (pt_y p)) 1"
  by (rule is_point_9_iff [OF assms])

theorem sp_521_ecc_is_point_9_decides_witness:
  "sp_521_ecc_is_point_9 (small_pt 0 5 1) = MP_OKAY \<longleftrightarrow> jac_on_curve P521 B521 0 5 1"
proof -
  have r: "f521.rep (0 # replicate 8 0) 0" "f521.rep (5 # replicate 8 0) 5"
    by (rule small_rep; simp)+
  have v: "val521 (0 # replicate 8 0) = 0" "val521 (5 # replicate 8 0) = 5" by (simp_all add: val521_def)
  have "is_point_safe (small_pt 0 5 1)"
    by (simp add: is_point_safe_def small_pt_def v div_safe_small)
  with sp_521_ecc_is_point_9_decides [of "small_pt 0 5 1"] r [THEN f521.rep_fe] v show ?thesis
    by (simp add: small_pt_def)
qed

text \<open>C16: The condition on the reductions is needed.  A point of the curve with fully reduced
  coordinates is rejected by \<open>sp_521_ecc_is_point_9\<close>: the correction after the division loop covers the
  borrow of the last iteration only.\<close>

theorem sp_521_ecc_is_point_9_rejects_curve_point:
  "valid521 is_point_bad \<and> val521 (pt_z is_point_bad) = 1 \<and>
   val521 (pt_x is_point_bad) < P521 \<and> val521 (pt_y is_point_bad) < P521 \<and>
   sp_521_ecc_is_point_9 is_point_bad = MP_VAL"
proof -
  have "val521 (pt_x is_point_bad) < P521 \<and> val521 (pt_y is_point_bad) < P521"
    by (simp only: is_point_bad_fe) (simp add: P521_def)
  then show ?thesis using is_point_bad_valid is_point_bad_rejected is_point_bad_fe(6) by blast
qed

end
