(* ===== verification/Sp521Uncompress.thy ===== *)
theory Sp521Uncompress
  imports Sp521Ecdsa Sp521IsPoint Sp521Scalar
begin

text \<open>
  Point decompression on P-521 (\<^verbatim>\<open>HAVE_COMP_KEY\<close>, set by \<^verbatim>\<open>user_settings.h\<close>): the square root modulo the prime
  by one exponentiation and \<^verbatim>\<open>sp_ecc_uncompress_521\<close>, which computes the \<open>y\<close> of the requested parity.
\<close>

section \<open>Definitions\<close>

definition p521_sqrt_power :: "int list" where
  "p521_sqrt_power = [0, 0, 0, 0, 0, 0, 0, 0, 0x80]"

definition sp_521_mont_sqrt_9 :: "int list \<Rightarrow> int list" where
  "sp_521_mont_sqrt_9 y =
    fold (\<lambda>i t. let t = sp_521_mont_sqr_9 t p521_mod p521_mp_mod
                in if (p521_sqrt_power ! (i div 64)) AND 2 ^ (i mod 64) \<noteq> 0 then sp_521_mont_mul_9 t y p521_mod p521_mp_mod else t)
      (rev [0..<519]) (take 9 y)"

text \<open>\<open>junk\<close> is the contents of the array \<^verbatim>\<open>x\<close> before it is written.\<close>

definition sp_ecc_uncompress_521 :: "mp_lib \<Rightarrow> int list \<Rightarrow> mp_int \<Rightarrow> int \<Rightarrow> mp_int \<Rightarrow> int \<times> mp_int" where
  "sp_ecc_uncompress_521 lib junk xm odd_y ym =
    (let x = sp_521_from_mp junk 9 xm;
         x = sp_521_mod_mul_norm_9 x;
         y = sp_521_mont_sqr_9 x p521_mod p521_mp_mod;
         y = sp_521_mont_mul_9 y x p521_mod p521_mp_mod;
         y = sp_521_mont_sub_9 y x p521_mod;
         y = sp_521_mont_sub_9 y x p521_mod;
         y = sp_521_mont_sub_9 y x p521_mod;
         x = sp_521_mod_mul_norm_9 p521_b;
         y = sp_521_mont_add_9 y x p521_mod;
         y = sp_521_mont_sqrt_9 y;
         y = sp_521_mont_reduce_9 (take 9 y @ replicate 9 0) p521_mod p521_mp_mod;
         y = (if ((y ! 0) mod 2 ^ 32 XOR odd_y mod 2 ^ 32) AND 1 \<noteq> 0 then sp_521_mont_sub_9 p521_mod y p521_mod else y)
     in sp_521_to_mp lib y ym)"

section \<open>The square root\<close>

lemma sqrt_power_words: "p521_sqrt_power = replicate 8 0 @ [0x80]"
  by (simp add: p521_sqrt_power_def numeral_eq_Suc)

lemma sqrt_power_bit: "i < 519 \<Longrightarrow> (p521_sqrt_power ! (i div 64)) AND 2 ^ (i mod 64) = 0"
proof (cases "i < 512")
  case True
  then have "i div 64 < 8" by simp
  then have "p521_sqrt_power ! (i div 64) = 0" by (simp add: sqrt_power_words nth_append)
  then show ?thesis by simp
next
  case False
  assume "i < 519"
  with False have "i \<in> {512, 513, 514, 515, 516, 517, 518}" by auto
  then show ?thesis by (auto simp: p521_sqrt_power_def)
qed

lemma fold_iterates: "fold (\<lambda>i. f) xs t = (f ^^ length xs) t"
  by (induction xs arbitrary: t) (simp_all add: funpow_swap1)

lemma mont_sqrt_9_rep:
  assumes "f521.rep y f"
  shows "f521.rep (sp_521_mont_sqrt_9 y) (f ^ 2 ^ 519)"
proof -
  have "fold (\<lambda>i t. let t = sp_521_mont_sqr_9 t p521_mod p521_mp_mod
      in if (p521_sqrt_power ! (i div 64)) AND 2 ^ (i mod 64) \<noteq> 0 then sp_521_mont_mul_9 t y p521_mod p521_mp_mod else t)
      (rev [0..<519]) (take 9 y) = fold (\<lambda>i t. sp_521_mont_sqr_9 t p521_mod p521_mp_mod) (rev [0..<519]) (take 9 y)"
    by (rule fold_cong) (auto simp: sqrt_power_bit simp del: upt_rec_numeral)
  also have "\<dots> = ((\<lambda>t. sp_521_mont_sqr_9 t p521_mod p521_mp_mod) ^^ 519) (take 9 y)"
    by (simp add: fold_iterates del: upt_rec_numeral)
  finally show ?thesis
    unfolding sp_521_mont_sqrt_9_def using f521.rep_sqr_funpow [OF rep_take9 [OF assms], of 519] by (simp only:)
qed

text \<open>Raising a square to the power \<open>2\<^sup>5\<^sup>1\<^sup>9\<close>, a quarter of the prime plus one, gives a root of it, by Fermat's theorem for
  a root \<open>t\<close>.\<close>

lemma sqrt_fermat:
  assumes "P521 dvd t ^ 2 - f" "t ^ (2 ^ 521 - 1) mod P521 = t mod P521"
  shows "((f ^ 2 ^ 519) ^ 2) mod P521 = f mod P521"
proof -
  have f: "f mod P521 = t ^ 2 mod P521" using assms(1) by (simp add: mod_eq_dvd_iff dvd_diff_commute)
  have "2 * 2 ^ 519 * 2 = Suc ((2 :: nat) ^ 521 - 1)" by simp
  then have e: "((t ^ 2) ^ 2 ^ 519) ^ 2 = t ^ (2 ^ 521 - 1) * t" by (simp only: power_mult [symmetric] power_Suc2)
  have "((f ^ 2 ^ 519) ^ 2) mod P521 = (((t ^ 2) ^ 2 ^ 519) ^ 2) mod P521" by (metis f power_mod)
  also have "\<dots> = (t * t) mod P521" unfolding e by (rule mod_mult_cong [OF assms(2) refl])
  also have "\<dots> = f mod P521" by (simp add: f power2_eq_square)
  finally show ?thesis .
qed

lemma square_sign: "y mod p = e mod p \<or> y mod p = (- e) mod p \<Longrightarrow> y ^ 2 mod p = e ^ 2 mod p" for e p y :: int
  by (metis power_mod power2_minus)

section \<open>Decompression\<close>

lemma parity_bit: "(a mod 2 ^ 32 XOR b mod 2 ^ 32) AND 1 \<noteq> 0 \<longleftrightarrow> a mod 2 \<noteq> b mod (2 :: int)"
proof -
  have "(a mod 2 ^ 32 XOR b mod 2 ^ 32) AND 1 = (a mod 2 ^ 32 mod 2 + b mod 2 ^ 32 mod 2) mod 2"
    by (simp add: and_one_eq even_xor_iff mod2_eq_if)
  also have "\<dots> = (a mod 2 + b mod 2) mod 2" by (simp add: mod_mod_cancel)
  finally show ?thesis by presburger
qed

lemma uncompress_y:
  assumes "0 \<le> mp_val xm" "mp_val xm < P521" "length junk = 9"
  defines "f \<equiv> mp_val xm ^ 3 - 3 * mp_val xm + B521"
  shows "\<exists>Y. sp_ecc_uncompress_521 lib junk xm odd_y ym = sp_521_to_mp lib (digs 58 9 Y) ym \<and> 0 \<le> Y \<and> Y \<le> P521 \<and>
    Y mod 2 = odd_y mod 2 \<and> (Y mod P521 = (f ^ 2 ^ 519) mod P521 \<or> Y mod P521 = (- (f ^ 2 ^ 519)) mod P521)"
proof -
  define X where "X = mp_val xm"
  define x where "x = digs 58 9 X"
  have X: "0 \<le> X" "X \<le> P521" using assms(1,2) by (simp_all add: X_def)
  have "sp_521_from_mp junk 9 xm = x"
    using from_mp_digs [OF assms(3), of xm] X by (simp add: x_def X_def P521_def)
  then have fx: "sp_521_mod_mul_norm_9 (sp_521_from_mp junk 9 xm) = x" by (simp add: sp_521_mod_mul_norm_9_def x_def)
  have fb: "sp_521_mod_mul_norm_9 p521_b = p521_b" by (simp add: sp_521_mod_mul_norm_9_def p521_b_digs)
  have rx: "f521.rep x X" using f521.rep_self [OF reduced_fe521(1) [OF X]] reduced_fe521(2) [OF X] by (simp add: x_def)
  have rb: "f521.rep p521_b B521"
    using f521.rep_self [OF fe521_consts(3)] by (simp add: val521_def B521_def p521_b_digs)
  define y where "y = sp_521_mont_add_9 (sp_521_mont_sub_9 (sp_521_mont_sub_9 (sp_521_mont_sub_9
     (sp_521_mont_mul_9 (sp_521_mont_sqr_9 x p521_mod p521_mp_mod) x p521_mod p521_mp_mod) x p521_mod) x p521_mod) x p521_mod) p521_b p521_mod"
  have "f521.rep y (X * X * X - X - X - X + B521)" unfolding y_def by (intro f521.rep_intros rx rb)
  moreover have "X * X * X - X - X - X + B521 = f" by (simp add: f_def X_def power3_eq_cube)
  ultimately have "f521.rep y f" by simp
  then have s: "f521.rep (sp_521_mont_sqrt_9 y) (f ^ 2 ^ 519)" by (rule mont_sqrt_9_rep)
  define v where "v = val521 (sp_521_mont_sqrt_9 y)"
  have fe: "fe521 (sp_521_mont_sqrt_9 y)" by (rule f521.rep_fe [OF s])
  have v: "0 \<le> v" "v \<le> P521" "v mod P521 = (f ^ 2 ^ 519) mod P521"
    using fe521_digits [OF fe] s by (simp_all add: v_def f521.rep_def)
  define z where "z = digs 58 9 v @ replicate 9 0"
  have red: "sp_521_mont_reduce_9 (take 9 (sp_521_mont_sqrt_9 y) @ replicate 9 0) p521_mod p521_mp_mod = z"
    unfolding z_def v_def by (rule mont_reduce_9_small [OF fe])
  have z: "fe521 z" "val521 z = v" "take 9 z = digs 58 9 v"
    using reduced_fe521 [OF v(1,2)] by (simp_all add: z_def fe521_def val521_def)
  then have z0: "z ! 0 mod 2 = v mod 2" using odd_lval [of z] fe521_digits(1) [OF z(1)] by simp
  have e: "sp_ecc_uncompress_521 lib junk xm odd_y ym = sp_521_to_mp lib
      (if z ! 0 mod 2 \<noteq> odd_y mod 2 then sp_521_mont_sub_9 p521_mod z p521_mod else z) ym"
    unfolding sp_ecc_uncompress_521_def Let_def fx fb y_def [symmetric] red parity_bit ..
  have tm: "sp_521_to_mp lib z ym = sp_521_to_mp lib (digs 58 9 v) ym" unfolding sp_521_to_mp_def z(3) by (simp only: take_all length_digs order_refl)
  have pv: "val521 p521_mod = P521" by (simp add: val521_def p521_mod_digs)
  show ?thesis
  proof (cases "v mod 2 = odd_y mod 2")
    case True
    then show ?thesis using e tm v z0 by (intro exI [of _ v]) (simp only: simp_thms if_False)
  next
    case False
    have b: "0 \<le> P521 - v" "P521 - v \<le> P521" using v(1,2) by simp_all
    have "sp_521_mont_sub_9 p521_mod z p521_mod = digs 58 9 (P521 - v)"
      using mont_sub_9_digs(1) [OF fe521_consts(1) z(1)] v(2) by (simp add: pv z(2))
    moreover have "(P521 - v) mod 2 = odd_y mod 2" using False by (simp add: P521_def) presburger
    moreover have "(P521 - v) mod P521 = (- (f ^ 2 ^ 519)) mod P521"
      unfolding minus_mod_self1 by (metis mod_minus_eq v(3))
    ultimately show ?thesis using e b False z0 by (intro exI [of _ "P521 - v"]) (simp only: simp_thms if_True)
  qed
qed

section \<open>Properties\<close>

text \<open>C10: Decompression returns the requested point.  For an \<open>x\<close> below the prime the call succeeds whenever the
  result can be grown, and the \<open>y\<close> it stores is between 0 and the prime and has the requested parity; when
  \<open>x\<^sup>3 - 3x + b\<close> has a square root \<open>t\<close> modulo the prime (for which Fermat's theorem holds, as it does for a prime
  modulus), \<open>(x, y)\<close> is a point of the curve.  A failure to grow the result is returned.
  \<^verbatim>\<open>mp_grow\<close> is assumed to make the room asked for when it succeeds and \<^verbatim>\<open>mp_clamp\<close> to keep the value.\<close>

theorem sp_ecc_uncompress_521_correct:
  assumes "0 \<le> mp_val xm" "mp_val xm < P521" "length junk = 9"
    and "\<And>m k m1. mp_grow lib m k = (0, m1) \<Longrightarrow> k \<le> length (dp m1)"
    and "\<And>m. mp_val (mp_clamp lib m) = mp_val m"
  shows "case mp_grow lib ym 9 of (err, m1) \<Rightarrow>
    if err = 0 then \<exists>m. sp_ecc_uncompress_521 lib junk xm odd_y ym = (0, m) \<and> 0 \<le> mp_val m \<and> mp_val m \<le> P521 \<and>
       mp_val m mod 2 = odd_y mod 2 \<and>
       (\<forall>t. P521 dvd t ^ 2 - (mp_val xm ^ 3 - 3 * mp_val xm + B521) \<and> t ^ (2 ^ 521 - 1) mod P521 = t mod P521 \<longrightarrow>
         jac_on_curve P521 B521 (mp_val xm) (mp_val m) 1)
    else sp_ecc_uncompress_521 lib junk xm odd_y ym = (err, m1)"
proof -
  let ?f = "mp_val xm ^ 3 - 3 * mp_val xm + B521"
  obtain Y where Y: "sp_ecc_uncompress_521 lib junk xm odd_y ym = sp_521_to_mp lib (digs 58 9 Y) ym" "0 \<le> Y" "Y \<le> P521"
    "Y mod 2 = odd_y mod 2" "Y mod P521 = (?f ^ 2 ^ 519) mod P521 \<or> Y mod P521 = (- (?f ^ 2 ^ 519)) mod P521"
    using uncompress_y [OF assms(1-3)] by blast
  obtain err m1 where g: "mp_grow lib ym 9 = (err, m1)" by fastforce
  have curve: "jac_on_curve P521 B521 (mp_val xm) Y 1"
    if t: "P521 dvd t ^ 2 - ?f" "t ^ (2 ^ 521 - 1) mod P521 = t mod P521" for t
  proof -
    have "Y ^ 2 mod P521 = (?f ^ 2 ^ 519) ^ 2 mod P521" by (rule square_sign [OF Y(5)])
    then have "Y ^ 2 mod P521 = ?f mod P521" by (simp only: sqrt_fermat [OF t])
    then have "P521 dvd Y ^ 2 - ?f" by (simp only: mod_eq_dvd_iff)
    moreover have "curve_poly B521 (mp_val xm) Y 1 = Y ^ 2 - ?f" by (simp add: curve_poly_def)
    ultimately show ?thesis by (simp only: jac_on_curve_def)
  qed
  have "Y < 2 ^ 522" using Y(3) by (simp add: P521_def)
  note d = digs9_le [OF Y(2) this]
  have okay: "\<exists>m. sp_521_to_mp lib (digs 58 9 Y) ym = (0, m) \<and> mp_val m = Y" if "err = 0"
  proof -
    have g0: "mp_grow lib ym 9 = (0, m1)" using g that by simp
    show ?thesis using to_mp_correct [OF length_digs d g0 assms(4) [OF g0] assms(5)] by (simp only: lval_digs zero_less_numeral)
  qed
  have fail: "sp_521_to_mp lib (digs 58 9 Y) ym = (err, m1)" if "err \<noteq> 0" using g that by (simp add: sp_521_to_mp_def)
  show ?thesis
  proof (cases "err = 0")
    case True
    from okay [OF this] obtain m where m: "sp_521_to_mp lib (digs 58 9 Y) ym = (0, m)" "mp_val m = Y" by blast
    show ?thesis
      unfolding g prod.case Y(1) if_P [OF True] by (rule exI [of _ m], unfold m, intro conjI allI impI refl Y(2-4)) (erule conjE, rule curve)
  next
    case False
    from fail [OF this] show ?thesis unfolding g prod.case Y(1) if_not_P [OF False] .
  qed
qed

text \<open>An \<open>x\<close> whose curve value is the square 1.\<close>

definition one_x :: mp_int where
  "one_x = \<lparr>used = 9, dp = [0xe71fb7cddd7b5018, 0xa8f5634d824875b6, 0xcd0b48b326e3a8a2, 0xff10994f616a9d80, 0x8a42714ba05bcdf4, 0x33e755ce66bb1a91, 0xedb340f3ea61ddf8, 0xcb7a32dab342f863, 0xd9]\<rparr>"

lemma one_x_val: "mp_val one_x = 0xd9cb7a32dab342f863edb340f3ea61ddf833e755ce66bb1a918a42714ba05bcdf4ff10994f616a9d80cd0b48b326e3a8a2a8f5634d824875b6e71fb7cddd7b5018"
  by (simp add: mp_val_def one_x_def)

lemma one_x_square: "P521 dvd 1 ^ 2 - (mp_val one_x ^ 3 - 3 * mp_val one_x + B521)"
proof -
  define x q1 q2 r1 r2 :: int where
    "x = 0xd9cb7a32dab342f863edb340f3ea61ddf833e755ce66bb1a918a42714ba05bcdf4ff10994f616a9d80cd0b48b326e3a8a2a8f5634d824875b6e71fb7cddd7b5018" and
    "q1 = 0x5ca54b729edfa1312a04145ce0a5dadbe8f01a985f74021e920ec3bfd8123d33e045d51e8efab5994815b5f41c6826ec0b84b83e6bd5fbf49491b858b7790b6713" and
    "q2 = 0x82f5ecccc4ae698372ab4d918f32130ac5682a0410a2be483902c09b13cc166663b4a5c3600fa793a431c822ac6a7103429d28017fefaeceba63dc14cc4e5ce182" and
    "r1 = 0x133ddf62188fac1801f9d9944e6d6f4005db9bc78ec1d5b695abeb14dcd6064c48be62388b0c95a59b4c5dfa42f7fa0472bd74c965e738fed500b2712d6f92a6953" and
    "r2 = 0x3bcd2fdf2e8bac4f0c367fa13b08a058f9f8db8f0f9a7e39c0e612ca5152225ffda718929c37c1450750cf195c38f93ae0c56c4a6049ad2c32c61a07952d21b14a"
  have pq: "P521 * q = 2 ^ 521 * q - q" for q by (simp add: P521_def left_diff_distrib)
  have 1: "x * x = P521 * q1 + r1" unfolding pq x_def q1_def r1_def by (simp only: arith_simps power_numeral pow.simps sqr.simps)
  have 2: "r1 * x = P521 * q2 + r2" unfolding pq x_def q2_def r1_def r2_def by (simp only: arith_simps power_numeral pow.simps sqr.simps)
  have 3: "1 - r2 + 3 * x - B521 = P521 * (1)" unfolding x_def r2_def by (simp add: P521_def B521_def p521_b_def)
  have "1 ^ 2 - (x ^ 3 - 3 * x + B521) = 1 - x * x * x + 3 * x - B521" by (simp add: power3_eq_cube)
  also have "\<dots> = (1 - r2 + 3 * x - B521) - P521 * q1 * x - P521 * q2" unfolding 1 distrib_right 2 by (simp only: algebra_simps)
  also have "\<dots> = P521 * (1 - q1 * x - q2)" unfolding 3 by (simp only: algebra_simps)
  finally show ?thesis by (simp only: one_x_val x_def [symmetric] dvd_triv_left)
qed

theorem sp_ecc_uncompress_521_correct_witness:
  "\<exists>m. sp_ecc_uncompress_521 toy_mp (replicate 9 0) one_x 1 \<lparr>used = 0, dp = []\<rparr> = (0, m) \<and> mp_val m mod 2 = 1 \<and>
    jac_on_curve P521 B521 (mp_val one_x) (mp_val m) 1"
proof -
  have x: "0 \<le> mp_val one_x" "mp_val one_x < P521" by (simp_all add: one_x_val P521_def)
  have grow: "k \<le> length (dp m1)" if "mp_grow toy_mp m k = (0, m1)" for m k m1
    using that by (auto simp: toy_mp_def)
  have g: "mp_grow toy_mp \<lparr>used = 0, dp = []\<rparr> 9 = (0, \<lparr>used = 0, dp = replicate 9 0\<rparr>)" by (simp add: toy_mp_def)
  have l: "length (replicate 9 (0 :: int)) = 9" by simp
  have t: "(1 :: int) ^ (2 ^ 521 - 1) mod P521 = 1 mod P521" by (simp only: power_one)
  have odd: "(1 :: int) mod 2 = 1" by simp
  note c = sp_ecc_uncompress_521_correct [OF x l _ toy_mp_clamp, where ym = "\<lparr>used = 0, dp = []\<rparr>" and odd_y = 1, unfolded g prod.case if_P [OF refl] odd]
  show ?thesis
  proof (rule exE [OF c])
    show "k \<le> length (dp m1)" if "mp_grow toy_mp m k = (0, m1)" for m k m1 using that by (rule grow)
  qed (use one_x_square t in blast)
qed

end
