(* ===== verification/Sp521Ecc.thy ===== *)
theory Sp521Ecc
  imports Sp521Table Sp521Uncompress
begin

text \<open>
  The public entry points on P-521 of \<^verbatim>\<open>wolfssl-src/patches/sp_c64.c\<close> that wrap one point operation: scalar
  multiplication, key generation, shared secret, point and key checks, and the projective operations
  on \<^verbatim>\<open>mp_int\<close> coordinates. \<^verbatim>\<open>user_settings.h\<close> sets \<^verbatim>\<open>WOLFSSL_VALIDATE_ECC_KEYGEN\<close>.
\<close>

section \<open>Definitions\<close>

record ecc_point =
  ep_x :: mp_int
  ep_y :: mp_int
  ep_z :: mp_int

definition lib_ret :: "int \<Rightarrow> sp_ret" where
  "lib_ret err = (if err = 0 then MP_OKAY else LIB_E err)"

definition sp_521_point_from_ecc_point_9 :: "ecc_point \<Rightarrow> sp_point_521" where
  "sp_521_point_from_ecc_point_9 pm =
    \<lparr>pt_x = sp_521_from_mp (replicate 9 0) 9 (ep_x pm), pt_y = sp_521_from_mp (replicate 9 0) 9 (ep_y pm),
     pt_z = sp_521_from_mp (replicate 9 0) 9 (ep_z pm), infinity = 0\<rparr>"

definition sp_521_point_to_ecc_point_9 :: "mp_lib \<Rightarrow> sp_point_521 \<Rightarrow> ecc_point \<Rightarrow> int \<times> ecc_point" where
  "sp_521_point_to_ecc_point_9 lib p pm =
    (case sp_521_to_mp lib (pt_x p) (ep_x pm) of (err, x) \<Rightarrow>
       let pm = pm\<lparr>ep_x := x\<rparr> in
       if err \<noteq> 0 then (err, pm)
       else case sp_521_to_mp lib (pt_y p) (ep_y pm) of (err, y) \<Rightarrow>
         let pm = pm\<lparr>ep_y := y\<rparr> in
         if err \<noteq> 0 then (err, pm)
         else case sp_521_to_mp lib (pt_z p) (ep_z pm) of (err, z) \<Rightarrow> (err, pm\<lparr>ep_z := z\<rparr>))"

text \<open>In a build without \<^verbatim>\<open>FP_ECC\<close>; \<open>jp\<close> and \<open>jd\<close> are the contents of local points and digit arrays
  before they are written.\<close>

definition sp_521_ecc_mulmod_9 ::
    "sp_point_521 \<Rightarrow> sp_point_521 \<Rightarrow> sp_point_521 \<Rightarrow> int list \<Rightarrow> bool \<Rightarrow> bool \<Rightarrow> sp_point_521" where
  "sp_521_ecc_mulmod_9 jp r g k to_affine ct = sp_521_ecc_mulmod_win_add_sub_9 jp r g k to_affine ct"

definition sp_ecc_mulmod_521 ::
    "mp_lib \<Rightarrow> int list \<Rightarrow> sp_point_521 \<Rightarrow> mp_int \<Rightarrow> ecc_point \<Rightarrow> ecc_point \<Rightarrow> bool \<Rightarrow> int \<times> ecc_point" where
  "sp_ecc_mulmod_521 lib jd jp km gm r to_affine =
    (let k = sp_521_from_mp jd 9 km;
         point = sp_521_point_from_ecc_point_9 gm;
         point = sp_521_ecc_mulmod_9 jp point point k to_affine True
     in sp_521_point_to_ecc_point_9 lib point r)"

definition add_operand :: "bool \<Rightarrow> ecc_point \<Rightarrow> sp_point_521" where
  "add_operand inMont am =
    (let addP = sp_521_point_from_ecc_point_9 am
     in if inMont then addP
        else addP\<lparr>pt_x := sp_521_mod_mul_norm_9 (pt_x addP), pt_y := sp_521_mod_mul_norm_9 (pt_y addP),
               pt_z := sp_521_mod_mul_norm_9 (pt_z addP)\<rparr>)"

definition sp_ecc_mulmod_add_521 ::
    "mp_lib \<Rightarrow> int list \<Rightarrow> sp_point_521 \<Rightarrow> mp_int \<Rightarrow> ecc_point \<Rightarrow> ecc_point \<Rightarrow> bool \<Rightarrow> ecc_point \<Rightarrow> bool \<Rightarrow> int \<times> ecc_point" where
  "sp_ecc_mulmod_add_521 lib jd jp km gm am inMont r to_affine =
    (let k = sp_521_from_mp jd 9 km;
         point = sp_521_point_from_ecc_point_9 gm;
         addP = add_operand inMont am;
         point = sp_521_ecc_mulmod_9 jp point point k False False;
         point = sp_521_proj_point_add_9 point addP;
         point = (if to_affine then sp_521_map_9 point point else point)
     in sp_521_point_to_ecc_point_9 lib point r)"

definition sp_ecc_mulmod_base_521 ::
    "mp_lib \<Rightarrow> int list \<Rightarrow> sp_point_521 \<Rightarrow> mp_int \<Rightarrow> ecc_point \<Rightarrow> bool \<Rightarrow> int \<times> ecc_point" where
  "sp_ecc_mulmod_base_521 lib jd jp km r to_affine =
    (let k = sp_521_from_mp jd 9 km;
         point = sp_521_ecc_mulmod_base_9 jp jp k to_affine True
     in sp_521_point_to_ecc_point_9 lib point r)"

definition sp_ecc_mulmod_base_add_521 ::
    "mp_lib \<Rightarrow> int list \<Rightarrow> sp_point_521 \<Rightarrow> mp_int \<Rightarrow> ecc_point \<Rightarrow> bool \<Rightarrow> ecc_point \<Rightarrow> bool \<Rightarrow> int \<times> ecc_point" where
  "sp_ecc_mulmod_base_add_521 lib jd jp km am inMont r to_affine =
    (let k = sp_521_from_mp jd 9 km;
         addP = add_operand inMont am;
         point = sp_521_ecc_mulmod_base_9 jp jp k False False;
         point = sp_521_proj_point_add_9 point addP;
         point = (if to_affine then sp_521_map_9 point point else point)
     in sp_521_point_to_ecc_point_9 lib point r)"

subsection \<open>Keys\<close>

definition sp_ecc_make_key_521 ::
    "mp_lib \<Rightarrow> int list \<Rightarrow> sp_point_521 \<Rightarrow> ('r \<Rightarrow> int \<times> byte list \<times> 'r) \<Rightarrow> 'r \<Rightarrow> mp_int \<Rightarrow> ecc_point \<Rightarrow>
     (sp_ret \<times> mp_int \<times> ecc_point \<times> 'r) option" where
  "sp_ecc_make_key_521 lib jd jp gen rng priv pub =
    (case sp_521_ecc_gen_k_9 gen jd rng of
       None \<Rightarrow> None
     | Some (err, k, rng) \<Rightarrow>
         if err \<noteq> 0 then Some (LIB_E err, priv, pub, rng)
         else
           (let point = sp_521_ecc_mulmod_base_9 jp jp k True True;
                inf = sp_521_ecc_mulmod_9 jp jp point p521_order True True
            in if sp_521_iszero_9 (pt_x point) \<noteq> 0 \<or> sp_521_iszero_9 (pt_y point) \<noteq> 0
               then Some (ECC_INF_E, priv, pub, rng)
               else case sp_521_to_mp lib k priv of (err, priv) \<Rightarrow>
                 if err \<noteq> 0 then Some (LIB_E err, priv, pub, rng)
                 else case sp_521_point_to_ecc_point_9 lib point pub of (err, pub) \<Rightarrow>
                   Some (lib_ret err, priv, pub, rng)))"

text \<open>The buffer \<open>out\<close> is the memory the caller owns; \<open>None\<close> is a write outside of it. The first byte \<^verbatim>\<open>sp_521_to_bin_9\<close> writes is
  \<^verbatim>\<open>a[528 / 8 - 1]\<close>, all others have smaller indices: the first write decides whether all are inside.\<close>

definition byte_store :: "byte list \<Rightarrow> nat \<Rightarrow> byte \<Rightarrow> byte list option" where
  "byte_store a i v = (if i < length a then Some (a[i := v]) else None)"

definition sp_ecc_secret_gen_521 ::
    "int list \<Rightarrow> sp_point_521 \<Rightarrow> mp_int \<Rightarrow> ecc_point \<Rightarrow> byte list \<Rightarrow> nat \<Rightarrow> (sp_ret \<times> byte list \<times> nat) option" where
  "sp_ecc_secret_gen_521 jd jp priv pub out outLen =
    (if outLen < 65 then Some (BUFFER_E, out, outLen)
     else
       (let k = sp_521_from_mp jd 9 priv;
            point = sp_521_point_from_ecc_point_9 pub;
            point = sp_521_ecc_mulmod_9 jp point point k True True
        in case byte_store out (528 div 8 - 1) 0 of
             None \<Rightarrow> None
           | Some out \<Rightarrow> Some (MP_OKAY, snd (sp_521_to_bin_9 (pt_x point) (take 66 out)) @ drop 66 out, 66)))"

definition affine_point :: "int list \<Rightarrow> sp_point_521 \<Rightarrow> mp_int \<Rightarrow> mp_int \<Rightarrow> sp_point_521" where
  "affine_point jd jp pX pY = jp\<lparr>pt_x := sp_521_from_mp jd 9 pX, pt_y := sp_521_from_mp jd 9 pY, pt_z := sp_521_from_bin jd 9 [1] 1\<rparr>"

definition sp_ecc_is_point_521 :: "int list \<Rightarrow> sp_point_521 \<Rightarrow> mp_int \<Rightarrow> mp_int \<Rightarrow> sp_ret" where
  "sp_ecc_is_point_521 jd jp pX pY = sp_521_ecc_is_point_9 (affine_point jd jp pX pY)"

text \<open>\<open>count_bits\<close> is \<^verbatim>\<open>mp_count_bits\<close> of wolfSSL; \<open>privm = None\<close> is a null pointer.\<close>

definition sp_ecc_check_key_521 ::
    "(mp_int \<Rightarrow> int) \<Rightarrow> int list \<Rightarrow> sp_point_521 \<Rightarrow> mp_int \<Rightarrow> mp_int \<Rightarrow> mp_int option \<Rightarrow> sp_ret" where
  "sp_ecc_check_key_521 count_bits jd jp pX pY privm =
    (if count_bits pX > 521 \<or> count_bits pY > 521 \<or> (case privm of None \<Rightarrow> False | Some m \<Rightarrow> count_bits m > 521)
     then ECC_OUT_OF_RANGE_E
     else
      (let pub = affine_point jd jp pX pY
       in if sp_521_iszero_9 (pt_x pub) \<noteq> 0 \<and> sp_521_iszero_9 (pt_y pub) \<noteq> 0 then ECC_INF_E
          else if sp_521_cmp_9 (pt_x pub) p521_mod \<ge> 0 \<or> sp_521_cmp_9 (pt_y pub) p521_mod \<ge> 0 then ECC_OUT_OF_RANGE_E
          else if sp_521_ecc_is_point_9 pub \<noteq> MP_OKAY then sp_521_ecc_is_point_9 pub
          else
            (let p = sp_521_ecc_mulmod_9 jp jp pub p521_order True True
             in if sp_521_iszero_9 (pt_x p) = 0 \<or> sp_521_iszero_9 (pt_y p) = 0 then ECC_INF_E
                else case privm of
                  None \<Rightarrow> MP_OKAY
                | Some m \<Rightarrow>
                    (let p = sp_521_ecc_mulmod_base_9 jp p (sp_521_from_mp jd 9 m) True True
                     in if sp_521_cmp_9 (pt_x p) (pt_x pub) \<noteq> 0 \<or> sp_521_cmp_9 (pt_y p) (pt_y pub) \<noteq> 0
                        then ECC_PRIV_KEY_E else MP_OKAY))))"

subsection \<open>Projective operations\<close>

definition proj_point :: "int list \<Rightarrow> mp_int \<Rightarrow> mp_int \<Rightarrow> mp_int \<Rightarrow> sp_point_521" where
  "proj_point jd pX pY pZ =
    (let x = sp_521_from_mp jd 9 pX; y = sp_521_from_mp jd 9 pY; z = sp_521_from_mp jd 9 pZ
     in \<lparr>pt_x = x, pt_y = y, pt_z = z, infinity = sp_521_iszero_9 x AND sp_521_iszero_9 y\<rparr>)"

definition sp_ecc_proj_add_point_521 :: "mp_lib \<Rightarrow> int list \<Rightarrow> ecc_point \<Rightarrow> ecc_point \<Rightarrow> ecc_point \<Rightarrow> int \<times> ecc_point" where
  "sp_ecc_proj_add_point_521 lib jd p q r =
    (let p = proj_point jd (ep_x p) (ep_y p) (ep_z p);
         q = proj_point jd (ep_x q) (ep_y q) (ep_z q);
         p = sp_521_proj_point_add_9 p q
     in sp_521_point_to_ecc_point_9 lib p r)"

definition sp_ecc_proj_dbl_point_521 :: "mp_lib \<Rightarrow> int list \<Rightarrow> ecc_point \<Rightarrow> ecc_point \<Rightarrow> int \<times> ecc_point" where
  "sp_ecc_proj_dbl_point_521 lib jd p r =
    (let p = proj_point jd (ep_x p) (ep_y p) (ep_z p);
         p = sp_521_proj_point_dbl_9 p
     in sp_521_point_to_ecc_point_9 lib p r)"

definition sp_ecc_map_521 :: "mp_lib \<Rightarrow> int list \<Rightarrow> ecc_point \<Rightarrow> int \<times> ecc_point" where
  "sp_ecc_map_521 lib jd p =
    (let q = proj_point jd (ep_x p) (ep_y p) (ep_z p);
         q = sp_521_map_9 q q
     in sp_521_point_to_ecc_point_9 lib q p)"

section \<open>Coordinates of the arguments\<close>

lemma mp_val_nonneg: "0 \<le> mp_val m"
  unfolding mp_val_def by (rule lval_nonneg [of "2 ^ 64"]) (auto simp: digits_in_def intro: uint_lt2p [where 'a = 64, simplified])

lemma from_mp_reduced:
  assumes "length jd = 9" "mp_val m < 2 ^ 521"
  shows "sp_521_from_mp jd 9 m = digs 58 9 (mp_val m)" "fe521 (sp_521_from_mp jd 9 m)"
    "val521 (sp_521_from_mp jd 9 m) = mp_val m" "digits_in 0 (2 ^ 58) (sp_521_from_mp jd 9 m)"
proof -
  have v: "0 \<le> mp_val m" "mp_val m \<le> P521" using assms(2) mp_val_nonneg [of m] by (simp_all add: P521_def)
  show e: "sp_521_from_mp jd 9 m = digs 58 9 (mp_val m)" using from_mp_digs [OF assms(1), of m] v assms(2) by simp
  show "fe521 (sp_521_from_mp jd 9 m)" "val521 (sp_521_from_mp jd 9 m) = mp_val m" unfolding e by (rule reduced_fe521 [OF v])+
  show "digits_in 0 (2 ^ 58) (sp_521_from_mp jd 9 m)" unfolding e using v(1) assms(2) by (intro digs9_le) simp_all
qed

lemma from_bin_one:
  assumes "length jd = 9"
  shows "sp_521_from_bin jd 9 [1] 1 = p521_norm_mod"
proof -
  have "sp_521_from_bin jd 9 [1] 1 = digs 58 9 1" using from_bin_digs [OF assms, of "[1]" 1] by (simp add: be_num_def)
  also have "\<dots> = p521_norm_mod" by code_simp
  finally show ?thesis .
qed

lemma iszero_9_digs:
  assumes "0 \<le> v"
  shows "sp_521_iszero_9 (digs 58 9 v) = (if v = 0 then 1 else 0)"
proof -
  have z: "digs 58 9 0 = [0, 0, 0, 0, 0, 0, 0, 0, 0]" by code_simp
  have "digs 58 9 v = digs 58 9 0 \<longleftrightarrow> v = 0" using lval_digs [of 9 58 v] lval_digs [of 9 58 0] by (metis zero_less_numeral)
  then show ?thesis using iszero_9_iff [of "digs 58 9 v"] z by simp
qed

lemma cmp_9_mod_ge:
  assumes "0 \<le> v" "v < 2 ^ 522"
  shows "0 \<le> sp_521_cmp_9 (digs 58 9 v) p521_mod \<longleftrightarrow> P521 \<le> v"
proof -
  have "sgn (sp_521_cmp_9 (digs 58 9 v) p521_mod) = sgn (v - P521)"
    using sp_521_cmp_9_sign [of "digs 58 9 v" p521_mod] digs9_le [OF assms] p521_mod_digs by (simp add: val521_def)
  then show ?thesis by (auto simp: sgn_if split: if_splits)
qed

lemma map_9_zero:
  assumes "wf_pt p" "P521 dvd val521 (pt_z p)"
  shows "pt_x (sp_521_map_9 r p) = digs 58 9 0" "pt_y (sp_521_map_9 r p) = digs 58 9 0"
proof -
  have f: "fe521 (pt_x p)" "fe521 (pt_y p)" "fe521 (pt_z p)" using assms(1) by (simp_all add: wf_pt_def)
  have "f521.rep (pt_z p) 0" using assms(2) f(3) by (simp add: f521.rep_def)
  then have i: "f521.rep (sp_521_mont_inv_9 (pt_z p)) 0" using mont_inv_9_rep [of "pt_z p" 0] by simp
  let ?i = "sp_521_mont_inv_9 (pt_z p)" and ?m = "\<lambda>a b. sp_521_mont_mul_9 a b p521_mod p521_mp_mod"
  let ?i2 = "sp_521_mont_sqr_9 ?i p521_mod p521_mp_mod"
  have "f521.rep (?m (pt_x p) ?i2) (val521 (pt_x p) * (0 * 0))" "f521.rep (?m (pt_y p) (?m ?i2 ?i)) (val521 (pt_y p) * (0 * 0 * 0))"
    by (intro f521.rep_intros i f521.rep_self f)+
  then have "map_coord_9 (?m (pt_x p) ?i2) = digs 58 9 0" "map_coord_9 (?m (pt_y p) (?m ?i2 ?i)) = digs 58 9 0"
    using map_coord_9_digs [of _ 0] by simp_all
  then show "pt_x (sp_521_map_9 r p) = digs 58 9 0" "pt_y (sp_521_map_9 r p) = digs 58 9 0"
    by (simp_all add: sp_521_map_9_def Let_def)
qed

section \<open>Properties\<close>

subsection \<open>Shared secret\<close>

lemma to_bin_bytes_length: "length (fst (to_bin_bytes x b j a)) = length a"
proof (induction x b j a rule: to_bin_bytes.induct)
  case (1 x b j a)
  show ?case by (subst to_bin_bytes.simps) (auto simp: Let_def 1)
qed

lemma to_bin_loop_length: "length (to_bin_loop ds a j s) = length a"
proof (induction ds a j s rule: to_bin_loop.induct)
  case (2 d ds a j s)
  let ?a = "a[nat j := a ! nat j OR word_of_int (s64 (d * 2 ^ s))]"
  obtain a' j' b' where t: "to_bin_bytes d (8 - s) (j - 1) ?a = (a', j', b')" by (metis prod_cases3)
  then have "length a' = length a" using to_bin_bytes_length [of d "8 - s" "j - 1" ?a] by simp
  then show ?case using 2 t by (auto simp: Let_def)
qed simp

lemma to_bin_9_length: "length (snd (sp_521_to_bin_9 r a)) = length a"
  by (simp add: sp_521_to_bin_9_def Let_def to_bin_loop_length)

lemma mulmod_9_map: "sp_521_ecc_mulmod_9 jp r g k True ct = sp_521_map_9 r (sp_521_ecc_mulmod_9 jp r g k False ct)"
  by (simp add: sp_521_ecc_mulmod_9_def sp_521_ecc_mulmod_win_add_sub_9_def Let_def split: prod.splits)

lemma mulmod_9_result: "sp_521_ecc_mulmod_9 jp r g k False ct = sp_521_ecc_mulmod_9 jp r' g k False ct"
  by (simp add: sp_521_ecc_mulmod_9_def sp_521_ecc_mulmod_win_add_sub_9_def Let_def)

lemma to_bin_reduced:
  assumes "0 \<le> v" "v < P521" "length a = 66"
  shows "snd (sp_521_to_bin_9 (digs 58 9 v) a) = be_bytes 66 v"
proof -
  have v: "v < 2 ^ 522" using assms(2) by (simp add: P521_def)
  have "digits_in (- (2 ^ 62)) (2 ^ 62) (digs 58 9 v)" by (rule digits_in_mono [OF digs9_le [OF assms(1) v]]) simp_all
  then show ?thesis using to_bin_correct [of "digs 58 9 v" a] assms v by simp
qed

text \<open>C40: Shared secrets and the size of the buffer.  A buffer below 65 bytes is refused with nothing written, and
  with 66 bytes or more the 66 bytes are the big-endian \<open>x\<close> of the product (in affine form, for
  coordinates the map to affine form is exact on) and the rest of the buffer is kept.  But a buffer of 65 bytes
  passes the check and the write of 66 bytes runs past its end.\<close>

theorem sp_ecc_secret_gen_521_overflow:
  fixes jd :: "int list" and jp :: sp_point_521 and priv :: mp_int and pub :: ecc_point
  assumes "length out = outLen"
  defines "p \<equiv> sp_521_ecc_mulmod_9 jp jp (sp_521_point_from_ecc_point_9 pub) (sp_521_from_mp jd 9 priv) False True"
  shows "(outLen < 65 \<longrightarrow> sp_ecc_secret_gen_521 jd jp priv pub out outLen = Some (BUFFER_E, out, outLen)) \<and>
    (outLen = 65 \<longrightarrow> sp_ecc_secret_gen_521 jd jp priv pub out outLen = None) \<and>
    (66 \<le> outLen \<longrightarrow> (\<exists>b. sp_ecc_secret_gen_521 jd jp priv pub out outLen = Some (MP_OKAY, b @ drop 66 out, 66) \<and> length b = 66 \<and>
      (\<forall>x y z. pt521 p (x * z ^ 2) (y * z ^ 3) z \<and> z ^ (2 ^ 521 - 2) mod P521 = 1 \<and>
         x mod P521 < 2 ^ 521 - 2 ^ 464 \<and> y mod P521 < 2 ^ 521 - 2 ^ 464 \<longrightarrow> b = be_bytes 66 (x mod P521))))"
proof (intro conjI impI)
  let ?g = "sp_521_point_from_ecc_point_9 pub" and ?k = "sp_521_from_mp jd 9 priv"
  let ?q = "sp_521_map_9 ?g (sp_521_ecc_mulmod_9 jp ?g ?g ?k False True)"
  let ?out = "out[65 := 0]"
  let ?b = "snd (sp_521_to_bin_9 (pt_x ?q) (take 66 ?out))"
  show "sp_ecc_secret_gen_521 jd jp priv pub out outLen = Some (BUFFER_E, out, outLen)" if "outLen < 65"
    using that by (simp add: sp_ecc_secret_gen_521_def)
  show "sp_ecc_secret_gen_521 jd jp priv pub out outLen = None" if "outLen = 65"
    using that assms by (simp add: sp_ecc_secret_gen_521_def byte_store_def)
  assume l: "66 \<le> outLen"
  show "\<exists>b. sp_ecc_secret_gen_521 jd jp priv pub out outLen = Some (MP_OKAY, b @ drop 66 out, 66) \<and> length b = 66 \<and>
      (\<forall>x y z. pt521 p (x * z ^ 2) (y * z ^ 3) z \<and> z ^ (2 ^ 521 - 2) mod P521 = 1 \<and>
         x mod P521 < 2 ^ 521 - 2 ^ 464 \<and> y mod P521 < 2 ^ 521 - 2 ^ 464 \<longrightarrow> b = be_bytes 66 (x mod P521))"
  proof (rule exI [of _ ?b], intro conjI allI impI)
    show "sp_ecc_secret_gen_521 jd jp priv pub out outLen = Some (MP_OKAY, ?b @ drop 66 out, 66)"
      using l assms(1) by (simp add: sp_ecc_secret_gen_521_def byte_store_def Let_def mulmod_9_map)
    show "length ?b = 66" using l assms(1) by (simp add: to_bin_9_length)
    fix x y z
    assume a: "pt521 p (x * z ^ 2) (y * z ^ 3) z \<and> z ^ (2 ^ 521 - 2) mod P521 = 1 \<and>
      x mod P521 < 2 ^ 521 - 2 ^ 464 \<and> y mod P521 < 2 ^ 521 - 2 ^ 464"
    have p: "sp_521_ecc_mulmod_9 jp ?g ?g ?k False True = p" unfolding p_def by (rule mulmod_9_result)
    have "pt_x ?q = digs 58 9 (x mod P521)"
      unfolding p using a by (elim conjE) (simp only: map_9_affine, simp)
    then show "?b = be_bytes 66 (x mod P521)" using to_bin_reduced [of "x mod P521" "take 66 ?out"] P521_pos l assms(1) by simp
  qed
qed

theorem sp_ecc_secret_gen_521_overflow_witness:
  "sp_ecc_secret_gen_521 (replicate 9 0) p521_base \<lparr>used = 1, dp = [5]\<rparr> \<lparr>ep_x = one_x, ep_y = \<lparr>used = 1, dp = [1]\<rparr>, ep_z = \<lparr>used = 1, dp = [1]\<rparr>\<rparr>
     (replicate 65 0) 65 = None"
  using sp_ecc_secret_gen_521_overflow [of "replicate 65 0" 65] by simp

subsection \<open>Key checks\<close>

text \<open>A comparison gives zero exactly when the 64 bit digits agree.\<close>

lemma cmp_step_zero: "cmp_step sh r (x, y) = 0 \<longleftrightarrow> r = 0 \<and> s64 (x - y) = 0"
proof (cases "r = 0")
  case True
  then show ?thesis by (simp add: cmp_step_def sar_def s64_def)
next
  case False
  then show ?thesis by (simp add: cmp_step_def or_eq_0_iff)
qed

lemma cmp_digits_zero: "length xs = length ys \<Longrightarrow> cmp_digits sh xs ys = 0 \<longleftrightarrow> (\<forall>i<length xs. s64 (xs ! i - ys ! i) = 0)"
proof (induction xs ys rule: list_induct2)
  case (Cons x xs y ys)
  then show ?case by (auto simp: cmp_step_zero nth_Cons split: nat.splits)
qed simp

lemma s64_zero: "s64 (x - y) = 0 \<longleftrightarrow> x mod 2 ^ 64 = y mod 2 ^ 64"
proof -
  have "s64 (x - y) = 0 \<longleftrightarrow> (x - y + 0x8000000000000000) mod 2 ^ 64 = 0x8000000000000000 mod 2 ^ 64" by (simp add: s64_def)
  also have "\<dots> \<longleftrightarrow> 2 ^ 64 dvd x - y" unfolding mod_eq_dvd_iff by simp
  finally show ?thesis unfolding mod_eq_dvd_iff .
qed

lemma cmp_9_zero:
  assumes "9 \<le> length a" "9 \<le> length b"
  shows "sp_521_cmp_9 a b = 0 \<longleftrightarrow> (\<forall>i<9. a ! i mod 2 ^ 64 = b ! i mod 2 ^ 64)"
  using cmp_digits_zero [of "take 9 a" "take 9 b" 57] assms by (simp add: sp_521_cmp_9_def s64_zero)

lemma affine_point_coords:
  assumes "length jd = 9" "mp_val pX < 2 ^ 521" "mp_val pY < 2 ^ 521"
  shows "pt_x (affine_point jd jp pX pY) = digs 58 9 (mp_val pX)" "pt_y (affine_point jd jp pX pY) = digs 58 9 (mp_val pY)"
    "wf_pt (affine_point jd jp pX pY)" "val521 (pt_x (affine_point jd jp pX pY)) = mp_val pX"
    "val521 (pt_y (affine_point jd jp pX pY)) = mp_val pY" "val521 (pt_z (affine_point jd jp pX pY)) = 1"
  using from_mp_reduced [OF assms(1,2)] from_mp_reduced [OF assms(1,3)] from_bin_one [OF assms(1)] fe521_consts(2)
  by (simp_all add: affine_point_def wf_pt_def) (simp add: val521_def p521_norm_mod_def)

lemma order_scalar: "length p521_order = 9" "digits_in 0 (2 ^ 58) p521_order" "lval 58 p521_order < 2 ^ 521"
  using p521_order_digs by (simp_all add: N521_numeral)

lemma map_9_lengths: "length (pt_x (sp_521_map_9 r p)) = 9" "length (pt_y (sp_521_map_9 r p)) = 9"
  using p521_mod_digs(1)
  by (simp_all add: sp_521_map_9_def Let_def map_coord_9_def sp_521_norm_9_def sp_521_cond_sub_9_def sp_521_mont_reduce_9_def del: upt_rec_numeral)

lemma check_key_order:
  fixes jp :: sp_point_521
  assumes "length jd = 9" and bits: "\<And>m. 521 < count_bits m \<longleftrightarrow> 2 ^ 521 \<le> mp_val m"
    and "mp_val pX < 2 ^ 521" "mp_val pY < 2 ^ 521"
  defines "pub \<equiv> affine_point jd jp pX pY"
  shows "sp_ecc_check_key_521 count_bits jd jp pX pY privm =
     (if (case privm of None \<Rightarrow> False | Some m \<Rightarrow> 521 < count_bits m) then ECC_OUT_OF_RANGE_E
      else if mp_val pX = 0 \<and> mp_val pY = 0 then ECC_INF_E
      else if P521 \<le> mp_val pX \<or> P521 \<le> mp_val pY then ECC_OUT_OF_RANGE_E
      else if sp_521_ecc_is_point_9 pub \<noteq> MP_OKAY then sp_521_ecc_is_point_9 pub
      else (let p = sp_521_ecc_mulmod_9 jp jp pub p521_order True True
        in if sp_521_iszero_9 (pt_x p) = 0 \<or> sp_521_iszero_9 (pt_y p) = 0 then ECC_INF_E
           else case privm of None \<Rightarrow> MP_OKAY
           | Some m \<Rightarrow> (let p = sp_521_ecc_mulmod_base_9 jp p (sp_521_from_mp jd 9 m) True True
               in if sp_521_cmp_9 (pt_x p) (pt_x pub) \<noteq> 0 \<or> sp_521_cmp_9 (pt_y p) (pt_y pub) \<noteq> 0
                  then ECC_PRIV_KEY_E else MP_OKAY)))"
proof -
  have b: "\<not> 521 < count_bits pX" "\<not> 521 < count_bits pY" using assms(3,4) by (simp_all add: bits)
  note c = affine_point_coords(1,2) [OF assms(1,3,4), of jp, folded pub_def]
  have z: "sp_521_iszero_9 (pt_x pub) = (if mp_val pX = 0 then 1 else 0)" "sp_521_iszero_9 (pt_y pub) = (if mp_val pY = 0 then 1 else 0)"
    unfolding c by (rule iszero_9_digs [OF mp_val_nonneg])+
  have ge: "0 \<le> sp_521_cmp_9 (pt_x pub) p521_mod \<longleftrightarrow> P521 \<le> mp_val pX" "0 \<le> sp_521_cmp_9 (pt_y pub) p521_mod \<longleftrightarrow> P521 \<le> mp_val pY"
    unfolding c using assms(3,4) by (simp_all add: cmp_9_mod_ge mp_val_nonneg)
  show ?thesis unfolding sp_ecc_check_key_521_def pub_def [symmetric] Let_def ge using b z by simp
qed

lemma base_9_map_lengths:
  "length (pt_x (sp_521_ecc_mulmod_base_9 jp r k True ct)) = 9" "length (pt_y (sp_521_ecc_mulmod_base_9 jp r k True ct)) = 9"
  by (simp_all add: sp_521_ecc_mulmod_base_9_def sp_521_ecc_mulmod_stripe_9_def Let_def map_9_lengths split: prod.splits)

lemma map_coord_9_reduced:
  assumes "fe521 r"
  shows "\<exists>w. 0 \<le> w \<and> w < P521 \<and> map_coord_9 r = digs 58 9 w \<and> (w = 0 \<longrightarrow> P521 dvd val521 r)"
proof (cases "val521 r < 2 ^ 521 - 2 ^ 464 \<or> val521 r = P521")
  case True
  have v: "0 \<le> val521 r" "val521 r \<le> P521" using fe521_digits [OF assms] by simp_all
  have "val521 r mod P521 < 2 ^ 521 - 2 ^ 464"
  proof (cases "val521 r = P521")
    case False
    then have "val521 r mod P521 = val521 r" using v by simp
    then show ?thesis using True False by simp
  qed simp
  from map_coord_9_digs [OF f521.rep_self [OF assms] this] show ?thesis
    by (intro exI [of _ "val521 r mod P521"]) (simp add: P521_def dvd_eq_mod_eq_0)
next
  case False
  define v where "v = val521 r"
  have v: "0 \<le> v" "v < P521" "2 ^ 521 - 2 ^ 464 \<le> v" using fe521_digits [OF assms] False by (simp_all add: v_def)
  let ?n = "sp_521_cmp_9 (digs 58 9 v) p521_mod"
  have d: "digits_in 0 (2 ^ 58) (digs 58 9 v)" using v by (intro digs9_le) (simp_all add: P521_def)
  have "digits_in 0 (2 ^ 58) p521_mod" "lval 58 p521_mod = P521" "length p521_mod = 9"
    by (simp_all add: p521_mod_def P521_def)
  then have "sgn ?n = sgn (v - P521) \<and> - (2 ^ 58) \<le> ?n \<and> ?n < 2 ^ 58"
    using cmp_digits_sgn [of "digs 58 9 v" p521_mod 58] d v by (simp add: sp_521_cmp_9_def P521_def)
  then have n: "- (2 ^ 58) \<le> ?n" "?n < 0" using v(2) by (simp_all add: sgn_if split: if_splits)
  have "sar ?n 57 = (if ?n < - (2 ^ 57) then - 2 else - 1)"
  proof (cases "?n < - (2 ^ 57)")
    case True
    have "?n div 2 ^ 57 = - 2" by (rule int_div_pos_eq [of _ _ _ "?n + 2 ^ 58"]) (use True n in simp_all)
    then show ?thesis using True by (simp add: sar_def)
  next
    case False
    have "?n div 2 ^ 57 = - 1" by (rule int_div_pos_eq [of _ _ _ "?n + 2 ^ 57"]) (use False n in simp_all)
    then show ?thesis using False by (simp add: sar_def)
  qed
  then have m: "NOT (sar ?n 57) \<in> {0, 1}" by (simp add: not_int_def)
  have b: "digits_in (- (2 ^ 61)) (2 ^ 61) (digs 58 9 v)" by (rule digits_in_mono [OF d]) simp_all
  have cs: "sp_521_norm_9 (sp_521_cond_sub_9 (digs 58 9 v) p521_mod c) = digs 58 9 (v - lval 58 (replicate 9 c))"
    if "c \<in> {0, 1}" for c
  proof -
    have "map (\<lambda>y. y AND c) p521_mod = replicate 9 c" using that by (auto simp: p521_mod_def eval_nat_numeral)
    moreover have "map2_s64 (\<lambda>x y. x - (y AND c)) (digs 58 9 v) p521_mod = map2_s64 (-) (digs 58 9 v) (map (\<lambda>y. y AND c) p521_mod)"
      by (simp add: map2_s64_def map2_map_map zip_map2 split_def)
    moreover have "digits_in (- (2 ^ 60)) (2 ^ 60) (replicate 9 c)" using that by (auto simp: digits_in_def)
    ultimately show ?thesis
      using norm_map2_9(2) [OF _ _ b, of "replicate 9 c"] v p521_mod_digs(1) by (simp add: sp_521_cond_sub_9_def P521_def)
  qed
  let ?w = "v - lval 58 (replicate 9 (NOT (sar ?n 57)))"
  have "lval 58 (replicate 9 (0 :: int)) = 0" "0 \<le> lval 58 (replicate 9 (1 :: int))" "lval 58 (replicate 9 (1 :: int)) < 2 ^ 521 - 2 ^ 464"
    by (simp_all add: eval_nat_numeral)
  then have "0 < ?w" "?w < P521" using m v by auto
  moreover have "map_coord_9 r = digs 58 9 ?w" unfolding map_coord_9_val [OF assms, folded v_def] by (rule cs [OF m])
  ultimately show ?thesis by (intro exI [of _ ?w]) simp
qed

lemma map_9_reduced:
  assumes "wf_pt p"
  defines "i \<equiv> val521 (pt_z p) ^ (2 ^ 521 - 3)"
  shows "\<exists>w. 0 \<le> w \<and> w < P521 \<and> pt_x (sp_521_map_9 r p) = digs 58 9 w \<and> (w = 0 \<longrightarrow> P521 dvd val521 (pt_x p) * (i * i))"
    and "\<exists>w. 0 \<le> w \<and> w < P521 \<and> pt_y (sp_521_map_9 r p) = digs 58 9 w \<and> (w = 0 \<longrightarrow> P521 dvd val521 (pt_y p) * (i * i * i))"
proof -
  have w: "fe521 (pt_x p)" "fe521 (pt_y p)" "fe521 (pt_z p)" using assms(1) by (simp_all add: wf_pt_def)
  let ?i = "sp_521_mont_inv_9 (pt_z p)" and ?mul = "\<lambda>a b. sp_521_mont_mul_9 a b p521_mod p521_mp_mod"
  let ?i2 = "sp_521_mont_sqr_9 ?i p521_mod p521_mp_mod"
  have "f521.rep ?i i" unfolding i_def by (intro mont_inv_9_rep f521.rep_self w(3))
  then have m: "f521.rep (?mul (pt_x p) ?i2) (val521 (pt_x p) * (i * i))" "f521.rep (?mul (pt_y p) (?mul ?i2 ?i)) (val521 (pt_y p) * (i * i * i))"
    by (intro f521.rep_intros f521.rep_self w; assumption)+
  have d: "P521 dvd b" if "f521.rep a b" "P521 dvd val521 a" for a b
    using that by (simp add: f521.rep_def dvd_eq_mod_eq_0)
  note x = map_coord_9_reduced [OF f521.rep_fe [OF m(1)]] d [OF m(1)] and y = map_coord_9_reduced [OF f521.rep_fe [OF m(2)]] d [OF m(2)]
  show "\<exists>w. 0 \<le> w \<and> w < P521 \<and> pt_x (sp_521_map_9 r p) = digs 58 9 w \<and> (w = 0 \<longrightarrow> P521 dvd val521 (pt_x p) * (i * i))"
    using x by (auto simp: sp_521_map_9_def Let_def)
  show "\<exists>w. 0 \<le> w \<and> w < P521 \<and> pt_y (sp_521_map_9 r p) = digs 58 9 w \<and> (w = 0 \<longrightarrow> P521 dvd val521 (pt_y p) * (i * i * i))"
    using y by (auto simp: sp_521_map_9_def Let_def)
qed

lemma base_9_affine:
  assumes "0 < V" "V < 2 ^ 521"
  shows "\<exists>w. 0 \<le> w \<and> w < P521 \<and> pt_x (sp_521_ecc_mulmod_base_9 jp r (digs 58 9 V) True ct) = digs 58 9 w"
    and "\<exists>w. 0 \<le> w \<and> w < P521 \<and> pt_y (sp_521_ecc_mulmod_base_9 jp r (digs 58 9 V) True ct) = digs 58 9 w"
proof -
  have w: "wf_pt (sp_521_ecc_mulmod_stripe_9 jp r p521_table (digs 58 9 V) False ct)"
    using comb_wf.stripe_finite [OF p521_table_wf assms] by blast
  have "sp_521_ecc_mulmod_base_9 jp r (digs 58 9 V) True ct = sp_521_map_9 r (sp_521_ecc_mulmod_stripe_9 jp r p521_table (digs 58 9 V) False ct)"
    by (simp add: sp_521_ecc_mulmod_base_9_def sp_521_ecc_mulmod_stripe_9_def Let_def case_prod_beta del: upt_rec_numeral)
  then show "\<exists>w. 0 \<le> w \<and> w < P521 \<and> pt_x (sp_521_ecc_mulmod_base_9 jp r (digs 58 9 V) True ct) = digs 58 9 w"
    "\<exists>w. 0 \<le> w \<and> w < P521 \<and> pt_y (sp_521_ecc_mulmod_base_9 jp r (digs 58 9 V) True ct) = digs 58 9 w"
    using map_9_reduced [OF w, of r] by auto
qed

lemma no_zero_point:
  fixes x y c j b p :: int
  assumes "p dvd x * (j * j)" "p dvd y * (j * j * j)" "p dvd j * c - 1" "p dvd curve_poly b x y c"
  shows "p dvd b"
proof -
  have "b * (j * c) ^ 6 = (y * (j * j * j)) ^ 2 - (x * (j * j)) ^ 3 + 3 * (x * (j * j)) * (j * c) ^ 4 - curve_poly b x y c * j ^ 6"
    unfolding curve_poly_def by algebra
  moreover have "p dvd (y * (j * j * j)) ^ 2 - (x * (j * j)) ^ 3 + 3 * (x * (j * j)) * (j * c) ^ 4 - curve_poly b x y c * j ^ 6"
    by (intro dvd_diff dvd_add dvd_power_le [OF assms(2), of 1 2, simplified] dvd_power_le [OF assms(1), of 1 3, simplified]
        dvd_mult2 [OF dvd_mult [OF assms(1)]] dvd_mult2 [OF assms(4)])
  ultimately have d: "p dvd b * (j * c) ^ 6" by simp
  have "(j * c) mod p = 1 mod p" using assms(3) by (simp only: mod_eq_dvd_iff)
  then have "(j * c) ^ 6 mod p = 1 ^ 6 mod p" by (metis power_mod)
  then have "b * (j * c) ^ 6 mod p = b * 1 mod p" by (metis mod_mult_right_eq power_one)
  then show ?thesis using d by (simp add: dvd_eq_mod_eq_0)
qed

text \<open>The multiple by the order, in affine digits: zero when its \<open>z\<close> is, and not when it is finite with an invertible \<open>z\<close>.\<close>

lemma order_multiple:
  fixes jp pub :: sp_point_521
  assumes "valid521 pub"
  defines "o1 \<equiv> sp_521_ecc_mulmod_9 jp jp pub p521_order False True" and "o2 \<equiv> sp_521_ecc_mulmod_9 jp jp pub p521_order True True"
  shows "P521 dvd val521 (pt_z o1) \<Longrightarrow> pt_x o2 = digs 58 9 0 \<and> pt_y o2 = digs 58 9 0"
    and "infinity o1 = 0 \<Longrightarrow> val521 (pt_z o1) ^ (2 ^ 521 - 2) mod P521 = 1 \<Longrightarrow> \<not> (pt_x o2 = digs 58 9 0 \<and> pt_y o2 = digs 58 9 0)"
    and "\<exists>w. 0 \<le> w \<and> pt_x o2 = digs 58 9 w" "\<exists>w. 0 \<le> w \<and> pt_y o2 = digs 58 9 w"
proof -
  have ok: "ok_pt o1" unfolding o1_def sp_521_ecc_mulmod_9_def by (rule mulmod_win_ok(2) [OF assms(1) order_scalar])
  have m: "o2 = sp_521_map_9 jp o1" by (simp only: o1_def o2_def mulmod_9_map)
  note w = ok_pt_wf [OF ok]
  note r = map_9_reduced [OF w, of jp, folded m]
  show "pt_x o2 = digs 58 9 0 \<and> pt_y o2 = digs 58 9 0" if "P521 dvd val521 (pt_z o1)"
    using map_9_zero [OF w that] by (simp add: m)
  show "\<exists>w. 0 \<le> w \<and> pt_x o2 = digs 58 9 w" "\<exists>w. 0 \<le> w \<and> pt_y o2 = digs 58 9 w" using r by blast+
  assume i: "infinity o1 = 0" and f: "val521 (pt_z o1) ^ (2 ^ 521 - 2) mod P521 = 1"
  show "\<not> (pt_x o2 = digs 58 9 0 \<and> pt_y o2 = digs 58 9 0)"
  proof
    assume z: "pt_x o2 = digs 58 9 0 \<and> pt_y o2 = digs 58 9 0"
    define x y c j where "x = val521 (pt_x o1)" and "y = val521 (pt_y o1)" and "c = val521 (pt_z o1)" and "j = c ^ (2 ^ 521 - 3)"
    have inj: "digs 58 9 v = digs 58 9 0 \<Longrightarrow> v = 0" for v using lval_digs [of 9 58 v] lval_digs [of 9 58 0] by simp
    have d: "P521 dvd x * (j * j)" "P521 dvd y * (j * j * j)"
      using r z inj unfolding x_def y_def c_def j_def by metis+
    have u: "P521 dvd j * c - 1" 
    proof -
      have "j * c = c ^ (2 ^ 521 - 2)" unfolding j_def by (simp only: power_Suc2 [symmetric]) simp
      then have "j * c mod P521 = 1 mod P521" using f by (simp add: c_def P521_def)
      then show ?thesis by (simp only: mod_eq_dvd_iff)
    qed
    have "jac_on_curve P521 B521 x y c" using ok i by (simp add: ok_pt_def valid521_def x_def y_def c_def)
    then have "P521 dvd B521" unfolding jac_on_curve_def by (rule no_zero_point [OF d u])
    then show False using p521_b_digs(3,4) by (auto dest: zdvd_imp_le)
  qed
qed

lemma is_point_9_codes: "sp_521_ecc_is_point_9 p = MP_OKAY \<or> sp_521_ecc_is_point_9 p = MP_VAL"
  by (simp add: sp_521_ecc_is_point_9_def Let_def)

lemma digs9_inj: "digs 58 9 v = digs 58 9 w \<longleftrightarrow> v = w"
  by (metis lval_digs zero_less_numeral)

lemma cmp_9_eq_digs:
  assumes "0 \<le> v" "v < 2 ^ 522" "0 \<le> w" "w < 2 ^ 522"
  shows "sp_521_cmp_9 (digs 58 9 v) (digs 58 9 w) = 0 \<longleftrightarrow> digs 58 9 v = digs 58 9 w"
proof -
  have "sgn (sp_521_cmp_9 (digs 58 9 v) (digs 58 9 w)) = sgn (v - w)"
    using sp_521_cmp_9_sign [of "digs 58 9 v" "digs 58 9 w"] digs9_le [OF assms(1,2)] digs9_le [OF assms(3,4)] by (simp add: val521_def)
  then have "sp_521_cmp_9 (digs 58 9 v) (digs 58 9 w) = 0 \<longleftrightarrow> v = w" by (metis right_minus_eq sgn_0_0)
  then show ?thesis by (simp only: digs9_inj)
qed

text \<open>C11: What the key check decides.  An ordinate not below the prime, or a private key from \<open>2\<^sup>5\<^sup>2\<^sup>1\<close> on, is out of range, and the pair
  of zeros is infinity, before anything is computed.  Then a pair the point check refuses is \<open>MP_VAL\<close>; a multiple
  by the order that has a digit, in affine coordinates, is \<open>ECC_INF_E\<close>; and with a private key the product of the base point is
  compared with the public key, \<open>ECC_PRIV_KEY_E\<close> if it differs; otherwise, and without a private key, the key is accepted.
  For ordinates below the prime: when the three reductions of the point check are exact on them (\<open>is_point_safe\<close>), the point
  check accepts exactly the points of the curve; for a point of the curve, the multiple by the order passes exactly when all its affine digits are
  zero, they are zero when the multiple's \<open>z\<close> is zero modulo the prime, and they are not when the multiple is not marked as
  infinite and its \<open>z\<close> satisfies Fermat's theorem (so that it is invertible); and for a private key that is not zero the comparison is
  equality of the digits. \<^verbatim>\<open>mp_count_bits\<close> is assumed to exceed 521 exactly for numbers from \<open>2\<^sup>5\<^sup>2\<^sup>1\<close> on.\<close>

theorem sp_ecc_check_key_521_checks:
  fixes jp :: sp_point_521 and pX pY :: mp_int and jd :: "int list"
  assumes "length jd = 9" and bits: "\<And>m. 521 < count_bits m \<longleftrightarrow> 2 ^ 521 \<le> mp_val m"
  defines "X \<equiv> mp_val pX" and "Y \<equiv> mp_val pY" and "pub \<equiv> affine_point jd jp pX pY"
  defines "o1 \<equiv> sp_521_ecc_mulmod_9 jp jp pub p521_order False True" and "o2 \<equiv> sp_521_ecc_mulmod_9 jp jp pub p521_order True True"
  defines "q \<equiv> \<lambda>m. sp_521_ecc_mulmod_base_9 jp o2 (sp_521_from_mp jd 9 m) True True"
  defines "same \<equiv> \<lambda>m. sp_521_cmp_9 (pt_x (q m)) (pt_x pub) = 0 \<and> sp_521_cmp_9 (pt_y (q m)) (pt_y pub) = 0"
  shows "sp_ecc_check_key_521 count_bits jd jp pX pY privm =
     (if P521 \<le> X \<or> P521 \<le> Y \<or> (\<exists>m. privm = Some m \<and> 2 ^ 521 \<le> mp_val m) then ECC_OUT_OF_RANGE_E
      else if X = 0 \<and> Y = 0 then ECC_INF_E
      else if sp_521_ecc_is_point_9 pub \<noteq> MP_OKAY then MP_VAL
      else if sp_521_iszero_9 (pt_x o2) = 0 \<or> sp_521_iszero_9 (pt_y o2) = 0 then ECC_INF_E
      else case privm of None \<Rightarrow> MP_OKAY | Some m \<Rightarrow> if same m then MP_OKAY else ECC_PRIV_KEY_E) \<and>
    (X < P521 \<and> Y < P521 \<longrightarrow>
      (is_point_safe pub \<longrightarrow> (sp_521_ecc_is_point_9 pub = MP_OKAY \<longleftrightarrow> jac_on_curve P521 B521 X Y 1)) \<and>
      (jac_on_curve P521 B521 X Y 1 \<longrightarrow>
        (sp_521_iszero_9 (pt_x o2) \<noteq> 0 \<and> sp_521_iszero_9 (pt_y o2) \<noteq> 0 \<longleftrightarrow> pt_x o2 = digs 58 9 0 \<and> pt_y o2 = digs 58 9 0) \<and>
        (P521 dvd val521 (pt_z o1) \<longrightarrow> pt_x o2 = digs 58 9 0 \<and> pt_y o2 = digs 58 9 0) \<and>
        (infinity o1 = 0 \<and> val521 (pt_z o1) ^ (2 ^ 521 - 2) mod P521 = 1 \<longrightarrow> \<not> (pt_x o2 = digs 58 9 0 \<and> pt_y o2 = digs 58 9 0))) \<and>
      (\<forall>m. 0 < mp_val m \<and> mp_val m < 2 ^ 521 \<longrightarrow>
        (same m \<longleftrightarrow> pt_x (q m) = digs 58 9 X \<and> pt_y (q m) = digs 58 9 Y)))"
proof (cases "X < 2 ^ 521 \<and> Y < 2 ^ 521")
  case True
  then have l: "mp_val pX < 2 ^ 521" "mp_val pY < 2 ^ 521" by (simp_all add: X_def Y_def)
  have nn: "0 \<le> X" "0 \<le> Y" by (simp_all add: X_def Y_def mp_val_nonneg)
  note c = affine_point_coords [OF assms(1) l, of jp, folded X_def Y_def pub_def]
  have wf: "fe521 (pt_x pub)" "fe521 (pt_y pub)" using c(3) by (simp_all add: wf_pt_def)
  have n0: "\<not> (P521 \<le> X \<or> P521 \<le> Y)" if "X = 0 \<and> Y = 0" using that P521_pos by auto
  have eq: "sp_ecc_check_key_521 count_bits jd jp pX pY privm =
     (if P521 \<le> X \<or> P521 \<le> Y \<or> (\<exists>m. privm = Some m \<and> 2 ^ 521 \<le> mp_val m) then ECC_OUT_OF_RANGE_E
      else if X = 0 \<and> Y = 0 then ECC_INF_E
      else if sp_521_ecc_is_point_9 pub \<noteq> MP_OKAY then MP_VAL
      else if sp_521_iszero_9 (pt_x o2) = 0 \<or> sp_521_iszero_9 (pt_y o2) = 0 then ECC_INF_E
      else case privm of None \<Rightarrow> MP_OKAY | Some m \<Rightarrow> if same m then MP_OKAY else ECC_PRIV_KEY_E)"
    using check_key_order [OF assms(1) bits l, of jp privm, folded X_def Y_def pub_def] is_point_9_codes [of pub] n0
    by (cases privm) (auto simp: Let_def bits same_def q_def o2_def)
  have v: "valid521 pub" if "jac_on_curve P521 B521 X Y 1" using c(3) that unfolding valid521_def wf_pt_def c(4-6) by blast
  note ord = order_multiple [OF v, of jp, folded o1_def o2_def]
  have z: "sp_521_iszero_9 (pt_x o2) \<noteq> 0 \<and> sp_521_iszero_9 (pt_y o2) \<noteq> 0 \<longleftrightarrow> pt_x o2 = digs 58 9 0 \<and> pt_y o2 = digs 58 9 0"
    if j: "jac_on_curve P521 B521 X Y 1"
  proof -
    obtain a b where "0 \<le> a" "pt_x o2 = digs 58 9 a" "0 \<le> b" "pt_y o2 = digs 58 9 b" using ord(3,4) [OF j] by blast
    then show ?thesis by (simp add: iszero_9_digs digs9_inj)
  qed
  have s: "same m \<longleftrightarrow> pt_x (q m) = digs 58 9 X \<and> pt_y (q m) = digs 58 9 Y" if m: "0 < mp_val m" "mp_val m < 2 ^ 521" for m
  proof -
    note a = base_9_affine [OF m, of jp o2 True, folded from_mp_reduced(1) [OF assms(1) m(2)]]
    obtain a b where ab: "0 \<le> a" "a < P521" "pt_x (q m) = digs 58 9 a" "0 \<le> b" "b < P521" "pt_y (q m) = digs 58 9 b"
      using a unfolding q_def by blast
    have "a < 2 ^ 522" "b < 2 ^ 522" "X < 2 ^ 522" "Y < 2 ^ 522" using ab True by (simp_all add: P521_def)
    then show ?thesis unfolding same_def ab(3,6) c(1,2) using ab nn by (simp add: cmp_9_eq_digs)
  qed
  show ?thesis
    using eq is_point_9_iff [OF wf, unfolded c(4,5)] z ord(1,2) s by blast
next
  case False
  then have e: "sp_ecc_check_key_521 count_bits jd jp pX pY privm = ECC_OUT_OF_RANGE_E"
    by (auto simp: sp_ecc_check_key_521_def bits X_def Y_def)
  have r: "P521 \<le> X \<or> P521 \<le> Y \<or> (\<exists>m. privm = Some m \<and> 2 ^ 521 \<le> mp_val m)" "\<not> (X < P521 \<and> Y < P521)"
    using False by (auto simp: P521_def)
  show ?thesis unfolding if_P [OF r(1)] using e r(2) by blast
qed

text \<open>A key of each kind: out of range, the pair of zeros, a pair off the curve, and a point of the curve.\<close>

lemma one_digs: "digs 58 9 (mp_val one_x) = [0x31fb7cddd7b5018, 0x158d360921d6db9, 0x8b326e3a8a2a8f, 0x13d85aa7603342d, 0x3a05bcdf4ff1099, 0x1aec6a462909c52, 0x21ddf833e755ce6, 0x3e18fb6cd03cfa9, 0xd9cb7a32dab342]"
  unfolding one_x_val by code_simp

lemma one_y2: "sp_521_mod_9 (sp_521_sqr_9 [1, 0, 0, 0, 0, 0, 0, 0, 0]) p521_mod = [1, 0, 0, 0, 0, 0, 0, 0, 0]"
  by code_simp

lemma one_x2: "sp_521_mod_9 (sp_521_sqr_9 [0x31fb7cddd7b5018, 0x158d360921d6db9, 0x8b326e3a8a2a8f, 0x13d85aa7603342d, 0x3a05bcdf4ff1099, 0x1aec6a462909c52, 0x21ddf833e755ce6, 0x3e18fb6cd03cfa9, 0xd9cb7a32dab342]) p521_mod =
    [0x32712d6f92a6953, 0x325979ce3fb5402, 0x242f7fa0472bd74, 0x2c3256966d3177e, 0x16064c48be62388, 0x356da56afac5373, 0x34005db9bc78ec1, 0x2007e7665139b5b, 0x133ddf62188fac1]"
  by code_simp

lemma one_x3: "sp_521_mod_9 (sp_521_mul_9 [0x32712d6f92a6953, 0x325979ce3fb5402, 0x242f7fa0472bd74, 0x2c3256966d3177e, 0x16064c48be62388, 0x356da56afac5373, 0x34005db9bc78ec1, 0x2007e7665139b5b, 0x133ddf62188fac1]
    [0x31fb7cddd7b5018, 0x158d360921d6db9, 0x8b326e3a8a2a8f, 0x13d85aa7603342d, 0x3a05bcdf4ff1099, 0x1aec6a462909c52, 0x21ddf833e755ce6, 0x3e18fb6cd03cfa9, 0xd9cb7a32dab342]) p521_mod =
    [0x21a07952d21b14a, 0x31298126b4b0cb1, 0x195c38f93ae0c56, 0x270df05141d433c, 0x152225ffda71892, 0x29f8e703984b294, 0x2058f9f8db8f0f9, 0x13c30d9fe84ec22, 0x3bcd2fdf2e8bac]"
  by code_simp

lemma one_cmp: "let x = [0x31fb7cddd7b5018, 0x158d360921d6db9, 0x8b326e3a8a2a8f, 0x13d85aa7603342d, 0x3a05bcdf4ff1099, 0x1aec6a462909c52, 0x21ddf833e755ce6, 0x3e18fb6cd03cfa9, 0xd9cb7a32dab342] in
    sp_521_cmp_9 (sp_521_mont_add_9 (sp_521_mont_add_9 (sp_521_mont_add_9 (sp_521_mont_sub_9 [1, 0, 0, 0, 0, 0, 0, 0, 0]
      [0x21a07952d21b14a, 0x31298126b4b0cb1, 0x195c38f93ae0c56, 0x270df05141d433c, 0x152225ffda71892, 0x29f8e703984b294, 0x2058f9f8db8f0f9, 0x13c30d9fe84ec22, 0x3bcd2fdf2e8bac] p521_mod)
    x p521_mod) x p521_mod) x p521_mod) p521_b = 0"
  by code_simp

lemma is_point_one_x: "sp_521_ecc_is_point_9 (affine_point (replicate 9 0) p521_base one_x \<lparr>used = 1, dp = [1]\<rparr>) = MP_OKAY"
proof -
  let ?one = "\<lparr>used = 1, dp = [1]\<rparr> :: mp_int"
  let ?p = "affine_point (replicate 9 0) p521_base one_x ?one"
  have l: "length (replicate 9 (0 :: int)) = 9" "mp_val one_x < 2 ^ 521" "mp_val ?one < 2 ^ 521" "mp_val ?one = 1"
    by (simp_all add: one_x_val) (simp_all add: mp_val_def)
  have "digs 58 9 1 = [1, 0, 0, 0, 0, 0, 0, 0, 0]" by code_simp
  note c = affine_point_coords(1,2) [OF l(1-3), of p521_base, unfolded one_digs l(4) this]
  show ?thesis
    unfolding sp_521_ecc_is_point_9_def Let_def c one_y2 one_x2 one_x3 using one_cmp unfolding Let_def by simp
qed

theorem sp_ecc_check_key_521_checks_witness:
  "let one = \<lparr>used = 1, dp = [1]\<rparr>; zero = \<lparr>used = 0, dp = []\<rparr>; big = \<lparr>used = 9, dp = [0, 0, 0, 0, 0, 0, 0, 0, 512]\<rparr>;
       five = \<lparr>used = 1, dp = [5]\<rparr>; jd = replicate 9 0;
       check = sp_ecc_check_key_521 (\<lambda>m. if 2 ^ 521 \<le> mp_val m then 522 else 1) jd p521_base;
       ord = sp_521_ecc_mulmod_9 p521_base p521_base (affine_point jd p521_base one_x one) p521_order True True
   in check big one None = ECC_OUT_OF_RANGE_E \<and> check one big None = ECC_OUT_OF_RANGE_E \<and>
      check one_x one (Some big) = ECC_OUT_OF_RANGE_E \<and> check zero zero None = ECC_INF_E \<and> check zero five None = MP_VAL \<and>
      check one_x one None = (if pt_x ord = digs 58 9 0 \<and> pt_y ord = digs 58 9 0 then MP_OKAY else ECC_INF_E)"
proof -
  let ?one = "\<lparr>used = 1, dp = [1]\<rparr> :: mp_int" and ?zero = "\<lparr>used = 0, dp = []\<rparr> :: mp_int" and ?jd = "replicate 9 (0 :: int)"
  let ?big = "\<lparr>used = 9, dp = [0, 0, 0, 0, 0, 0, 0, 0, 512]\<rparr> :: mp_int" and ?five = "\<lparr>used = 1, dp = [5]\<rparr> :: mp_int"
  let ?cb = "\<lambda>m :: mp_int. if 2 ^ 521 \<le> mp_val m then 522 else 1 :: int"
  have v: "mp_val ?one = 1" "mp_val ?zero = 0" "mp_val ?five = 5" "mp_val ?big = 2 ^ 521"
    by (simp_all add: mp_val_def)
  have one: "mp_val one_x < P521" "mp_val one_x \<noteq> 0" "mp_val one_x < 2 ^ 521" by (simp_all add: one_x_val P521_def)
  have p: "P521 \<le> 2 ^ 521" "1 < P521" "5 < P521" "P521 > 0" "(2 :: int) ^ 521 > 5" "(2 :: int) ^ 521 > 1" by (simp_all add: P521_def)
  have cb: "521 < ?cb m \<longleftrightarrow> 2 ^ 521 \<le> mp_val m" for m by simp
  have l: "length ?jd = 9" by simp
  note K = sp_ecc_check_key_521_checks [of ?jd ?cb, OF l cb, where jp = p521_base]
  have 1: "sp_ecc_check_key_521 ?cb ?jd p521_base ?big ?one None = ECC_OUT_OF_RANGE_E"
    using K [of ?big ?one None, unfolded v] p by simp
  have 2: "sp_ecc_check_key_521 ?cb ?jd p521_base ?one ?big None = ECC_OUT_OF_RANGE_E"
    using K [of ?one ?big None, unfolded v] p by simp
  have 3: "sp_ecc_check_key_521 ?cb ?jd p521_base one_x ?one (Some ?big) = ECC_OUT_OF_RANGE_E"
    using K [of one_x ?one "Some ?big", unfolded v] v(4) by simp
  have 4: "sp_ecc_check_key_521 ?cb ?jd p521_base ?zero ?zero None = ECC_INF_E"
    using K [of ?zero ?zero None, unfolded v] p by simp
  let ?q = "affine_point ?jd p521_base ?zero ?five"
  have z: "mp_val ?zero < 2 ^ 521" "mp_val ?five < 2 ^ 521" unfolding v by simp_all
  note c = affine_point_coords [OF l z, of p521_base, unfolded v]
  have "sp_521_mod_9 (sp_521_sqr_9 (digs 58 9 0)) p521_mod = digs 58 9 0" by code_simp
  then have "is_point_safe ?q" using c(1,4,5) div_safe_small by (simp add: is_point_safe_def val521_def)
  moreover have "\<not> jac_on_curve P521 B521 0 5 1"
    by (simp add: jac_on_curve_def curve_poly_def P521_def B521_def p521_b_def)
  ultimately have 5: "sp_ecc_check_key_521 ?cb ?jd p521_base ?zero ?five None = MP_VAL"
    using K [of ?zero ?five None, unfolded v] p by simp
  have "curve_poly B521 (mp_val one_x) 1 1 = 1 ^ 2 - (mp_val one_x ^ 3 - 3 * mp_val one_x + B521)" by (simp add: curve_poly_def)
  then have "jac_on_curve P521 B521 (mp_val one_x) 1 1" using one_x_square unfolding jac_on_curve_def by simp
  then have 6: "sp_ecc_check_key_521 ?cb ?jd p521_base one_x ?one None =
      (let ord = sp_521_ecc_mulmod_9 p521_base p521_base (affine_point ?jd p521_base one_x ?one) p521_order True True
       in if pt_x ord = digs 58 9 0 \<and> pt_y ord = digs 58 9 0 then MP_OKAY else ECC_INF_E)"
    using K [of one_x ?one None, unfolded v is_point_one_x] one p by (auto simp: Let_def)
  show ?thesis using 1 2 3 4 5 6 unfolding Let_def by blast
qed

subsection \<open>Key generation\<close>

text \<open>C12: Key generation returns at the first acceptable block of the generator, passes a failure of the generator on,
  and otherwise takes the number of the block plus one, from 1 to the order minus 1, as the private
  key; the public point is its product with the base point, and the call fails with
  \<open>ECC_INF_E\<close> exactly when an ordinate of this point is zero, whatever its multiple by the order is. \<^verbatim>\<open>mp_grow\<close> is assumed to
  succeed and make room, and \<^verbatim>\<open>mp_clamp\<close> to keep the value.\<close>

theorem sp_ecc_make_key_521_correct:
  fixes jp :: sp_point_521
  assumes "length jd = 9" "\<forall>r. length (fst (snd (gen r))) = 66"
    and "\<And>m k. \<exists>m1. mp_grow lib m k = (0, m1) \<and> k \<le> length (dp m1)" and "\<And>m. mp_val (mp_clamp lib m) = mp_val m"
    and "\<forall>m<n. rejected (gen (rng_after gen m rng))" "gen (rng_after gen n rng) = (err, buf, rng')" "\<not> rejected (err, buf, rng')"
  defines "k \<equiv> digs 58 9 (block_val buf + 1)"
  defines "point \<equiv> sp_521_ecc_mulmod_base_9 jp jp k True True"
  shows "if err \<noteq> 0 then sp_ecc_make_key_521 lib jd jp gen rng priv pub = Some (LIB_E err, priv, pub, rng')
    else 1 \<le> lval 58 k \<and> lval 58 k < N521 \<and>
      (if sp_521_iszero_9 (pt_x point) = 1 \<or> sp_521_iszero_9 (pt_y point) = 1
       then sp_ecc_make_key_521 lib jd jp gen rng priv pub = Some (ECC_INF_E, priv, pub, rng')
       else \<exists>priv' pub'. sp_ecc_make_key_521 lib jd jp gen rng priv pub = Some (MP_OKAY, priv', pub', rng') \<and>
         mp_val priv' = lval 58 k \<and> sp_521_point_to_ecc_point_9 lib point pub = (0, pub'))"
proof -
  obtain k' where g: "sp_521_ecc_gen_k_9 gen jd rng = Some (err, k', rng')" "err = 0 \<longrightarrow> k' = k \<and> block_val buf < N521 - 1"
    using gen_k_stops [OF assms(1,2), of n rng] assms(5-7) unfolding k_def by auto
  have b: "0 \<le> block_val buf" by (simp add: block_val_def)
  show ?thesis
  proof (cases "err = 0")
    case False
    then show ?thesis using g(1) by (simp add: sp_ecc_make_key_521_def)
  next
    case True
    then have k': "k' = k" "block_val buf < N521 - 1" using g(2) by simp_all
    have v: "lval 58 k = block_val buf + 1" by (simp add: k_def)
    have r: "0 \<le> block_val buf + 1" "block_val buf + 1 < 2 ^ 522" using b k'(2) by (simp_all add: N521_numeral)
    obtain m1 where m1: "mp_grow lib priv 9 = (0, m1)" "9 \<le> length (dp m1)" using assms(3) by blast
    have "digits_in 0 (2 ^ 58) k" unfolding k_def by (rule digs9_le [OF r])
    from to_mp_correct [OF _ this m1 assms(4)] obtain priv' where p: "sp_521_to_mp lib k priv = (0, priv')" "mp_val priv' = lval 58 k"
      by (auto simp: k_def)
    have t: "\<exists>m2. sp_521_to_mp lib a m = (0, m2)" for a m
      using assms(3) [of m 9] by (auto simp: sp_521_to_mp_def)
    have "\<exists>pub'. sp_521_point_to_ecc_point_9 lib point pub = (0, pub')"
      using t [of "pt_x point" "ep_x pub"] t [of "pt_y point" "ep_y pub"] t [of "pt_z point" "ep_z pub"]
      by (auto simp: sp_521_point_to_ecc_point_9_def)
    then obtain pub' where q: "sp_521_point_to_ecc_point_9 lib point pub = (0, pub')" ..
    have z: "sp_521_iszero_9 a \<noteq> 0 \<longleftrightarrow> sp_521_iszero_9 a = 1" for a by (simp add: sp_521_iszero_9_def)
    show ?thesis
      using g(1) p q b k' True v
      by (simp add: sp_ecc_make_key_521_def point_def [symmetric] Let_def z lib_ret_def)
  qed
qed

theorem sp_ecc_make_key_521_correct_witness:
  "let gen = (\<lambda>i :: nat. (0, replicate 65 0 @ [4], Suc i)); mz = \<lparr>used = 0, dp = []\<rparr>; pub = \<lparr>ep_x = mz, ep_y = mz, ep_z = mz\<rparr>;
       r = sp_ecc_make_key_521 toy_mp (replicate 9 0) p521_base gen 0 mz pub
   in r = Some (ECC_INF_E, mz, pub, 1) \<or> (\<exists>priv' pub'. r = Some (MP_OKAY, priv', pub', 1) \<and> mp_val priv' = 5)"
proof -
  let ?g = "\<lambda>i :: nat. (0 :: int, replicate 65 (0 :: byte) @ [4], Suc i)" and ?mz = "\<lparr>used = 0, dp = []\<rparr>"
  have b: "block_val (replicate 65 0 @ [4]) = 4" by code_simp
  then have r: "\<not> rejected (0, replicate 65 0 @ [4], Suc 0)" by (simp add: rejected_def N521_numeral)
  have a: "?g (rng_after ?g 0 0) = (0, replicate 65 0 @ [4], Suc 0)" by (simp add: rng_after_def)
  have grow: "\<exists>m1. mp_grow toy_mp m k = (0, m1) \<and> k \<le> length (dp m1)" for m k by (simp add: toy_mp_def)
  have "\<forall>r. length (fst (snd (?g r))) = 66" "length (replicate 9 (0 :: int)) = 9" by simp_all
  note k = sp_ecc_make_key_521_correct [OF this(2,1) grow toy_mp_clamp _ a r, where jp = p521_base and priv = ?mz
      and pub = "\<lparr>ep_x = ?mz, ep_y = ?mz, ep_z = ?mz\<rparr>", unfolded b]
  have v: "lval 58 (digs 58 9 (4 + 1)) = 5" by simp
  show ?thesis using k unfolding v Let_def by (auto split: if_splits)
qed

end
