(* ===== verification/Sp521Sign.thy ===== *)
theory Sp521Sign
  imports Sp521Ecc
begin

text \<open>
  ECDSA on P-521: \<^verbatim>\<open>sp_ecc_sign_521\<close> and \<^verbatim>\<open>sp_ecc_verify_521\<close> of \<^verbatim>\<open>wolfssl-src/patches/sp_c64.c\<close>, composed of the random
  scalars and encodings of \<^verbatim>\<open>Sp521Enc\<close>, the scalar arithmetic of \<^verbatim>\<open>Sp521Ecdsa\<close> and the two
  multiplications.
\<close>

section \<open>Verification\<close>

definition mark_infinity :: "sp_point_521 \<Rightarrow> sp_point_521" where
  "mark_infinity p = (if sp_521_iszero_9 (pt_z p) \<noteq> 0 then p\<lparr>infinity := 1\<rparr> else p)"

definition sp_521_add_points_9 :: "sp_point_521 \<Rightarrow> sp_point_521 \<Rightarrow> sp_point_521" where
  "sp_521_add_points_9 p1 p2 =
    (let p1 = sp_521_proj_point_add_9 p1 p2
     in if sp_521_iszero_9 (pt_z p1) \<noteq> 0
        then (if sp_521_iszero_9 (pt_x p1) \<noteq> 0 \<and> sp_521_iszero_9 (pt_y p1) \<noteq> 0
              then sp_521_proj_point_dbl_9 p2
              else p1\<lparr>pt_x := replicate 9 0, pt_z := p521_norm_mod\<rparr>)
        else p1)"

definition sp_521_calc_vfy_point_9 ::
    "sp_point_521 \<Rightarrow> sp_point_521 \<Rightarrow> int list \<Rightarrow> int list \<Rightarrow> int list \<Rightarrow> sp_point_521 option" where
  "sp_521_calc_vfy_point_9 jp p2 s u1 u2 =
    (case vfy_scalars s u1 u2 of
       None \<Rightarrow> None
     | Some (u1, u2) \<Rightarrow>
         (let p1 = sp_521_ecc_mulmod_base_9 jp jp u1 False False;
              p1 = mark_infinity p1;
              p2 = sp_521_ecc_mulmod_9 jp p2 p2 u2 False False;
              p2 = mark_infinity p2
          in Some (sp_521_add_points_9 p1 p2)))"

text \<open>The value is \<^verbatim>\<open>*res\<close>; the call returns \<open>MP_OKAY\<close>, or not at all when the inversion does not return. The carry of
  \<^verbatim>\<open>sp_521_add_9\<close> is always 0.\<close>

definition sp_ecc_verify_521 ::
    "int list \<Rightarrow> sp_point_521 \<Rightarrow> byte list \<Rightarrow> nat \<Rightarrow> mp_int \<Rightarrow> mp_int \<Rightarrow> mp_int \<Rightarrow> mp_int \<Rightarrow> mp_int \<Rightarrow> bool option" where
  "sp_ecc_verify_521 jd jp hash hashLen pX pY pZ rm sm =
    (let u1 = load_hash jd hash hashLen;
         u2 = sp_521_from_mp jd 9 rm;
         s = sp_521_from_mp jd 9 sm;
         p2 = jp\<lparr>pt_x := sp_521_from_mp jd 9 pX, pt_y := sp_521_from_mp jd 9 pY, pt_z := sp_521_from_mp jd 9 pZ\<rparr>
     in case sp_521_calc_vfy_point_9 jp p2 s u1 u2 of
       None \<Rightarrow> None
     | Some p1 \<Rightarrow>
         (let u2 = sp_521_mod_mul_norm_9 (sp_521_from_mp jd 9 rm);
              z = sp_521_mont_sqr_9 (pt_z p1) p521_mod p521_mp_mod;
              u1 = sp_521_mont_mul_9 u2 z p521_mod p521_mp_mod;
              res = (sp_521_cmp_9 (pt_x p1) u1 = 0)
          in if res then Some True
             else
               (let u2 = sp_521_from_mp jd 9 rm;
                    u2 = sp_521_add_9 u2 p521_order;
                    u2 = sp_521_norm_9 u2;
                    c = sp_521_cmp_9 u2 p521_mod
                in if c < 0
                   then (let u2 = sp_521_mod_mul_norm_9 u2;
                             u1 = sp_521_mont_mul_9 u2 z p521_mod p521_mp_mod
                         in Some (sp_521_cmp_9 (pt_x p1) u1 = 0))
                   else Some False)))"

section \<open>Signing\<close>

text \<open>Two more functions of wolfSSL's \<^verbatim>\<open>mp_int\<close>; \<open>km = None\<close> is a null pointer.\<close>

record mp_zeros =
  mp_iszero :: "mp_int \<Rightarrow> bool"
  mp_zero :: "mp_int \<Rightarrow> mp_int"

definition sign_k ::
    "mp_zeros \<Rightarrow> ('r \<Rightarrow> int \<times> byte list \<times> 'r) \<Rightarrow> int list \<Rightarrow> mp_int option \<Rightarrow> 'r \<Rightarrow> (int \<times> int list \<times> mp_int option \<times> 'r) option" where
  "sign_k mz gen k km rng =
    (let random = (case sp_521_ecc_gen_k_9 gen k rng of None \<Rightarrow> None | Some (err, k, rng) \<Rightarrow> Some (err, k, km, rng))
     in case km of
          None \<Rightarrow> random
        | Some m \<Rightarrow> if mp_iszero mz m then random else Some (0, sp_521_from_mp k 9 m, Some (mp_zero mz m), rng))"

definition sign_r :: "int list \<Rightarrow> int list" where
  "sign_r x =
    (let r = sp_521_norm_9 (take 9 x);
         c = sp_521_cmp_9 r p521_order;
         r = sp_521_cond_sub_9 r p521_order (0 - (if c \<ge> 0 then 1 else 0))
     in sp_521_norm_9 r)"

text \<open>The loop with \<open>i\<close> attempts left and the test \<^verbatim>\<open>i == 0\<close> after it. The private key and the hash are loaded anew in
  every attempt.\<close>

fun sign_loop ::
    "mp_zeros \<Rightarrow> int list \<Rightarrow> sp_point_521 \<Rightarrow> ('r \<Rightarrow> int \<times> byte list \<times> 'r) \<Rightarrow> byte list \<Rightarrow> nat \<Rightarrow> mp_int \<Rightarrow>
     nat \<Rightarrow> int list \<Rightarrow> mp_int option \<Rightarrow> 'r \<Rightarrow> (sp_ret \<times> int list \<times> int list \<times> mp_int option \<times> 'r) option" where
  "sign_loop mz jd jp gen hash hashLen priv 0 k km rng = Some (RNG_FAILURE_E, jd, jd, km, rng)"
| "sign_loop mz jd jp gen hash hashLen priv (Suc i) k km rng =
    (case sign_k mz gen k km rng of
       None \<Rightarrow> None
     | Some (err, k, km, rng) \<Rightarrow>
         if err \<noteq> 0 then Some (if i = 0 then RNG_FAILURE_E else LIB_E err, jd, jd, km, rng)
         else
           (let point = sp_521_ecc_mulmod_base_9 jp jp k True True;
                r = sign_r (pt_x point)
            in if sp_521_iszero_9 r = 0
               then (let x = sp_521_from_mp jd 9 priv;
                         e = load_hash jd hash hashLen;
                         s = sp_521_calc_s_9 r k x e
                     in if sp_521_iszero_9 s = 0 then Some (MP_OKAY, r, s, km, rng)
                        else sign_loop mz jd jp gen hash hashLen priv i k km rng)
               else sign_loop mz jd jp gen hash hashLen priv i k km rng))"

definition sp_ecc_sign_521 ::
    "mp_lib \<Rightarrow> mp_zeros \<Rightarrow> int list \<Rightarrow> sp_point_521 \<Rightarrow> ('r \<Rightarrow> int \<times> byte list \<times> 'r) \<Rightarrow> byte list \<Rightarrow> nat \<Rightarrow> 'r \<Rightarrow> mp_int \<Rightarrow>
     mp_int \<Rightarrow> mp_int \<Rightarrow> mp_int option \<Rightarrow> (sp_ret \<times> mp_int \<times> mp_int \<times> mp_int option \<times> 'r) option" where
  "sp_ecc_sign_521 lib mz jd jp gen hash hashLen rng priv rm sm km =
    (case sign_loop mz jd jp gen hash hashLen priv 64 jd km rng of
       None \<Rightarrow> None
     | Some (err, r, s, km, rng) \<Rightarrow>
         if err \<noteq> MP_OKAY then Some (err, rm, sm, km, rng)
         else case sp_521_to_mp lib r rm of (err, rm) \<Rightarrow>
           if err \<noteq> 0 then Some (LIB_E err, rm, sm, km, rng)
           else case sp_521_to_mp lib s sm of (err, sm) \<Rightarrow> Some (lib_ret err, rm, sm, km, rng))"

section \<open>Scalars of more than nine digits\<close>

lemma comb_loop_take9: "comb_loop k j x y = comb_loop (take 9 k) j x y"
proof (induction k j x y rule: comb_loop.induct)
  case (1 k j x y)
  have "x div 58 < 9" if "x < 521" using that by linarith
  then show ?case using 1 by (subst (1 2) comb_loop.simps) auto
qed

lemma stripe_take9: "sp_521_ecc_mulmod_stripe_9 jp r t k m ct = sp_521_ecc_mulmod_stripe_9 jp r t (take 9 k) m ct"
proof -
  have c: "comb_index k = comb_index (take 9 k)" unfolding comb_index_def using comb_loop_take9 by blast
  have "stripe_round ct t k = stripe_round ct t (take 9 k)" unfolding stripe_round_def c ..
  then show ?thesis unfolding sp_521_ecc_mulmod_stripe_9_def c by (simp only:)
qed

lemma recode_take9: "sp_521_ecc_recode_6_9 k = sp_521_ecc_recode_6_9 (take 9 k)"
proof -
  have "recode_window k pos = recode_window (take 9 k) pos" for pos
    by (cases pos) (simp add: recode_window_def Let_def)
  then have "recode_step k = recode_step (take 9 k)" by (simp add: recode_step_def fun_eq_iff)
  then show ?thesis by (simp add: sp_521_ecc_recode_6_9_def)
qed

lemma mulmod_take9: "sp_521_ecc_mulmod_9 jp r g k m ct = sp_521_ecc_mulmod_9 jp r g (take 9 k) m ct"
proof -
  have e: "sp_521_ecc_recode_6_9 k = sp_521_ecc_recode_6_9 (take 9 k)" by (rule recode_take9)
  show ?thesis unfolding sp_521_ecc_mulmod_9_def sp_521_ecc_mulmod_win_add_sub_9_def e ..
qed

section \<open>The points of the verification\<close>

lemma wf_copy: "wf_pt p \<Longrightarrow> wf_pt \<lparr>pt_x = take 9 (pt_x p), pt_y = take 9 (pt_y p), pt_z = take 9 (pt_z p), infinity = i\<rparr>"
  by (simp add: wf_pt_def fe521_def val521_def)

lemma mark_held: "comb_wf.held p \<Longrightarrow> comb_wf.held (mark_infinity p)"
  using len9_wf [of p] by (auto simp: mark_infinity_def comb_wf.held_def len9_def)

lemma mark_wf: "wf_pt (mark_infinity p) = wf_pt p"
  by (simp add: mark_infinity_def wf_pt_def)

lemma ok_held: "ok_pt p \<Longrightarrow> comb_wf.held p"
  by (auto simp: ok_pt_def comb_wf.held_def valid_wf len9_wf)

lemma add_9_held:
  assumes "comb_wf.held p" "comb_wf.held q" "\<not> (infinity p = 1 \<and> infinity q = 1)"
  shows "wf_pt (sp_521_proj_point_add_9 p q) \<and> infinity (sp_521_proj_point_add_9 p q) = 0"
proof -
  have l: "9 \<le> length (pt_x p)" "9 \<le> length (pt_y p)" "9 \<le> length (pt_z p)"
    "9 \<le> length (pt_x q)" "9 \<le> length (pt_y q)" "9 \<le> length (pt_z q)"
    using assms(1,2) len9_wf by (auto simp: comb_wf.held_def len9_def)
  note i = proj_point_add_9_infinity [OF l]
  consider "infinity p = 0" "wf_pt p" "infinity q = 0" "wf_pt q" | "infinity p = 0" "wf_pt p" "infinity q = 1"
    | "infinity p = 1" "infinity q = 0" "wf_pt q"
    using assms by (auto simp: comb_wf.held_def)
  then show ?thesis
  proof cases
    case 1
    show ?thesis
    proof (cases "same_9 p q")
      case True
      have "sp_521_proj_point_add_9 p q = sp_521_proj_point_dbl_9 p"
        by (rule proj_point_add_9_same) (use 1 True in \<open>simp_all add: wf_pt_def\<close>)
      then show ?thesis using comb_wf.G_dbl [OF 1(2)] dbl_9_infinity [of p] 1(1) by simp
    next
      case False
      note a = add_9_pt3 [OF pt3_coords [OF 1(2)] pt3_coords [OF 1(4)] 1(1,3) False]
      show ?thesis using a(2) pt3_wf [OF a(1)] by blast
    qed
  next
    case 2
    then show ?thesis using i(1) wf_copy [of p] by simp
  next
    case 3
    then show ?thesis using i(2) wf_copy [of q] by simp
  qed
qed

lemma add_points_wf:
  assumes "comb_wf.held p" "comb_wf.held q" "wf_pt q" "\<not> (infinity p = 1 \<and> infinity q = 1)"
  shows "wf_pt (sp_521_add_points_9 p q)"
proof -
  note a = add_9_held [OF assms(1,2,4)]
  have "fe521 (replicate 9 0)" by (simp add: fe521_def val521_def digits_in_def P521_def)
  then show ?thesis
    using a comb_wf.G_dbl [OF assms(3)] fe521_consts(2) unfolding sp_521_add_points_9_def Let_def
    by (auto simp: wf_pt_def)
qed

lemma base_9_held:
  assumes "fe521 u" "take 9 u = digs 58 9 (val521 u)"
  shows "comb_wf.held (sp_521_ecc_mulmod_base_9 jp r u False ct)"
proof -
  have "val521 u < 2 ^ 521" using fe521_digits(4) [OF assms(1)] by (simp add: P521_def)
  from comb_wf.held_stripe [OF p521_table_wf fe521_digits(3) [OF assms(1)] this]
  show ?thesis unfolding sp_521_ecc_mulmod_base_9_def by (subst stripe_take9) (simp only: assms(2))
qed

lemma mulmod_9_ok:
  assumes "valid521 g" "fe521 u" "take 9 u = digs 58 9 (val521 u)"
  shows "ok_pt (sp_521_ecc_mulmod_9 jp r g u False ct)"
proof -
  have v: "0 \<le> val521 u" "val521 u < 2 ^ 521" using fe521_digits(3,4) [OF assms(2)] by (simp_all add: P521_def)
  have "digits_in 0 (2 ^ 58) (digs 58 9 (val521 u))" using v by (intro digs9_le) simp_all
  then have "ok_pt (sp_521_ecc_mulmod_9 jp r g (digs 58 9 (val521 u)) False ct)"
    unfolding sp_521_ecc_mulmod_9_def using mulmod_win_ok(2) [OF assms(1)] v(2) by simp
  then show ?thesis by (subst mulmod_take9) (simp only: assms(3))
qed

section \<open>The comparison\<close>

lemma fe521_words_take:
  assumes "fe521 a" "fe521 b"
  shows "(\<forall>i<9. a ! i mod 2 ^ 64 = b ! i mod 2 ^ 64) \<longleftrightarrow> take 9 a = take 9 b"
proof
  have d: "0 \<le> c ! i \<and> c ! i \<le> 2 ^ 58" if "fe521 c" "i < 9" for c i
  proof -
    have "take 9 c ! i \<in> set (take 9 c)" using that by (intro nth_mem) (simp add: fe521_def)
    then have "0 \<le> take 9 c ! i \<and> take 9 c ! i < 2 ^ 58 + 1" using that by (simp only: fe521_def digits_in_def)
    then show ?thesis using that by simp
  qed
  assume h: "\<forall>i<9. a ! i mod 2 ^ 64 = b ! i mod 2 ^ 64"
  have "a ! i = b ! i" if "i < 9" for i
  proof -
    have "a ! i mod 2 ^ 64 = a ! i" "b ! i mod 2 ^ 64 = b ! i" using d [OF assms(1) that] d [OF assms(2) that] by simp_all
    then show ?thesis using h that by metis
  qed
  then show "take 9 a = take 9 b" using assms by (intro nth_equalityI) (simp_all add: fe521_def)
next
  assume "take 9 a = take 9 b"
  then show "\<forall>i<9. a ! i mod 2 ^ 64 = b ! i mod 2 ^ 64" by (metis nth_take)
qed

text \<open>The candidate for the ordinate of the projective point \<open>p\<close>: \<open>v\<close> times the square of its \<open>z\<close>.\<close>

definition x_candidate :: "sp_point_521 \<Rightarrow> int \<Rightarrow> int list" where
  "x_candidate p v = sp_521_mont_mul_9 (digs 58 9 v) (sp_521_mont_sqr_9 (pt_z p) p521_mod p521_mp_mod) p521_mod p521_mp_mod"

lemma x_candidate_rep:
  assumes "wf_pt p" "0 \<le> v" "v \<le> P521"
  shows "f521.rep (x_candidate p v) (v * (val521 (pt_z p) * val521 (pt_z p)))"
proof -
  have w: "fe521 (pt_z p)" using assms(1) by (simp add: wf_pt_def)
  have "f521.rep (digs 58 9 v) v" using f521.rep_self [OF reduced_fe521(1) [OF assms(2,3)]] reduced_fe521(2) [OF assms(2,3)] by simp
  then show ?thesis unfolding x_candidate_def by (intro f521.rep_intros f521.rep_self w)
qed

lemma compare_digits:
  assumes "wf_pt p" "0 \<le> v" "v \<le> P521"
  shows "sp_521_cmp_9 (pt_x p) (x_candidate p v) = 0 \<longleftrightarrow> take 9 (pt_x p) = take 9 (x_candidate p v)"
    and "take 9 (pt_x p) = take 9 (x_candidate p v) \<Longrightarrow> P521 dvd val521 (pt_x p) - v * val521 (pt_z p) ^ 2"
proof -
  have w: "fe521 (pt_x p)" using assms(1) by (simp add: wf_pt_def)
  note r = x_candidate_rep [OF assms] and f = f521.rep_fe [OF x_candidate_rep [OF assms]]
  show "sp_521_cmp_9 (pt_x p) (x_candidate p v) = 0 \<longleftrightarrow> take 9 (pt_x p) = take 9 (x_candidate p v)"
    unfolding cmp_9_zero [OF fe521_digits(1) [OF w] fe521_digits(1) [OF f]] by (rule fe521_words_take [OF w f])
  assume "take 9 (pt_x p) = take 9 (x_candidate p v)"
  then have "val521 (pt_x p) = val521 (x_candidate p v)" by (simp add: val521_def)
  then have "val521 (pt_x p) mod P521 = (v * (val521 (pt_z p) * val521 (pt_z p))) mod P521" using r by (simp only: f521.rep_def)
  then show "P521 dvd val521 (pt_x p) - v * val521 (pt_z p) ^ 2" by (simp only: mod_eq_dvd_iff power2_eq_square)
qed

text \<open>The second candidate, \<open>r\<close> plus the order.\<close>

lemma second_candidate:
  assumes "length jd = 9" "mp_val m < N521"
  defines "u \<equiv> sp_521_norm_9 (sp_521_add_9 (sp_521_from_mp jd 9 m) p521_order)"
  shows "sp_521_cmp_9 u p521_mod < 0 \<longleftrightarrow> mp_val m + N521 < P521" "u = digs 58 9 (mp_val m + N521)"
proof -
  have m: "mp_val m < 2 ^ 521" "0 \<le> mp_val m" using assms(2) mp_val_nonneg [of m] by (simp_all add: N521_numeral)
  note f = from_mp_reduced [OF assms(1) m(1)]
  have n: "0 \<le> N521" "val521 p521_order = N521" using p521_order_digs by (simp_all add: N521_numeral val521_def)
  show u: "u = digs 58 9 (mp_val m + N521)"
    unfolding u_def norm_add_9(1) [OF f(2) fe521_order(2)] f(3) n(2) ..
  have "mp_val m + N521 < 2 ^ 522" using assms(2) by (simp add: N521_numeral)
  then show "sp_521_cmp_9 u p521_mod < 0 \<longleftrightarrow> mp_val m + N521 < P521"
    using cmp_9_mod_ge [of "mp_val m + N521"] m(2) n(1) unfolding u by linarith
qed

text \<open>The decision: the ordinate is compared with both candidates.\<close>

lemma verify_decision:
  assumes "length jd = 9" "mp_val rm < N521"
    and "sp_521_calc_vfy_point_9 jp (jp\<lparr>pt_x := sp_521_from_mp jd 9 pX, pt_y := sp_521_from_mp jd 9 pY, pt_z := sp_521_from_mp jd 9 pZ\<rparr>)
      (sp_521_from_mp jd 9 sm) (load_hash jd hash n) (sp_521_from_mp jd 9 rm) = Some p"
  shows "sp_ecc_verify_521 jd jp hash n pX pY pZ rm sm =
    Some (sp_521_cmp_9 (pt_x p) (x_candidate p (mp_val rm)) = 0 \<or>
      mp_val rm + N521 < P521 \<and> sp_521_cmp_9 (pt_x p) (x_candidate p (mp_val rm + N521)) = 0)"
proof -
  have "mp_val rm < 2 ^ 521" using assms(2) by (simp add: N521_numeral)
  note f = from_mp_reduced(1) [OF assms(1) this]
  note c = second_candidate [OF assms(1,2)]
  show ?thesis
    unfolding sp_ecc_verify_521_def Let_def assms(3) option.case c(1) unfolding c(2) unfolding f
    by (simp add: x_candidate_def sp_521_mod_mul_norm_9_def)
qed


lemma hash_range:
  "0 \<le> be_num hash div 2 ^ (8 * length hash - 521)" "be_num hash div 2 ^ (8 * length hash - 521) \<le> P521"
proof -
  note b = be_num_range [of hash]
  show "0 \<le> be_num hash div 2 ^ (8 * length hash - 521)" using b(1) by (simp add: pos_imp_zdiv_nonneg_iff)
  have "be_num hash < 2 ^ (8 * length hash - 521) * 2 ^ 521"
  proof -
    have "(2 :: int) ^ (8 * length hash) \<le> 2 ^ (8 * length hash - 521 + 521)" by (intro power_increasing) simp_all
    then show ?thesis using b(2) by (simp only: power_add)
  qed
  then have "be_num hash div 2 ^ (8 * length hash - 521) < 2 ^ 521" by (intro div_less_of_less_mult) simp_all
  then show "be_num hash div 2 ^ (8 * length hash - 521) \<le> P521" by (simp add: P521_def)
qed

section \<open>Properties\<close>

text \<open>C8: Verification returns, and decides by the comparison it is meant to make.  For signature values below the order with an
  invertible \<open>s\<close>, a public key on the curve and numbers on which the trial division is exact, the multipliers are
  the two \<open>vfy_scalars\<close> computes; they are well-formed and are \<open>u1 s = e\<close> and \<open>u2 s = r\<close> modulo the order; the two
  products are of \<open>u1\<close> with the base point and of \<open>u2\<close> with the public key, marked when their \<open>z\<close> is zero, and are added; and the
  call answers yes exactly when the \<open>x\<close> of the sum compares equal with \<open>r z\<^sup>2\<close>, or \<open>r\<close> plus the order is below
  the prime and it compares equal with \<open>(r + n) z\<^sup>2\<close>.  Unless both products are at infinity, the sum is well-formed, the comparison
  is equality of the nine digits, and a yes means \<open>x = r z\<^sup>2\<close> or \<open>x = (r + n) z\<^sup>2\<close> modulo the prime.\<close>

theorem sp_ecc_verify_521_sound:
  fixes jp :: sp_point_521 and pX pY pZ :: mp_int
  assumes "length jd = 9" "mp_val rm < N521" "mp_val sm < N521" "coprime (mp_val sm) N521"
    and "\<forall>t. sp_521_mod_inv_9 (digs 58 9 (mp_val sm)) p521_order = Some t \<longrightarrow> div_safe N521 (val521 t * val521 p521_norm_order)"
  defines "q \<equiv> jp\<lparr>pt_x := sp_521_from_mp jd 9 pX, pt_y := sp_521_from_mp jd 9 pY, pt_z := sp_521_from_mp jd 9 pZ\<rparr>"
  assumes "valid521 q"
  shows "\<exists>u1 u2 p1 p2 p res.
    vfy_scalars (sp_521_from_mp jd 9 sm) (load_hash jd hash (length hash)) (sp_521_from_mp jd 9 rm) = Some (u1, u2) \<and>
    fe521 u1 \<and> fe521 u2 \<and>
    (val521 u1 * mp_val sm) mod N521 = (be_num hash div 2 ^ (8 * length hash - 521)) mod N521 \<and>
    (val521 u2 * mp_val sm) mod N521 = mp_val rm mod N521 \<and>
    p1 = mark_infinity (sp_521_ecc_mulmod_base_9 jp jp u1 False False) \<and>
    p2 = mark_infinity (sp_521_ecc_mulmod_9 jp q q u2 False False) \<and>
    p = sp_521_add_points_9 p1 p2 \<and>
    sp_ecc_verify_521 jd jp hash (length hash) pX pY pZ rm sm = Some res \<and>
    (res \<longleftrightarrow> sp_521_cmp_9 (pt_x p) (x_candidate p (mp_val rm)) = 0 \<or>
      mp_val rm + N521 < P521 \<and> sp_521_cmp_9 (pt_x p) (x_candidate p (mp_val rm + N521)) = 0) \<and>
    (\<not> (infinity p1 = 1 \<and> infinity p2 = 1) \<longrightarrow> wf_pt p \<and>
      (res \<longleftrightarrow> take 9 (pt_x p) = take 9 (x_candidate p (mp_val rm)) \<or>
        mp_val rm + N521 < P521 \<and> take 9 (pt_x p) = take 9 (x_candidate p (mp_val rm + N521))) \<and>
      (res \<longrightarrow> P521 dvd val521 (pt_x p) - mp_val rm * val521 (pt_z p) ^ 2 \<or>
         mp_val rm + N521 < P521 \<and> P521 dvd val521 (pt_x p) - (mp_val rm + N521) * val521 (pt_z p) ^ 2))"
proof -
  have m: "mp_val rm < 2 ^ 521" "mp_val sm < 2 ^ 521" "0 \<le> mp_val rm" using assms(2,3) mp_val_nonneg by (simp_all add: N521_numeral)
  have S: "0 \<le> mp_val sm" "mp_val sm \<le> P521" "mp_val rm \<le> P521" using m mp_val_nonneg by (simp_all add: P521_def)
  note r = from_mp_reduced [OF assms(1) m(1)] and s = from_mp_reduced(1) [OF assms(1) m(2)]
  note e = reduced_fe521 [OF hash_range [of hash]]
  have h: "load_hash jd hash (length hash) = digs 58 9 (be_num hash div 2 ^ (8 * length hash - 521))" (is "_ = ?e")
    by (rule load_hash_digs [OF assms(1)])
  obtain u1 u2 R where u: "vfy_scalars (sp_521_from_mp jd 9 sm) (load_hash jd hash (length hash)) (sp_521_from_mp jd 9 rm) = Some (u1, u2)"
      "fe521 u1" "fe521 u2"
      "(R * mp_val sm) mod N521 = 1" "val521 u1 mod N521 = (val521 ?e * R) mod N521"
      "val521 u2 mod N521 = (val521 (sp_521_from_mp jd 9 rm) * R) mod N521"
      "take 9 u1 = digs 58 9 (val521 u1)" "take 9 u2 = digs 58 9 (val521 u2)"
    using vfy_scalars_correct [OF S(1,2) assms(4) e(1) r(2) assms(5)] unfolding s h by blast
  define p1 p2 where "p1 = mark_infinity (sp_521_ecc_mulmod_base_9 jp jp u1 False False)"
    and "p2 = mark_infinity (sp_521_ecc_mulmod_9 jp q q u2 False False)"
  define p where "p = sp_521_add_points_9 p1 p2"
  have "sp_521_calc_vfy_point_9 jp q (sp_521_from_mp jd 9 sm) (load_hash jd hash (length hash)) (sp_521_from_mp jd 9 rm) = Some p"
    by (simp add: sp_521_calc_vfy_point_9_def u(1) Let_def p_def p1_def p2_def)
  note v = verify_decision [OF assms(1,2) this [unfolded q_def]]
  have ok: "ok_pt (sp_521_ecc_mulmod_9 jp q q u2 False False)" by (rule mulmod_9_ok [OF assms(7) u(3,8)])
  have held: "comb_wf.held p1" "comb_wf.held p2" "wf_pt p2"
    unfolding p1_def p2_def mark_wf by (rule mark_held base_9_held [OF u(2,7)] ok_held [OF ok] ok_pt_wf [OF ok])+
  have w: "wf_pt p" if "\<not> (infinity p1 = 1 \<and> infinity p2 = 1)" unfolding p_def by (rule add_points_wf [OF held that])
  have n: "0 \<le> mp_val rm + N521" "mp_val rm + N521 \<le> P521" if "mp_val rm + N521 < P521"
    using m(3) that by (simp_all add: N521_numeral)
  note d = compare_digits [OF w m(3) S(3)] compare_digits [OF w n]
  let ?r = "mp_val rm"
  let ?res = "sp_521_cmp_9 (pt_x p) (x_candidate p ?r) = 0 \<or>
    ?r + N521 < P521 \<and> sp_521_cmp_9 (pt_x p) (x_candidate p (?r + N521)) = 0"
  have cong: "(val521 u1 * mp_val sm) mod N521 = (be_num hash div 2 ^ (8 * length hash - 521)) mod N521"
    "(val521 u2 * mp_val sm) mod N521 = ?r mod N521"
    using inverse_cancel [OF u(4,5)] inverse_cancel [OF u(4,6)] unfolding e(2) r(3) by simp_all
  have decided: "\<not> (infinity p1 = 1 \<and> infinity p2 = 1) \<longrightarrow> wf_pt p \<and>
      (?res \<longleftrightarrow> take 9 (pt_x p) = take 9 (x_candidate p ?r) \<or>
        ?r + N521 < P521 \<and> take 9 (pt_x p) = take 9 (x_candidate p (?r + N521))) \<and>
      (?res \<longrightarrow> P521 dvd val521 (pt_x p) - ?r * val521 (pt_z p) ^ 2 \<or>
         ?r + N521 < P521 \<and> P521 dvd val521 (pt_x p) - (?r + N521) * val521 (pt_z p) ^ 2)"
    using d w by blast
  show ?thesis
    by (rule exI [of _ u1], rule exI [of _ u2], rule exI [of _ p1], rule exI [of _ p2], rule exI [of _ p], rule exI [of _ ?res],
        intro conjI u(1-3) cong v decided p_def) (simp_all only: p1_def p2_def)
qed

lemma mod_inv_one:
  assumes "sp_521_mod_inv_9 (digs 58 9 1) p521_order = Some t"
  shows "val521 t = 1"
proof -
  obtain R where R: "loose t R" "0 \<le> R" "R < N521" "N521 dvd R - 1"
    using mod_inv_9_inverse [OF _ _ _ order_modulus, of 1] assms by auto
  have n: "1 < N521" by (simp add: N521_numeral)
  have "R mod N521 = 1 mod N521" using R(4) by (simp only: mod_eq_dvd_iff)
  then have "R = 1" using R(2,3) n by simp
  then show ?thesis using R(1) by (simp add: loose_def val521_def)
qed

theorem sp_ecc_verify_521_sound_witness:
  "let z = replicate 9 (0 :: int); one = \<lparr>used = 1, dp = [1]\<rparr> :: mp_int;
       q = p521_base\<lparr>pt_x := sp_521_from_mp z 9 one_x, pt_y := sp_521_from_mp z 9 one, pt_z := sp_521_from_mp z 9 one\<rparr>
   in \<exists>u1 u2 p1 p2 p res. vfy_scalars (sp_521_from_mp z 9 one) (load_hash z [7, 8] 2) (sp_521_from_mp z 9 one) = Some (u1, u2) \<and>
     val521 u1 mod N521 = 1800 \<and> val521 u2 mod N521 = 1 \<and>
     p1 = mark_infinity (sp_521_ecc_mulmod_base_9 p521_base p521_base u1 False False) \<and>
     p2 = mark_infinity (sp_521_ecc_mulmod_9 p521_base q q u2 False False) \<and> p = sp_521_add_points_9 p1 p2 \<and>
     sp_ecc_verify_521 z p521_base [7, 8] 2 one_x one one one one = Some res \<and>
     (\<not> (infinity p1 = 1 \<and> infinity p2 = 1) \<longrightarrow> wf_pt p \<and>
       (res \<longleftrightarrow> take 9 (pt_x p) = take 9 (x_candidate p 1) \<or>
         1 + N521 < P521 \<and> take 9 (pt_x p) = take 9 (x_candidate p (1 + N521))))"
proof -
  let ?one = "\<lparr>used = 1, dp = [1]\<rparr> :: mp_int" and ?z = "replicate 9 (0 :: int)"
  let ?q = "p521_base\<lparr>pt_x := sp_521_from_mp ?z 9 one_x, pt_y := sp_521_from_mp ?z 9 ?one, pt_z := sp_521_from_mp ?z 9 ?one\<rparr>"
  have one: "mp_val ?one = 1" by (simp add: mp_val_def)
  have x: "mp_val one_x < 2 ^ 521" by (simp add: one_x_val)
  have l: "length ?z = 9" by simp
  have n: "1 < N521" "val521 p521_norm_order < 2 ^ 261" "0 \<le> val521 p521_norm_order"
    by (simp_all add: N521_numeral val521_def p521_norm_order_def)
  have c: "curve_poly B521 (mp_val one_x) 1 1 = 1 ^ 2 - (mp_val one_x ^ 3 - 3 * mp_val one_x + B521)" by (simp add: curve_poly_def)
  have "jac_on_curve P521 B521 (mp_val one_x) 1 1" unfolding jac_on_curve_def c by (rule one_x_square)
  then have v: "valid521 ?q"
    using from_mp_reduced(2,3) [OF l x] from_mp_reduced(2,3) [OF l, of ?one] one by (simp add: valid521_def)
  have safe: "\<forall>t. sp_521_mod_inv_9 (digs 58 9 (mp_val ?one)) p521_order = Some t \<longrightarrow> div_safe N521 (val521 t * val521 p521_norm_order)"
    unfolding one using mod_inv_one div_safe_small_order [OF n(3,2)] by simp
  have r: "mp_val ?one < N521" "coprime (mp_val ?one) N521" unfolding one using n(1) by simp_all
  have two: "length [7, 8 :: byte] = 2" by simp
  have e: "be_num [7, 8] div 2 ^ (8 * 2 - 521) mod N521 = 1800" "1 mod N521 = 1" by (simp_all add: be_num_def N521_numeral)
  show ?thesis
    using sp_ecc_verify_521_sound [OF l r(1,1,2) safe v, where hash = "[7, 8]", unfolded two, unfolded one mult_1_right e]
    unfolding Let_def by blast
qed

subsection \<open>Signing\<close>

text \<open>The first signature value is a number below the order.\<close>

lemma sign_r_reduced:
  assumes "0 \<le> w" "w < P521"
  shows "\<exists>v. 0 \<le> v \<and> v < N521 \<and> sign_r (digs 58 9 w) = digs 58 9 v"
proof -
  have w: "w \<le> P521" "w < 2 ^ 522" using assms by (simp_all add: P521_def)
  note f = reduced_fe521 [OF assms(1) w(1)]
  have n: "sp_521_norm_9 (digs 58 9 w) = digs 58 9 w" using norm_fe521 [OF f(1)] by (simp only: f(2))
  have t: "take 9 (digs 58 9 w) = digs 58 9 w" by simp
  have "sign_r (digs 58 9 w) = digs 58 9 (if w \<ge> N521 then w - N521 else w)"
    unfolding sign_r_def t n Let_def by (rule cond_sub_9_reduces [OF assms(1) w(2)])
  moreover have "w - N521 < N521" using assms(2) by (simp add: N521_numeral P521_def)
  ultimately show ?thesis using assms(1) by (intro exI [of _ "if w \<ge> N521 then w - N521 else w"]) auto
qed

text \<open>The two values a nonce \<open>v\<close> gives, and whether they make a signature.\<close>

definition sig_r :: "sp_point_521 \<Rightarrow> int \<Rightarrow> int list" where
  "sig_r jp v = sign_r (pt_x (sp_521_ecc_mulmod_base_9 jp jp (digs 58 9 v) True True))"

definition sig_s :: "int list \<Rightarrow> sp_point_521 \<Rightarrow> byte list \<Rightarrow> mp_int \<Rightarrow> int \<Rightarrow> int list" where
  "sig_s jd jp hash priv v =
    sp_521_calc_s_9 (sig_r jp v) (digs 58 9 v) (sp_521_from_mp jd 9 priv) (load_hash jd hash (length hash))"

definition sig_ok :: "int list \<Rightarrow> sp_point_521 \<Rightarrow> byte list \<Rightarrow> mp_int \<Rightarrow> int \<Rightarrow> bool" where
  "sig_ok jd jp hash priv v \<longleftrightarrow> sp_521_iszero_9 (sig_r jp v) = 0 \<and> sp_521_iszero_9 (sig_s jd jp hash priv v) = 0"

text \<open>
  Which nonces are tried. Block \<open>j\<close> of the generator is the \<open>n\<close>-th one it does not reject; a number \<open>km\<close>
  given by the caller is the first nonce when it is not zero, and is then cleared.
\<close>

definition random_block :: "('r \<Rightarrow> int \<times> byte list \<times> 'r) \<Rightarrow> 'r \<Rightarrow> nat \<Rightarrow> nat \<Rightarrow> bool" where
  "random_block gen rng n j \<longleftrightarrow> \<not> rejected (gen (rng_after gen j rng)) \<and>
    length (filter (\<lambda>i. \<not> rejected (gen (rng_after gen i rng))) [0..<j]) = n"

definition random_nonce :: "('r \<Rightarrow> int \<times> byte list \<times> 'r) \<Rightarrow> 'r \<Rightarrow> nat \<Rightarrow> int \<Rightarrow> int \<Rightarrow> 'r \<Rightarrow> bool" where
  "random_nonce gen rng n err v rng' \<longleftrightarrow>
    (\<exists>j buf. random_block gen rng n j \<and> gen (rng_after gen j rng) = (err, buf, rng') \<and> v = block_val buf + 1)"

definition given :: "mp_int option \<Rightarrow> bool" where
  "given km = (case km of None \<Rightarrow> False | Some m \<Rightarrow> mp_val m \<noteq> 0)"

definition sign_nonce :: "('r \<Rightarrow> int \<times> byte list \<times> 'r) \<Rightarrow> mp_int option \<Rightarrow> 'r \<Rightarrow> nat \<Rightarrow> int \<Rightarrow> int \<Rightarrow> 'r \<Rightarrow> bool" where
  "sign_nonce gen km rng n err v rng' =
    (if given km
     then (if n = 0 then err = 0 \<and> v = mp_val (the km) \<and> rng' = rng else random_nonce gen rng (n - 1) err v rng')
     else random_nonce gen rng n err v rng')"

definition km_cleared :: "mp_zeros \<Rightarrow> mp_int option \<Rightarrow> mp_int option" where
  "km_cleared mz km = (if given km then map_option (mp_zero mz) km else km)"

lemma rng_after_add: "rng_after gen (i + j) rng = rng_after gen j (rng_after gen i rng)"
  by (simp add: rng_after_def funpow_add add.commute [of i j])

lemma random_block_unique:
  assumes "random_block gen rng n i" "random_block gen rng n j"
  shows "i = j"
proof -
  have less: "length (filter P [0..<i]) < length (filter P [0..<j])" if "P i" "i < j" for P :: "nat \<Rightarrow> bool" and i j
  proof -
    have "[0..<j] = [0..<i] @ i # [Suc i..<j]" using that(2) by (metis append_Cons append_Nil le_add_diff_inverse less_imp_le_nat upt_add_eq_append upt_conv_Cons zero_le)
    then show ?thesis using that(1) by simp
  qed
  show ?thesis
    using assms less [of "\<lambda>i. \<not> rejected (gen (rng_after gen i rng))" i j]
      less [of "\<lambda>i. \<not> rejected (gen (rng_after gen i rng))" j i]
    by (cases i j rule: linorder_cases) (auto simp: random_block_def)
qed

lemma sign_nonce_unique:
  assumes "sign_nonce gen km rng n err v rng'" "sign_nonce gen km rng n err2 v2 rng2"
  shows "err = err2 \<and> v = v2 \<and> rng' = rng2"
  using assms random_block_unique by (fastforce simp: sign_nonce_def random_nonce_def split: if_splits)

lemma random_block_first: "random_block gen rng 0 j \<longleftrightarrow>
    \<not> rejected (gen (rng_after gen j rng)) \<and> (\<forall>i<j. rejected (gen (rng_after gen i rng)))"
  by (auto simp: random_block_def filter_empty_conv)

lemma random_block_next:
  assumes "random_block gen rng 0 i" "random_block gen (rng_after gen (Suc i) rng) n j"
  shows "random_block gen rng (Suc n) (Suc i + j)"
proof -
  let ?P = "\<lambda>i. \<not> rejected (gen (rng_after gen i rng))"
  have "[0..<Suc i + j] = [0..<Suc i] @ map (\<lambda>m. m + Suc i) [0..<j]"
    unfolding map_add_upt add.commute [of j] by (rule upt_add_eq_append) simp
  moreover have "length (filter ?P [0..<Suc i]) = 1"
    using assms(1) by (simp add: random_block_def)
  moreover have "length (filter ?P (map (\<lambda>m. m + Suc i) [0..<j])) = n"
    using assms(2) rng_after_add [of gen "Suc i" _ rng] by (simp add: random_block_def filter_map o_def add.commute)
  ultimately have "length (filter ?P [0..<Suc i + j]) = Suc n" by (simp del: upt_Suc add_Suc)
  then show ?thesis using assms(2) unfolding random_block_def rng_after_add by simp
qed

lemma sign_nonce_next:
  assumes "sign_nonce gen km rng 0 err v rng1" "sign_nonce gen (km_cleared mz km) rng1 n err' v' rng2"
    and "\<forall>m. mp_val (mp_zero mz m) = 0"
  shows "sign_nonce gen km rng (Suc n) err' v' rng2"
proof (cases "given km")
  case True
  then have "\<not> given (km_cleared mz km)" using assms(3) by (auto simp: km_cleared_def given_def split: option.splits)
  then show ?thesis using assms(1,2) True by (simp add: sign_nonce_def)
next
  case False
  then have r: "random_nonce gen rng 0 err v rng1" "random_nonce gen rng1 n err' v' rng2"
    using assms(1,2) by (simp_all add: sign_nonce_def km_cleared_def)
  obtain i buf where i: "random_block gen rng 0 i" "gen (rng_after gen i rng) = (err, buf, rng1)"
    using r(1) unfolding random_nonce_def by blast
  have s: "rng_after gen (Suc i) rng = rng1" using i(2) by (simp add: rng_after_def)
  obtain j buf' where j: "random_block gen rng1 n j" "gen (rng_after gen j rng1) = (err', buf', rng2)" "v' = block_val buf' + 1"
    using r(2) unfolding random_nonce_def by blast
  have "random_block gen rng (Suc n) (Suc i + j)" using random_block_next [OF i(1)] j(1) s by blast
  moreover have "gen (rng_after gen (Suc i + j) rng) = (err', buf', rng2)" using j(2) unfolding rng_after_add s .
  ultimately show ?thesis using False j(3) unfolding sign_nonce_def random_nonce_def by auto
qed

lemma sign_nonce_range:
  assumes "sign_nonce gen km rng n 0 v rng'" "\<forall>m. km = Some m \<longrightarrow> mp_val m < 2 ^ 521"
  shows "0 < v" "v < 2 ^ 521"
proof -
  have r: "0 < v \<and> v < 2 ^ 521" if h: "random_nonce gen rng n 0 v rng'" for n
  proof -
    obtain j buf where "random_block gen rng n j" "gen (rng_after gen j rng) = (0, buf, rng')" "v = block_val buf + 1"
      using h unfolding random_nonce_def by blast
    then have "v < N521" "0 < v" by (simp_all add: random_block_def rejected_def block_val_def add.commute [of _ 1] zless_add1_eq)
    then show ?thesis by (simp add: N521_numeral)
  qed
  have g: "0 < mp_val (the km) \<and> mp_val (the km) < 2 ^ 521" if "given km"
    using that assms(2) mp_val_nonneg [of "the km"] by (auto simp: given_def less_le split: option.splits)
  have "0 < v \<and> v < 2 ^ 521" using assms(1) r g unfolding sign_nonce_def by (auto split: if_splits)
  then show "0 < v" "v < 2 ^ 521" by simp_all
qed

text \<open>One attempt: the first nonce.\<close>

lemma sign_k_nonce:
  assumes "length k = 9" "\<forall>r. length (fst (snd (gen r))) = 66" "\<exists>m. \<not> rejected (gen (rng_after gen m rng))"
    and "\<forall>m. mp_iszero mz m \<longleftrightarrow> mp_val m = 0" "\<forall>m. km = Some m \<longrightarrow> mp_val m < 2 ^ 521"
  shows "\<exists>err k' v rng'. sign_k mz gen k km rng = Some (err, k', km_cleared mz km, rng') \<and>
    sign_nonce gen km rng 0 err v rng' \<and> (err = 0 \<longrightarrow> k' = digs 58 9 v)"
proof (cases "given km")
  case True
  then obtain m where m: "km = Some m" "mp_val m \<noteq> 0" by (auto simp: given_def split: option.splits)
  then have "sp_521_from_mp k 9 m = digs 58 9 (mp_val m)" using from_mp_reduced(1) [OF assms(1)] assms(5) by blast
  then show ?thesis using True m assms(4) by (simp add: sign_k_def Let_def km_cleared_def sign_nonce_def)
next
  case False
  let ?n = "LEAST m. \<not> rejected (gen (rng_after gen m rng))"
  have n: "\<not> rejected (gen (rng_after gen ?n rng))" using assms(3) by (rule LeastI_ex)
  have l: "\<forall>m<?n. rejected (gen (rng_after gen m rng))" using not_less_Least by blast
  obtain err buf rng' where g: "gen (rng_after gen ?n rng) = (err, buf, rng')" by (metis prod_cases3)
  obtain k' where k: "sp_521_ecc_gen_k_9 gen k rng = Some (err, k', rng')" "err = 0 \<longrightarrow> k' = digs 58 9 (block_val buf + 1)"
    using gen_k_stops [OF assms(1,2) l n] unfolding g by auto
  have "random_nonce gen rng 0 err (block_val buf + 1) rng'"
    unfolding random_nonce_def random_block_first using n l g by blast
  then have "sign_nonce gen km rng 0 err (block_val buf + 1) rng'" using False by (simp add: sign_nonce_def)
  moreover have "sign_k mz gen k km rng = Some (err, k', km_cleared mz km, rng')"
    using False assms(4) unfolding sign_k_def k(1) by (cases km) (simp_all add: given_def km_cleared_def)
  ultimately show ?thesis using k(2) by blast
qed

text \<open>The loop tries the nonces in order, at most \<open>i\<close> of them, until one makes a signature or the generator fails.\<close>

lemma sign_loop_nonces:
  fixes gen :: "'r \<Rightarrow> int \<times> byte list \<times> 'r" and hash :: "byte list" and jp :: sp_point_521 and jd priv
  assumes "\<forall>r. length (fst (snd (gen r))) = 66" "\<forall>rng. \<exists>m. \<not> rejected (gen (rng_after gen m rng))"
    and "\<forall>m. mp_iszero mz m \<longleftrightarrow> mp_val m = 0" "\<forall>m. mp_val (mp_zero mz m) = 0"
    and "length k = 9" "\<forall>m. km = Some m \<longrightarrow> mp_val m < 2 ^ 521"
  defines "ok \<equiv> sig_ok jd jp hash priv"
  shows "(\<exists>n err v rng'. n < i \<and> (\<forall>m<n. \<exists>v rng'. sign_nonce gen km rng m 0 v rng' \<and> \<not> ok v) \<and>
      sign_nonce gen km rng n err v rng' \<and>
      (err = 0 \<and> ok v \<and> sign_loop mz jd jp gen hash (length hash) priv i k km rng =
          Some (MP_OKAY, sig_r jp v, sig_s jd jp hash priv v, km_cleared mz km, rng') \<or>
       err \<noteq> 0 \<and> sign_loop mz jd jp gen hash (length hash) priv i k km rng =
          Some (if Suc n = i then RNG_FAILURE_E else LIB_E err, jd, jd, km_cleared mz km, rng'))) \<or>
    (\<forall>m<i. \<exists>v rng'. sign_nonce gen km rng m 0 v rng' \<and> \<not> ok v) \<and>
      (\<exists>rng'. sign_loop mz jd jp gen hash (length hash) priv i k km rng =
        Some (RNG_FAILURE_E, jd, jd, if i = 0 then km else km_cleared mz km, rng'))"
  using assms(5,6)
proof (induction i arbitrary: k km rng)
  case (Suc i)
  let ?L = "sign_loop mz jd jp gen hash (length hash) priv" and ?km = "km_cleared mz km"
  obtain err k' v rng1 where k: "sign_k mz gen k km rng = Some (err, k', ?km, rng1)"
      "sign_nonce gen km rng 0 err v rng1" "err = 0 \<longrightarrow> k' = digs 58 9 v"
    using sign_k_nonce [OF Suc.prems(1) assms(1) assms(2) [THEN spec] assms(3) Suc.prems(2)] by blast
  have km: "km_cleared mz ?km = ?km" "\<forall>m. ?km = Some m \<longrightarrow> mp_val m < 2 ^ 521"
    using assms(4) Suc.prems(2) by (auto simp: km_cleared_def given_def split: option.splits)
  consider "err \<noteq> 0" | "err = 0" "ok v" | "err = 0" "\<not> ok v" by blast
  then show ?case
  proof cases
    case 1
    then have "?L (Suc i) k km rng = Some (if Suc 0 = Suc i then RNG_FAILURE_E else LIB_E err, jd, jd, ?km, rng1)"
      using k(1) by simp
    then show ?thesis using 1 k(2) by blast
  next
    case 2
    then have "?L (Suc i) k km rng = Some (MP_OKAY, sig_r jp v, sig_s jd jp hash priv v, ?km, rng1)"
      using k by (simp add: ok_def sig_ok_def sig_s_def sig_r_def Let_def)
    then show ?thesis using 2 k(2) by blast
  next
    case 3
    have k': "k' = digs 58 9 v" "length k' = 9" using 3(1) k(3) by simp_all
    have e: "?L (Suc i) k km rng = ?L i k' ?km rng1"
      using k(1) k'(1) 3 by (auto simp: ok_def sig_ok_def sig_s_def sig_r_def Let_def)
    have first: "\<exists>v rng'. sign_nonce gen km rng 0 0 v rng' \<and> \<not> ok v" using k(2) 3 by blast
    note later = sign_nonce_next [OF k(2) _ assms(4)]
    have step: "\<forall>m<Suc n. \<exists>v rng'. sign_nonce gen km rng m 0 v rng' \<and> \<not> ok v"
      if "\<forall>m<n. \<exists>v rng'. sign_nonce gen ?km rng1 m 0 v rng' \<and> \<not> ok v" for n
    proof (intro allI impI)
      fix m assume "m < Suc n"
      then show "\<exists>v rng'. sign_nonce gen km rng m 0 v rng' \<and> \<not> ok v"
        using first that later by (cases m) blast+
    qed
    show ?thesis using Suc.IH [OF k'(2) km(2), of rng1] unfolding e km(1)
    proof (elim disjE exE conjE, goal_cases)
      case (1 n err v rng')
      then show ?case using step [of n] later [of n err v rng'] by (intro disjI1 exI [of _ "Suc n"] exI [of _ err] exI [of _ v] exI [of _ rng']) simp
    next
      case (2 n err v rng')
      then show ?case using step [of n] later [of n err v rng'] by (intro disjI1 exI [of _ "Suc n"] exI [of _ err] exI [of _ v] exI [of _ rng']) simp
    next
      case (3 rng')
      then show ?case using step [of i] by (intro disjI2) simp
    qed
  qed
qed simp

lemma sig_values:
  fixes hash :: "byte list"
  assumes "length jd = 9" "0 < v" "v < 2 ^ 521" "sig_ok jd jp hash priv v"
  defines "e \<equiv> be_num hash div 2 ^ (8 * length hash - 521)"
  shows "\<exists>r. 0 < r \<and> r < N521 \<and> sig_r jp v = digs 58 9 r \<and>
    (mp_val priv < 2 ^ 521 \<and> e < N521 \<and> div_safe N521 (v * val521 p521_norm_order) \<and> div_safe N521 (mp_val priv * r) \<and>
      v ^ nat (N521 - 1) mod N521 = 1 \<longrightarrow>
      (\<exists>s. 0 < s \<and> s \<le> P521 \<and> sig_s jd jp hash priv v = digs 58 9 s \<and> (s * v) mod N521 = (e + mp_val priv * r) mod N521))"
proof -
  obtain w where w: "0 \<le> w" "w < P521" "pt_x (sp_521_ecc_mulmod_base_9 jp jp (digs 58 9 v) True True) = digs 58 9 w"
    using base_9_affine(1) [OF assms(2,3)] by blast
  obtain r where r: "0 \<le> r" "r < N521" "sig_r jp v = digs 58 9 r"
    using sign_r_reduced [OF w(1,2)] unfolding sig_r_def w(3) by blast
  have "r \<noteq> 0" using assms(4) iszero_9_digs [of 0] unfolding sig_ok_def r(3) by auto
  have k: "0 \<le> v" "v \<le> P521" "r \<le> P521" using assms(2,3) r(2) by (simp_all add: P521_def N521_numeral)
  note fk = reduced_fe521 [OF k(1,2)] and fr = reduced_fe521 [OF r(1) k(3)]
  have "\<exists>s. 0 < s \<and> s \<le> P521 \<and> sig_s jd jp hash priv v = digs 58 9 s \<and> (s * v) mod N521 = (e + mp_val priv * r) mod N521"
    if h: "mp_val priv < 2 ^ 521" "e < N521" "div_safe N521 (v * val521 p521_norm_order)" "div_safe N521 (mp_val priv * r)"
      "v ^ nat (N521 - 1) mod N521 = 1"
  proof -
    note x = from_mp_reduced(2,3) [OF assms(1) h(1)] and f = reduced_fe521 [OF hash_range [of hash], folded e_def]
    have l: "load_hash jd hash (length hash) = digs 58 9 e" unfolding e_def by (rule load_hash_digs [OF assms(1)])
    obtain s where s: "sig_s jd jp hash priv v = digs 58 9 s" "0 \<le> s" "s \<le> P521"
        "s mod N521 = ((e + mp_val priv * r) * v ^ nat (N521 - 2)) mod N521"
      using calc_s_9_correct [OF fr(1) fk(1) x(1) f(1)] h(2-4) unfolding sig_s_def r(3) l f(2) x(2) fk(2) fr(2) by blast
    have n: "nat (N521 - 1) = Suc (nat (N521 - 2))" by (simp add: N521_numeral)
    have "(s * v) mod N521 = (e + mp_val priv * r) mod N521" by (rule fermat_cancel [OF s(4) h(5) [unfolded n]])
    moreover have "s \<noteq> 0" using assms(4) iszero_9_digs [of 0] unfolding sig_ok_def s(1) by auto
    ultimately show ?thesis using s by (intro exI [of _ s]) simp
  qed
  then show ?thesis using r \<open>r \<noteq> 0\<close> by (intro exI [of _ r]) simp
qed

text \<open>C9: Signing tries the right nonces and returns a signature of one.  With a generator that always gives an acceptable block in the
  end, and a number \<open>km\<close> below \<open>2\<^sup>5\<^sup>2\<^sup>1\<close> if there is one, the call returns.  The nonces are \<open>km\<close>, when it is given and is not zero, and then the
  numbers of the blocks the generator gives and does not reject, in their order, plus one; \<open>km\<close> is cleared.  At
  most 64 are tried, each after the ones before it gave a zero value.  Either attempt \<open>n\<close> ends with an error of
  the generator, which is returned (\<open>RNG_FAILURE_E\<close> in the last attempt); or its nonce \<open>v\<close> gives two nonzero values and
  these are stored with the result of \<^verbatim>\<open>sp_521_to_mp\<close>; or all 64 give a zero value and \<open>RNG_FAILURE_E\<close> is returned.  The first
  value is the \<open>x\<close> of the product of \<open>v\<close> and the base point, reduced to a number \<open>r\<close> with \<open>0 < r < n\<close>, and the second a number \<open>s\<close> with
  \<open>s v = e + x r\<close> modulo the order, when the private key is below \<open>2\<^sup>5\<^sup>2\<^sup>1\<close>, the hash number \<open>e\<close> is below the order, the trial
  division is exact on the two products and \<open>v\<close> satisfies Fermat's theorem (the order is prime).\<close>

theorem sp_ecc_sign_521_correct:
  fixes gen :: "'r \<Rightarrow> int \<times> byte list \<times> 'r" and hash :: "byte list" and jp :: sp_point_521 and priv rm sm :: mp_int
    and lib :: mp_lib and rng :: 'r
  assumes "length jd = 9" "\<forall>r. length (fst (snd (gen r))) = 66" "\<forall>rng. \<exists>m. \<not> rejected (gen (rng_after gen m rng))"
    and "\<forall>m. mp_iszero mz m \<longleftrightarrow> mp_val m = 0" "\<forall>m. mp_val (mp_zero mz m) = 0" "\<forall>m. km = Some m \<longrightarrow> mp_val m < 2 ^ 521"
  defines "e \<equiv> be_num hash div 2 ^ (8 * length hash - 521)"
    and "call \<equiv> sp_ecc_sign_521 lib mz jd jp gen hash (length hash) rng priv rm sm km"
    and "retried \<equiv> \<lambda>m. \<exists>v rng'. sign_nonce gen km rng m 0 v rng' \<and> \<not> sig_ok jd jp hash priv v"
  shows "(\<exists>n err v rng'. n < 64 \<and> (\<forall>m<n. retried m) \<and> sign_nonce gen km rng n err v rng' \<and>
      (err \<noteq> 0 \<and> call = Some (if n = 63 then RNG_FAILURE_E else LIB_E err, rm, sm, km_cleared mz km, rng') \<or>
       err = 0 \<and> sig_ok jd jp hash priv v \<and>
       call = (case sp_521_to_mp lib (sig_r jp v) rm of (err, rm) \<Rightarrow>
         if err \<noteq> 0 then Some (LIB_E err, rm, sm, km_cleared mz km, rng')
         else case sp_521_to_mp lib (sig_s jd jp hash priv v) sm of (err, sm) \<Rightarrow>
           Some (lib_ret err, rm, sm, km_cleared mz km, rng')) \<and>
       0 < v \<and> v < 2 ^ 521 \<and>
       (\<exists>r. 0 < r \<and> r < N521 \<and> sig_r jp v = digs 58 9 r \<and>
         (mp_val priv < 2 ^ 521 \<and> e < N521 \<and> div_safe N521 (v * val521 p521_norm_order) \<and> div_safe N521 (mp_val priv * r) \<and>
           v ^ nat (N521 - 1) mod N521 = 1 \<longrightarrow>
           (\<exists>s. 0 < s \<and> s \<le> P521 \<and> sig_s jd jp hash priv v = digs 58 9 s \<and>
             (s * v) mod N521 = (e + mp_val priv * r) mod N521))))) \<or>
    (\<forall>m<64. retried m) \<and> (\<exists>rng'. call = Some (RNG_FAILURE_E, rm, sm, km_cleared mz km, rng'))"
  unfolding retried_def using sign_loop_nonces [OF assms(2-5,1,6), where i = 64 and jd = jd and jp = jp and hash = hash and priv = priv and rng = rng]
proof (elim disjE exE conjE, goal_cases)
  case (1 n err v rng')
  note v = sign_nonce_range [OF 1(3) [unfolded 1(4)] assms(6)]
  have c: "call = (case sp_521_to_mp lib (sig_r jp v) rm of (err, rm) \<Rightarrow>
         if err \<noteq> 0 then Some (LIB_E err, rm, sm, km_cleared mz km, rng')
         else case sp_521_to_mp lib (sig_s jd jp hash priv v) sm of (err, sm) \<Rightarrow>
           Some (lib_ret err, rm, sm, km_cleared mz km, rng'))"
    unfolding call_def sp_ecc_sign_521_def 1(6) by simp
  show ?case
    by (rule disjI1, rule exI [of _ n], rule exI [of _ err], rule exI [of _ v], rule exI [of _ rng'],
        rule conjI [OF 1(1)], rule conjI [OF 1(2)], rule conjI [OF 1(3)], rule disjI2,
        intro conjI 1(4,5) c v sig_values [OF assms(1) v 1(5), folded e_def])
next
  case (2 n err v rng')
  have "call = Some (if n = 63 then RNG_FAILURE_E else LIB_E err, rm, sm, km_cleared mz km, rng')"
    unfolding call_def sp_ecc_sign_521_def 2(5) by simp
  then show ?case using 2(1-4) by blast
next
  case (3 rng')
  have "call = Some (RNG_FAILURE_E, rm, sm, km_cleared mz km, rng')"
    unfolding call_def sp_ecc_sign_521_def 3(2) by simp
  then show ?case using 3(1) by blast
qed

text \<open>The multiple of the base point by one.\<close>

lemma comb_index_one: "comb_index (digs 58 9 1) i = (if i = 0 then 1 else 0)" if "i < 66"
proof -
  have b: "vbit 1 n = (if n = 0 then 1 else 0)" for n
  proof (cases n)
    case (Suc m)
    have "(1 :: int) < 2 ^ n" unfolding Suc by (rule one_less_power) simp_all
    then show ?thesis using Suc by (simp only: vbit_def div_pos_pos_trivial) simp
  qed (simp add: vbit_def)
  have "map (\<lambda>j. vbit 1 (i + 66 * j)) [0..<8] = (if i = 0 then 1 else 0) # replicate 7 0"
    by (simp add: b eval_nat_numeral)
  then have "comb_index (digs 58 9 1) i = lval 1 ((if i = 0 then 1 else 0) # replicate 7 0)"
    using comb_index_bits [of 1 i] by (simp del: upt_rec_numeral)
  then show ?thesis by simp
qed

lemma rounds_infinite:
  assumes "table_lengths table" "\<forall>i\<in>set is. comb_index k i = 0" "infinity rt = 1" "len9 rt" "pt_z p = p521_norm_mod"
  shows "case fold (stripe_round ct table k) is (rt, p) of (rt, p) \<Rightarrow> infinity rt = 1 \<and> len9 rt \<and> pt_z p = p521_norm_mod"
  using assms(2-)
proof (induction "is" arbitrary: rt p)
  case (Cons i "is")
  let ?p = "stripe_read ct p table 0"
  note z = stripe_read_zero [OF assms(1) Cons.prems(4), of ct]
  have d: "infinity (sp_521_proj_point_dbl_9 rt) = 1" using Cons.prems(2) by (simp add: dbl_9_infinity)
  note a = add_qz1_9_both_infinite [OF d z(1)]
  have "stripe_round ct table k i (rt, p) = (sp_521_proj_point_add_qz1_9 (sp_521_proj_point_dbl_9 rt) ?p, ?p)"
    using Cons.prems(1) by (simp add: stripe_round_def Let_def)
  then show ?case using Cons.IH [OF _ a z(3)] Cons.prems(1) by simp
qed simp

lemma base_9_one: "sp_521_ecc_mulmod_base_9 jp r (digs 58 9 1) True True = sp_521_map_9 r p521_base"
proof -
  let ?k = "digs 58 9 1" and ?j = "jp\<lparr>pt_z := p521_norm_mod\<rparr>"
  let ?s = "stripe_read True ?j p521_table (comb_index ?k 65)"
  let ?f = "fold (stripe_round True p521_table ?k)"
  have s: "infinity ?s = 1" "len9 ?s" using stripe_read_zero [OF p521_table_lengths, of ?j] by (simp_all add: comb_index_one)
  obtain rt p where f: "?f (rev [1..<65]) (?s, ?j) = (rt, p)" by fastforce
  have h: "infinity rt = 1" "len9 rt" "pt_z p = p521_norm_mod"
    using rounds_infinite [OF p521_table_lengths _ s, of "rev [1..<65]" ?k ?j True] f
    by (simp_all add: comb_index_one del: upt_rec_numeral)
  have e: "stripe_read True p p521_table 1 = p521_base"
    using stripe_read_entry [OF p521_table_lengths h(3), of 1 True] p521_table_first(3) by simp
  have d: "infinity (sp_521_proj_point_dbl_9 rt) = 1" "len9 (sp_521_proj_point_dbl_9 rt)" using h by (simp_all add: dbl_9_infinity dbl_9_len9)
  have l: "length (pt_x p521_base) = 9" "length (pt_y p521_base) = 9" "length (pt_z p521_base) = 9" "infinity p521_base = 0"
    by (simp_all add: p521_base_def)
  have "sp_521_proj_point_add_qz1_9 (sp_521_proj_point_dbl_9 rt) p521_base = p521_base"
    using proj_point_add_9_infinity(2) [of "sp_521_proj_point_dbl_9 rt" p521_base] d l
    by (simp add: add_qz1_9_infinity len9_def)
  then have "stripe_round True p521_table ?k 0 (rt, p) = (p521_base, p521_base)"
    by (simp add: stripe_round_def Let_def comb_index_one e)
  moreover have "rev [0..<65] = rev [1..<65] @ [0 :: nat]" by (simp add: upt_rec [of 0] del: upt_rec_numeral)
  ultimately have "?f (rev [0..<65]) (?s, ?j) = (p521_base, p521_base)" by (simp only: fold_append f o_def fold.simps id_def)
  then show ?thesis
    by (simp add: sp_521_ecc_mulmod_base_9_def sp_521_ecc_mulmod_stripe_9_def Let_def del: upt_rec_numeral)
qed

definition base_x :: int where
  "base_x = val521 (pt_x p521_base)"

lemma base_x_val: "base_x = 0xc6858e06b70404e9cd9e3ecb662395b4429c648139053fb521f828af606b4d3dbaa14b5e77efe75928fe1dc127a2ffa8de3348b3c1856a429bf97e7e31c2e5bd66"
  by (simp add: base_x_def val521_def p521_base_def)

lemma sig_r_one: "sig_r jp 1 = digs 58 9 base_x"
proof -
  let ?y = "val521 (pt_y p521_base)"
  have w: "fe521 (pt_x p521_base)" "fe521 (pt_y p521_base)" "fe521 (pt_z p521_base)" using wf_base(1) by (simp_all add: wf_pt_def)
  have y: "?y mod P521 < 2 ^ 521 - 2 ^ 464" "val521 (pt_z p521_base) = 1"
    by (simp_all add: P521_def val521_def p521_base_def)
  have x: "base_x mod P521 = base_x" "base_x < 2 ^ 521 - 2 ^ 464" "base_x < 2 ^ 522" "0 \<le> base_x" "base_x < N521" "base_x \<le> P521"
    by (simp_all add: P521_def base_x_val N521_numeral)
  have "pt521 p521_base (base_x * 1 ^ 2) (?y * 1 ^ 3) 1"
    using f521.rep_self [OF w(1)] f521.rep_self [OF w(2)] f521.rep_self [OF w(3)] by (simp add: base_x_def y(2) pt521_def)
  from map_9_affine [OF this _ _ y(1)] x(1,2)
  have m: "pt_x (sp_521_map_9 jp p521_base) = digs 58 9 base_x" by (simp add: P521_def)
  note f = reduced_fe521 [OF x(4,6)]
  have n: "sp_521_norm_9 (digs 58 9 base_x) = digs 58 9 base_x" using norm_fe521 [OF f(1)] by (simp only: f(2))
  have t: "take 9 (digs 58 9 base_x) = digs 58 9 base_x" by simp
  have "sign_r (digs 58 9 base_x) = digs 58 9 base_x"
    unfolding sign_r_def t n Let_def cond_sub_9_reduces [OF x(4,3)] using x(5) by simp
  then show ?thesis by (simp add: sig_r_def base_9_one m)
qed

lemma sign_one:
  fixes jp :: sp_point_521 and one :: mp_int
  defines "jd \<equiv> replicate 9 (0 :: int)" and "one \<equiv> \<lparr>used = 1, dp = [1]\<rparr>"
  shows "sig_s jd jp [7, 8] one 1 = digs 58 9 (1800 + base_x)"
proof -
  have j: "length jd = 9" and o: "mp_val one < 2 ^ 521" "mp_val one = 1" by (simp_all add: jd_def one_def mp_val_def)
  have x: "0 \<le> base_x" "base_x \<le> P521" "base_x + 1800 < N521" "P521 < N521 + base_x" by (simp_all add: P521_def base_x_val N521_numeral)
  note f = reduced_fe521 [OF x(1,2)] and p = from_mp_reduced(2,3) [OF j o(1), unfolded o(2)]
  have ar: "(0 :: int) \<le> 1" "1 \<le> P521" "(0 :: int) \<le> 1800" "1800 \<le> P521" "1800 < N521" by (simp_all add: P521_def N521_numeral)
  note k = reduced_fe521 [OF ar(1,2)] and h = reduced_fe521 [OF ar(3,4)]
  have "be_num [7, 8] div 2 ^ (8 * 2 - 521) = 1800" by (simp add: be_num_def)
  then have l: "load_hash jd [7, 8] (length [7, 8 :: byte]) = digs 58 9 1800" using load_hash_digs [OF j, of "[7, 8]"] by simp
  have n: "0 \<le> val521 p521_norm_order" "val521 p521_norm_order < 2 ^ 261" by (simp_all add: val521_def p521_norm_order_def)
  have d: "div_safe N521 (1 * val521 p521_norm_order)" using div_safe_small_order [OF n] by simp
  have d': "div_safe N521 (1 * base_x)" unfolding base_x_val N521_numeral by code_simp
  obtain s where s: "sig_s jd jp [7, 8] one 1 = digs 58 9 s" "0 \<le> s" "s \<le> P521"
      "s mod N521 = ((1800 + 1 * base_x) * 1 ^ nat (N521 - 2)) mod N521"
    using calc_s_9_correct [OF f(1) k(1) p(1) h(1)] ar(5) d d' unfolding sig_s_def sig_r_one l f(2) k(2) p(2) h(2) by blast
  have "s mod N521 = 1800 + base_x" using s(4) x by simp
  moreover have "s mod N521 = s \<or> s mod N521 = s - N521"
  proof (cases "s < N521")
    case False
    have "(s - N521) mod N521 = s - N521" using False s(3) by (intro mod_pos_pos_trivial) (simp_all add: P521_def N521_numeral)
    then show ?thesis by simp
  qed (use s(2) in simp)
  ultimately have "s = 1800 + base_x" using s(3) x(4) by linarith
  then show ?thesis using s(1) by simp
qed

theorem sp_ecc_sign_521_correct_witness:
  "\<exists>rm sm. sp_ecc_sign_521 toy_mp \<lparr>mp_iszero = (\<lambda>m. mp_val m = 0), mp_zero = (\<lambda>m. m\<lparr>used := 0\<rparr>)\<rparr> (replicate 9 0) p521_base
     (\<lambda>i :: nat. (0, replicate 65 0 @ [4], Suc i)) [7, 8] 2 0 \<lparr>used = 1, dp = [1]\<rparr> \<lparr>used = 0, dp = []\<rparr> \<lparr>used = 0, dp = []\<rparr>
     (Some \<lparr>used = 1, dp = [1]\<rparr>) = Some (MP_OKAY, rm, sm, Some \<lparr>used = 0, dp = [1]\<rparr>, 0) \<and>
     mp_val rm = base_x \<and> mp_val sm = 1800 + base_x"
proof -
  let ?g = "\<lambda>i :: nat. (0 :: int, replicate 65 (0 :: byte) @ [4], Suc i)"
  let ?one = "\<lparr>used = 1, dp = [1]\<rparr> :: mp_int" and ?no = "\<lparr>used = 0, dp = []\<rparr> :: mp_int" and ?jd = "replicate 9 (0 :: int)"
  let ?mz = "\<lparr>mp_iszero = (\<lambda>m. mp_val m = 0), mp_zero = (\<lambda>m. m\<lparr>used := 0\<rparr>)\<rparr>"
  have b: "block_val (replicate 65 0 @ [4]) = 4" by code_simp
  have "\<not> rejected (?g i)" for i by (simp add: rejected_def b N521_numeral)
  then have live: "\<forall>rng. \<exists>m. \<not> rejected (?g (rng_after ?g m rng))" by blast
  have len: "length ?jd = 9" "\<forall>r. length (fst (snd (?g r))) = 66" by simp_all
  have mz: "\<forall>m. mp_iszero ?mz m \<longleftrightarrow> mp_val m = 0" "\<forall>m. mp_val (mp_zero ?mz m) = 0" by (simp_all add: mp_val_def)
  have one: "mp_val ?one = 1" "\<forall>m. Some ?one = Some m \<longrightarrow> mp_val m < 2 ^ 521" by (auto simp: mp_val_def)
  have x: "0 < base_x" "1800 + base_x < 2 ^ 521" "base_x < 2 ^ 521" by (simp_all add: base_x_val)
  have n: "sign_nonce ?g (Some ?one) 0 0 err v rng' \<longleftrightarrow> err = 0 \<and> v = 1 \<and> rng' = 0" for err v rng'
    by (simp add: sign_nonce_def given_def mp_val_def)
  have km: "km_cleared ?mz (Some ?one) = Some \<lparr>used = 0, dp = [1]\<rparr>" by (simp add: km_cleared_def given_def mp_val_def)
  have ok: "sig_ok ?jd p521_base [7, 8] ?one 1"
    unfolding sig_ok_def sig_r_one sign_one using x by (simp add: iszero_9_digs)
  have grow: "\<exists>m1. mp_grow toy_mp m 9 = (0, m1) \<and> 9 \<le> length (dp m1)" for m by (simp add: toy_mp_def)
  have st: "\<exists>m2. sp_521_to_mp toy_mp (digs 58 9 v) m = (0, m2) \<and> mp_val m2 = v" if "0 \<le> v" "v < 2 ^ 521" for v m
  proof -
    obtain m1 where "mp_grow toy_mp m 9 = (0, m1)" "9 \<le> length (dp m1)" using grow by blast
    moreover have "digits_in 0 (2 ^ 58) (digs 58 9 v)" using that by (intro digs9_le) simp_all
    ultimately show ?thesis using to_mp_correct [of "digs 58 9 v" toy_mp m m1] toy_mp_clamp that by simp
  qed
  obtain rm sm where s: "sp_521_to_mp toy_mp (digs 58 9 base_x) ?no = (0, rm)" "mp_val rm = base_x"
      "sp_521_to_mp toy_mp (digs 58 9 (1800 + base_x)) ?no = (0, sm)" "mp_val sm = 1800 + base_x"
    using st [of base_x] st [of "1800 + base_x"] x by fastforce
  have "sp_ecc_sign_521 toy_mp ?mz ?jd p521_base ?g [7, 8] (length [7, 8 :: byte]) 0 ?one ?no ?no (Some ?one) =
      Some (MP_OKAY, rm, sm, Some \<lparr>used = 0, dp = [1]\<rparr>, 0)"
    using sp_ecc_sign_521_correct [OF len live mz one(2), where lib = toy_mp and jp = p521_base and hash = "[7, 8]" and rng = 0
        and priv = ?one and rm = ?no and sm = ?no]
  proof (elim disjE exE conjE, goal_cases)
    case (1 m err v rng')
    show ?case using 1(2,3,4) n ok by (cases m) auto
  next
    case (2 m err v rng')
    then have "m = 0" using n ok by (cases m) auto
    then have v: "v = 1" "rng' = 0" using 2(3) n by simp_all
    show ?case unfolding 2(6) km v sig_r_one sign_one s(1,3) by (simp add: lib_ret_def)
  next
    case (3 rng')
    show ?case using spec [OF 3(1), of 0] n ok by auto
  qed
  then show ?thesis using s by (simp add: numeral_2_eq_2)
qed

end
