(* ===== verification/Sp521Cache.thy ===== *)
theory Sp521Cache
  imports Sp521Ecc
begin

text \<open>
  The \<^verbatim>\<open>FP_ECC\<close> build of the multiplication of \<^verbatim>\<open>wolfssl-src/patches/sp_c64.c\<close>: the generation of a comb table for an
  arbitrary point, the cache of sixteen such tables, and \<open>sp_521_ecc_mulmod_9\<close> on top of it, which uses a
  table from the second multiplication of a point on.  The cache is shared state; the locked section
  and the use of the table after the lock is released are separate definitions.
\<close>

section \<open>Definitions\<close>

subsection \<open>Generation of a table\<close>

definition sp_521_proj_to_affine_9 :: "sp_point_521 \<Rightarrow> sp_point_521" where
  "sp_521_proj_to_affine_9 a =
    (let t1 = sp_521_mont_inv_9 (pt_z a);
         t2 = sp_521_mont_sqr_9 t1 p521_mod p521_mp_mod;
         t1 = sp_521_mont_mul_9 t2 t1 p521_mod p521_mp_mod
     in a\<lparr>pt_x := sp_521_mont_mul_9 (pt_x a) t2 p521_mod p521_mp_mod,
          pt_y := sp_521_mont_mul_9 (pt_y a) t1 p521_mod p521_mp_mod,
          pt_z := p521_norm_mod\<rparr>)"

definition table_put :: "nat \<Rightarrow> sp_point_521 \<Rightarrow> sp_table_entry_521 list \<Rightarrow> sp_table_entry_521 list" where
  "table_put i t table = table[i := \<lparr>te_x = take 9 (pt_x t), te_y = take 9 (pt_y t)\<rparr>]"

definition gen_dbl_step :: "nat \<Rightarrow> sp_point_521 \<times> sp_table_entry_521 list \<Rightarrow> sp_point_521 \<times> sp_table_entry_521 list" where
  "gen_dbl_step i = (\<lambda>(t, table).
    let t = sp_521_proj_to_affine_9 (sp_521_proj_point_dbl_n_9 t 66)
    in (t, table_put (2 ^ i) t table))"

text \<open>The points \<open>s1\<close> and \<open>s2\<close> are read from the table, with \<open>z = 1\<close>: \<open>entry_point\<close> of \<^verbatim>\<open>Sp521Stripe\<close>.\<close>

definition gen_add_step ::
    "nat \<Rightarrow> sp_point_521 \<Rightarrow> nat \<Rightarrow> sp_point_521 \<times> sp_table_entry_521 list \<Rightarrow> sp_point_521 \<times> sp_table_entry_521 list" where
  "gen_add_step i s1 j = (\<lambda>(t, table).
    let s2 = entry_point (table ! (j - 2 ^ i));
        t = sp_521_proj_to_affine_9 (sp_521_proj_point_add_qz1_9 s1 s2)
    in (t, table_put j t table))"

definition gen_add_row :: "nat \<Rightarrow> sp_point_521 \<times> sp_table_entry_521 list \<Rightarrow> sp_point_521 \<times> sp_table_entry_521 list" where
  "gen_add_row i = (\<lambda>(t, table).
    fold (gen_add_step i (entry_point (table ! (2 ^ i)))) [2 ^ i + 1..<2 ^ (i + 1)] (t, table))"

definition zero_te :: sp_table_entry_521 where
  "zero_te = \<lparr>te_x = replicate 9 0, te_y = replicate 9 0\<rparr>"

definition sp_521_gen_stripe_table_9 :: "sp_point_521 \<Rightarrow> sp_table_entry_521 list \<Rightarrow> sp_table_entry_521 list" where
  "sp_521_gen_stripe_table_9 a table =
    (let t = \<lparr>pt_x = sp_521_mod_mul_norm_9 (pt_x a), pt_y = sp_521_mod_mul_norm_9 (pt_y a),
              pt_z = sp_521_mod_mul_norm_9 (pt_z a), infinity = 0\<rparr>;
         t = sp_521_proj_to_affine_9 t;
         table = table[0 := zero_te];
         table = table_put 1 t table
     in snd (fold gen_add_row [1..<8] (fold gen_dbl_step [1..<8] (t, table))))"

subsection \<open>The cache\<close>

abbreviation "FP_ENTRIES \<equiv> 16 :: nat"

record sp_cache_521_t =
  ce_x :: "int list"
  ce_y :: "int list"
  ce_table :: "sp_table_entry_521 list"
  ce_cnt :: int
  ce_set :: bool

text \<open>The static variables \<^verbatim>\<open>sp_cache_521\<close>, \<^verbatim>\<open>sp_cache_521_last\<close> and \<^verbatim>\<open>sp_cache_521_inited\<close>, with their initial values.\<close>

record sp_cache =
  sp_cache_521 :: "sp_cache_521_t list"
  sp_cache_521_last :: int
  sp_cache_521_inited :: bool

definition sp_cache_init :: sp_cache where
  "sp_cache_init =
    \<lparr>sp_cache_521 = replicate FP_ENTRIES
       \<lparr>ce_x = replicate 9 0, ce_y = replicate 9 0,
        ce_table = replicate 256 zero_te, ce_cnt = 0, ce_set = False\<rparr>,
     sp_cache_521_last = - 1, sp_cache_521_inited = False\<rparr>"

text \<open>The comparison loop: the index of the entry of the point, the number of entries when there is none.\<close>

fun cache_find :: "sp_point_521 \<Rightarrow> sp_cache_521_t list \<Rightarrow> nat" where
  "cache_find g [] = 0"
| "cache_find g (e # es) =
    (if \<not> ce_set e then Suc (cache_find g es)
     else if sp_521_cmp_equal_9 (pt_x g) (ce_x e) AND sp_521_cmp_equal_9 (pt_y g) (ce_y e) \<noteq> 0 then 0
     else Suc (cache_find g es))"

text \<open>The loop \<^verbatim>\<open>for (; i != last; i=(i+1)%FP_ENTRIES)\<close>.  With \<open>last = -1\<close> it ends only at an empty entry.\<close>

partial_function (option) cache_empty :: "sp_cache_521_t list \<Rightarrow> int \<Rightarrow> nat \<Rightarrow> nat option" where
  "cache_empty es lst i =
    (if int i = lst then Some i
     else if \<not> ce_set (es ! i) then Some i
     else cache_empty es lst ((i + 1) mod FP_ENTRIES))"

definition cache_evict :: "sp_cache_521_t list \<Rightarrow> nat \<Rightarrow> nat" where
  "cache_evict es i =
    fst (fold (\<lambda>j (i, least). if ce_cnt (es ! j) < least then (j, ce_cnt (es ! j)) else (i, least))
      [1..<FP_ENTRIES] (i, ce_cnt (es ! 0)))"

definition sp_ecc_get_cache_521 :: "sp_point_521 \<Rightarrow> sp_cache \<Rightarrow> (sp_cache \<times> nat) option" where
  "sp_ecc_get_cache_521 g st =
    (let st = (if sp_cache_521_inited st then st
               else st\<lparr>sp_cache_521 := map (\<lambda>e. e\<lparr>ce_set := False\<rparr>) (sp_cache_521 st), sp_cache_521_inited := True\<rparr>);
         es = sp_cache_521 st;
         lst = sp_cache_521_last st;
         i = cache_find g es
     in if i < FP_ENTRIES
        then Some (st\<lparr>sp_cache_521 := es[i := (es ! i)\<lparr>ce_cnt := (ce_cnt (es ! i) + 1) mod 2 ^ 32\<rparr>],
                      sp_cache_521_last := int i\<rparr>, i)
        else case cache_empty es lst (nat ((lst + 1) mod 16)) of
          None \<Rightarrow> None
        | Some i \<Rightarrow>
            (let i = (if int i = lst then cache_evict es i else i);
                 e = (es ! i)\<lparr>ce_x := take 9 (pt_x g), ce_y := take 9 (pt_y g), ce_set := True, ce_cnt := 1\<rparr>
             in Some (st\<lparr>sp_cache_521 := es[i := e], sp_cache_521_last := int i\<rparr>, i)))"

subsection \<open>Multiplication\<close>

text \<open>The section under the lock, and the use of the entry after it.\<close>

definition mulmod_locked :: "sp_point_521 \<Rightarrow> sp_cache \<Rightarrow> (sp_cache \<times> nat) option" where
  "mulmod_locked g st =
    (case sp_ecc_get_cache_521 g st of
       None \<Rightarrow> None
     | Some (st, i) \<Rightarrow>
         (let e = sp_cache_521 st ! i
          in Some (if ce_cnt e = 2
                   then st\<lparr>sp_cache_521 := (sp_cache_521 st)[i := e\<lparr>ce_table := sp_521_gen_stripe_table_9 g (ce_table e)\<rparr>]\<rparr>
                   else st, i)))"

definition mulmod_unlocked ::
    "sp_point_521 \<Rightarrow> sp_point_521 \<Rightarrow> sp_point_521 \<Rightarrow> int list \<Rightarrow> bool \<Rightarrow> bool \<Rightarrow> sp_cache \<Rightarrow> nat \<Rightarrow> sp_point_521" where
  "mulmod_unlocked jp r g k to_affine ct st i =
    (let e = sp_cache_521 st ! i
     in if ce_cnt e < 2 then sp_521_ecc_mulmod_win_add_sub_9 jp r g k to_affine ct
        else sp_521_ecc_mulmod_stripe_9 jp r (ce_table e) k to_affine ct)"

text \<open>\<open>lock\<close> is the result of \<^verbatim>\<open>wc_LockMutex\<close> of wolfSSL.\<close>

definition sp_521_ecc_mulmod_9_fp ::
    "int \<Rightarrow> sp_point_521 \<Rightarrow> sp_point_521 \<Rightarrow> sp_point_521 \<Rightarrow> int list \<Rightarrow> bool \<Rightarrow> bool \<Rightarrow> sp_cache \<Rightarrow>
     (sp_ret \<times> sp_point_521 \<times> sp_cache) option" where
  "sp_521_ecc_mulmod_9_fp lock jp r g k to_affine ct st =
    (if lock \<noteq> 0 then Some (BAD_MUTEX_E, r, st)
     else case mulmod_locked g st of
       None \<Rightarrow> None
     | Some (st, i) \<Rightarrow> Some (MP_OKAY, mulmod_unlocked jp r g k to_affine ct st i, st))"

section \<open>Generated tables\<close>

lemma proj_to_affine_9_z [simp]:
  "pt_z (sp_521_proj_to_affine_9 a) = p521_norm_mod" "infinity (sp_521_proj_to_affine_9 a) = infinity a"
  by (simp_all add: sp_521_proj_to_affine_9_def Let_def)

text \<open>What the generation keeps of its points.  Since every entry is written from points computed out of
  \<open>a\<close>, the old contents of the table do not matter: two runs agree on the entries written so far.\<close>

locale table_points = comb_points +
  assumes G_dbl_n: "G p \<Longrightarrow> G (sp_521_proj_point_dbl_n_9 p 66)"
    and G_affine: "G p \<Longrightarrow> G (sp_521_proj_to_affine_9 p)"
begin

definition ent :: "nat \<Rightarrow> sp_table_entry_521 \<Rightarrow> bool" where
  "ent i e \<longleftrightarrow> length (te_x e) = 9 \<and> length (te_y e) = 9 \<and> (if i = 0 then e = zero_te else G (entry_point e))"

definition agree :: "nat set \<Rightarrow> sp_point_521 \<times> sp_table_entry_521 list \<Rightarrow> sp_point_521 \<times> sp_table_entry_521 list \<Rightarrow> bool" where
  "agree I = (\<lambda>(t, T) (t', T'). t = t' \<and> G t \<and> length T = 256 \<and> length T' = 256 \<and> (\<forall>i\<in>I. T ! i = T' ! i \<and> ent i (T ! i)))"

lemma G_entry:
  assumes "G t" "pt_z t = p521_norm_mod"
  shows "G (entry_point \<lparr>te_x = take 9 (pt_x t), te_y = take 9 (pt_y t)\<rparr>)"
  using G_copy [OF assms(1)] assms(2) by (simp add: entry_point_def length_norm_mod)

lemma agree_put:
  assumes "agree I (u, T) (u', T')" "G t" "pt_z t = p521_norm_mod" "0 < j" "j < 256"
  shows "agree (insert j I) (t, table_put j t T) (t, table_put j t T')"
  using assms G_entry [OF assms(2,3)] G_len [OF assms(2)]
  by (auto simp: agree_def ent_def table_put_def len9_def nth_list_update)

lemma agree_mono: "agree I s s' \<Longrightarrow> J \<subseteq> I \<Longrightarrow> agree J s s'"
  by (auto simp: agree_def)

lemma agree_dbl_step:
  assumes "agree I s s'" "i < 8"
  shows "agree (insert (2 ^ i) I) (gen_dbl_step i s) (gen_dbl_step i s')"
proof -
  obtain t T T' where s: "s = (t, T)" "s' = (t, T')" "G t" using assms(1) by (cases s; cases s') (auto simp: agree_def)
  have "(2 :: nat) ^ i < 2 ^ 8" using assms(2) by (intro power_strict_increasing) simp_all
  then show ?thesis
    using agree_put [OF assms(1) [unfolded s(1,2)] G_affine [OF G_dbl_n [OF s(3)]]] by (simp add: gen_dbl_step_def s(1,2) Let_def)
qed

lemma agree_dbl:
  assumes "agree I s s'" "n \<le> 8"
  shows "agree (I \<union> (^) 2 ` {1..<n}) (fold gen_dbl_step [1..<n] s) (fold gen_dbl_step [1..<n] s')"
  using assms(2)
proof (induction n)
  case (Suc n)
  then show ?case
    using agree_dbl_step [OF Suc.IH, of n] assms(1) by (cases "n = 0") (auto elim!: agree_mono simp: less_Suc_eq_le)
qed (use assms(1) in simp)

lemma agree_add_step:
  assumes "agree I s s'" "agree I' (u, S) (u', S')" "2 ^ i \<in> I'" "j - 2 ^ i \<in> I" "2 ^ i < j" "j < 256"
  shows "agree (insert j I) (gen_add_step i (entry_point (S ! (2 ^ i))) j s) (gen_add_step i (entry_point (S' ! (2 ^ i))) j s')"
proof -
  obtain t T T' where s: "s = (t, T)" "s' = (t, T')" using assms(1) by (cases s; cases s') (auto simp: agree_def)
  have e: "S ! (2 ^ i) = S' ! (2 ^ i)" "T ! (j - 2 ^ i) = T' ! (j - 2 ^ i)"
    "G (entry_point (S' ! (2 ^ i)))" "G (entry_point (T' ! (j - 2 ^ i)))"
    using assms s by (auto simp: agree_def ent_def)
  have "G (sp_521_proj_point_add_qz1_9 (entry_point (S' ! (2 ^ i))) (entry_point (T' ! (j - 2 ^ i))))"
    using G_add [OF e(3,4)] by (simp add: entry_point_def)
  from agree_put [OF assms(1) [unfolded s] G_affine [OF this] _ _ assms(6)] assms(5) show ?thesis
    by (simp add: gen_add_step_def s e(1,2) Let_def)
qed

lemma agree_add_steps:
  assumes "agree I s s'" "{..2 ^ i} \<subseteq> I" "agree I' (u, S) (u', S')" "2 ^ i \<in> I'" "2 ^ i + m < 256" "m < 2 ^ i"
  shows "agree (I \<union> {..2 ^ i + m}) (fold (gen_add_step i (entry_point (S ! (2 ^ i)))) [2 ^ i + 1..<2 ^ i + 1 + m] s)
    (fold (gen_add_step i (entry_point (S' ! (2 ^ i)))) [2 ^ i + 1..<2 ^ i + 1 + m] s')"
  using assms(5,6)
proof (induction m)
  case 0
  then show ?case using agree_mono [OF assms(1)] assms(2) by auto
next
  case (Suc m)
  have "agree (insert (2 ^ i + 1 + m) (I \<union> {..2 ^ i + m}))
    (fold (gen_add_step i (entry_point (S ! (2 ^ i)))) [2 ^ i + 1..<2 ^ i + 1 + Suc m] s)
    (fold (gen_add_step i (entry_point (S' ! (2 ^ i)))) [2 ^ i + 1..<2 ^ i + 1 + Suc m] s')"
    using agree_add_step [OF Suc.IH assms(3,4), of "2 ^ i + 1 + m"] Suc.prems by simp
  then show ?case by (rule agree_mono) auto
qed

lemma agree_add_row:
  assumes "agree ({..<2 ^ i} \<union> (^) 2 ` {..<8}) s s'" "i < 8"
  shows "agree ({..<2 ^ (i + 1)} \<union> (^) 2 ` {..<8}) (gen_add_row i s) (gen_add_row i s')"
proof -
  obtain t T t' T' where s: "s = (t, T)" "s' = (t', T')" by (cases s; cases s')
  have p: "(2 :: nat) ^ (i + 1) \<le> 2 ^ 8" using assms(2) by (intro power_increasing) simp_all
  have "{..2 ^ i} \<subseteq> {..<2 ^ i} \<union> (^) (2 :: nat) ` {..<8}" using assms(2) by (auto simp: le_less)
  from agree_add_steps [OF assms(1) this assms(1) [unfolded s], of "2 ^ i - 1"]
  have "agree ({..<2 ^ i} \<union> (^) 2 ` {..<8} \<union> {..2 ^ i + (2 ^ i - 1)}) (gen_add_row i s) (gen_add_row i s')"
    using p assms(2) by (simp add: gen_add_row_def s mult_2)
  then show ?thesis by (rule agree_mono) auto
qed

lemma agree_add_rows:
  assumes "agree ({..<2} \<union> (^) 2 ` {..<8}) s s'" "n < 8"
  shows "agree ({..<2 ^ (n + 1)} \<union> (^) 2 ` {..<8}) (fold gen_add_row [1..<n + 1] s) (fold gen_add_row [1..<n + 1] s')"
  using assms(2)
proof (induction n)
  case (Suc n)
  then show ?case using agree_add_row [of "n + 1"] by simp
qed (use assms(1) in simp)

lemma agree_all:
  assumes "agree {..<256} s s'"
  shows "stripe_table (snd s)" "snd s = snd s'" "snd s ! 0 = zero_te"
proof -
  have l: "length (snd s) = 256" "length (snd s') = 256" and e: "\<And>i. i < 256 \<Longrightarrow> snd s ! i = snd s' ! i" "\<And>i. i < 256 \<Longrightarrow> ent i (snd s ! i)"
    using assms unfolding agree_def case_prod_beta by blast+
  show "snd s = snd s'" using l e(1) by (intro nth_equalityI) simp_all
  show "snd s ! 0 = zero_te" using e(2) [of 0] unfolding ent_def by simp
  show "stripe_table (snd s)"
    using l(1) e(2) by (auto simp: stripe_table_def table_lengths_def ent_def all_set_conv_all_nth)
qed

lemma gen_stripe_table_9_agree:
  assumes "G \<lparr>pt_x = take 9 (pt_x a), pt_y = take 9 (pt_y a), pt_z = take 9 (pt_z a), infinity = 0\<rparr>" "length T = 256" "length T' = 256"
  shows "stripe_table (sp_521_gen_stripe_table_9 a T)" "sp_521_gen_stripe_table_9 a T = sp_521_gen_stripe_table_9 a T'"
    "sp_521_gen_stripe_table_9 a T ! 0 = zero_te"
proof -
  define t where "t = sp_521_proj_to_affine_9 \<lparr>pt_x = take 9 (pt_x a), pt_y = take 9 (pt_y a), pt_z = take 9 (pt_z a), infinity = 0\<rparr>"
  have t: "G t" "pt_z t = p521_norm_mod" using G_affine [OF assms(1)] by (simp_all add: t_def)
  have "agree {0} (t, T[0 := zero_te]) (t, T'[0 := zero_te])" using t(1) assms(2,3) by (simp add: agree_def ent_def zero_te_def)
  from agree_put [OF this t, of 1] have "agree {0, 1} (t, table_put 1 t (T[0 := zero_te])) (t, table_put 1 t (T'[0 := zero_te]))"
    by (simp add: insert_commute)
  note d = agree_dbl [OF this order_refl]
  have "x \<in> {0, 1} \<union> (^) 2 ` {1..<8}" if "x \<in> {..<2} \<union> (^) 2 ` {..<8}" for x :: nat
    using that by (auto simp: less_2_cases_iff image_iff)
  with d have "agree ({..<2} \<union> (^) 2 ` {..<8})
    (fold gen_dbl_step [1..<8] (t, table_put 1 t (T[0 := zero_te]))) (fold gen_dbl_step [1..<8] (t, table_put 1 t (T'[0 := zero_te])))"
    by (intro agree_mono [OF d] subsetI)
  from agree_add_rows [OF this, of 7]
  have a: "agree {..<256} (fold gen_add_row [1..<8] (fold gen_dbl_step [1..<8] (t, table_put 1 t (T[0 := zero_te]))))
    (fold gen_add_row [1..<8] (fold gen_dbl_step [1..<8] (t, table_put 1 t (T'[0 := zero_te]))))"
    by (auto elim: agree_mono simp del: upt_rec_numeral)
  have g: "sp_521_gen_stripe_table_9 a T = snd (fold gen_add_row [1..<8] (fold gen_dbl_step [1..<8] (t, table_put 1 t (T[0 := zero_te]))))" for T
    by (simp add: sp_521_gen_stripe_table_9_def sp_521_mod_mul_norm_9_def t_def Let_def del: upt_rec_numeral)
  show "stripe_table (sp_521_gen_stripe_table_9 a T)" "sp_521_gen_stripe_table_9 a T = sp_521_gen_stripe_table_9 a T'"
    "sp_521_gen_stripe_table_9 a T ! 0 = zero_te"
    unfolding g by (rule agree_all [OF a])+
qed

end

lemma dbl_n_9_len9: "len9 p \<Longrightarrow> len9 (sp_521_proj_point_dbl_n_9 p n)"
  by (simp add: len9_def sp_521_proj_point_dbl_n_9_def dbl_n_body_def Let_def mont_lengths length_norm_mod p521_mod_def split: prod.splits)

lemma add_qz1_9_finite:
  assumes "infinity p = 0" "len9 p"
  shows "len9 (sp_521_proj_point_add_qz1_9 p q) \<and> infinity (sp_521_proj_point_add_qz1_9 p q) = 0"
  using assms dbl_9_len9 [of p] dbl_9_infinity [of p]
  by (simp add: sp_521_proj_point_add_qz1_9_def len9_def select3_def Let_def del: upt_rec_numeral)

lemma dbl_n_9_wf: "wf_pt p \<Longrightarrow> 0 < n \<Longrightarrow> wf_pt (sp_521_proj_point_dbl_n_9 p n)"
  using pt3_wf [OF dbl_n_9_pt3 [OF pt3_coords]] by blast

lemma proj_to_affine_9_wf: "wf_pt p \<Longrightarrow> wf_pt (sp_521_proj_to_affine_9 p)"
proof -
  assume p: "wf_pt p"
  then have "f521.rep (pt_z p) (val521 (pt_z p))" by (simp add: wf_pt_def f521.rep_def)
  from mont_inv_9_rep [OF this] have "fe521 (sp_521_mont_inv_9 (pt_z p))" by (simp add: f521.rep_def)
  then show ?thesis
    using p by (simp add: wf_pt_def sp_521_proj_to_affine_9_def Let_def mont_mul_9(1) mont_sqr_9(1) fe521_consts)
qed

interpretation table_len: table_points len9
proof
  fix p q
  show "len9 \<lparr>pt_x = take 9 (pt_x p), pt_y = take 9 (pt_y p), pt_z = take 9 (pt_z p), infinity = 0\<rparr>" if "len9 p"
    using that by (simp add: len9_def)
  show "len9 (sp_521_proj_to_affine_9 p)" if "len9 p"
    using that by (simp add: len9_def sp_521_proj_to_affine_9_def Let_def mont_lengths length_norm_mod)
qed (simp_all add: dbl_9_len9 dbl_n_9_len9 add_qz1_9_finite)

interpretation table_wf: table_points wf_pt
  by unfold_locales (simp_all add: dbl_n_9_wf proj_to_affine_9_wf)

section \<open>The cache\<close>

type_synonym cache_key = "int list \<times> int list"

definition ce_key :: "sp_cache_521_t \<Rightarrow> cache_key" where
  "ce_key e = (ce_x e, ce_y e)"

definition point_key :: "sp_point_521 \<Rightarrow> cache_key" where
  "point_key g = (take 9 (pt_x g), take 9 (pt_y g))"

text \<open>The table of an affine point, written over a zero table.\<close>

definition affine_table :: "cache_key \<Rightarrow> sp_table_entry_521 list" where
  "affine_table k = sp_521_gen_stripe_table_9 \<lparr>pt_x = fst k, pt_y = snd k, pt_z = 1 # replicate 8 0, infinity = 0\<rparr> (replicate 256 zero_te)"

definition slot_ok :: "sp_cache_521_t \<Rightarrow> bool" where
  "slot_ok e \<longleftrightarrow> length (ce_x e) = 9 \<and> length (ce_y e) = 9 \<and> length (ce_table e) = 256 \<and> 0 \<le> ce_cnt e \<and>
    (ce_set e \<and> 2 \<le> ce_cnt e \<longrightarrow> ce_table e = affine_table (ce_key e))"

definition entries_ok :: "sp_cache_521_t list \<Rightarrow> bool" where
  "entries_ok es \<longleftrightarrow> length es = FP_ENTRIES \<and> (\<forall>i<FP_ENTRIES. slot_ok (es ! i)) \<and>
    (\<forall>i<FP_ENTRIES. \<forall>j<FP_ENTRIES. ce_set (es ! i) \<longrightarrow> ce_set (es ! j) \<longrightarrow> ce_key (es ! i) = ce_key (es ! j) \<longrightarrow> i = j)"

definition cache_ok :: "sp_cache \<Rightarrow> bool" where
  "cache_ok st \<longleftrightarrow> entries_ok (sp_cache_521 st) \<and> - 1 \<le> sp_cache_521_last st \<and> sp_cache_521_last st < 16 \<and>
    (sp_cache_521_last st = - 1 \<or> \<not> sp_cache_521_inited st \<longrightarrow> (\<forall>i<FP_ENTRIES. \<not> ce_set (sp_cache_521 st ! i))) \<and>
    (0 \<le> sp_cache_521_last st \<longrightarrow> ce_set (sp_cache_521 st ! nat (sp_cache_521_last st)))"

text \<open>The contents of the cache: the use counts of the points it holds.\<close>

definition cache_map :: "sp_cache_521_t list \<Rightarrow> cache_key \<rightharpoonup> int" where
  "cache_map es = map_of (map (\<lambda>e. (ce_key e, ce_cnt e)) (filter ce_set es))"

lemma cache_map_Some:
  assumes "entries_ok es"
  shows "cache_map es k = Some c \<longleftrightarrow> (\<exists>i<FP_ENTRIES. ce_set (es ! i) \<and> ce_key (es ! i) = k \<and> ce_cnt (es ! i) = c)"
proof -
  have l: "length es = 16" and d: "\<And>i j. i < 16 \<Longrightarrow> j < 16 \<Longrightarrow> ce_set (es ! i) \<Longrightarrow> ce_set (es ! j) \<Longrightarrow> ce_key (es ! i) = ce_key (es ! j) \<Longrightarrow> i = j"
    using assms by (simp_all add: entries_ok_def)
  let ?m = "map (\<lambda>e. (ce_key e, ce_cnt e)) (filter ce_set es)"
  have m: "(k, c) \<in> set ?m \<longleftrightarrow> (\<exists>i<16. ce_set (es ! i) \<and> ce_key (es ! i) = k \<and> ce_cnt (es ! i) = c)" for c
    using l by (auto simp: in_set_conv_nth image_iff)
  show ?thesis
  proof
    assume "cache_map es k = Some c"
    then show "\<exists>i<16. ce_set (es ! i) \<and> ce_key (es ! i) = k \<and> ce_cnt (es ! i) = c"
      using m map_of_SomeD [of ?m k c] by (simp add: cache_map_def)
  next
    assume "\<exists>i<16. ce_set (es ! i) \<and> ce_key (es ! i) = k \<and> ce_cnt (es ! i) = c"
    then obtain i where i: "i < 16" "ce_set (es ! i)" "ce_key (es ! i) = k" "ce_cnt (es ! i) = c" by blast
    then have "(k, c) \<in> set ?m" using m by blast
    then obtain c' where c': "map_of ?m k = Some c'" using weak_map_of_SomeI by metis
    with m map_of_SomeD [OF c'] obtain j where "j < 16" "ce_set (es ! j)" "ce_key (es ! j) = k" "ce_cnt (es ! j) = c'" by blast
    with d [of i j] i c' show "cache_map es k = Some c" by (auto simp: cache_map_def)
  qed
qed

lemma cmp_equal_9_take:
  assumes "9 \<le> length a" "length b = 9"
  shows "sp_521_cmp_equal_9 a b = (if take 9 a = b then 1 else 0)"
  using cmp_equal_9_iff [of a b] assms by simp

lemma cache_find_spec:
  assumes "9 \<le> length (pt_x g)" "9 \<le> length (pt_y g)" "\<forall>e\<in>set es. length (ce_x e) = 9 \<and> length (ce_y e) = 9"
  shows "cache_find g es < length es \<and> ce_set (es ! cache_find g es) \<and> ce_key (es ! cache_find g es) = point_key g \<or>
    cache_find g es = length es \<and> (\<forall>e\<in>set es. ce_set e \<longrightarrow> ce_key e \<noteq> point_key g)"
  using assms(3)
  by (induction es) (auto simp: cmp_equal_9_take assms(1,2) ce_key_def point_key_def)

lemma cache_empty_spec:
  assumes "(i + d) mod 16 = l" "i < 16" "d < 16"
  shows "\<exists>j<16. cache_empty es (int l) i = Some j \<and> (ce_set (es ! j) \<longrightarrow> j = l \<and> (\<forall>m<d. ce_set (es ! ((i + m) mod 16))))"
  using assms
proof (induction d arbitrary: i)
  case 0
  then show ?case by (subst cache_empty.simps) simp
next
  case (Suc d)
  have ne: "i \<noteq> l" using Suc.prems by (auto simp: mod_if split: if_splits)
  have "(i + 1) mod 16 < 16" "d < 16" using Suc.prems(3) by simp_all
  moreover have "((i + 1) mod 16 + d) mod 16 = l" using Suc.prems(1) by (simp add: mod_simps)
  ultimately obtain j where j: "j < 16" "cache_empty es (int l) ((i + 1) mod 16) = Some j"
    "ce_set (es ! j) \<longrightarrow> j = l \<and> (\<forall>m<d. ce_set (es ! (((i + 1) mod 16 + m) mod 16)))" using Suc.IH by blast
  show ?case
  proof (cases "ce_set (es ! i)")
    case True
    have "cache_empty es (int l) i = Some j" using ne True j(2) by (subst cache_empty.simps) simp
    moreover have "ce_set (es ! ((i + m) mod 16))" if "m < Suc d" "ce_set (es ! j)" for m
      using that j(3) True Suc.prems(2) by (cases m) (auto simp: mod_simps)
    ultimately show ?thesis using j by auto
  next
    case False
    then show ?thesis using ne Suc.prems(2) by (subst cache_empty.simps) simp
  qed
qed

lemma cache_evict_range:
  assumes "i < 16"
  shows "cache_evict es i < 16"
proof -
  have "fst (fold (\<lambda>j (i, least). if ce_cnt (es ! j) < least then (j, ce_cnt (es ! j)) else (i, least)) js (i, c)) < 16"
    if "\<forall>j\<in>set js. j < 16" "i < 16" for js i c
    using that by (induction js arbitrary: i c) auto
  then show ?thesis using assms by (simp add: cache_evict_def del: upt_rec_numeral)
qed

text \<open>Writing entry \<open>i\<close> for the key \<open>k\<close>, which either is the key of the entry or of none.\<close>

lemma entries_ok_update:
  assumes "entries_ok es" "i < FP_ENTRIES" "slot_ok e"
    and "\<forall>j<FP_ENTRIES. ce_set (es ! j) \<longrightarrow> ce_key (es ! j) = ce_key e \<longrightarrow> j = i"
  shows "entries_ok (es[i := e])"
  unfolding entries_ok_def
proof (intro conjI allI impI)
  show "length (es[i := e]) = 16" using assms(1) by (simp add: entries_ok_def)
  show "slot_ok (es[i := e] ! j)" if "j < 16" for j
    using assms that by (simp add: entries_ok_def nth_list_update)
  show "j = l" if "j < 16" "l < 16" "ce_set (es[i := e] ! j)" "ce_set (es[i := e] ! l)" "ce_key (es[i := e] ! j) = ce_key (es[i := e] ! l)" for j l
    using that assms(2,4) assms(1) [unfolded entries_ok_def] by (metis nth_list_update_eq nth_list_update_neq)
qed

lemma cache_map_update:
  assumes ok: "entries_ok es" "entries_ok (es[i := e])" and i: "i < FP_ENTRIES" "ce_set e"
  shows "cache_map (es[i := e]) = (cache_map es |` (if ce_set (es ! i) then - {ce_key (es ! i)} else UNIV))(ce_key e \<mapsto> ce_cnt e)"
proof
  fix k
  have l: "length es = 16" using ok(1) by (simp add: entries_ok_def)
  have other: "(\<exists>j<16. ce_set (es[i := e] ! j) \<and> ce_key (es[i := e] ! j) = k \<and> ce_cnt (es[i := e] ! j) = c) \<longleftrightarrow>
      (\<exists>j<16. j \<noteq> i \<and> ce_set (es ! j) \<and> ce_key (es ! j) = k \<and> ce_cnt (es ! j) = c)" if "k \<noteq> ce_key e" for c
    using that l i by (metis nth_list_update_eq nth_list_update_neq)
  have self: "cache_map (es[i := e]) (ce_key e) = Some (ce_cnt e)"
    unfolding cache_map_Some [OF ok(2)] using i l by (intro exI [of _ i]) simp
  show "cache_map (es[i := e]) k = ((cache_map es |` (if ce_set (es ! i) then - {ce_key (es ! i)} else UNIV))(ce_key e \<mapsto> ce_cnt e)) k"
  proof (cases "k = ce_key e")
    case True
    then show ?thesis using self by simp
  next
    case False
    have u: "j = i" if "ce_set (es ! i)" "j < 16" "ce_set (es ! j)" "ce_key (es ! j) = ce_key (es ! i)" for j
      using ok(1) that i(1) by (simp add: entries_ok_def)
    have "cache_map (es[i := e]) k = Some c \<longleftrightarrow> (cache_map es |` (if ce_set (es ! i) then - {ce_key (es ! i)} else UNIV)) k = Some c" for c
      unfolding cache_map_Some [OF ok(2)] other [OF False] restrict_map_def
      using cache_map_Some [OF ok(1), of k c] u i(1) by auto
    then show ?thesis using False by (metis fun_upd_other not_Some_eq)
  qed
qed

lemma cache_slot:
  assumes ok: "cache_ok st"
  defines "es \<equiv> sp_cache_521 st" and "lst \<equiv> sp_cache_521_last st"
  shows "\<exists>j i. cache_empty es lst (nat ((lst + 1) mod 16)) = Some j \<and> i = (if int j = lst then cache_evict es j else j) \<and>
    i < FP_ENTRIES \<and> (ce_set (es ! i) \<longrightarrow> (\<forall>j<FP_ENTRIES. ce_set (es ! j)))"
proof (cases "lst = - 1")
  case True
  have "\<forall>i<16. \<not> ce_set (es ! i)" using ok True unfolding cache_ok_def es_def lst_def by blast
  then have z: "\<not> ce_set (es ! 0)" by (rule allE [of _ 0]) simp
  have "cache_empty es lst 0 = Some 0" using True z by (subst cache_empty.simps) simp
  then show ?thesis using True z by simp
next
  case False
  define l where "l = nat lst"
  have l: "lst = int l" "l < 16" "ce_set (es ! l)" using ok False unfolding l_def cache_ok_def es_def lst_def by auto
  have s: "nat ((lst + 1) mod 16) = (l + 1) mod 16" by (simp add: l(1) nat_mod_distrib nat_add_distrib)
  have d: "((l + 1) mod 16 + 15) mod 16 = l" using l(2) by (simp add: mod_simps)
  obtain j where j: "j < 16" "cache_empty es lst ((l + 1) mod 16) = Some j"
    "ce_set (es ! j) \<longrightarrow> j = l \<and> (\<forall>m<15. ce_set (es ! (((l + 1) mod 16 + m) mod 16)))"
    using cache_empty_spec [OF d, of es] l(1) by auto
  show ?thesis
  proof (cases "ce_set (es ! j)")
    case True
    have "ce_set (es ! n)" if "n < 16" for n
    proof (cases "n = l")
      case False
      have "((l + 1) mod 16 + (n + 15 - l) mod 16) mod 16 = n" unfolding mod_add_eq using that l(2) by simp
      moreover have "(n + 15 - l) mod 16 < 15" using that l(2) False by (auto simp: mod_if)
      ultimately show ?thesis using j(3) True by metis
    qed (use l in simp)
    then show ?thesis using j s cache_evict_range by auto
  next
    case False
    then have "int j \<noteq> lst" using l by auto
    then show ?thesis using False j s by auto
  qed
qed

text \<open>The count a look-up gives: one for a new point, otherwise one more, in 32 bits.\<close>

definition next_count :: "int option \<Rightarrow> int" where
  "next_count c = (case c of None \<Rightarrow> 1 | Some n \<Rightarrow> (n + 1) mod 2 ^ 32)"

lemma get_cache_521_spec:
  assumes ok: "cache_ok st" and g: "9 \<le> length (pt_x g)" "9 \<le> length (pt_y g)"
  defines "es \<equiv> sp_cache_521 st"
  shows "\<exists>i e. i < FP_ENTRIES \<and>
    sp_ecc_get_cache_521 g st = Some (st\<lparr>sp_cache_521 := es[i := e], sp_cache_521_last := int i, sp_cache_521_inited := True\<rparr>, i) \<and>
    (\<forall>j<FP_ENTRIES. ce_set (es ! j) \<longrightarrow> ce_key (es ! j) = point_key g \<longrightarrow> j = i) \<and>
    ce_key e = point_key g \<and> ce_set e \<and> ce_table e = ce_table (es ! i) \<and> ce_cnt e = next_count (cache_map es (point_key g)) \<and>
    (ce_cnt e \<noteq> 1 \<longrightarrow> ce_set (es ! i) \<and> ce_key (es ! i) = point_key g \<and> ce_cnt e = (ce_cnt (es ! i) + 1) mod 2 ^ 32) \<and>
    (ce_set (es ! i) \<and> ce_key (es ! i) \<noteq> point_key g \<longrightarrow> (\<forall>j<FP_ENTRIES. ce_set (es ! j)))"
proof -
  have e: "entries_ok es" and l: "length es = 16" using ok by (simp_all add: cache_ok_def es_def entries_ok_def)
  have u: "i = j" if "i < 16" "j < 16" "ce_set (es ! i)" "ce_set (es ! j)" "ce_key (es ! i) = ce_key (es ! j)" for i j
    using e that unfolding entries_ok_def by blast
  have "map (\<lambda>e. e\<lparr>ce_set := False\<rparr>) es = es" if "\<not> sp_cache_521_inited st"
    using that ok l by (intro nth_equalityI) (simp_all add: cache_ok_def es_def)
  then have init: "(if sp_cache_521_inited st then st
      else st\<lparr>sp_cache_521 := map (\<lambda>e. e\<lparr>ce_set := False\<rparr>) (sp_cache_521 st), sp_cache_521_inited := True\<rparr>) = st\<lparr>sp_cache_521_inited := True\<rparr>"
    by (simp add: es_def)
  have get: "sp_ecc_get_cache_521 g st =
     (let upd = (\<lambda>i e. Some (st\<lparr>sp_cache_521 := es[i := e], sp_cache_521_last := int i, sp_cache_521_inited := True\<rparr>, i)); i = cache_find g es
      in if i < 16 then upd i ((es ! i)\<lparr>ce_cnt := (ce_cnt (es ! i) + 1) mod 2 ^ 32\<rparr>)
         else case cache_empty es (sp_cache_521_last st) (nat ((sp_cache_521_last st + 1) mod 16)) of
           None \<Rightarrow> None
         | Some i \<Rightarrow>
             let i = (if int i = sp_cache_521_last st then cache_evict es i else i)
             in upd i ((es ! i)\<lparr>ce_x := take 9 (pt_x g), ce_y := take 9 (pt_y g), ce_set := True, ce_cnt := 1\<rparr>))"
    unfolding sp_ecc_get_cache_521_def Let_def init es_def by (cases st) (simp split: option.split)
  have "\<forall>e\<in>set es. length (ce_x e) = 9 \<and> length (ce_y e) = 9"
    using e l by (auto simp: entries_ok_def slot_ok_def in_set_conv_nth)
  note f = cache_find_spec [OF g this]
  show ?thesis
  proof (cases "cache_find g es < 16")
    case True
    let ?i = "cache_find g es"
    have i: "ce_set (es ! ?i)" "ce_key (es ! ?i) = point_key g" using f True l by auto
    have k: "cache_map es (point_key g) = Some (ce_cnt (es ! ?i))" unfolding cache_map_Some [OF e] using i True by blast
    have c: "ce_key ((es ! ?i)\<lparr>ce_cnt := c\<rparr>) = ce_key (es ! ?i)" for c by (simp add: ce_key_def)
    have q: "\<forall>j<16. ce_set (es ! j) \<longrightarrow> ce_key (es ! j) = point_key g \<longrightarrow> j = ?i" using u True i by metis
    show ?thesis using k c i True unfolding get Let_def
      by (intro exI [of _ ?i] exI [of _ "(es ! ?i)\<lparr>ce_cnt := (ce_cnt (es ! ?i) + 1) mod 2 ^ 32\<rparr>"] conjI q) (simp_all add: next_count_def)
  next
    case False
    then have n: "\<forall>e\<in>set es. ce_set e \<longrightarrow> ce_key e \<noteq> point_key g" using f l by simp
    then have n: "ce_key (es ! j) \<noteq> point_key g" if "j < 16" "ce_set (es ! j)" for j using that l by simp
    then have m: "cache_map es (point_key g) = None" using cache_map_Some [OF e, of "point_key g"] by (cases "cache_map es (point_key g)") auto
    obtain j i where s: "cache_empty es (sp_cache_521_last st) (nat ((sp_cache_521_last st + 1) mod 16)) = Some j"
      "i = (if int j = sp_cache_521_last st then cache_evict es j else j)" "i < 16" "ce_set (es ! i) \<longrightarrow> (\<forall>j<16. ce_set (es ! j))"
      using cache_slot [OF ok] unfolding es_def by blast
    have k: "ce_key ((es ! i)\<lparr>ce_x := take 9 (pt_x g), ce_y := take 9 (pt_y g), ce_set := True, ce_cnt := 1\<rparr>) = point_key g"
      by (simp add: ce_key_def point_key_def)
    show ?thesis
      using s n m k False unfolding get Let_def
      by (intro exI [of _ i] exI [of _ "(es ! i)\<lparr>ce_x := take 9 (pt_x g), ce_y := take 9 (pt_y g), ce_set := True, ce_cnt := 1\<rparr>"])
        (simp add: next_count_def)
  qed
qed

lemma gen_table_affine:
  assumes "len9 g" "take 9 (pt_z g) = 1 # replicate 8 0" "length T = 256"
  shows "sp_521_gen_stripe_table_9 g T = affine_table (point_key g)"
proof -
  let ?a = "\<lparr>pt_x = fst (point_key g), pt_y = snd (point_key g), pt_z = 1 # replicate 8 0, infinity = 0\<rparr>"
  have "len9 \<lparr>pt_x = take 9 (pt_x g), pt_y = take 9 (pt_y g), pt_z = take 9 (pt_z g), infinity = 0\<rparr>" using assms(1) by (simp add: len9_def)
  from table_len.gen_stripe_table_9_agree(2) [OF this assms(3), of "replicate 256 zero_te"]
  have "sp_521_gen_stripe_table_9 g T = sp_521_gen_stripe_table_9 g (replicate 256 zero_te)" by simp
  also have "\<dots> = sp_521_gen_stripe_table_9 ?a (replicate 256 zero_te)"
    by (simp add: sp_521_gen_stripe_table_9_def sp_521_mod_mul_norm_9_def point_key_def assms(2) del: upt_rec_numeral)
  finally show ?thesis by (simp add: affine_table_def)
qed

text \<open>The contract of a look-up on the contents: only a full cache loses another point, and only one.\<close>

definition cache_step :: "cache_key \<Rightarrow> (cache_key \<rightharpoonup> int) \<Rightarrow> (cache_key \<rightharpoonup> int) \<Rightarrow> bool" where
  "cache_step k m m' \<longleftrightarrow>
    m' = m(k \<mapsto> next_count (m k)) \<or>
    m k = None \<and> card (dom m) = FP_ENTRIES \<and> (\<exists>k'\<in>dom m. m' = (m(k' := None))(k \<mapsto> 1))"

lemma cache_step_update:
  assumes es: "entries_ok es" "entries_ok (es[i := e])" and i: "i < FP_ENTRIES" "ce_set e" "ce_key e = k" "ce_cnt e = next_count (cache_map es k)"
    and uniq: "\<forall>j<FP_ENTRIES. ce_set (es ! j) \<longrightarrow> ce_key (es ! j) = k \<longrightarrow> j = i"
    and full: "ce_set (es ! i) \<and> ce_key (es ! i) \<noteq> k \<longrightarrow> (\<forall>j<FP_ENTRIES. ce_set (es ! j))"
  shows "cache_step k (cache_map es) (cache_map (es[i := e]))"
proof -
  note upd = cache_map_update [OF es i(1,2), unfolded i(3,4)]
  consider "\<not> ce_set (es ! i)" | "ce_set (es ! i)" "ce_key (es ! i) = k" | "ce_set (es ! i)" "ce_key (es ! i) \<noteq> k" by blast
  then show ?thesis
  proof cases
    case 3
    then have all: "ce_set (es ! j)" if "j < 16" for j using full that by blast
    have n: "cache_map es k = None" using cache_map_Some [OF es(1), of k] uniq 3 by (metis not_Some_eq)
    have d: "dom (cache_map es) = (\<lambda>j. ce_key (es ! j)) ` {..<16}"
      by (rule set_eqI) (simp add: dom_def not_None_eq cache_map_Some [OF es(1)] image_iff, metis all lessThan_iff)
    have "inj_on (\<lambda>j. ce_key (es ! j)) {..<16}" using es(1) all unfolding entries_ok_def inj_on_def by blast
    then have "card (dom (cache_map es)) = 16" unfolding d by (simp add: card_image)
    moreover have "ce_key (es ! i) \<in> dom (cache_map es)" unfolding d using i(1) by blast
    moreover have "cache_map (es[i := e]) = ((cache_map es)(ce_key (es ! i) := None))(k \<mapsto> 1)"
      unfolding upd using 3 n by (auto simp: next_count_def restrict_map_def)
    ultimately show ?thesis using n unfolding cache_step_def by blast
  qed (auto simp: cache_step_def upd restrict_map_def)
qed

lemma mulmod_locked_spec:
  assumes ok: "cache_ok st" and g: "len9 g" "take 9 (pt_z g) = 1 # replicate 8 0"
  defines "m \<equiv> cache_map (sp_cache_521 st)"
  shows "\<exists>st' i. mulmod_locked g st = Some (st', i) \<and> i < FP_ENTRIES \<and> cache_ok st' \<and>
    cache_step (point_key g) m (cache_map (sp_cache_521 st')) \<and> ce_cnt (sp_cache_521 st' ! i) = next_count (m (point_key g)) \<and>
    (2 \<le> ce_cnt (sp_cache_521 st' ! i) \<longrightarrow> ce_table (sp_cache_521 st' ! i) = affine_table (point_key g))"
proof -
  let ?es = "sp_cache_521 st"
  have es: "entries_ok ?es" "length ?es = 16" using ok by (simp_all add: cache_ok_def entries_ok_def)
  obtain i e where i: "i < 16"
    and get: "sp_ecc_get_cache_521 g st = Some (st\<lparr>sp_cache_521 := ?es[i := e], sp_cache_521_last := int i, sp_cache_521_inited := True\<rparr>, i)"
    and uniq: "\<forall>j<16. ce_set (?es ! j) \<longrightarrow> ce_key (?es ! j) = point_key g \<longrightarrow> j = i"
    and e: "ce_key e = point_key g" "ce_set e" "ce_table e = ce_table (?es ! i)" "ce_cnt e = next_count (m (point_key g))"
    and hit: "ce_cnt e \<noteq> 1 \<longrightarrow> ce_set (?es ! i) \<and> ce_key (?es ! i) = point_key g \<and> ce_cnt e = (ce_cnt (?es ! i) + 1) mod 2 ^ 32"
    and full: "ce_set (?es ! i) \<and> ce_key (?es ! i) \<noteq> point_key g \<longrightarrow> (\<forall>j<16. ce_set (?es ! j))"
    using get_cache_521_spec [OF ok] g(1) unfolding len9_def m_def by blast
  define e' where "e' = (if ce_cnt e = 2 then e\<lparr>ce_table := sp_521_gen_stripe_table_9 g (ce_table e)\<rparr> else e)"
  define st' where "st' = st\<lparr>sp_cache_521 := ?es[i := e'], sp_cache_521_last := int i, sp_cache_521_inited := True\<rparr>"
  have o: "slot_ok (?es ! i)" using es(1) i by (simp add: entries_ok_def)
  have e': "ce_key e' = point_key g" "ce_set e'" "ce_cnt e' = next_count (m (point_key g))" using e by (simp_all add: e'_def ce_key_def)
  have locked: "mulmod_locked g st = Some (st', i)"
    unfolding mulmod_locked_def get st'_def e'_def Let_def using i es(2) by simp
  have len: "length (ce_table e) = 256" using o e(3) by (simp add: slot_ok_def)
  note gen = gen_table_affine [OF g len]
  have t: "ce_table e' = affine_table (point_key g)" if "2 \<le> ce_cnt e'"
  proof (cases "ce_cnt e = 2")
    case True
    then show ?thesis by (simp add: e'_def gen)
  next
    case False
    then have c: "2 < ce_cnt e" using that by (simp add: e'_def)
    then have h: "ce_set (?es ! i)" "ce_key (?es ! i) = point_key g" "ce_cnt e = (ce_cnt (?es ! i) + 1) mod 2 ^ 32" using hit by auto
    have "0 \<le> ce_cnt (?es ! i)" using o by (simp add: slot_ok_def)
    then have "(ce_cnt (?es ! i) + 1) mod 2 ^ 32 \<le> ce_cnt (?es ! i) + 1" by (intro zmod_le_nonneg_dividend) simp
    then have "2 \<le> ce_cnt (?es ! i)" using c h(3) by linarith
    then show ?thesis using o h False e(3) by (simp add: slot_ok_def e'_def)
  qed
  have "length (affine_table (point_key g)) = 256"
    using table_len.gen_stripe_table_9_agree(1) [of g "ce_table e"] g(1) len
    by (simp add: gen [symmetric] len9_def table_len.stripe_table_def table_lengths_def)
  then have "length (ce_table e') = 256" using len gen by (simp add: e'_def)
  moreover have "0 \<le> ce_cnt e'" unfolding e'(3) by (simp add: next_count_def split: option.split)
  moreover have "length (ce_x e') = 9" "length (ce_y e') = 9" using e'(1) g(1) by (auto simp: ce_key_def point_key_def len9_def)
  ultimately have "slot_ok e'" using t e'(1) by (simp add: slot_ok_def)
  with entries_ok_update [OF es(1) i] uniq have ok': "entries_ok (?es[i := e'])" by (simp add: e'(1))
  then have "cache_ok st'" using ok i e'(2) es(2) by (simp add: cache_ok_def st'_def)
  moreover have "cache_step (point_key g) m (cache_map (sp_cache_521 st'))"
    using cache_step_update [OF es(1) ok' i e'(2,1) e'(3) [unfolded m_def] uniq full] by (simp add: st'_def m_def)
  ultimately show ?thesis using locked i es(2) e'(3) t by (auto simp: st'_def)
qed

section \<open>Sequences of calls\<close>

text \<open>The states of the cache after calls with affine points, whatever else the calls are given.\<close>

definition affine_call :: "sp_point_521 \<Rightarrow> bool" where
  "affine_call g \<longleftrightarrow> len9 g \<and> take 9 (pt_z g) = 1 # replicate 8 0"

inductive cache_reach :: "sp_cache \<Rightarrow> bool" where
  cache_start: "cache_reach sp_cache_init"
| cache_call: "cache_reach st \<Longrightarrow> affine_call g \<Longrightarrow> sp_521_ecc_mulmod_9_fp lock jp r g k to_affine ct st = Some (ret, p, st') \<Longrightarrow>
    cache_reach st'"

lemma cache_init_ok: "cache_ok sp_cache_init"
  by (simp add: sp_cache_init_def cache_ok_def entries_ok_def slot_ok_def)

lemma cache_reach_ok: "cache_reach st \<Longrightarrow> cache_ok st"
proof (induction rule: cache_reach.induct)
  case (cache_call st g lock jp r k to_affine ct ret p st')
  then show ?case
    using mulmod_locked_spec [OF cache_call.IH, of g]
    by (auto simp: sp_521_ecc_mulmod_9_fp_def affine_call_def split: if_splits)
qed (rule cache_init_ok)

section \<open>Eviction and use after unlocking\<close>

text \<open>When no entry is used less than entry 0, the scan for the least used entry keeps its start, the entry used last,
  and not entry 0.\<close>

lemma cache_evict_first:
  assumes "\<forall>j<FP_ENTRIES. ce_cnt (es ! 0) \<le> ce_cnt (es ! j)"
  shows "cache_evict es i = i"
proof -
  have "fold (\<lambda>j (i, least). if ce_cnt (es ! j) < least then (j, ce_cnt (es ! j)) else (i, least)) js (i, ce_cnt (es ! 0)) = (i, ce_cnt (es ! 0))"
    if "\<forall>j\<in>set js. j < 16" for js
    using that assms by (induction js) (auto simp: leD)
  then show ?thesis by (simp add: cache_evict_def del: upt_rec_numeral)
qed

lemma cache_empty_full:
  assumes "l < FP_ENTRIES" "\<forall>j<FP_ENTRIES. ce_set (es ! j)"
  shows "cache_empty es (int l) (nat ((int l + 1) mod 16)) = Some l"
proof -
  have s: "nat ((int l + 1) mod 16) = (l + 1) mod 16" by (simp add: nat_mod_distrib nat_add_distrib)
  have "((l + 1) mod 16 + 15) mod 16 = l" using assms(1) by (simp add: mod_simps)
  from cache_empty_spec [OF this, of es] show ?thesis using assms(2) s by auto
qed

lemma cache_find_entry:
  assumes "entries_ok es" "len9 g" "i < FP_ENTRIES" "ce_set (es ! i)" "ce_key (es ! i) = point_key g"
  shows "cache_find g es = i"
proof -
  have l: "length es = 16" using assms(1) by (simp add: entries_ok_def)
  then have "\<forall>e\<in>set es. length (ce_x e) = 9 \<and> length (ce_y e) = 9"
    using assms(1) by (auto simp: entries_ok_def slot_ok_def in_set_conv_nth)
  from cache_find_spec [OF _ _ this, of g] have f: "cache_find g es < 16 \<and> ce_set (es ! cache_find g es) \<and> ce_key (es ! cache_find g es) = point_key g"
    using assms(2-5) l nth_mem [of i es] by (auto simp: len9_def)
  then show ?thesis using assms(1,3-5) unfolding entries_ok_def by metis
qed

lemma cache_find_none:
  assumes "entries_ok es" "len9 g" "\<forall>i<FP_ENTRIES. ce_key (es ! i) \<noteq> point_key g"
  shows "cache_find g es = FP_ENTRIES"
proof -
  have l: "length es = 16" using assms(1) by (simp add: entries_ok_def)
  then have "\<forall>e\<in>set es. length (ce_x e) = 9 \<and> length (ce_y e) = 9"
    using assms(1) by (auto simp: entries_ok_def slot_ok_def in_set_conv_nth)
  from cache_find_spec [OF _ _ this, of g] show ?thesis using assms(2,3) l by (auto simp: len9_def)
qed

lemma mulmod_locked_hit:
  assumes "cache_ok st" "sp_cache_521_inited st" "len9 g" "i < FP_ENTRIES" "ce_set (sp_cache_521 st ! i)" "ce_key (sp_cache_521 st ! i) = point_key g"
  defines "e \<equiv> (sp_cache_521 st ! i)\<lparr>ce_cnt := (ce_cnt (sp_cache_521 st ! i) + 1) mod 2 ^ 32\<rparr>"
  shows "mulmod_locked g st = Some (st\<lparr>sp_cache_521 := (sp_cache_521 st)[i :=
    if ce_cnt e = 2 then e\<lparr>ce_table := sp_521_gen_stripe_table_9 g (ce_table e)\<rparr> else e], sp_cache_521_last := int i\<rparr>, i)"
proof -
  have es: "entries_ok (sp_cache_521 st)" "length (sp_cache_521 st) = 16" using assms(1) by (simp_all add: cache_ok_def entries_ok_def)
  have "sp_ecc_get_cache_521 g st = Some (st\<lparr>sp_cache_521 := (sp_cache_521 st)[i := e], sp_cache_521_last := int i\<rparr>, i)"
    using cache_find_entry [OF es(1) assms(3-6)] assms(2,4) by (simp add: sp_ecc_get_cache_521_def e_def Let_def)
  then show ?thesis using assms(4) es(2) by (simp add: mulmod_locked_def Let_def)
qed

lemma mulmod_locked_replace:
  assumes "cache_ok st" "sp_cache_521_inited st" "len9 g" "i < FP_ENTRIES" "sp_cache_521_last st = int i"
    and "\<forall>j<FP_ENTRIES. ce_set (sp_cache_521 st ! j)" "\<forall>j<FP_ENTRIES. ce_cnt (sp_cache_521 st ! 0) \<le> ce_cnt (sp_cache_521 st ! j)"
    and "\<forall>j<FP_ENTRIES. ce_key (sp_cache_521 st ! j) \<noteq> point_key g"
  shows "mulmod_locked g st = Some (st\<lparr>sp_cache_521 := (sp_cache_521 st)[i :=
    (sp_cache_521 st ! i)\<lparr>ce_x := take 9 (pt_x g), ce_y := take 9 (pt_y g), ce_set := True, ce_cnt := 1\<rparr>], sp_cache_521_last := int i\<rparr>, i)"
proof -
  have es: "entries_ok (sp_cache_521 st)" "length (sp_cache_521 st) = 16" using assms(1) by (simp_all add: cache_ok_def entries_ok_def)
  note f = cache_find_none [OF es(1) assms(3,8)] and c = cache_empty_full [OF assms(4,6)] and v = cache_evict_first [OF assms(7), of i]
  show ?thesis
    using assms(2,4) es(2) f c v by (simp add: mulmod_locked_def sp_ecc_get_cache_521_def Let_def assms(5))
qed

text \<open>The cache compares \<open>x\<close> and \<open>y\<close> only: once a point has a table, every point with the same two ordinates is
  multiplied with the table of the affine one, whatever its \<open>z\<close>.\<close>

lemma mulmod_9_ignores_z:
  assumes "cache_ok st" "sp_cache_521_inited st" "len9 g" "i < FP_ENTRIES" "ce_set (sp_cache_521 st ! i)" "ce_key (sp_cache_521 st ! i) = point_key g"
    and c: "2 \<le> ce_cnt (sp_cache_521 st ! i)" "ce_cnt (sp_cache_521 st ! i) < 2 ^ 32 - 1"
  shows "\<exists>st'. sp_521_ecc_mulmod_9_fp 0 jp r g k to_affine ct st =
    Some (MP_OKAY, sp_521_ecc_mulmod_stripe_9 jp r (affine_table (point_key g)) k to_affine ct, st')"
proof -
  have "ce_table (sp_cache_521 st ! i) = affine_table (point_key g)" "length (sp_cache_521 st) = 16"
    using assms by (auto simp: cache_ok_def entries_ok_def slot_ok_def)
  then show ?thesis
    using mulmod_locked_hit [OF assms(1-6)] c assms(4) by (simp add: sp_521_ecc_mulmod_9_fp_def mulmod_unlocked_def Let_def)
qed

text \<open>The table is used after the lock is released.  When all entries are taken, none is used less than entry 0, and a
  thread has looked up \<open>g\<close> in an entry \<open>i \<noteq> 0\<close>, two calls of another thread with a new point \<open>h\<close> put the table of
  \<open>h\<close> into entry \<open>i\<close>, and the first thread multiplies with it.\<close>

lemma mulmod_unlocked_race:
  assumes ok: "cache_ok st" "sp_cache_521_inited st" and all: "\<forall>j<FP_ENTRIES. ce_set (sp_cache_521 st ! j)"
    and least: "\<forall>j<FP_ENTRIES. ce_cnt (sp_cache_521 st ! 0) \<le> ce_cnt (sp_cache_521 st ! j)"
    and g: "affine_call g" "i < FP_ENTRIES" "i \<noteq> 0" "ce_key (sp_cache_521 st ! i) = point_key g" "2 \<le> ce_cnt (sp_cache_521 st ! i)"
      "ce_cnt (sp_cache_521 st ! i) < 2 ^ 32 - 1"
    and h: "affine_call h" "\<forall>j<FP_ENTRIES. ce_key (sp_cache_521 st ! j) \<noteq> point_key h"
  shows "\<exists>st1 st2 st3. mulmod_locked g st = Some (st1, i) \<and> mulmod_locked h st1 = Some (st2, i) \<and> mulmod_locked h st2 = Some (st3, i) \<and>
    mulmod_unlocked jp r g k to_affine ct st1 i = sp_521_ecc_mulmod_stripe_9 jp r (affine_table (point_key g)) k to_affine ct \<and>
    mulmod_unlocked jp r g k to_affine ct st3 i = sp_521_ecc_mulmod_stripe_9 jp r (affine_table (point_key h)) k to_affine ct"
proof -
  let ?es = "sp_cache_521 st" and ?c = "ce_cnt (sp_cache_521 st ! i)"
  define st1 where "st1 = st\<lparr>sp_cache_521 := ?es[i := (?es ! i)\<lparr>ce_cnt := ?c + 1\<rparr>], sp_cache_521_last := int i\<rparr>"
  define e2 where "e2 = (?es ! i)\<lparr>ce_x := take 9 (pt_x h), ce_y := take 9 (pt_y h), ce_set := True, ce_cnt := 1\<rparr>"
  define st2 where "st2 = st1\<lparr>sp_cache_521 := ?es[i := e2]\<rparr>"
  define st3 where "st3 = st2\<lparr>sp_cache_521 := ?es[i := e2\<lparr>ce_cnt := 2, ce_table := sp_521_gen_stripe_table_9 h (ce_table e2)\<rparr>]\<rparr>"
  have l: "length ?es = 16" using ok by (simp add: cache_ok_def entries_ok_def)
  have gh: "len9 g" "take 9 (pt_z g) = 1 # replicate 8 0" "len9 h" "take 9 (pt_z h) = 1 # replicate 8 0"
    using g(1) h(1) by (simp_all add: affine_call_def)
  have set: "ce_set (?es ! i)" using all g(2) by blast
  have key: "ce_key (x\<lparr>ce_cnt := c\<rparr>) = ce_key x" for x c by (simp add: ce_key_def)
  have 1: "mulmod_locked g st = Some (st1, i)"
    using mulmod_locked_hit [OF ok gh(1) g(2) set g(4)] g(5,6) by (simp add: st1_def)
  then have ok1: "cache_ok st1" "ce_table (sp_cache_521 st1 ! i) = affine_table (point_key g)"
    using mulmod_locked_spec [OF ok(1) gh(1,2)] g(2,5) l by (auto simp: st1_def)
  have es1: "sp_cache_521 st1 ! j = (if j = i then (?es ! i)\<lparr>ce_cnt := ?c + 1\<rparr> else ?es ! j)" if "j < 16" for j
    using that g(2) l by (simp add: st1_def)
  have "\<forall>j<16. ce_set (sp_cache_521 st1 ! j)" "\<forall>j<16. ce_key (sp_cache_521 st1 ! j) \<noteq> point_key h"
    using all h(2) g(2) key by (simp_all add: es1)
  moreover have "ce_cnt (sp_cache_521 st1 ! 0) \<le> ce_cnt (sp_cache_521 st1 ! j)" if "j < 16" for j
    using that es1 [of 0] es1 [OF that] g(3) least [rule_format, OF that] by (cases "j = i") simp_all
  ultimately have 2: "mulmod_locked h st1 = Some (st2, i)"
    using mulmod_locked_replace [OF ok1(1) _ gh(3) g(2)] ok(2) g(2) l by (simp add: st1_def st2_def e2_def)
  then have ok2: "cache_ok st2" using mulmod_locked_spec [OF ok1(1) gh(3,4)] by auto
  have e2: "ce_key e2 = point_key h" by (simp add: e2_def ce_key_def point_key_def)
  have 3: "mulmod_locked h st2 = Some (st3, i)"
    using mulmod_locked_hit [OF ok2 _ gh(3) g(2)] ok(2) e2 l g(2) by (simp add: st1_def st2_def st3_def e2_def)
  then have "ce_table (sp_cache_521 st3 ! i) = affine_table (point_key h)"
    using mulmod_locked_spec [OF ok2 gh(3,4)] l g(2) by (auto simp: st3_def)
  then show ?thesis using 1 2 3 ok1(2) l g(2,5)
    by (intro exI [of _ st1] exI [of _ st2] exI [of _ st3]) (simp add: mulmod_unlocked_def st1_def st3_def Let_def)
qed

text \<open>Such a state: sixteen points, the first used once and the others twice.\<close>

definition race_point :: "int \<Rightarrow> sp_point_521" where
  "race_point j = \<lparr>pt_x = j # replicate 8 0, pt_y = replicate 9 0, pt_z = 1 # replicate 8 0, infinity = 0\<rparr>"

definition race_state :: sp_cache where
  "race_state = \<lparr>sp_cache_521 = map (\<lambda>j. \<lparr>ce_x = int j # replicate 8 0, ce_y = replicate 9 0,
      ce_table = affine_table (point_key (race_point (int j))), ce_cnt = (if j = 0 then 1 else 2), ce_set = True\<rparr>) [0..<16],
    sp_cache_521_last = 15, sp_cache_521_inited = True\<rparr>"

lemma race_point_key: "affine_call (race_point j)" "point_key (race_point j) = (j # replicate 8 0, replicate 9 0)"
  by (simp_all add: affine_call_def len9_def race_point_def point_key_def numeral_eq_Suc)

lemma race_state_entry:
  assumes "j < FP_ENTRIES"
  shows "sp_cache_521 race_state ! j = \<lparr>ce_x = int j # replicate 8 0, ce_y = replicate 9 0,
      ce_table = affine_table (point_key (race_point (int j))), ce_cnt = (if j = 0 then 1 else 2), ce_set = True\<rparr>"
  using assms by (simp add: race_state_def del: upt_rec_numeral)

lemma race_state_ok: "cache_ok race_state"
proof -
  have "length (affine_table (point_key (race_point j))) = 256" for j
    using table_len.gen_stripe_table_9_agree(1) [of "race_point j" "replicate 256 zero_te" "replicate 256 zero_te"]
      gen_table_affine [of "race_point j" "replicate 256 zero_te"] race_point_key(1) [of j]
    by (simp add: affine_call_def len9_def table_len.stripe_table_def table_lengths_def)
  then have "entries_ok (sp_cache_521 race_state)"
    unfolding entries_ok_def slot_ok_def by (simp add: race_state_entry ce_key_def race_point_key(2)) (simp add: race_state_def)
  then show ?thesis by (simp add: cache_ok_def race_state_entry) (simp add: race_state_def)
qed

lemma mulmod_unlocked_race_example:
  "\<exists>st1 st2 st3. mulmod_locked (race_point 1) race_state = Some (st1, 1) \<and> mulmod_locked (race_point 16) st1 = Some (st2, 1) \<and>
    mulmod_locked (race_point 16) st2 = Some (st3, 1) \<and>
    mulmod_unlocked jp r (race_point 1) k to_affine ct st3 1 =
      sp_521_ecc_mulmod_stripe_9 jp r (affine_table (point_key (race_point 16))) k to_affine ct"
proof -
  have i: "sp_cache_521_inited race_state" by (simp add: race_state_def)
  have k: "ce_key (sp_cache_521 race_state ! 1) = point_key (race_point 1)" "2 \<le> ce_cnt (sp_cache_521 race_state ! 1)"
      "ce_cnt (sp_cache_521 race_state ! 1) < 2 ^ 32 - 1" "1 < FP_ENTRIES" "(1 :: nat) \<noteq> 0"
      "\<forall>j<FP_ENTRIES. ce_key (sp_cache_521 race_state ! j) \<noteq> point_key (race_point 16)"
      "\<forall>j<FP_ENTRIES. ce_set (sp_cache_521 race_state ! j)"
      "\<forall>j<FP_ENTRIES. ce_cnt (sp_cache_521 race_state ! 0) \<le> ce_cnt (sp_cache_521 race_state ! j)"
    by (simp_all add: race_state_entry ce_key_def race_point_key(2))
  from mulmod_unlocked_race [OF race_state_ok i k(7,8) race_point_key(1) k(4,5,1,2,3) race_point_key(1) k(6)]
  show ?thesis by blast
qed

text \<open>C7: The cache of tables is transparent.  After any sequence of multiplications of affine points, a
  multiplication of an affine point returns, and it computes with the windowed multiplication the first time the point is seen
  and with the comb over the table of this very point afterwards, never over the table of another point,
  whatever was evicted and when the 32 bit use count wraps.  The table has 256 entries of nine digits, the first one zero.  The contents of the cache change as
  specified: the count of the point goes up by one, and another point is lost only when all sixteen entries
  are taken and the point is new.  When the lock fails, nothing changes.\<close>

theorem sp_521_ecc_mulmod_9_cached:
  fixes jp r :: sp_point_521 and k :: "int list" and to_affine ct :: bool and lock :: int
  assumes "cache_reach st" "affine_call g"
  defines "m \<equiv> cache_map (sp_cache_521 st)" and "table \<equiv> sp_521_gen_stripe_table_9 g (replicate 256 zero_te)"
  shows "(\<exists>st'. sp_521_ecc_mulmod_9_fp 0 jp r g k to_affine ct st =
      Some (MP_OKAY, if next_count (m (point_key g)) < 2 then sp_521_ecc_mulmod_win_add_sub_9 jp r g k to_affine ct
                     else sp_521_ecc_mulmod_stripe_9 jp r table k to_affine ct, st') \<and>
      cache_step (point_key g) m (cache_map (sp_cache_521 st'))) \<and>
    table_lengths table \<and> table ! 0 = zero_te \<and>
    (lock \<noteq> 0 \<longrightarrow> sp_521_ecc_mulmod_9_fp lock jp r g k to_affine ct st = Some (BAD_MUTEX_E, r, st))"
proof -
  have g: "len9 g" "take 9 (pt_z g) = 1 # replicate 8 0" using assms(2) by (simp_all add: affine_call_def)
  then have "len9 \<lparr>pt_x = take 9 (pt_x g), pt_y = take 9 (pt_y g), pt_z = take 9 (pt_z g), infinity = 0\<rparr>" by (simp add: len9_def)
  note t = table_len.gen_stripe_table_9_agree(1,3) [OF this length_replicate length_replicate, of zero_te]
  have table: "table = affine_table (point_key g)" unfolding table_def by (rule gen_table_affine [OF g]) simp
  obtain st' i where "mulmod_locked g st = Some (st', i)" "cache_step (point_key g) m (cache_map (sp_cache_521 st'))"
    "ce_cnt (sp_cache_521 st' ! i) = next_count (m (point_key g))"
    "2 \<le> ce_cnt (sp_cache_521 st' ! i) \<longrightarrow> ce_table (sp_cache_521 st' ! i) = table"
    using mulmod_locked_spec [OF cache_reach_ok [OF assms(1)] g] unfolding m_def table by blast
  then have "sp_521_ecc_mulmod_9_fp 0 jp r g k to_affine ct st =
      Some (MP_OKAY, if next_count (m (point_key g)) < 2 then sp_521_ecc_mulmod_win_add_sub_9 jp r g k to_affine ct
                     else sp_521_ecc_mulmod_stripe_9 jp r table k to_affine ct, st')"
    by (simp add: sp_521_ecc_mulmod_9_fp_def mulmod_unlocked_def Let_def)
  moreover have "sp_521_ecc_mulmod_9_fp lock jp r g k to_affine ct st = Some (BAD_MUTEX_E, r, st)" if "lock \<noteq> 0"
    using that by (simp add: sp_521_ecc_mulmod_9_fp_def)
  ultimately show ?thesis using t \<open>cache_step _ _ _\<close> unfolding table_def table_len.stripe_table_def by auto
qed

theorem sp_521_ecc_mulmod_9_cached_witness:
  "\<exists>st'. sp_521_ecc_mulmod_9_fp 0 p521_base p521_base p521_base p521_order2 True True sp_cache_init =
      Some (MP_OKAY, sp_521_ecc_mulmod_win_add_sub_9 p521_base p521_base p521_base p521_order2 True True, st') \<and>
    cache_map (sp_cache_521 st') = [point_key p521_base \<mapsto> 1]"
proof -
  have g: "affine_call p521_base" by (simp add: affine_call_def len9_def p521_base_def numeral_eq_Suc)
  have m: "cache_map (sp_cache_521 sp_cache_init) = Map.empty" by (simp add: cache_map_def sp_cache_init_def)
  have "next_count None = 1" by (simp add: next_count_def)
  with sp_521_ecc_mulmod_9_cached [OF cache_start g, of p521_base p521_base p521_order2 True True 0]
  show ?thesis by (auto simp: m cache_step_def)
qed

end
