(* ===== verification/KeyWrap.thy ===== *)
theory KeyWrap
  imports Prelude
begin

text \<open>
  AES key wrap with padding (RFC 5649), \<^verbatim>\<open>wolfcrypt-rs/src/compat_shim.c\<close>.

  wolfSSL's AES is a parameter: \<open>enc\<close> and \<open>dec\<close> stand for
  \<^verbatim>\<open>wolfSSL_AES_ecb_encrypt\<close> with \<open>AES_ENCRYPTION\<close> and \<open>AES_DECRYPTION\<close> on one
  block of 16 bytes, \<open>wrap\<close> for \<^verbatim>\<open>wolfSSL_AES_wrap_key\<close> (key, IV, plaintext), whose
  result is the number it returns and the bytes it wrote to \<open>out\<close>, also when that number says that it failed.

  A pointer argument is an option, \<open>None\<close> for \<open>NULL\<close>.  A function returns \<open>None\<close>
  when it would access memory out of bounds, and otherwise its C result with
  the contents of \<open>out\<close> and \<open>*out_len\<close>.  Local arrays are written completely
  before they are read; they start as zeros.
\<close>

section \<open>Wrapping\<close>

definition kPaddedAIV :: "byte list" where
  "kPaddedAIV = [0xA6, 0x59, 0x59, 0xA6]"

type_synonym wrap_result = "(int \<times> byte list option \<times> size_t option) option"

definition aiv_header :: "size_t \<Rightarrow> byte list" where
  "aiv_header in_len = kPaddedAIV @
     [ucast (drop_bit 24 in_len AND 0xFF), ucast (drop_bit 16 in_len AND 0xFF),
      ucast (drop_bit 8 in_len AND 0xFF), ucast (in_len AND 0xFF)]"

definition wrap_padded_len :: "size_t \<Rightarrow> uint" where
  "wrap_padded_len in_len = ucast ((in_len + 7) AND ucast (NOT 7 :: uint))"

definition wrap_needed :: "uint \<Rightarrow> uint" where
  "wrap_needed padded_len = (if padded_len \<le> 8 then 16 else padded_len + 8)"

definition wolfcrypt_AES_wrap_key_padded ::
    "('k \<Rightarrow> byte list \<Rightarrow> byte list) \<Rightarrow> ('k \<Rightarrow> byte list \<Rightarrow> byte list \<Rightarrow> int \<times> byte list) \<Rightarrow>
     'k option \<Rightarrow> byte list option \<Rightarrow> size_t option \<Rightarrow> size_t \<Rightarrow> byte list option \<Rightarrow> size_t \<Rightarrow> wrap_result" where
  "wolfcrypt_AES_wrap_key_padded enc wrap key out out_len max_out inp in_len =
    (case (key, out, out_len, inp) of
       (Some k, Some ob, Some ol, Some ib) \<Rightarrow>
         if in_len = 0 then Some (0, out, out_len)
         else
          (let padded_len = wrap_padded_len in_len;
               needed = wrap_needed padded_len
           in if max_out < ucast needed then Some (0, out, out_len)
              else if padded_len \<le> 8 then
                do {
                  block \<leftarrow> memcpy_at (replicate 16 0) 0 (aiv_header in_len) 0 8;
                  block \<leftarrow> memcpy_at block 8 ib 0 (unat in_len);
                  block \<leftarrow> (if in_len < 8
                            then poke block (8 + unat in_len) (replicate (8 - unat in_len) 0)
                            else Some block);
                  ob \<leftarrow> poke ob 0 (enc k block);
                  Some (1, Some ob, Some 16)
                }
              else if padded_len > 256 then Some (0, out, out_len)
              else
                do {
                  padded \<leftarrow> memcpy_at (replicate 256 0) 0 ib 0 (unat in_len);
                  padded \<leftarrow> (if ucast padded_len > in_len
                             then poke padded (unat in_len) (replicate (unat padded_len - unat in_len) 0)
                             else Some padded);
                  (case wrap k (aiv_header in_len) (take (unat padded_len) padded) of
                     (ret, c) \<Rightarrow> do {
                       ob \<leftarrow> poke ob 0 c;
                       if ret \<le> 0 then Some (0, Some ob, out_len)
                       else Some (1, Some ob, Some (of_int ret))
                     })
                })
     | _ \<Rightarrow> Some (0, out, out_len))"

section \<open>Unwrapping\<close>

definition mli_of :: "byte list \<Rightarrow> uint" where
  "mli_of aiv = push_bit 24 (ucast (aiv ! 4)) OR push_bit 16 (ucast (aiv ! 5)) OR
     push_bit 8 (ucast (aiv ! 6)) OR ucast (aiv ! 7)"

text \<open>\<^verbatim>\<open>for (i = mli; i < len; i++) if (out[i] != 0) return 0\<close>\<close>

definition padding_zero :: "byte list \<Rightarrow> uint \<Rightarrow> uint \<Rightarrow> bool" where
  "padding_zero out mli len = list_all (\<lambda>i. out ! i = 0) [unat mli..<unat len]"

definition xor_t :: "byte list \<Rightarrow> size_t \<Rightarrow> byte list" where
  "xor_t A t = map (\<lambda>i. A ! i XOR ucast (drop_bit (8 * (7 - i)) t AND 0xFF)) [0..<8]"

text \<open>One iteration of the inner loop on the register \<open>A\<close> and the output buffer.\<close>

definition unwrap_step ::
    "(byte list \<Rightarrow> byte list) \<Rightarrow> uint \<Rightarrow> byte list \<times> byte list \<Rightarrow> nat \<times> nat \<Rightarrow> (byte list \<times> byte list) option" where
  "unwrap_step dec n s ji =
    (case (s, ji) of ((A, ob), (j, i)) \<Rightarrow>
      (let A = xor_t A (ucast n * of_nat j + of_nat i)
       in if 2 ^ 31 \<le> (i - 1) * 8 then None
          else do {
            r \<leftarrow> peek ob ((i - 1) * 8) 8;
            let B = dec (A @ r);
            ob \<leftarrow> poke ob ((i - 1) * 8) (drop 8 B);
            Some (take 8 B, ob)
          }))"

fun run_steps :: "('s \<Rightarrow> 'a \<Rightarrow> 's option) \<Rightarrow> 's \<Rightarrow> 'a list \<Rightarrow> 's option" where
  "run_steps f s [] = Some s"
| "run_steps f s (x # xs) = f s x \<bind> (\<lambda>s. run_steps f s xs)"

text \<open>The iterations in the order of the two loops: \<open>j\<close> from 5 to 0, \<open>i\<close> from \<open>(int)n\<close> to 1.\<close>

definition unwrap_order :: "uint \<Rightarrow> (nat \<times> nat) list" where
  "unwrap_order n = concat (map (\<lambda>j. map (Pair j) (rev [1..<Suc (nat (sint n))])) (rev [0..<6]))"

definition wolfcrypt_AES_unwrap_key_padded_multiblock ::
    "('k \<Rightarrow> byte list \<Rightarrow> byte list) \<Rightarrow> 'k \<Rightarrow> byte list \<Rightarrow> size_t \<Rightarrow> size_t \<Rightarrow> byte list \<Rightarrow> size_t \<Rightarrow> wrap_result" where
  "wolfcrypt_AES_unwrap_key_padded_multiblock dec k ob ol max_out ib in_len =
    (let n = ucast (in_len div 8 - 1) :: uint
     in if n = 0 then Some (0, Some ob, Some ol)
        else let padded_len = n * 8
     in if max_out < ucast padded_len then Some (0, Some ob, Some ol)
        else do {
          A \<leftarrow> memcpy_at (replicate 8 0) 0 ib 0 8;
          ob \<leftarrow> memcpy_at ob 0 ib 8 (unat padded_len);
          (A, ob) \<leftarrow> run_steps (unwrap_step (dec k) n) (A, ob) (unwrap_order n);
          if take 4 A \<noteq> kPaddedAIV then Some (0, Some ob, Some ol)
          else let mli = mli_of A
          in if mli = 0 \<or> mli > padded_len then Some (0, Some ob, Some ol)
             else if mli \<le> padded_len - 8 then Some (0, Some ob, Some ol)
             else if \<not> padding_zero ob mli padded_len then Some (0, Some ob, Some ol)
             else Some (1, Some ob, Some (ucast mli))
        })"

definition wolfcrypt_AES_unwrap_key_padded ::
    "('k \<Rightarrow> byte list \<Rightarrow> byte list) \<Rightarrow>
     'k option \<Rightarrow> byte list option \<Rightarrow> size_t option \<Rightarrow> size_t \<Rightarrow> byte list option \<Rightarrow> size_t \<Rightarrow> wrap_result" where
  "wolfcrypt_AES_unwrap_key_padded dec key out out_len max_out inp in_len =
    (case (key, out, out_len, inp) of
       (Some k, Some ob, Some ol, Some ib) \<Rightarrow>
         if in_len < 16 \<or> in_len mod 8 \<noteq> 0 then Some (0, out, out_len)
         else if in_len = 16 then
           do {
             c \<leftarrow> peek ib 0 16;
             let block = dec k c;
             aiv \<leftarrow> peek block 0 8;
             let payload_len = (8 :: uint);
             if max_out < ucast payload_len then Some (0, out, out_len)
             else do {
               ob \<leftarrow> memcpy_at ob 0 block 8 8;
               if take 4 aiv \<noteq> kPaddedAIV then Some (0, Some ob, out_len)
               else let mli = mli_of aiv
               in if mli = 0 \<or> mli > payload_len then Some (0, Some ob, out_len)
                  else if \<not> padding_zero ob mli payload_len then Some (0, Some ob, out_len)
                  else Some (1, Some ob, Some (ucast mli))
             }
           }
         else wolfcrypt_AES_unwrap_key_padded_multiblock dec k ob ol max_out ib in_len
     | _ \<Rightarrow> Some (0, out, out_len))"

section \<open>RFC 3394 as the reference\<close>

text \<open>What is relied on of the block cipher: encryption and decryption of 16 bytes are inverse.\<close>

definition block_cipher :: "(byte list \<Rightarrow> byte list) \<Rightarrow> (byte list \<Rightarrow> byte list) \<Rightarrow> bool" where
  "block_cipher enc dec \<longleftrightarrow> (\<forall>b. length b = 16 \<longrightarrow>
     length (enc b) = 16 \<and> length (dec b) = 16 \<and> dec (enc b) = b \<and> enc (dec b) = b)"

definition wrap_step ::
    "(byte list \<Rightarrow> byte list) \<Rightarrow> nat \<Rightarrow> byte list \<times> byte list \<Rightarrow> nat \<times> nat \<Rightarrow> byte list \<times> byte list" where
  "wrap_step enc n s ji =
    (case (s, ji) of ((A, R), (j, i)) \<Rightarrow>
      (let B = enc (A @ take 8 (drop ((i - 1) * 8) R))
       in (xor_t (take 8 B) (of_nat (n * j + i)),
           take ((i - 1) * 8) R @ drop 8 B @ drop ((i - 1) * 8 + 8) R)))"

definition wrap_order :: "nat \<Rightarrow> (nat \<times> nat) list" where
  "wrap_order n = concat (map (\<lambda>j. map (Pair j) [1..<Suc n]) [0..<6])"

definition rfc3394_wrap :: "(byte list \<Rightarrow> byte list) \<Rightarrow> byte list \<Rightarrow> byte list \<Rightarrow> byte list" where
  "rfc3394_wrap enc iv p =
    (let n = length p div 8; (A, R) = foldl (wrap_step enc n) (iv, p) (wrap_order n) in A @ R)"

text \<open>
  The padded wrapping of RFC 5649: header, zero padding, one block or RFC 3394.  The header is the
  alternative initial value of section 3: the constant A65959A6 and the length of the key in octets,
  a 32-bit number in network order.
\<close>

definition rfc5649_aiv :: "nat \<Rightarrow> byte list" where
  "rfc5649_aiv n = [0xA6, 0x59, 0x59, 0xA6] @ map (\<lambda>i. of_nat (n div 256 ^ i mod 256)) [3, 2, 1, 0]"

definition rfc5649_pad :: "byte list \<Rightarrow> byte list" where
  "rfc5649_pad p = p @ replicate ((8 - length p mod 8) mod 8) 0"

definition rfc5649_wrap :: "(byte list \<Rightarrow> byte list) \<Rightarrow> byte list \<Rightarrow> byte list" where
  "rfc5649_wrap enc p =
    (let aiv = rfc5649_aiv (length p); q = rfc5649_pad p
     in if length q = 8 then enc (aiv @ q) else rfc3394_wrap enc aiv q)"

section \<open>The unwrapping loop inverts the wrapping\<close>

definition wr_inv :: "nat \<Rightarrow> byte list \<times> byte list \<Rightarrow> bool" where
  "wr_inv n s \<longleftrightarrow> length (fst s) = 8 \<and> length (snd s) = n * 8"

lemma length_xor_t [simp]: "length (xor_t A t) = 8"
  by (simp add: xor_t_def)

lemma xor_t_xor_t [simp]: "length A = 8 \<Longrightarrow> xor_t (xor_t A t) t = A"
  by (rule nth_equalityI) (simp_all add: xor_t_def xor.assoc del: upt_rec_numeral)

lemma run_steps_append: "run_steps f s (xs @ ys) = run_steps f s xs \<bind> (\<lambda>s. run_steps f s ys)"
proof (induction xs arbitrary: s)
  case (Cons x xs)
  then show ?case by (cases "f s x") simp_all
qed simp

lemma run_steps_back:
  assumes "\<And>s x. I s \<Longrightarrow> x \<in> X \<Longrightarrow> I (w s x) \<and> u (w s x) x = Some s"
    and "I s" "set xs \<subseteq> X"
  shows "run_steps u (foldl w s xs) (rev xs) = Some s \<and> I (foldl w s xs)"
  using assms(3)
proof (induction xs rule: rev_induct)
  case Nil
  then show ?case by (simp add: assms(2))
next
  case (snoc x xs)
  then have IH: "run_steps u (foldl w s xs) (rev xs) = Some s" "I (foldl w s xs)" by simp_all
  have "I (w (foldl w s xs) x) \<and> u (w (foldl w s xs) x) x = Some (foldl w s xs)"
    using snoc.prems by (intro assms(1) IH) simp
  with IH show ?case by simp
qed

lemma run_steps_forth:
  assumes "\<And>s x s'. I s \<Longrightarrow> x \<in> X \<Longrightarrow> u s x = Some s' \<Longrightarrow> I s' \<and> w s' x = s"
    and "I s" "set xs \<subseteq> X" "run_steps u s xs = Some s'"
  shows "foldl w s' (rev xs) = s \<and> I s'"
  using assms(2-4)
proof (induction xs arbitrary: s)
  case (Cons x xs)
  then obtain s1 where s1: "u s x = Some s1" "run_steps u s1 xs = Some s'"
    by (auto simp: bind_eq_Some_conv)
  have "I s1 \<and> w s1 x = s" using Cons.prems s1 by (intro assms(1)) simp_all
  moreover from this have "foldl w s' (rev xs) = s1 \<and> I s'" using Cons.prems s1 by (intro Cons.IH) simp_all
  ultimately show ?case by simp
qed simp

lemma ucast_of_nat_unat: "(ucast (n :: uint) :: size_t) = of_nat (unat n)"
  by (simp add: word_eq_iff_unsigned)

lemma step_t: "(ucast (n :: uint) :: size_t) * of_nat j + of_nat i = of_nat (unat n * j + i)"
  by (simp only: of_nat_add of_nat_mult ucast_of_nat_unat)

lemma unwrap_wrap_step:
  assumes c: "block_cipher enc dec" and s: "wr_inv (unat n) s" and n: "unat n * 8 \<le> 2 ^ 31"
    and ji: "ji \<in> {(j, i). 1 \<le> i \<and> i \<le> unat n}"
  shows "wr_inv (unat n) (wrap_step enc (unat n) s ji)"
    and "unwrap_step dec n (wrap_step enc (unat n) s ji) ji = Some s"
proof -
  obtain A R where AR: "s = (A, R)" by (cases s)
  obtain j i where ij: "ji = (j, i)" by (cases ji)
  define o8 where "o8 = (i - 1) * 8"
  have b: "o8 + 8 \<le> unat n * 8" "length A = 8" "length R = unat n * 8"
    using ji s by (auto simp: o8_def wr_inv_def AR ij)
  define x where "x = take 8 (drop o8 R)"
  have lx: "length x = 8" using b by (simp add: x_def)
  define B where "B = enc (A @ x)"
  have B: "length B = 16" "dec B = A @ x"
    using c b(2) lx unfolding block_cipher_def B_def by auto
  define R1 where "R1 = take o8 R @ drop 8 B @ drop (o8 + 8) R"
  have w: "wrap_step enc (unat n) s ji = (xor_t (take 8 B) (of_nat (unat n * j + i)), R1)"
    by (simp only: wrap_step_def AR ij prod.case Let_def o8_def x_def B_def R1_def)
  have lR1: "length R1 = unat n * 8" using b B by (simp add: R1_def)
  then show "wr_inv (unat n) (wrap_step enc (unat n) s ji)" by (simp add: w wr_inv_def)
  have p1: "peek R1 o8 8 = Some (drop 8 B)" using b B lR1 by (simp add: peek_def R1_def)
  have p2: "poke R1 o8 x = Some R"
  proof -
    have "take o8 R @ x @ drop (o8 + 8) R = R"
      unfolding x_def using b by (metis append_take_drop_id drop_drop add.commute)
    then show ?thesis using b B lR1 lx by (simp add: poke_def R1_def)
  qed
  have "\<not> 2 ^ 31 \<le> o8" using b n by simp
  then show "unwrap_step dec n (wrap_step enc (unat n) s ji) ji = Some s"
    unfolding w unwrap_step_def unfolding ij AR prod.case Let_def o8_def [symmetric]
    unfolding step_t using B b lx by (simp add: p1 p2)
qed

lemma wrap_unwrap_step:
  assumes c: "block_cipher enc dec" and s: "wr_inv (unat n) s"
    and ji: "ji \<in> {(j, i). 1 \<le> i \<and> i \<le> unat n}" and u: "unwrap_step dec n s ji = Some s'"
  shows "wr_inv (unat n) s'" and "wrap_step enc (unat n) s' ji = s"
proof -
  obtain A R where AR: "s = (A, R)" by (cases s)
  obtain j i where ij: "ji = (j, i)" by (cases ji)
  define o8 where "o8 = (i - 1) * 8"
  have b: "o8 + 8 \<le> unat n * 8" "length A = 8" "length R = unat n * 8"
    using ji s by (auto simp: o8_def wr_inv_def AR ij)
  define t :: size_t where "t = of_nat (unat n * j + i)"
  define x where "x = take 8 (drop o8 R)"
  have lx: "length x = 8" using b by (simp add: x_def)
  define B where "B = dec (xor_t A t @ x)"
  have B: "length B = 16" "enc B = xor_t A t @ x"
    using c lx unfolding block_cipher_def B_def by auto
  define R1 where "R1 = take o8 R @ drop 8 B @ drop (o8 + 8) R"
  have "ucast n * of_nat j + of_nat i = t" unfolding t_def by (rule step_t)
  moreover have "peek R o8 8 = Some x" using b by (simp add: peek_def x_def)
  moreover have "poke R o8 (drop 8 B) = Some R1" using b B by (simp add: poke_def R1_def)
  ultimately have s': "s' = (take 8 B, R1)"
    using u unfolding unwrap_step_def unfolding ij AR prod.case Let_def o8_def [symmetric]
    by (simp add: B_def split: if_splits)
  have lR1: "length R1 = unat n * 8" using b B by (simp add: R1_def)
  then show "wr_inv (unat n) s'" using B by (simp add: s' wr_inv_def)
  have e: "take 8 (drop o8 R1) = drop 8 B" using b B by (simp add: R1_def)
  have R: "take o8 R1 @ x @ drop (o8 + 8) R1 = R"
  proof -
    have "take o8 R @ x @ drop (o8 + 8) R = R"
      unfolding x_def using b by (metis append_take_drop_id drop_drop add.commute)
    then show ?thesis using b B by (simp add: R1_def)
  qed
  show "wrap_step enc (unat n) s' ji = s"
    unfolding wrap_step_def s' ij prod.case Let_def o8_def [symmetric] e t_def [symmetric]
    using B b lx R by (simp add: AR)
qed

lemma nat_sint_small:
  assumes "unat (n :: uint) < 2 ^ 31"
  shows "nat (sint n) = unat n"
proof -
  have "int (unat n) < int (2 ^ 31)" using assms by (simp only: of_nat_less_iff)
  then have u: "uint n < 2 ^ 31" by simp
  have "sint n = signed_take_bit 31 (uint n)" by (simp add: sint_uint)
  also have "\<dots> = uint n"
    by (rule signed_take_bit_int_eq_self) (use u in \<open>simp_all add: order_trans [OF _ uint_nonnegative]\<close>)
  finally show ?thesis by simp
qed

lemma unwrap_order_rev:
  assumes "unat n < 2 ^ 31"
  shows "unwrap_order n = rev (wrap_order (unat n))"
proof -
  show ?thesis
    unfolding unwrap_order_def nat_sint_small [OF assms]
    by (simp add: wrap_order_def rev_concat rev_map comp_def del: upt_rec_numeral upt_Suc)
qed

lemma wrap_order_range: "set (wrap_order n) \<subseteq> {(j, i). 1 \<le> i \<and> i \<le> n}"
  by (auto simp: wrap_order_def)

lemma unwrap_inverts_wrap:
  assumes "block_cipher enc dec" "length A = 8" "length R = unat n * 8" "unat n * 8 \<le> 2 ^ 31"
  shows "run_steps (unwrap_step dec n) (foldl (wrap_step enc (unat n)) (A, R) (wrap_order (unat n)))
      (unwrap_order n) = Some (A, R)"
    and "wr_inv (unat n) (foldl (wrap_step enc (unat n)) (A, R) (wrap_order (unat n)))"
proof -
  have n: "unat n < 2 ^ 31" using assms(4) by simp
  have "wr_inv (unat n) (A, R)" using assms by (simp add: wr_inv_def)
  then have "run_steps (unwrap_step dec n) (foldl (wrap_step enc (unat n)) (A, R) (wrap_order (unat n)))
      (rev (wrap_order (unat n))) = Some (A, R) \<and>
      wr_inv (unat n) (foldl (wrap_step enc (unat n)) (A, R) (wrap_order (unat n)))"
    using unwrap_wrap_step [OF assms(1) _ assms(4)] wrap_order_range
    by (intro run_steps_back [where X = "{(j, i). 1 \<le> i \<and> i \<le> unat n}"]) blast+
  then show "run_steps (unwrap_step dec n) (foldl (wrap_step enc (unat n)) (A, R) (wrap_order (unat n)))
      (unwrap_order n) = Some (A, R)"
    and "wr_inv (unat n) (foldl (wrap_step enc (unat n)) (A, R) (wrap_order (unat n)))"
    by (simp_all only: unwrap_order_rev [OF n])
qed

lemma wrap_inverts_unwrap:
  assumes "block_cipher enc dec" "length A = 8" "length R = unat n * 8" "unat n < 2 ^ 31"
    and "run_steps (unwrap_step dec n) (A, R) (unwrap_order n) = Some (A', R')"
  shows "foldl (wrap_step enc (unat n)) (A', R') (wrap_order (unat n)) = (A, R)"
    and "length A' = 8" "length R' = unat n * 8"
proof -
  have "wr_inv (unat n) (A, R)" using assms by (simp add: wr_inv_def)
  then have "foldl (wrap_step enc (unat n)) (A', R') (rev (unwrap_order n)) = (A, R) \<and> wr_inv (unat n) (A', R')"
    using wrap_unwrap_step [OF assms(1)] wrap_order_range assms(5)
    by (intro run_steps_forth [where X = "{(j, i). 1 \<le> i \<and> i \<le> unat n}" and u = "unwrap_step dec n"])
      (blast | simp add: unwrap_order_rev [OF assms(4)])+
  then show "foldl (wrap_step enc (unat n)) (A', R') (wrap_order (unat n)) = (A, R)"
    and "length A' = 8" "length R' = unat n * 8"
    by (simp_all add: unwrap_order_rev [OF assms(4)] wr_inv_def)
qed

section \<open>Lengths\<close>

lemma wrap_padded_len_mod: "unat (wrap_padded_len x) = (unat (x + 7) mod 2 ^ 32) div 8 * 8"
proof -
  have "(x + 7) AND ucast (NOT 7 :: uint) = take_bit 32 (x + 7) AND NOT (mask 3)"
    by (simp add: take_bit_eq_mask and.assoc mask_eq_exp_minus_1)
  moreover have "take_bit 32 (x + 7) AND NOT (mask 3) = push_bit 3 (drop_bit 3 (take_bit 32 (x + 7)))"
    by (rule bit_word_eqI) (auto simp: bit_simps)
  ultimately have *: "wrap_padded_len x = ucast (push_bit 3 (drop_bit 3 (take_bit 32 (x + 7))))"
    by (simp only: wrap_padded_len_def)
  define m where "m = unat (x + 7) mod 2 ^ 32"
  have m: "m div 8 * 8 < 2 ^ 32" by (simp add: m_def)
  have "unat (drop_bit 3 (take_bit 32 (x + 7))) = m div 8"
    by (simp only: unsigned_drop_bit_eq unsigned_take_bit_eq drop_bit_nat_def take_bit_nat_def m_def) simp
  then have "unat (push_bit 3 (drop_bit 3 (take_bit 32 (x + 7)))) = m div 8 * 8"
    using m by (simp only: unsigned_push_bit_eq push_bit_nat_def take_bit_nat_def) simp
  then show ?thesis using m unfolding * m_def [symmetric]
    by (simp add: unsigned_ucast_eq take_bit_eq_mod)
qed

lemma wrap_padded_len_small:
  assumes "unat x < 2 ^ 32 - 7"
  shows "unat (wrap_padded_len x) = (unat x + 7) div 8 * 8"
proof -
  have "unat (x + 7) = unat x + 7" using assms by (simp add: unat_word_ariths)
  then show ?thesis using assms by (simp add: wrap_padded_len_mod)
qed

lemma length_rfc5649_pad: "length (rfc5649_pad p) = (length p + 7) div 8 * 8"
proof -
  define q r where "q = length p div 8" and "r = length p mod 8"
  have l: "length p = 8 * q + r" and r: "r < 8" by (simp_all add: q_def r_def)
  have "(8 * q + r + 7) div 8 = (if r = 0 then q else q + 1)"
    using r by (intro div_nat_eqI) auto
  moreover have "(8 - r) mod 8 = (if r = 0 then 0 else 8 - r)" using r by simp
  ultimately show ?thesis using r by (simp add: rfc5649_pad_def r_def [symmetric] l)
qed

lemma length_aiv_header [simp]: "length (aiv_header x) = 8"
  by (simp add: aiv_header_def kPaddedAIV_def)

lemma take_aiv_header [simp]: "take 4 (aiv_header x) = kPaddedAIV"
  by (simp add: aiv_header_def kPaddedAIV_def)

lemma low_byte: "(ucast (w AND 0xFF :: size_t) :: byte) = ucast w"
proof -
  have "w AND 0xFF = take_bit 8 w" by (simp add: take_bit_eq_mask mask_eq_exp_minus_1)
  then show ?thesis by (simp only:) (rule bit_word_eqI, simp add: bit_ucast_iff bit_take_bit_iff)
qed

text \<open>The four bytes that the code shifts out of the length are the digits of the standard's header.\<close>

lemma rfc5649_aiv_header: "rfc5649_aiv n = aiv_header (of_nat n)"
proof -
  have "(ucast (drop_bit (8 * i) (of_nat n :: size_t) AND 0xFF) :: byte) = of_nat (n div 256 ^ i mod 256)" if "i < 4" for i
  proof -
    have "n div 256 ^ i mod 256 = take_bit 8 (drop_bit (8 * i) n)"
      by (simp add: take_bit_eq_mod drop_bit_eq_div power_mult)
    then show ?thesis using that unfolding low_byte by (intro bit_word_eqI) (simp add: bit_simps)
  qed
  from this [of 3] this [of 2] this [of 1] this [of 0] show ?thesis
    by (simp add: rfc5649_aiv_def aiv_header_def kPaddedAIV_def)
qed

lemma rfc5649_wrap_alt:
  "rfc5649_wrap enc p = (let aiv = aiv_header (of_nat (length p)); q = rfc5649_pad p
     in if length q = 8 then enc (aiv @ q) else rfc3394_wrap enc aiv q)"
  by (simp add: rfc5649_wrap_def rfc5649_aiv_header)

lemma bit_mli_of:
  "bit (mli_of [a, b, c, d, e, f, g, h]) n \<longleftrightarrow>
     n < 8 \<and> bit h n \<or> 8 \<le> n \<and> n < 16 \<and> bit g (n - 8) \<or>
     16 \<le> n \<and> n < 24 \<and> bit f (n - 16) \<or> 24 \<le> n \<and> n < 32 \<and> bit e (n - 24)"
  unfolding mli_of_def
  by (simp add: bit_simps nth_Cons' del: nth_Cons_numeral) (auto dest: bit_imp_le_length)

lemma mli_of_aiv_header: "mli_of (aiv_header x) = ucast x"
proof (rule bit_word_eqI)
  fix n assume n: "n < LENGTH(32)"
  consider "n < 8" | "8 \<le> n" "n < 16" | "16 \<le> n" "n < 24" | "24 \<le> n" using n by linarith
  then show "bit (mli_of (aiv_header x)) n = bit (ucast x :: uint) n"
    using n unfolding aiv_header_def kPaddedAIV_def append.simps bit_mli_of low_byte
    by cases (simp_all add: bit_ucast_iff bit_drop_bit_eq less_diff_conv2)
qed

lemma aiv_header_mli_of:
  assumes "length A = 8" "take 4 A = kPaddedAIV"
  shows "aiv_header (ucast (mli_of A)) = A"
proof -
  obtain a b c d e f g h where A: "A = [a, b, c, d, e, f, g, h]"
    using assms(1) by (auto simp: length_Suc_conv eval_nat_numeral)
  let ?m = "ucast (mli_of A) :: size_t"
  have "ucast (drop_bit 24 ?m AND 0xFF) = e" "ucast (drop_bit 16 ?m AND 0xFF) = f"
    "ucast (drop_bit 8 ?m AND 0xFF) = g" "ucast (?m AND 0xFF) = h"
    unfolding A low_byte by (rule bit_word_eqI, simp add: bit_ucast_iff bit_drop_bit_eq bit_mli_of)+
  then show ?thesis using assms(2) by (simp add: aiv_header_def A)
qed

lemma rfc5649_pad_alt: "rfc5649_pad p = p @ replicate (length (rfc5649_pad p) - length p) 0"
  by (simp add: rfc5649_pad_def)

section \<open>Wrapping computes RFC 5649\<close>

text \<open>
  What is relied on of \<^verbatim>\<open>wolfSSL_AES_wrap_key\<close>: RFC 3394 with the IV of the caller, and that it
  returns the number of bytes written.
\<close>

definition wraps_3394 :: "('k \<Rightarrow> byte list \<Rightarrow> byte list) \<Rightarrow>
    ('k \<Rightarrow> byte list \<Rightarrow> byte list \<Rightarrow> int \<times> byte list) \<Rightarrow> 'k \<Rightarrow> bool" where
  "wraps_3394 enc wrap k \<longleftrightarrow> (\<forall>iv q. length iv = 8 \<longrightarrow> 16 \<le> length q \<longrightarrow> length q mod 8 = 0 \<longrightarrow>
     wrap k iv q = (8 + int (length q), rfc3394_wrap (enc k) iv q))"

lemma length_rfc3394_wrap:
  assumes c: "block_cipher enc dec" and "length iv = 8" "length q mod 8 = 0" "length q \<le> 2 ^ 31"
  shows "length (rfc3394_wrap enc iv q) = 8 + length q"
proof -
  define n :: uint where "n = of_nat (length q div 8)"
  have u: "unat n = length q div 8"
    using assms(4) by (simp add: n_def unat_of_nat)
  have "length q = unat n * 8" unfolding u using assms(3) by presburger
  from unwrap_inverts_wrap(2) [OF c assms(2) this] assms(4)
  have "wr_inv (unat n) (foldl (wrap_step enc (unat n)) (iv, q) (wrap_order (unat n)))"
    using \<open>length q = unat n * 8\<close> by simp
  then show ?thesis
    using \<open>length q = unat n * 8\<close> unfolding rfc3394_wrap_def u [symmetric] wr_inv_def
    by (simp add: case_prod_unfold Let_def)
qed

lemma length_rfc5649_wrap:
  assumes "block_cipher enc dec" "1 \<le> length p" "length p \<le> 2 ^ 31"
  shows "length (rfc5649_wrap enc p) = length (rfc5649_pad p) + 8"
proof (cases "length (rfc5649_pad p) = 8")
  case True
  then have "length (enc (aiv_header (of_nat (length p)) @ rfc5649_pad p)) = 16"
    using assms(1) by (simp add: block_cipher_def)
  then show ?thesis by (simp add: rfc5649_wrap_alt True)
next
  case False
  have "length (rfc5649_pad p) \<le> 2 ^ 31" "length (rfc5649_pad p) mod 8 = 0"
    using assms(3) by (simp_all add: length_rfc5649_pad)
  then show ?thesis
    using False by (simp add: rfc5649_wrap_alt length_rfc3394_wrap [OF assms(1)])
qed

lemma unat_of_nat_size: "m < 2 ^ 64 \<Longrightarrow> unat (of_nat m :: size_t) = m"
  by (simp add: unat_of_nat)

lemma wrap_needed_small:
  assumes "1 \<le> length p" "length p \<le> 2 ^ 31"
  shows "unat (wrap_needed (wrap_padded_len (of_nat (length p)))) = length (rfc5649_pad p) + 8"
    and "unat (wrap_padded_len (of_nat (length p))) = length (rfc5649_pad p)"
proof -
  let ?pl = "wrap_padded_len (of_nat (length p))"
  have u: "unat (of_nat (length p) :: size_t) = length p" using assms(2) by (intro unat_of_nat_size) simp
  show L: "unat ?pl = length (rfc5649_pad p)"
    using assms(2) by (subst wrap_padded_len_small) (simp_all add: u length_rfc5649_pad)
  show "unat (wrap_needed ?pl) = length (rfc5649_pad p) + 8"
  proof (cases "?pl \<le> 8")
    case True
    then have "length (rfc5649_pad p) \<le> 8" using L by (simp add: word_le_nat_alt)
    moreover have "8 \<le> length (rfc5649_pad p)" using assms(1) by (simp add: length_rfc5649_pad)
    ultimately show ?thesis using True by (simp add: wrap_needed_def)
  next
    case False
    have "length (rfc5649_pad p) + 8 < 2 ^ 32" using assms(2) by (simp add: length_rfc5649_pad)
    then show ?thesis using False L by (simp add: wrap_needed_def unat_word_ariths)
  qed
qed

lemma ucast_less_iff: "max_out < (ucast (n :: uint) :: size_t) \<longleftrightarrow> unat max_out < unat n"
  by (simp only: word_less_nat_alt unat_ucast_64)

lemma wrap_key_padded_short:
  assumes "1 \<le> length p" "length p \<le> 2 ^ 31" "unat max_out < length (rfc5649_pad p) + 8"
  shows "wolfcrypt_AES_wrap_key_padded enc wrap (Some k) (Some ob) (Some ol) max_out (Some (p @ rest))
     (of_nat (length p)) = Some (0, Some ob, Some ol)"
  using assms wrap_needed_small [OF assms(1,2)]
  by (simp add: wolfcrypt_AES_wrap_key_padded_def ucast_less_iff Let_def)

lemma wrap_key_padded_ok:
  assumes c: "block_cipher (enc k) dec" and w: "wraps_3394 enc wrap k"
    and p: "1 \<le> length p" "length p \<le> 256"
    and m: "length (rfc5649_pad p) + 8 \<le> unat max_out" "unat max_out \<le> length ob"
  shows "wolfcrypt_AES_wrap_key_padded enc wrap (Some k) (Some ob) (Some ol) max_out (Some (p @ rest))
     (of_nat (length p)) =
     Some (1, Some (rfc5649_wrap (enc k) p @ drop (length (rfc5649_pad p) + 8) ob),
       Some (of_nat (length (rfc5649_pad p) + 8)))"
proof -
  let ?n = "of_nat (length p) :: size_t" and ?pad = "rfc5649_pad p"
  let ?pl = "wrap_padded_len ?n"
  have p': "length p \<le> 2 ^ 31" using p(2) by simp
  note L = wrap_needed_small [OF p(1) p']
  have u: "unat ?n = length p" using p(2) by (intro unat_of_nat_size) simp
  have n0: "?n \<noteq> 0" using u p(1) by auto
  have mo: "\<not> max_out < ucast (wrap_needed ?pl)" using m L by (simp add: ucast_less_iff)
  have lc: "length (rfc5649_wrap (enc k) p) = length ?pad + 8"
    by (rule length_rfc5649_wrap [OF c p(1) p'])
  have ge: "8 \<le> length ?pad" "length p \<le> length ?pad" "length ?pad \<le> 256"
    using p by (simp_all add: length_rfc5649_pad)
  have pk: "poke ob 0 (rfc5649_wrap (enc k) p) = Some (rfc5649_wrap (enc k) p @ drop (length ?pad + 8) ob)"
    using lc m by (simp add: poke_def)
  note defs = wolfcrypt_AES_wrap_key_padded_def option.case prod.case Let_def
  show ?thesis
  proof (cases "?pl \<le> 8")
    case True
    then have l8: "length ?pad = 8" using L ge by (simp add: word_le_nat_alt)
    have b1: "memcpy_at (replicate 16 0) 0 (aiv_header ?n) 0 8 = Some (aiv_header ?n @ replicate 8 0)"
      by (simp add: memcpy_at_Some)
    have b2: "memcpy_at (aiv_header ?n @ replicate 8 0) 8 (p @ rest) 0 (unat ?n) =
        Some (aiv_header ?n @ p @ replicate (8 - length p) 0)"
      using ge l8 by (simp add: memcpy_at_Some u)
    have b3: "(if ?n < 8 then poke (aiv_header ?n @ p @ replicate (8 - length p) 0) (8 + unat ?n)
        (replicate (8 - unat ?n) 0) else Some (aiv_header ?n @ p @ replicate (8 - length p) 0)) =
        Some (aiv_header ?n @ ?pad)"
    proof -
      have "?pad = p @ replicate (8 - length p) 0" using rfc5649_pad_alt [of p] l8 by simp
      then show ?thesis using ge l8 by (simp add: poke_Some u)
    qed
    have e: "enc k (aiv_header ?n @ ?pad) = rfc5649_wrap (enc k) p" by (simp add: rfc5649_wrap_alt l8)
    show ?thesis unfolding defs if_not_P [OF n0] if_not_P [OF mo] if_P [OF True] b1 bind.bind_lunit b2 b3 e pk
      by (simp add: l8)
  next
    case False
    then have l8: "8 < length ?pad" using L ge by (simp add: word_le_nat_alt)
    have f2: "\<not> ?pl > 256" using L ge by (simp add: word_less_nat_alt)
    have b1: "memcpy_at (replicate 256 0) 0 (p @ rest) 0 (unat ?n) = Some (p @ replicate (256 - length p) 0)"
      using p by (simp add: memcpy_at_Some u)
    have b2: "(if ucast ?pl > ?n then poke (p @ replicate (256 - length p) 0) (unat ?n)
        (replicate (unat ?pl - unat ?n) 0) else Some (p @ replicate (256 - length p) 0)) =
        Some (?pad @ replicate (256 - length ?pad) 0)"
    proof -
      have "?pad @ replicate (256 - length ?pad) 0 = p @ replicate (256 - length p) 0"
        using ge by (subst rfc5649_pad_alt) (simp add: replicate_add [symmetric])
      then show ?thesis using ge p L(2) by (simp add: poke_Some u replicate_add [symmetric])
    qed
    have t: "take (unat ?pl) (?pad @ replicate (256 - length ?pad) 0) = ?pad" by (simp add: L)
    have "length ?pad mod 8 = 0" by (simp add: length_rfc5649_pad)
    then have e: "wrap k (aiv_header ?n) ?pad = (8 + int (length ?pad), rfc5649_wrap (enc k) p)"
      using w l8 by (auto simp: wraps_3394_def rfc5649_wrap_alt length_rfc5649_pad)
    show ?thesis
      unfolding defs if_not_P [OF n0] if_not_P [OF mo] if_not_P [OF False] if_not_P [OF f2] b1 bind.bind_lunit b2 t e pk
      by (simp add: pk lc)
  qed
qed

section \<open>Unwrapping accepts exactly the wrappings\<close>

lemma unwrap_step_frame:
  assumes c: "block_cipher enc dec" and s: "wr_inv (unat n) (A, R)" and n: "unat n * 8 \<le> 2 ^ 31"
    and ji: "ji \<in> {(j, i). 1 \<le> i \<and> i \<le> unat n}"
  obtains A' R' where "unwrap_step dec n (A, R) ji = Some (A', R')"
    and "unwrap_step dec n (A, R @ rst) ji = Some (A', R' @ rst)" and "wr_inv (unat n) (A', R')"
proof -
  obtain j i where ij: "ji = (j, i)" by (cases ji)
  define o8 where "o8 = (i - 1) * 8"
  have b: "o8 + 8 \<le> unat n * 8" "length A = 8" "length R = unat n * 8"
    using ji s by (auto simp: o8_def wr_inv_def ij)
  define B where "B = dec (xor_t A (ucast n * of_nat j + of_nat i) @ take 8 (drop o8 R))"
  have B: "length B = 16" using c b unfolding block_cipher_def B_def by simp
  define R' where "R' = take o8 R @ drop 8 B @ drop (o8 + 8) R"
  have o: "\<not> 2 ^ 31 \<le> o8" using b n by simp
  have p: "peek R o8 8 = Some (take 8 (drop o8 R))" "peek (R @ rst) o8 8 = Some (take 8 (drop o8 R))"
    "poke R o8 (drop 8 B) = Some R'" "poke (R @ rst) o8 (drop 8 B) = Some (R' @ rst)"
    using b B by (simp_all add: peek_def poke_def R'_def)
  have "unwrap_step dec n (A, R) ji = Some (take 8 B, R')"
    "unwrap_step dec n (A, R @ rst) ji = Some (take 8 B, R' @ rst)"
    unfolding unwrap_step_def ij prod.case Let_def o8_def [symmetric] if_not_P [OF o] p bind.bind_lunit
    by (simp_all add: B_def [symmetric] p)
  moreover have "wr_inv (unat n) (take 8 B, R')" using b B by (simp add: wr_inv_def R'_def)
  ultimately show ?thesis by (rule that)
qed

lemma run_steps_frame:
  assumes c: "block_cipher enc dec" and n: "unat n * 8 \<le> 2 ^ 31"
    and "set xs \<subseteq> {(j, i). 1 \<le> i \<and> i \<le> unat n}" "wr_inv (unat n) (A, R)"
  shows "\<exists>A' R'. run_steps (unwrap_step dec n) (A, R) xs = Some (A', R') \<and>
    run_steps (unwrap_step dec n) (A, R @ rst) xs = Some (A', R' @ rst)"
  using assms(3,4)
proof (induction xs arbitrary: A R)
  case (Cons x xs)
  obtain A1 R1 where 1: "unwrap_step dec n (A, R) x = Some (A1, R1)"
    "unwrap_step dec n (A, R @ rst) x = Some (A1, R1 @ rst)" "wr_inv (unat n) (A1, R1)"
    using unwrap_step_frame [OF c Cons.prems(2) n, of x rst] Cons.prems(1) by auto
  with Cons.IH [of A1 R1] Cons.prems(1) show ?case by simp
qed simp

text \<open>The checks on the recovered header and data, and when they succeed.\<close>

lemma recovered_header:
  assumes "length A = 8" "length R = m" "m mod 8 = 0" "0 < m" "m \<le> 2 ^ 31" and l: "unat l = m"
  shows "(take 4 A = kPaddedAIV \<and> mli_of A \<noteq> 0 \<and> mli_of A \<le> l \<and> l - 8 < mli_of A \<and> padding_zero (R @ rst) (mli_of A) l) \<longleftrightarrow>
    (\<exists>p. 1 \<le> length p \<and> rfc5649_pad p = R \<and> A = aiv_header (of_nat (length p)) \<and> unat (mli_of A) = length p)"
    (is "?L \<longleftrightarrow> ?R")
proof
  assume L: ?L
  define k where "k = unat (mli_of A)"
  have "unat (l - 8) = m - 8" using assms by (subst unat_sub) (simp_all add: word_le_nat_alt, presburger)
  then have k: "k \<le> m" "m - 8 < k" "0 < k"
    using L l by (simp_all add: k_def word_le_nat_alt word_less_nat_alt unat_gt_0)
  define p where "p = take k R"
  have lp: "length p = k" using k assms(2) by (simp add: p_def)
  have "drop k R = replicate (m - k) 0"
  proof (rule nth_equalityI)
    fix i assume "i < length (drop k R)"
    then have "k + i < m" using assms(2) by simp
    moreover have "\<forall>i\<in>{k..<m}. (R @ rst) ! i = 0" using L l by (simp add: padding_zero_def list_all_iff k_def)
    ultimately show "drop k R ! i = replicate (m - k) 0 ! i" using assms(2) by (auto simp: nth_append)
  qed (simp add: assms(2))
  moreover have "length (rfc5649_pad p) = m"
  proof -
    obtain q where q: "m = 8 * q" using assms(3) by auto
    have "(k + 7) div 8 = q" by (rule div_nat_eqI) (use k q assms(4) in auto)
    then show ?thesis by (simp add: length_rfc5649_pad lp q)
  qed
  ultimately have "rfc5649_pad p = take k R @ drop k R" by (subst rfc5649_pad_alt) (simp add: lp p_def [symmetric])
  then have "rfc5649_pad p = R" by simp
  moreover have "A = aiv_header (of_nat (length p))"
    using aiv_header_mli_of [OF assms(1)] L unfolding lp k_def ucast_of_nat_unat [symmetric] by simp
  ultimately show ?R using k lp by (intro exI [of _ p]) (simp add: k_def)
next
  assume ?R
  then obtain p where p: "1 \<le> length p" "rfc5649_pad p = R" "A = aiv_header (of_nat (length p))"
    "unat (mli_of A) = length p" by blast
  have m: "m = (length p + 7) div 8 * 8" using length_rfc5649_pad [of p] p(2) assms(2) by simp
  have "unat (l - 8) = m - 8" using assms by (subst unat_sub) (simp_all add: word_le_nat_alt, presburger)
  moreover have "m - 8 < length p" "length p \<le> m" using m p(1) by presburger+
  moreover have "R = p @ replicate (m - length p) 0" using rfc5649_pad_alt [of p] p(2) assms(2) by simp
  ultimately show ?L using p l
    by (auto simp: word_le_nat_alt word_less_nat_alt padding_zero_def list_all_iff nth_append)
qed

definition wrapping_of :: "(byte list \<Rightarrow> byte list) \<Rightarrow> byte list \<Rightarrow> byte list \<Rightarrow> bool" where
  "wrapping_of enc c p \<longleftrightarrow> 1 \<le> length p \<and> length p \<le> 2 ^ 31 \<and> c = rfc5649_wrap enc p"

definition unwraps :: "(byte list \<Rightarrow> byte list) \<Rightarrow> byte list \<Rightarrow> byte list \<Rightarrow> size_t \<Rightarrow> wrap_result \<Rightarrow> bool" where
  "unwraps enc c ob ol res \<longleftrightarrow>
     (\<exists>p. wrapping_of enc c p \<and>
        res = Some (1, Some (rfc5649_pad p @ drop (length (rfc5649_pad p)) ob), Some (of_nat (length p)))) \<or>
     ((\<nexists>p. wrapping_of enc c p) \<and> (\<exists>ob'. length ob' = length ob \<and> res = Some (0, Some ob', Some ol)))"

lemma wrapping_of_recovered:
  assumes c: "block_cipher enc dec" and l: "length A = 8" "length R = unat n * 8"
    and n: "1 < unat n" "unat n * 8 \<le> 2 ^ 31"
    and s: "run_steps (unwrap_step dec n) (A, R) (unwrap_order n) = Some (A', R')"
  shows "wrapping_of enc (A @ R) p \<longleftrightarrow>
    1 \<le> length p \<and> length p \<le> 2 ^ 31 \<and> rfc5649_pad p = R' \<and> A' = aiv_header (of_nat (length p))"
proof -
  let ?a = "aiv_header (of_nat (length p)) :: byte list" and ?q = "rfc5649_pad p"
  let ?w = "\<lambda>A R. foldl (wrap_step enc (unat n)) (A, R) (wrap_order (unat n))"
  have n31: "unat n < 2 ^ 31" using n by simp
  note w = wrap_inverts_unwrap [OF c l n31 s]
  have eq: "A @ R = rfc5649_wrap enc p \<longleftrightarrow> ?q = R' \<and> A' = ?a" if p: "1 \<le> length p" "length p \<le> 2 ^ 31"
  proof
    assume "A @ R = rfc5649_wrap enc p"
    then have e: "A @ R = rfc5649_wrap enc p" by simp
    from arg_cong [OF this, of length] have lq: "length ?q = unat n * 8"
      using length_rfc5649_wrap [OF c p] l by simp
    have "(A, R) = ?w ?a ?q"
      using e n(1) lq l unwrap_inverts_wrap(2) [OF c _ lq n(2), of ?a]
      by (simp add: rfc5649_wrap_alt rfc3394_wrap_def case_prod_unfold Let_def wr_inv_def prod_eq_iff)
    then have "run_steps (unwrap_step dec n) (A, R) (unwrap_order n) = Some (?a, ?q)"
      using unwrap_inverts_wrap(1) [OF c _ lq n(2), of ?a] by simp
    then show "?q = R' \<and> A' = ?a" using s by simp
  next
    assume "?q = R' \<and> A' = ?a"
    then show "A @ R = rfc5649_wrap enc p"
      using w n(1) by (simp add: rfc5649_wrap_alt rfc3394_wrap_def)
  qed
  then show ?thesis unfolding wrapping_of_def by blast
qed

lemma unwrap_multiblock_decides:
  assumes c: "block_cipher (enc k) (dec k)"
    and i: "unat in_len mod 8 = 0" "16 < unat in_len" "unat in_len \<le> 2 ^ 31" "unat in_len \<le> length ib"
    and m: "unat in_len - 8 \<le> unat max_out" "unat max_out \<le> length ob"
  shows "unwraps (enc k) (take (unat in_len) ib) ob ol
    (wolfcrypt_AES_unwrap_key_padded_multiblock dec k ob ol max_out ib in_len)"
proof -
  define q where "q = unat in_len div 8 - 1"
  define n :: uint where "n = ucast (in_len div 8 - 1)"
  have il: "unat in_len = 8 * q + 8" and q: "1 < q" "q < 2 ^ 28" using i by (auto simp: q_def)
  have un: "unat n = q"
  proof -
    have "unat (in_len div 8 - 1) = q"
      by (subst unat_sub) (use i in \<open>simp_all add: word_le_nat_alt unat_div q_def\<close>)
    then show ?thesis using q by (simp add: n_def unsigned_ucast_eq take_bit_nat_eq_self)
  qed
  have n0: "n \<noteq> 0" using un q by auto
  have ul: "unat (n * 8) = q * 8" using q by (simp add: unat_word_ariths un)
  have mo: "\<not> max_out < ucast (n * 8)" using m il by (simp add: ucast_less_iff ul)
  define A R where "A = take 8 ib" and "R = take (q * 8) (drop 8 ib)"
  have lA: "length A = 8" and lR: "length R = q * 8" using i il by (simp_all add: A_def R_def)
  have AR: "take (unat in_len) ib = A @ R" by (simp add: A_def R_def il take_add [symmetric] mult.commute add.commute)
  have b1: "memcpy_at (replicate 8 0) 0 ib 0 8 = Some A" using i by (simp add: memcpy_at_Some A_def)
  have b2: "memcpy_at ob 0 ib 8 (unat (n * 8)) = Some (R @ drop (q * 8) ob)"
    using i il m by (simp add: memcpy_at_Some R_def ul)
  have n31: "unat n * 8 \<le> 2 ^ 31" "unat n < 2 ^ 31" using q un by simp_all
  obtain A' R' where s: "run_steps (unwrap_step (dec k) n) (A, R) (unwrap_order n) = Some (A', R')"
    "run_steps (unwrap_step (dec k) n) (A, R @ drop (q * 8) ob) (unwrap_order n) = Some (A', R' @ drop (q * 8) ob)"
    using run_steps_frame [OF c n31(1), of "unwrap_order n" A R "drop (q * 8) ob"] lA lR wrap_order_range [of q]
    by (auto simp: un wr_inv_def unwrap_order_rev [OF n31(2)])
  note w = wrap_inverts_unwrap [OF c lA lR [folded un] n31(2) s(1)]
  let ?rst = "drop (q * 8) ob"
  let ?ok = "take 4 A' = kPaddedAIV \<and> mli_of A' \<noteq> 0 \<and> mli_of A' \<le> n * 8 \<and> n * 8 - 8 < mli_of A' \<and>
    padding_zero (R' @ ?rst) (mli_of A') (n * 8)"
  have res: "wolfcrypt_AES_unwrap_key_padded_multiblock dec k ob ol max_out ib in_len =
    (if ?ok then Some (1, Some (R' @ ?rst), Some (ucast (mli_of A'))) else Some (0, Some (R' @ ?rst), Some ol))"
    unfolding wolfcrypt_AES_unwrap_key_padded_multiblock_def Let_def n_def [symmetric]
      if_not_P [OF n0] if_not_P [OF mo] b1 b2 bind.bind_lunit s prod.case
    by (simp add: not_less not_le)
  have ok: "?ok \<longleftrightarrow> (\<exists>p. 1 \<le> length p \<and> rfc5649_pad p = R' \<and> A' = aiv_header (of_nat (length p)) \<and>
    unat (mli_of A') = length p)"
    by (rule recovered_header) (use w un q ul in simp_all)
  have wo: "wrapping_of (enc k) (take (unat in_len) ib) p \<longleftrightarrow>
    1 \<le> length p \<and> length p \<le> 2 ^ 31 \<and> rfc5649_pad p = R' \<and> A' = aiv_header (of_nat (length p))" for p
    unfolding AR by (rule wrapping_of_recovered [OF c lA lR [folded un] _ n31(1) s(1)]) (use un q in simp)
  have small: "length p \<le> 2 ^ 31" if "rfc5649_pad p = R'" for p
  proof -
    have "length p \<le> length (rfc5649_pad p)" by (simp add: rfc5649_pad_def)
    then show ?thesis using w un q by (simp add: that)
  qed
  show ?thesis
  proof (cases ?ok)
    case True
    with ok obtain p where p: "1 \<le> length p" "rfc5649_pad p = R'" "A' = aiv_header (of_nat (length p))"
      "unat (mli_of A') = length p" by blast
    have "wrapping_of (enc k) (take (unat in_len) ib) p" using p small by (simp add: wo)
    moreover have "wolfcrypt_AES_unwrap_key_padded_multiblock dec k ob ol max_out ib in_len =
      Some (1, Some (rfc5649_pad p @ drop (length (rfc5649_pad p)) ob), Some (of_nat (length p)))"
      unfolding res if_P [OF True] ucast_of_nat_unat using p w un by simp
    ultimately show ?thesis unfolding unwraps_def by blast
  next
    case False
    have "\<nexists>p. wrapping_of (enc k) (take (unat in_len) ib) p"
    proof
      assume "\<exists>p. wrapping_of (enc k) (take (unat in_len) ib) p"
      then obtain p where p: "1 \<le> length p" "length p \<le> 2 ^ 31" "rfc5649_pad p = R'"
        "A' = aiv_header (of_nat (length p))" unfolding wo by blast
      have "unat (mli_of A') = length p"
        unfolding p(4) mli_of_aiv_header using p(2) by (simp add: unsigned_ucast_eq unat_of_nat_size take_bit_nat_eq_self)
      with p False ok show False by blast
    qed
    moreover have "length (R' @ ?rst) = length ob" using w un il m by simp
    ultimately show ?thesis unfolding unwraps_def res if_not_P [OF False] by blast
  qed
qed

lemma wrapping_of_single:
  assumes c: "block_cipher enc dec" and l: "length b = 16"
  shows "wrapping_of enc b p \<longleftrightarrow> 1 \<le> length p \<and> rfc5649_pad p = drop 8 (dec b) \<and>
    take 8 (dec b) = aiv_header (of_nat (length p))"
proof -
  have d: "length (dec b) = 16" "enc (dec b) = b" using c l by (simp_all add: block_cipher_def)
  have ap: "take 8 (dec b) @ drop 8 (dec b) = dec b" by simp
  show ?thesis
  proof
    assume w: "wrapping_of enc b p"
    then have p: "1 \<le> length p" "length p \<le> 2 ^ 31" "b = rfc5649_wrap enc p" by (simp_all add: wrapping_of_def)
    have "length (rfc5649_pad p) = 8" using length_rfc5649_wrap [OF c p(1,2)] p(3) l by simp
    moreover from this have "dec b = aiv_header (of_nat (length p)) @ rfc5649_pad p"
      using c p(3) by (simp add: rfc5649_wrap_alt block_cipher_def)
    ultimately show "1 \<le> length p \<and> rfc5649_pad p = drop 8 (dec b) \<and>
      take 8 (dec b) = aiv_header (of_nat (length p))" using p(1) by simp
  next
    assume p: "1 \<le> length p \<and> rfc5649_pad p = drop 8 (dec b) \<and>
      take 8 (dec b) = aiv_header (of_nat (length p))"
    then have l8: "length (rfc5649_pad p) = 8" using d by simp
    moreover have "length p \<le> length (rfc5649_pad p)" by (simp add: rfc5649_pad_def)
    moreover have "aiv_header (of_nat (length p)) @ rfc5649_pad p = dec b" using p ap by simp
    ultimately show "wrapping_of enc b p" using p d by (simp add: wrapping_of_def rfc5649_wrap_alt)
  qed
qed

lemma unwrap_single_decides:
  assumes c: "block_cipher (enc k) (dec k)" and i: "16 \<le> length ib"
    and m: "8 \<le> unat max_out" "unat max_out \<le> length ob"
  shows "unwraps (enc k) (take 16 ib) ob ol
    (wolfcrypt_AES_unwrap_key_padded dec (Some k) (Some ob) (Some ol) max_out (Some ib) 16)"
proof -
  let ?b = "dec k (take 16 ib)" and ?rst = "drop 8 ob"
  define A R where "A = take 8 ?b" and "R = drop 8 ?b"
  have lb: "length ?b = 16" using c i by (simp add: block_cipher_def)
  then have l: "length A = 8" "length R = 8" by (simp_all add: A_def R_def)
  have p1: "peek ib 0 16 = Some (take 16 ib)" "peek ?b 0 8 = Some A" "memcpy_at ob 0 ?b 8 8 = Some (R @ ?rst)"
    using i lb m by (simp_all add: peek_def memcpy_at_Some A_def R_def)
  have mo: "\<not> max_out < ucast (8 :: uint)" using m by (simp only: ucast_less_iff) simp
  have f1: "\<not> ((16 :: size_t) < 16 \<or> (16 :: size_t) mod 8 \<noteq> 0)" by simp
  let ?ok = "take 4 A = kPaddedAIV \<and> mli_of A \<noteq> 0 \<and> mli_of A \<le> 8 \<and> 8 - 8 < mli_of A \<and>
    padding_zero (R @ ?rst) (mli_of A) 8"
  have res: "wolfcrypt_AES_unwrap_key_padded dec (Some k) (Some ob) (Some ol) max_out (Some ib) 16 =
    (if ?ok then Some (1, Some (R @ ?rst), Some (ucast (mli_of A))) else Some (0, Some (R @ ?rst), Some ol))"
    unfolding wolfcrypt_AES_unwrap_key_padded_def option.case prod.case if_not_P [OF f1] if_P [OF refl] p1
      bind.bind_lunit Let_def if_not_P [OF mo]
    by (auto simp: not_less word_gt_0)
  have ok: "?ok \<longleftrightarrow> (\<exists>p. 1 \<le> length p \<and> rfc5649_pad p = R \<and> A = aiv_header (of_nat (length p)) \<and>
    unat (mli_of A) = length p)"
    by (rule recovered_header) (use l in simp_all)
  have wo: "wrapping_of (enc k) (take 16 ib) p \<longleftrightarrow>
    1 \<le> length p \<and> rfc5649_pad p = R \<and> A = aiv_header (of_nat (length p))" for p
    unfolding A_def R_def by (rule wrapping_of_single [OF c]) (use i in simp)
  show ?thesis
  proof (cases ?ok)
    case True
    with ok obtain p where p: "1 \<le> length p" "rfc5649_pad p = R" "A = aiv_header (of_nat (length p))"
      "unat (mli_of A) = length p" by blast
    have "wrapping_of (enc k) (take 16 ib) p" using p by (simp add: wo)
    moreover have "wolfcrypt_AES_unwrap_key_padded dec (Some k) (Some ob) (Some ol) max_out (Some ib) 16 =
      Some (1, Some (rfc5649_pad p @ drop (length (rfc5649_pad p)) ob), Some (of_nat (length p)))"
      unfolding res if_P [OF True] ucast_of_nat_unat using p l by simp
    ultimately show ?thesis unfolding unwraps_def by blast
  next
    case False
    have "\<not> wrapping_of (enc k) (take 16 ib) p" for p
    proof
      assume "wrapping_of (enc k) (take 16 ib) p"
      then have p: "1 \<le> length p" "rfc5649_pad p = R" "A = aiv_header (of_nat (length p))" by (simp_all add: wo)
      have "length p \<le> length (rfc5649_pad p)" by (simp add: rfc5649_pad_def)
      then have "unat (mli_of A) = length p" using l p(2)
        unfolding p(3) mli_of_aiv_header by (simp add: unsigned_ucast_eq unat_of_nat_size take_bit_nat_eq_self)
      with p False ok show False by blast
    qed
    moreover have "length (R @ ?rst) = length ob" using l m by simp
    ultimately show ?thesis unfolding unwraps_def res if_not_P [OF False] by blast
  qed
qed

lemma unwrap_key_padded_decides:
  assumes c: "block_cipher (enc k) (dec k)"
    and i: "unat in_len mod 8 = 0" "16 \<le> unat in_len" "unat in_len \<le> 2 ^ 31" "unat in_len \<le> length ib"
    and m: "unat in_len - 8 \<le> unat max_out" "unat max_out \<le> length ob"
  shows "unwraps (enc k) (take (unat in_len) ib) ob ol
    (wolfcrypt_AES_unwrap_key_padded dec (Some k) (Some ob) (Some ol) max_out (Some ib) in_len)"
proof (cases "unat in_len = 16")
  case True
  then have "in_len = 16" by (simp add: word_unat_eq_iff)
  with True unwrap_single_decides [where enc = enc and dec = dec and k = k, OF c, of ib max_out ob ol] i m show ?thesis by simp
next
  case False
  then have "\<not> in_len < 16" "in_len \<noteq> 16" "in_len mod 8 = 0"
    using i by (auto simp: word_less_nat_alt word_unat_eq_iff unat_mod)
  then have "wolfcrypt_AES_unwrap_key_padded dec (Some k) (Some ob) (Some ol) max_out (Some ib) in_len =
      wolfcrypt_AES_unwrap_key_padded_multiblock dec k ob ol max_out ib in_len"
    by (simp add: wolfcrypt_AES_unwrap_key_padded_def)
  with unwrap_multiblock_decides [where enc = enc and dec = dec and k = k, OF c i(1) _ i(3,4) m] i False show ?thesis by simp
qed

lemma wrapping_of_unique:
  assumes c: "block_cipher enc dec" and "wrapping_of enc b p" "wrapping_of enc b p'"
    and b: "length b \<le> 2 ^ 31"
  shows "p = p'"
proof -
  have rec: "rfc5649_pad p = R \<and> aiv_header (of_nat (length p)) = A \<Longrightarrow> p = take (unat (mli_of A)) R"
    if "wrapping_of enc b p" for p A R
    using that
    by (auto simp: wrapping_of_def mli_of_aiv_header unsigned_ucast_eq unat_of_nat_size take_bit_nat_eq_self rfc5649_pad_def)
  have l: "length b = length (rfc5649_pad p) + 8"
    using assms(2) length_rfc5649_wrap [OF c, of p] by (simp add: wrapping_of_def)
  show ?thesis
  proof (cases "length b = 16")
    case True
    with wrapping_of_single [OF c True] assms(2,3) rec show ?thesis by metis
  next
    case False
    define q where "q = length (rfc5649_pad p) div 8"
    define n :: uint where "n = of_nat q"
    have q: "length (rfc5649_pad p) = q * 8" "length (rfc5649_pad p) \<noteq> 0"
      using assms(2) by (auto simp: q_def length_rfc5649_pad wrapping_of_def)
    have un: "unat n = q" using b l q by (simp add: n_def unat_of_nat)
    let ?A = "take 8 b" and ?R = "drop 8 b"
    have AR: "?A @ ?R = b" "length ?A = 8" "length ?R = unat n * 8" using l q un by simp_all
    have n: "1 < unat n" "unat n * 8 \<le> 2 ^ 31" using un q l b False by auto
    have "set (unwrap_order n) \<subseteq> {(j, i). 1 \<le> i \<and> i \<le> unat n}"
      using wrap_order_range n by (subst unwrap_order_rev) simp_all
    from run_steps_frame [OF c n(2) this, of ?A ?R "[]"] AR obtain A' R' where
      s: "run_steps (unwrap_step dec n) (?A, ?R) (unwrap_order n) = Some (A', R')"
      by (auto simp: wr_inv_def)
    from wrapping_of_recovered [OF c AR(2,3) n s] assms(2,3) rec show ?thesis unfolding AR(1) by metis
  qed
qed

section \<open>Properties\<close>

text \<open>A toy cipher for the witnesses: every byte is xored with the key.\<close>

definition xor_cipher :: "byte \<Rightarrow> byte list \<Rightarrow> byte list" where
  "xor_cipher k b = map (\<lambda>x. x XOR k) b"

lemma block_cipher_xor: "block_cipher (xor_cipher k) (xor_cipher k)"
  by (simp add: block_cipher_def xor_cipher_def comp_def xor.assoc)

definition xor_wrap :: "byte \<Rightarrow> byte list \<Rightarrow> byte list \<Rightarrow> int \<times> byte list" where
  "xor_wrap k iv q = (8 + int (length q), rfc3394_wrap (xor_cipher k) iv q)"

lemma wraps_3394_xor: "wraps_3394 xor_cipher xor_wrap k"
  by (simp add: wraps_3394_def xor_wrap_def)

text \<open>C23: Wrapping a key \<open>p\<close> of 1 to 256 bytes computes RFC 5649: with room for the padded key
  and 8 more bytes it returns 1, writes exactly the wrapping of \<open>p\<close> and its length, and touches
  no memory out of bounds; with less room it returns 0 and writes nothing.\<close>

theorem wolfcrypt_AES_wrap_key_padded_correct:
  assumes "block_cipher (enc k) dec" "wraps_3394 enc wrap k" "1 \<le> length p" "length p \<le> 256"
    and "unat max_out \<le> length ob"
  shows "wolfcrypt_AES_wrap_key_padded enc wrap (Some k) (Some ob) (Some ol) max_out (Some (p @ rest))
     (of_nat (length p)) =
     (if length (rfc5649_pad p) + 8 \<le> unat max_out
      then Some (1, Some (rfc5649_wrap (enc k) p @ drop (length (rfc5649_pad p) + 8) ob),
        Some (of_nat (length (rfc5649_pad p) + 8)))
      else Some (0, Some ob, Some ol))"
proof (cases "length (rfc5649_pad p) + 8 \<le> unat max_out")
  case True
  then show ?thesis using wrap_key_padded_ok [where enc = enc and k = k, OF assms(1-4) True assms(5)] by simp
next
  case False
  have "length p \<le> 2 ^ 31" using assms(4) by simp
  then show ?thesis using False by (simp add: wrap_key_padded_short [OF assms(3)] not_le)
qed

theorem wolfcrypt_AES_wrap_key_padded_correct_witness:
  "wolfcrypt_AES_wrap_key_padded xor_cipher xor_wrap (Some 0x0F) (Some (replicate 17 0)) (Some 0) 17
     (Some [1, 2, 3]) 3 =
   Some (1, Some [0xA9, 0x56, 0x56, 0xA9, 0x0F, 0x0F, 0x0F, 0x0C, 0x0E, 0x0D, 0x0C, 0x0F, 0x0F, 0x0F, 0x0F, 0x0F, 0],
     Some 16)"
  using wolfcrypt_AES_wrap_key_padded_correct [where enc = xor_cipher and k = "0x0F" and p = "[1, 2, 3]" and
    ob = "replicate 17 0" and ol = 0 and max_out = 17 and rest = "[]", OF block_cipher_xor wraps_3394_xor]
  by (simp add: rfc5649_wrap_def rfc5649_pad_def rfc5649_aiv_def xor_cipher_def Let_def)
    (simp add: eval_nat_numeral)

text \<open>C24: Unwrapping what wrapping produced gives the key back: for a key \<open>p\<close> of 1 to 256 bytes
  and a buffer with room, the first call returns 1 with some ciphertext, and the second, on that
  ciphertext with the same key, returns 1, the length of \<open>p\<close> and \<open>p\<close> followed by its padding.\<close>

theorem wolfcrypt_AES_unwrap_wrap:
  assumes c: "block_cipher (enc k) (dec k)" and w: "wraps_3394 enc wrap k" and p: "1 \<le> length p" "length p \<le> 256"
    and m: "length (rfc5649_pad p) + 8 \<le> unat max_w" "unat max_w \<le> length ob_w"
      "length (rfc5649_pad p) \<le> unat max_u" "unat max_u \<le> length ob_u"
  shows "\<exists>ct n. wolfcrypt_AES_wrap_key_padded enc wrap (Some k) (Some ob_w) (Some ol) max_w (Some p)
       (of_nat (length p)) = Some (1, Some ct, Some n) \<and>
     wolfcrypt_AES_unwrap_key_padded dec (Some k) (Some ob_u) (Some ol) max_u (Some ct) n =
       Some (1, Some (rfc5649_pad p @ drop (length (rfc5649_pad p)) ob_u), Some (of_nat (length p)))"
proof (intro exI conjI)
  let ?L = "length (rfc5649_pad p)"
  let ?ct = "rfc5649_wrap (enc k) p @ drop (?L + 8) ob_w" and ?n = "of_nat (?L + 8) :: size_t"
  show "wolfcrypt_AES_wrap_key_padded enc wrap (Some k) (Some ob_w) (Some ol) max_w (Some p)
       (of_nat (length p)) = Some (1, Some ?ct, Some ?n)"
    using wrap_key_padded_ok [where enc = enc and k = k, OF c w p m(1,2), of ol "[]"] by simp
  have p31: "length p \<le> 2 ^ 31" using p by simp
  have L: "8 \<le> ?L" "?L \<le> 256" "?L mod 8 = 0" using p by (simp_all add: length_rfc5649_pad)
  have u: "unat ?n = ?L + 8" using L by (intro unat_of_nat_size) simp
  have lw: "length (rfc5649_wrap (enc k) p) = ?L + 8" by (rule length_rfc5649_wrap [OF c p(1) p31])
  then have t: "take (unat ?n) ?ct = rfc5649_wrap (enc k) p" by (simp add: u del: of_nat_add)
  have "(?L + 8) mod 8 = 0" using L by simp
  then have "unwraps (enc k) (take (unat ?n) ?ct) ob_u ol
     (wolfcrypt_AES_unwrap_key_padded dec (Some k) (Some ob_u) (Some ol) max_u (Some ?ct) ?n)"
    using L m lw by (intro unwrap_key_padded_decides c) (simp_all add: u del: of_nat_add)
  moreover have wo: "wrapping_of (enc k) (rfc5649_wrap (enc k) p) p" using p by (simp add: wrapping_of_def)
  moreover have "p' = p" if "wrapping_of (enc k) (rfc5649_wrap (enc k) p) p'" for p'
    by (rule wrapping_of_unique [OF c that wo]) (use lw L in simp)
  ultimately show "wolfcrypt_AES_unwrap_key_padded dec (Some k) (Some ob_u) (Some ol) max_u (Some ?ct) ?n =
       Some (1, Some (rfc5649_pad p @ drop ?L ob_u), Some (of_nat (length p)))"
    unfolding t unwraps_def by blast
qed

theorem wolfcrypt_AES_unwrap_wrap_witness:
  "\<exists>ct n. wolfcrypt_AES_wrap_key_padded xor_cipher xor_wrap (Some 0x3C) (Some (replicate 24 0)) (Some 0) 24
       (Some [1, 2, 3, 4, 5, 6, 7, 8, 9]) 9 = Some (1, Some ct, Some n) \<and>
     wolfcrypt_AES_unwrap_key_padded xor_cipher (Some 0x3C) (Some (replicate 16 0)) (Some 0) 16 (Some ct) n =
       Some (1, Some [1, 2, 3, 4, 5, 6, 7, 8, 9, 0, 0, 0, 0, 0, 0, 0], Some 9)"
  using wolfcrypt_AES_unwrap_wrap [where enc = xor_cipher and dec = xor_cipher and k = "0x3C" and p = "[1, 2, 3, 4, 5, 6, 7, 8, 9]" and
    ob_w = "replicate 24 0" and ob_u = "replicate 16 0" and ol = 0 and max_w = 24 and max_u = 16,
    OF block_cipher_xor wraps_3394_xor]
  by (simp add: rfc5649_pad_def) (simp add: eval_nat_numeral)

text \<open>C25: Unwrapping is sound and complete on ciphertexts of up to \<open>2\<^sup>3\<^sup>1\<close> bytes: it returns 1 exactly
  when the input is the RFC 5649 wrapping of some key, then the output buffer starts with that
  padded key and \<open>*out_len\<close> is its length; otherwise it returns 0 and leaves \<open>*out_len\<close>.  Nothing is
  accessed out of bounds, and at most one key has a given wrapping.\<close>

theorem wolfcrypt_AES_unwrap_key_padded_decides:
  assumes "block_cipher (enc k) (dec k)"
    and "unat in_len mod 8 = 0" "16 \<le> unat in_len" "unat in_len \<le> 2 ^ 31" "unat in_len \<le> length ib"
    and "unat in_len - 8 \<le> unat max_out" "unat max_out \<le> length ob"
  shows "unwraps (enc k) (take (unat in_len) ib) ob ol
      (wolfcrypt_AES_unwrap_key_padded dec (Some k) (Some ob) (Some ol) max_out (Some ib) in_len) \<and>
    (\<forall>p p'. wrapping_of (enc k) (take (unat in_len) ib) p \<longrightarrow>
       wrapping_of (enc k) (take (unat in_len) ib) p' \<longrightarrow> p = p')"
proof -
  have "length (take (unat in_len) ib) \<le> 2 ^ 31" using assms(4) by simp
  then show ?thesis
    using unwrap_key_padded_decides [where enc = enc and dec = dec and k = k, OF assms] wrapping_of_unique [OF assms(1)]
    by blast
qed

theorem wolfcrypt_AES_unwrap_key_padded_decides_witness:
  "unwraps (xor_cipher 7) (replicate 16 0) (replicate 8 1) 5
      (wolfcrypt_AES_unwrap_key_padded xor_cipher (Some 7) (Some (replicate 8 1)) (Some 5) 8 (Some (replicate 16 0)) 16)"
  using wolfcrypt_AES_unwrap_key_padded_decides [where enc = xor_cipher and dec = xor_cipher and k = 7 and
    ib = "replicate 16 0" and ob = "replicate 8 1" and ol = 5 and max_out = 8 and in_len = 16, OF block_cipher_xor]
  by simp

text \<open>C33: The length \<open>padded_len\<close> is an unsigned int, so it wraps for keys of nearly \<open>2\<^sup>3\<^sup>2\<close> bytes: for
  every \<open>in_len > 8\<close> whose rounded length is below 16 modulo \<open>2\<^sup>3\<^sup>2\<close>, with 16 bytes of output room, the
  single-block branch copies all \<open>in_len\<close> bytes into a 16-byte array on the stack and overflows it.\<close>

theorem wolfcrypt_AES_wrap_key_padded_overflow:
  assumes "8 < in_len" "unat (in_len + 7) mod 2 ^ 32 < 16" "16 \<le> max_out"
  shows "wolfcrypt_AES_wrap_key_padded enc wrap (Some k) (Some ob) (Some ol) max_out (Some ib) in_len = None"
proof -
  let ?pl = "wrap_padded_len in_len"
  have "(unat (in_len + 7) mod 2 ^ 32) div 8 < 2" by (rule less_mult_imp_div_less) (use assms(2) in simp)
  then have "unat ?pl \<le> 8" by (simp add: wrap_padded_len_mod)
  then have pl: "?pl \<le> 8" by (simp add: word_le_nat_alt)
  have mo: "\<not> max_out < ucast (wrap_needed ?pl)" using assms(3) pl by (simp add: wrap_needed_def)
  have n0: "in_len \<noteq> 0" using assms(1) by auto
  have "8 < unat in_len" using assms(1) by (simp add: word_less_nat_alt)
  then have b2: "memcpy_at (aiv_header in_len @ replicate 8 0) 8 ib 0 (unat in_len) = None"
    by (intro memcpy_at_None) simp
  have b1: "memcpy_at (replicate 16 0) 0 (aiv_header in_len) 0 8 = Some (aiv_header in_len @ replicate 8 0)"
    by (simp add: memcpy_at_Some)
  show ?thesis
    unfolding wolfcrypt_AES_wrap_key_padded_def option.case prod.case Let_def if_not_P [OF n0] if_not_P [OF mo]
      if_P [OF pl] b1 bind.bind_lunit b2 by simp
qed

theorem wolfcrypt_AES_wrap_key_padded_overflow_witness:
  "wolfcrypt_AES_wrap_key_padded xor_cipher xor_wrap (Some 1) (Some (replicate 16 0)) (Some 0) 16 (Some []) 0xFFFFFFF9 = None"
  using wolfcrypt_AES_wrap_key_padded_overflow [of "0xFFFFFFF9" 16] by simp

end
