(* ===== verification/CHeap.thy ===== *)
theory CHeap
  imports Prelude
begin

text \<open>
  The C heap that the context shims allocate from, and the contract of a context type.

  \<^item> \<open>cells\<close> maps the address of every live object to its contents; an address that was freed is
    never used again, so that a use after free or a second free finds no object.  \<open>malloc\<close>
    returns \<open>None\<close> (\<open>NULL\<close>) when \<open>limit\<close> objects were allocated.  \<open>freed\<close> records the contents that each
    freed object had when it was given back, that is what stays behind in memory.
  \<^item> \<open>held\<close> records the wolfSSL objects that were initialised and not yet freed, with the address
    of the memory they live in.  Freeing one that is not held (twice, or without initialisation) sets \<open>fault\<close>.
  \<^item> The locale \<open>ctx_api\<close> is the contract between the shims and their callers in Rust: what creating,
    using and destroying a context do to the heap.  Its lemmas are proved once and
    hold for every context type that is an interpretation of it.
\<close>

section \<open>Allocation\<close>

named_theorems heap_simps "effects of the heap operations"

datatype res = Sha | Hmac | Cmac | Des3 | Rng | DhKey | RsaKey

record 'o heap =
  cells :: "nat \<Rightarrow> 'o option"
  brk :: nat
  limit :: nat
  held :: "(nat \<times> res) list"
  fault :: bool
  freed :: "(nat \<times> 'o) list"

definition malloc :: "'o \<Rightarrow> 'o heap \<Rightarrow> (nat \<times> 'o heap) option" where
  "malloc junk h =
     (if brk h < limit h then Some (brk h, h\<lparr>cells := (cells h)(brk h \<mapsto> junk), brk := Suc (brk h)\<rparr>) else None)"

definition dealloc :: "nat \<Rightarrow> 'o heap \<Rightarrow> 'o heap option" where
  "dealloc a h = (case cells h a of
       None \<Rightarrow> None
     | Some x \<Rightarrow> Some (h\<lparr>cells := (cells h)(a := None), freed := (a, x) # freed h\<rparr>))"

definition store :: "nat \<Rightarrow> 'o \<Rightarrow> 'o heap \<Rightarrow> 'o heap" where
  "store a x h = h\<lparr>cells := (cells h)(a \<mapsto> x)\<rparr>"

definition acquire :: "nat \<Rightarrow> res \<Rightarrow> 'o heap \<Rightarrow> 'o heap" where
  "acquire a r h = h\<lparr>held := (a, r) # held h\<rparr>"

definition release :: "nat \<Rightarrow> res \<Rightarrow> 'o heap \<Rightarrow> 'o heap" where
  "release a r h = h\<lparr>held := remove1 (a, r) (held h), fault := fault h \<or> (a, r) \<notin> set (held h)\<rparr>"

text \<open>No object and no resource lies at an address that was not handed out yet, and no resource
  was released that was not held.\<close>

definition heap_ok :: "'o heap \<Rightarrow> bool" where
  "heap_ok h \<longleftrightarrow> (\<forall>a. brk h \<le> a \<longrightarrow> cells h a = None) \<and> (\<forall>x\<in>set (held h). fst x < brk h) \<and> \<not> fault h"

definition empty_heap :: "nat \<Rightarrow> 'o heap" where
  "empty_heap n = \<lparr>cells = (\<lambda>_. None), brk = 0, limit = n, held = [], fault = False, freed = []\<rparr>"

lemma empty_heap_ok [simp]: "heap_ok (empty_heap n)"
  by (simp add: heap_ok_def empty_heap_def)

lemma store_fields [heap_simps]:
  "cells (store a x h) = (cells h)(a \<mapsto> x)" "brk (store a x h) = brk h" "held (store a x h) = held h"
  "fault (store a x h) = fault h" "freed (store a x h) = freed h"
  by (simp_all add: store_def)

lemma acquire_fields [heap_simps]:
  "cells (acquire a r h) = cells h" "brk (acquire a r h) = brk h" "held (acquire a r h) = (a, r) # held h"
  "fault (acquire a r h) = fault h" "freed (acquire a r h) = freed h"
  by (simp_all add: acquire_def)

lemma release_fields [heap_simps]:
  "cells (release a r h) = cells h" "brk (release a r h) = brk h" "held (release a r h) = remove1 (a, r) (held h)"
  "fault (release a r h) = (fault h \<or> (a, r) \<notin> set (held h))" "freed (release a r h) = freed h"
  by (simp_all add: release_def)

lemma dealloc_Some [heap_simps]:
  "cells h a = Some x \<Longrightarrow> dealloc a h = Some (h\<lparr>cells := (cells h)(a := None), freed := (a, x) # freed h\<rparr>)"
  by (simp add: dealloc_def)

section \<open>What a caller sees of a heap\<close>

text \<open>The live objects, the resources they hold, and whether one was released that was not held.\<close>

definition same_heap :: "'o heap \<Rightarrow> 'o heap \<Rightarrow> bool" where
  "same_heap h h' \<longleftrightarrow> cells h' = cells h \<and> held h' = held h \<and> fault h' = fault h"

definition same_except :: "nat \<Rightarrow> 'o heap \<Rightarrow> 'o heap \<Rightarrow> bool" where
  "same_except a h h' \<longleftrightarrow> (\<forall>b. b \<noteq> a \<longrightarrow> cells h' b = cells h b) \<and>
     filter (\<lambda>x. fst x \<noteq> a) (held h') = filter (\<lambda>x. fst x \<noteq> a) (held h)"

lemma same_heap_refl [simp]: "same_heap h h"
  by (simp add: same_heap_def)

lemma same_except_refl [simp]: "same_except a h h"
  by (simp add: same_except_def)

lemma same_except_trans: "same_except a h1 h2 \<Longrightarrow> same_except a h2 h3 \<Longrightarrow> same_except a h1 h3"
  by (simp add: same_except_def)

lemma same_except_store [simp]: "same_except a h (store a x h)"
  by (simp add: same_except_def heap_simps)

lemma filter_remove1: "filter P (remove1 x xs) = remove1 x (filter P xs)"
  by (induction xs) (auto simp: remove1_idem)

lemma same_except_res [simp]: "same_except a h (acquire a r h)" "same_except a h (release a r h)"
  by (simp_all add: same_except_def heap_simps filter_remove1 remove1_idem)

section \<open>Owning an object\<close>

text \<open>
  \<open>owned P rs h a\<close>: there is an object at \<open>a\<close> whose contents satisfy \<open>P\<close>, and the wolfSSL objects in it that
  are initialised are exactly \<open>rs\<close>.  \<open>fresh a h\<close>: nothing is at \<open>a\<close>.  \<open>holding P rs a h0 h\<close>: the heap \<open>h\<close> is
  well-formed, \<open>a\<close> is owned in it, and nothing else changed since \<open>h0\<close>.  \<open>gone rs a h0 h\<close>: the object at \<open>a\<close>
  was freed, and of the wolfSSL objects in it \<open>rs\<close> were not.
\<close>

definition owned :: "('o \<Rightarrow> bool) \<Rightarrow> res list \<Rightarrow> 'o heap \<Rightarrow> nat \<Rightarrow> bool" where
  "owned P rs h a \<longleftrightarrow> (\<exists>x. cells h a = Some x \<and> P x) \<and> a < brk h \<and>
     filter (\<lambda>x. fst x = a) (held h) = map (Pair a) rs"

definition fresh :: "nat \<Rightarrow> 'o heap \<Rightarrow> bool" where
  "fresh a h \<longleftrightarrow> cells h a = None \<and> a \<notin> fst ` set (held h)"

definition holding :: "('o \<Rightarrow> bool) \<Rightarrow> res list \<Rightarrow> nat \<Rightarrow> 'o heap \<Rightarrow> 'o heap \<Rightarrow> bool" where
  "holding P rs a h0 h \<longleftrightarrow> heap_ok h \<and> owned P rs h a \<and> same_except a h0 h"

definition gone :: "res list \<Rightarrow> nat \<Rightarrow> 'o heap \<Rightarrow> 'o heap \<Rightarrow> bool" where
  "gone rs a h0 h \<longleftrightarrow> heap_ok h \<and> cells h a = None \<and> filter (\<lambda>x. fst x = a) (held h) = map (Pair a) rs \<and>
     same_except a h0 h"

lemma holding_self: "heap_ok h \<Longrightarrow> owned P rs h a \<Longrightarrow> holding P rs a h h"
  by (simp add: holding_def)

lemma holding_trans: "holding P rs a h0 h1 \<Longrightarrow> holding Q rs' a h1 h2 \<Longrightarrow> holding Q rs' a h0 h2"
  using same_except_trans by (auto simp: holding_def)

lemma holding_step:
  assumes "holding P rs a h0 h" "same_except a h h'" "heap_ok h'" "owned P rs' h' a"
  shows "holding P rs' a h0 h'"
  using assms same_except_trans [of a h0 h h'] by (simp add: holding_def)

lemma gone_trans: "holding P rs a h0 h1 \<Longrightarrow> gone rs' a h1 h2 \<Longrightarrow> gone rs' a h0 h2"
  using same_except_trans by (auto simp: holding_def gone_def)

lemma malloc_fresh:
  assumes "heap_ok h" "malloc x h = Some (a, h')"
  shows "a = brk h" "fresh a h" "cells h' = (cells h)(a \<mapsto> x)"
proof -
  have a: "a = brk h" and h': "h' = h\<lparr>cells := (cells h)(brk h \<mapsto> x), brk := Suc (brk h)\<rparr>"
    using assms(2) by (auto simp: malloc_def split: if_splits)
  have "\<And>y. y \<in> set (held h) \<Longrightarrow> fst y < brk h" using assms(1) by (simp add: heap_ok_def)
  then have "a \<notin> fst ` set (held h)" by (metis a imageE less_irrefl)
  then show "a = brk h" "fresh a h" "cells h' = (cells h)(a \<mapsto> x)"
    using assms(1) by (simp_all add: a h' fresh_def heap_ok_def)
qed

lemma holding_malloc:
  assumes "heap_ok h" "malloc x h = Some (a, h')" "P x"
  shows "holding P [] a h h'"
proof -
  have a: "a = brk h" and h': "h' = h\<lparr>cells := (cells h)(brk h \<mapsto> x), brk := Suc (brk h)\<rparr>"
    using assms(2) by (auto simp: malloc_def split: if_splits)
  have "filter (\<lambda>x. fst x = a) (held h) = []"
    using malloc_fresh(2) [OF assms(1,2)] by (auto simp: fresh_def filter_empty_conv)
  then show ?thesis
    using assms(1,3) by (auto simp: holding_def owned_def heap_ok_def same_except_def a h' less_SucI)
qed

lemma holding_store:
  assumes "holding P rs a h0 h" "P x"
  shows "holding P rs a h0 (store a x h)"
  by (rule holding_step [OF assms(1) same_except_store])
    (use assms in \<open>auto simp: holding_def heap_ok_def owned_def heap_simps\<close>)

lemma holding_acquire:
  assumes "holding P rs a h0 h"
  shows "holding P (r # rs) a h0 (acquire a r h)"
  by (rule holding_step [OF assms same_except_res(1)])
    (use assms in \<open>auto simp: holding_def heap_ok_def owned_def heap_simps\<close>)

lemma remove1_map_Pair: "remove1 (a, r) (map (Pair a) rs) = map (Pair a) (remove1 r rs)"
  by (induction rs) auto

lemma holding_release:
  assumes "holding P rs a h0 h" "r \<in> set rs"
  shows "holding P (remove1 r rs) a h0 (release a r h)"
proof -
  have "(a, r) \<in> set (filter (\<lambda>x. fst x = a) (held h))"
    using assms by (simp add: holding_def owned_def)
  then have "(a, r) \<in> set (held h)" by simp
  then have "heap_ok (release a r h)"
    using assms(1) set_remove1_subset [of "(a, r)" "held h"] by (auto simp: holding_def heap_ok_def heap_simps)
  moreover have "owned P (remove1 r rs) (release a r h) a"
    using assms(1) by (simp add: holding_def owned_def heap_simps filter_remove1 remove1_map_Pair)
  ultimately show ?thesis by (rule holding_step [OF assms(1) same_except_res(2)])
qed

lemma holding_dealloc:
  assumes "holding P rs a h0 h"
  shows "\<exists>h'. dealloc a h = Some h' \<and> gone rs a h0 h'"
proof -
  obtain x where x: "cells h a = Some x" using assms by (auto simp: holding_def owned_def)
  show ?thesis
    using assms by (auto simp: dealloc_Some [OF x] gone_def holding_def owned_def heap_ok_def same_except_def)
qed

lemma gone_fresh:
  assumes "fresh a h" "gone [] a h h'"
  shows "heap_ok h' \<and> cells h' = cells h \<and> held h' = held h"
proof -
  have g: "cells h' a = None" "a \<notin> fst ` set (held h')" "same_except a h h'" "heap_ok h'"
    using assms(2) by (auto simp: gone_def filter_empty_conv)
  have "cells h' b = cells h b" for b
    using g assms(1) by (cases "b = a") (simp_all add: same_except_def fresh_def)
  then have "cells h' = cells h" by blast
  moreover have "filter (\<lambda>x. fst x \<noteq> a) (held h) = held h" "filter (\<lambda>x. fst x \<noteq> a) (held h') = held h'"
    using assms(1) g by (auto simp: fresh_def filter_id_conv)
  ultimately show ?thesis using g by (simp add: same_except_def)
qed

text \<open>Memory that was allocated, filled and given back leaves the heap as it was.\<close>

lemma free_new:
  assumes "heap_ok h" "fresh a h" "holding P [] a h h1"
  shows "heap_ok (the (dealloc a h1)) \<and> same_heap h (the (dealloc a h1))"
  using holding_dealloc [OF assms(3)] gone_fresh [OF assms(2)] assms(1) by (fastforce simp: same_heap_def heap_ok_def)

section \<open>The contract of a context type\<close>

text \<open>A sequence of calls on one context.\<close>

fun ctx_run :: "('x \<Rightarrow> nat \<Rightarrow> 'o heap \<Rightarrow> ('r \<times> 'o heap) option) \<Rightarrow> 'x list \<Rightarrow> nat \<Rightarrow> 'o heap \<Rightarrow> 'o heap option" where
  "ctx_run act [] a h = Some h"
| "ctx_run act (x # xs) a h = (case act x a h of None \<Rightarrow> None | Some (r, h') \<Rightarrow> ctx_run act xs a h')"

text \<open>
  The whole life of a context in the heap \<open>h\<close>.  When \<open>mk\<close> returns \<open>NULL\<close>, the heap is as before.  Otherwise, after
  any sequence of calls from \<open>ok\<close>, which is defined when they are all in \<open>safe\<close>, the context can be destroyed;
  then the live objects are those of \<open>h\<close>, no wolfSSL object was released that was not held,
  those that are held are those of \<open>h\<close> and \<open>left\<close> in the freed memory, and another call on the context or a second
  \<open>del\<close> would access memory that is not there.
\<close>

definition life_cycle ::
    "('o heap \<Rightarrow> nat option \<times> 'o heap) \<Rightarrow> ('x \<Rightarrow> nat \<Rightarrow> 'o heap \<Rightarrow> ('r \<times> 'o heap) option) \<Rightarrow>
     (nat \<Rightarrow> 'o heap \<Rightarrow> 'o heap option) \<Rightarrow> ('x \<Rightarrow> bool) \<Rightarrow> ('x \<Rightarrow> bool) \<Rightarrow> res list \<Rightarrow> 'o heap \<Rightarrow> bool" where
  "life_cycle mk act del ok safe left h \<longleftrightarrow>
    (case mk h of
       (None, h1) \<Rightarrow> same_heap h h1
     | (Some a, h1) \<Rightarrow> (\<forall>xs. list_all ok xs \<longrightarrow>
         (list_all safe xs \<longrightarrow> ctx_run act xs a h1 \<noteq> None) \<and>
         (\<forall>h2. ctx_run act xs a h1 = Some h2 \<longrightarrow>
           (\<exists>h3. del a h2 = Some h3 \<and> cells h3 = cells h \<and> \<not> fault h3 \<and>
              filter (\<lambda>x. fst x = a) (held h3) = map (Pair a) left \<and> filter (\<lambda>x. fst x \<noteq> a) (held h3) = held h \<and>
              (left = [] \<longrightarrow> same_heap h h3) \<and> del a h3 = None \<and> (\<forall>x. act x a h3 = None)))))"

lemma held_only:
  assumes "filter (\<lambda>x. fst x = a) xs = ys" "filter (\<lambda>x. fst x \<noteq> a) xs = []"
  shows "xs = ys"
proof -
  have "filter (\<lambda>x. fst x = a) xs = xs" using assms(2) by (auto simp: filter_empty_conv filter_id_conv)
  then show ?thesis using assms(1) by simp
qed

lemma life_cycle_run:
  assumes "life_cycle mk act del ok safe left h" "mk h = (Some a, h1)" "list_all ok xs" "list_all safe xs"
  obtains h2 h3 where "ctx_run act xs a h1 = Some h2" "del a h2 = Some h3"
    "filter (\<lambda>x. fst x = a) (held h3) = map (Pair a) left" "filter (\<lambda>x. fst x \<noteq> a) (held h3) = held h"
    "left = [] \<longrightarrow> same_heap h h3" "del a h3 = None"
proof -
  obtain h2 where "ctx_run act xs a h1 = Some h2" using assms unfolding life_cycle_def by fastforce
  with assms show ?thesis using that unfolding life_cycle_def by fastforce
qed

text \<open>
  \<open>mk\<close> creates a context and returns its address or \<open>None\<close> for \<open>NULL\<close>; \<open>act\<close> performs one call on a
  context; \<open>del\<close> destroys one.  \<open>act\<close> and \<open>del\<close> return \<open>None\<close> when the program would access memory it does
  not own.  A live context satisfies \<open>live\<close> and holds \<open>rs\<close>.
\<close>

locale ctx_api =
  fixes mk :: "'o heap \<Rightarrow> nat option \<times> 'o heap"
    and act :: "'x \<Rightarrow> nat \<Rightarrow> 'o heap \<Rightarrow> ('r \<times> 'o heap) option"
    and del :: "nat \<Rightarrow> 'o heap \<Rightarrow> 'o heap option"
    and ok :: "'x \<Rightarrow> bool"
    and safe :: "'x \<Rightarrow> bool"
    and live :: "'o \<Rightarrow> bool"
    and rs :: "res list"
    and left :: "res list"
  assumes mk_None: "heap_ok h \<Longrightarrow> mk h = (None, h') \<Longrightarrow> heap_ok h' \<and> same_heap h h'"
    and mk_Some: "heap_ok h \<Longrightarrow> mk h = (Some a, h') \<Longrightarrow> fresh a h \<and> holding live rs a h h'"
    and act_ok: "heap_ok h \<Longrightarrow> owned live rs h a \<Longrightarrow> ok x \<Longrightarrow> act x a h = Some (r, h') \<Longrightarrow> holding live rs a h h'"
    and act_safe: "heap_ok h \<Longrightarrow> owned live rs h a \<Longrightarrow> ok x \<Longrightarrow> safe x \<Longrightarrow> act x a h \<noteq> None"
    and del_ok: "heap_ok h \<Longrightarrow> owned live rs h a \<Longrightarrow> \<exists>h'. del a h = Some h' \<and> gone left a h h'"
    and dead: "cells h a = None \<Longrightarrow> act x a h = None \<and> del a h = None"
begin

lemma acts_ok:
  assumes "holding live rs a h0 h" "list_all ok xs" "ctx_run act xs a h = Some h'"
  shows "holding live rs a h0 h'"
  using assms
proof (induction xs arbitrary: h)
  case (Cons x xs)
  then obtain r h1 where h1: "act x a h = Some (r, h1)" "ctx_run act xs a h1 = Some h'" by (auto split: option.splits)
  have "holding live rs a h h1" using act_ok [OF _ _ _ h1(1)] Cons.prems by (simp add: holding_def)
  then have "holding live rs a h0 h1" by (rule holding_trans [OF Cons.prems(1)])
  then show ?case using Cons.IH h1(2) Cons.prems(2) by simp
qed simp

lemma acts_safe:
  assumes "holding live rs a h0 h" "list_all ok xs" "list_all safe xs"
  shows "ctx_run act xs a h \<noteq> None"
  using assms
proof (induction xs arbitrary: h)
  case (Cons x xs)
  have h: "heap_ok h" "owned live rs h a" using Cons.prems(1) by (simp_all add: holding_def)
  then obtain r h1 where h1: "act x a h = Some (r, h1)" using act_safe [OF h, of x] Cons.prems by auto
  have "holding live rs a h h1" using act_ok [OF h _ h1] Cons.prems by simp
  then have "holding live rs a h0 h1" by (rule holding_trans [OF Cons.prems(1)])
  then show ?case using Cons.IH Cons.prems h1 by simp
qed simp

lemma destroyed:
  assumes "heap_ok h" "fresh a h" "holding live rs a h h2"
  shows "\<exists>h3. del a h2 = Some h3 \<and> cells h3 = cells h \<and> \<not> fault h3 \<and>
    filter (\<lambda>x. fst x = a) (held h3) = map (Pair a) left \<and> filter (\<lambda>x. fst x \<noteq> a) (held h3) = held h \<and>
    (left = [] \<longrightarrow> same_heap h h3) \<and> del a h3 = None \<and> (\<forall>x. act x a h3 = None)"
proof -
  have "heap_ok h2" "owned live rs h2 a" using assms(3) by (simp_all add: holding_def)
  then obtain h3 where h3: "del a h2 = Some h3" "gone left a h2 h3" using del_ok by blast
  then have g: "gone left a h h3" using gone_trans [OF assms(3)] by blast
  have "cells h3 b = cells h b" for b
    using g assms(2) by (cases "b = a") (simp_all add: gone_def same_except_def fresh_def)
  then have "cells h3 = cells h" by blast
  moreover have "filter (\<lambda>x. fst x \<noteq> a) (held h) = held h" using assms(2) by (auto simp: fresh_def filter_id_conv)
  moreover have "same_heap h h3" if "left = []"
    using gone_fresh [OF assms(2)] g assms(1) that by (simp add: same_heap_def heap_ok_def)
  ultimately show ?thesis using h3(1) g dead by (auto simp: gone_def same_except_def heap_ok_def)
qed

lemma life_cycle:
  assumes "heap_ok h"
  shows "life_cycle mk act del ok safe left h"
proof (cases "mk h")
  case (Pair p h1)
  show ?thesis
  proof (cases p)
    case None
    then show ?thesis using mk_None [OF assms] Pair by (simp add: life_cycle_def)
  next
    case (Some a)
    have m: "fresh a h" "holding live rs a h h1" using mk_Some [OF assms] Pair Some by simp_all
    show ?thesis
      unfolding life_cycle_def Pair Some prod.case option.case
      using acts_ok [OF m(2)] acts_safe [OF m(2)] destroyed [OF assms m(1)] by blast
  qed
qed

end

end
