(* ===== verification/HashCtx.thy ===== *)
theory HashCtx
  imports CHeap
begin

text \<open>
  The heap-allocated contexts for hashes, HMAC, CMAC and 3DES of
  \<^verbatim>\<open>wolfcrypt-rs/src/compat_shim.c\<close>.

  The wolfSSL functions are the fields of the record \<open>wc_lib\<close>; \<open>'s\<close> is the contents of a wolfSSL
  structure.  A function that gets a context also gets its old contents and returns the new ones.
  \<open>CmacFinalFrees\<close> says whether \<^verbatim>\<open>wc_CmacFinal\<close> also frees the CMAC object, as the name of
  \<^verbatim>\<open>wc_CmacFinalNoFree\<close> suggests.  The nine hashes have the same shims, each a copy of the one for SHA-256 with
  the names replaced; they are instances of one definition at the hash.
  An object in the heap carries its type, and a shim that gets the address of another type of
  object, or of none, is undefined (\<open>None\<close>).
\<close>

section \<open>Data\<close>

datatype sha_alg = SHA256 | SHA384 | SHA1 | SHA224 | SHA512 | SHA512_256 | SHA3_256 | SHA3_384 | SHA3_512

datatype ctx_kind = ShaCtx sha_alg | HmacCtx | CmacCtx | Des3Ctx

datatype wc_rc = MEMORY_E | BUFFER_E | BAD_FUNC_ARG | SIG_VERIFY_E | NOT_COMPILED_IN | Rc int

datatype hmac_type = WC_SHA | WC_SHA256 | WC_SHA384 | WC_SHA512

datatype des_dir = DES_ENCRYPTION | DES_DECRYPTION

record 's wc_lib =
  InitSha :: "sha_alg \<Rightarrow> 's \<Rightarrow> int \<times> 's"
  ShaUpdate :: "sha_alg \<Rightarrow> 's \<Rightarrow> byte list \<Rightarrow> uint \<Rightarrow> int \<times> 's"
  ShaFinal :: "sha_alg \<Rightarrow> 's \<Rightarrow> int \<times> byte list \<times> 's"
  ShaFree :: "sha_alg \<Rightarrow> 's \<Rightarrow> 's"
  ShaCopy :: "sha_alg \<Rightarrow> 's \<Rightarrow> 's \<Rightarrow> int \<times> 's"
  HmacInit :: "'s \<Rightarrow> int \<times> 's"
  HmacSetKey :: "'s \<Rightarrow> hmac_type \<Rightarrow> byte list \<Rightarrow> uint \<Rightarrow> int \<times> 's"
  HmacUpdate :: "'s \<Rightarrow> byte list \<Rightarrow> uint \<Rightarrow> int \<times> 's"
  HmacFinal :: "'s \<Rightarrow> int \<times> byte list \<times> 's"
  InitCmac :: "'s \<Rightarrow> byte list \<Rightarrow> uint \<Rightarrow> int \<times> 's"
  CmacUpdate :: "'s \<Rightarrow> byte list \<Rightarrow> uint \<Rightarrow> int \<times> 's"
  CmacFinal :: "'s \<Rightarrow> uint \<Rightarrow> int \<times> byte list \<times> uint \<times> 's"
  CmacFinalFrees :: bool
  Des3Init :: "'s \<Rightarrow> int \<times> 's"
  Des3_SetKey :: "'s \<Rightarrow> byte list \<Rightarrow> byte list \<Rightarrow> des_dir \<Rightarrow> int \<times> 's"
  Des3_CbcEncrypt :: "'s \<Rightarrow> byte list \<Rightarrow> uint \<Rightarrow> int \<times> byte list \<times> 's"
  Des3_CbcDecrypt :: "'s \<Rightarrow> byte list \<Rightarrow> uint \<Rightarrow> int \<times> byte list \<times> 's"

type_synonym 's cheap = "(ctx_kind \<times> 's) heap"

definition deref :: "ctx_kind \<Rightarrow> nat \<Rightarrow> 's cheap \<Rightarrow> 's option" where
  "deref k a h = (case cells h a of Some (k', s) \<Rightarrow> if k' = k then Some s else None | None \<Rightarrow> None)"

definition res_of :: "ctx_kind \<Rightarrow> res" where
  "res_of k = (case k of ShaCtx _ \<Rightarrow> Sha | HmacCtx \<Rightarrow> Hmac | CmacCtx \<Rightarrow> Cmac | Des3Ctx \<Rightarrow> Des3)"

section \<open>Hash contexts\<close>

text \<open>\<open>junk\<close> is the contents of freshly allocated memory.\<close>

definition sha_ctx_new :: "'s wc_lib \<Rightarrow> 's \<Rightarrow> sha_alg \<Rightarrow> 's cheap \<Rightarrow> nat option \<times> 's cheap" where
  "sha_ctx_new lib junk alg h =
    (case malloc (ShaCtx alg, junk) h of
       None \<Rightarrow> (None, h)
     | Some (ctx, h) \<Rightarrow>
         (case InitSha lib alg junk of (rc, s) \<Rightarrow>
            let h = store ctx (ShaCtx alg, s) h
            in if rc \<noteq> 0 then (None, the (dealloc ctx h))
               else (Some ctx, acquire ctx Sha h)))"

definition sha_update :: "'s wc_lib \<Rightarrow> sha_alg \<Rightarrow> nat \<Rightarrow> byte list \<Rightarrow> uint \<Rightarrow> 's cheap \<Rightarrow> (wc_rc \<times> 's cheap) option" where
  "sha_update lib alg ctx data len h = do {
     s \<leftarrow> deref (ShaCtx alg) ctx h;
     let (rc, s') = ShaUpdate lib alg s data len;
     Some (Rc rc, store ctx (ShaCtx alg, s') h) }"

text \<open>The result is the return code with the bytes that wolfSSL writes to the buffer of the caller.\<close>

definition sha_final :: "'s wc_lib \<Rightarrow> sha_alg \<Rightarrow> nat \<Rightarrow> 's cheap \<Rightarrow> ((wc_rc \<times> byte list) \<times> 's cheap) option" where
  "sha_final lib alg ctx h = do {
     s \<leftarrow> deref (ShaCtx alg) ctx h;
     let (rc, d, s') = ShaFinal lib alg s;
     Some ((Rc rc, d), store ctx (ShaCtx alg, s') h) }"

definition sha_free :: "'s wc_lib \<Rightarrow> sha_alg \<Rightarrow> nat \<Rightarrow> 's cheap \<Rightarrow> 's cheap option" where
  "sha_free lib alg ctx h = do {
     s \<leftarrow> deref (ShaCtx alg) ctx h;
     dealloc ctx (release ctx Sha (store ctx (ShaCtx alg, ShaFree lib alg s) h)) }"

text \<open>\<open>*dst_out\<close> is part of the result: the new address, or \<open>None\<close> when it is not written.\<close>

definition sha_copy :: "'s wc_lib \<Rightarrow> 's \<Rightarrow> sha_alg \<Rightarrow> nat \<Rightarrow> 's cheap \<Rightarrow> ((wc_rc \<times> nat option) \<times> 's cheap) option" where
  "sha_copy lib junk alg src h =
    (case malloc (ShaCtx alg, junk) h of
       None \<Rightarrow> Some ((MEMORY_E, None), h)
     | Some (dst, h) \<Rightarrow> do {
         s \<leftarrow> deref (ShaCtx alg) src h;
         let (rc, d) = ShaCopy lib alg s junk;
         let h = store dst (ShaCtx alg, d) h;
         if rc \<noteq> 0 then do { h \<leftarrow> dealloc dst h; Some ((Rc rc, None), h) }
         else Some ((Rc 0, Some dst), acquire dst Sha h) })"

definition sha_reset :: "'s wc_lib \<Rightarrow> sha_alg \<Rightarrow> nat \<Rightarrow> 's cheap \<Rightarrow> (wc_rc \<times> 's cheap) option" where
  "sha_reset lib alg ctx h = do {
     s \<leftarrow> deref (ShaCtx alg) ctx h;
     let (rc, s') = InitSha lib alg (ShaFree lib alg s);
     let h = release ctx Sha (store ctx (ShaCtx alg, s') h);
     Some (Rc rc, if rc = 0 then acquire ctx Sha h else h) }"

text \<open>The shims of the nine hashes.\<close>

definition wolfcrypt_sha256_ctx_new :: "'s wc_lib \<Rightarrow> 's \<Rightarrow> 's cheap \<Rightarrow> nat option \<times> 's cheap" where
  "wolfcrypt_sha256_ctx_new lib junk = sha_ctx_new lib junk SHA256"

definition wolfcrypt_sha256_update :: "'s wc_lib \<Rightarrow> nat \<Rightarrow> byte list \<Rightarrow> uint \<Rightarrow> 's cheap \<Rightarrow> (wc_rc \<times> 's cheap) option" where
  "wolfcrypt_sha256_update lib = sha_update lib SHA256"

definition wolfcrypt_sha256_final :: "'s wc_lib \<Rightarrow> nat \<Rightarrow> 's cheap \<Rightarrow> ((wc_rc \<times> byte list) \<times> 's cheap) option" where
  "wolfcrypt_sha256_final lib = sha_final lib SHA256"

definition wolfcrypt_sha256_free :: "'s wc_lib \<Rightarrow> nat \<Rightarrow> 's cheap \<Rightarrow> 's cheap option" where
  "wolfcrypt_sha256_free lib = sha_free lib SHA256"

definition wolfcrypt_sha256_copy :: "'s wc_lib \<Rightarrow> 's \<Rightarrow> nat \<Rightarrow> 's cheap \<Rightarrow> ((wc_rc \<times> nat option) \<times> 's cheap) option" where
  "wolfcrypt_sha256_copy lib junk = sha_copy lib junk SHA256"

definition wolfcrypt_sha256_reset :: "'s wc_lib \<Rightarrow> nat \<Rightarrow> 's cheap \<Rightarrow> (wc_rc \<times> 's cheap) option" where
  "wolfcrypt_sha256_reset lib = sha_reset lib SHA256"

definition wolfcrypt_sha384_ctx_new :: "'s wc_lib \<Rightarrow> 's \<Rightarrow> 's cheap \<Rightarrow> nat option \<times> 's cheap" where
  "wolfcrypt_sha384_ctx_new lib junk = sha_ctx_new lib junk SHA384"

definition wolfcrypt_sha384_update :: "'s wc_lib \<Rightarrow> nat \<Rightarrow> byte list \<Rightarrow> uint \<Rightarrow> 's cheap \<Rightarrow> (wc_rc \<times> 's cheap) option" where
  "wolfcrypt_sha384_update lib = sha_update lib SHA384"

definition wolfcrypt_sha384_final :: "'s wc_lib \<Rightarrow> nat \<Rightarrow> 's cheap \<Rightarrow> ((wc_rc \<times> byte list) \<times> 's cheap) option" where
  "wolfcrypt_sha384_final lib = sha_final lib SHA384"

definition wolfcrypt_sha384_free :: "'s wc_lib \<Rightarrow> nat \<Rightarrow> 's cheap \<Rightarrow> 's cheap option" where
  "wolfcrypt_sha384_free lib = sha_free lib SHA384"

definition wolfcrypt_sha384_copy :: "'s wc_lib \<Rightarrow> 's \<Rightarrow> nat \<Rightarrow> 's cheap \<Rightarrow> ((wc_rc \<times> nat option) \<times> 's cheap) option" where
  "wolfcrypt_sha384_copy lib junk = sha_copy lib junk SHA384"

definition wolfcrypt_sha384_reset :: "'s wc_lib \<Rightarrow> nat \<Rightarrow> 's cheap \<Rightarrow> (wc_rc \<times> 's cheap) option" where
  "wolfcrypt_sha384_reset lib = sha_reset lib SHA384"

definition wolfcrypt_sha1_ctx_new :: "'s wc_lib \<Rightarrow> 's \<Rightarrow> 's cheap \<Rightarrow> nat option \<times> 's cheap" where
  "wolfcrypt_sha1_ctx_new lib junk = sha_ctx_new lib junk SHA1"

definition wolfcrypt_sha1_update :: "'s wc_lib \<Rightarrow> nat \<Rightarrow> byte list \<Rightarrow> uint \<Rightarrow> 's cheap \<Rightarrow> (wc_rc \<times> 's cheap) option" where
  "wolfcrypt_sha1_update lib = sha_update lib SHA1"

definition wolfcrypt_sha1_final :: "'s wc_lib \<Rightarrow> nat \<Rightarrow> 's cheap \<Rightarrow> ((wc_rc \<times> byte list) \<times> 's cheap) option" where
  "wolfcrypt_sha1_final lib = sha_final lib SHA1"

definition wolfcrypt_sha1_free :: "'s wc_lib \<Rightarrow> nat \<Rightarrow> 's cheap \<Rightarrow> 's cheap option" where
  "wolfcrypt_sha1_free lib = sha_free lib SHA1"

definition wolfcrypt_sha1_copy :: "'s wc_lib \<Rightarrow> 's \<Rightarrow> nat \<Rightarrow> 's cheap \<Rightarrow> ((wc_rc \<times> nat option) \<times> 's cheap) option" where
  "wolfcrypt_sha1_copy lib junk = sha_copy lib junk SHA1"

definition wolfcrypt_sha1_reset :: "'s wc_lib \<Rightarrow> nat \<Rightarrow> 's cheap \<Rightarrow> (wc_rc \<times> 's cheap) option" where
  "wolfcrypt_sha1_reset lib = sha_reset lib SHA1"

definition wolfcrypt_sha224_ctx_new :: "'s wc_lib \<Rightarrow> 's \<Rightarrow> 's cheap \<Rightarrow> nat option \<times> 's cheap" where
  "wolfcrypt_sha224_ctx_new lib junk = sha_ctx_new lib junk SHA224"

definition wolfcrypt_sha224_update :: "'s wc_lib \<Rightarrow> nat \<Rightarrow> byte list \<Rightarrow> uint \<Rightarrow> 's cheap \<Rightarrow> (wc_rc \<times> 's cheap) option" where
  "wolfcrypt_sha224_update lib = sha_update lib SHA224"

definition wolfcrypt_sha224_final :: "'s wc_lib \<Rightarrow> nat \<Rightarrow> 's cheap \<Rightarrow> ((wc_rc \<times> byte list) \<times> 's cheap) option" where
  "wolfcrypt_sha224_final lib = sha_final lib SHA224"

definition wolfcrypt_sha224_free :: "'s wc_lib \<Rightarrow> nat \<Rightarrow> 's cheap \<Rightarrow> 's cheap option" where
  "wolfcrypt_sha224_free lib = sha_free lib SHA224"

definition wolfcrypt_sha224_copy :: "'s wc_lib \<Rightarrow> 's \<Rightarrow> nat \<Rightarrow> 's cheap \<Rightarrow> ((wc_rc \<times> nat option) \<times> 's cheap) option" where
  "wolfcrypt_sha224_copy lib junk = sha_copy lib junk SHA224"

definition wolfcrypt_sha224_reset :: "'s wc_lib \<Rightarrow> nat \<Rightarrow> 's cheap \<Rightarrow> (wc_rc \<times> 's cheap) option" where
  "wolfcrypt_sha224_reset lib = sha_reset lib SHA224"

definition wolfcrypt_sha512_ctx_new :: "'s wc_lib \<Rightarrow> 's \<Rightarrow> 's cheap \<Rightarrow> nat option \<times> 's cheap" where
  "wolfcrypt_sha512_ctx_new lib junk = sha_ctx_new lib junk SHA512"

definition wolfcrypt_sha512_update :: "'s wc_lib \<Rightarrow> nat \<Rightarrow> byte list \<Rightarrow> uint \<Rightarrow> 's cheap \<Rightarrow> (wc_rc \<times> 's cheap) option" where
  "wolfcrypt_sha512_update lib = sha_update lib SHA512"

definition wolfcrypt_sha512_final :: "'s wc_lib \<Rightarrow> nat \<Rightarrow> 's cheap \<Rightarrow> ((wc_rc \<times> byte list) \<times> 's cheap) option" where
  "wolfcrypt_sha512_final lib = sha_final lib SHA512"

definition wolfcrypt_sha512_free :: "'s wc_lib \<Rightarrow> nat \<Rightarrow> 's cheap \<Rightarrow> 's cheap option" where
  "wolfcrypt_sha512_free lib = sha_free lib SHA512"

definition wolfcrypt_sha512_copy :: "'s wc_lib \<Rightarrow> 's \<Rightarrow> nat \<Rightarrow> 's cheap \<Rightarrow> ((wc_rc \<times> nat option) \<times> 's cheap) option" where
  "wolfcrypt_sha512_copy lib junk = sha_copy lib junk SHA512"

definition wolfcrypt_sha512_reset :: "'s wc_lib \<Rightarrow> nat \<Rightarrow> 's cheap \<Rightarrow> (wc_rc \<times> 's cheap) option" where
  "wolfcrypt_sha512_reset lib = sha_reset lib SHA512"

definition wolfcrypt_sha512_256_ctx_new :: "'s wc_lib \<Rightarrow> 's \<Rightarrow> 's cheap \<Rightarrow> nat option \<times> 's cheap" where
  "wolfcrypt_sha512_256_ctx_new lib junk = sha_ctx_new lib junk SHA512_256"

definition wolfcrypt_sha512_256_update :: "'s wc_lib \<Rightarrow> nat \<Rightarrow> byte list \<Rightarrow> uint \<Rightarrow> 's cheap \<Rightarrow> (wc_rc \<times> 's cheap) option" where
  "wolfcrypt_sha512_256_update lib = sha_update lib SHA512_256"

definition wolfcrypt_sha512_256_final :: "'s wc_lib \<Rightarrow> nat \<Rightarrow> 's cheap \<Rightarrow> ((wc_rc \<times> byte list) \<times> 's cheap) option" where
  "wolfcrypt_sha512_256_final lib = sha_final lib SHA512_256"

definition wolfcrypt_sha512_256_free :: "'s wc_lib \<Rightarrow> nat \<Rightarrow> 's cheap \<Rightarrow> 's cheap option" where
  "wolfcrypt_sha512_256_free lib = sha_free lib SHA512_256"

definition wolfcrypt_sha512_256_copy :: "'s wc_lib \<Rightarrow> 's \<Rightarrow> nat \<Rightarrow> 's cheap \<Rightarrow> ((wc_rc \<times> nat option) \<times> 's cheap) option" where
  "wolfcrypt_sha512_256_copy lib junk = sha_copy lib junk SHA512_256"

definition wolfcrypt_sha512_256_reset :: "'s wc_lib \<Rightarrow> nat \<Rightarrow> 's cheap \<Rightarrow> (wc_rc \<times> 's cheap) option" where
  "wolfcrypt_sha512_256_reset lib = sha_reset lib SHA512_256"

definition wolfcrypt_sha3_256_ctx_new :: "'s wc_lib \<Rightarrow> 's \<Rightarrow> 's cheap \<Rightarrow> nat option \<times> 's cheap" where
  "wolfcrypt_sha3_256_ctx_new lib junk = sha_ctx_new lib junk SHA3_256"

definition wolfcrypt_sha3_256_update :: "'s wc_lib \<Rightarrow> nat \<Rightarrow> byte list \<Rightarrow> uint \<Rightarrow> 's cheap \<Rightarrow> (wc_rc \<times> 's cheap) option" where
  "wolfcrypt_sha3_256_update lib = sha_update lib SHA3_256"

definition wolfcrypt_sha3_256_final :: "'s wc_lib \<Rightarrow> nat \<Rightarrow> 's cheap \<Rightarrow> ((wc_rc \<times> byte list) \<times> 's cheap) option" where
  "wolfcrypt_sha3_256_final lib = sha_final lib SHA3_256"

definition wolfcrypt_sha3_256_free :: "'s wc_lib \<Rightarrow> nat \<Rightarrow> 's cheap \<Rightarrow> 's cheap option" where
  "wolfcrypt_sha3_256_free lib = sha_free lib SHA3_256"

definition wolfcrypt_sha3_256_copy :: "'s wc_lib \<Rightarrow> 's \<Rightarrow> nat \<Rightarrow> 's cheap \<Rightarrow> ((wc_rc \<times> nat option) \<times> 's cheap) option" where
  "wolfcrypt_sha3_256_copy lib junk = sha_copy lib junk SHA3_256"

definition wolfcrypt_sha3_256_reset :: "'s wc_lib \<Rightarrow> nat \<Rightarrow> 's cheap \<Rightarrow> (wc_rc \<times> 's cheap) option" where
  "wolfcrypt_sha3_256_reset lib = sha_reset lib SHA3_256"

definition wolfcrypt_sha3_384_ctx_new :: "'s wc_lib \<Rightarrow> 's \<Rightarrow> 's cheap \<Rightarrow> nat option \<times> 's cheap" where
  "wolfcrypt_sha3_384_ctx_new lib junk = sha_ctx_new lib junk SHA3_384"

definition wolfcrypt_sha3_384_update :: "'s wc_lib \<Rightarrow> nat \<Rightarrow> byte list \<Rightarrow> uint \<Rightarrow> 's cheap \<Rightarrow> (wc_rc \<times> 's cheap) option" where
  "wolfcrypt_sha3_384_update lib = sha_update lib SHA3_384"

definition wolfcrypt_sha3_384_final :: "'s wc_lib \<Rightarrow> nat \<Rightarrow> 's cheap \<Rightarrow> ((wc_rc \<times> byte list) \<times> 's cheap) option" where
  "wolfcrypt_sha3_384_final lib = sha_final lib SHA3_384"

definition wolfcrypt_sha3_384_free :: "'s wc_lib \<Rightarrow> nat \<Rightarrow> 's cheap \<Rightarrow> 's cheap option" where
  "wolfcrypt_sha3_384_free lib = sha_free lib SHA3_384"

definition wolfcrypt_sha3_384_copy :: "'s wc_lib \<Rightarrow> 's \<Rightarrow> nat \<Rightarrow> 's cheap \<Rightarrow> ((wc_rc \<times> nat option) \<times> 's cheap) option" where
  "wolfcrypt_sha3_384_copy lib junk = sha_copy lib junk SHA3_384"

definition wolfcrypt_sha3_384_reset :: "'s wc_lib \<Rightarrow> nat \<Rightarrow> 's cheap \<Rightarrow> (wc_rc \<times> 's cheap) option" where
  "wolfcrypt_sha3_384_reset lib = sha_reset lib SHA3_384"

definition wolfcrypt_sha3_512_ctx_new :: "'s wc_lib \<Rightarrow> 's \<Rightarrow> 's cheap \<Rightarrow> nat option \<times> 's cheap" where
  "wolfcrypt_sha3_512_ctx_new lib junk = sha_ctx_new lib junk SHA3_512"

definition wolfcrypt_sha3_512_update :: "'s wc_lib \<Rightarrow> nat \<Rightarrow> byte list \<Rightarrow> uint \<Rightarrow> 's cheap \<Rightarrow> (wc_rc \<times> 's cheap) option" where
  "wolfcrypt_sha3_512_update lib = sha_update lib SHA3_512"

definition wolfcrypt_sha3_512_final :: "'s wc_lib \<Rightarrow> nat \<Rightarrow> 's cheap \<Rightarrow> ((wc_rc \<times> byte list) \<times> 's cheap) option" where
  "wolfcrypt_sha3_512_final lib = sha_final lib SHA3_512"

definition wolfcrypt_sha3_512_free :: "'s wc_lib \<Rightarrow> nat \<Rightarrow> 's cheap \<Rightarrow> 's cheap option" where
  "wolfcrypt_sha3_512_free lib = sha_free lib SHA3_512"

definition wolfcrypt_sha3_512_copy :: "'s wc_lib \<Rightarrow> 's \<Rightarrow> nat \<Rightarrow> 's cheap \<Rightarrow> ((wc_rc \<times> nat option) \<times> 's cheap) option" where
  "wolfcrypt_sha3_512_copy lib junk = sha_copy lib junk SHA3_512"

definition wolfcrypt_sha3_512_reset :: "'s wc_lib \<Rightarrow> nat \<Rightarrow> 's cheap \<Rightarrow> (wc_rc \<times> 's cheap) option" where
  "wolfcrypt_sha3_512_reset lib = sha_reset lib SHA3_512"

section \<open>HMAC contexts\<close>

definition wolfcrypt_hmac_new_impl ::
    "'s wc_lib \<Rightarrow> 's \<Rightarrow> hmac_type \<Rightarrow> byte list \<Rightarrow> uint \<Rightarrow> 's cheap \<Rightarrow> nat option \<times> 's cheap" where
  "wolfcrypt_hmac_new_impl lib junk type key keylen h =
    (case malloc (HmacCtx, junk) h of
       None \<Rightarrow> (None, h)
     | Some (ctx, h) \<Rightarrow>
         (case HmacInit lib junk of (rc, s) \<Rightarrow>
            let h = store ctx (HmacCtx, s) h
            in if rc \<noteq> 0 then (None, the (dealloc ctx h))
               else let h = acquire ctx Hmac h
               in (case HmacSetKey lib s type key keylen of (rc, s) \<Rightarrow>
                  let h = store ctx (HmacCtx, s) h
                  in if rc \<noteq> 0 then (None, the (dealloc ctx (release ctx Hmac h)))
                     else (Some ctx, h))))"

definition wolfcrypt_hmac_sha1_new :: "'s wc_lib \<Rightarrow> 's \<Rightarrow> byte list \<Rightarrow> uint \<Rightarrow> 's cheap \<Rightarrow> nat option \<times> 's cheap" where
  "wolfcrypt_hmac_sha1_new lib junk = wolfcrypt_hmac_new_impl lib junk WC_SHA"

definition wolfcrypt_hmac_sha256_new :: "'s wc_lib \<Rightarrow> 's \<Rightarrow> byte list \<Rightarrow> uint \<Rightarrow> 's cheap \<Rightarrow> nat option \<times> 's cheap" where
  "wolfcrypt_hmac_sha256_new lib junk = wolfcrypt_hmac_new_impl lib junk WC_SHA256"

definition wolfcrypt_hmac_sha384_new :: "'s wc_lib \<Rightarrow> 's \<Rightarrow> byte list \<Rightarrow> uint \<Rightarrow> 's cheap \<Rightarrow> nat option \<times> 's cheap" where
  "wolfcrypt_hmac_sha384_new lib junk = wolfcrypt_hmac_new_impl lib junk WC_SHA384"

definition wolfcrypt_hmac_sha512_new :: "'s wc_lib \<Rightarrow> 's \<Rightarrow> byte list \<Rightarrow> uint \<Rightarrow> 's cheap \<Rightarrow> nat option \<times> 's cheap" where
  "wolfcrypt_hmac_sha512_new lib junk = wolfcrypt_hmac_new_impl lib junk WC_SHA512"

definition wolfcrypt_hmac_update :: "'s wc_lib \<Rightarrow> nat \<Rightarrow> byte list \<Rightarrow> uint \<Rightarrow> 's cheap \<Rightarrow> (wc_rc \<times> 's cheap) option" where
  "wolfcrypt_hmac_update lib ctx data len h = do {
     s \<leftarrow> deref HmacCtx ctx h;
     let (rc, s') = HmacUpdate lib s data len;
     Some (Rc rc, store ctx (HmacCtx, s') h) }"

definition wolfcrypt_hmac_final :: "'s wc_lib \<Rightarrow> nat \<Rightarrow> 's cheap \<Rightarrow> ((wc_rc \<times> byte list) \<times> 's cheap) option" where
  "wolfcrypt_hmac_final lib ctx h = do {
     s \<leftarrow> deref HmacCtx ctx h;
     let (rc, d, s') = HmacFinal lib s;
     Some ((Rc rc, d), store ctx (HmacCtx, s') h) }"

definition wolfcrypt_hmac_free :: "'s wc_lib \<Rightarrow> nat \<Rightarrow> 's cheap \<Rightarrow> 's cheap option" where
  "wolfcrypt_hmac_free lib ctx h = do {
     s \<leftarrow> deref HmacCtx ctx h;
     dealloc ctx (release ctx Hmac h) }"

section \<open>CMAC contexts\<close>

definition wolfcrypt_cmac_new_impl :: "'s wc_lib \<Rightarrow> 's \<Rightarrow> byte list \<Rightarrow> uint \<Rightarrow> 's cheap \<Rightarrow> nat option \<times> 's cheap" where
  "wolfcrypt_cmac_new_impl lib junk key key_sz h =
    (case malloc (CmacCtx, junk) h of
       None \<Rightarrow> (None, h)
     | Some (ctx, h) \<Rightarrow>
         (case InitCmac lib junk key key_sz of (rc, s) \<Rightarrow>
            let h = store ctx (CmacCtx, s) h
            in if rc \<noteq> 0 then (None, the (dealloc ctx h)) else (Some ctx, acquire ctx Cmac h)))"

definition wolfcrypt_cmac_aes128_new :: "'s wc_lib \<Rightarrow> 's \<Rightarrow> byte list \<Rightarrow> 's cheap \<Rightarrow> nat option \<times> 's cheap" where
  "wolfcrypt_cmac_aes128_new lib junk key = wolfcrypt_cmac_new_impl lib junk key 16"

definition wolfcrypt_cmac_aes256_new :: "'s wc_lib \<Rightarrow> 's \<Rightarrow> byte list \<Rightarrow> 's cheap \<Rightarrow> nat option \<times> 's cheap" where
  "wolfcrypt_cmac_aes256_new lib junk key = wolfcrypt_cmac_new_impl lib junk key 32"

definition wolfcrypt_cmac_update :: "'s wc_lib \<Rightarrow> nat \<Rightarrow> byte list \<Rightarrow> uint \<Rightarrow> 's cheap \<Rightarrow> (wc_rc \<times> 's cheap) option" where
  "wolfcrypt_cmac_update lib ctx data len h = do {
     s \<leftarrow> deref CmacCtx ctx h;
     let (rc, s') = CmacUpdate lib s data len;
     Some (Rc rc, store ctx (CmacCtx, s') h) }"

text \<open>The result has the return code, the bytes written and the new \<open>*out_len\<close>.\<close>

definition wolfcrypt_cmac_final :: "'s wc_lib \<Rightarrow> nat \<Rightarrow> uint \<Rightarrow> 's cheap \<Rightarrow> ((wc_rc \<times> byte list \<times> uint) \<times> 's cheap) option" where
  "wolfcrypt_cmac_final lib ctx out_len h = do {
     s \<leftarrow> deref CmacCtx ctx h;
     let (rc, d, sz, s') = CmacFinal lib s out_len;
     let h = store ctx (CmacCtx, s') h;
     Some ((Rc rc, d, sz), if CmacFinalFrees lib then release ctx Cmac h else h) }"

definition wolfcrypt_cmac_free :: "nat \<Rightarrow> 's cheap \<Rightarrow> 's cheap option" where
  "wolfcrypt_cmac_free ctx h = do { s \<leftarrow> deref CmacCtx ctx h; dealloc ctx h }"

section \<open>3DES contexts\<close>

text \<open>\<^verbatim>\<open>wolfcrypt_des3_enc_new\<close> and \<^verbatim>\<open>wolfcrypt_des3_dec_new\<close> differ in the direction.\<close>

definition des3_new ::
    "'s wc_lib \<Rightarrow> 's \<Rightarrow> des_dir \<Rightarrow> byte list \<Rightarrow> byte list \<Rightarrow> 's cheap \<Rightarrow> nat option \<times> 's cheap" where
  "des3_new lib junk dir key iv h =
    (case malloc (Des3Ctx, junk) h of
       None \<Rightarrow> (None, h)
     | Some (ctx, h) \<Rightarrow>
         (case Des3Init lib junk of (rc, s) \<Rightarrow>
            let h = store ctx (Des3Ctx, s) h
            in if rc \<noteq> 0 then (None, the (dealloc ctx h))
               else let h = acquire ctx Des3 h
               in (case Des3_SetKey lib s key iv dir of (rc, s) \<Rightarrow>
                  let h = store ctx (Des3Ctx, s) h
                  in if rc \<noteq> 0 then (None, the (dealloc ctx (release ctx Des3 h)))
                     else (Some ctx, h))))"

definition wolfcrypt_des3_enc_new :: "'s wc_lib \<Rightarrow> 's \<Rightarrow> byte list \<Rightarrow> byte list \<Rightarrow> 's cheap \<Rightarrow> nat option \<times> 's cheap" where
  "wolfcrypt_des3_enc_new lib junk = des3_new lib junk DES_ENCRYPTION"

definition wolfcrypt_des3_dec_new :: "'s wc_lib \<Rightarrow> 's \<Rightarrow> byte list \<Rightarrow> byte list \<Rightarrow> 's cheap \<Rightarrow> nat option \<times> 's cheap" where
  "wolfcrypt_des3_dec_new lib junk = des3_new lib junk DES_DECRYPTION"

definition wolfcrypt_des3_cbc_encrypt :: "'s wc_lib \<Rightarrow> nat \<Rightarrow> byte list \<Rightarrow> uint \<Rightarrow> 's cheap \<Rightarrow> ((wc_rc \<times> byte list) \<times> 's cheap) option" where
  "wolfcrypt_des3_cbc_encrypt lib ctx inp sz h = do {
     s \<leftarrow> deref Des3Ctx ctx h;
     let (rc, d, s') = Des3_CbcEncrypt lib s inp sz;
     Some ((Rc rc, d), store ctx (Des3Ctx, s') h) }"

definition wolfcrypt_des3_cbc_decrypt :: "'s wc_lib \<Rightarrow> nat \<Rightarrow> byte list \<Rightarrow> uint \<Rightarrow> 's cheap \<Rightarrow> ((wc_rc \<times> byte list) \<times> 's cheap) option" where
  "wolfcrypt_des3_cbc_decrypt lib ctx inp sz h = do {
     s \<leftarrow> deref Des3Ctx ctx h;
     let (rc, d, s') = Des3_CbcDecrypt lib s inp sz;
     Some ((Rc rc, d), store ctx (Des3Ctx, s') h) }"

definition wolfcrypt_des3_free :: "'s wc_lib \<Rightarrow> nat \<Rightarrow> 's cheap \<Rightarrow> 's cheap option" where
  "wolfcrypt_des3_free lib ctx h = do {
     s \<leftarrow> deref Des3Ctx ctx h;
     dealloc ctx (release ctx Des3 h) }"

section \<open>The context types satisfy the contract\<close>

text \<open>A live context of one kind holds exactly its wolfSSL object.\<close>

abbreviation is_ctx :: "ctx_kind \<Rightarrow> ctx_kind \<times> 's \<Rightarrow> bool" where
  "is_ctx k x \<equiv> fst x = k"

abbreviation owns_ctx :: "ctx_kind \<Rightarrow> 's cheap \<Rightarrow> nat \<Rightarrow> bool" where
  "owns_ctx k \<equiv> owned (is_ctx k) [res_of k]"

datatype sha_call = ShaUpdateCall "byte list" uint | ShaFinalCall | ShaResetCall

datatype mac_call = MacUpdateCall "byte list" uint | MacFinalCall uint

datatype des_call = DesEncryptCall "byte list" uint | DesDecryptCall "byte list" uint

definition fin :: "('r \<times> 'h) option \<Rightarrow> (unit \<times> 'h) option" where
  "fin x = (case x of None \<Rightarrow> None | Some (r, h) \<Rightarrow> Some ((), h))"

definition sha_act :: "'s wc_lib \<Rightarrow> sha_alg \<Rightarrow> sha_call \<Rightarrow> nat \<Rightarrow> 's cheap \<Rightarrow> (unit \<times> 's cheap) option" where
  "sha_act lib alg x a h =
    (case x of
       ShaUpdateCall d n \<Rightarrow> fin (sha_update lib alg a d n h)
     | ShaFinalCall \<Rightarrow> fin (sha_final lib alg a h)
     | ShaResetCall \<Rightarrow> fin (sha_reset lib alg a h))"

definition hmac_act :: "'s wc_lib \<Rightarrow> mac_call \<Rightarrow> nat \<Rightarrow> 's cheap \<Rightarrow> (unit \<times> 's cheap) option" where
  "hmac_act lib x a h =
    (case x of
       MacUpdateCall d n \<Rightarrow> fin (wolfcrypt_hmac_update lib a d n h)
     | MacFinalCall n \<Rightarrow> fin (wolfcrypt_hmac_final lib a h))"

definition cmac_act :: "'s wc_lib \<Rightarrow> mac_call \<Rightarrow> nat \<Rightarrow> 's cheap \<Rightarrow> (unit \<times> 's cheap) option" where
  "cmac_act lib x a h =
    (case x of
       MacUpdateCall d n \<Rightarrow> fin (wolfcrypt_cmac_update lib a d n h)
     | MacFinalCall n \<Rightarrow> fin (wolfcrypt_cmac_final lib a n h))"

definition des3_act :: "'s wc_lib \<Rightarrow> des_call \<Rightarrow> nat \<Rightarrow> 's cheap \<Rightarrow> (unit \<times> 's cheap) option" where
  "des3_act lib x a h =
    (case x of
       DesEncryptCall d n \<Rightarrow> fin (wolfcrypt_des3_cbc_encrypt lib a d n h)
     | DesDecryptCall d n \<Rightarrow> fin (wolfcrypt_des3_cbc_decrypt lib a d n h))"

text \<open>
  The calls that the contract covers: a reset only when wolfSSL's initialisation does not fail, since the shim
  frees the hash object before it; of CMAC the updates, since \<^verbatim>\<open>wc_CmacFinal\<close> may end the object's life.
\<close>

definition sha_ok :: "'s wc_lib \<Rightarrow> sha_alg \<Rightarrow> sha_call \<Rightarrow> bool" where
  "sha_ok lib alg x \<longleftrightarrow> (x = ShaResetCall \<longrightarrow> (\<forall>s. fst (InitSha lib alg s) = 0))"

definition is_update :: "mac_call \<Rightarrow> bool" where
  "is_update x \<longleftrightarrow> (\<exists>d n. x = MacUpdateCall d n)"

text \<open>The two ways in which a CMAC context ends: \<^verbatim>\<open>wolfcrypt_cmac_free\<close> alone, or after the final call.\<close>

definition cmac_finish :: "'s wc_lib \<Rightarrow> uint \<Rightarrow> nat \<Rightarrow> 's cheap \<Rightarrow> 's cheap option" where
  "cmac_finish lib n a h = do { (_, h) \<leftarrow> wolfcrypt_cmac_final lib a n h; wolfcrypt_cmac_free a h }"

lemmas ctx_act_defs = sha_update_def sha_final_def sha_reset_def wolfcrypt_hmac_update_def wolfcrypt_hmac_final_def
  wolfcrypt_cmac_update_def wolfcrypt_cmac_final_def wolfcrypt_des3_cbc_encrypt_def wolfcrypt_des3_cbc_decrypt_def
  sha_act_def hmac_act_def cmac_act_def des3_act_def

lemmas ctx_free_defs = sha_free_def wolfcrypt_hmac_free_def wolfcrypt_cmac_free_def wolfcrypt_des3_free_def cmac_finish_def

lemma deref_owned: "owned (is_ctx k) rs h a \<Longrightarrow> \<exists>s. cells h a = Some (k, s) \<and> deref k a h = Some s"
  by (auto simp: owned_def deref_def)

lemma deref_dead: "cells h a = None \<Longrightarrow> deref k a h = None"
  by (simp add: deref_def)

lemma deref_store [heap_simps]: "deref k a (store a (k, s) h) = Some s" "deref k a (release b r h) = deref k a h"
  by (simp_all add: deref_def heap_simps)

text \<open>A call that replaces the contents of the context satisfies the contract.\<close>

lemma store_act:
  assumes "heap_ok h" "owns_ctx k h a" "act = Some (r, store a (k, s) h)" "act = Some (r', h')"
  shows "holding (is_ctx k) [res_of k] a h h'"
  using holding_store [OF holding_self [OF assms(1,2)], of "(k, s)"] assms(3,4) by simp

lemma sha_act_contract:
  assumes "heap_ok h" "owns_ctx (ShaCtx alg) h a" "sha_ok lib alg x" "sha_act lib alg x a h = Some (r, h')"
  shows "holding (is_ctx (ShaCtx alg)) [res_of (ShaCtx alg)] a h h'"
proof (cases "x = ShaResetCall")
  case True
  obtain s where s: "deref (ShaCtx alg) a h = Some s" using deref_owned [OF assms(2)] by blast
  obtain s' where i: "InitSha lib alg (ShaFree lib alg s) = (0, s')"
    using assms(3) True by (metis sha_ok_def prod.collapse)
  have "holding (is_ctx (ShaCtx alg)) [res_of (ShaCtx alg)] a h (store a (ShaCtx alg, s') h)"
    by (rule holding_store [OF holding_self [OF assms(1,2)]]) simp
  from holding_acquire [OF holding_release [OF this, of Sha], of Sha]
  have "holding (is_ctx (ShaCtx alg)) [Sha] a h (acquire a Sha (release a Sha (store a (ShaCtx alg, s') h)))"
    by (simp add: res_of_def)
  then show ?thesis using assms(4) by (simp add: True ctx_act_defs s i fin_def res_of_def)
next
  case False
  obtain s where s: "deref (ShaCtx alg) a h = Some s" using deref_owned [OF assms(2)] by blast
  show ?thesis
    using assms(4) False
    by (cases x) (auto simp: ctx_act_defs s fin_def split: prod.splits intro!: holding_store holding_self assms(1,2))
qed

text \<open>A constructor that allocates, initialises and acquires.\<close>

definition init_new :: "ctx_kind \<Rightarrow> ('s \<Rightarrow> int \<times> 's) \<Rightarrow> 's \<Rightarrow> 's cheap \<Rightarrow> nat option \<times> 's cheap" where
  "init_new k init junk h =
    (case malloc (k, junk) h of
       None \<Rightarrow> (None, h)
     | Some (ctx, h) \<Rightarrow>
         (case init junk of (rc, s) \<Rightarrow>
            let h = store ctx (k, s) h
            in if rc \<noteq> 0 then (None, the (dealloc ctx h)) else (Some ctx, acquire ctx (res_of k) h)))"

text \<open>The HMAC and 3DES constructors initialise the structure and then set the key.\<close>

definition keyed_new :: "ctx_kind \<Rightarrow> ('s \<Rightarrow> int \<times> 's) \<Rightarrow> ('s \<Rightarrow> int \<times> 's) \<Rightarrow> 's \<Rightarrow> 's cheap \<Rightarrow> nat option \<times> 's cheap" where
  "keyed_new k init set_key junk h =
    (case malloc (k, junk) h of
       None \<Rightarrow> (None, h)
     | Some (ctx, h) \<Rightarrow>
         (case init junk of (rc, s) \<Rightarrow>
            let h = store ctx (k, s) h
            in if rc \<noteq> 0 then (None, the (dealloc ctx h))
               else let h = acquire ctx (res_of k) h
               in (case set_key s of (rc, s) \<Rightarrow>
                  let h = store ctx (k, s) h
                  in if rc \<noteq> 0 then (None, the (dealloc ctx (release ctx (res_of k) h)))
                     else (Some ctx, h))))"

lemma ctx_new_alt:
  "sha_ctx_new lib junk alg = init_new (ShaCtx alg) (InitSha lib alg) junk"
  "wolfcrypt_cmac_new_impl lib junk key n = init_new CmacCtx (\<lambda>s. InitCmac lib s key n) junk"
  "wolfcrypt_hmac_new_impl lib junk ty key n = keyed_new HmacCtx (HmacInit lib) (\<lambda>s. HmacSetKey lib s ty key n) junk"
  "des3_new lib junk dir key iv = keyed_new Des3Ctx (Des3Init lib) (\<lambda>s. Des3_SetKey lib s key iv dir) junk"
  by (rule ext, simp only: sha_ctx_new_def wolfcrypt_cmac_new_impl_def wolfcrypt_hmac_new_impl_def des3_new_def
      init_new_def keyed_new_def res_of_def ctx_kind.case)+

lemma holding_init:
  assumes "heap_ok h" "malloc (k, junk) h = Some (a, h1)"
  shows "holding (is_ctx k) [] a h (store a (k, s) h1)"
  by (rule holding_store [OF holding_malloc [OF assms]]) simp_all

lemma init_new_contract:
  assumes "heap_ok h"
  shows "init_new k init junk h = (None, h') \<Longrightarrow> heap_ok h' \<and> same_heap h h'"
    and "init_new k init junk h = (Some a, h') \<Longrightarrow> fresh a h \<and> holding (is_ctx k) [res_of k] a h h'"
  using assms malloc_fresh(2) [OF assms] holding_init [OF assms] holding_acquire [OF holding_init [OF assms]]
    free_new [OF assms malloc_fresh(2) [OF assms] holding_init [OF assms]]
  by (auto simp: init_new_def Let_def split: option.splits prod.splits if_splits)

lemma keyed_new_contract:
  assumes "heap_ok h"
  shows "keyed_new k init set_key junk h = (None, h') \<Longrightarrow> heap_ok h' \<and> same_heap h h'"
    and "keyed_new k init set_key junk h = (Some a, h') \<Longrightarrow> fresh a h \<and> holding (is_ctx k) [res_of k] a h h'"
proof -
  have keyed: "holding (is_ctx k) [res_of k] b h (store b (k, s2) (acquire b (res_of k) (store b (k, s) h1)))"
    if "malloc (k, junk) h = Some (b, h1)" for b h1 s s2
    by (rule holding_store [OF holding_acquire [OF holding_init [OF assms that]]]) simp
  have rel: "holding (is_ctx k) [] b h (release b (res_of k) (store b (k, s2) (acquire b (res_of k) (store b (k, s) h1))))"
    if "malloc (k, junk) h = Some (b, h1)" for b h1 s s2
    using holding_release [OF keyed [OF that], of "res_of k"] by simp
  note undo = free_new [OF assms malloc_fresh(2) [OF assms]]
  show "heap_ok h' \<and> same_heap h h'" if "keyed_new k init set_key junk h = (None, h')"
    using that assms undo [OF _ holding_init [OF assms]] undo [OF _ rel]
    by (auto simp: keyed_new_def Let_def split: option.splits prod.splits if_splits)
  show "fresh a h \<and> holding (is_ctx k) [res_of k] a h h'" if "keyed_new k init set_key junk h = (Some a, h')"
    using that malloc_fresh(2) [OF assms] keyed
    by (auto simp: keyed_new_def Let_def split: option.splits prod.splits if_splits)
qed

lemma mac_act_contract:
  assumes "heap_ok h"
  shows "owns_ctx HmacCtx h a \<Longrightarrow> hmac_act lib x a h = Some (r, h') \<Longrightarrow> holding (is_ctx HmacCtx) [res_of HmacCtx] a h h'"
    and "owns_ctx CmacCtx h a \<Longrightarrow> is_update x \<Longrightarrow> cmac_act lib x a h = Some (r, h') \<Longrightarrow>
      holding (is_ctx CmacCtx) [res_of CmacCtx] a h h'"
  using deref_owned [of HmacCtx "[res_of HmacCtx]" h a] deref_owned [of CmacCtx "[res_of CmacCtx]" h a]
  by (cases x; auto simp: ctx_act_defs fin_def is_update_def split: prod.splits intro!: holding_store holding_self assms)+

lemma des3_act_contract:
  assumes "heap_ok h" "owns_ctx Des3Ctx h a" "des3_act lib x a h = Some (r, h')"
  shows "holding (is_ctx Des3Ctx) [res_of Des3Ctx] a h h'"
  using assms(3) deref_owned [OF assms(2)]
  by (cases x) (auto simp: ctx_act_defs fin_def split: prod.splits intro!: holding_store holding_self assms(1,2))

lemma act_defined:
  shows "owned (is_ctx (ShaCtx alg)) rs h a \<Longrightarrow> sha_act lib alg x a h \<noteq> None"
    and "owned (is_ctx HmacCtx) rs h a \<Longrightarrow> hmac_act lib y a h \<noteq> None"
    and "owned (is_ctx CmacCtx) rs h a \<Longrightarrow> cmac_act lib y a h \<noteq> None"
    and "owned (is_ctx Des3Ctx) rs h a \<Longrightarrow> des3_act lib z a h \<noteq> None"
  by (auto dest!: deref_owned simp: ctx_act_defs fin_def Let_def split: sha_call.splits mac_call.splits des_call.splits prod.splits)

lemma act_dead:
  assumes "cells h a = None"
  shows "sha_act lib alg x a h = None" "hmac_act lib y a h = None" "cmac_act lib y a h = None" "des3_act lib z a h = None"
    "sha_free lib alg a h = None" "wolfcrypt_hmac_free lib a h = None" "wolfcrypt_cmac_free a h = None"
    "cmac_finish lib n a h = None" "wolfcrypt_des3_free lib a h = None"
  by (simp_all add: ctx_act_defs ctx_free_defs fin_def deref_dead [OF assms] split: sha_call.splits mac_call.splits des_call.splits)

text \<open>Releasing the object of a context and freeing the memory.\<close>

lemma release_dealloc:
  assumes "holding (is_ctx k) [res_of k] a h0 h"
  shows "\<exists>h'. dealloc a (release a (res_of k) h) = Some h' \<and> gone [] a h0 h'"
  using holding_dealloc [OF holding_release [OF assms, of "res_of k"]] by simp

lemma free_contract:
  assumes "heap_ok h"
  shows "owns_ctx (ShaCtx alg) h a \<Longrightarrow> \<exists>h'. sha_free lib alg a h = Some h' \<and> gone [] a h h'"
    and "owns_ctx HmacCtx h a \<Longrightarrow> \<exists>h'. wolfcrypt_hmac_free lib a h = Some h' \<and> gone [] a h h'"
    and "owns_ctx Des3Ctx h a \<Longrightarrow> \<exists>h'. wolfcrypt_des3_free lib a h = Some h' \<and> gone [] a h h'"
proof -
  note self = holding_self [OF assms]
  show "\<exists>h'. sha_free lib alg a h = Some h' \<and> gone [] a h h'" if o: "owns_ctx (ShaCtx alg) h a"
  proof -
    obtain s where "deref (ShaCtx alg) a h = Some s" using deref_owned [OF o] by blast
    then show ?thesis
      using release_dealloc [OF holding_store [OF self [OF o], of "(ShaCtx alg, ShaFree lib alg s)"]]
      by (simp add: sha_free_def res_of_def)
  qed
  show "\<exists>h'. wolfcrypt_hmac_free lib a h = Some h' \<and> gone [] a h h'" if o: "owns_ctx HmacCtx h a"
    using release_dealloc [OF self [OF o]] deref_owned [OF o] by (auto simp: wolfcrypt_hmac_free_def res_of_def)
  show "\<exists>h'. wolfcrypt_des3_free lib a h = Some h' \<and> gone [] a h h'" if o: "owns_ctx Des3Ctx h a"
    using release_dealloc [OF self [OF o]] deref_owned [OF o] by (auto simp: wolfcrypt_des3_free_def res_of_def)
qed

text \<open>\<^verbatim>\<open>wolfcrypt_cmac_free\<close> gives the memory back and does not free the CMAC object in it.\<close>

lemma cmac_free_contract:
  assumes "holding (is_ctx CmacCtx) rs a h0 h"
  shows "\<exists>h'. wolfcrypt_cmac_free a h = Some h' \<and> gone rs a h0 h'"
  using holding_dealloc [OF assms] deref_owned [of CmacCtx rs h a] assms
  by (auto simp: wolfcrypt_cmac_free_def holding_def)

lemma cmac_free_owned:
  assumes "heap_ok h" "owns_ctx CmacCtx h a"
  shows "\<exists>h'. wolfcrypt_cmac_free a h = Some h' \<and> gone [Cmac] a h h'"
  using cmac_free_contract [OF holding_self [OF assms]] by (simp add: res_of_def)

lemma cmac_finish_contract:
  assumes "heap_ok h" and o: "owns_ctx CmacCtx h a"
  shows "\<exists>h'. cmac_finish lib n a h = Some h' \<and> gone (if CmacFinalFrees lib then [] else [Cmac]) a h h'"
proof -
  obtain s where s: "deref CmacCtx a h = Some s" using deref_owned [OF o] by blast
  obtain rc d sz s' where f: "CmacFinal lib s n = (rc, d, sz, s')" by (metis surj_pair)
  have st: "holding (is_ctx CmacCtx) [Cmac] a h (store a (CmacCtx, s') h)"
    using holding_store [OF holding_self [OF assms], of "(CmacCtx, s')"] by (simp add: res_of_def)
  show ?thesis
    using cmac_free_contract [OF st] cmac_free_contract [OF holding_release [OF st, of Cmac]]
    by (simp add: cmac_finish_def wolfcrypt_cmac_final_def s f)
qed

interpretation sha: ctx_api "sha_ctx_new lib junk alg" "sha_act lib alg" "sha_free lib alg" "sha_ok lib alg" "\<lambda>_. True"
  "is_ctx (ShaCtx alg)" "[res_of (ShaCtx alg)]" "[]" for lib junk alg
  by unfold_locales
    (simp_all only: ctx_new_alt init_new_contract sha_act_contract act_defined free_contract act_dead simp_thms not_None_eq)

interpretation hmac: ctx_api "wolfcrypt_hmac_new_impl lib junk ty key n" "hmac_act lib" "wolfcrypt_hmac_free lib" "\<lambda>_. True" "\<lambda>_. True"
  "is_ctx HmacCtx" "[res_of HmacCtx]" "[]" for lib junk ty key n
  by unfold_locales (simp_all only: ctx_new_alt keyed_new_contract mac_act_contract act_defined free_contract act_dead simp_thms)

interpretation des3: ctx_api "des3_new lib junk dir key iv" "des3_act lib" "wolfcrypt_des3_free lib" "\<lambda>_. True" "\<lambda>_. True"
  "is_ctx Des3Ctx" "[res_of Des3Ctx]" "[]" for lib junk dir key iv
  by unfold_locales (simp_all only: ctx_new_alt keyed_new_contract des3_act_contract act_defined free_contract act_dead simp_thms)

interpretation cmac: ctx_api "wolfcrypt_cmac_new_impl lib junk key n" "cmac_act lib" "wolfcrypt_cmac_free" is_update "\<lambda>_. True"
  "is_ctx CmacCtx" "[res_of CmacCtx]" "[Cmac]" for lib junk key n
  by unfold_locales
    (simp_all only: ctx_new_alt init_new_contract mac_act_contract act_defined act_dead simp_thms cmac_free_owned)

interpretation cmac_final: ctx_api "wolfcrypt_cmac_new_impl lib junk key n" "cmac_act lib" "cmac_finish lib m" is_update "\<lambda>_. True"
  "is_ctx CmacCtx" "[res_of CmacCtx]" "if CmacFinalFrees lib then [] else [Cmac]" for lib junk key n m
  by unfold_locales
    (simp_all only: ctx_new_alt init_new_contract mac_act_contract act_defined act_dead simp_thms cmac_finish_contract)

text \<open>
  After a reset whose initialisation fails the hash object is not initialised any more, but the context still
  is there for the caller to free; freeing it frees the hash object a second time.
\<close>

lemma sha_reset_failed_fault:
  assumes "heap_ok h" and o: "owns_ctx (ShaCtx alg) h a" and "\<And>s. fst (InitSha lib alg s) \<noteq> 0"
  shows "\<exists>rc h1 h2. sha_reset lib alg a h = Some (Rc rc, h1) \<and> rc \<noteq> 0 \<and> sha_free lib alg a h1 = Some h2 \<and> fault h2"
proof -
  obtain s where s: "deref (ShaCtx alg) a h = Some s" using deref_owned [OF o] by blast
  obtain rc s' where i: "InitSha lib alg (ShaFree lib alg s) = (rc, s')" by fastforce
  have rc: "rc \<noteq> 0" using assms(3) [of "ShaFree lib alg s"] i by simp
  let ?h1 = "release a Sha (store a (ShaCtx alg, s') h)"
  have h1: "holding (is_ctx (ShaCtx alg)) [] a h ?h1"
    using holding_release [OF holding_store [OF holding_self [OF assms(1) o], of "(ShaCtx alg, s')"], of Sha]
    by (simp add: res_of_def)
  then have "(a, Sha) \<notin> set (held ?h1)" by (force simp: holding_def owned_def filter_empty_conv)
  then show ?thesis
    using rc by (simp add: sha_reset_def s i sha_free_def heap_simps)
qed

section \<open>Properties\<close>

text \<open>
  What is relied on of a wolfSSL hash: a structure that was initialised and updated holds the data
  (the relation \<open>R\<close>), the final function returns the digest \<open>H\<close> of the data and starts over, and a copy
  holds the same data.
\<close>

definition hash_spec :: "'s wc_lib \<Rightarrow> sha_alg \<Rightarrow> (byte list \<Rightarrow> byte list) \<Rightarrow> ('s \<Rightarrow> byte list \<Rightarrow> bool) \<Rightarrow> bool" where
  "hash_spec lib alg H R \<longleftrightarrow>
     (\<forall>s. \<exists>s'. InitSha lib alg s = (0, s') \<and> R s' []) \<and>
     (\<forall>s m d n. R s m \<longrightarrow> unat n \<le> length d \<longrightarrow> (\<exists>s'. ShaUpdate lib alg s d n = (0, s') \<and> R s' (m @ take (unat n) d))) \<and>
     (\<forall>s m. R s m \<longrightarrow> (\<exists>s'. ShaFinal lib alg s = (0, H m, s') \<and> R s' [])) \<and>
     (\<forall>s m d. R s m \<longrightarrow> (\<exists>s'. ShaCopy lib alg s d = (0, s') \<and> R s' m))"

text \<open>The abstract state of a context is the data it was given.\<close>

definition holds :: "('s \<Rightarrow> byte list \<Rightarrow> bool) \<Rightarrow> sha_alg \<Rightarrow> 's cheap \<Rightarrow> nat \<Rightarrow> byte list \<Rightarrow> bool" where
  "holds R alg h a m \<longleftrightarrow> (\<exists>s. cells h a = Some (ShaCtx alg, s) \<and> R s m)"

lemma holds_deref: "holds R alg h a m \<Longrightarrow> \<exists>s. deref (ShaCtx alg) a h = Some s \<and> cells h a = Some (ShaCtx alg, s) \<and> R s m"
  by (auto simp: holds_def deref_def)

text \<open>A library for the witnesses: a hash context is its data and the digest is their sum; a
  CBC cipher that adds the first key byte.\<close>

definition toy_lib :: "(byte list) wc_lib" where
  "toy_lib = \<lparr>
     InitSha = (\<lambda>alg s. (0, [])), ShaUpdate = (\<lambda>alg s d n. (0, s @ take (unat n) d)),
     ShaFinal = (\<lambda>alg s. (0, [sum_list s], [])), ShaFree = (\<lambda>alg s. []), ShaCopy = (\<lambda>alg s d. (0, s)),
     HmacInit = (\<lambda>s. (0, [])), HmacSetKey = (\<lambda>s ty k n. (0, k)), HmacUpdate = (\<lambda>s d n. (0, s @ d)),
     HmacFinal = (\<lambda>s. (0, s, [])),
     InitCmac = (\<lambda>s k n. (0, k)), CmacUpdate = (\<lambda>s d n. (0, s @ d)), CmacFinal = (\<lambda>s n. (0, s, n, [])), CmacFinalFrees = True,
     Des3Init = (\<lambda>s. (0, [])), Des3_SetKey = (\<lambda>s k iv dir. (0, k)),
     Des3_CbcEncrypt = (\<lambda>s d n. (0, map (\<lambda>x. x + hd s) d, s)),
     Des3_CbcDecrypt = (\<lambda>s d n. (0, map (\<lambda>x. x - hd s) d, s)) \<rparr>"

lemma toy_hash_spec: "hash_spec toy_lib alg (\<lambda>m. [sum_list m]) (\<lambda>s m. s = m)"
  by (simp add: hash_spec_def toy_lib_def)

text \<open>A hash context refines a byte string: updating appends the data, the final call returns the
  digest of all of it and starts over, a reset empties it, and none of them affects another
  object of the heap.\<close>

lemma sha_ctx_refines:
  assumes sp: "hash_spec lib alg H R" and m: "holds R alg h a m" and n: "unat n \<le> length d"
  shows "(\<exists>h'. sha_update lib alg a d n h = Some (Rc 0, h') \<and> holds R alg h' a (m @ take (unat n) d) \<and> same_except a h h') \<and>
    (\<exists>h'. sha_final lib alg a h = Some ((Rc 0, H m), h') \<and> holds R alg h' a [] \<and> same_except a h h') \<and>
    (\<exists>h'. sha_reset lib alg a h = Some (Rc 0, h') \<and> holds R alg h' a [] \<and> same_except a h h')"
proof -
  obtain s where s: "deref (ShaCtx alg) a h = Some s" "R s m" using holds_deref [OF m] by blast
  obtain s1 where u: "ShaUpdate lib alg s d n = (0, s1)" "R s1 (m @ take (unat n) d)" using sp s(2) n unfolding hash_spec_def by blast
  obtain s2 where f: "ShaFinal lib alg s = (0, H m, s2)" "R s2 []" using sp s(2) unfolding hash_spec_def by blast
  obtain s3 where r: "InitSha lib alg (ShaFree lib alg s) = (0, s3)" "R s3 []" using sp unfolding hash_spec_def by blast
  have "sha_update lib alg a d n h = Some (Rc 0, store a (ShaCtx alg, s1) h)" by (simp add: sha_update_def s u)
  moreover have "sha_final lib alg a h = Some ((Rc 0, H m), store a (ShaCtx alg, s2) h)" by (simp add: sha_final_def s f)
  moreover have "sha_reset lib alg a h = Some (Rc 0, acquire a Sha (release a Sha (store a (ShaCtx alg, s3) h)))"
    by (simp add: sha_reset_def s r)
  moreover have "same_except a h (acquire a Sha (release a Sha (store a (ShaCtx alg, s3) h)))"
    by (meson same_except_res same_except_store same_except_trans)
  ultimately show ?thesis using u f r by (simp add: holds_def heap_simps)
qed

text \<open>Copying a live hash context is defined; when it fails, for lack of memory or because wolfSSL's
  copy fails, \<open>*dst_out\<close> is not written and the heap is as before; when it succeeds the
  copy is a new context with the same data, and the source and all other objects are untouched.\<close>

lemma sha_copy_contract:
  assumes h: "heap_ok h" and o: "owns_ctx (ShaCtx alg) h a"
  shows "\<exists>rc dst h'. sha_copy lib junk alg a h = Some ((rc, dst), h') \<and> heap_ok h' \<and>
    (case dst of
       None \<Rightarrow> rc \<noteq> Rc 0 \<and> same_heap h h'
     | Some b \<Rightarrow> rc = Rc 0 \<and> b \<noteq> a \<and> cells h b = None \<and> owns_ctx (ShaCtx alg) h' b \<and> same_except b h h' \<and>
         (\<forall>H R m. hash_spec lib alg H R \<longrightarrow> holds R alg h a m \<longrightarrow> holds R alg h' b m))"
proof (cases "malloc (ShaCtx alg, junk) h")
  case None
  then show ?thesis using h by (simp add: sha_copy_def)
next
  case (Some mm)
  then obtain b h1 where m: "malloc (ShaCtx alg, junk) h = Some (b, h1)" by (cases mm) simp
  note f = malloc_fresh [OF h m]
  obtain s where s: "cells h a = Some (ShaCtx alg, s)" using deref_owned [OF o] by blast
  have ba: "b \<noteq> a" using f(2) s by (auto simp: fresh_def)
  have d: "deref (ShaCtx alg) a h1 = Some s" using s ba f(3) by (simp add: deref_def)
  obtain rc t where c: "ShaCopy lib alg s junk = (rc, t)" by (cases "ShaCopy lib alg s junk")
  let ?h2 = "store b (ShaCtx alg, t) h1"
  have h2: "holding (is_ctx (ShaCtx alg)) [] b h ?h2" by (rule holding_init [OF h m])
  show ?thesis
  proof (cases "rc = 0")
    case False
    have "dealloc b ?h2 \<noteq> None" by (simp add: dealloc_def heap_simps)
    then have "sha_copy lib junk alg a h = Some ((Rc rc, None), the (dealloc b ?h2))"
      using False by (auto simp: sha_copy_def m d c)
    then show ?thesis using False free_new [OF h f(2) h2] by simp
  next
    case True
    have r: "sha_copy lib junk alg a h = Some ((Rc 0, Some b), acquire b Sha ?h2)" using True by (simp add: sha_copy_def m d c)
    moreover have "holding (is_ctx (ShaCtx alg)) [res_of (ShaCtx alg)] b h (acquire b Sha ?h2)"
      using holding_acquire [OF h2, of Sha] by (simp add: res_of_def)
    moreover have "holds R alg (acquire b Sha ?h2) b m'" if "hash_spec lib alg H R" "holds R alg h a m'" for H R m'
    proof -
      have "R s m'" using that(2) s by (simp add: holds_def)
      moreover have "\<forall>s m d. R s m \<longrightarrow> (\<exists>s'. ShaCopy lib alg s d = (0, s') \<and> R s' m)"
        using that(1) by (simp add: hash_spec_def)
      ultimately obtain s' where "ShaCopy lib alg s junk = (0, s')" "R s' m'" by blast
      then show ?thesis using c by (simp add: holds_def heap_simps)
    qed
    ultimately show ?thesis using ba f(2) by (intro exI) (auto simp: holding_def fresh_def)
  qed
qed

text \<open>
  What is relied on of wolfSSL's 3DES: setting a key succeeds, the structure then encrypts or decrypts
  with that key and IV, and decryption inverts encryption.
\<close>

definition des3_spec ::
    "'s wc_lib \<Rightarrow> ('s \<Rightarrow> des_dir \<Rightarrow> byte list \<Rightarrow> byte list \<Rightarrow> bool) \<Rightarrow> (byte list \<Rightarrow> byte list \<Rightarrow> byte list \<Rightarrow> byte list) \<Rightarrow> bool" where
  "des3_spec lib R E \<longleftrightarrow>
     (\<forall>s. \<exists>s'. Des3Init lib s = (0, s')) \<and>
     (\<forall>s k iv dir. \<exists>s'. Des3_SetKey lib s k iv dir = (0, s') \<and> R s' dir k iv) \<and>
     (\<forall>s k iv d n. R s DES_ENCRYPTION k iv \<longrightarrow> unat n = length d \<longrightarrow> (\<exists>s'. Des3_CbcEncrypt lib s d n = (0, E k iv d, s'))) \<and>
     (\<forall>s k iv d n. R s DES_DECRYPTION k iv \<longrightarrow> unat n = length d \<longrightarrow> (\<exists>s'. Des3_CbcDecrypt lib s (E k iv d) n = (0, d, s')))"

lemma des3_new_ok:
  assumes "des3_spec lib R E" "heap_ok h" "brk h < limit h"
  shows "\<exists>a s h'. des3_new lib junk dir key iv h = (Some a, h') \<and> deref Des3Ctx a h' = Some s \<and> R s dir key iv"
proof -
  obtain s1 where 1: "Des3Init lib junk = (0, s1)" using assms(1) unfolding des3_spec_def by blast
  obtain s2 where 2: "Des3_SetKey lib s1 key iv dir = (0, s2)" "R s2 dir key iv" using assms(1) unfolding des3_spec_def by blast
  show ?thesis using 2(2) assms(3) by (auto simp: des3_new_def malloc_def 1 2 Let_def deref_def heap_simps)
qed

text \<open>3DES round trip: with room for two contexts, a context from \<^verbatim>\<open>wolfcrypt_des3_enc_new\<close> encrypts \<open>d\<close>
  to some \<open>c\<close>, and a context from \<^verbatim>\<open>wolfcrypt_des3_dec_new\<close> with the same key and IV decrypts \<open>c\<close> to \<open>d\<close>.\<close>

lemma des3_roundtrip:
  assumes sp: "des3_spec lib R E" and h: "heap_ok h" "brk h < limit h" "heap_ok g" "brk g < limit g"
    and n: "unat n = length d"
  shows "\<exists>a h1 c h2 b g1 g2. wolfcrypt_des3_enc_new lib junk key iv h = (Some a, h1) \<and>
    wolfcrypt_des3_cbc_encrypt lib a d n h1 = Some ((Rc 0, c), h2) \<and>
    wolfcrypt_des3_dec_new lib junk key iv g = (Some b, g1) \<and>
    wolfcrypt_des3_cbc_decrypt lib b c n g1 = Some ((Rc 0, d), g2)"
proof -
  obtain a s h1 where a: "des3_new lib junk DES_ENCRYPTION key iv h = (Some a, h1)" "deref Des3Ctx a h1 = Some s" "R s DES_ENCRYPTION key iv"
    using des3_new_ok [OF sp h(1,2)] by blast
  obtain b t g1 where b: "des3_new lib junk DES_DECRYPTION key iv g = (Some b, g1)" "deref Des3Ctx b g1 = Some t" "R t DES_DECRYPTION key iv"
    using des3_new_ok [OF sp h(3,4)] by blast
  obtain s' where s': "Des3_CbcEncrypt lib s d n = (0, E key iv d, s')" using sp a(3) n unfolding des3_spec_def by blast
  obtain t' where t': "Des3_CbcDecrypt lib t (E key iv d) n = (0, d, t')" using sp b(3) n unfolding des3_spec_def by blast
  have "wolfcrypt_des3_cbc_encrypt lib a d n h1 = Some ((Rc 0, E key iv d), store a (Des3Ctx, s') h1)"
    by (simp add: wolfcrypt_des3_cbc_encrypt_def a s')
  moreover have "wolfcrypt_des3_cbc_decrypt lib b (E key iv d) n g1 = Some ((Rc 0, d), store b (Des3Ctx, t') g1)"
    by (simp add: wolfcrypt_des3_cbc_decrypt_def b t')
  ultimately show ?thesis using a(1) b(1) unfolding wolfcrypt_des3_enc_new_def wolfcrypt_des3_dec_new_def by blast
qed

end
