(* ===== verification/Dh.thy ===== *)
theory Dh
  imports HashCtx
begin

text \<open>
  The Diffie-Hellman handles of \<^verbatim>\<open>wolfcrypt-rs/src/compat_shim.c\<close>.  wolfSSL's functions are the fields
  of \<open>dh_lib\<close>; a handle is the address of a \<open>dh_ctx\<close> in the heap.  The caller's output buffer is a list
  whose length is its capacity, and \<open>None\<close> is an access out of bounds.
\<close>

section \<open>Definitions\<close>

record ('k, 'r) dh_ctx =
  dh_key :: 'k
  dh_rng :: 'r
  priv :: "byte list"
  privSz :: uint
  pub :: "byte list"
  pubSz :: uint
  groupSz :: uint

record ('k, 'r) dh_lib =
  zero_key :: 'k
  zero_rng :: 'r
  InitRng :: "'r \<Rightarrow> int \<times> 'r"
  InitDhKey :: "'k \<Rightarrow> int \<times> 'k"
  DhSetNamedKey :: "'k \<Rightarrow> int \<Rightarrow> int \<times> 'k"
  DhGenerateKeyPair :: "'k \<Rightarrow> 'r \<Rightarrow> byte list \<Rightarrow> uint \<Rightarrow> byte list \<Rightarrow> uint \<Rightarrow>
    int \<times> 'r \<times> byte list \<times> uint \<times> byte list \<times> uint"
  DhAgree :: "'k \<Rightarrow> byte list \<Rightarrow> uint \<Rightarrow> byte list \<Rightarrow> uint \<Rightarrow> byte list \<Rightarrow> uint \<Rightarrow> int \<times> byte list \<times> uint"

type_synonym ('k, 'r) dh_heap = "('k, 'r) dh_ctx heap"

definition zero_ctx :: "('k, 'r) dh_lib \<Rightarrow> ('k, 'r) dh_ctx" where
  "zero_ctx lib = \<lparr>dh_key = zero_key lib, dh_rng = zero_rng lib, priv = replicate 512 0, privSz = 0,
     pub = replicate 512 0, pubSz = 0, groupSz = 0\<rparr>"

definition wolfcrypt_dh_new ::
    "('k, 'r) dh_lib \<Rightarrow> ('k, 'r) dh_ctx \<Rightarrow> int \<Rightarrow> uint \<Rightarrow> ('k, 'r) dh_heap \<Rightarrow> nat option \<times> ('k, 'r) dh_heap" where
  "wolfcrypt_dh_new lib junk name group_sz h =
    (case malloc junk h of
       None \<Rightarrow> (None, h)
     | Some (ctx, h) \<Rightarrow>
         let c = zero_ctx lib; (rc, r) = InitRng lib (dh_rng c); c = c\<lparr>dh_rng := r\<rparr>; h = store ctx c h
         in if rc \<noteq> 0 then (None, the (dealloc ctx h))
         else let h = acquire ctx Rng h; (rc, k) = InitDhKey lib (dh_key c); c = c\<lparr>dh_key := k\<rparr>; h = store ctx c h
         in if rc \<noteq> 0 then (None, the (dealloc ctx (release ctx Rng h)))
         else let h = acquire ctx DhKey h; (rc, k) = DhSetNamedKey lib (dh_key c) name; c = c\<lparr>dh_key := k\<rparr>; h = store ctx c h
         in if rc \<noteq> 0 then (None, the (dealloc ctx (release ctx Rng (release ctx DhKey h))))
         else (Some ctx, store ctx (c\<lparr>groupSz := group_sz\<rparr>) h))"

definition wolfcrypt_dh_generate_keypair ::
    "('k, 'r) dh_lib \<Rightarrow> nat \<Rightarrow> ('k, 'r) dh_heap \<Rightarrow> (wc_rc \<times> ('k, 'r) dh_heap) option" where
  "wolfcrypt_dh_generate_keypair lib handle h = do {
     c \<leftarrow> cells h handle;
     let c = c\<lparr>privSz := 512, pubSz := 512\<rparr>;
     let (rc, r, pv, pvs, pb, pbs) = DhGenerateKeyPair lib (dh_key c) (dh_rng c) (priv c) (privSz c) (pub c) (pubSz c);
     Some (Rc rc, store handle (c\<lparr>dh_rng := r, priv := pv, privSz := pvs, pub := pb, pubSz := pbs\<rparr>) h) }"

text \<open>Right-aligned copy of \<open>sz\<close> bytes into a field of \<open>g\<close> bytes, as both functions below do it.\<close>

definition left_pad :: "byte list \<Rightarrow> byte list \<Rightarrow> uint \<Rightarrow> uint \<Rightarrow> byte list option" where
  "left_pad out src sz g =
    (if sz < g then
       let pad = g - sz
       in do { out \<leftarrow> poke out 0 (replicate (unat pad) 0); memcpy_at out (unat pad) src 0 (unat sz) }
     else memcpy_at out 0 src 0 (unat sz))"

text \<open>The result is the return code, the output buffer and \<open>*out_len\<close>.\<close>

definition wolfcrypt_dh_public_key ::
    "nat \<Rightarrow> byte list \<Rightarrow> uint \<Rightarrow> ('k, 'r) dh_heap \<Rightarrow> (wc_rc \<times> byte list \<times> uint) option" where
  "wolfcrypt_dh_public_key handle out out_len h = do {
     c \<leftarrow> cells h handle;
     if out_len < groupSz c then Some (BUFFER_E, out, groupSz c)
     else do {
       out \<leftarrow> left_pad out (pub c) (pubSz c) (groupSz c);
       Some (Rc 0, out, groupSz c) } }"

definition wolfcrypt_dh_agree ::
    "('k, 'r) dh_lib \<Rightarrow> byte list \<Rightarrow> nat \<Rightarrow> byte list \<Rightarrow> uint \<Rightarrow> byte list \<Rightarrow> uint \<Rightarrow> ('k, 'r) dh_heap \<Rightarrow>
     (wc_rc \<times> byte list \<times> uint) option" where
  "wolfcrypt_dh_agree lib junk handle peer_pub peer_pub_sz secret secret_sz h = do {
     c \<leftarrow> cells h handle;
     let (rc, tmp, sz) = DhAgree lib (dh_key c) junk 512 (priv c) (privSz c) peer_pub peer_pub_sz;
     if rc \<noteq> 0 then Some (Rc rc, secret, secret_sz)
     else if secret_sz < groupSz c then Some (BUFFER_E, secret, groupSz c)
     else do {
       secret \<leftarrow> left_pad secret tmp sz (groupSz c);
       Some (Rc 0, secret, groupSz c) } }"

definition wolfcrypt_dh_free :: "nat \<Rightarrow> ('k, 'r) dh_heap \<Rightarrow> ('k, 'r) dh_heap option" where
  "wolfcrypt_dh_free handle h = do {
     c \<leftarrow> cells h handle;
     let h = store handle (c\<lparr>priv := replicate 512 0\<rparr>) h;
     dealloc handle (release handle Rng (release handle DhKey h)) }"

section \<open>The handle satisfies the contract of a context\<close>

abbreviation owns_dh :: "('k, 'r) dh_heap \<Rightarrow> nat \<Rightarrow> bool" where
  "owns_dh \<equiv> owned (\<lambda>_. True) [DhKey, Rng]"

lemma dh_new_contract:
  assumes ok: "heap_ok h"
  shows "wolfcrypt_dh_new lib junk name g h = (None, h') \<Longrightarrow> heap_ok h' \<and> same_heap h h'"
    and "wolfcrypt_dh_new lib junk name g h = (Some a, h') \<Longrightarrow> fresh a h \<and> holding (\<lambda>_. True) [DhKey, Rng] a h h'"
proof -
  have 1: "holding (\<lambda>_. True) [] b h (store b c1 h1)" if "malloc junk h = Some (b, h1)" for b h1 c1
    by (rule holding_store [OF holding_malloc [OF ok that]]) simp_all
  have 2: "holding (\<lambda>_. True) [Rng] b h (store b c2 (acquire b Rng (store b c1 h1)))"
    if "malloc junk h = Some (b, h1)" for b h1 c1 c2
    by (rule holding_store [OF holding_acquire [OF 1 [OF that]]]) simp
  have 3: "holding (\<lambda>_. True) [DhKey, Rng] b h (store b c3 (acquire b DhKey (store b c2 (acquire b Rng (store b c1 h1)))))"
    if "malloc junk h = Some (b, h1)" for b h1 c1 c2 c3
    by (rule holding_store [OF holding_acquire [OF 2 [OF that]]]) simp
  note undo = free_new [OF ok malloc_fresh(2) [OF ok]]
  note undo2 = undo [OF _ holding_release [OF 2, of _ _ Rng, simplified]]
    and undo3 = undo [OF _ holding_release [OF holding_release [OF 3, of _ _ DhKey, simplified], of _ _ Rng, simplified]]
  show "heap_ok h' \<and> same_heap h h'" if "wolfcrypt_dh_new lib junk name g h = (None, h')"
    using that ok undo [OF _ 1] undo2 undo3
    by (auto simp: wolfcrypt_dh_new_def Let_def split: option.splits prod.splits if_splits)
  show "fresh a h \<and> holding (\<lambda>_. True) [DhKey, Rng] a h h'" if "wolfcrypt_dh_new lib junk name g h = (Some a, h')"
    using that malloc_fresh(2) [OF ok] holding_store [OF 3]
    by (auto simp: wolfcrypt_dh_new_def Let_def split: option.splits prod.splits if_splits)
qed

text \<open>The calls on a handle.  Only key generation changes it; the other two write the buffer of the
  caller and are undefined when it is too small for what they write.\<close>

datatype dh_call = DhGenerateCall | DhPublicCall "byte list" uint | DhAgreeCall "byte list" "byte list" uint "byte list" uint

definition dh_act :: "('k, 'r) dh_lib \<Rightarrow> dh_call \<Rightarrow> nat \<Rightarrow> ('k, 'r) dh_heap \<Rightarrow> (unit \<times> ('k, 'r) dh_heap) option" where
  "dh_act lib x a h =
    (case x of
       DhGenerateCall \<Rightarrow> fin (wolfcrypt_dh_generate_keypair lib a h)
     | DhPublicCall out n \<Rightarrow> map_option (\<lambda>_. ((), h)) (wolfcrypt_dh_public_key a out n h)
     | DhAgreeCall junk peer n secret m \<Rightarrow> map_option (\<lambda>_. ((), h)) (wolfcrypt_dh_agree lib junk a peer n secret m h))"

lemma dh_act_contract:
  assumes "heap_ok h" "owns_dh h a" "dh_act lib x a h = Some (r, h')"
  shows "holding (\<lambda>_. True) [DhKey, Rng] a h h'"
proof -
  obtain c where c: "cells h a = Some c" using assms(2) by (auto simp: owned_def)
  have "h' = h \<or> (\<exists>c. h' = store a c h)"
    using assms(3) c by (cases x) (auto simp: dh_act_def wolfcrypt_dh_generate_keypair_def fin_def split: prod.splits)
  then show ?thesis by (auto intro!: holding_store holding_self assms(1,2))
qed

lemma dh_generate_defined: "owns_dh h a \<Longrightarrow> dh_act lib DhGenerateCall a h \<noteq> None"
  by (auto simp: owned_def dh_act_def wolfcrypt_dh_generate_keypair_def fin_def split: prod.splits)

text \<open>Freeing the handle overwrites the private key before the memory is given back.\<close>

lemma dh_free_contract:
  assumes "heap_ok h" "owns_dh h a"
  shows "\<exists>h'. wolfcrypt_dh_free a h = Some h' \<and> gone [] a h h'"
    and "\<exists>h' c. wolfcrypt_dh_free a h = Some h' \<and> freed h' = (a, c) # freed h \<and> priv c = replicate 512 0"
proof -
  obtain c where c: "cells h a = Some c" using assms(2) by (auto simp: owned_def)
  have "holding (\<lambda>_. True) [DhKey, Rng] a h (store a (c\<lparr>priv := replicate 512 0\<rparr>) h)"
    by (rule holding_store [OF holding_self [OF assms]]) simp
  from holding_dealloc [OF holding_release [OF holding_release [OF this, of DhKey], of Rng]]
  show "\<exists>h'. wolfcrypt_dh_free a h = Some h' \<and> gone [] a h h'" by (simp add: wolfcrypt_dh_free_def c Let_def)
  show "\<exists>h' c. wolfcrypt_dh_free a h = Some h' \<and> freed h' = (a, c) # freed h \<and> priv c = replicate 512 0"
    by (simp add: wolfcrypt_dh_free_def c Let_def dealloc_def heap_simps)
qed

lemma dh_dead: "cells h a = None \<Longrightarrow> dh_act lib x a h = None \<and> wolfcrypt_dh_free a h = None"
  by (cases x) (simp_all add: dh_act_def fin_def wolfcrypt_dh_generate_keypair_def wolfcrypt_dh_public_key_def
    wolfcrypt_dh_agree_def wolfcrypt_dh_free_def)

interpretation dh: ctx_api "wolfcrypt_dh_new lib junk name g" "dh_act lib" wolfcrypt_dh_free "\<lambda>_. True" "\<lambda>x. x = DhGenerateCall"
  "\<lambda>_. True" "[DhKey, Rng]" "[]" for lib junk name g
  by unfold_locales
    (simp_all only: dh_new_contract dh_act_contract dh_generate_defined dh_free_contract(1) dh_dead simp_thms not_False_eq_True)

section \<open>Fixed-width output\<close>

lemma left_pad_ok:
  assumes "sz \<le> g" "unat g \<le> length out" "unat sz \<le> length src"
  shows "left_pad out src sz g = Some (replicate (unat g - unat sz) 0 @ take (unat sz) src @ drop (unat g) out)"
proof (cases "sz < g")
  case True
  have u: "unat (g - sz) = unat g - unat sz" using assms(1) by (intro unat_sub) simp
  have le: "unat sz \<le> unat g" using assms(1) by (simp add: word_le_nat_alt)
  let ?o = "replicate (unat g - unat sz) 0 @ drop (unat g - unat sz) out"
  have "poke out 0 (replicate (unat (g - sz)) 0) = Some ?o" using assms by (simp add: poke_def u)
  moreover have "memcpy_at ?o (unat (g - sz)) src 0 (unat sz) =
      Some (replicate (unat g - unat sz) 0 @ take (unat sz) src @ drop (unat g) out)"
    using assms le by (simp add: memcpy_at_Some u)
  ultimately show ?thesis using True by (simp add: left_pad_def Let_def u)
next
  case False
  then have "sz = g" using assms(1) by simp
  then show ?thesis using assms by (simp add: left_pad_def memcpy_at_Some)
qed

lemma left_pad_overflow:
  assumes "g < sz" "length out < unat sz"
  shows "left_pad out src sz g = None"
  using assms by (simp add: left_pad_def memcpy_at_None)

section \<open>Properties\<close>

definition toy_dh :: "(int, int) dh_lib" where
  "toy_dh = \<lparr>zero_key = 0, zero_rng = 0, InitRng = (\<lambda>r. (0, 7)), InitDhKey = (\<lambda>k. (0, 0)),
     DhSetNamedKey = (\<lambda>k n. (0, n)),
     DhGenerateKeyPair = (\<lambda>k r pv pvs pb pbs. (-1, r, pv, pvs, pb, pbs)),
     DhAgree = (\<lambda>k t ts pv pvs p ps. (0, [1, 2] @ drop 2 t, 2))\<rparr>"

text \<open>C30: The public key and the shared secret are written with the width of the group: with room for
  \<open>groupSz\<close> bytes the output is the number, left-padded with zeros, the rest of the buffer is kept
  and the length is \<open>groupSz\<close>; with less room \<open>BUFFER_E\<close> and the needed length are returned and
  nothing is written.  Nothing is accessed out of bounds as long as the number fits the group.\<close>

theorem wolfcrypt_dh_fixed_width:
  assumes c: "cells h a = Some c" and n: "unat n \<le> length out"
    and p: "pubSz c \<le> groupSz c" "unat (pubSz c) \<le> length (pub c)"
    and s: "DhAgree lib (dh_key c) junk 512 (priv c) (privSz c) peer peer_sz = (0, tmp, sz)"
      "sz \<le> groupSz c" "unat sz \<le> length tmp"
  shows "wolfcrypt_dh_public_key a out n h =
      (if n < groupSz c then Some (BUFFER_E, out, groupSz c)
       else Some (Rc 0, replicate (unat (groupSz c) - unat (pubSz c)) 0 @ take (unat (pubSz c)) (pub c) @
              drop (unat (groupSz c)) out, groupSz c)) \<and>
    wolfcrypt_dh_agree lib junk a peer peer_sz out n h =
      (if n < groupSz c then Some (BUFFER_E, out, groupSz c)
       else Some (Rc 0, replicate (unat (groupSz c) - unat sz) 0 @ take (unat sz) tmp @
              drop (unat (groupSz c)) out, groupSz c))"
proof -
  have "unat (groupSz c) \<le> length out" if "\<not> n < groupSz c"
    using that n by (simp add: word_less_nat_alt)
  then show ?thesis
    using c s p by (simp add: wolfcrypt_dh_public_key_def wolfcrypt_dh_agree_def left_pad_ok)
qed

theorem wolfcrypt_dh_fixed_width_witness:
  "wolfcrypt_dh_agree toy_dh (replicate 512 0) 5 [9] 1 [8, 8, 8, 8] 4
     (empty_heap 0 \<lparr>cells := [5 \<mapsto> (zero_ctx toy_dh)\<lparr>groupSz := 3\<rparr>]\<rparr>) = Some (Rc 0, [0, 1, 2, 8], 3)"
  using wolfcrypt_dh_fixed_width [of "empty_heap 0 \<lparr>cells := [5 \<mapsto> (zero_ctx toy_dh)\<lparr>groupSz := 3\<rparr>]\<rparr>" 5
     "(zero_ctx toy_dh)\<lparr>groupSz := 3\<rparr>" 4 "[8, 8, 8, 8]" toy_dh "replicate 512 0" "[9]" 1 "[1, 2] @ drop 2 (replicate 512 0)" 2,
     THEN conjunct2]
  by (simp add: zero_ctx_def toy_dh_def)

text \<open>The sizes are set to 512 before wolfSSL generates the key and are not reset when it fails:
  after a failed generation that leaves them, reading the public key with a buffer of the group's
  size writes 512 bytes and overflows it; before any generation, the call succeeds with
  an all-zero key.\<close>

lemma wolfcrypt_dh_public_key_stale_size:
  assumes c: "cells h a = Some c" and g: "groupSz c < 512" "unat (groupSz c) = length out" "unat (pubSz c) \<le> length (pub c)"
    and f: "\<forall>pv pb. DhGenerateKeyPair lib (dh_key c) (dh_rng c) pv 512 pb 512 = (rc, r, pv, 512, pb, 512)"
  shows "(\<exists>h'. wolfcrypt_dh_generate_keypair lib a h = Some (Rc rc, h') \<and>
      wolfcrypt_dh_public_key a out (groupSz c) h' = None) \<and>
    (pubSz c = 0 \<longrightarrow> wolfcrypt_dh_public_key a out (groupSz c) h = Some (Rc 0, replicate (length out) 0, groupSz c))"
proof -
  let ?c = "c\<lparr>dh_rng := r, privSz := 512, pubSz := 512\<rparr>"
  have gen: "wolfcrypt_dh_generate_keypair lib a h = Some (Rc rc, store a ?c h)"
    using f by (simp add: wolfcrypt_dh_generate_keypair_def c)
  have "length out < unat (512 :: uint)" using g(1,2) by (simp add: word_less_nat_alt)
  then have "wolfcrypt_dh_public_key a out (groupSz c) (store a ?c h) = None"
    using g(1) by (simp add: wolfcrypt_dh_public_key_def heap_simps left_pad_overflow)
  moreover have "wolfcrypt_dh_public_key a out (groupSz c) h = Some (Rc 0, replicate (length out) 0, groupSz c)" if "pubSz c = 0"
    using that g c by (simp add: wolfcrypt_dh_public_key_def left_pad_ok)
  ultimately show ?thesis using gen by blast
qed

end
