(* ===== verification/Kdf.thy ===== *)
theory Kdf
  imports Prelude
begin

text \<open>
  The key derivation shims of \<^verbatim>\<open>wolfcrypt-rs/src/compat_shim.c\<close>: the TLS 1.2 PRF adapter, the
  counter-mode KDF of SP 800-108 over HMAC and the one-step KDFs of SP 800-56C.

  wolfSSL is a parameter: the record \<open>hmac_lib\<close> holds the HMAC functions the shims call, and
  \<open>prf\<close> and \<open>onestep\<close> stand for \<^verbatim>\<open>wc_PRF_TLS\<close> and \<^verbatim>\<open>wc_KDA_KDF_onestep\<close>, which return the C
  result and the contents of the output buffer.  A digest is the name that \<^verbatim>\<open>WOLFSSL_EVP_MD\<close> points
  to; a pointer that may be \<open>NULL\<close> is an option.  The outer \<open>None\<close> is an access out of bounds or a
  loop that does not end.
\<close>

section \<open>The TLS PRF\<close>

definition evp_md_to_mac_type :: "string \<Rightarrow> int" where
  "evp_md_to_mac_type md =
    (if md = ''SHA256'' \<or> md = ''sha256'' then 4
     else if md = ''SHA384'' \<or> md = ''sha384'' then 5
     else if md = ''SHA512'' \<or> md = ''sha512'' then 6
     else -1)"

text \<open>\<open>junk\<close> is the initial contents of the local array \<^verbatim>\<open>seed_buf\<close>.\<close>

type_synonym prf_fun = "byte list \<Rightarrow> uint \<Rightarrow> byte list \<Rightarrow> uint \<Rightarrow> byte list \<Rightarrow> uint \<Rightarrow> byte list \<Rightarrow> uint \<Rightarrow>
  int \<Rightarrow> int \<Rightarrow> int \<times> byte list"

definition CRYPTO_tls1_prf ::
    "prf_fun \<Rightarrow> byte list \<Rightarrow> string option \<Rightarrow> byte list option \<Rightarrow> size_t \<Rightarrow> byte list option \<Rightarrow> size_t \<Rightarrow>
     byte list option \<Rightarrow> size_t \<Rightarrow> byte list option \<Rightarrow> size_t \<Rightarrow> byte list option \<Rightarrow> size_t \<Rightarrow>
     (int \<times> byte list option) option" where
  "CRYPTO_tls1_prf prf junk md out out_len secret secret_len label label_len seed1 seed1_len seed2 seed2_len =
    (case (md, out, secret, label) of
       (Some m, Some ob, Some s, Some l) \<Rightarrow>
         if out_len = 0 then Some (0, out)
         else let mac_type = evp_md_to_mac_type m
         in if mac_type < 0 then Some (0, out)
         else let seed_len = seed1_len + seed2_len
         in if seed_len > 256 then Some (0, out)
         else do {
           seed_buf \<leftarrow> (case seed1 of
               Some s1 \<Rightarrow> if seed1_len > 0 then memcpy_at junk 0 s1 0 (unat seed1_len) else Some junk
             | None \<Rightarrow> Some junk);
           seed_buf \<leftarrow> (case seed2 of
               Some s2 \<Rightarrow> if seed2_len > 0 then memcpy_at seed_buf (unat seed1_len) s2 0 (unat seed2_len)
                         else Some seed_buf
             | None \<Rightarrow> Some seed_buf);
           let (ret, ob') = prf ob (ucast out_len) s (ucast secret_len) l (ucast label_len)
                              seed_buf (ucast seed_len) 1 mac_type;
           Some (if ret = 0 then 1 else 0, Some ob')
         }
     | _ \<Rightarrow> Some (0, out))"

section \<open>HMAC in counter mode\<close>

record 'c hmac_lib =
  EVP_MD_size :: "string \<Rightarrow> int"
  EVP_MD_block_size :: "string \<Rightarrow> int"
  HMAC_CTX_new :: "'c option"
  HMAC_Init_ex :: "'c \<Rightarrow> byte list \<Rightarrow> int \<Rightarrow> string \<Rightarrow> int \<times> 'c"
  HMAC_Update :: "'c \<Rightarrow> byte list \<Rightarrow> int \<Rightarrow> int \<times> 'c"
  HMAC_Final :: "'c \<Rightarrow> int \<times> byte list \<times> 'c"

definition c_int :: "size_t \<Rightarrow> int" where
  "c_int x = sint (ucast x :: uint)"

definition be32 :: "uint \<Rightarrow> byte list" where
  "be32 i = [ucast (drop_bit 24 i AND 0xFF), ucast (drop_bit 16 i AND 0xFF),
             ucast (drop_bit 8 i AND 0xFF), ucast (i AND 0xFF)]"

text \<open>One call of \<^verbatim>\<open>wolfSSL_HMAC_Update\<close> whose failure leads to \<open>cleanup\<close>, the value \<open>None\<close>.\<close>

definition hmac_add :: "'c hmac_lib \<Rightarrow> byte list \<Rightarrow> int \<Rightarrow> 'c \<Rightarrow> 'c option" where
  "hmac_add lib d n c = (case HMAC_Update lib c d n of (r, c') \<Rightarrow> if r \<noteq> 1 then None else Some c')"

definition hmac_start :: "'c hmac_lib \<Rightarrow> byte list \<Rightarrow> int \<Rightarrow> string \<Rightarrow> 'c \<Rightarrow> 'c option" where
  "hmac_start lib k n md c = (case HMAC_Init_ex lib c k n md of (r, c') \<Rightarrow> if r \<noteq> 1 then None else Some c')"

definition hmac_end :: "'c hmac_lib \<Rightarrow> 'c \<Rightarrow> (byte list \<times> 'c) option" where
  "hmac_end lib c = (case HMAC_Final lib c of (r, d, c') \<Rightarrow> if r \<noteq> 1 then None else Some (d, c'))"

text \<open>The loop bodies up to \<^verbatim>\<open>wolfSSL_HMAC_Final\<close>: the digest of one block, \<open>None\<close> for \<^verbatim>\<open>goto cleanup\<close>.\<close>

definition kbkdf_block ::
    "'c hmac_lib \<Rightarrow> string \<Rightarrow> byte list \<Rightarrow> size_t \<Rightarrow> byte list option \<Rightarrow> size_t \<Rightarrow> uint \<Rightarrow> 'c \<Rightarrow>
     (byte list \<times> 'c) option" where
  "kbkdf_block lib md key key_len info info_len i c = do {
     c \<leftarrow> hmac_start lib key (c_int key_len) md c;
     c \<leftarrow> hmac_add lib (be32 i) 4 c;
     c \<leftarrow> (case info of Some f \<Rightarrow> if info_len > 0 then hmac_add lib f (c_int info_len) c else Some c
                     | None \<Rightarrow> Some c);
     hmac_end lib c }"

definition sskdf_block ::
    "'c hmac_lib \<Rightarrow> string \<Rightarrow> byte list \<Rightarrow> size_t \<Rightarrow> byte list option \<Rightarrow> size_t \<Rightarrow> byte list \<Rightarrow> size_t \<Rightarrow> uint \<Rightarrow> 'c \<Rightarrow>
     (byte list \<times> 'c) option" where
  "sskdf_block lib md secret secret_len info info_len salt salt_len i c = do {
     c \<leftarrow> hmac_start lib salt (c_int salt_len) md c;
     c \<leftarrow> hmac_add lib (be32 i) 4 c;
     c \<leftarrow> hmac_add lib secret (c_int secret_len) c;
     c \<leftarrow> (case info of Some f \<Rightarrow> if info_len > 0 then hmac_add lib f (c_int info_len) c else Some c
                     | None \<Rightarrow> Some c);
     hmac_end lib c }"

text \<open>
  \<^verbatim>\<open>for (unsigned int i = 1; done < out_len; i++)\<close> with \<open>block\<close> as the first part of the body;
  \<^verbatim>\<open>hmac_buf\<close> has 64 bytes, and the digest overflows it when it is longer.
\<close>

partial_function (option) kdf_loop ::
    "(uint \<Rightarrow> 'c \<Rightarrow> (byte list \<times> 'c) option) \<Rightarrow> size_t \<Rightarrow> uint \<Rightarrow> size_t \<Rightarrow> byte list \<Rightarrow> 'c \<Rightarrow>
     (int \<times> byte list) option" where
  "kdf_loop block out_len i done ob c =
    (if done < out_len then
       (case block i c of
          None \<Rightarrow> Some (0, ob)
        | Some (d, c') \<Rightarrow>
            poke (replicate 64 0) 0 d \<bind> (\<lambda>hmac_buf.
            let hmac_len = of_nat (length d) :: size_t; remaining = out_len - done;
                to_copy = (if remaining < hmac_len then remaining else hmac_len)
            in memcpy_at ob (unat done) hmac_buf 0 (unat to_copy) \<bind> (\<lambda>ob'.
               kdf_loop block out_len (i + 1) (done + to_copy) ob' c')))
     else Some (1, ob))"

definition KBKDF_ctr_hmac ::
    "'c hmac_lib \<Rightarrow> byte list option \<Rightarrow> size_t \<Rightarrow> string option \<Rightarrow> byte list option \<Rightarrow> size_t \<Rightarrow>
     byte list option \<Rightarrow> size_t \<Rightarrow> (int \<times> byte list option) option" where
  "KBKDF_ctr_hmac lib out out_len digest key key_len info info_len =
    (case (out, digest, key) of
       (Some ob, Some md, Some k) \<Rightarrow>
         if out_len = 0 \<or> key_len = 0 then Some (0, out)
         else let md_size = EVP_MD_size lib md
         in if md_size \<le> 0 \<or> md_size > 64 then Some (0, out)
         else let n = (out_len + of_int md_size - 1) div of_int md_size
         in if n > 0xFFFFFFFF then Some (0, out)
         else (case HMAC_CTX_new lib of
             None \<Rightarrow> Some (0, out)
           | Some c \<Rightarrow> do {
               (ret, ob') \<leftarrow> kdf_loop (kbkdf_block lib md k key_len info info_len) out_len 1 0 ob c;
               Some (ret, Some ob') })
     | _ \<Rightarrow> Some (0, out))"

section \<open>The one-step KDFs\<close>

datatype wc_HashType = WC_HASH_TYPE_NONE | WC_HASH_TYPE_SHA | WC_HASH_TYPE_SHA224 | WC_HASH_TYPE_SHA256
  | WC_HASH_TYPE_SHA384 | WC_HASH_TYPE_SHA512

definition evp_md_to_wc_hash_type :: "string \<Rightarrow> wc_HashType" where
  "evp_md_to_wc_hash_type md =
    (if md = ''SHA224'' \<or> md = ''sha224'' then WC_HASH_TYPE_SHA224
     else if md = ''SHA256'' \<or> md = ''sha256'' then WC_HASH_TYPE_SHA256
     else if md = ''SHA384'' \<or> md = ''sha384'' then WC_HASH_TYPE_SHA384
     else if md = ''SHA512'' \<or> md = ''sha512'' then WC_HASH_TYPE_SHA512
     else WC_HASH_TYPE_NONE)"

type_synonym onestep_fun = "byte list \<Rightarrow> uint \<Rightarrow> byte list option \<Rightarrow> uint \<Rightarrow> uint \<Rightarrow> wc_HashType \<Rightarrow>
  byte list \<Rightarrow> uint \<Rightarrow> int \<times> byte list"

definition SSKDF_digest ::
    "onestep_fun \<Rightarrow> byte list option \<Rightarrow> size_t \<Rightarrow> string option \<Rightarrow> byte list option \<Rightarrow> size_t \<Rightarrow>
     byte list option \<Rightarrow> size_t \<Rightarrow> int \<times> byte list option" where
  "SSKDF_digest onestep out out_len digest secret secret_len info info_len =
    (case (out, digest, secret) of
       (Some ob, Some md, Some s) \<Rightarrow>
         if out_len = 0 \<or> secret_len = 0 then (0, out)
         else let hashType = evp_md_to_wc_hash_type md
         in if hashType = WC_HASH_TYPE_NONE then (0, out)
         else let (ret, ob') = onestep s (ucast secret_len) info (ucast info_len) (ucast out_len) hashType
                                 ob (ucast out_len)
         in (if ret = 0 then 1 else 0, Some ob')
     | _ \<Rightarrow> (0, out))"

definition SSKDF_hmac ::
    "'c hmac_lib \<Rightarrow> byte list option \<Rightarrow> size_t \<Rightarrow> string option \<Rightarrow> byte list option \<Rightarrow> size_t \<Rightarrow>
     byte list option \<Rightarrow> size_t \<Rightarrow> byte list option \<Rightarrow> size_t \<Rightarrow> (int \<times> byte list option) option" where
  "SSKDF_hmac lib out out_len digest secret secret_len info info_len salt salt_len =
    (case (out, digest, secret) of
       (Some ob, Some md, Some s) \<Rightarrow>
         if out_len = 0 \<or> secret_len = 0 then Some (0, out)
         else let md_size = EVP_MD_size lib md
         in if md_size \<le> 0 \<or> md_size > 64 then Some (0, out)
         else let block_size = EVP_MD_block_size lib md;
                  given = (salt \<noteq> None \<and> salt_len \<noteq> 0)
         in if \<not> given \<and> (block_size \<le> 0 \<or> block_size > 144) then Some (0, out)
         else let salt' = (if given then the salt else replicate (nat block_size) 0);
                  salt_len' = (if given then salt_len else of_int block_size)
         in (case HMAC_CTX_new lib of
             None \<Rightarrow> Some (0, out)
           | Some c \<Rightarrow> do {
               (ret, ob') \<leftarrow> kdf_loop (sskdf_block lib md s secret_len info info_len salt' salt_len')
                              out_len 1 0 ob c;
               Some (ret, Some ob') })
     | _ \<Rightarrow> Some (0, out))"

section \<open>The counter loop concatenates the blocks\<close>

text \<open>The first \<open>n\<close> bytes of \<open>F 1 @ F 2 @ \<dots>\<close>, the counter being the 32-bit number \<open>i\<close>.\<close>

definition blocks :: "(uint \<Rightarrow> byte list) \<Rightarrow> uint \<Rightarrow> nat \<Rightarrow> byte list" where
  "blocks F i k = concat (map (\<lambda>j. F (i + of_nat j)) [0..<k])"

lemma blocks_Suc: "blocks F i (Suc k) = F i @ blocks F (i + 1) k"
proof -
  have "map (\<lambda>j. F (i + of_nat j)) [0..<Suc k] = F i # map (\<lambda>j. F (i + 1 + of_nat j)) [0..<k]"
    unfolding upt_conv_Cons [OF zero_less_Suc] map_Suc_upt [symmetric] by (simp add: comp_def add.assoc)
  then show ?thesis by (simp add: blocks_def)
qed

lemma length_blocks: "(\<And>j. length (F j) = m) \<Longrightarrow> length (blocks F i k) = k * m"
  by (simp add: blocks_def length_concat comp_def sum_list_triv)

lemma kdf_loop_blocks:
  assumes b: "\<And>i c. Inv c \<Longrightarrow> \<exists>c'. block i c = Some (F i, c') \<and> Inv c'"
    and m: "\<And>j. length (F j) = m" "0 < m" "m \<le> 64"
    and "Inv c" "unat done \<le> unat out_len" "unat out_len \<le> length ob"
    and "unat out_len - unat done \<le> k * m"
  shows "kdf_loop block out_len i done ob c =
    Some (1, take (unat done) ob @ take (unat out_len - unat done) (blocks F i k) @ drop (unat out_len) ob)"
  using assms(5-)
proof (induction k arbitrary: i "done" ob c)
  case 0
  then have "unat done = unat out_len" by simp
  then have "done = out_len" by (simp add: word_unat_eq_iff)
  then show ?case by (subst kdf_loop.simps) (simp add: blocks_def)
next
  case (Suc k)
  show ?case
  proof (cases "done < out_len")
    case False
    with Suc.prems have "done = out_len" by (simp add: word_less_nat_alt word_unat_eq_iff)
    then show ?thesis by (subst kdf_loop.simps) simp
  next
    case True
    then have lt: "unat done < unat out_len" by (simp add: word_less_nat_alt)
    obtain c' where c': "block i c = Some (F i, c')" "Inv c'" using b Suc.prems(1) by blast
    define rem where "rem = out_len - done"
    define to_copy where "to_copy = (if rem < of_nat m then rem else of_nat m)"
    have ur: "unat rem = unat out_len - unat done" unfolding rem_def using lt by (intro unat_sub) (simp add: word_le_nat_alt)
    have um: "unat (of_nat m :: size_t) = m" using m(3) by (simp add: unat_of_nat)
    have ut: "unat to_copy = min (unat out_len - unat done) m"
      using ur um by (simp add: to_copy_def word_less_nat_alt)
    have ud: "unat (done + to_copy) = unat done + unat to_copy"
    proof -
      have "unat done + unat to_copy < 2 ^ 64" using ut lt unat_less_64 [of out_len] by linarith
      then show ?thesis by (simp add: unat_word_ariths)
    qed
    define ob' where "ob' = take (unat done) ob @ take (unat to_copy) (F i) @ drop (unat done + unat to_copy) ob"
    have pk: "poke (replicate 64 0) 0 (F i) = Some (F i @ replicate (64 - m) 0)" using m by (simp add: poke_def)
    have mc: "memcpy_at ob (unat done) (F i @ replicate (64 - m) 0) 0 (unat to_copy) = Some ob'"
      using m ut lt Suc.prems by (simp add: memcpy_at_Some ob'_def)
    have lo: "length ob' = length ob" using m ut lt Suc.prems by (simp add: ob'_def)
    have "kdf_loop block out_len i done ob c = kdf_loop block out_len (i + 1) (done + to_copy) ob' c'"
      using True mc unfolding to_copy_def
      by (subst kdf_loop.simps) (auto simp: c' pk m Let_def rem_def [symmetric] split: if_splits)
    also have "\<dots> = Some (1, take (unat (done + to_copy)) ob' @
        take (unat out_len - unat (done + to_copy)) (blocks F (i + 1) k) @ drop (unat out_len) ob')"
      using Suc.prems lt ut m(2) by (intro Suc.IH) (auto simp: c' ud lo)
    also have "take (unat (done + to_copy)) ob' = take (unat done) ob @ take (unat to_copy) (F i)"
      using lt ut m Suc.prems by (simp add: ud ob'_def)
    also have "drop (unat out_len) ob' = drop (unat out_len) ob"
      using lt ut m Suc.prems by (simp add: ob'_def)
    finally show ?thesis using ut m by (simp add: ud blocks_Suc min_def)
  qed
qed

section \<open>Properties\<close>

text \<open>
  What is relied on of wolfSSL's HMAC: a context that was initialised with a key and updated with some
  data holds them (the relation \<open>R\<close>), and \<^verbatim>\<open>wolfSSL_HMAC_Final\<close> writes the HMAC of the data, which has
  the size of the digest.
\<close>

definition hmac_spec ::
    "'c hmac_lib \<Rightarrow> string \<Rightarrow> (byte list \<Rightarrow> byte list \<Rightarrow> byte list) \<Rightarrow> ('c \<Rightarrow> byte list \<Rightarrow> byte list \<Rightarrow> bool) \<Rightarrow> bool" where
  "hmac_spec lib md H R \<longleftrightarrow>
     (\<forall>c k n. n \<le> length k \<longrightarrow> (\<exists>c'. HMAC_Init_ex lib c k (int n) md = (1, c') \<and> R c' (take n k) [])) \<and>
     (\<forall>c k m d n. R c k m \<longrightarrow> n \<le> length d \<longrightarrow>
        (\<exists>c'. HMAC_Update lib c d (int n) = (1, c') \<and> R c' k (m @ take n d))) \<and>
     (\<forall>c k m. R c k m \<longrightarrow> (\<exists>c'. HMAC_Final lib c = (1, H k m, c'))) \<and>
     (\<forall>k m. int (length (H k m)) = EVP_MD_size lib md) \<and> 0 < EVP_MD_size lib md \<and> EVP_MD_size lib md \<le> 64"

lemma hmac_start_ok:
  assumes "hmac_spec lib md H R" "n \<le> length k"
  obtains c' where "hmac_start lib k (int n) md c = Some c'" "R c' (take n k) []"
proof -
  from assms obtain c' where "HMAC_Init_ex lib c k (int n) md = (1, c')" "R c' (take n k) []"
    unfolding hmac_spec_def by blast
  then show ?thesis by (intro that [of c']) (simp_all add: hmac_start_def)
qed

lemma hmac_add_ok:
  assumes "hmac_spec lib md H R" "R c k m" "n \<le> length d"
  obtains c' where "hmac_add lib d (int n) c = Some c'" "R c' k (m @ take n d)"
proof -
  from assms obtain c' where "HMAC_Update lib c d (int n) = (1, c')" "R c' k (m @ take n d)"
    unfolding hmac_spec_def by blast
  then show ?thesis by (intro that [of c']) (simp_all add: hmac_add_def)
qed

lemma hmac_end_ok:
  assumes "hmac_spec lib md H R" "R c k m"
  shows "\<exists>c'. hmac_end lib c = Some (H k m, c')"
proof -
  from assms obtain c' where "HMAC_Final lib c = (1, H k m, c')" unfolding hmac_spec_def by blast
  then show ?thesis by (simp add: hmac_end_def)
qed

lemma c_int_small:
  assumes "unat x < 2 ^ 31"
  shows "c_int x = int (unat x)"
proof -
  have u: "unat (ucast x :: uint) = unat x" using assms by (simp add: unsigned_ucast_eq take_bit_nat_eq_self)
  have "int (unat x) < int (2 ^ 31)" using assms by (simp only: of_nat_less_iff)
  then have v31: "int (unat x) < 2 ^ 31" by simp
  from arg_cong [OF u, of int] have v: "uint (ucast x :: uint) = int (unat x)" by simp
  have "c_int x = signed_take_bit 31 (uint (ucast x :: uint))" by (simp add: c_int_def sint_uint)
  also have "\<dots> = int (unat x)" unfolding v
    by (rule signed_take_bit_int_eq_self) (use v31 in linarith)+
  finally show ?thesis .
qed

definition opt_bytes :: "byte list option \<Rightarrow> size_t \<Rightarrow> byte list" where
  "opt_bytes d n = (case d of None \<Rightarrow> [] | Some x \<Rightarrow> take (unat n) x)"

definition readable :: "byte list option \<Rightarrow> size_t \<Rightarrow> bool" where
  "readable d n \<longleftrightarrow> unat n < 2 ^ 31 \<and> (\<forall>x. d = Some x \<longrightarrow> unat n \<le> length x)"

lemma opt_add_ok:
  assumes "hmac_spec lib md H R" "R c k m" "readable d n"
  shows "\<exists>c'. (case d of Some f \<Rightarrow> if n > 0 then hmac_add lib f (c_int n) c else Some c | None \<Rightarrow> Some c) = Some c'
    \<and> R c' k (m @ opt_bytes d n)"
proof (cases d)
  case (Some f)
  have n: "c_int n = int (unat n)" "unat n \<le> length f" using assms(3) Some by (simp_all add: readable_def c_int_small)
  then obtain c' where "hmac_add lib f (c_int n) c = Some c'" "R c' k (m @ take (unat n) f)"
    using hmac_add_ok [OF assms(1,2) n(2)] by (metis n(1))
  moreover have "n > 0 \<or> unat n = 0" by (simp add: word_gt_0 unat_eq_zero)
  ultimately show ?thesis using assms(2) Some by (auto simp: opt_bytes_def)
qed (use assms(2) in \<open>simp add: opt_bytes_def\<close>)

lemma kbkdf_block_ok:
  assumes h: "hmac_spec lib md H R" and k: "readable (Some key) key_len" and f: "readable info info_len"
  shows "\<exists>c'. kbkdf_block lib md key key_len info info_len i c =
    Some (H (take (unat key_len) key) (be32 i @ opt_bytes info info_len), c')"
proof -
  have kl: "c_int key_len = int (unat key_len)" "unat key_len \<le> length key" using k by (simp_all add: readable_def c_int_small)
  obtain c1 where c1: "hmac_start lib key (c_int key_len) md c = Some c1" "R c1 (take (unat key_len) key) []"
    using hmac_start_ok [OF h kl(2), of c] by (metis kl(1))
  obtain c2 where c2: "hmac_add lib (be32 i) 4 c1 = Some c2" "R c2 (take (unat key_len) key) (be32 i)"
    using hmac_add_ok [OF h c1(2), of 4 "be32 i"] by (auto simp: be32_def)
  obtain c3 where c3: "(case info of Some f \<Rightarrow> if info_len > 0 then hmac_add lib f (c_int info_len) c2 else Some c2 | None \<Rightarrow> Some c2) = Some c3"
    "R c3 (take (unat key_len) key) (be32 i @ opt_bytes info info_len)"
    using opt_add_ok [OF h c2(2) f] by auto
  from hmac_end_ok [OF h c3(2)] show ?thesis unfolding kbkdf_block_def by (simp add: c1 c2 c3)
qed

lemma sskdf_block_ok:
  assumes h: "hmac_spec lib md H R" and k: "readable (Some salt) salt_len" and f: "readable info info_len"
    and z: "readable (Some secret) secret_len"
  shows "\<exists>c'. sskdf_block lib md secret secret_len info info_len salt salt_len i c =
    Some (H (take (unat salt_len) salt) (be32 i @ take (unat secret_len) secret @ opt_bytes info info_len), c')"
proof -
  have kl: "c_int salt_len = int (unat salt_len)" "unat salt_len \<le> length salt" using k by (simp_all add: readable_def c_int_small)
  have zl: "c_int secret_len = int (unat secret_len)" "unat secret_len \<le> length secret" using z by (simp_all add: readable_def c_int_small)
  obtain c1 where c1: "hmac_start lib salt (c_int salt_len) md c = Some c1" "R c1 (take (unat salt_len) salt) []"
    using hmac_start_ok [OF h kl(2), of c] by (metis kl(1))
  obtain c2 where c2: "hmac_add lib (be32 i) 4 c1 = Some c2" "R c2 (take (unat salt_len) salt) (be32 i)"
    using hmac_add_ok [OF h c1(2), of 4 "be32 i"] by (auto simp: be32_def)
  obtain c4 where c4: "hmac_add lib secret (c_int secret_len) c2 = Some c4"
    "R c4 (take (unat salt_len) salt) (be32 i @ take (unat secret_len) secret)"
    using hmac_add_ok [OF h c2(2) zl(2)] by (metis zl(1))
  obtain c3 where c3: "(case info of Some f \<Rightarrow> if info_len > 0 then hmac_add lib f (c_int info_len) c4 else Some c4 | None \<Rightarrow> Some c4) = Some c3"
    "R c3 (take (unat salt_len) salt) (be32 i @ take (unat secret_len) secret @ opt_bytes info info_len)"
    using opt_add_ok [OF h c4(2) f] by auto
  from hmac_end_ok [OF h c3(2)] show ?thesis unfolding sskdf_block_def by (simp add: c1 c2 c3 c4)
qed

text \<open>The number of blocks, as the code computes it and as a natural number.\<close>

definition n_blocks :: "nat \<Rightarrow> nat \<Rightarrow> nat" where
  "n_blocks len m = (len + m - 1) div m"

lemma n_blocks_enough: "0 < m \<Longrightarrow> len \<le> n_blocks len m * m"
  unfolding n_blocks_def using mod_less_divisor [of m "len + m - 1"] div_mult_mod_eq [of "len + m - 1" m] by linarith

lemma n_blocks_word:
  assumes "0 < s" "s \<le> 64" "unat x \<le> 2 ^ 63" "0 < unat x"
  shows "unat ((x + of_int s - 1) div of_int s :: size_t) = n_blocks (unat x) (nat s)"
proof -
  have s: "(of_int s :: size_t) = of_nat (nat s)" using assms(1) by simp
  have us: "unat (of_nat (nat s) :: size_t) = nat s" using assms(2) by (simp add: unat_of_nat)
  have a: "unat (x + of_nat (nat s)) = unat x + nat s" using assms us by (simp add: unat_word_ariths)
  have "unat (x + of_nat (nat s) - 1) = unat x + nat s - 1"
    by (subst unat_sub) (use a assms in \<open>simp_all add: word_le_nat_alt\<close>)
  then show ?thesis unfolding s by (simp add: unat_div us n_blocks_def)
qed

lemma kdf_loop_hmac:
  assumes h: "hmac_spec lib md H R" and ms: "EVP_MD_size lib md = int m"
    and b: "\<And>i c. \<exists>c'. block i c = Some (H k (f i), c')"
    and o: "unat out_len \<le> length ob"
  shows "kdf_loop block out_len 1 0 ob c = Some (1,
    take (unat out_len) (blocks (\<lambda>i. H k (f i)) 1 (n_blocks (unat out_len) m)) @ drop (unat out_len) ob)"
proof -
  have m: "length (H k (f i)) = m" "0 < m" "m \<le> 64" for i
    using h ms unfolding hmac_spec_def by (metis of_nat_eq_iff, simp_all)
  from kdf_loop_blocks [of "\<lambda>_. True" block "\<lambda>i. H k (f i)" m c 0 out_len ob "n_blocks (unat out_len) m" 1]
  show ?thesis using b m o n_blocks_enough [of m "unat out_len"] by simp
qed

lemma hmac_spec_md_size: "hmac_spec lib md H R \<Longrightarrow> \<not> (EVP_MD_size lib md \<le> 0 \<or> EVP_MD_size lib md > 64)"
  unfolding hmac_spec_def by auto

text \<open>A concrete HMAC for the witnesses: the context holds the key and the data, and the digest
  is the sum of all bytes.\<close>

definition sum_hmac :: "byte list \<Rightarrow> byte list \<Rightarrow> byte list" where
  "sum_hmac k m = [foldl (+) 0 (k @ m)]"

definition sum_lib :: "(byte list \<times> byte list) hmac_lib" where
  "sum_lib = \<lparr> EVP_MD_size = (\<lambda>_. 1), EVP_MD_block_size = (\<lambda>_. 2), HMAC_CTX_new = Some ([], []),
     HMAC_Init_ex = (\<lambda>c k n md. (1, (take (nat n) k, []))),
     HMAC_Update = (\<lambda>c d n. (1, (fst c, snd c @ take (nat n) d))),
     HMAC_Final = (\<lambda>c. (1, sum_hmac (fst c) (snd c), c)) \<rparr>"

lemma sum_lib_spec: "hmac_spec sum_lib md sum_hmac (\<lambda>c k m. c = (k, m))"
  by (simp add: hmac_spec_def sum_lib_def sum_hmac_def)

text \<open>C27: The counter-mode KDF returns the prefix of length \<open>out_len\<close> of the blocks
  \<open>HMAC(key, [1] @ info) @ HMAC(key, [2] @ info) @ \<dots>\<close> in the first \<open>out_len\<close> bytes of the buffer and
  nothing else, and it ends; when more than \<open>2\<^sup>3\<^sup>2 - 1\<close> blocks are needed it returns 0 and
  writes nothing.\<close>

theorem KBKDF_ctr_hmac_correct:
  assumes h: "hmac_spec lib md H R" and ms: "EVP_MD_size lib md = int m" and c: "HMAC_CTX_new lib = Some c"
    and k: "readable (Some key) key_len" "key_len \<noteq> 0" and f: "readable info info_len"
    and o: "out_len \<noteq> 0" "unat out_len \<le> 2 ^ 63" "unat out_len \<le> length ob"
  shows "KBKDF_ctr_hmac lib (Some ob) out_len (Some md) (Some key) key_len info info_len =
    (if n_blocks (unat out_len) m < 2 ^ 32 then
       Some (1, Some (take (unat out_len)
         (blocks (\<lambda>i. H (take (unat key_len) key) (be32 i @ opt_bytes info info_len)) 1 (n_blocks (unat out_len) m))
         @ drop (unat out_len) ob))
     else Some (0, Some ob))"
proof -
  have s: "0 < int m" "int m \<le> 64" using hmac_spec_md_size [OF h] ms by auto
  have "0 < unat out_len" using o(1) by (simp add: unat_gt_0)
  then have n: "unat ((out_len + of_int (EVP_MD_size lib md) - 1) div of_int (EVP_MD_size lib md)) = n_blocks (unat out_len) m"
    unfolding ms using n_blocks_word [OF s o(2)] by simp
  have lim: "(out_len + of_int (EVP_MD_size lib md) - 1) div of_int (EVP_MD_size lib md) > 0xFFFFFFFF
    \<longleftrightarrow> \<not> n_blocks (unat out_len) m < 2 ^ 32"
    by (simp only: word_less_nat_alt n) auto
  note loop = kdf_loop_hmac [OF h ms kbkdf_block_ok [OF h k(1) f] o(3), where c = c]
  have z: "\<not> (out_len = 0 \<or> key_len = 0)" using o k by simp
  show ?thesis
    unfolding KBKDF_ctr_hmac_def option.case prod.case Let_def if_not_P [OF z] if_not_P [OF hmac_spec_md_size [OF h]] lim c loop
    by simp
qed

theorem KBKDF_ctr_hmac_correct_witness:
  "KBKDF_ctr_hmac sum_lib (Some [9, 9, 9, 9]) 3 (Some ''SHA256'') (Some [10, 20]) 2 (Some [5]) 1 =
   Some (1, Some [36, 37, 38, 9])"
  using KBKDF_ctr_hmac_correct [OF sum_lib_spec, of _ 1 "([], [])" "[10, 20]" 2 "Some [5]" 1 3 "[9, 9, 9, 9]"]
  by (simp add: sum_lib_def readable_def opt_bytes_def n_blocks_def blocks_def sum_hmac_def be32_def upt_conv_Cons)

text \<open>C28: The HMAC one-step KDF computes SP 800-56C: the prefix of the blocks
  \<open>HMAC(salt, counter @ Z @ info)\<close>, with a salt of zeros of the block size when none is given.\<close>

theorem SSKDF_hmac_correct:
  assumes h: "hmac_spec lib md H R" and ms: "EVP_MD_size lib md = int m" and c: "HMAC_CTX_new lib = Some c"
    and bs: "EVP_MD_block_size lib md = int bs" "0 < bs" "bs \<le> 144"
    and z: "readable (Some secret) secret_len" "secret_len \<noteq> 0" and f: "readable info info_len"
    and t: "readable salt salt_len"
    and o: "out_len \<noteq> 0" "unat out_len \<le> length ob"
  shows "SSKDF_hmac lib (Some ob) out_len (Some md) (Some secret) secret_len info info_len salt salt_len =
    Some (1, Some (take (unat out_len)
      (blocks (\<lambda>i. H (if salt = None \<or> salt_len = 0 then replicate bs 0 else opt_bytes salt salt_len)
         (be32 i @ take (unat secret_len) secret @ opt_bytes info info_len)) 1 (n_blocks (unat out_len) m))
      @ drop (unat out_len) ob))"
proof -
  have e: "\<not> (out_len = 0 \<or> secret_len = 0)" using o z by simp
  note defs = SSKDF_hmac_def option.case prod.case Let_def if_not_P [OF e] if_not_P [OF hmac_spec_md_size [OF h]] c
  show ?thesis
  proof (cases "salt = None \<or> salt_len = 0")
    case True
    have u: "unat (of_int (int bs) :: size_t) = bs" using bs by (simp add: unat_of_nat)
    then have "readable (Some (replicate bs 0)) (of_int (int bs))" using bs by (simp add: readable_def)
    from kdf_loop_hmac [OF h ms sskdf_block_ok [OF h this f z(1)] o(2), where c = c]
    show ?thesis using True bs u unfolding defs by (auto simp: bs(1))
  next
    case False
    then obtain s where s: "salt = Some s" "salt_len \<noteq> 0" by auto
    from kdf_loop_hmac [OF h ms sskdf_block_ok [OF h t [unfolded s(1)] f z(1)] o(2), where c = c]
    show ?thesis using s unfolding defs by (simp add: opt_bytes_def)
  qed
qed

theorem SSKDF_hmac_correct_witness:
  "SSKDF_hmac sum_lib (Some [9, 9, 9]) 2 (Some ''SHA256'') (Some [10, 20]) 2 (Some [5]) 1 None 0 =
   Some (1, Some [36, 37, 9])"
  using SSKDF_hmac_correct [OF sum_lib_spec, of _ 1 "([], [])" 2 "[10, 20]" 2 "Some [5]" 1 None 0 2 "[9, 9, 9]"]
  by (simp add: sum_lib_def readable_def opt_bytes_def n_blocks_def blocks_def sum_hmac_def be32_def upt_conv_Cons)
    (simp add: numeral_2_eq_2)

lemma drop_blocks:
  assumes "\<And>j. length (F j) = m"
  shows "drop (a * m) (blocks F i (a + b)) = blocks F (i + of_nat a) b"
proof -
  have "map (\<lambda>j. F (i + of_nat j)) [0..<a + b] = map (\<lambda>j. F (i + of_nat j)) [0..<a] @ map (\<lambda>j. F (i + of_nat a + of_nat j)) [0..<b]"
    by (rule nth_equalityI) (auto simp: nth_append add.assoc simp flip: of_nat_add)
  then have "blocks F i (a + b) = blocks F i a @ blocks F (i + of_nat a) b" by (simp add: blocks_def)
  then show ?thesis by (simp add: length_blocks [OF assms])
qed

text \<open>Unlike the counter-mode KDF, \<^verbatim>\<open>SSKDF_hmac\<close> does not limit the number of blocks: its 32-bit
  counter wraps, and for \<open>out_len\<close> of more than \<open>2\<^sup>3\<^sup>2\<close> blocks it returns 1 with an output that
  repeats: the bytes after the first \<open>2\<^sup>3\<^sup>2\<close> blocks start with the first block again.\<close>

lemma SSKDF_hmac_repeats:
  assumes h: "hmac_spec lib md H R" and ms: "EVP_MD_size lib md = int m" and c: "HMAC_CTX_new lib = Some c"
    and s: "readable (Some salt) salt_len" "salt_len \<noteq> 0"
    and z: "readable (Some secret) secret_len" "secret_len \<noteq> 0" and f: "readable info info_len"
    and o: "2 ^ 32 * m + m \<le> unat out_len" "unat out_len \<le> length ob"
  shows "\<exists>ob'. SSKDF_hmac lib (Some ob) out_len (Some md) (Some secret) secret_len info info_len (Some salt) salt_len =
      Some (1, Some ob') \<and> take m (drop (2 ^ 32 * m) ob') = take m ob'"
proof -
  define F where "F i = H (take (unat salt_len) salt) (be32 i @ take (unat secret_len) secret @ opt_bytes info info_len)" for i
  define n where "n = n_blocks (unat out_len) m"
  have m: "length (F i) = m" "0 < m" for i using h ms unfolding hmac_spec_def F_def by (metis of_nat_eq_iff, simp)
  have o0: "out_len \<noteq> 0" using o(1) m(2) by auto
  have e: "\<not> (out_len = 0 \<or> secret_len = 0)" using o0 z by simp
  let ?ob = "take (unat out_len) (blocks F 1 n) @ drop (unat out_len) ob"
  have "SSKDF_hmac lib (Some ob) out_len (Some md) (Some secret) secret_len info info_len (Some salt) salt_len =
      Some (1, Some ?ob)"
    using kdf_loop_hmac [OF h ms sskdf_block_ok [OF h s(1) f z(1)] o(2), where c = c] s(2)
    unfolding SSKDF_hmac_def option.case prod.case Let_def if_not_P [OF e] if_not_P [OF hmac_spec_md_size [OF h]] c
    by (simp add: F_def [abs_def] n_def)
  moreover have "take m (drop (2 ^ 32 * m) ?ob) = take m ?ob"
  proof -
    have "(2 ^ 32 + 1) * m \<le> n * m" 
      unfolding n_def by (rule order_trans [OF _ n_blocks_enough [OF m(2)]]) (use o(1) in \<open>simp only: add_mult_distrib mult_1\<close>)
    then have "2 ^ 32 + 1 \<le> n" using m(2) by (metis mult_le_cancel2)
    then have "2 ^ 32 + Suc (n - 2 ^ 32 - 1) = n" by linarith
    then obtain k where n: "n = 2 ^ 32 + Suc k" by metis
    have n': "n = 0 + Suc (2 ^ 32 + k)" using n by simp
    have w: "(1 :: uint) + of_nat (2 ^ 32) = 1" by simp
    have "take m (drop (2 ^ 32 * m) (blocks F 1 n)) = F 1"
      unfolding n drop_blocks [OF m(1)] w blocks_Suc by (simp add: m(1))
    moreover have "take m (blocks F 1 n) = F 1" unfolding n' add_0 blocks_Suc by (simp add: m(1))
    moreover have "length (blocks F 1 n) = n * m" by (rule length_blocks [OF m(1)])
    moreover have "unat out_len \<le> n * m" unfolding n_def by (rule n_blocks_enough [OF m(2)])
    moreover have "take m (drop (2 ^ 32 * m) ?ob) = take m (drop (2 ^ 32 * m) (blocks F 1 n))"
    proof -
      have "m \<le> unat out_len - 2 ^ 32 * m" "m \<le> n * m - 2 ^ 32 * m" using o calculation(4) by linarith+
      then show ?thesis using o calculation(3,4) by (simp add: drop_take)
    qed
    moreover have "take m ?ob = take m (blocks F 1 n)" using o calculation(3,4) by (simp add: min_def)
    ultimately show ?thesis by simp
  qed
  ultimately show ?thesis by blast
qed

text \<open>C29: The TLS PRF adapter calls \<^verbatim>\<open>wc_PRF_TLS\<close> with the concatenation of the two seeds and its
  length, for every digest it knows and seeds of at most 256 bytes together, and returns 1 exactly
  when that call returns 0; an unknown digest or longer seeds give 0 with nothing written.\<close>

theorem CRYPTO_tls1_prf_correct:
  assumes o: "out_len \<noteq> 0" and j: "length junk = 256"
    and s: "readable seed1 n1" "readable seed2 n2" "seed1 = None \<longrightarrow> n1 = 0" "seed2 = None \<longrightarrow> n2 = 0"
  shows "CRYPTO_tls1_prf prf junk (Some md) (Some ob) out_len (Some secret) secret_len (Some label) label_len seed1 n1 seed2 n2 =
    (if md \<in> {''SHA256'', ''sha256'', ''SHA384'', ''sha384'', ''SHA512'', ''sha512''} \<and> unat n1 + unat n2 \<le> 256 then
       let sd = opt_bytes seed1 n1 @ opt_bytes seed2 n2;
           (ret, ob') = prf ob (ucast out_len) secret (ucast secret_len) label (ucast label_len)
             (sd @ drop (length sd) junk) (of_nat (length sd)) 1 (evp_md_to_mac_type md)
       in Some (if ret = 0 then 1 else 0, Some ob')
     else Some (0, Some ob))"
proof -
  have mt: "evp_md_to_mac_type md < 0 \<longleftrightarrow> md \<notin> {''SHA256'', ''sha256'', ''SHA384'', ''sha384'', ''SHA512'', ''sha512''}"
    by (simp add: evp_md_to_mac_type_def)
  have b: "unat n1 < 2 ^ 31" "unat n2 < 2 ^ 31" using s by (simp_all add: readable_def)
  then have u: "unat (n1 + n2) = unat n1 + unat n2" by (simp add: unat_word_ariths)
  then have lim: "n1 + n2 > 256 \<longleftrightarrow> \<not> unat n1 + unat n2 \<le> 256" by (simp add: word_less_nat_alt not_le)
  have l: "length (opt_bytes seed1 n1) = unat n1" "length (opt_bytes seed2 n2) = unat n2"
    using s by (auto simp: opt_bytes_def readable_def split: option.splits)
  let ?j1 = "opt_bytes seed1 n1 @ drop (unat n1) junk"
  let ?j2 = "opt_bytes seed1 n1 @ opt_bytes seed2 n2 @ drop (unat n1 + unat n2) junk"
  have c: "(ucast (n1 + n2) :: uint) = of_nat (unat n1 + unat n2)"
    by (simp flip: u)
  show ?thesis
  proof (cases "unat n1 + unat n2 \<le> 256")
    case True
    have 1: "(case seed1 of Some s1 \<Rightarrow> if n1 > 0 then memcpy_at junk 0 s1 0 (unat n1) else Some junk | None \<Rightarrow> Some junk) = Some ?j1"
      using True s j l by (auto simp: opt_bytes_def readable_def memcpy_at_Some word_gt_0 split: option.splits)
    have 2: "(case seed2 of Some s2 \<Rightarrow> if n2 > 0 then memcpy_at ?j1 (unat n1) s2 0 (unat n2) else Some ?j1 | None \<Rightarrow> Some ?j1) = Some ?j2"
      using True s j l by (auto simp: add.commute opt_bytes_def readable_def memcpy_at_Some word_gt_0 split: option.splits)
    show ?thesis
      unfolding CRYPTO_tls1_prf_def option.case prod.case Let_def lim mt if_not_P [OF o] 1 2 bind.bind_lunit
      using True by (auto simp: l c split: prod.splits)
  qed (unfold CRYPTO_tls1_prf_def Let_def lim, simp)
qed

theorem CRYPTO_tls1_prf_correct_witness:
  "CRYPTO_tls1_prf (\<lambda>ob ol s sl l ll sd sdl v mac. (0, take (unat sdl) sd @ [of_int mac])) (replicate 256 0) (Some ''SHA384'')
     (Some [0]) 3 (Some [1]) 1 (Some [2]) 1 (Some [7]) 1 (Some [8]) 1 = Some (1, Some [7, 8, 5])"
  using CRYPTO_tls1_prf_correct [of 3 "replicate 256 0" "Some [7]" 1 "Some [8]" 1
     "\<lambda>ob ol s sl l ll sd sdl v mac. (0, take (unat sdl) sd @ [of_int mac])" "''SHA384''" "[0]" "[1]" 1 "[2]" 1]
  by (simp add: readable_def opt_bytes_def evp_md_to_mac_type_def)

text \<open>The sum of the seed lengths is a wrapping \<open>size_t\<close>: lengths whose sum is at most 256 modulo
  \<open>2\<^sup>6\<^sup>4\<close> pass the check, and when the first one is above 256 it is copied past the end of the 256-byte
  stack buffer.\<close>

lemma CRYPTO_tls1_prf_overflow:
  assumes "out_len \<noteq> 0" "0 \<le> evp_md_to_mac_type md" "length junk = 256" "256 < n1" "n1 + n2 \<le> 256"
  shows "CRYPTO_tls1_prf prf junk (Some md) (Some ob) out_len (Some secret) secret_len (Some label) label_len
    (Some s1) n1 seed2 n2 = None"
proof -
  have "256 < unat n1" using assms(4) by (simp add: word_less_nat_alt)
  then have "memcpy_at junk 0 s1 0 (unat n1) = None" using assms(3) by (intro memcpy_at_None) simp
  moreover have "n1 > 0" using assms(4) by (simp add: word_less_nat_alt)
  ultimately show ?thesis using assms unfolding CRYPTO_tls1_prf_def by (simp add: not_less not_le Let_def)
qed

text \<open>The hash-based one-step KDF passes its lengths as 32-bit numbers: for \<open>out_len\<close> that is not
  a multiple of \<open>2\<^sup>3\<^sup>2\<close> it behaves as for \<open>out_len mod 2\<^sup>3\<^sup>2\<close>, so a request of \<open>2\<^sup>3\<^sup>2 + n\<close>
  bytes succeeds after \<open>n\<close> bytes; below \<open>2\<^sup>3\<^sup>2\<close> it returns 1 exactly when wolfSSL's function returns 0
  for a digest of SHA-224 to SHA-512.\<close>

lemma SSKDF_digest_result:
  assumes "secret_len \<noteq> 0" "(ucast out_len :: uint) \<noteq> 0"
  shows "SSKDF_digest onestep (Some ob) out_len (Some md) (Some secret) secret_len info info_len =
      SSKDF_digest onestep (Some ob) (ucast (ucast out_len :: uint)) (Some md) (Some secret) secret_len info info_len \<and>
    (fst (SSKDF_digest onestep (Some ob) out_len (Some md) (Some secret) secret_len info info_len) = 1 \<longleftrightarrow>
      evp_md_to_wc_hash_type md \<noteq> WC_HASH_TYPE_NONE \<and>
      fst (onestep secret (ucast secret_len) info (ucast info_len) (ucast out_len) (evp_md_to_wc_hash_type md) ob (ucast out_len)) = 0)"
proof -
  have "out_len \<noteq> 0" using assms(2) by auto
  moreover have "(ucast (ucast out_len :: uint) :: size_t) \<noteq> 0"
  proof
    assume "(ucast (ucast out_len :: uint) :: size_t) = 0"
    from arg_cong [OF this, of unat] have "unat (ucast out_len :: uint) = 0" by (simp only: unat_ucast_64 unsigned_0)
    then show False using assms(2) by (simp only: unat_eq_zero)
  qed
  moreover have "(ucast (ucast (ucast out_len :: uint) :: size_t) :: uint) = ucast out_len"
    by (rule bit_word_eqI) (simp add: bit_ucast_iff)
  ultimately show ?thesis using assms by (simp add: SSKDF_digest_def Let_def split: prod.splits)
qed

end
