(* ===== verification/Rsa.thy ===== *)
theory Rsa
  imports HashCtx Kdf
begin

text \<open>
  The RSA handles of \<^verbatim>\<open>wolfcrypt-rs/src/compat_shim.c\<close>: life cycle, import and export, encryption,
  PKCS#1 v1.5 and PSS signatures.

  wolfSSL's functions are the fields of \<open>rsa_lib\<close>.  A function that fills a buffer returns the bytes
  it writes; an output buffer of the caller that wolfSSL fills itself with a capacity it is given is
  represented by these bytes.  Local arrays are checked: \<open>None\<close> is an access out of bounds.
  The build options \<^verbatim>\<open>WOLFSSL_KEY_GEN\<close> and \<^verbatim>\<open>WOLFSSL_KEY_TO_DER\<close>, which select between two
  bodies of a function, are boolean arguments.
\<close>

section \<open>Data\<close>

datatype mgf = WC_MGF1SHA256 | WC_MGF1SHA384 | WC_MGF1SHA512

record ('k, 'r) rsa_ctx =
  rsa_key :: 'k
  rsa_rng :: 'r

record ('k, 'r) rsa_lib =
  zero_rsa :: "('k, 'r) rsa_ctx"
  MAX_DIGEST_SIZE :: nat
  InitRsaKey :: "'k \<Rightarrow> int \<times> 'k"
  RsaInitRng :: "'r \<Rightarrow> int \<times> 'r"
  RsaSetRNG :: "'k \<Rightarrow> 'k"
  MakeRsaKey :: "'k \<Rightarrow> int \<Rightarrow> 'r \<Rightarrow> int \<times> 'k \<times> 'r"
  RsaPrivateKeyDecode :: "byte list \<Rightarrow> 'k \<Rightarrow> uint \<Rightarrow> int \<times> 'k"
  RsaPublicKeyDecode :: "byte list \<Rightarrow> 'k \<Rightarrow> uint \<Rightarrow> int \<times> 'k"
  RsaKeyToDer :: "'k \<Rightarrow> bool \<Rightarrow> uint \<Rightarrow> int \<times> byte list"
  RsaKeyToPublicDer :: "'k \<Rightarrow> bool \<Rightarrow> uint \<Rightarrow> int \<times> byte list"
  RsaEncryptSize :: "'k \<Rightarrow> int"
  RsaPublicEncrypt_oaep :: "byte list \<Rightarrow> uint \<Rightarrow> uint \<Rightarrow> 'k \<Rightarrow> 'r \<Rightarrow> wc_HashType \<Rightarrow> mgf \<Rightarrow> int \<times> byte list \<times> 'r"
  RsaPrivateDecrypt_oaep :: "byte list \<Rightarrow> uint \<Rightarrow> uint \<Rightarrow> 'k \<Rightarrow> wc_HashType \<Rightarrow> mgf \<Rightarrow> int \<times> byte list"
  RsaPublicEncrypt :: "byte list \<Rightarrow> uint \<Rightarrow> uint \<Rightarrow> 'k \<Rightarrow> 'r \<Rightarrow> int \<times> byte list \<times> 'r"
  RsaPrivateDecrypt :: "byte list \<Rightarrow> uint \<Rightarrow> uint \<Rightarrow> 'k \<Rightarrow> int \<times> byte list"
  HashGetDigestSize :: "wc_HashType \<Rightarrow> int"
  HashGetOID :: "wc_HashType \<Rightarrow> int"
  wc_Hash :: "wc_HashType \<Rightarrow> byte list \<Rightarrow> uint \<Rightarrow> uint \<Rightarrow> int \<times> byte list"
  EncodeSignature :: "byte list \<Rightarrow> uint \<Rightarrow> int \<Rightarrow> uint \<times> byte list"
  RsaSSL_Sign :: "byte list \<Rightarrow> uint \<Rightarrow> uint \<Rightarrow> 'k \<Rightarrow> 'r \<Rightarrow> int \<times> byte list \<times> 'r"
  RsaSSL_VerifyInline :: "byte list \<Rightarrow> uint \<Rightarrow> 'k \<Rightarrow> int \<times> byte list"
  RsaPSS_Sign_ex :: "byte list \<Rightarrow> uint \<Rightarrow> uint \<Rightarrow> wc_HashType \<Rightarrow> mgf \<Rightarrow> 'k \<Rightarrow> 'r \<Rightarrow> int \<times> byte list \<times> 'r"
  RsaPSS_VerifyCheck :: "byte list \<Rightarrow> uint \<Rightarrow> byte list \<Rightarrow> uint \<Rightarrow> wc_HashType \<Rightarrow> mgf \<Rightarrow> 'k \<Rightarrow> int"

type_synonym ('k, 'r) rsa_heap = "('k, 'r) rsa_ctx heap"

definition wolfcrypt_rsa_hash_wc_type :: "int \<Rightarrow> wc_HashType" where
  "wolfcrypt_rsa_hash_wc_type hash_bits =
    (if hash_bits = 160 then WC_HASH_TYPE_SHA
     else if hash_bits = 256 then WC_HASH_TYPE_SHA256
     else if hash_bits = 384 then WC_HASH_TYPE_SHA384
     else if hash_bits = 512 then WC_HASH_TYPE_SHA512
     else WC_HASH_TYPE_NONE)"

text \<open>\<open>None\<close> is the result \<open>-1\<close>.\<close>

definition wolfcrypt_rsa_hash_mgf :: "int \<Rightarrow> mgf option" where
  "wolfcrypt_rsa_hash_mgf hash_bits =
    (if hash_bits = 256 then Some WC_MGF1SHA256
     else if hash_bits = 384 then Some WC_MGF1SHA384
     else if hash_bits = 512 then Some WC_MGF1SHA512
     else None)"

section \<open>Life cycle\<close>

definition wolfcrypt_rsa_new ::
    "('k, 'r) rsa_lib \<Rightarrow> ('k, 'r) rsa_ctx \<Rightarrow> ('k, 'r) rsa_heap \<Rightarrow> nat option \<times> ('k, 'r) rsa_heap" where
  "wolfcrypt_rsa_new lib junk h =
    (case malloc junk h of
       None \<Rightarrow> (None, h)
     | Some (ctx, h) \<Rightarrow>
         let c = zero_rsa lib; (rc, k) = InitRsaKey lib (rsa_key c); c = c\<lparr>rsa_key := k\<rparr>; h = store ctx c h
         in if rc \<noteq> 0 then (None, the (dealloc ctx h))
         else let h = acquire ctx RsaKey h; (rc, r) = RsaInitRng lib (rsa_rng c); c = c\<lparr>rsa_rng := r\<rparr>; h = store ctx c h
         in if rc \<noteq> 0 then (None, the (dealloc ctx (release ctx RsaKey h)))
         else (Some ctx, store ctx (c\<lparr>rsa_key := RsaSetRNG lib (rsa_key c)\<rparr>) (acquire ctx Rng h)))"

definition wolfcrypt_rsa_free :: "nat option \<Rightarrow> ('k, 'r) rsa_heap \<Rightarrow> ('k, 'r) rsa_heap option" where
  "wolfcrypt_rsa_free handle h =
    (case handle of
       None \<Rightarrow> Some h
     | Some ctx \<Rightarrow> do { c \<leftarrow> cells h ctx; dealloc ctx (release ctx Rng (release ctx RsaKey h)) })"

definition wolfcrypt_rsa_generate ::
    "('k, 'r) rsa_lib \<Rightarrow> bool \<Rightarrow> nat \<Rightarrow> int \<Rightarrow> ('k, 'r) rsa_heap \<Rightarrow> (wc_rc \<times> ('k, 'r) rsa_heap) option" where
  "wolfcrypt_rsa_generate lib key_gen handle bits h =
    (if key_gen then do {
       c \<leftarrow> cells h handle;
       let (rc, k, r) = MakeRsaKey lib (rsa_key c) bits (rsa_rng c);
       Some (Rc rc, store handle (c\<lparr>rsa_key := k, rsa_rng := r\<rparr>) h) }
     else Some (NOT_COMPILED_IN, h))"

definition wolfcrypt_rsa_import_private_pkcs1 ::
    "('k, 'r) rsa_lib \<Rightarrow> nat \<Rightarrow> byte list \<Rightarrow> uint \<Rightarrow> ('k, 'r) rsa_heap \<Rightarrow> (wc_rc \<times> ('k, 'r) rsa_heap) option" where
  "wolfcrypt_rsa_import_private_pkcs1 lib handle der der_len h = do {
     c \<leftarrow> cells h handle;
     let (rc, k) = RsaPrivateKeyDecode lib der (rsa_key c) der_len;
     if rc \<noteq> 0 then Some (Rc rc, store handle (c\<lparr>rsa_key := k\<rparr>) h)
     else Some (Rc 0, store handle (c\<lparr>rsa_key := RsaSetRNG lib k\<rparr>) h) }"

definition wolfcrypt_rsa_import_public_spki ::
    "('k, 'r) rsa_lib \<Rightarrow> nat \<Rightarrow> byte list \<Rightarrow> uint \<Rightarrow> ('k, 'r) rsa_heap \<Rightarrow> (wc_rc \<times> ('k, 'r) rsa_heap) option" where
  "wolfcrypt_rsa_import_public_spki lib handle der der_len h = do {
     c \<leftarrow> cells h handle;
     let (rc, k) = RsaPublicKeyDecode lib der (rsa_key c) der_len;
     Some (Rc rc, store handle (c\<lparr>rsa_key := k\<rparr>) h) }"

text \<open>The argument \<open>out\<close> says whether the output pointer is not \<open>NULL\<close>; the result has the bytes
  written and the new \<open>*out_len\<close>.\<close>

definition wolfcrypt_rsa_export_private_pkcs1 ::
    "('k, 'r) rsa_lib \<Rightarrow> bool \<Rightarrow> nat \<Rightarrow> bool \<Rightarrow> uint \<Rightarrow> ('k, 'r) rsa_heap \<Rightarrow> (wc_rc \<times> byte list \<times> uint) option" where
  "wolfcrypt_rsa_export_private_pkcs1 lib key_to_der handle out out_len h =
    (if key_to_der then do {
       c \<leftarrow> cells h handle;
       let (rc, d) = RsaKeyToDer lib (rsa_key c) out (if out then out_len else 0);
       if rc < 0 then Some (Rc rc, d, out_len) else Some (Rc 0, d, of_int rc) }
     else Some (NOT_COMPILED_IN, [], out_len))"

definition wolfcrypt_rsa_export_public_spki ::
    "('k, 'r) rsa_lib \<Rightarrow> bool \<Rightarrow> nat \<Rightarrow> bool \<Rightarrow> uint \<Rightarrow> ('k, 'r) rsa_heap \<Rightarrow> (wc_rc \<times> byte list \<times> uint) option" where
  "wolfcrypt_rsa_export_public_spki lib key_to_der handle out out_len h =
    (if key_to_der then do {
       c \<leftarrow> cells h handle;
       let (rc, d) = RsaKeyToPublicDer lib (rsa_key c) out (if out then out_len else 0);
       if rc < 0 then Some (Rc rc, d, out_len) else Some (Rc 0, d, of_int rc) }
     else Some (NOT_COMPILED_IN, [], out_len))"

definition wolfcrypt_rsa_key_size_bytes :: "('k, 'r) rsa_lib \<Rightarrow> nat \<Rightarrow> ('k, 'r) rsa_heap \<Rightarrow> int option" where
  "wolfcrypt_rsa_key_size_bytes lib handle h = do { c \<leftarrow> cells h handle; Some (RsaEncryptSize lib (rsa_key c)) }"

section \<open>Encryption\<close>

type_synonym ('k, 'r) rsa_out = "((wc_rc \<times> byte list) \<times> ('k, 'r) rsa_heap) option"

definition wolfcrypt_rsa_oaep_encrypt_sha256 ::
    "('k, 'r) rsa_lib \<Rightarrow> nat \<Rightarrow> byte list \<Rightarrow> uint \<Rightarrow> uint \<Rightarrow> ('k, 'r) rsa_heap \<Rightarrow> ('k, 'r) rsa_out" where
  "wolfcrypt_rsa_oaep_encrypt_sha256 lib handle pt pt_len out_buf_len h = do {
     c \<leftarrow> cells h handle;
     let (rc, d, r) = RsaPublicEncrypt_oaep lib pt pt_len out_buf_len (rsa_key c) (rsa_rng c) WC_HASH_TYPE_SHA256 WC_MGF1SHA256;
     Some ((Rc rc, d), store handle (c\<lparr>rsa_rng := r\<rparr>) h) }"

definition wolfcrypt_rsa_oaep_decrypt_sha256 ::
    "('k, 'r) rsa_lib \<Rightarrow> nat \<Rightarrow> byte list \<Rightarrow> uint \<Rightarrow> uint \<Rightarrow> ('k, 'r) rsa_heap \<Rightarrow> (wc_rc \<times> byte list) option" where
  "wolfcrypt_rsa_oaep_decrypt_sha256 lib handle ct ct_len out_buf_len h = do {
     c \<leftarrow> cells h handle;
     let (rc, d) = RsaPrivateDecrypt_oaep lib ct ct_len out_buf_len (rsa_key c) WC_HASH_TYPE_SHA256 WC_MGF1SHA256;
     Some (Rc rc, d) }"

definition wolfcrypt_rsa_pkcs1v15_encrypt ::
    "('k, 'r) rsa_lib \<Rightarrow> nat \<Rightarrow> byte list \<Rightarrow> uint \<Rightarrow> uint \<Rightarrow> ('k, 'r) rsa_heap \<Rightarrow> ('k, 'r) rsa_out" where
  "wolfcrypt_rsa_pkcs1v15_encrypt lib handle inp in_len out_buf_len h = do {
     c \<leftarrow> cells h handle;
     let (rc, d, r) = RsaPublicEncrypt lib inp in_len out_buf_len (rsa_key c) (rsa_rng c);
     Some ((Rc rc, d), store handle (c\<lparr>rsa_rng := r\<rparr>) h) }"

definition wolfcrypt_rsa_pkcs1v15_decrypt ::
    "('k, 'r) rsa_lib \<Rightarrow> nat \<Rightarrow> byte list \<Rightarrow> uint \<Rightarrow> uint \<Rightarrow> ('k, 'r) rsa_heap \<Rightarrow> (wc_rc \<times> byte list) option" where
  "wolfcrypt_rsa_pkcs1v15_decrypt lib handle inp in_len out_buf_len h = do {
     c \<leftarrow> cells h handle;
     let (rc, d) = RsaPrivateDecrypt lib inp in_len out_buf_len (rsa_key c);
     Some (Rc rc, d) }"

definition wolfcrypt_rsa_oaep_encrypt ::
    "('k, 'r) rsa_lib \<Rightarrow> nat \<Rightarrow> int \<Rightarrow> byte list \<Rightarrow> uint \<Rightarrow> uint \<Rightarrow> ('k, 'r) rsa_heap \<Rightarrow> ('k, 'r) rsa_out" where
  "wolfcrypt_rsa_oaep_encrypt lib handle hash_bits inp in_len out_buf_len h =
    (let hash_type = wolfcrypt_rsa_hash_wc_type hash_bits
     in case wolfcrypt_rsa_hash_mgf hash_bits of
          None \<Rightarrow> Some ((BAD_FUNC_ARG, []), h)
        | Some mgf \<Rightarrow>
            if hash_type = WC_HASH_TYPE_NONE then Some ((BAD_FUNC_ARG, []), h)
            else do {
              c \<leftarrow> cells h handle;
              let (rc, d, r) = RsaPublicEncrypt_oaep lib inp in_len out_buf_len (rsa_key c) (rsa_rng c) hash_type mgf;
              Some ((Rc rc, d), store handle (c\<lparr>rsa_rng := r\<rparr>) h) })"

definition wolfcrypt_rsa_oaep_decrypt ::
    "('k, 'r) rsa_lib \<Rightarrow> nat \<Rightarrow> int \<Rightarrow> byte list \<Rightarrow> uint \<Rightarrow> uint \<Rightarrow> ('k, 'r) rsa_heap \<Rightarrow> (wc_rc \<times> byte list) option" where
  "wolfcrypt_rsa_oaep_decrypt lib handle hash_bits inp in_len out_buf_len h =
    (let hash_type = wolfcrypt_rsa_hash_wc_type hash_bits
     in case wolfcrypt_rsa_hash_mgf hash_bits of
          None \<Rightarrow> Some (BAD_FUNC_ARG, [])
        | Some mgf \<Rightarrow>
            if hash_type = WC_HASH_TYPE_NONE then Some (BAD_FUNC_ARG, [])
            else do {
              c \<leftarrow> cells h handle;
              let (rc, d) = RsaPrivateDecrypt_oaep lib inp in_len out_buf_len (rsa_key c) hash_type mgf;
              Some (Rc rc, d) })"

section \<open>Signatures\<close>

text \<open>
  The hashing of the message that all four functions share: the hash type, the digest, its length.
  \<open>Inl\<close> is an early return.
\<close>

definition rsa_digest ::
    "('k, 'r) rsa_lib \<Rightarrow> int \<Rightarrow> byte list \<Rightarrow> uint \<Rightarrow> (wc_rc + wc_HashType \<times> uint) \<times> (wc_rc + byte list option)" where
  "rsa_digest lib hash_bits msg msg_len =
    (let hash_type = wolfcrypt_rsa_hash_wc_type hash_bits; rc = HashGetDigestSize lib hash_type
     in (if hash_type = WC_HASH_TYPE_NONE \<or> rc \<le> 0 then Inl BAD_FUNC_ARG else Inr (hash_type, of_int rc),
         case wc_Hash lib hash_type msg msg_len (of_int rc) of (r, d) \<Rightarrow>
           if r \<noteq> 0 then Inl (Rc r)
           else Inr (if length d \<le> MAX_DIGEST_SIZE lib then Some d else None)))"

definition wolfcrypt_rsa_pkcs1v15_sign ::
    "('k, 'r) rsa_lib \<Rightarrow> nat \<Rightarrow> int \<Rightarrow> byte list \<Rightarrow> uint \<Rightarrow> uint \<Rightarrow> ('k, 'r) rsa_heap \<Rightarrow>
     ((wc_rc \<times> byte list \<times> uint) \<times> ('k, 'r) rsa_heap) option" where
  "wolfcrypt_rsa_pkcs1v15_sign lib handle hash_bits msg msg_len sig_len h =
    (case rsa_digest lib hash_bits msg msg_len of
       (Inl e, _) \<Rightarrow> Some ((e, [], sig_len), h)
     | (Inr (hash_type, hash_len), d) \<Rightarrow>
         let oid = HashGetOID lib hash_type
         in if oid < 0 then Some ((Rc oid, [], sig_len), h)
         else (case d of
             Inl e \<Rightarrow> Some ((e, [], sig_len), h)
           | Inr dig \<Rightarrow> do {
               hash \<leftarrow> dig;
               let (encoded_len, di) = EncodeSignature lib hash hash_len oid;
               digest_info \<leftarrow> poke (replicate 128 0) 0 di;
               if encoded_len = 0 then Some ((BAD_FUNC_ARG, [], sig_len), h)
               else do {
                 c \<leftarrow> cells h handle;
                 let (rc, sig, r) = RsaSSL_Sign lib digest_info encoded_len sig_len (rsa_key c) (rsa_rng c);
                 let h = store handle (c\<lparr>rsa_rng := r\<rparr>) h;
                 if rc < 0 then Some ((Rc rc, sig, sig_len), h) else Some ((Rc 0, sig, of_int rc), h) } }))"

definition wolfcrypt_rsa_pkcs1v15_verify ::
    "('k, 'r) rsa_lib \<Rightarrow> nat \<Rightarrow> int \<Rightarrow> byte list \<Rightarrow> uint \<Rightarrow> byte list \<Rightarrow> uint \<Rightarrow> ('k, 'r) rsa_heap \<Rightarrow> wc_rc option" where
  "wolfcrypt_rsa_pkcs1v15_verify lib handle hash_bits msg msg_len sig sig_len h =
    (if sig_len > 512 then Some BAD_FUNC_ARG
     else case rsa_digest lib hash_bits msg msg_len of
       (Inl e, _) \<Rightarrow> Some e
     | (Inr (hash_type, hash_len), d) \<Rightarrow>
         let oid = HashGetOID lib hash_type
         in if oid < 0 then Some (Rc oid)
         else (case d of
             Inl e \<Rightarrow> Some e
           | Inr dig \<Rightarrow> do {
               hash \<leftarrow> dig;
               let (expected_len, di) = EncodeSignature lib hash hash_len oid;
               expected_di \<leftarrow> poke (replicate 128 0) 0 di;
               if expected_len = 0 then Some BAD_FUNC_ARG
               else do {
                 sig_copy \<leftarrow> memcpy_at (replicate 512 0) 0 sig 0 (unat sig_len);
                 c \<leftarrow> cells h handle;
                 let (rc, decrypted) = RsaSSL_VerifyInline lib sig_copy sig_len (rsa_key c);
                 if rc < 0 then Some (Rc rc)
                 else if of_int rc \<noteq> expected_len \<or>
                     take (unat expected_len) decrypted \<noteq> take (unat expected_len) expected_di
                 then Some SIG_VERIFY_E else Some (Rc 0) } }))"

definition wolfcrypt_rsa_pss_sign ::
    "('k, 'r) rsa_lib \<Rightarrow> nat \<Rightarrow> int \<Rightarrow> byte list \<Rightarrow> uint \<Rightarrow> uint \<Rightarrow> ('k, 'r) rsa_heap \<Rightarrow>
     ((wc_rc \<times> byte list \<times> uint) \<times> ('k, 'r) rsa_heap) option" where
  "wolfcrypt_rsa_pss_sign lib handle hash_bits msg msg_len sig_len h =
    (case rsa_digest lib hash_bits msg msg_len of
       (Inl e, _) \<Rightarrow> Some ((e, [], sig_len), h)
     | (Inr (hash_type, hash_len), d) \<Rightarrow>
         (case wolfcrypt_rsa_hash_mgf hash_bits of
            None \<Rightarrow> Some ((BAD_FUNC_ARG, [], sig_len), h)
          | Some mgf \<Rightarrow>
             (case d of
                Inl e \<Rightarrow> Some ((e, [], sig_len), h)
              | Inr dig \<Rightarrow> do {
                  hash \<leftarrow> dig;
                  c \<leftarrow> cells h handle;
                  let (rc, sig, r) = RsaPSS_Sign_ex lib hash hash_len sig_len hash_type mgf (rsa_key c) (rsa_rng c);
                  let h = store handle (c\<lparr>rsa_rng := r\<rparr>) h;
                  if rc < 0 then Some ((Rc rc, sig, sig_len), h) else Some ((Rc 0, sig, of_int rc), h) })))"

definition wolfcrypt_rsa_pss_verify ::
    "('k, 'r) rsa_lib \<Rightarrow> nat \<Rightarrow> int \<Rightarrow> byte list \<Rightarrow> uint \<Rightarrow> byte list \<Rightarrow> uint \<Rightarrow> ('k, 'r) rsa_heap \<Rightarrow> wc_rc option" where
  "wolfcrypt_rsa_pss_verify lib handle hash_bits msg msg_len sig sig_len h =
    (if sig_len > 512 then Some BAD_FUNC_ARG
     else case rsa_digest lib hash_bits msg msg_len of
       (Inl e, _) \<Rightarrow> Some e
     | (Inr (hash_type, hash_len), d) \<Rightarrow>
         (case wolfcrypt_rsa_hash_mgf hash_bits of
            None \<Rightarrow> Some BAD_FUNC_ARG
          | Some mgf \<Rightarrow>
             (case d of
                Inl e \<Rightarrow> Some e
              | Inr dig \<Rightarrow> do {
                  hash \<leftarrow> dig;
                  c \<leftarrow> cells h handle;
                  let rc = RsaPSS_VerifyCheck lib sig sig_len hash hash_len hash_type mgf (rsa_key c);
                  if rc < 0 then Some (Rc rc) else Some (Rc 0) })))"

section \<open>The handle satisfies the contract of a context\<close>

abbreviation owns_rsa :: "('k, 'r) rsa_heap \<Rightarrow> nat \<Rightarrow> bool" where
  "owns_rsa \<equiv> owned (\<lambda>_. True) [Rng, RsaKey]"

datatype rsa_call = RsaGenerate int | RsaImportPrivate "byte list" uint | RsaImportPublic "byte list" uint
  | RsaExportPrivate bool uint | RsaExportPublic bool uint | RsaKeySize
  | RsaOaepEncrypt256 "byte list" uint uint | RsaOaepDecrypt256 "byte list" uint uint
  | RsaEncrypt "byte list" uint uint | RsaDecrypt "byte list" uint uint
  | RsaOaepEncrypt int "byte list" uint uint | RsaOaepDecrypt int "byte list" uint uint
  | RsaSign int "byte list" uint uint | RsaVerify int "byte list" uint "byte list" uint
  | RsaPssSign int "byte list" uint uint | RsaPssVerify int "byte list" uint "byte list" uint

text \<open>One call on a handle, which is undefined when there is no object at the address, even where the function
  returns before it reads the object.  A function that does not change the handle keeps the heap.\<close>

definition rsa_act ::
    "('k, 'r) rsa_lib \<Rightarrow> bool \<Rightarrow> bool \<Rightarrow> rsa_call \<Rightarrow> nat \<Rightarrow> ('k, 'r) rsa_heap \<Rightarrow> (unit \<times> ('k, 'r) rsa_heap) option" where
  "rsa_act lib key_gen key_to_der x a h = (if cells h a = None then None else
    (case x of
       RsaGenerate bits \<Rightarrow> fin (wolfcrypt_rsa_generate lib key_gen a bits h)
     | RsaImportPrivate der n \<Rightarrow> fin (wolfcrypt_rsa_import_private_pkcs1 lib a der n h)
     | RsaImportPublic der n \<Rightarrow> fin (wolfcrypt_rsa_import_public_spki lib a der n h)
     | RsaExportPrivate out n \<Rightarrow> map_option (\<lambda>_. ((), h)) (wolfcrypt_rsa_export_private_pkcs1 lib key_to_der a out n h)
     | RsaExportPublic out n \<Rightarrow> map_option (\<lambda>_. ((), h)) (wolfcrypt_rsa_export_public_spki lib key_to_der a out n h)
     | RsaKeySize \<Rightarrow> map_option (\<lambda>_. ((), h)) (wolfcrypt_rsa_key_size_bytes lib a h)
     | RsaOaepEncrypt256 d n m \<Rightarrow> fin (wolfcrypt_rsa_oaep_encrypt_sha256 lib a d n m h)
     | RsaOaepDecrypt256 d n m \<Rightarrow> map_option (\<lambda>_. ((), h)) (wolfcrypt_rsa_oaep_decrypt_sha256 lib a d n m h)
     | RsaEncrypt d n m \<Rightarrow> fin (wolfcrypt_rsa_pkcs1v15_encrypt lib a d n m h)
     | RsaDecrypt d n m \<Rightarrow> map_option (\<lambda>_. ((), h)) (wolfcrypt_rsa_pkcs1v15_decrypt lib a d n m h)
     | RsaOaepEncrypt b d n m \<Rightarrow> fin (wolfcrypt_rsa_oaep_encrypt lib a b d n m h)
     | RsaOaepDecrypt b d n m \<Rightarrow> map_option (\<lambda>_. ((), h)) (wolfcrypt_rsa_oaep_decrypt lib a b d n m h)
     | RsaSign b d n m \<Rightarrow> fin (wolfcrypt_rsa_pkcs1v15_sign lib a b d n m h)
     | RsaVerify b d n sig m \<Rightarrow> map_option (\<lambda>_. ((), h)) (wolfcrypt_rsa_pkcs1v15_verify lib a b d n sig m h)
     | RsaPssSign b d n m \<Rightarrow> fin (wolfcrypt_rsa_pss_sign lib a b d n m h)
     | RsaPssVerify b d n sig m \<Rightarrow> map_option (\<lambda>_. ((), h)) (wolfcrypt_rsa_pss_verify lib a b d n sig m h)))"

text \<open>The calls that hash a message write a digest and an encoding of wolfSSL's choice into arrays of
  fixed size; the others are defined for all arguments.\<close>

definition rsa_safe :: "rsa_call \<Rightarrow> bool" where
  "rsa_safe x = (case x of RsaSign _ _ _ _ \<Rightarrow> False | RsaVerify _ _ _ _ _ \<Rightarrow> False | RsaPssSign _ _ _ _ \<Rightarrow> False
     | RsaPssVerify _ _ _ _ _ \<Rightarrow> False | _ \<Rightarrow> True)"

lemmas rsa_call_defs = wolfcrypt_rsa_generate_def wolfcrypt_rsa_import_private_pkcs1_def
  wolfcrypt_rsa_import_public_spki_def wolfcrypt_rsa_export_private_pkcs1_def wolfcrypt_rsa_export_public_spki_def
  wolfcrypt_rsa_key_size_bytes_def wolfcrypt_rsa_oaep_encrypt_sha256_def wolfcrypt_rsa_oaep_decrypt_sha256_def
  wolfcrypt_rsa_pkcs1v15_encrypt_def wolfcrypt_rsa_pkcs1v15_decrypt_def wolfcrypt_rsa_oaep_encrypt_def
  wolfcrypt_rsa_oaep_decrypt_def

lemma rsa_new_contract:
  assumes ok: "heap_ok h"
  shows "wolfcrypt_rsa_new lib junk h = (None, h') \<Longrightarrow> heap_ok h' \<and> same_heap h h'"
    and "wolfcrypt_rsa_new lib junk h = (Some a, h') \<Longrightarrow> fresh a h \<and> holding (\<lambda>_. True) [Rng, RsaKey] a h h'"
proof -
  have 1: "holding (\<lambda>_. True) [] b h (store b c1 h1)" if "malloc junk h = Some (b, h1)" for b h1 c1
    by (rule holding_store [OF holding_malloc [OF ok that]]) simp_all
  have 2: "holding (\<lambda>_. True) [RsaKey] b h (store b c2 (acquire b RsaKey (store b c1 h1)))"
    if "malloc junk h = Some (b, h1)" for b h1 c1 c2
    by (rule holding_store [OF holding_acquire [OF 1 [OF that]]]) simp
  note undo = free_new [OF ok malloc_fresh(2) [OF ok]]
  note undo2 = undo [OF _ holding_release [OF 2, of _ _ RsaKey, simplified]]
  show "heap_ok h' \<and> same_heap h h'" if "wolfcrypt_rsa_new lib junk h = (None, h')"
    using that ok undo [OF _ 1] undo2
    by (auto simp: wolfcrypt_rsa_new_def Let_def split: option.splits prod.splits if_splits)
  show "fresh a h \<and> holding (\<lambda>_. True) [Rng, RsaKey] a h h'" if "wolfcrypt_rsa_new lib junk h = (Some a, h')"
    using that malloc_fresh(2) [OF ok] holding_store [OF holding_acquire [OF 2]]
    by (auto simp: wolfcrypt_rsa_new_def Let_def split: option.splits prod.splits if_splits)
qed

lemma rsa_sign_keeps:
  "wolfcrypt_rsa_pkcs1v15_sign lib a b d n m h = Some (r, h') \<Longrightarrow> h' = h \<or> (\<exists>c. h' = store a c h)"
  "wolfcrypt_rsa_pss_sign lib a b d n m h = Some (r, h') \<Longrightarrow> h' = h \<or> (\<exists>c. h' = store a c h)"
  by (auto simp: wolfcrypt_rsa_pkcs1v15_sign_def wolfcrypt_rsa_pss_sign_def Let_def bind_eq_Some_conv case_prod_unfold
      split: sum.splits option.splits if_splits)

lemma rsa_act_contract:
  assumes "heap_ok h" "owns_rsa h a" "rsa_act lib kg kd x a h = Some (r, h')"
  shows "holding (\<lambda>_. True) [Rng, RsaKey] a h h'"
proof -
  obtain c where c: "cells h a = Some c" using assms(2) by (auto simp: owned_def)
  have "h' = h \<or> (\<exists>c. h' = store a c h)"
    using assms(3) rsa_sign_keeps [of lib a _ _ _ _ h _ h']
    by (cases x) (auto simp: rsa_act_def c fin_def rsa_call_defs Let_def split: prod.splits option.splits if_splits)
  then show ?thesis by (auto intro!: holding_store holding_self assms(1,2))
qed

lemma rsa_act_defined:
  assumes "owns_rsa h a" "rsa_safe x"
  shows "rsa_act lib kg kd x a h \<noteq> None"
proof -
  obtain c where c: "cells h a = Some c" using assms(1) by (auto simp: owned_def)
  show ?thesis
    using assms(2)
    by (cases x) (simp_all add: rsa_safe_def rsa_act_def c fin_def rsa_call_defs Let_def split: prod.splits option.splits)
qed

lemma rsa_free_contract:
  assumes "heap_ok h" "owns_rsa h a"
  shows "\<exists>h'. wolfcrypt_rsa_free (Some a) h = Some h' \<and> gone [] a h h'"
proof -
  obtain c where c: "cells h a = Some c" using assms(2) by (auto simp: owned_def)
  from holding_dealloc [OF holding_release [OF holding_release [OF holding_self [OF assms], of RsaKey], of Rng]]
  show ?thesis by (simp add: wolfcrypt_rsa_free_def c)
qed

interpretation rsa: ctx_api "wolfcrypt_rsa_new lib junk" "rsa_act lib kg kd" "\<lambda>a. wolfcrypt_rsa_free (Some a)" "\<lambda>_. True" rsa_safe
  "\<lambda>_. True" "[Rng, RsaKey]" "[]" for lib junk kg kd
  by unfold_locales
    (simp_all only: rsa_new_contract rsa_act_contract rsa_act_defined rsa_free_contract not_False_eq_True,
     simp add: rsa_act_def wolfcrypt_rsa_free_def)

section \<open>Properties\<close>

text \<open>The hash functions work on a message and \<open>di\<close> is its DER encoded digest.\<close>

definition digest_info_of :: "('k, 'r) rsa_lib \<Rightarrow> int \<Rightarrow> byte list \<Rightarrow> uint \<Rightarrow> byte list \<Rightarrow> bool" where
  "digest_info_of lib bits msg n di \<longleftrightarrow>
     (let ht = wolfcrypt_rsa_hash_wc_type bits; sz = HashGetDigestSize lib ht; (r, d) = wc_Hash lib ht msg n (of_int sz)
      in ht \<noteq> WC_HASH_TYPE_NONE \<and> 0 < sz \<and> 0 \<le> HashGetOID lib ht \<and> r = 0 \<and> length d \<le> MAX_DIGEST_SIZE lib \<and>
         EncodeSignature lib d (of_int sz) (HashGetOID lib ht) = (of_nat (length di), di) \<and> di \<noteq> [] \<and> length di \<le> 128)"

lemma digest_info_ofE:
  assumes "digest_info_of lib bits msg n di"
  obtains ht sz d where "rsa_digest lib bits msg n = (Inr (ht, of_int sz), Inr (Some d))"
    "\<not> HashGetOID lib ht < 0" "EncodeSignature lib d (of_int sz) (HashGetOID lib ht) = (of_nat (length di), di)"
    "di \<noteq> []" "length di \<le> 128"
  using assms unfolding digest_info_of_def
  by (auto simp: rsa_digest_def Let_def split: prod.splits)

text \<open>
  What is relied on of wolfSSL's RSA primitives with one key: a signature has at most 512 bytes and its
  length is returned, and the inline verification of a buffer that starts with it recovers what was signed.
\<close>

definition rsa_spec :: "('k, 'r) rsa_lib \<Rightarrow> 'k \<Rightarrow> bool" where
  "rsa_spec lib k \<longleftrightarrow>
     (\<forall>di l cap r rc sig r'. RsaSSL_Sign lib di l cap k r = (rc, sig, r') \<longrightarrow> 0 \<le> rc \<longrightarrow>
        rc = int (length sig) \<and> length sig \<le> 512 \<and>
        (\<forall>buf. take (length sig) buf = sig \<longrightarrow>
           RsaSSL_VerifyInline lib buf (of_nat (length sig)) k = (int (unat l), take (unat l) di)))"

text \<open>A library for the witnesses: the signature of a digest is the digest with a byte in front.\<close>

definition toy_rsa :: "(int, int) rsa_lib" where
  "toy_rsa = \<lparr>zero_rsa = \<lparr>rsa_key = 0, rsa_rng = 0\<rparr>, MAX_DIGEST_SIZE = 64,
     InitRsaKey = (\<lambda>k. (0, 1)), RsaInitRng = (\<lambda>r. (0, 2)), RsaSetRNG = (\<lambda>k. k),
     MakeRsaKey = (\<lambda>k b r. (0, b, r)), RsaPrivateKeyDecode = (\<lambda>d k n. (0, 5)), RsaPublicKeyDecode = (\<lambda>d k n. (0, 6)),
     RsaKeyToDer = (\<lambda>k ob n. (1, [1])), RsaKeyToPublicDer = (\<lambda>k ob n. (1, [1])), RsaEncryptSize = (\<lambda>k. 256),
     RsaPublicEncrypt_oaep = (\<lambda>d n m k r ht g. (1, [1], r)), RsaPrivateDecrypt_oaep = (\<lambda>d n m k ht g. (1, [1])),
     RsaPublicEncrypt = (\<lambda>d n m k r. (1, [1], r)), RsaPrivateDecrypt = (\<lambda>d n m k. (1, [1])),
     HashGetDigestSize = (\<lambda>ht. 1), HashGetOID = (\<lambda>ht. 9), wc_Hash = (\<lambda>ht d n m. (0, [sum_list d])),
     EncodeSignature = (\<lambda>d n oid. (of_nat (length d), d)),
     RsaSSL_Sign = (\<lambda>di l cap k r. if length di = 128 \<and> l = 1 then (2, [7, hd di], r) else (-1, [], r)),
     RsaSSL_VerifyInline = (\<lambda>buf n k. (1, [buf ! 1])),
     RsaPSS_Sign_ex = (\<lambda>d n m ht g k r. (1, d, r)), RsaPSS_VerifyCheck = (\<lambda>s n d m ht g k. 3)\<rparr>"

lemma toy_rsa_spec: "rsa_spec toy_rsa k"
proof -
  have "buf ! 1 = x" if "take 2 buf = [7, x]" for buf :: "byte list" and x
    using that by (metis lessI nth_take numeral_2_eq_2 One_nat_def nth_Cons_0 nth_Cons_Suc)
  moreover have "take (Suc 0) di = [hd di]" if "length di = 128" for di :: "byte list"
    using that by (cases di) simp_all
  ultimately show ?thesis by (auto simp: rsa_spec_def toy_rsa_def numeral_2_eq_2 split: if_splits)
qed

lemma rsa_verify_eq:
  assumes d: "digest_info_of lib bits msg n di" and c: "cells h a = Some c" and s: "unat sig_len \<le> length sig"
    and v: "RsaSSL_VerifyInline lib (take (unat sig_len) sig @ replicate (512 - unat sig_len) 0) sig_len (rsa_key c) = (rc, dec)"
      "rc < 2 ^ 32"
  shows "wolfcrypt_rsa_pkcs1v15_verify lib a bits msg n sig sig_len h =
    Some (if sig_len > 512 then BAD_FUNC_ARG
          else if rc < 0 then Rc rc
          else if rc = int (length di) \<and> take (length di) dec = di then Rc 0
          else SIG_VERIFY_E)"
proof (cases "sig_len > 512")
  case False
  then have sl: "unat sig_len \<le> 512" by (simp add: word_less_nat_alt)
  obtain ht sz dg where g: "rsa_digest lib bits msg n = (Inr (ht, of_int sz), Inr (Some dg))"
    "\<not> HashGetOID lib ht < 0" "EncodeSignature lib dg (of_int sz) (HashGetOID lib ht) = (of_nat (length di), di)"
    "di \<noteq> []" "length di \<le> 128"
    using digest_info_ofE [OF d] by metis
  have u: "unat (of_nat (length di) :: uint) = length di" using g(5) by (simp add: unat_of_nat)
  then have nz: "(of_nat (length di) :: uint) \<noteq> 0" using g(4) by (metis length_0_conv unsigned_0)
  have p: "poke (replicate 128 0) 0 di = Some (di @ replicate (128 - length di) 0)" using g(5) by (simp add: poke_def)
  have m: "memcpy_at (replicate 512 0) 0 sig 0 (unat sig_len) = Some (take (unat sig_len) sig @ replicate (512 - unat sig_len) 0)"
    using sl s by (simp add: memcpy_at_Some)
  have eq: "(of_int rc = (of_nat (length di) :: uint)) \<longleftrightarrow> rc = int (length di)" if "0 \<le> rc"
  proof -
    have "uint (of_int rc :: uint) = rc" using that v(2) by (simp add: unsigned_of_int take_bit_int_eq_self)
    moreover have "uint (of_nat (length di) :: uint) = int (length di)" using u by (simp add: uint_nat)
    ultimately show ?thesis by (metis word_uint_eq_iff)
  qed
  show ?thesis
    unfolding wolfcrypt_rsa_pkcs1v15_verify_def if_not_P [OF False] g(1) prod.case sum.case Let_def if_not_P [OF g(2)]
      bind.bind_lunit g(3) p if_not_P [OF nz] m c v(1) u
    using eq by simp
qed (simp add: wolfcrypt_rsa_pkcs1v15_verify_def)

text \<open>C31: PKCS#1 v1.5 verification returns 0 exactly when the RSA operation recovers the DER encoded digest of
  the message, completely and nothing more; another recovered value gives \<open>SIG_VERIFY_E\<close>, a failing
  operation its code, and signatures longer than 512 bytes \<open>BAD_FUNC_ARG\<close>.\<close>

theorem wolfcrypt_rsa_pkcs1v15_verify_decides:
  assumes d: "digest_info_of lib bits msg n di" and c: "cells h a = Some c" and s: "unat sig_len \<le> length sig"
    and v: "RsaSSL_VerifyInline lib (take (unat sig_len) sig @ replicate (512 - unat sig_len) 0) sig_len (rsa_key c) = (rc, dec)"
      "rc < 2 ^ 32"
  shows "wolfcrypt_rsa_pkcs1v15_verify lib a bits msg n sig sig_len h =
    Some (if sig_len > 512 then BAD_FUNC_ARG
          else if rc < 0 then Rc rc
          else if rc = int (length di) \<and> take (length di) dec = di then Rc 0
          else SIG_VERIFY_E)"
  by (rule rsa_verify_eq [OF assms])

theorem wolfcrypt_rsa_pkcs1v15_verify_decides_witness:
  "wolfcrypt_rsa_pkcs1v15_verify toy_rsa 3 256 [1, 2] 2 [7, 4] 2
     (empty_heap 0 \<lparr>cells := [3 \<mapsto> \<lparr>rsa_key = 1, rsa_rng = 0\<rparr>]\<rparr>) = Some SIG_VERIFY_E"
  using wolfcrypt_rsa_pkcs1v15_verify_decides [of toy_rsa 256 "[1, 2]" 2 "[3]"
      "empty_heap 0 \<lparr>cells := [3 \<mapsto> \<lparr>rsa_key = 1, rsa_rng = 0\<rparr>]\<rparr>" 3 "\<lparr>rsa_key = 1, rsa_rng = 0\<rparr>" 2 "[7, 4]" 1 "[4]"]
  by (simp add: toy_rsa_def digest_info_of_def wolfcrypt_rsa_hash_wc_type_def)

text \<open>Signing and verifying with PKCS#1 v1.5 fit together: when signing returns 0 with a signature and its
  length, verification of that signature for the same message and hash with the same handle returns 0.\<close>

lemma wolfcrypt_rsa_pkcs1v15_roundtrip:
  assumes d: "digest_info_of lib bits msg n di" and c: "cells h a = Some c" and k: "rsa_spec lib (rsa_key c)"
    and s: "wolfcrypt_rsa_pkcs1v15_sign lib a bits msg n cap h = Some ((Rc 0, sig, sig_len), h')"
  shows "wolfcrypt_rsa_pkcs1v15_verify lib a bits msg n sig sig_len h' = Some (Rc 0)"
proof -
  obtain ht sz dg where g: "rsa_digest lib bits msg n = (Inr (ht, of_int sz), Inr (Some dg))"
    "\<not> HashGetOID lib ht < 0" "EncodeSignature lib dg (of_int sz) (HashGetOID lib ht) = (of_nat (length di), di)"
    "di \<noteq> []" "length di \<le> 128"
    using digest_info_ofE [OF d] by metis
  let ?di = "di @ replicate (128 - length di) 0"
  have u: "unat (of_nat (length di) :: uint) = length di" using g(5) by (simp add: unat_of_nat)
  then have nz: "(of_nat (length di) :: uint) \<noteq> 0" using g(4) by (metis length_0_conv unsigned_0)
  have p: "poke (replicate 128 0) 0 di = Some ?di" using g(5) by (simp add: poke_def)
  obtain rc sg r where sg: "RsaSSL_Sign lib ?di (of_nat (length di)) cap (rsa_key c) (rsa_rng c) = (rc, sg, r)"
    by (metis prod_cases3)
  have r0: "0 \<le> rc" and eqs: "sig = sg" "sig_len = of_int rc" "h' = store a (c\<lparr>rsa_rng := r\<rparr>) h"
    using s unfolding wolfcrypt_rsa_pkcs1v15_sign_def g(1) prod.case sum.case Let_def if_not_P [OF g(2)]
      bind.bind_lunit g(3) p if_not_P [OF nz] c sg
    by (auto split: if_splits)
  have v: "rc = int (length sg)" "length sg \<le> 512"
    "\<And>buf. take (length sg) buf = sg \<Longrightarrow> RsaSSL_VerifyInline lib buf (of_nat (length sg)) (rsa_key c) =
      (int (unat (of_nat (length di) :: uint)), take (unat (of_nat (length di) :: uint)) ?di)"
    using k sg r0 unfolding rsa_spec_def by blast+
  have us: "unat (of_nat (length sg) :: uint) = length sg" using v(2) by (simp add: unat_of_nat)
  have ul: "unat sig_len = length sg" using v(1) us by (simp add: eqs)
  let ?buf = "take (unat sig_len) sig @ replicate (512 - unat sig_len) 0"
  have "RsaSSL_VerifyInline lib ?buf sig_len (rsa_key (c\<lparr>rsa_rng := r\<rparr>)) = (int (length di), di)"
    using v(3) [of ?buf] v(1) us by (simp add: eqs u)
  moreover have "cells h' a = Some (c\<lparr>rsa_rng := r\<rparr>)" by (simp add: eqs heap_simps)
  moreover have "\<not> sig_len > 512" using ul v(2) by (simp add: word_less_nat_alt)
  moreover have "int (length di) < 2 ^ 32" using g(5) by simp
  ultimately have "wolfcrypt_rsa_pkcs1v15_verify lib a bits msg n sig sig_len h' =
    Some (if sig_len > 512 then BAD_FUNC_ARG else if int (length di) < 0 then Rc (int (length di))
          else if int (length di) = int (length di) \<and> take (length di) di = di then Rc 0 else SIG_VERIFY_E)"
    using rsa_verify_eq [OF d, of h' a "c\<lparr>rsa_rng := r\<rparr>" sig_len sig "int (length di)" di] by (simp add: ul eqs(1))
  then show ?thesis using \<open>\<not> sig_len > 512\<close> by simp
qed

text \<open>Which hash widths are accepted: OAEP and PSS work for 256, 384 and 512 bits only and
  return \<open>BAD_FUNC_ARG\<close> for all others, while PKCS#1 v1.5 also accepts 160 bits, which its
  documentation does not list; the buffers and the handle are then untouched.\<close>

lemma wolfcrypt_rsa_hash_bits:
  assumes "bits \<notin> {256, 384, 512}"
  shows "wolfcrypt_rsa_oaep_encrypt lib a bits d n m h = Some ((BAD_FUNC_ARG, []), h) \<and>
    wolfcrypt_rsa_oaep_decrypt lib a bits d n m h = Some (BAD_FUNC_ARG, []) \<and>
    wolfcrypt_rsa_pss_sign lib a bits d n m h = Some ((BAD_FUNC_ARG, [], m), h) \<and>
    wolfcrypt_rsa_pss_verify lib a bits d n sig m h = Some BAD_FUNC_ARG \<and>
    (wolfcrypt_rsa_pkcs1v15_sign lib a bits d n m h = Some ((BAD_FUNC_ARG, [], m), h) \<or>
      bits = 160 \<and> wolfcrypt_rsa_hash_wc_type bits = WC_HASH_TYPE_SHA)"
proof -
  have m: "wolfcrypt_rsa_hash_mgf bits = None" using assms by (simp add: wolfcrypt_rsa_hash_mgf_def)
  have t: "wolfcrypt_rsa_hash_wc_type bits = WC_HASH_TYPE_NONE \<or> bits = 160 \<and> wolfcrypt_rsa_hash_wc_type bits = WC_HASH_TYPE_SHA"
    using assms by (simp add: wolfcrypt_rsa_hash_wc_type_def)
  obtain e x where e: "rsa_digest lib bits d n = (e, x)" "e = Inl BAD_FUNC_ARG \<or> (\<exists>y. e = Inr y)"
    "wolfcrypt_rsa_hash_wc_type bits = WC_HASH_TYPE_NONE \<Longrightarrow> e = Inl BAD_FUNC_ARG"
    by (simp add: rsa_digest_def Let_def)
  show ?thesis
    unfolding wolfcrypt_rsa_oaep_encrypt_def wolfcrypt_rsa_oaep_decrypt_def wolfcrypt_rsa_pss_sign_def
      wolfcrypt_rsa_pss_verify_def wolfcrypt_rsa_pkcs1v15_sign_def m option.case Let_def e(1)
    using e(2,3) t by auto
qed

end
