(* ===== verification/EvpCompat.thy ===== *)
theory EvpCompat
  imports CHeap
begin

text \<open>
  The small helpers of \<^verbatim>\<open>wolfcrypt-rs/src/compat_shim.c\<close>: the accessors of \<open>EVP_PKEY\<close> and
  \<open>EVP_PKEY_CTX\<close>, the repair of private-only EC keys and the stub \<^verbatim>\<open>SetErrorString\<close>.
  wolfSSL's functions are parameters; the raw key material of an \<open>EVP_PKEY\<close> is a buffer in the heap.
\<close>

section \<open>\<open>EVP_PKEY\<close>\<close>

record evp_pkey =
  pkey_type :: int
  save_type :: int
  pkey_ptr :: "nat option"
  pkey_sz :: int

definition wolfcrypt_evp_pkey_set_type :: "evp_pkey \<Rightarrow> int \<Rightarrow> evp_pkey" where
  "wolfcrypt_evp_pkey_set_type pkey t = pkey\<lparr>pkey_type := t, save_type := t\<rparr>"

definition wolfcrypt_evp_pkey_get_type :: "evp_pkey \<Rightarrow> int" where
  "wolfcrypt_evp_pkey_get_type pkey = pkey_type pkey"

definition wolfcrypt_evp_pkey_get_pkey_sz :: "evp_pkey \<Rightarrow> int" where
  "wolfcrypt_evp_pkey_get_pkey_sz pkey = pkey_sz pkey"

definition wolfcrypt_evp_pkey_get_pkey_ptr :: "evp_pkey \<Rightarrow> nat option" where
  "wolfcrypt_evp_pkey_get_pkey_ptr pkey = pkey_ptr pkey"

text \<open>The heap holds byte buffers; the contents of fresh memory are \<open>junk\<close>.\<close>

definition set_raw_clear :: "evp_pkey \<Rightarrow> byte list heap \<Rightarrow> (evp_pkey \<times> byte list heap) option" where
  "set_raw_clear pkey h =
    (case pkey_ptr pkey of
       None \<Rightarrow> Some (pkey\<lparr>pkey_sz := 0\<rparr>, h)
     | Some a \<Rightarrow> do {
         buf \<leftarrow> cells h a;
         buf \<leftarrow> poke buf 0 (replicate (nat (pkey_sz pkey)) 0);
         h \<leftarrow> dealloc a (store a buf h);
         Some (pkey\<lparr>pkey_ptr := None, pkey_sz := 0\<rparr>, h) })"

definition wolfcrypt_evp_pkey_set_raw ::
    "(nat \<Rightarrow> byte list) \<Rightarrow> evp_pkey option \<Rightarrow> byte list option \<Rightarrow> int \<Rightarrow> byte list heap \<Rightarrow>
     (int \<times> evp_pkey option \<times> byte list heap) option" where
  "wolfcrypt_evp_pkey_set_raw junk pk data sz h =
    (case pk of
       None \<Rightarrow> Some (0, None, h)
     | Some pkey \<Rightarrow> do {
         (pkey, h) \<leftarrow> set_raw_clear pkey h;
         (case data of
            None \<Rightarrow> Some (0, Some pkey, h)
          | Some d \<Rightarrow>
              if sz \<le> 0 then Some (0, Some pkey, h)
              else (case malloc (junk (nat sz)) h of
                  None \<Rightarrow> Some (0, Some (pkey\<lparr>pkey_ptr := None\<rparr>), h)
                | Some (a, h) \<Rightarrow> do {
                    buf \<leftarrow> memcpy_at (junk (nat sz)) 0 d 0 (nat sz);
                    Some (1, Some (pkey\<lparr>pkey_ptr := Some a, pkey_sz := sz\<rparr>), store a buf h) })) })"

section \<open>\<open>EVP_PKEY_CTX\<close>\<close>

record 'p pkey_ctx =
  ctx_pkey :: "'p option"
  peerKey :: "'p option"
  ctx_op :: int

definition wolfcrypt_evp_pkey_ctx_get_pkey :: "'p pkey_ctx option \<Rightarrow> 'p option" where
  "wolfcrypt_evp_pkey_ctx_get_pkey ctx = (case ctx of None \<Rightarrow> None | Some c \<Rightarrow> ctx_pkey c)"

text \<open>\<open>up_ref\<close> and \<open>free\<close> are \<^verbatim>\<open>wolfSSL_EVP_PKEY_up_ref\<close> and \<^verbatim>\<open>wolfSSL_EVP_PKEY_free\<close>, undefined (\<open>None\<close>) on
  a key that was deallocated.\<close>

definition wolfcrypt_evp_pkey_ctx_set_peer_key ::
    "('p \<Rightarrow> 'h \<Rightarrow> 'h option) \<Rightarrow> ('p option \<Rightarrow> 'h \<Rightarrow> 'h option) \<Rightarrow> 'p pkey_ctx option \<Rightarrow> 'p option \<Rightarrow> 'h \<Rightarrow>
     ('p pkey_ctx option \<times> 'h) option" where
  "wolfcrypt_evp_pkey_ctx_set_peer_key up_ref free ctx peer h =
    (case ctx of
       None \<Rightarrow> Some (None, h)
     | Some c \<Rightarrow> do {
         h \<leftarrow> (case peer of None \<Rightarrow> Some h | Some p \<Rightarrow> up_ref p h);
         h \<leftarrow> free (peerKey c) h;
         Some (Some (c\<lparr>peerKey := peer\<rparr>), h) })"

definition wolfcrypt_evp_pkey_ctx_get_peer_key :: "'p pkey_ctx option \<Rightarrow> 'p option" where
  "wolfcrypt_evp_pkey_ctx_get_peer_key ctx = (case ctx of None \<Rightarrow> None | Some c \<Rightarrow> peerKey c)"

definition wolfcrypt_evp_pkey_ctx_set_op :: "'p pkey_ctx option \<Rightarrow> int \<Rightarrow> 'p pkey_ctx option" where
  "wolfcrypt_evp_pkey_ctx_set_op ctx op_code = map_option (\<lambda>c. c\<lparr>ctx_op := op_code\<rparr>) ctx"

definition wolfcrypt_evp_pkey_ctx_get_op :: "'p pkey_ctx option \<Rightarrow> int" where
  "wolfcrypt_evp_pkey_ctx_get_op ctx = (case ctx of None \<Rightarrow> 0 | Some c \<Rightarrow> ctx_op c)"

section \<open>EC keys\<close>

datatype ecc_type = ECC_PUBLICKEY | ECC_PRIVATEKEY | ECC_PRIVATEKEY_ONLY

record 'e ecc_key =
  ecc_type :: ecc_type
  ecc_data :: 'e

record ('e, 'q) ec_key =
  internal :: "'e ecc_key option"
  pub_key :: "'q option"

text \<open>\<open>make_pub\<close> is \<^verbatim>\<open>wc_ecc_make_pub\<close>, \<open>set_ext\<close> is \<^verbatim>\<open>SetECKeyExternal\<close>; both return a code and the
  changed key.\<close>

definition wolfcrypt_fix_ec_privatekey_only ::
    "('e \<Rightarrow> int \<times> 'e) \<Rightarrow> (('e, 'q) ec_key \<Rightarrow> int \<times> ('e, 'q) ec_key) \<Rightarrow> ('e, 'q) ec_key option \<Rightarrow>
     int \<times> ('e, 'q) ec_key option" where
  "wolfcrypt_fix_ec_privatekey_only make_pub set_ext key =
    (case key of
       None \<Rightarrow> (1, key)
     | Some k \<Rightarrow>
        (case internal k of
           None \<Rightarrow> (1, key)
         | Some ecc \<Rightarrow>
             if ecc_type ecc \<noteq> ECC_PRIVATEKEY_ONLY then (1, key)
             else (case make_pub (ecc_data ecc) of (ret, d) \<Rightarrow>
               let k = k\<lparr>internal := Some (ecc\<lparr>ecc_data := d\<rparr>)\<rparr>
               in if ret \<noteq> 0 then (0, Some k)
                  else let k = k\<lparr>internal := Some (ecc\<lparr>ecc_data := d, ecc_type := ECC_PRIVATEKEY\<rparr>)\<rparr>
                  in (case set_ext k of (ret, k) \<Rightarrow>
                        if ret = 1 \<and> pub_key k = None then (0, Some k) else (ret, Some k)))))"

section \<open>\<open>SetErrorString\<close>\<close>

text \<open>
  \<^verbatim>\<open>do { buf[i++] = '0' + (n % 10); n /= 10; } while (n > 0);\<close> on the 12-byte array \<open>buf\<close>;
  the result has the array and \<open>i\<close>.
\<close>

function err_digits :: "uint \<Rightarrow> byte list \<Rightarrow> nat \<Rightarrow> (byte list \<times> nat) option" where
  "err_digits n buf i =
    (case poke buf i [48 + ucast (n mod 10)] of
       None \<Rightarrow> None
     | Some buf' \<Rightarrow> if n div 10 > 0 then err_digits (n div 10) buf' (Suc i) else Some (buf', Suc i))"
  by pat_completeness auto

termination
proof (relation "measure (\<lambda>(n, buf, i). unat n)", simp)
  fix n :: uint and buf buf' :: "byte list" and i :: nat
  assume "0 < n div 10"
  then have "0 < unat (n div 10)" by (simp only: unat_gt_0 word_gt_0)
  then show "((n div 10, buf', Suc i), (n, buf, i)) \<in> measure (\<lambda>(n, buf, i). unat n)"
    by (simp add: unat_div)
qed

declare err_digits.simps [simp del]

text \<open>\<^verbatim>\<open>while (i > 0) *p++ = buf[--i];\<close> and the final zero.\<close>

fun err_copy :: "byte list \<Rightarrow> nat \<Rightarrow> byte list \<Rightarrow> nat \<Rightarrow> byte list option" where
  "err_copy str p buf 0 = poke str p [0]"
| "err_copy str p buf (Suc i) = do {
     c \<leftarrow> peek buf i 1;
     str \<leftarrow> poke str p c;
     err_copy str (Suc p) buf i }"

text \<open>A C \<open>int\<close> is its 32-bit pattern, read by \<open>sint\<close>.\<close>

definition SetErrorString :: "uint \<Rightarrow> byte list \<Rightarrow> byte list option" where
  "SetErrorString error str = do {
     (str, p, n) \<leftarrow> (if sint error < 0
        then do { str \<leftarrow> poke str 0 [45]; Some (str, 1, - (error + 1) + 1) }
        else Some (str, 0, error));
     (buf, i) \<leftarrow> err_digits n (replicate 12 0) 0;
     err_copy str p buf i }"

section \<open>Decimal strings as the reference\<close>

fun show_nat :: "nat \<Rightarrow> byte list" where
  "show_nat n = (if n < 10 then [48 + of_nat n] else show_nat (n div 10) @ [48 + of_nat (n mod 10)])"

declare show_nat.simps [simp del]

definition show_int :: "int \<Rightarrow> byte list" where
  "show_int i = (if i < 0 then 45 # show_nat (nat (- i)) else show_nat (nat i))"

definition read_nat :: "byte list \<Rightarrow> nat" where
  "read_nat s = foldl (\<lambda>v d. 10 * v + (unat d - 48)) 0 s"

definition read_int :: "byte list \<Rightarrow> int" where
  "read_int s = (if s \<noteq> [] \<and> hd s = 45 then - int (read_nat (tl s)) else int (read_nat s))"

lemma digit_val: "d < 10 \<Longrightarrow> unat (48 + of_nat d :: byte) - 48 = d"
  by (simp add: unat_word_ariths unat_of_nat)

lemma read_show_nat: "read_nat (show_nat n) = n"
proof (induction n rule: show_nat.induct)
  case (1 n)
  show ?case
  proof (cases "n < 10")
    case True
    then show ?thesis by (subst show_nat.simps) (simp add: read_nat_def digit_val)
  next
    case False
    then have "read_nat (show_nat n) = 10 * read_nat (show_nat (n div 10)) + n mod 10"
      by (subst show_nat.simps) (simp add: read_nat_def digit_val)
    then show ?thesis using 1 False by simp
  qed
qed

lemma show_nat_hd: "show_nat n \<noteq> [] \<and> hd (show_nat n) \<noteq> 45"
proof (induction n rule: show_nat.induct)
  case (1 n)
  have "(48 + of_nat d :: byte) \<noteq> 45" if "d < 10" for d
  proof
    assume "(48 + of_nat d :: byte) = 45"
    from arg_cong [OF this, of unat] show False using that by (simp add: unat_word_ariths unat_of_nat)
  qed
  then show ?case using 1 by (subst (1 2) show_nat.simps) (auto simp: hd_append)
qed

lemma read_show_int: "read_int (show_int i) = i"
  using show_nat_hd [of "nat i"] by (simp add: read_int_def show_int_def read_show_nat)

lemma length_show_nat: "n < 10 ^ k \<Longrightarrow> 0 < k \<Longrightarrow> length (show_nat n) \<le> k"
proof (induction n arbitrary: k rule: show_nat.induct)
  case (1 n)
  show ?case
  proof (cases "n < 10")
    case True
    then show ?thesis using 1 by (subst show_nat.simps) simp
  next
    case False
    then obtain j where j: "k = Suc j" "0 < j" using 1(2,3) by (cases k; cases "k - 1") auto
    have "n div 10 < 10 ^ j" using 1(2) j by (simp add: less_mult_imp_div_less mult.commute)
    then show ?thesis using 1(1) [OF False, of j] j False by (subst show_nat.simps) simp
  qed
qed

lemma err_digits_show:
  assumes "i + length (show_nat (unat n)) \<le> length buf"
  shows "err_digits n buf i = Some (take i buf @ rev (show_nat (unat n)) @ drop (i + length (show_nat (unat n))) buf,
    i + length (show_nat (unat n)))"
  using assms
proof (induction n buf i rule: err_digits.induct)
  case (1 n buf i)
  have d: "unat (n div 10) = unat n div 10" "unat (n mod 10) = unat n mod 10" by (simp_all add: unat_div unat_mod)
  have g: "n div 10 > 0 \<longleftrightarrow> \<not> unat n < 10" by (simp add: word_less_nat_alt d) presburger
  have c: "(ucast (n mod 10) :: byte) = of_nat (unat n mod 10)" by (metis d(2) of_nat_unat)
  define buf' where "buf' = take i buf @ [48 + of_nat (unat n mod 10)] @ drop (Suc i) buf"
  have ge1: "1 \<le> length (show_nat (unat n))" using show_nat_hd [of "unat n"] by (simp add: Suc_leI)
  have p: "poke buf i [48 + ucast (n mod 10)] = Some buf'" using 1(2) ge1 by (simp add: poke_def buf'_def c)
  show ?case
  proof (cases "unat n < 10")
    case True
    then have "show_nat (unat n) = [48 + of_nat (unat n mod 10)]" by (subst show_nat.simps) simp
    then show ?thesis using True g p by (subst err_digits.simps) (simp add: buf'_def)
  next
    case False
    have sn: "show_nat (unat n) = show_nat (unat n div 10) @ [48 + of_nat (unat n mod 10)]"
      using False by (subst show_nat.simps) simp
    have ti: "take (Suc i) buf' = take i buf @ [48 + of_nat (unat n mod 10)]"
      "\<And>k. drop (Suc i + k) buf' = drop (Suc i + k) buf" "length buf' = length buf"
      using 1(2) ge1 by (simp_all add: buf'_def add.commute)
    have "err_digits (n div 10) buf' (Suc i) = Some (take (Suc i) buf' @ rev (show_nat (unat n div 10)) @
        drop (Suc i + length (show_nat (unat n div 10))) buf', Suc i + length (show_nat (unat n div 10)))"
      using 1(1) [OF p] 1(2) False g sn by (simp add: d ti(3))
    then show ?thesis using False g p unfolding ti by (subst err_digits.simps) (simp add: sn)
  qed
qed

lemma err_copy_rev:
  assumes "p + i + 1 \<le> length str" "i \<le> length buf"
  shows "err_copy str p buf i = Some (take p str @ rev (take i buf) @ [0] @ drop (p + i + 1) str)"
  using assms
proof (induction i arbitrary: str p)
  case 0
  then show ?case by (simp add: poke_def)
next
  case (Suc i)
  have k: "peek buf i 1 = Some [buf ! i]" using Suc.prems by (simp add: peek_def Cons_nth_drop_Suc [symmetric])
  define str' where "str' = take p str @ [buf ! i] @ drop (Suc p) str"
  have w: "poke str p [buf ! i] = Some str'" using Suc.prems by (simp add: poke_def str'_def)
  have l: "length str' = length str" using Suc.prems by (simp add: str'_def)
  have "err_copy str' (Suc p) buf i = Some (take (Suc p) str' @ rev (take i buf) @ [0] @ drop (Suc p + i + 1) str')"
    using Suc.prems l by (intro Suc.IH) simp_all
  moreover have "take (Suc p) str' = take p str @ [buf ! i]" "drop (Suc p + i + 1) str' = drop (p + Suc i + 1) str"
    using Suc.prems by (simp_all add: str'_def add.commute)
  ultimately show ?case using Suc.prems by (simp add: k [unfolded One_nat_def] w take_Suc_conv_app_nth)
qed

lemma sint_cases: "sint (e :: uint) = (if uint e < 2 ^ 31 then uint e else uint e - 2 ^ 32)"
proof -
  have u: "0 \<le> uint e" "uint e < 2 ^ 32" using unsigned_less [of e, where 'a = int] by simp_all
  have "sint e = (uint e + 2 ^ 31) mod 2 ^ 32 - 2 ^ 31"
    by (simp add: sint_uint signed_take_bit_eq_take_bit_shift take_bit_eq_mod)
  also have "(uint e + 2 ^ 31) mod 2 ^ 32 = (if uint e < 2 ^ 31 then uint e + 2 ^ 31 else uint e + 2 ^ 31 - 2 ^ 32)"
  proof (cases "uint e < 2 ^ 31")
    case False
    have "(uint e + 2 ^ 31) mod 2 ^ 32 = (uint e + 2 ^ 31 - 2 ^ 32 + 2 ^ 32) mod 2 ^ 32" by (simp only: diff_add_cancel)
    also have "\<dots> = uint e + 2 ^ 31 - 2 ^ 32" unfolding mod_add_self2 using u False by (intro mod_pos_pos_trivial) simp_all
    finally show ?thesis using False by simp
  qed (use u in simp)
  finally show ?thesis by simp
qed

lemma abs_bits:
  assumes "sint (e :: uint) < 0"
  shows "int (unat (- (e + 1) + 1)) = - sint e"
proof -
  have s: "sint e = uint e - 2 ^ 32" using assms by (simp add: sint_cases split: if_splits)
  have u: "0 < uint e" "uint e < 2 ^ 32"
    using assms unsigned_less [of e, where 'a = int] by (auto simp: sint_cases split: if_splits)
  have "int (unat (- (e + 1) + 1)) = uint (- e)" by simp
  also have "\<dots> = (- uint e) mod 2 ^ 32" by (simp add: uint_word_ariths)
  also have "(- uint e) mod 2 ^ 32 = (2 ^ 32 - uint e) mod 2 ^ 32" by (metis mod_add_self1 add.commute uminus_add_conv_diff)
  also have "\<dots> = 2 ^ 32 - uint e" using u by (intro mod_pos_pos_trivial) simp_all
  finally show ?thesis using s by simp
qed

section \<open>Properties\<close>

text \<open>For every 32-bit error code, the most negative included, \<^verbatim>\<open>SetErrorString\<close> writes the decimal string of
  the code and a terminating zero, at most 12 bytes, and leaves the rest of the buffer; reading
  the string gives the code back.\<close>

lemma SetErrorString_correct:
  assumes "12 \<le> length str"
  shows "SetErrorString e str = Some (show_int (sint e) @ [0] @ drop (length (show_int (sint e)) + 1) str) \<and>
    length (show_int (sint e)) \<le> 11 \<and> read_int (show_int (sint e)) = sint e"
proof -
  define m where "m = (if sint e < 0 then - (e + 1) + 1 else e)"
  have u32: "unat m < 10 ^ 10"
    using order_less_le_trans [OF unsigned_less [of m, where 'a = nat], of "10 ^ 10"] by simp
  then have l: "length (show_nat (unat m)) \<le> 10" by (rule length_show_nat) simp
  have e0: "int (unat e) = sint e" if "\<not> sint e < 0" using that unsigned_less [of e, where 'a = int] by (simp add: sint_cases split: if_splits)
  have sh: "show_int (sint e) = (if sint e < 0 then 45 # show_nat (unat m) else show_nat (unat m))"
  proof (cases "sint e < 0")
    case True
    from arg_cong [OF abs_bits [OF True], of nat] have "nat (- sint e) = unat m" unfolding m_def using True by (simp only: nat_int if_True)
    then show ?thesis using True by (simp add: show_int_def)
  next
    case False
    from arg_cong [OF e0 [OF False], of nat] have "nat (sint e) = unat m" unfolding m_def using False by (simp only: nat_int if_False)
    then show ?thesis using False by (simp add: show_int_def)
  qed
  let ?buf = "rev (show_nat (unat m)) @ replicate (12 - length (show_nat (unat m))) 0"
  have d: "err_digits m (replicate 12 0) 0 = Some (?buf, length (show_nat (unat m)))"
    using l by (subst err_digits_show) simp_all
  have "SetErrorString e str = Some (show_int (sint e) @ [0] @ drop (length (show_int (sint e)) + 1) str)"
  proof (cases "sint e < 0")
    case True
    define str1 where "str1 = [45] @ drop 1 str"
    have p: "poke str 0 [45] = Some str1" using assms by (simp add: poke_def str1_def)
    have "err_copy str1 1 ?buf (length (show_nat (unat m))) =
        Some (take 1 str1 @ show_nat (unat m) @ [0] @ drop (1 + length (show_nat (unat m)) + 1) str1)"
      using l assms by (subst err_copy_rev) (simp_all add: str1_def)
    then show ?thesis using True p d sh by (simp add: SetErrorString_def m_def str1_def)
  next
    case False
    have "err_copy str 0 ?buf (length (show_nat (unat m))) =
        Some (show_nat (unat m) @ [0] @ drop (length (show_nat (unat m)) + 1) str)"
      using l assms by (subst err_copy_rev) simp_all
    then show ?thesis using False d sh by (simp add: SetErrorString_def m_def)
  qed
  moreover have "length (show_int (sint e)) \<le> 11" using l by (simp add: sh)
  ultimately show ?thesis using read_show_int by blast
qed

text \<open>The invariant of an \<open>EVP_PKEY\<close>: the size is that of the buffer, and there is no buffer exactly when it is 0.\<close>

definition pkey_ok :: "evp_pkey \<Rightarrow> byte list heap \<Rightarrow> bool" where
  "pkey_ok pkey h \<longleftrightarrow>
    (case pkey_ptr pkey of
       None \<Rightarrow> pkey_sz pkey = 0
     | Some a \<Rightarrow> (\<exists>buf. cells h a = Some buf \<and> int (length buf) = pkey_sz pkey \<and> 0 < pkey_sz pkey))"

text \<open>The heap without the buffer of the key.\<close>

definition rest_heap :: "evp_pkey \<Rightarrow> byte list heap \<Rightarrow> nat \<Rightarrow> byte list option" where
  "rest_heap pkey h = (case pkey_ptr pkey of None \<Rightarrow> cells h | Some a \<Rightarrow> (cells h)(a := None))"

lemma set_raw_clear_ok:
  assumes "pkey_ok pkey h"
  shows "\<exists>h'. set_raw_clear pkey h = Some (pkey\<lparr>pkey_ptr := None, pkey_sz := 0\<rparr>, h') \<and> cells h' = rest_heap pkey h \<and>
    brk h' = brk h \<and> limit h' = limit h \<and> held h' = held h \<and> fault h' = fault h \<and>
    freed h' = (case pkey_ptr pkey of None \<Rightarrow> [] | Some a \<Rightarrow> [(a, replicate (nat (pkey_sz pkey)) 0)]) @ freed h"
proof (cases "pkey_ptr pkey")
  case None
  then show ?thesis by (simp add: set_raw_clear_def rest_heap_def)
next
  case (Some a)
  then obtain buf where b: "cells h a = Some buf" "int (length buf) = pkey_sz pkey" using assms by (auto simp: pkey_ok_def)
  then have "length buf = nat (pkey_sz pkey)" by simp
  then have "poke buf 0 (replicate (nat (pkey_sz pkey)) 0) = Some (replicate (nat (pkey_sz pkey)) 0)" by (simp add: poke_def)
  then show ?thesis using Some b(1) by (simp add: set_raw_clear_def rest_heap_def dealloc_def store_def)
qed

text \<open>C32: \<^verbatim>\<open>wolfcrypt_evp_pkey_set_raw\<close> keeps the invariant of the key, gives the old buffer back only
  after it was overwritten with zeros completely, and returns 1 exactly when data of positive size was given and memory was available; the key then holds exactly
  these bytes, otherwise it is empty.\<close>

theorem wolfcrypt_evp_pkey_set_raw_correct:
  assumes k: "pkey_ok pkey h" "heap_ok h" and d: "\<forall>x. data = Some x \<longrightarrow> sz \<le> int (length x)"
    and j: "\<forall>n. length (junk n) = n"
  shows "\<exists>r pkey' h'. wolfcrypt_evp_pkey_set_raw junk (Some pkey) data sz h = Some (r, Some pkey', h') \<and>
    pkey_ok pkey' h' \<and> heap_ok h' \<and> rest_heap pkey' h' = rest_heap pkey h \<and>
    freed h' = (case pkey_ptr pkey of None \<Rightarrow> [] | Some a \<Rightarrow> [(a, replicate (nat (pkey_sz pkey)) 0)]) @ freed h \<and>
    (r = 1 \<longleftrightarrow> data \<noteq> None \<and> 0 < sz \<and> brk h < limit h) \<and>
    (if r = 1 then pkey_sz pkey' = sz \<and> (\<exists>a. pkey_ptr pkey' = Some a \<and> cells h' a = Some (take (nat sz) (the data)))
     else r = 0 \<and> pkey_ptr pkey' = None)"
proof -
  obtain h1 where h1: "set_raw_clear pkey h = Some (pkey\<lparr>pkey_ptr := None, pkey_sz := 0\<rparr>, h1)" "cells h1 = rest_heap pkey h"
    "brk h1 = brk h" "limit h1 = limit h" "held h1 = held h" "fault h1 = fault h"
    "freed h1 = (case pkey_ptr pkey of None \<Rightarrow> [] | Some a \<Rightarrow> [(a, replicate (nat (pkey_sz pkey)) 0)]) @ freed h"
    using set_raw_clear_ok [OF k(1)] by blast
  have rest0: "rest_heap pkey h a = None" if "brk h \<le> a" for a
    using k(2) that by (auto simp: rest_heap_def heap_ok_def split: option.splits)
  have ok1: "heap_ok h1" using k(2) h1 rest0 by (simp add: heap_ok_def)
  show ?thesis
  proof (cases "data \<noteq> None \<and> 0 < sz \<and> brk h < limit h")
    case False
    let ?p = "pkey\<lparr>pkey_ptr := None, pkey_sz := 0\<rparr>"
    have "wolfcrypt_evp_pkey_set_raw junk (Some pkey) data sz h = Some (0, Some ?p, h1)"
      using False h1 by (auto simp: wolfcrypt_evp_pkey_set_raw_def malloc_def split: option.splits)
    moreover have "pkey_ok ?p h1" "rest_heap ?p h1 = rest_heap pkey h" using h1 by (simp_all add: pkey_ok_def rest_heap_def)
    ultimately show ?thesis using False ok1 h1(7) by (intro exI [of _ 0] exI [of _ ?p] exI [of _ h1]) simp
  next
    case True
    then obtain x where x: "data = Some x" by blast
    have m: "memcpy_at (junk (nat sz)) 0 x 0 (nat sz) = Some (take (nat sz) x)"
      using d x j True by (simp add: memcpy_at_Some)
    let ?h = "store (brk h1) (take (nat sz) x) (h1\<lparr>cells := (cells h1)(brk h1 \<mapsto> junk (nat sz)), brk := Suc (brk h1)\<rparr>)"
    let ?p = "pkey\<lparr>pkey_ptr := Some (brk h1), pkey_sz := sz\<rparr>"
    have r: "wolfcrypt_evp_pkey_set_raw junk (Some pkey) data sz h = Some (1, Some ?p, ?h)"
      using True x h1 m by (simp add: wolfcrypt_evp_pkey_set_raw_def malloc_def)
    have "length (take (nat sz) x) = nat sz" using d x True by simp
    then have "pkey_ok ?p ?h" using True by (simp add: pkey_ok_def heap_simps)
    moreover have "heap_ok ?h" using ok1 by (auto simp: heap_ok_def heap_simps less_Suc_eq)
    moreover have "rest_heap ?p ?h = (cells h1)(brk h1 := None)" by (simp add: rest_heap_def heap_simps)
    then have "rest_heap ?p ?h = rest_heap pkey h" using rest0 [of "brk h"] h1 by (simp add: fun_upd_idem)
    ultimately show ?thesis using r True x h1(7) by (simp add: heap_simps)
  qed
qed

text \<open>A key with the bytes 7, 8, 9 in a heap with room for one more buffer.\<close>

definition old_key :: evp_pkey where
  "old_key = \<lparr>pkey_type = 1, save_type = 1, pkey_ptr = Some 0, pkey_sz = 3\<rparr>"

definition old_heap :: "byte list heap" where
  "old_heap = (empty_heap 2)\<lparr>cells := [0 \<mapsto> [7, 8, 9]], brk := 1\<rparr>"

theorem wolfcrypt_evp_pkey_set_raw_correct_witness:
  "\<exists>pkey' h' a. wolfcrypt_evp_pkey_set_raw (\<lambda>n. replicate n 0) (Some old_key) (Some [1, 2, 3]) 2 old_heap =
       Some (1, Some pkey', h') \<and>
     freed h' = [(0, [0, 0, 0])] \<and> pkey_sz pkey' = 2 \<and> pkey_ptr pkey' = Some a \<and> cells h' a = Some [1, 2]"
proof -
  have h: "pkey_ok old_key old_heap" "heap_ok old_heap" "brk old_heap < limit old_heap"
    by (simp_all add: pkey_ok_def heap_ok_def old_key_def old_heap_def empty_heap_def)
  have f: "freed old_heap = []" "pkey_ptr old_key = Some 0" "replicate (nat (pkey_sz old_key)) (0 :: byte) = [0, 0, 0]"
    by (simp_all add: old_heap_def old_key_def empty_heap_def numeral_3_eq_3)
  show ?thesis
    using wolfcrypt_evp_pkey_set_raw_correct [OF h(1,2), of "Some [1, 2, 3]" 2 "\<lambda>n. replicate n 0"] h(3)
    by (auto simp: f numeral_2_eq_2)
qed

text \<open>
  What is relied on of wolfSSL's reference counts: \<open>rc h p\<close> is the count of the key \<open>p\<close>, 0 when it was
  deallocated; taking a reference increments it, freeing decrements it, and both need it to be positive.
\<close>

definition refcount_spec ::
    "('h \<Rightarrow> 'p \<Rightarrow> nat) \<Rightarrow> ('p \<Rightarrow> 'h \<Rightarrow> 'h option) \<Rightarrow> ('p option \<Rightarrow> 'h \<Rightarrow> 'h option) \<Rightarrow> bool" where
  "refcount_spec rc up_ref free \<longleftrightarrow>
     (\<forall>p h. 0 < rc h p \<longrightarrow> (\<exists>h'. up_ref p h = Some h' \<and> rc h' = (rc h)(p := Suc (rc h p)))) \<and>
     (\<forall>h. free None h = Some h) \<and>
     (\<forall>p h. 0 < rc h p \<longrightarrow> (\<exists>h'. free (Some p) h = Some h' \<and> rc h' = (rc h)(p := rc h p - 1)))"

text \<open>Setting the peer key takes a reference on the new key before it drops the one on the old key: it is
  defined for live keys even when both are the same key with a single reference, it changes the counts by
  exactly one each (by none in that case), and the context holds the new key.\<close>

lemma wolfcrypt_evp_pkey_ctx_set_peer_key_refs:
  assumes s: "refcount_spec rc up_ref free"
    and live: "\<forall>p. peerKey c = Some p \<or> peer = Some p \<longrightarrow> 0 < rc h p"
  shows "\<exists>h'. wolfcrypt_evp_pkey_ctx_set_peer_key up_ref free (Some c) peer h = Some (Some (c\<lparr>peerKey := peer\<rparr>), h') \<and>
    (\<forall>p. int (rc h' p) = int (rc h p) + (if peer = Some p then 1 else 0) - (if peerKey c = Some p then 1 else 0))"
proof -
  have up: "\<exists>h'. (case peer of None \<Rightarrow> Some h | Some p \<Rightarrow> up_ref p h) = Some h' \<and>
    rc h' = (\<lambda>p. rc h p + (if peer = Some p then 1 else 0))"
  proof (cases peer)
    case (Some p)
    then obtain h' where "up_ref p h = Some h'" "rc h' = (rc h)(p := Suc (rc h p))"
      using s live unfolding refcount_spec_def by blast
    then show ?thesis using Some by (auto simp: fun_eq_iff)
  qed simp
  then obtain h1 where h1: "(case peer of None \<Rightarrow> Some h | Some p \<Rightarrow> up_ref p h) = Some h1"
    "rc h1 = (\<lambda>p. rc h p + (if peer = Some p then 1 else 0))" by blast
  have "\<exists>h'. free (peerKey c) h1 = Some h' \<and> rc h' = (\<lambda>p. rc h1 p - (if peerKey c = Some p then 1 else 0))"
  proof (cases "peerKey c")
    case None
    then show ?thesis using s by (simp add: refcount_spec_def)
  next
    case (Some q)
    then have "0 < rc h1 q" using live h1(2) by simp
    then obtain h' where "free (Some q) h1 = Some h'" "rc h' = (rc h1)(q := rc h1 q - 1)"
      using s unfolding refcount_spec_def by blast
    then show ?thesis using Some by (auto simp: fun_eq_iff)
  qed
  then obtain h2 where h2: "free (peerKey c) h1 = Some h2" "rc h2 = (\<lambda>p. rc h1 p - (if peerKey c = Some p then 1 else 0))" by blast
  have "int (rc h2 p) = int (rc h p) + (if peer = Some p then 1 else 0) - (if peerKey c = Some p then 1 else 0)" for p
    using live h1(2) h2(2) by (auto simp: of_nat_diff Suc_leI)
  then show ?thesis using h1(1) h2(1) by (simp add: wolfcrypt_evp_pkey_ctx_set_peer_key_def)
qed

text \<open>The repair of a private-only EC key returns 1 only with a public key when it had work to do; but it marks
  the key as repaired before it exports the public point, so after a failure of that step the next
  call returns 1 although the key still has no public point.\<close>

lemma wolfcrypt_fix_ec_privatekey_only_retry:
  assumes k: "internal k = Some ecc" "ecc_type ecc = ECC_PRIVATEKEY_ONLY" "pub_key k = None"
    and m: "make_pub (ecc_data ecc) = (0, d)" and s: "\<forall>k. set_ext k = (0, k)"
  shows "\<exists>k'. wolfcrypt_fix_ec_privatekey_only make_pub set_ext (Some k) = (0, Some k') \<and> pub_key k' = None \<and>
      wolfcrypt_fix_ec_privatekey_only make_pub set_ext (Some k') = (1, Some k') \<and>
    (\<forall>se k''. wolfcrypt_fix_ec_privatekey_only make_pub se (Some k) = (1, Some k'') \<longrightarrow> pub_key k'' \<noteq> None)"
  using assms by (auto simp: wolfcrypt_fix_ec_privatekey_only_def Let_def split: prod.splits if_splits)

end
