(* ===== verification/BareMetal.thy ===== *)
theory BareMetal
  imports Prelude "HOL-Library.Sublist"
begin

text \<open>
  The string and memory functions of \<^verbatim>\<open>wolfssl-src/riscv_bare_metal_helpers.c\<close>, which replace the C
  library on the 32-bit RISC-V target.

  The memory is a partial map from addresses to bytes; an access outside its domain is undefined
  behaviour and makes the result \<open>None\<close>.  \<open>size_t\<close> has 32 bits, \<open>char\<close> is unsigned (the RISC-V ABI), a
  null pointer is \<open>None\<close> of the inner option.  Loops that end at a terminator or a fault are partial
  functions in the option monad, so that a loop that never ends is also \<open>None\<close>; loops with a byte
  count recurse on it.  The lemmas of the first part give each loop as a function of the strings
  stored in memory (\<open>cstr\<close>) or of the bytes of a range (\<open>bytes_at\<close>); the properties at the end are
  their consequences for each C function.
\<close>

section \<open>The functions of the source\<close>

type_synonym mem = "nat \<rightharpoonup> byte"

definition store8 :: "nat \<Rightarrow> byte \<Rightarrow> mem \<Rightarrow> mem option" where
  "store8 p c m = (case m p of None \<Rightarrow> None | Some _ \<Rightarrow> Some (m(p \<mapsto> c)))"

subsection \<open>Length and concatenation\<close>

partial_function (option) str_end :: "mem \<Rightarrow> nat \<Rightarrow> nat option" where
  "str_end m p = do { c \<leftarrow> m p; if c = 0 then Some p else str_end m (Suc p) }"

partial_function (option) strlen_loop :: "mem \<Rightarrow> nat \<Rightarrow> uint \<Rightarrow> uint option" where
  "strlen_loop m s n = do { c \<leftarrow> m s; if c = 0 then Some n else strlen_loop m (Suc s) (n + 1) }"

definition strlen :: "mem \<Rightarrow> nat \<Rightarrow> uint option" where
  "strlen m s = strlen_loop m s 0"

fun strncat_loop :: "nat \<Rightarrow> nat \<Rightarrow> nat \<Rightarrow> mem \<Rightarrow> (nat \<times> mem) option" where
  "strncat_loop 0 p s m = Some (p, m)"
| "strncat_loop (Suc n) p s m = do {
     c \<leftarrow> m s;
     if c = 0 then Some (p, m) else do { m \<leftarrow> store8 p c m; strncat_loop n (Suc p) (Suc s) m } }"

definition wolfssl_strncat :: "nat \<Rightarrow> nat \<Rightarrow> uint \<Rightarrow> mem \<Rightarrow> (nat \<times> mem) option" where
  "wolfssl_strncat d s n m = do {
     p \<leftarrow> str_end m d;
     (p, m) \<leftarrow> strncat_loop (unat n) p s m;
     m \<leftarrow> store8 p 0 m;
     Some (d, m) }"

subsection \<open>Searching\<close>

text \<open>The inner loop of \<open>wolfssl_strnstr\<close>: the number of leading bytes that agree, at most \<open>k\<close>.\<close>

fun match_len :: "mem \<Rightarrow> nat \<Rightarrow> nat \<Rightarrow> nat \<Rightarrow> nat option" where
  "match_len m h n 0 = Some 0"
| "match_len m h n (Suc k) = do {
     a \<leftarrow> m h; b \<leftarrow> m n;
     if a \<noteq> b then Some 0 else do { j \<leftarrow> match_len m (Suc h) (Suc n) k; Some (Suc j) } }"

partial_function (option) strnstr_loop :: "mem \<Rightarrow> nat \<Rightarrow> nat \<Rightarrow> uint \<Rightarrow> uint \<Rightarrow> uint \<Rightarrow> nat option option" where
  "strnstr_loop m h n nlen len i =
     (if i + nlen \<le> len then do {
        j \<leftarrow> match_len m (h + unat i) n (unat nlen);
        if j = unat nlen then Some (Some (h + unat i)) else strnstr_loop m h n nlen len (i + 1) }
      else Some None)"

definition wolfssl_strnstr :: "mem \<Rightarrow> nat \<Rightarrow> nat \<Rightarrow> uint \<Rightarrow> nat option option" where
  "wolfssl_strnstr m h n len = do {
     c \<leftarrow> m n;
     if c = 0 then Some (Some h)
     else do { nlen \<leftarrow> strlen_loop m n 0; strnstr_loop m h n nlen len 0 } }"

partial_function (option) strchr_loop :: "mem \<Rightarrow> nat \<Rightarrow> byte \<Rightarrow> (nat + nat) option" where
  "strchr_loop m s c = do {
     x \<leftarrow> m s;
     if x = 0 then Some (Inr s) else if x = c then Some (Inl s) else strchr_loop m (Suc s) c }"

definition wolfssl_strchr :: "mem \<Rightarrow> nat \<Rightarrow> 32 word \<Rightarrow> nat option option" where
  "wolfssl_strchr m s c = do {
     r \<leftarrow> strchr_loop m s (ucast c);
     Some (case r of Inl p \<Rightarrow> Some p | Inr e \<Rightarrow> if c = 0 then Some e else None) }"

text \<open>The inner loop of \<open>wolfssl_strstr\<close>: the final position of \<open>na\<close>.\<close>

partial_function (option) strstr_match :: "mem \<Rightarrow> nat \<Rightarrow> nat \<Rightarrow> nat option" where
  "strstr_match m ha na = do {
     a \<leftarrow> m ha;
     if a = 0 then Some na
     else do { b \<leftarrow> m na; if b = 0 \<or> a \<noteq> b then Some na else strstr_match m (Suc ha) (Suc na) } }"

partial_function (option) strstr_loop :: "mem \<Rightarrow> nat \<Rightarrow> nat \<Rightarrow> nat option option" where
  "strstr_loop m h n = do {
     c \<leftarrow> m h;
     if c = 0 then Some None
     else do {
       na \<leftarrow> strstr_match m h n;
       e \<leftarrow> m na;
       if e = 0 then Some (Some h) else strstr_loop m (Suc h) n } }"

definition wolfssl_strstr :: "mem \<Rightarrow> nat \<Rightarrow> nat \<Rightarrow> nat option option" where
  "wolfssl_strstr m h n = do { c \<leftarrow> m n; if c = 0 then Some (Some h) else strstr_loop m h n }"

subsection \<open>Comparing\<close>

definition to_lower :: "byte \<Rightarrow> byte" where
  "to_lower c = (if 65 \<le> c \<and> c \<le> 90 then c + 97 - 65 else c)"

definition byte_diff :: "byte \<Rightarrow> byte \<Rightarrow> int" where
  "byte_diff a b = uint a - uint b"

partial_function (option) wolfssl_strcasecmp :: "mem \<Rightarrow> nat \<Rightarrow> nat \<Rightarrow> int option" where
  "wolfssl_strcasecmp m a b = do {
     x \<leftarrow> m a; y \<leftarrow> m b;
     if x \<noteq> 0 \<and> y \<noteq> 0
     then (if to_lower x \<noteq> to_lower y then Some (byte_diff (to_lower x) (to_lower y))
           else wolfssl_strcasecmp m (Suc a) (Suc b))
     else Some (byte_diff x y) }"

text \<open>In the functions with a bound, \<open>n-- && \<dots>\<close> reads nothing when \<open>n\<close> is 0 and leaves \<open>n = (size_t)-1\<close>,
  the only case in which it has that value after the loop (\<open>n\<close> was below it before).\<close>

fun strncasecmp_loop :: "mem \<Rightarrow> nat \<Rightarrow> nat \<Rightarrow> nat \<Rightarrow> int option" where
  "strncasecmp_loop m a b 0 = Some 0"
| "strncasecmp_loop m a b (Suc n) = do {
     x \<leftarrow> m a; y \<leftarrow> m b;
     if x \<noteq> 0 \<and> y \<noteq> 0
     then (if to_lower x \<noteq> to_lower y then Some (byte_diff (to_lower x) (to_lower y))
           else strncasecmp_loop m (Suc a) (Suc b) n)
     else Some (byte_diff (to_lower x) (to_lower y)) }"

definition wolfssl_strncasecmp :: "mem \<Rightarrow> nat \<Rightarrow> nat \<Rightarrow> uint \<Rightarrow> int option" where
  "wolfssl_strncasecmp m a b n = strncasecmp_loop m a b (unat n)"

partial_function (option) strcmp :: "mem \<Rightarrow> nat \<Rightarrow> nat \<Rightarrow> int option" where
  "strcmp m a b = do {
     x \<leftarrow> m a; y \<leftarrow> m b;
     if x \<noteq> 0 \<and> y \<noteq> 0 \<and> x = y then strcmp m (Suc a) (Suc b) else Some (byte_diff x y) }"

fun strncmp_loop :: "mem \<Rightarrow> nat \<Rightarrow> nat \<Rightarrow> nat \<Rightarrow> int option" where
  "strncmp_loop m a b 0 = Some 0"
| "strncmp_loop m a b (Suc n) = do {
     x \<leftarrow> m a; y \<leftarrow> m b;
     if x \<noteq> 0 \<and> y \<noteq> 0 \<and> x = y then strncmp_loop m (Suc a) (Suc b) n else Some (byte_diff x y) }"

definition strncmp :: "mem \<Rightarrow> nat \<Rightarrow> nat \<Rightarrow> uint \<Rightarrow> int option" where
  "strncmp m a b n = strncmp_loop m a b (unat n)"

subsection \<open>Memory\<close>

definition inet_pton :: "32 word \<Rightarrow> nat \<Rightarrow> nat \<Rightarrow> mem \<Rightarrow> int \<times> mem" where
  "inet_pton af src dst m = (0, m)"

fun memset_loop :: "nat \<Rightarrow> nat \<Rightarrow> byte \<Rightarrow> mem \<Rightarrow> mem option" where
  "memset_loop 0 p c m = Some m"
| "memset_loop (Suc n) p c m = do { m \<leftarrow> store8 p c m; memset_loop n (Suc p) c m }"

definition memset :: "nat \<Rightarrow> 32 word \<Rightarrow> uint \<Rightarrow> mem \<Rightarrow> (nat \<times> mem) option" where
  "memset s c n m = do { m \<leftarrow> memset_loop (unat n) s (ucast c) m; Some (s, m) }"

fun copy_up :: "nat \<Rightarrow> nat \<Rightarrow> nat \<Rightarrow> mem \<Rightarrow> mem option" where
  "copy_up 0 d s m = Some m"
| "copy_up (Suc n) d s m = do { c \<leftarrow> m s; m \<leftarrow> store8 d c m; copy_up n (Suc d) (Suc s) m }"

fun copy_down :: "nat \<Rightarrow> nat \<Rightarrow> nat \<Rightarrow> mem \<Rightarrow> mem option" where
  "copy_down 0 d s m = Some m"
| "copy_down (Suc n) d s m = do { c \<leftarrow> m (s - 1); m \<leftarrow> store8 (d - 1) c m; copy_down n (d - 1) (s - 1) m }"

definition memcpy :: "nat \<Rightarrow> nat \<Rightarrow> uint \<Rightarrow> mem \<Rightarrow> (nat \<times> mem) option" where
  "memcpy d s n m = do { m \<leftarrow> copy_up (unat n) d s m; Some (d, m) }"

definition memmove :: "nat \<Rightarrow> nat \<Rightarrow> uint \<Rightarrow> mem \<Rightarrow> (nat \<times> mem) option" where
  "memmove d s n m = do {
     m \<leftarrow> (if d < s then copy_up (unat n) d s m else copy_down (unat n) (d + unat n) (s + unat n) m);
     Some (d, m) }"

section \<open>Strings in memory\<close>

fun cstr :: "mem \<Rightarrow> nat \<Rightarrow> byte list \<Rightarrow> bool" where
  "cstr m a [] \<longleftrightarrow> m a = Some 0"
| "cstr m a (c # s) \<longleftrightarrow> m a = Some c \<and> c \<noteq> 0 \<and> cstr m (Suc a) s"

fun bytes_at :: "mem \<Rightarrow> nat \<Rightarrow> byte list \<Rightarrow> bool" where
  "bytes_at m a [] \<longleftrightarrow> True"
| "bytes_at m a (c # s) \<longleftrightarrow> m a = Some c \<and> bytes_at m (Suc a) s"

lemma bytes_at_iff: "bytes_at m a xs \<longleftrightarrow> (\<forall>i<length xs. m (a + i) = Some (xs ! i))"
  by (induction xs arbitrary: a) (auto simp: nth_Cons' less_Suc_eq_0_disj)

lemma cstr_iff: "cstr m a s \<longleftrightarrow> bytes_at m a s \<and> 0 \<notin> set s \<and> m (a + length s) = Some 0"
  by (induction s arbitrary: a) auto

lemma cstr_unique: "cstr m a s \<Longrightarrow> cstr m a t \<Longrightarrow> s = t"
proof (induction s arbitrary: a t)
  case Nil
  then show ?case by (cases t) auto
next
  case (Cons c s)
  then show ?case by (cases t) auto
qed

lemma bytes_at_append: "bytes_at m a (xs @ ys) \<longleftrightarrow> bytes_at m a xs \<and> bytes_at m (a + length xs) ys"
  by (induction xs arbitrary: a) auto

lemma cstr_drop: "cstr m a s \<Longrightarrow> i \<le> length s \<Longrightarrow> cstr m (a + i) (drop i s)"
proof (induction s arbitrary: a i)
  case (Cons c s)
  then show ?case using Cons.IH [of "Suc a"] by (cases i) auto
qed simp

lemma str_end_cstr: "cstr m a s \<Longrightarrow> str_end m a = Some (a + length s)"
  by (induction s arbitrary: a) (simp_all add: str_end.simps)

lemma strlen_loop_cstr: "cstr m a s \<Longrightarrow> strlen_loop m a n = Some (n + of_nat (length s))"
  by (induction s arbitrary: a n) (simp_all add: strlen_loop.simps add.assoc)

section \<open>Searching\<close>

lemma strstr_match_cstr:
  assumes "cstr m ha s" "cstr m na t"
  shows "\<exists>k\<le>length t. strstr_match m ha na = Some (na + k) \<and> (k = length t \<longleftrightarrow> prefix t s)"
  using assms
proof (induction s arbitrary: ha na t)
  case Nil
  then show ?case by (cases t) (auto simp: strstr_match.simps)
next
  case (Cons c s)
  show ?case
  proof (cases t)
    case Nil
    with Cons.prems show ?thesis by (auto simp: strstr_match.simps)
  next
    case [simp]: (Cons d u)
    show ?thesis
    proof (cases "c = d")
      case True
      with Cons.prems Cons.IH [of "Suc ha" "Suc na" u] obtain k
        where "k \<le> length u" "strstr_match m (Suc ha) (Suc na) = Some (Suc na + k)" "k = length u \<longleftrightarrow> prefix u s" by auto
      with True Cons.prems show ?thesis by (auto simp: strstr_match.simps intro!: exI [of _ "Suc k"])
    next
      case False
      with Cons.prems show ?thesis by (auto simp: strstr_match.simps intro!: exI [of _ 0])
    qed
  qed
qed

lemma cstr_end_iff: "cstr m a t \<Longrightarrow> k \<le> length t \<Longrightarrow> \<exists>c. m (a + k) = Some c \<and> (c = 0 \<longleftrightarrow> k = length t)"
  by (auto simp: cstr_iff bytes_at_iff le_less in_set_conv_nth)

text \<open>The first position at which \<open>t\<close> occurs in \<open>s\<close>.\<close>

fun first_occ :: "byte list \<Rightarrow> byte list \<Rightarrow> nat option" where
  "first_occ t [] = (if t = [] then Some 0 else None)"
| "first_occ t (c # s) = (if prefix t (c # s) then Some 0 else map_option Suc (first_occ t s))"

lemma first_occ_Some:
  "first_occ t s = Some i \<longleftrightarrow> i \<le> length s \<and> prefix t (drop i s) \<and> (\<forall>j<i. \<not> prefix t (drop j s))"
proof (induction s arbitrary: i)
  case (Cons c s)
  show ?case
  proof (cases i)
    case (Suc k)
    then show ?thesis using Cons.IH [of k] by (auto simp: less_Suc_eq_0_disj)
  qed auto
qed auto

lemma first_occ_None: "first_occ t s = None \<longleftrightarrow> (\<forall>j\<le>length s. \<not> prefix t (drop j s))"
proof (induction s)
  case (Cons c s)
  show ?case
  proof
    assume *: "first_occ t (c # s) = None"
    show "\<forall>j\<le>length (c # s). \<not> prefix t (drop j (c # s))"
    proof (intro allI impI)
      fix j
      assume "j \<le> length (c # s)"
      with * Cons.IH show "\<not> prefix t (drop j (c # s))" by (cases j) (auto split: if_splits)
    qed
  next
    assume "\<forall>j\<le>length (c # s). \<not> prefix t (drop j (c # s))"
    from this [rule_format, of 0] this [rule_format, of "Suc _"] Cons.IH
    show "first_occ t (c # s) = None" by auto
  qed
qed auto

lemma strstr_loop_cstr:
  assumes "cstr m h s" "cstr m n t" "t \<noteq> []"
  shows "strstr_loop m h n = Some (map_option ((+) h) (first_occ t s))"
  using assms(1)
proof (induction s arbitrary: h)
  case Nil
  then show ?case using assms(3) by (simp add: strstr_loop.simps)
next
  case (Cons c s)
  obtain k where k: "k \<le> length t" "strstr_match m h n = Some (n + k)" "k = length t \<longleftrightarrow> prefix t (c # s)"
    using strstr_match_cstr [OF Cons.prems assms(2)] by blast
  obtain e where e: "m (n + k) = Some e" "e = 0 \<longleftrightarrow> k = length t" using cstr_end_iff [OF assms(2) k(1)] by blast
  have "strstr_loop m h n = (if prefix t (c # s) then Some (Some h) else strstr_loop m (Suc h) n)"
    using Cons.prems e k by (simp add: strstr_loop.simps)
  with Cons show ?case by (auto simp: option.map_comp o_def)
qed

lemma match_len_bytes:
  assumes "bytes_at m h xs" "bytes_at m n t" "length t \<le> length xs"
  shows "\<exists>j\<le>length t. match_len m h n (length t) = Some j \<and> (j = length t \<longleftrightarrow> prefix t xs)"
  using assms
proof (induction t arbitrary: h n xs)
  case (Cons d t)
  then obtain c ys where [simp]: "xs = c # ys" by (cases xs) auto
  show ?case
  proof (cases "c = d")
    case True
    with Cons.prems Cons.IH [of "Suc h" ys "Suc n"] obtain j
      where "j \<le> length t" "match_len m (Suc h) (Suc n) (length t) = Some j" "j = length t \<longleftrightarrow> prefix t ys" by auto
    with True Cons.prems show ?thesis by (auto intro!: exI [of _ "Suc j"])
  next
    case False
    with Cons.prems show ?thesis by (auto intro!: exI [of _ 0])
  qed
qed simp

lemma first_occ_short: "length s < length t \<Longrightarrow> first_occ t s = None"
  using prefix_length_le by (fastforce simp: first_occ_None)

lemma strnstr_loop_bytes:
  assumes "bytes_at m h xs" "bytes_at m n t" "t \<noteq> []" "length t < 2 ^ 32" "length xs = unat len" "unat len < 2 ^ 32 - 1"
    and "unat i \<le> unat len" "unat i + length t \<le> unat len + 1 \<or> i = 0"
  shows "strnstr_loop m h n (of_nat (length t)) len i =
    Some (map_option ((+) (h + unat i)) (first_occ t (drop (unat i) xs)))"
  using assms(7,8)
proof (induction "unat len - unat i" arbitrary: i rule: less_induct)
  case less
  have t: "unat (of_nat (length t) :: uint) = length t" using assms(4) by (simp add: unat_of_nat take_bit_nat_eq_self)
  have "unat i + length t < 2 ^ 32" using less.prems assms(4,6) by auto
  then have s: "unat (i + of_nat (length t)) = unat i + length t" by (simp add: unat_word_ariths t)
  show ?case
  proof (cases "unat i + length t \<le> length xs")
    case False
    then have "\<not> i + of_nat (length t) \<le> len" using s assms(5) by (simp add: word_le_nat_alt)
    moreover have "length (drop (unat i) xs) < length t" using False less.prems(1) assms(5) by simp
    ultimately show ?thesis by (simp add: strnstr_loop.simps first_occ_short)
  next
    case True
    then have g: "i + of_nat (length t) \<le> len" using s assms(5) by (simp add: word_le_nat_alt)
    have "bytes_at m (h + unat i) (drop (unat i) xs)"
      using assms(1) True bytes_at_append [of m h "take (unat i) xs" "drop (unat i) xs"] by simp
    moreover have "length t \<le> length (drop (unat i) xs)" using True by simp
    ultimately obtain j
      where j: "match_len m (h + unat i) n (length t) = Some j" "j = length t \<longleftrightarrow> prefix t (drop (unat i) xs)"
      using match_len_bytes [OF _ assms(2)] by blast
    have step: "strnstr_loop m h n (of_nat (length t)) len i =
        (if prefix t (drop (unat i) xs) then Some (Some (h + unat i)) else strnstr_loop m h n (of_nat (length t)) len (i + 1))"
      using g j by (subst strnstr_loop.simps) (simp add: t)
    have lt: "unat i < length xs" using True assms(3) by (cases t) auto
    then have i1: "unat (i + 1) = unat i + 1" using assms(5,6) by (simp add: unat_word_ariths)
    have d: "drop (unat i) xs = xs ! unat i # drop (Suc (unat i)) xs" using lt by (rule Cons_nth_drop_Suc [symmetric])
    have IH: "strnstr_loop m h n (of_nat (length t)) len (i + 1) =
        Some (map_option ((+) (h + unat (i + 1))) (first_occ t (drop (unat (i + 1)) xs)))"
      using less.hyps [of "i + 1"] i1 lt True assms(5) by simp
    show ?thesis unfolding step IH i1
      by (auto simp: d option.map_comp intro!: option.map_cong)
  qed
qed

lemma strchr_loop_cstr:
  assumes "cstr m s t"
  shows "strchr_loop m s c = Some (case first_occ [c] t of None \<Rightarrow> Inr (s + length t) | Some i \<Rightarrow> Inl (s + i))"
  using assms by (induction t arbitrary: s) (auto simp: strchr_loop.simps split: option.splits)

section \<open>Comparing\<close>

text \<open>\<open>d\<close> orders two byte strings the way a C comparison function reports it.\<close>

definition orders :: "int \<Rightarrow> byte list \<Rightarrow> byte list \<Rightarrow> bool" where
  "orders d s t \<longleftrightarrow> (d = 0 \<longleftrightarrow> s = t) \<and> (d < 0 \<longleftrightarrow> ord_class.lexordp s t)"

lemma byte_diff_sign: "byte_diff x y = 0 \<longleftrightarrow> x = y" "byte_diff x y < 0 \<longleftrightarrow> x < y"
  by (simp_all add: byte_diff_def word_less_def word_uint_eq_iff)

lemma to_lower_0: "to_lower 0 = 0" "to_lower c = 0 \<longleftrightarrow> c = 0"
proof -
  show "to_lower 0 = 0" by (simp add: to_lower_def)
  show "to_lower c = 0 \<longleftrightarrow> c = 0"
  proof
    assume *: "to_lower c = 0"
    show "c = 0"
    proof (rule ccontr)
      assume "c \<noteq> 0"
      with * have "65 \<le> c" "c \<le> 90" "c + 32 = 0" by (auto simp: to_lower_def add.commute split: if_splits)
      then have "65 \<le> unat c" "unat c \<le> 90" "unat (c + 32) = 0" by (simp_all add: word_le_nat_alt)
      then show False by (simp add: unat_word_ariths)
    qed
  qed (simp add: to_lower_def)
qed

lemma orders_simps:
  "orders d [] [] \<longleftrightarrow> d = 0"
  "orders d [] (y # t) \<longleftrightarrow> d < 0"
  "orders d (x # s) [] \<longleftrightarrow> 0 < d"
  "orders d (x # s) (x # t) \<longleftrightarrow> orders d s t"
  by (auto simp: orders_def)

lemma orders_diff: "x \<noteq> y \<Longrightarrow> orders (byte_diff x y) (x # s) (y # t)"
  by (auto simp: orders_def byte_diff_sign)

lemma byte_diff_0: "byte_diff 0 y < 0 \<longleftrightarrow> y \<noteq> 0" "0 < byte_diff x 0 \<longleftrightarrow> x \<noteq> 0" "byte_diff 0 0 = 0"
  by (auto simp: byte_diff_def unsigned_eq_0_iff order.strict_iff_order)

lemmas compare_simps = orders_simps orders_diff byte_diff_0 to_lower_0

lemma strcmp_cstr: "cstr m a s \<Longrightarrow> cstr m b t \<Longrightarrow> \<exists>d. strcmp m a b = Some d \<and> orders d s t"
proof (induction s arbitrary: a b t)
  case Nil
  then show ?case by (cases t) (simp_all add: strcmp.simps compare_simps)
next
  case (Cons c s)
  then show ?case by (cases t; subst strcmp.simps) (auto simp: compare_simps)
qed

lemma strcasecmp_cstr:
  "cstr m a s \<Longrightarrow> cstr m b t \<Longrightarrow> \<exists>d. wolfssl_strcasecmp m a b = Some d \<and> orders d (map to_lower s) (map to_lower t)"
proof (induction s arbitrary: a b t)
  case Nil
  then show ?case by (cases t) (simp_all add: wolfssl_strcasecmp.simps compare_simps)
next
  case (Cons c s)
  then show ?case by (cases t; subst wolfssl_strcasecmp.simps) (auto simp: compare_simps)
qed

lemma strncmp_loop_cstr:
  "cstr m a s \<Longrightarrow> cstr m b t \<Longrightarrow> \<exists>d. strncmp_loop m a b n = Some d \<and> orders d (take n s) (take n t)"
proof (induction n arbitrary: a b s t)
  case (Suc n)
  then show ?case by (cases s; cases t) (auto simp: compare_simps)
qed (simp add: compare_simps)

lemma strncasecmp_loop_cstr:
  "cstr m a s \<Longrightarrow> cstr m b t \<Longrightarrow> \<exists>d. strncasecmp_loop m a b n = Some d \<and>
     orders d (map to_lower (take n s)) (map to_lower (take n t))"
proof (induction n arbitrary: a b s t)
  case (Suc n)
  then show ?case by (cases s; cases t) (auto simp: compare_simps)
qed (simp add: compare_simps)

section \<open>Memory\<close>

definition copied :: "mem \<Rightarrow> nat \<Rightarrow> nat \<Rightarrow> nat \<Rightarrow> mem" where
  "copied m d s n = (\<lambda>x. if d \<le> x \<and> x < d + n then m (s + (x - d)) else m x)"

text \<open>All addresses of a range are mapped.\<close>

definition mapped :: "mem \<Rightarrow> nat \<Rightarrow> nat \<Rightarrow> bool" where
  "mapped m p n \<longleftrightarrow> (\<forall>i<n. m (p + i) \<noteq> None)"

lemma mapped_Suc: "mapped m p (Suc n) \<longleftrightarrow> (\<exists>c. m p = Some c) \<and> mapped m (Suc p) n"
  by (auto simp: mapped_def less_Suc_eq_0_disj)

lemma mapped_Suc_end: "mapped m p (Suc n) \<longleftrightarrow> (\<exists>c. m (p + n) = Some c) \<and> mapped m p n"
  by (auto simp: mapped_def less_Suc_eq)

lemma mapped_upd: "mapped m p n \<Longrightarrow> mapped (m(x \<mapsto> c)) p n"
  by (simp add: mapped_def)

lemma copied_0 [simp]: "copied m d s 0 = m"
  by (auto simp: copied_def fun_eq_iff)

lemma copied_Suc:
  assumes "m s = Some c" "\<forall>x\<in>{Suc s..s + n}. x \<noteq> d"
  shows "copied (m(d \<mapsto> c)) (Suc d) (Suc s) n = copied m d s (Suc n)"
proof
  fix x
  consider "x < d" | "x = d" | k where "x = Suc d + k" by (metis add_Suc less_imp_Suc_add linorder_neqE_nat add.commute)
  then show "copied (m(d \<mapsto> c)) (Suc d) (Suc s) n x = copied m d s (Suc n) x"
    using assms by cases (auto simp: copied_def)
qed

lemma copy_up_copied:
  assumes "mapped m s n" "mapped m d n" "d \<le> s \<or> s + n \<le> d"
  shows "copy_up n d s m = Some (copied m d s n)"
  using assms
proof (induction n arbitrary: d s m)
  case 0
  then show ?case by simp
next
  case (Suc n)
  obtain c e where c: "m s = Some c" and e: "m d = Some e" using Suc.prems(1,2) by (auto simp: mapped_Suc)
  let ?m = "m(d \<mapsto> c)"
  have "copy_up n (Suc d) (Suc s) ?m = Some (copied ?m (Suc d) (Suc s) n)"
    by (rule Suc.IH) (use Suc.prems in \<open>auto simp: mapped_Suc intro!: mapped_upd simp del: fun_upd_apply\<close>)
  moreover have "copied ?m (Suc d) (Suc s) n = copied m d s (Suc n)"
    using c Suc.prems(3) by (intro copied_Suc) auto
  ultimately show ?case by (simp add: c e store8_def)
qed

lemma copy_down_copied:
  assumes "mapped m s n" "mapped m d n" "s \<le> d"
  shows "copy_down n (d + n) (s + n) m = Some (copied m d s n)"
  using assms
proof (induction n arbitrary: m)
  case 0
  then show ?case by simp
next
  case (Suc n)
  obtain c e where c: "m (s + n) = Some c" and e: "m (d + n) = Some e" using Suc.prems(1,2) by (auto simp: mapped_Suc_end)
  let ?m = "m(d + n \<mapsto> c)"
  have "copy_down n (d + n) (s + n) ?m = Some (copied ?m d s n)"
    by (rule Suc.IH) (use Suc.prems in \<open>auto simp: mapped_Suc_end intro!: mapped_upd simp del: fun_upd_apply\<close>)
  moreover have "copied ?m d s n = copied m d s (Suc n)"
    using c Suc.prems(3) by (intro ext) (auto simp: copied_def less_Suc_eq)
  ultimately show ?case by (simp add: c e store8_def)
qed

lemma memset_loop_filled:
  assumes "mapped m p n"
  shows "memset_loop n p c m = Some (\<lambda>x. if p \<le> x \<and> x < p + n then Some c else m x)"
  using assms
proof (induction n arbitrary: p m)
  case (Suc n)
  obtain e where e: "m p = Some e" using Suc.prems by (auto simp: mapped_Suc)
  have "memset_loop n (Suc p) c (m(p \<mapsto> c)) =
      Some (\<lambda>x. if Suc p \<le> x \<and> x < Suc p + n then Some c else (m(p \<mapsto> c)) x)"
    by (rule Suc.IH) (use Suc.prems in \<open>auto simp: mapped_Suc intro!: mapped_upd simp del: fun_upd_apply\<close>)
  then show ?case by (auto simp: e store8_def fun_eq_iff)
qed (auto simp: fun_eq_iff)

text \<open>Concatenation copies the bytes before the terminator of the source, at most \<open>n\<close>.\<close>

lemma strncat_loop_copied:
  assumes "cstr m s t" "mapped m p k" "k = min n (length t)" "\<forall>x\<in>{s..s + length t}. x < p \<or> p + k \<le> x"
  shows "strncat_loop n p s m = Some (p + k, copied m p s k)"
  using assms
proof (induction n arbitrary: p s m t k)
  case 0
  then show ?case by simp
next
  case (Suc n)
  show ?case
  proof (cases t)
    case Nil
    with Suc.prems show ?thesis by simp
  next
    case (Cons c u)
    define j where "j = min n (length u)"
    have k: "k = Suc j" using Suc.prems(3) Cons by (simp add: j_def)
    obtain e where e: "m p = Some e" using Suc.prems(2) k by (auto simp: mapped_Suc)
    let ?m = "m(p \<mapsto> c)"
    have c: "m s = Some c" "c \<noteq> 0" "cstr m (Suc s) u" using Suc.prems(1) Cons by auto
    have "cstr ?m (Suc s) u"
      using c(3) Suc.prems(4) k Cons unfolding cstr_iff bytes_at_iff by (auto simp: Suc_le_eq)
    then have "strncat_loop n (Suc p) (Suc s) ?m = Some (Suc p + j, copied ?m (Suc p) (Suc s) j)"
    proof (rule Suc.IH)
      show "mapped ?m (Suc p) j" using Suc.prems(2) k by (simp add: mapped_Suc mapped_upd)
      show "\<forall>x\<in>{Suc s..Suc s + length u}. x < Suc p \<or> Suc p + j \<le> x"
      proof
        fix x
        assume "x \<in> {Suc s..Suc s + length u}"
        then show "x < Suc p \<or> Suc p + j \<le> x" using bspec [OF Suc.prems(4), of x] k Cons by auto
      qed
    qed (simp add: j_def)
    moreover have "copied ?m (Suc p) (Suc s) j = copied m p s k"
      unfolding k using c(1) Suc.prems(4) k Cons by (intro copied_Suc) (auto simp: j_def)
    ultimately show ?thesis using c e k by (simp add: store8_def)
  qed
qed

lemma strncat_cstr:
  assumes "cstr m d u" "cstr m s t" "mapped m (d + length u) (Suc (min n (length t)))"
    and "\<forall>x\<in>{s..s + length t}. x < d + length u \<or> d + length u + min n (length t) < x"
  shows "\<exists>m'. strncat_loop n (d + length u) s m \<bind> (\<lambda>(p, m). store8 p 0 m) = Some m' \<and>
    cstr m' d (u @ take n t) \<and>
    (\<forall>x. x < d + length u \<or> d + length u + min n (length t) < x \<longrightarrow> m' x = m x)"
proof -
  define k p where "k = min n (length t)" and "p = d + length u"
  note asm = assms [folded p_def, folded k_def]
  define m' where "m' = (copied m p s k)(p + k \<mapsto> 0)"
  obtain e where e: "m (p + k) = Some e" and mp: "mapped m p k" using asm(3) by (auto simp: mapped_Suc_end)
  have run: "strncat_loop n p s m = Some (p + k, copied m p s k)"
    by (rule strncat_loop_copied [OF asm(2) mp]) (use asm(4) in \<open>auto simp: k_def\<close>)
  have "store8 (p + k) 0 (copied m p s k) = Some m'" by (simp add: store8_def copied_def e m'_def)
  moreover have "bytes_at m' d u" "bytes_at m' p (take n t)"
    using asm(1,2) unfolding cstr_iff bytes_at_iff by (auto simp: m'_def copied_def p_def k_def)
  then have "cstr m' d (u @ take n t)"
    using asm(1,2) by (auto simp: cstr_iff bytes_at_append p_def m'_def k_def add.assoc min.commute dest: in_set_takeD)
  moreover have "\<forall>x. x < p \<or> p + k < x \<longrightarrow> m' x = m x" by (auto simp: m'_def copied_def)
  ultimately show ?thesis using run by (simp add: p_def k_def)
qed

section \<open>Searching past the terminator\<close>

lemma match_len_cstr:
  assumes "cstr m h u" "cstr m n t"
  shows "\<exists>j\<le>length t. match_len m h n (length t) = Some j \<and> (j = length t \<longleftrightarrow> prefix t u)"
  using assms
proof (induction t arbitrary: h n u)
  case (Cons d t)
  show ?case
  proof (cases "\<exists>v. u = d # v")
    case True
    then obtain v where u: "u = d # v" by blast
    with Cons.prems Cons.IH [of "Suc h" v "Suc n"] obtain j
      where "j \<le> length t" "match_len m (Suc h) (Suc n) (length t) = Some j" "j = length t \<longleftrightarrow> prefix t v" by auto
    with u Cons.prems show ?thesis by (auto intro!: exI [of _ "Suc j"])
  next
    case False
    with Cons.prems show ?thesis by (cases u) (auto intro!: exI [of _ 0])
  qed
qed simp

lemma strnstr_loop_overread:
  assumes "cstr m h s" "cstr m n t" "t \<noteq> []" "first_occ t s = None" "m (h + length s + 1) = None"
    and "length s + 1 + length t \<le> unat len" "unat i \<le> length s + 1"
  shows "strnstr_loop m h n (of_nat (length t)) len i = None"
  using assms(7)
proof (induction "length s + 1 - unat i" arbitrary: i rule: less_induct)
  case less
  have len: "unat len < 2 ^ 32" by (rule order_less_le_trans [OF unsigned_less]) simp
  then have t: "unat (of_nat (length t) :: uint) = length t" using assms(6) by (simp add: unat_of_nat take_bit_nat_eq_self)
  have "unat (i + of_nat (length t)) = unat i + length t" using less.prems assms(6) len by (simp add: unat_word_ariths t)
  then have g: "i + of_nat (length t) \<le> len" using less.prems assms(6) by (simp add: word_le_nat_alt)
  show ?case
  proof (cases "unat i = length s + 1")
    case True
    obtain c u where "t = c # u" using assms(3) by (cases t) auto
    then have "match_len m (h + unat i) n (length t) = None" using assms(5) True by (simp add: add.assoc)
    with g show ?thesis by (subst strnstr_loop.simps) (simp add: t)
  next
    case False
    with less.prems have i: "unat i \<le> length s" by simp
    then obtain j where j: "match_len m (h + unat i) n (length t) = Some j" "j \<noteq> length t"
      using match_len_cstr [OF cstr_drop [OF assms(1) i] assms(2)] assms(4) by (auto simp: first_occ_None)
    have i1: "unat (i + 1) = unat i + 1" using i assms(6) len by (simp add: unat_word_ariths)
    have "strnstr_loop m h n (of_nat (length t)) len (i + 1) = None"
      using less.hyps [of "i + 1"] i i1 by simp
    with g j show ?thesis by (subst strnstr_loop.simps) (simp add: t)
  qed
qed

section \<open>Properties\<close>

text \<open>C34: The search functions return what the C library promises.  For strings in memory,
  \<open>strlen\<close> is the length, \<open>wolfssl_strstr\<close> returns the address of the first occurrence of the needle or
  \<open>NULL\<close>, \<open>wolfssl_strchr\<close> the first occurrence of the character (the terminator for 0), and
  \<open>wolfssl_strnstr\<close> the first occurrence that lies within the first \<open>len\<close> bytes, whatever these are,
  for every \<open>len\<close> but the largest; all of them terminate without leaving the strings.\<close>

theorem wolfssl_str_search_correct:
  assumes "cstr m h s" "cstr m n t" "length t < 2 ^ 32"
    and "bytes_at m b xs" "length xs = unat len" "unat len < 2 ^ 32 - 1"
  shows "strlen m h = Some (of_nat (length s)) \<and>
    wolfssl_strstr m h n = Some (map_option ((+) h) (first_occ t s)) \<and>
    wolfssl_strchr m h c = Some (case first_occ [ucast c] s of
      Some i \<Rightarrow> Some (h + i) | None \<Rightarrow> if c = 0 then Some (h + length s) else None) \<and>
    wolfssl_strnstr m b n len = Some (map_option ((+) b) (first_occ t xs))"
proof -
  have "wolfssl_strstr m h n = Some (map_option ((+) h) (first_occ t s))"
    using assms(2) strstr_loop_cstr [OF assms(1,2)] by (cases t; cases s) (auto simp: wolfssl_strstr_def)
  moreover have "wolfssl_strnstr m b n len = Some (map_option ((+) b) (first_occ t xs))"
  proof (cases t)
    case Nil
    then show ?thesis using assms(2) by (cases xs) (auto simp: wolfssl_strnstr_def)
  next
    case (Cons c u)
    have "bytes_at m n t" using assms(2) by (simp add: cstr_iff)
    from strnstr_loop_bytes [OF assms(4) this _ assms(3,5,6), of 0] Cons
    have "strnstr_loop m b n (of_nat (length t)) len 0 = Some (map_option ((+) b) (first_occ t xs))" by simp
    then show ?thesis using assms(2) Cons strlen_loop_cstr [OF assms(2), of 0] by (simp add: wolfssl_strnstr_def)
  qed
  moreover have "wolfssl_strchr m h c = Some (case first_occ [ucast c] s of
      Some i \<Rightarrow> Some (h + i) | None \<Rightarrow> if c = 0 then Some (h + length s) else None)"
    by (simp add: wolfssl_strchr_def strchr_loop_cstr [OF assms(1)] split: option.splits)
  ultimately show ?thesis using strlen_loop_cstr [OF assms(1), of 0] by (simp add: strlen_def)
qed

definition mem_of :: "nat \<Rightarrow> byte list \<Rightarrow> mem" where
  "mem_of b xs = (\<lambda>a. if b \<le> a \<and> a < b + length xs then Some (xs ! (a - b)) else None)"

theorem wolfssl_str_search_correct_witness:
  "let m = mem_of 100 [97, 98, 97, 98, 99, 0, 97, 98, 99, 0]
   in wolfssl_strstr m 100 106 = Some (Some 102) \<and> wolfssl_strnstr m 100 106 4 = Some None"
  using wolfssl_str_search_correct [of "mem_of 100 [97, 98, 97, 98, 99, 0, 97, 98, 99, 0]" 100
      "[97, 98, 97, 98, 99]" 106 "[97, 98, 99]" 100 "[97, 98, 97, 98]" 4]
  by (simp add: mem_of_def)

text \<open>The comparison functions order strings: \<open>strcmp\<close> and \<open>strncmp\<close> (on the first \<open>n\<close> bytes) return 0
  exactly for equal strings and a negative number exactly when the first one is smaller in the
  lexicographic order of its bytes; \<open>wolfssl_strcasecmp\<close> and \<open>wolfssl_strncasecmp\<close> do so after mapping
  upper case letters to lower case.\<close>

lemma str_compare_correct:
  assumes "cstr m a s" "cstr m b t"
  shows "(\<exists>d. strcmp m a b = Some d \<and> orders d s t) \<and>
    (\<exists>d. strncmp m a b n = Some d \<and> orders d (take (unat n) s) (take (unat n) t)) \<and>
    (\<exists>d. wolfssl_strcasecmp m a b = Some d \<and> orders d (map to_lower s) (map to_lower t)) \<and>
    (\<exists>d. wolfssl_strncasecmp m a b n = Some d \<and>
      orders d (map to_lower (take (unat n) s)) (map to_lower (take (unat n) t)))"
  unfolding strncmp_def wolfssl_strncasecmp_def
  by (intro conjI strcmp_cstr strncmp_loop_cstr strcasecmp_cstr strncasecmp_loop_cstr assms)

text \<open>C35: The memory functions write exactly what they should.  \<open>memmove\<close> copies the bytes the source had
  before the call, for every overlap of source and destination; \<open>memcpy\<close> does so for ranges that do not
  overlap; \<open>memset\<close> fills the range; \<open>wolfssl_strncat\<close> appends the first \<open>n\<close> bytes of the
  source string and a terminator.  Nothing else changes, and no access leaves the ranges.\<close>

theorem mem_functions_correct:
  assumes "mapped m s (unat n)" "mapped m d (unat n)"
    and "cstr m p u" "cstr m q t" "mapped m (p + length u) (Suc (min (unat n) (length t)))"
    and "\<forall>x\<in>{q..q + length t}. x < p + length u \<or> p + length u + min (unat n) (length t) < x"
  shows "memmove d s n m = Some (d, copied m d s (unat n)) \<and>
    (d + unat n \<le> s \<or> s + unat n \<le> d \<longrightarrow> memcpy d s n m = Some (d, copied m d s (unat n))) \<and>
    memset d c n m = Some (d, \<lambda>x. if d \<le> x \<and> x < d + unat n then Some (ucast c) else m x) \<and>
    (\<exists>m'. wolfssl_strncat p q n m = Some (p, m') \<and> cstr m' p (u @ take (unat n) t) \<and>
      (\<forall>x. x < p + length u \<or> p + length u + min (unat n) (length t) < x \<longrightarrow> m' x = m x))"
proof -
  have "memmove d s n m = Some (d, copied m d s (unat n))"
    using copy_up_copied [OF assms(1,2)] copy_down_copied [OF assms(1,2)] by (simp add: memmove_def)
  moreover have "d + unat n \<le> s \<or> s + unat n \<le> d \<longrightarrow> memcpy d s n m = Some (d, copied m d s (unat n))"
    using copy_up_copied [OF assms(1,2)] by (auto simp: memcpy_def)
  moreover obtain m' where "strncat_loop (unat n) (p + length u) q m \<bind> (\<lambda>(p, m). store8 p 0 m) = Some m'"
    "cstr m' p (u @ take (unat n) t)"
    "\<forall>x. x < p + length u \<or> p + length u + min (unat n) (length t) < x \<longrightarrow> m' x = m x"
    using strncat_cstr [OF assms(3-6)] by blast
  then have "\<exists>m'. wolfssl_strncat p q n m = Some (p, m') \<and> cstr m' p (u @ take (unat n) t) \<and>
      (\<forall>x. x < p + length u \<or> p + length u + min (unat n) (length t) < x \<longrightarrow> m' x = m x)"
    by (auto simp: wolfssl_strncat_def str_end_cstr [OF assms(3)] bind_eq_Some_conv)
  ultimately show ?thesis by (simp add: memset_def memset_loop_filled [OF assms(2)])
qed

theorem mem_functions_correct_witness:
  "let m = mem_of 10 [1, 2, 3, 4, 0, 9, 9, 9, 7, 8, 0]
   in memmove 11 10 2 m = Some (11, copied m 11 10 2) \<and>
      (\<exists>m'. wolfssl_strncat 10 18 2 m = Some (10, m') \<and> cstr m' 10 [1, 2, 3, 4, 7, 8])"
proof -
  let ?m = "mem_of 10 [1, 2, 3, 4, 0, 9, 9, 9, 7, 8, 0]"
  have all: "mapped ?m a k" if "10 \<le> a" "a + k \<le> 21" for a k using that by (simp add: mapped_def mem_of_def)
  have "cstr ?m 10 [1, 2, 3, 4]" "cstr ?m 18 [7, 8]" by (simp_all add: mem_of_def)
  from mem_functions_correct [OF all all this, where n = 2 and s = 10 and d = 11] all show ?thesis
    by (simp add: Let_def) blast
qed

text \<open>\<open>wolfssl_strnstr\<close> does not stop at the terminator of the string it searches: when the needle
  does not occur and the string ends before \<open>len\<close>, it reads on behind the terminator, which is
  undefined when nothing is mapped there, where \<open>strnstr\<close> returns \<open>NULL\<close>.\<close>

lemma wolfssl_strnstr_overread:
  assumes "cstr m h s" "cstr m n t" "t \<noteq> []" "first_occ t s = None" "m (h + length s + 1) = None"
    and "length s + 1 + length t \<le> unat len"
  shows "wolfssl_strnstr m h n len = None"
  using assms(2,3) strlen_loop_cstr [OF assms(2), of 0] strnstr_loop_overread [OF assms, of 0]
  by (cases t) (auto simp: wolfssl_strnstr_def)

end
