(* ===== verification/Tpm.thy ===== *)
theory Tpm
  imports Prelude
begin

text \<open>
  The raw transact function of \<^verbatim>\<open>wolftpm-sys/src/wolftpm_rs_shim.c\<close>.  The device context of wolfTPM is its
  command buffer, the only field the shim touches, and the transport's own state; the send function of the
  platform (\<open>RS_SEND_COMMAND\<close>) is a parameter that maps the state and the packet (buffer, number of bytes to
  send, capacity) to a result code, a new state, the buffer with the response and the new capacity field, which the
  shim reads again.  What wolfTPM promises of it (\<open>transport\<close>) is that it answers within the
  buffer it was given and leaves the capacity of the packet.  The length of a
  response is the big-endian number in its header.
\<close>

section \<open>The function of the source\<close>

datatype tpm_rc = TPM_RC_SUCCESS | BAD_FUNC_ARG | TPM_RC_FAILURE | TPM_RC_SIZE | TransportRc int

definition TPM2_HEADER_SIZE :: int where
  "TPM2_HEADER_SIZE = 10"

record 'd tpm_dev =
  cmdBuf :: "byte list"
  tstate :: 'd

type_synonym 'd send = "'d \<Rightarrow> byte list \<Rightarrow> int \<Rightarrow> int \<Rightarrow> int \<times> 'd \<times> byte list \<times> int"

text \<open>The \<open>int\<close> whose bits are the big-endian number at offset 2.\<close>

definition resp_len_of :: "byte list \<Rightarrow> int" where
  "resp_len_of b = sint ((push_bit 24 (ucast (b ! 0)) OR push_bit 16 (ucast (b ! 1)) OR
     push_bit 8 (ucast (b ! 2)) OR ucast (b ! 3)) :: 32 word)"

text \<open>The result is the code, the device, the response buffer and \<^verbatim>\<open>*rsp_sz_out\<close>; \<open>None\<close> is an access out of
  bounds.\<close>

definition wolftpm_rs_transact ::
    "'d send \<Rightarrow> 'd tpm_dev option \<Rightarrow> byte list option \<Rightarrow> int \<Rightarrow> byte list option \<Rightarrow> int \<Rightarrow> int option \<Rightarrow>
     (tpm_rc \<times> 'd tpm_dev option \<times> byte list option \<times> int option) option" where
  "wolftpm_rs_transact send dev cmd cmd_sz rsp rsp_buf_sz rsp_sz_out =
    (case (dev, cmd, rsp, rsp_sz_out) of
       (Some d, Some c, Some r, Some sz) \<Rightarrow>
         if cmd_sz \<le> 0 \<or> cmd_sz > int (length (cmdBuf d)) then Some (BAD_FUNC_ARG, dev, rsp, rsp_sz_out)
         else if rsp_buf_sz \<le> 0 then Some (BAD_FUNC_ARG, dev, rsp, rsp_sz_out)
         else do {
           buf \<leftarrow> memcpy_at (cmdBuf d) 0 c 0 (nat cmd_sz);
           let size = int (length (cmdBuf d));
           let (rc, s, buf, size) = send (tstate d) buf cmd_sz size;
           let dev = Some (d\<lparr>cmdBuf := buf, tstate := s\<rparr>);
           if rc \<noteq> 0 then Some (TransportRc rc, dev, rsp, rsp_sz_out)
           else do {
             hdr \<leftarrow> peek buf 2 4;
             let resp_len = resp_len_of hdr;
             if resp_len < TPM2_HEADER_SIZE \<or> resp_len > size then Some (TPM_RC_FAILURE, dev, rsp, rsp_sz_out)
             else if resp_len > rsp_buf_sz then Some (TPM_RC_SIZE, dev, rsp, rsp_sz_out)
             else do {
               r \<leftarrow> memcpy_at r 0 buf 0 (nat resp_len);
               Some (TPM_RC_SUCCESS, dev, Some r, Some resp_len) } } }
     | _ \<Rightarrow> Some (BAD_FUNC_ARG, dev, rsp, rsp_sz_out))"

section \<open>Responses\<close>

text \<open>The transport keeps the size of the buffer and the capacity field.\<close>

definition transport :: "'d send \<Rightarrow> bool" where
  "transport send \<longleftrightarrow> (\<forall>s b n sz. case send s b n sz of (rc, s', b', sz') \<Rightarrow> length b' = length b \<and> sz' = sz)"

text \<open>The big-endian number of a byte string.\<close>

definition be_val :: "byte list \<Rightarrow> int" where
  "be_val = foldl (\<lambda>v b. v * 2 ^ 8 + uint b) 0"

lemma or_bytes:
  "((push_bit 24 (ucast a) OR push_bit 16 (ucast b) OR push_bit 8 (ucast c) OR ucast d) :: 32 word) =
   of_int (be_val [a, b, c, d :: byte])"
proof -
  have s: "bit x n \<Longrightarrow> n < 8" for x :: byte and n
    by (auto dest: bit_imp_le_length)
  have 1: "(push_bit 8 (ucast c) :: 32 word) AND ucast d = 0"
    by (rule bit_word_eqI) (auto simp: bit_simps dest: s)
  have 2: "(push_bit 16 (ucast b) :: 32 word) AND (push_bit 8 (ucast c) OR ucast d) = 0"
    by (rule bit_word_eqI) (auto simp: bit_simps dest!: s)
  have 3: "(push_bit 24 (ucast a) :: 32 word) AND (push_bit 16 (ucast b) OR push_bit 8 (ucast c) OR ucast d) = 0"
    by (rule bit_word_eqI) (auto simp: bit_simps dest!: s)
  have "(push_bit 24 (ucast a) OR push_bit 16 (ucast b) OR push_bit 8 (ucast c) OR ucast d :: 32 word) =
      push_bit 24 (ucast a) + (push_bit 16 (ucast b) + (push_bit 8 (ucast c) + ucast d))"
    using 1 2 3 by (simp add: disjunctive_add_eq_or)
  also have "\<dots> = of_int (be_val [a, b, c, d])"
    by (simp add: be_val_def push_bit_eq_mult algebra_simps)
  finally show ?thesis .
qed

lemma length_4: "length xs = 4 \<Longrightarrow> \<exists>a b c d. xs = [a, b, c, d]"
  by (cases xs; cases "tl xs"; cases "tl (tl xs)"; cases "tl (tl (tl xs))") auto

lemma be_val_range:
  assumes "length hdr = 4"
  shows "0 \<le> be_val hdr" "be_val hdr < 2 ^ 32"
proof -
  obtain a b c d where h: "hdr = [a, b, c, d]" using length_4 [OF assms] by blast
  have "0 \<le> uint x \<and> uint x < 256" for x :: byte using unsigned_less [of x, where 'a = int] by simp
  from this [of a] this [of b] this [of c] this [of d] show "0 \<le> be_val hdr" "be_val hdr < 2 ^ 32"
    by (simp_all add: h be_val_def)
qed

lemma resp_len_of_be_val:
  assumes "length hdr = 4"
  shows "resp_len_of hdr = (if be_val hdr < 2 ^ 31 then be_val hdr else be_val hdr - 2 ^ 32)"
proof -
  obtain a b c d where h: "hdr = [a, b, c, d]" using length_4 [OF assms] by blast
  have "resp_len_of hdr = signed_take_bit 31 (be_val hdr)"
    by (simp add: h resp_len_of_def or_bytes signed_of_int)
  also have "\<dots> = (if be_val hdr < 2 ^ 31 then be_val hdr else be_val hdr - 2 ^ 32)"
    using be_val_range [OF assms] mod_pos_geq [of "2 ^ 32" "be_val hdr + 2 ^ 31"]
    by (simp add: signed_take_bit_eq_take_bit_shift take_bit_eq_mod)
  finally show ?thesis .
qed

section \<open>Properties\<close>

text \<open>C36: A transaction returns exactly the response the transport left in the command buffer, or an error that
  leaves the caller's buffers alone.  For a command within the caller's and the device's buffer, the call is defined and sends
  the command; if the transport reports an error, so does the call.  Otherwise, with \<open>v\<close> the number
  in the response header, the call succeeds exactly when \<open>v\<close> is at least the header size, at most the size of the device
  buffer and at most the caller's buffer: then the first \<open>v\<close> bytes are copied, nothing else of the
  caller's buffer changes, and \<^verbatim>\<open>*rsp_sz_out = v\<close>.  In all other cases, lengths of \<open>2\<^sup>3\<^sup>1\<close> and more included,
  neither the buffer nor \<^verbatim>\<open>*rsp_sz_out\<close> changes.\<close>

theorem wolftpm_rs_transact_correct:
  fixes d :: "'d tpm_dev"
  assumes "transport send" "10 \<le> length (cmdBuf d)" "length (cmdBuf d) < 2 ^ 31"
    and "0 < cmd_sz" "cmd_sz \<le> int (length (cmdBuf d))" "cmd_sz \<le> int (length c)"
    and "0 < rsp_buf_sz" "rsp_buf_sz \<le> int (length r)"
    and sent: "send (tstate d) (take (nat cmd_sz) c @ drop (nat cmd_sz) (cmdBuf d)) cmd_sz (int (length (cmdBuf d))) = (rc, s, buf, cap)"
  shows "\<exists>res r' sz'. wolftpm_rs_transact send (Some d) (Some c) cmd_sz (Some r) rsp_buf_sz (Some sz) =
      Some (res, Some (d\<lparr>cmdBuf := buf, tstate := s\<rparr>), Some r', Some sz') \<and>
    (let v = be_val (take 4 (drop 2 buf));
         good = (rc = 0 \<and> TPM2_HEADER_SIZE \<le> v \<and> v \<le> int (length (cmdBuf d)) \<and> v \<le> rsp_buf_sz)
     in (res = TPM_RC_SUCCESS \<longleftrightarrow> good) \<and>
        (r', sz') = (if good then (take (nat v) buf @ drop (nat v) r, v) else (r, sz)) \<and>
        (rc \<noteq> 0 \<longrightarrow> res = TransportRc rc))"
proof -
  define v where "v = be_val (take 4 (drop 2 buf))"
  have "length buf = length (take (nat cmd_sz) c @ drop (nat cmd_sz) (cmdBuf d))" and sz: "cap = int (length (cmdBuf d))"
    using assms(1) sent unfolding transport_def by (metis (mono_tags, lifting) case_prod_conv)+
  then have b: "length buf = length (cmdBuf d)" using assms(4-6) by simp
  have h: "length (take 4 (drop 2 buf)) = 4" using b assms(2) by simp
  have l: "resp_len_of (take 4 (drop 2 buf)) = (if v < 2 ^ 31 then v else v - 2 ^ 32)"
    using resp_len_of_be_val [OF h] by (simp add: v_def)
  have v: "0 \<le> v" "v < 2 ^ 32" using be_val_range [OF h] by (simp_all add: v_def)
  have c: "memcpy_at (cmdBuf d) 0 c 0 (nat cmd_sz) = Some (take (nat cmd_sz) c @ drop (nat cmd_sz) (cmdBuf d))"
    using assms(4-6) by (simp add: mem_simps)
  have p: "peek buf 2 4 = Some (take 4 (drop 2 buf))" using b assms(2) by (simp add: mem_simps)
  have cp: "memcpy_at r 0 buf 0 (nat v) = Some (take (nat v) buf @ drop (nat v) r)"
    if "v \<le> int (length (cmdBuf d))" "v \<le> rsp_buf_sz"
    using that b assms(8) v by (simp add: mem_simps)
  let ?good = "rc = 0 \<and> TPM2_HEADER_SIZE \<le> v \<and> v \<le> int (length (cmdBuf d)) \<and> v \<le> rsp_buf_sz"
  have eq: "wolftpm_rs_transact send (Some d) (Some c) cmd_sz (Some r) rsp_buf_sz (Some sz) =
      Some (if rc \<noteq> 0 then TransportRc rc
            else if TPM2_HEADER_SIZE \<le> v \<and> v \<le> int (length (cmdBuf d))
              then (if v \<le> rsp_buf_sz then TPM_RC_SUCCESS else TPM_RC_SIZE) else TPM_RC_FAILURE,
        Some (d\<lparr>cmdBuf := buf, tstate := s\<rparr>),
        Some (if ?good then take (nat v) buf @ drop (nat v) r else r), Some (if ?good then v else sz))"
    using assms(3-7) v cp
    by (simp add: wolftpm_rs_transact_def c sent sz p l TPM2_HEADER_SIZE_def not_less del: One_nat_def) auto
  show ?thesis unfolding eq v_def [symmetric] Let_def by auto
qed

theorem wolftpm_rs_transact_correct_witness:
  "\<exists>r' sz'. wolftpm_rs_transact (\<lambda>s b n sz. (0, s, if length b < 10 then b
        else [0x80, 1, 0, 0, 0, 10, 0, 0, 0, 0] @ drop 10 b, sz))
      (Some \<lparr>cmdBuf = replicate 16 0, tstate = ()\<rparr>) (Some [1, 2, 3]) 3 (Some (replicate 12 7)) 12 (Some 0) =
      Some (TPM_RC_SUCCESS, Some \<lparr>cmdBuf = [0x80, 1, 0, 0, 0, 10, 0, 0, 0, 0] @ replicate 6 0, tstate = ()\<rparr>, Some r', Some sz') \<and>
    sz' = 10 \<and> r' = [0x80, 1, 0, 0, 0, 10, 0, 0, 0, 0, 7, 7]"
proof -
  let ?send = "\<lambda>s b (n :: int) (sz :: int). (0 :: int, s :: unit, if length b < 10 then b
    else [0x80, 1, 0, 0, 0, 10, 0, 0, 0, 0] @ drop 10 b, sz)"
  let ?d = "\<lparr>cmdBuf = replicate 16 0, tstate = ()\<rparr>" and ?buf = "[0x80, 1, 0, 0, 0, 10, 0, 0, 0, 0] @ replicate 6 (0 :: byte)"
  have t: "transport ?send" by (auto simp: transport_def)
  have s: "?send (tstate ?d) (take (nat 3) [1, 2, 3] @ drop (nat 3) (cmdBuf ?d)) 3 (int (length (cmdBuf ?d))) = (0, (), ?buf, 16)"
    by code_simp
  have v: "be_val (take 4 (drop 2 ?buf)) = 10" by code_simp
  have w: "take (nat 10) ?buf @ drop (nat 10) (replicate 12 7) = [0x80, 1, 0, 0, 0, 10, 0, 0, 0, 0, 7, 7]" by code_simp
  from wolftpm_rs_transact_correct [OF t _ _ _ _ _ _ _ s, of 12 "replicate 12 7" 0] show ?thesis
    unfolding v Let_def w by (auto simp: TPM2_HEADER_SIZE_def)
qed

end
