(* ===== verification/HsmShim.thy ===== *)
theory HsmShim
  imports Prelude
begin

text \<open>
  The wolfHSM client shims of \<^verbatim>\<open>wolfhsm-sys/src/shims.c\<close>.  Each shim initialises a wolfCrypt key structure on its
  stack, tells it the id of a key in the HSM, calls the client API and frees the structure.

  The client API and wolfCrypt are the fields of \<open>hsm_lib\<close>: functions of the client context, the key
  structure and the arguments the shim passes (output buffers and lengths are passed with their old
  contents and returned with their new ones; key structures are freed right after the call, so that only
  the functions that fill one return it).  The state \<open>hsm\<close> is the client context and \<open>live\<close>, the
  key structures that were initialised and not yet freed, each with its type and the variable it is; freeing one that is not
  initialised is undefined (\<open>None\<close>).  A failed initialisation leaves nothing to free, which
  is what the shims rely on.  Pointers are valid except where the code tests them; lengths keep their widths,
  so that the casts between 32 and 16 bits are the ones of the source.

  \<open>hsm_call\<close> and \<open>hsm_exec\<close> let a caller issue any sequence of calls; the locale \<open>stack_api\<close> states
  what a shim promises about \<open>live\<close>, and its lemma carries it over to sequences.
\<close>

section \<open>State and library\<close>

datatype kind = EccKey | Curve25519Key | RsaKey | MlDsaKey | Ed25519Key | AesCtx | Sha256Ctx | Sha384Ctx | Sha512Ctx | CmacCtx

type_synonym u16 = "16 word"
type_synonym u32 = "32 word"

text \<open>The local variables of the shims that are key structures.\<close>

datatype loc = VarKey | VarPrivKey | VarPubKey | VarAes | VarSha | VarCmac

record 'c hsm =
  client :: 'c
  live :: "(kind \<times> loc) list"

record ('c, 'k) hsm_lib =
  key_init :: "kind \<Rightarrow> int \<times> 'k"
  set_key_id :: "kind \<Rightarrow> 'k \<Rightarrow> u16 \<Rightarrow> 'k"
  EccSign :: "'c \<Rightarrow> 'k \<Rightarrow> byte list \<Rightarrow> u16 \<Rightarrow> byte list \<Rightarrow> u16 \<Rightarrow> int \<times> 'c \<times> byte list \<times> u16"
  EccVerify :: "'c \<Rightarrow> 'k \<Rightarrow> byte list \<Rightarrow> u16 \<Rightarrow> byte list \<Rightarrow> u16 \<Rightarrow> int \<Rightarrow> int \<times> 'c \<times> int"
  ExportKey :: "kind \<Rightarrow> 'c \<Rightarrow> u16 \<Rightarrow> 'k \<Rightarrow> int \<times> 'c \<times> 'k"
  EccPublicKeyToDer :: "'k \<Rightarrow> byte list \<Rightarrow> u32 \<Rightarrow> bool \<Rightarrow> int \<times> byte list"
  EccPublicKeyDecode :: "byte list \<Rightarrow> u32 \<Rightarrow> 'k \<Rightarrow> u32 \<Rightarrow> int \<times> 'k"
  EccSharedSecret :: "'c \<Rightarrow> 'k \<Rightarrow> 'k \<Rightarrow> byte list \<Rightarrow> u16 \<Rightarrow> int \<times> 'c \<times> byte list \<times> u16"
  EccMakeCacheKey :: "'c \<Rightarrow> int \<Rightarrow> int \<Rightarrow> u16 \<Rightarrow> u16 \<Rightarrow> int \<times> 'c \<times> u16"
  Curve25519MakeCacheKey :: "'c \<Rightarrow> u16 \<Rightarrow> u16 \<Rightarrow> u16 \<Rightarrow> int \<times> 'c \<times> u16"
  curve25519_import_public :: "byte list \<Rightarrow> u32 \<Rightarrow> 'k \<Rightarrow> int \<times> 'k"
  Curve25519SharedSecret :: "'c \<Rightarrow> 'k \<Rightarrow> 'k \<Rightarrow> byte list \<Rightarrow> u16 \<Rightarrow> int \<times> 'c \<times> byte list \<times> u16"
  curve25519_export_public :: "'k \<Rightarrow> byte list \<Rightarrow> u32 \<Rightarrow> int \<times> byte list \<times> u32"
  RsaFunction :: "'c \<Rightarrow> 'k \<Rightarrow> int \<Rightarrow> byte list \<Rightarrow> u16 \<Rightarrow> byte list \<Rightarrow> u16 \<Rightarrow> int \<times> 'c \<times> byte list \<times> u16"
  RsaGetSize :: "'c \<Rightarrow> 'k \<Rightarrow> int \<Rightarrow> int \<times> 'c \<times> int"
  RsaMakeCacheKey :: "'c \<Rightarrow> u32 \<Rightarrow> u32 \<Rightarrow> u16 \<Rightarrow> u16 \<Rightarrow> int \<times> 'c \<times> u16"
  RsaKeyToPublicDer :: "'k \<Rightarrow> byte list \<Rightarrow> u32 \<Rightarrow> int \<times> byte list"
  MlDsaSetParams :: "'k \<Rightarrow> int \<Rightarrow> int \<times> 'k"
  MlDsaSign :: "'c \<Rightarrow> byte list \<Rightarrow> u32 \<Rightarrow> byte list \<Rightarrow> u32 \<Rightarrow> 'k \<Rightarrow> int \<times> 'c \<times> byte list \<times> u32"
  MlDsaVerify :: "'c \<Rightarrow> byte list \<Rightarrow> u32 \<Rightarrow> byte list \<Rightarrow> u32 \<Rightarrow> int \<Rightarrow> 'k \<Rightarrow> int \<times> 'c \<times> int"
  MlDsaMakeCacheKey :: "'c \<Rightarrow> int \<Rightarrow> int \<Rightarrow> u16 \<Rightarrow> u16 \<Rightarrow> int \<times> 'c \<times> u16"
  AesGcm :: "'c \<Rightarrow> 'k \<Rightarrow> bool \<Rightarrow> byte list \<Rightarrow> u32 \<Rightarrow> byte list \<Rightarrow> u32 \<Rightarrow> byte list \<Rightarrow> u32 \<Rightarrow>
    byte list option \<Rightarrow> byte list option \<Rightarrow> u32 \<Rightarrow> byte list \<Rightarrow> int \<times> 'c \<times> byte list option \<times> byte list"
  Sha :: "kind \<Rightarrow> 'c \<Rightarrow> 'k \<Rightarrow> byte list \<Rightarrow> u32 \<Rightarrow> byte list \<Rightarrow> int \<times> 'c \<times> byte list"
  Ed25519MakeCacheKey :: "'c \<Rightarrow> u16 \<Rightarrow> u16 \<Rightarrow> int \<times> 'c \<times> u16"
  Ed25519Sign :: "'c \<Rightarrow> 'k \<Rightarrow> byte list \<Rightarrow> u32 \<Rightarrow> byte list \<Rightarrow> u32 \<Rightarrow> int \<times> 'c \<times> byte list \<times> u32"
  Ed25519Verify :: "'c \<Rightarrow> 'k \<Rightarrow> byte list \<Rightarrow> u32 \<Rightarrow> byte list \<Rightarrow> u32 \<Rightarrow> int \<Rightarrow> int \<times> 'c \<times> int"
  ed25519_export_public :: "'k \<Rightarrow> byte list \<Rightarrow> u32 \<Rightarrow> int \<times> byte list \<times> u32"
  CmacGenerate :: "'c \<Rightarrow> 'k \<Rightarrow> byte list \<Rightarrow> u32 \<Rightarrow> byte list \<Rightarrow> u32 \<Rightarrow> int \<times> 'c \<times> byte list \<times> u32"

text \<open>Constants of wolfHSM and wolfCrypt; \<open>WH_KEYID_ERASED\<close> asks the HSM to choose an id.\<close>

definition WH_ERROR_BADARGS :: int where "WH_ERROR_BADARGS = - 2000"

definition WH_KEYID_ERASED :: u16 where "WH_KEYID_ERASED = 0"

definition CURVE25519_KEYSIZE :: u32 where "CURVE25519_KEYSIZE = 32"

definition ED25519_PUB_KEY_SIZE :: u32 where "ED25519_PUB_KEY_SIZE = 32"

text \<open>Initialisation and release of a structure on the stack.\<close>

definition key_new :: "('c, 'k) hsm_lib \<Rightarrow> kind \<Rightarrow> loc \<Rightarrow> 'c hsm \<Rightarrow> int \<times> 'k \<times> 'c hsm" where
  "key_new lib kd v h = (case key_init lib kd of
     (rc, k) \<Rightarrow> if rc = 0 then (0, k, h\<lparr>live := (kd, v) # live h\<rparr>) else (rc, k, h))"

definition key_free :: "kind \<Rightarrow> loc \<Rightarrow> 'c hsm \<Rightarrow> 'c hsm option" where
  "key_free kd v h = (if (kd, v) \<in> set (live h) then Some (h\<lparr>live := remove1 (kd, v) (live h)\<rparr>) else None)"


section \<open>The shims of the source\<close>

subsection \<open>ECC\<close>

definition wolfhsm_ecc_sign ::
    "('c, 'k) hsm_lib \<Rightarrow> u16 \<Rightarrow> byte list \<Rightarrow> u16 \<Rightarrow> byte list \<Rightarrow> u16 \<Rightarrow> 'c hsm \<Rightarrow> ((int \<times> byte list \<times> u16) \<times> 'c hsm) option" where
  "wolfhsm_ecc_sign lib keyId hash hash_len sig sig_len h =
    (let (rc, key, h) = key_new lib EccKey VarKey h in
     if rc \<noteq> 0 then Some ((rc, sig, sig_len), h)
     else
       let key = set_key_id lib EccKey key keyId;
           (rc, c, sig, sig_len) = EccSign lib (client h) key hash hash_len sig sig_len
       in do { h \<leftarrow> key_free EccKey VarKey (h\<lparr>client := c\<rparr>); Some ((rc, sig, sig_len), h) })"

definition wolfhsm_ecc_verify ::
    "('c, 'k) hsm_lib \<Rightarrow> u16 \<Rightarrow> byte list \<Rightarrow> u16 \<Rightarrow> byte list \<Rightarrow> u16 \<Rightarrow> int \<Rightarrow> 'c hsm \<Rightarrow> ((int \<times> int) \<times> 'c hsm) option" where
  "wolfhsm_ecc_verify lib keyId hash hash_len sig sig_len result h =
    (let (rc, key, h) = key_new lib EccKey VarKey h in
     if rc \<noteq> 0 then Some ((rc, result), h)
     else
       let key = set_key_id lib EccKey key keyId;
           (rc, c, result) = EccVerify lib (client h) key sig sig_len hash hash_len result
       in do { h \<leftarrow> key_free EccKey VarKey (h\<lparr>client := c\<rparr>); Some ((rc, result), h) })"

definition wolfhsm_ecc_export_public_der ::
    "('c, 'k) hsm_lib \<Rightarrow> u16 \<Rightarrow> byte list \<Rightarrow> u32 \<Rightarrow> 'c hsm \<Rightarrow> ((int \<times> byte list \<times> u32) \<times> 'c hsm) option" where
  "wolfhsm_ecc_export_public_der lib keyId out out_len h =
    (let (rc, key, h) = key_new lib EccKey VarKey h in
     if rc \<noteq> 0 then Some ((rc, out, out_len), h)
     else
       let (rc, c, key) = ExportKey lib EccKey (client h) keyId key;
           h = h\<lparr>client := c\<rparr>;
           (rc, out, out_len) =
             (if rc = 0 then
                let (rc, out) = EccPublicKeyToDer lib key out out_len True
                in if rc > 0 then (0, out, word_of_int rc) else (rc, out, out_len)
              else (rc, out, out_len))
       in do { h \<leftarrow> key_free EccKey VarKey h; Some ((rc, out, out_len), h) })"

definition wolfhsm_ecc_shared_secret ::
    "('c, 'k) hsm_lib \<Rightarrow> u16 \<Rightarrow> byte list \<Rightarrow> u32 \<Rightarrow> byte list \<Rightarrow> u32 \<Rightarrow> 'c hsm \<Rightarrow> ((int \<times> byte list \<times> u32) \<times> 'c hsm) option" where
  "wolfhsm_ecc_shared_secret lib priv_key_id peer_der peer_der_len out out_len h =
    (let (rc, priv_key, h) = key_new lib EccKey VarPrivKey h in
     if rc \<noteq> 0 then Some ((rc, out, out_len), h)
     else
       let (rc, pub_key, h) = key_new lib EccKey VarPubKey h in
       if rc \<noteq> 0 then do { h \<leftarrow> key_free EccKey VarPrivKey h; Some ((rc, out, out_len), h) }
       else
         let priv_key = set_key_id lib EccKey priv_key priv_key_id;
             (rc, pub_key) = EccPublicKeyDecode lib peer_der 0 pub_key peer_der_len;
             (rc, c, out, out_len) =
               (if rc = 0 then
                  if out_len > 0xFFFF then (WH_ERROR_BADARGS, client h, out, out_len)
                  else let (rc, c, out, out_sz) = EccSharedSecret lib (client h) priv_key pub_key out (ucast out_len)
                       in (rc, c, out, if rc = 0 then ucast out_sz else out_len)
                else (rc, client h, out, out_len))
         in do { h \<leftarrow> key_free EccKey VarPubKey (h\<lparr>client := c\<rparr>); h \<leftarrow> key_free EccKey VarPrivKey h; Some ((rc, out, out_len), h) })"

definition wolfhsm_ecc_make_key :: "('c, 'k) hsm_lib \<Rightarrow> int \<Rightarrow> u16 \<Rightarrow> 'c hsm \<Rightarrow> (int \<times> u16) \<times> 'c hsm" where
  "wolfhsm_ecc_make_key lib curve_id out_key_id h =
    (let (rc, c, key_id) = EccMakeCacheKey lib (client h) 32 curve_id WH_KEYID_ERASED 0
     in ((rc, if rc = 0 then key_id else out_key_id), h\<lparr>client := c\<rparr>))"

subsection \<open>Curve25519\<close>

definition wolfhsm_curve25519_make_key :: "('c, 'k) hsm_lib \<Rightarrow> u16 \<Rightarrow> 'c hsm \<Rightarrow> (int \<times> u16) \<times> 'c hsm" where
  "wolfhsm_curve25519_make_key lib out_key_id h =
    (let (rc, c, key_id) = Curve25519MakeCacheKey lib (client h) (ucast CURVE25519_KEYSIZE) WH_KEYID_ERASED 0
     in ((rc, if rc = 0 then key_id else out_key_id), h\<lparr>client := c\<rparr>))"

definition wolfhsm_curve25519_shared_secret ::
    "('c, 'k) hsm_lib \<Rightarrow> u16 \<Rightarrow> byte list \<Rightarrow> u32 \<Rightarrow> byte list \<Rightarrow> u32 \<Rightarrow> 'c hsm \<Rightarrow> ((int \<times> byte list \<times> u32) \<times> 'c hsm) option" where
  "wolfhsm_curve25519_shared_secret lib priv_key_id peer_pub peer_len out out_len h =
    (let (rc, priv, h) = key_new lib Curve25519Key VarPrivKey h in
     if rc \<noteq> 0 then Some ((rc, out, out_len), h)
     else
       let (rc, pub, h) = key_new lib Curve25519Key VarPubKey h in
       if rc \<noteq> 0 then do { h \<leftarrow> key_free Curve25519Key VarPrivKey h; Some ((rc, out, out_len), h) }
       else
         let priv = set_key_id lib Curve25519Key priv priv_key_id;
             (rc, pub) = curve25519_import_public lib peer_pub peer_len pub;
             (rc, c, out, out_len) =
               (if rc = 0 then
                  if out_len > 0xFFFF then (WH_ERROR_BADARGS, client h, out, out_len)
                  else let (rc, c, out, out_sz) = Curve25519SharedSecret lib (client h) priv pub out (ucast out_len)
                       in (rc, c, out, if rc = 0 then ucast out_sz else out_len)
                else (rc, client h, out, out_len))
         in do { h \<leftarrow> key_free Curve25519Key VarPubKey (h\<lparr>client := c\<rparr>); h \<leftarrow> key_free Curve25519Key VarPrivKey h; Some ((rc, out, out_len), h) })"

subsection \<open>RSA\<close>

definition wolfhsm_rsa_function ::
    "('c, 'k) hsm_lib \<Rightarrow> u16 \<Rightarrow> int \<Rightarrow> byte list \<Rightarrow> u32 \<Rightarrow> byte list \<Rightarrow> u32 \<Rightarrow> 'c hsm \<Rightarrow> ((int \<times> byte list \<times> u32) \<times> 'c hsm) option" where
  "wolfhsm_rsa_function lib keyId rsa_type inb in_len out out_len h =
    (let (rc, key, h) = key_new lib RsaKey VarKey h in
     if rc \<noteq> 0 then Some ((rc, out, out_len), h)
     else
       let key = set_key_id lib RsaKey key keyId in
       if in_len > 0xFFFF \<or> out_len > 0xFFFF
       then do { h \<leftarrow> key_free RsaKey VarKey h; Some ((WH_ERROR_BADARGS, out, out_len), h) }
       else
         let (rc, c, out, out_sz) = RsaFunction lib (client h) key rsa_type inb (ucast in_len) out (ucast out_len);
             out_len = (if rc = 0 then ucast out_sz else out_len)
         in do { h \<leftarrow> key_free RsaKey VarKey (h\<lparr>client := c\<rparr>); Some ((rc, out, out_len), h) })"

definition wolfhsm_rsa_get_size :: "('c, 'k) hsm_lib \<Rightarrow> u16 \<Rightarrow> int \<Rightarrow> 'c hsm \<Rightarrow> ((int \<times> int) \<times> 'c hsm) option" where
  "wolfhsm_rsa_get_size lib keyId out_size h =
    (let (rc, key, h) = key_new lib RsaKey VarKey h in
     if rc \<noteq> 0 then Some ((rc, out_size), h)
     else
       let key = set_key_id lib RsaKey key keyId;
           (rc, c, out_size) = RsaGetSize lib (client h) key out_size
       in do { h \<leftarrow> key_free RsaKey VarKey (h\<lparr>client := c\<rparr>); Some ((rc, out_size), h) })"

definition wolfhsm_rsa_make_key :: "('c, 'k) hsm_lib \<Rightarrow> int \<Rightarrow> int \<Rightarrow> u16 \<Rightarrow> 'c hsm \<Rightarrow> (int \<times> u16) \<times> 'c hsm" where
  "wolfhsm_rsa_make_key lib bits e out_key_id h =
    (let (rc, c, key_id) = RsaMakeCacheKey lib (client h) (word_of_int bits) (word_of_int e) WH_KEYID_ERASED 0
     in ((rc, if rc = 0 then key_id else out_key_id), h\<lparr>client := c\<rparr>))"

definition wolfhsm_rsa_export_public_der ::
    "('c, 'k) hsm_lib \<Rightarrow> u16 \<Rightarrow> byte list \<Rightarrow> u32 \<Rightarrow> 'c hsm \<Rightarrow> ((int \<times> byte list \<times> u32) \<times> 'c hsm) option" where
  "wolfhsm_rsa_export_public_der lib keyId out out_len h =
    (let (rc, key, h) = key_new lib RsaKey VarKey h in
     if rc \<noteq> 0 then Some ((rc, out, out_len), h)
     else
       let (rc, c, key) = ExportKey lib RsaKey (client h) keyId key;
           h = h\<lparr>client := c\<rparr>;
           (rc, out, out_len) =
             (if rc = 0 then
                let (der_len, out) = RsaKeyToPublicDer lib key out out_len
                in if der_len > 0 then (0, out, word_of_int der_len) else (der_len, out, out_len)
              else (rc, out, out_len))
       in do { h \<leftarrow> key_free RsaKey VarKey h; Some ((rc, out, out_len), h) })"

subsection \<open>ML-DSA\<close>

definition wolfhsm_mldsa_sign ::
    "('c, 'k) hsm_lib \<Rightarrow> u16 \<Rightarrow> int \<Rightarrow> byte list \<Rightarrow> u32 \<Rightarrow> byte list \<Rightarrow> u32 \<Rightarrow> 'c hsm \<Rightarrow> ((int \<times> byte list \<times> u32) \<times> 'c hsm) option" where
  "wolfhsm_mldsa_sign lib keyId level msg msg_len sig sig_len h =
    (let (rc, key, h) = key_new lib MlDsaKey VarKey h in
     if rc \<noteq> 0 then Some ((rc, sig, sig_len), h)
     else
       let (rc, key) = MlDsaSetParams lib key level;
           (rc, c, sig, sig_len) =
             (if rc = 0 then MlDsaSign lib (client h) msg msg_len sig sig_len (set_key_id lib MlDsaKey key keyId)
              else (rc, client h, sig, sig_len))
       in do { h \<leftarrow> key_free MlDsaKey VarKey (h\<lparr>client := c\<rparr>); Some ((rc, sig, sig_len), h) })"

definition wolfhsm_mldsa_verify ::
    "('c, 'k) hsm_lib \<Rightarrow> u16 \<Rightarrow> int \<Rightarrow> byte list \<Rightarrow> u32 \<Rightarrow> byte list \<Rightarrow> u32 \<Rightarrow> int \<Rightarrow> 'c hsm \<Rightarrow> ((int \<times> int) \<times> 'c hsm) option" where
  "wolfhsm_mldsa_verify lib keyId level sig sig_len msg msg_len result h =
    (let (rc, key, h) = key_new lib MlDsaKey VarKey h in
     if rc \<noteq> 0 then Some ((rc, result), h)
     else
       let (rc, key) = MlDsaSetParams lib key level;
           (rc, c, result) =
             (if rc = 0 then MlDsaVerify lib (client h) sig sig_len msg msg_len result (set_key_id lib MlDsaKey key keyId)
              else (rc, client h, result))
       in do { h \<leftarrow> key_free MlDsaKey VarKey (h\<lparr>client := c\<rparr>); Some ((rc, result), h) })"

definition wolfhsm_mldsa_make_key :: "('c, 'k) hsm_lib \<Rightarrow> int \<Rightarrow> u16 \<Rightarrow> 'c hsm \<Rightarrow> (int \<times> u16) \<times> 'c hsm" where
  "wolfhsm_mldsa_make_key lib level out_key_id h =
    (let (rc, c, key_id) = MlDsaMakeCacheKey lib (client h) 0 level WH_KEYID_ERASED 0
     in ((rc, if rc = 0 then key_id else out_key_id), h\<lparr>client := c\<rparr>))"

subsection \<open>AES-GCM and hashes\<close>

definition wolfhsm_aes_gcm_encrypt ::
    "('c, 'k) hsm_lib \<Rightarrow> u16 \<Rightarrow> byte list \<Rightarrow> u32 \<Rightarrow> byte list \<Rightarrow> u32 \<Rightarrow> byte list \<Rightarrow> u32 \<Rightarrow> byte list \<Rightarrow>
     byte list option \<Rightarrow> u32 \<Rightarrow> 'c hsm \<Rightarrow> ((int \<times> byte list \<times> byte list option) \<times> 'c hsm) option" where
  "wolfhsm_aes_gcm_encrypt lib keyId iv iv_len aad aad_len inb in_len out tag tag_len h =
    (if tag = None then Some ((WH_ERROR_BADARGS, out, tag), h)
     else
       let (rc, aes, h) = key_new lib AesCtx VarAes h in
       if rc \<noteq> 0 then Some ((rc, out, tag), h)
       else
         let aes = set_key_id lib AesCtx aes keyId;
             (rc, c, tag, out) = AesGcm lib (client h) aes True inb in_len iv iv_len aad aad_len None tag tag_len out
         in do { h \<leftarrow> key_free AesCtx VarAes (h\<lparr>client := c\<rparr>); Some ((rc, out, tag), h) })"

definition wolfhsm_aes_gcm_decrypt ::
    "('c, 'k) hsm_lib \<Rightarrow> u16 \<Rightarrow> byte list \<Rightarrow> u32 \<Rightarrow> byte list \<Rightarrow> u32 \<Rightarrow> byte list \<Rightarrow> u32 \<Rightarrow> byte list \<Rightarrow>
     byte list option \<Rightarrow> u32 \<Rightarrow> 'c hsm \<Rightarrow> ((int \<times> byte list) \<times> 'c hsm) option" where
  "wolfhsm_aes_gcm_decrypt lib keyId iv iv_len aad aad_len inb in_len out tag tag_len h =
    (let (rc, aes, h) = key_new lib AesCtx VarAes h in
     if rc \<noteq> 0 then Some ((rc, out), h)
     else
       let aes = set_key_id lib AesCtx aes keyId;
           (rc, c, _, out) = AesGcm lib (client h) aes False inb in_len iv iv_len aad aad_len tag None tag_len out
       in do { h \<leftarrow> key_free AesCtx VarAes (h\<lparr>client := c\<rparr>); Some ((rc, out), h) })"

text \<open>The three hash shims are the same code for three types.\<close>

definition sha_shim :: "kind \<Rightarrow> ('c, 'k) hsm_lib \<Rightarrow> byte list \<Rightarrow> u32 \<Rightarrow> byte list \<Rightarrow> 'c hsm \<Rightarrow> ((int \<times> byte list) \<times> 'c hsm) option" where
  "sha_shim kd lib inb in_len out h =
    (let (rc, sha, h) = key_new lib kd VarSha h in
     if rc \<noteq> 0 then Some ((rc, out), h)
     else
       let (rc, c, out) = Sha lib kd (client h) sha inb in_len out
       in do { h \<leftarrow> key_free kd VarSha (h\<lparr>client := c\<rparr>); Some ((rc, out), h) })"

definition wolfhsm_sha256 :: "('c, 'k) hsm_lib \<Rightarrow> byte list \<Rightarrow> u32 \<Rightarrow> byte list \<Rightarrow> 'c hsm \<Rightarrow> ((int \<times> byte list) \<times> 'c hsm) option" where
  "wolfhsm_sha256 = sha_shim Sha256Ctx"

definition wolfhsm_sha384 :: "('c, 'k) hsm_lib \<Rightarrow> byte list \<Rightarrow> u32 \<Rightarrow> byte list \<Rightarrow> 'c hsm \<Rightarrow> ((int \<times> byte list) \<times> 'c hsm) option" where
  "wolfhsm_sha384 = sha_shim Sha384Ctx"

definition wolfhsm_sha512 :: "('c, 'k) hsm_lib \<Rightarrow> byte list \<Rightarrow> u32 \<Rightarrow> byte list \<Rightarrow> 'c hsm \<Rightarrow> ((int \<times> byte list) \<times> 'c hsm) option" where
  "wolfhsm_sha512 = sha_shim Sha512Ctx"

subsection \<open>Ed25519, Curve25519 export, CMAC\<close>

definition wolfhsm_ed25519_make_key :: "('c, 'k) hsm_lib \<Rightarrow> u16 \<Rightarrow> 'c hsm \<Rightarrow> (int \<times> u16) \<times> 'c hsm" where
  "wolfhsm_ed25519_make_key lib out_key_id h =
    (let (rc, c, key_id) = Ed25519MakeCacheKey lib (client h) WH_KEYID_ERASED 0
     in ((rc, if rc = 0 then key_id else out_key_id), h\<lparr>client := c\<rparr>))"

definition wolfhsm_ed25519_sign ::
    "('c, 'k) hsm_lib \<Rightarrow> u16 \<Rightarrow> byte list \<Rightarrow> u32 \<Rightarrow> byte list \<Rightarrow> u32 \<Rightarrow> 'c hsm \<Rightarrow> ((int \<times> byte list \<times> u32) \<times> 'c hsm) option" where
  "wolfhsm_ed25519_sign lib key_id msg msg_len sig sig_len h =
    (let (rc, key, h) = key_new lib Ed25519Key VarKey h in
     if rc \<noteq> 0 then Some ((rc, sig, sig_len), h)
     else
       let key = set_key_id lib Ed25519Key key key_id;
           (rc, c, sig, sig_len) = Ed25519Sign lib (client h) key msg msg_len sig sig_len
       in do { h \<leftarrow> key_free Ed25519Key VarKey (h\<lparr>client := c\<rparr>); Some ((rc, sig, sig_len), h) })"

definition wolfhsm_ed25519_verify ::
    "('c, 'k) hsm_lib \<Rightarrow> u16 \<Rightarrow> byte list \<Rightarrow> u32 \<Rightarrow> byte list \<Rightarrow> u32 \<Rightarrow> int \<Rightarrow> 'c hsm \<Rightarrow> ((int \<times> int) \<times> 'c hsm) option" where
  "wolfhsm_ed25519_verify lib key_id sig sig_len msg msg_len result h =
    (let (rc, key, h) = key_new lib Ed25519Key VarKey h in
     if rc \<noteq> 0 then Some ((rc, result), h)
     else
       let key = set_key_id lib Ed25519Key key key_id;
           (rc, c, result) = Ed25519Verify lib (client h) key sig sig_len msg msg_len result
       in do { h \<leftarrow> key_free Ed25519Key VarKey (h\<lparr>client := c\<rparr>); Some ((rc, result), h) })"

definition wolfhsm_ed25519_export_public ::
    "('c, 'k) hsm_lib \<Rightarrow> u16 \<Rightarrow> byte list \<Rightarrow> 'c hsm \<Rightarrow> ((int \<times> byte list) \<times> 'c hsm) option" where
  "wolfhsm_ed25519_export_public lib key_id out h =
    (let (rc, key, h) = key_new lib Ed25519Key VarKey h in
     if rc \<noteq> 0 then Some ((rc, out), h)
     else
       let (rc, c, key) = ExportKey lib Ed25519Key (client h) key_id key;
           h = h\<lparr>client := c\<rparr>;
           (rc, out, outLen) =
             (if rc = 0 then ed25519_export_public lib key out ED25519_PUB_KEY_SIZE else (rc, out, ED25519_PUB_KEY_SIZE));
           rc = (if rc = 0 \<and> outLen \<noteq> ED25519_PUB_KEY_SIZE then WH_ERROR_BADARGS else rc)
       in do { h \<leftarrow> key_free Ed25519Key VarKey h; Some ((rc, out), h) })"

definition wolfhsm_curve25519_export_public ::
    "('c, 'k) hsm_lib \<Rightarrow> u16 \<Rightarrow> byte list \<Rightarrow> 'c hsm \<Rightarrow> ((int \<times> byte list) \<times> 'c hsm) option" where
  "wolfhsm_curve25519_export_public lib key_id out h =
    (let (rc, key, h) = key_new lib Curve25519Key VarKey h in
     if rc \<noteq> 0 then Some ((rc, out), h)
     else
       let (rc, c, key) = ExportKey lib Curve25519Key (client h) key_id key;
           h = h\<lparr>client := c\<rparr>;
           (rc, out, outLen) =
             (if rc = 0 then curve25519_export_public lib key out CURVE25519_KEYSIZE else (rc, out, CURVE25519_KEYSIZE));
           rc = (if rc = 0 \<and> outLen \<noteq> CURVE25519_KEYSIZE then WH_ERROR_BADARGS else rc)
       in do { h \<leftarrow> key_free Curve25519Key VarKey h; Some ((rc, out), h) })"

definition wolfhsm_cmac ::
    "('c, 'k) hsm_lib \<Rightarrow> u16 \<Rightarrow> byte list \<Rightarrow> u32 \<Rightarrow> byte list \<Rightarrow> u32 \<Rightarrow> 'c hsm \<Rightarrow> ((int \<times> byte list \<times> u32) \<times> 'c hsm) option" where
  "wolfhsm_cmac lib keyId inb in_len out out_len h =
    (let (rc, cmac, h) = key_new lib CmacCtx VarCmac h in
     if rc \<noteq> 0 then Some ((rc, out, out_len), h)
     else
       let cmac = set_key_id lib CmacCtx cmac keyId;
           (rc, c, out, out_len) = CmacGenerate lib (client h) cmac inb in_len out out_len
       in do { h \<leftarrow> key_free CmacCtx VarCmac (h\<lparr>client := c\<rparr>); Some ((rc, out, out_len), h) })"

section \<open>Key structures are always freed\<close>

text \<open>Every shim, issued as a call with its arguments.\<close>

datatype hsm_call =
  EccSignCall u16 "byte list" u16 "byte list" u16
  | EccVerifyCall u16 "byte list" u16 "byte list" u16 int
  | EccExportCall u16 "byte list" u32
  | EccSharedCall u16 "byte list" u32 "byte list" u32
  | EccMakeCall int u16
  | X25519MakeCall u16
  | X25519SharedCall u16 "byte list" u32 "byte list" u32
  | RsaFunctionCall u16 int "byte list" u32 "byte list" u32
  | RsaSizeCall u16 int
  | RsaMakeCall int int u16
  | RsaExportCall u16 "byte list" u32
  | MlDsaSignCall u16 int "byte list" u32 "byte list" u32
  | MlDsaVerifyCall u16 int "byte list" u32 "byte list" u32 int
  | MlDsaMakeCall int u16
  | GcmEncryptCall u16 "byte list" u32 "byte list" u32 "byte list" u32 "byte list" "byte list option" u32
  | GcmDecryptCall u16 "byte list" u32 "byte list" u32 "byte list" u32 "byte list" "byte list option" u32
  | Sha256Call "byte list" u32 "byte list"
  | Sha384Call "byte list" u32 "byte list"
  | Sha512Call "byte list" u32 "byte list"
  | Ed25519MakeCall u16
  | Ed25519SignCall u16 "byte list" u32 "byte list" u32
  | Ed25519VerifyCall u16 "byte list" u32 "byte list" u32 int
  | Ed25519ExportCall u16 "byte list"
  | X25519ExportCall u16 "byte list"
  | CmacCall u16 "byte list" u32 "byte list" u32

definition rc_only :: "((int \<times> 'a) \<times> 'c hsm) option \<Rightarrow> (int \<times> 'c hsm) option" where
  "rc_only = map_option (\<lambda>(r, h). (fst r, h))"

fun hsm_exec :: "('c, 'k) hsm_lib \<Rightarrow> hsm_call \<Rightarrow> 'c hsm \<Rightarrow> (int \<times> 'c hsm) option" where
  "hsm_exec lib (EccSignCall a b c d e) h = rc_only (wolfhsm_ecc_sign lib a b c d e h)"
| "hsm_exec lib (EccVerifyCall a b c d e f) h = rc_only (wolfhsm_ecc_verify lib a b c d e f h)"
| "hsm_exec lib (EccExportCall a b c) h = rc_only (wolfhsm_ecc_export_public_der lib a b c h)"
| "hsm_exec lib (EccSharedCall a b c d e) h = rc_only (wolfhsm_ecc_shared_secret lib a b c d e h)"
| "hsm_exec lib (EccMakeCall a b) h = rc_only (Some (wolfhsm_ecc_make_key lib a b h))"
| "hsm_exec lib (X25519MakeCall a) h = rc_only (Some (wolfhsm_curve25519_make_key lib a h))"
| "hsm_exec lib (X25519SharedCall a b c d e) h = rc_only (wolfhsm_curve25519_shared_secret lib a b c d e h)"
| "hsm_exec lib (RsaFunctionCall a b c d e f) h = rc_only (wolfhsm_rsa_function lib a b c d e f h)"
| "hsm_exec lib (RsaSizeCall a b) h = rc_only (wolfhsm_rsa_get_size lib a b h)"
| "hsm_exec lib (RsaMakeCall a b c) h = rc_only (Some (wolfhsm_rsa_make_key lib a b c h))"
| "hsm_exec lib (RsaExportCall a b c) h = rc_only (wolfhsm_rsa_export_public_der lib a b c h)"
| "hsm_exec lib (MlDsaSignCall a b c d e f) h = rc_only (wolfhsm_mldsa_sign lib a b c d e f h)"
| "hsm_exec lib (MlDsaVerifyCall a b c d e f g) h = rc_only (wolfhsm_mldsa_verify lib a b c d e f g h)"
| "hsm_exec lib (MlDsaMakeCall a b) h = rc_only (Some (wolfhsm_mldsa_make_key lib a b h))"
| "hsm_exec lib (GcmEncryptCall a b c d e f g i j k) h = rc_only (wolfhsm_aes_gcm_encrypt lib a b c d e f g i j k h)"
| "hsm_exec lib (GcmDecryptCall a b c d e f g i j k) h = rc_only (wolfhsm_aes_gcm_decrypt lib a b c d e f g i j k h)"
| "hsm_exec lib (Sha256Call a b c) h = rc_only (wolfhsm_sha256 lib a b c h)"
| "hsm_exec lib (Sha384Call a b c) h = rc_only (wolfhsm_sha384 lib a b c h)"
| "hsm_exec lib (Sha512Call a b c) h = rc_only (wolfhsm_sha512 lib a b c h)"
| "hsm_exec lib (Ed25519MakeCall a) h = rc_only (Some (wolfhsm_ed25519_make_key lib a h))"
| "hsm_exec lib (Ed25519SignCall a b c d e) h = rc_only (wolfhsm_ed25519_sign lib a b c d e h)"
| "hsm_exec lib (Ed25519VerifyCall a b c d e f) h = rc_only (wolfhsm_ed25519_verify lib a b c d e f h)"
| "hsm_exec lib (Ed25519ExportCall a b) h = rc_only (wolfhsm_ed25519_export_public lib a b h)"
| "hsm_exec lib (X25519ExportCall a b) h = rc_only (wolfhsm_curve25519_export_public lib a b h)"
| "hsm_exec lib (CmacCall a b c d e) h = rc_only (wolfhsm_cmac lib a b c d e h)"

fun run_calls :: "('x \<Rightarrow> 'c hsm \<Rightarrow> (int \<times> 'c hsm) option) \<Rightarrow> 'x list \<Rightarrow> 'c hsm \<Rightarrow> (int list \<times> 'c hsm) option" where
  "run_calls exec [] h = Some ([], h)"
| "run_calls exec (x # xs) h = do { (rc, h) \<leftarrow> exec x h; (rcs, h) \<leftarrow> run_calls exec xs h; Some (rc # rcs, h) }"

locale stack_api =
  fixes exec :: "'x \<Rightarrow> 'c hsm \<Rightarrow> (int \<times> 'c hsm) option"
  assumes balanced: "\<exists>rc h'. exec x h = Some (rc, h') \<and> live h' = live h"
begin

lemma session_balanced: "\<exists>rcs h'. run_calls exec xs h = Some (rcs, h') \<and> live h' = live h \<and> length rcs = length xs"
proof (induction xs arbitrary: h)
  case (Cons x xs)
  obtain rc h1 where 1: "exec x h = Some (rc, h1)" "live h1 = live h" using balanced by blast
  obtain rcs h2 where "run_calls exec xs h1 = Some (rcs, h2)" "live h2 = live h1" "length rcs = length xs"
    using Cons.IH by blast
  with 1 show ?case by simp
qed simp

end

lemmas shim_defs = key_new_def key_free_def rc_only_def Let_def

lemma wolfhsm_ecc_sign_balanced:
  "\<exists>rc h'. rc_only (wolfhsm_ecc_sign lib a b c d e h) = Some (rc, h') \<and> live h' = live h"
  by (auto simp: wolfhsm_ecc_sign_def shim_defs split: prod.splits)

lemma wolfhsm_ecc_verify_balanced:
  "\<exists>rc h'. rc_only (wolfhsm_ecc_verify lib a b c d e f h) = Some (rc, h') \<and> live h' = live h"
  by (auto simp: wolfhsm_ecc_verify_def shim_defs split: prod.splits)

lemma wolfhsm_ecc_export_public_der_balanced:
  "\<exists>rc h'. rc_only (wolfhsm_ecc_export_public_der lib a b c h) = Some (rc, h') \<and> live h' = live h"
  by (auto simp: wolfhsm_ecc_export_public_der_def shim_defs split: prod.splits)

lemma wolfhsm_ecc_shared_secret_balanced:
  "\<exists>rc h'. rc_only (wolfhsm_ecc_shared_secret lib a b c d e h) = Some (rc, h') \<and> live h' = live h"
  by (auto simp: wolfhsm_ecc_shared_secret_def shim_defs split: prod.splits)

lemma wolfhsm_ecc_make_key_balanced:
  "\<exists>rc h'. rc_only (Some (wolfhsm_ecc_make_key lib a b h)) = Some (rc, h') \<and> live h' = live h"
  by (auto simp: wolfhsm_ecc_make_key_def shim_defs split: prod.splits)

lemma wolfhsm_curve25519_make_key_balanced:
  "\<exists>rc h'. rc_only (Some (wolfhsm_curve25519_make_key lib a h)) = Some (rc, h') \<and> live h' = live h"
  by (auto simp: wolfhsm_curve25519_make_key_def shim_defs split: prod.splits)

lemma wolfhsm_curve25519_shared_secret_balanced:
  "\<exists>rc h'. rc_only (wolfhsm_curve25519_shared_secret lib a b c d e h) = Some (rc, h') \<and> live h' = live h"
  by (auto simp: wolfhsm_curve25519_shared_secret_def shim_defs split: prod.splits)

lemma wolfhsm_rsa_function_balanced:
  "\<exists>rc h'. rc_only (wolfhsm_rsa_function lib a b c d e f h) = Some (rc, h') \<and> live h' = live h"
  by (auto simp: wolfhsm_rsa_function_def shim_defs split: prod.splits)

lemma wolfhsm_rsa_get_size_balanced:
  "\<exists>rc h'. rc_only (wolfhsm_rsa_get_size lib a b h) = Some (rc, h') \<and> live h' = live h"
  by (auto simp: wolfhsm_rsa_get_size_def shim_defs split: prod.splits)

lemma wolfhsm_rsa_make_key_balanced:
  "\<exists>rc h'. rc_only (Some (wolfhsm_rsa_make_key lib a b c h)) = Some (rc, h') \<and> live h' = live h"
  by (auto simp: wolfhsm_rsa_make_key_def shim_defs split: prod.splits)

lemma wolfhsm_rsa_export_public_der_balanced:
  "\<exists>rc h'. rc_only (wolfhsm_rsa_export_public_der lib a b c h) = Some (rc, h') \<and> live h' = live h"
  by (auto simp: wolfhsm_rsa_export_public_der_def shim_defs split: prod.splits)

lemma wolfhsm_mldsa_sign_balanced:
  "\<exists>rc h'. rc_only (wolfhsm_mldsa_sign lib a b c d e f h) = Some (rc, h') \<and> live h' = live h"
  by (auto simp: wolfhsm_mldsa_sign_def shim_defs split: prod.splits)

lemma wolfhsm_mldsa_verify_balanced:
  "\<exists>rc h'. rc_only (wolfhsm_mldsa_verify lib a b c d e f g h) = Some (rc, h') \<and> live h' = live h"
  by (auto simp: wolfhsm_mldsa_verify_def shim_defs split: prod.splits)

lemma wolfhsm_mldsa_make_key_balanced:
  "\<exists>rc h'. rc_only (Some (wolfhsm_mldsa_make_key lib a b h)) = Some (rc, h') \<and> live h' = live h"
  by (auto simp: wolfhsm_mldsa_make_key_def shim_defs split: prod.splits)

lemma wolfhsm_aes_gcm_encrypt_balanced:
  "\<exists>rc h'. rc_only (wolfhsm_aes_gcm_encrypt lib a b c d e f g i j k h) = Some (rc, h') \<and> live h' = live h"
  by (auto simp: wolfhsm_aes_gcm_encrypt_def shim_defs split: prod.splits)

lemma wolfhsm_aes_gcm_decrypt_balanced:
  "\<exists>rc h'. rc_only (wolfhsm_aes_gcm_decrypt lib a b c d e f g i j k h) = Some (rc, h') \<and> live h' = live h"
  by (auto simp: wolfhsm_aes_gcm_decrypt_def shim_defs split: prod.splits)

lemma wolfhsm_sha256_balanced:
  "\<exists>rc h'. rc_only (wolfhsm_sha256 lib a b c h) = Some (rc, h') \<and> live h' = live h"
  by (auto simp: wolfhsm_sha256_def sha_shim_def shim_defs split: prod.splits)

lemma wolfhsm_sha384_balanced:
  "\<exists>rc h'. rc_only (wolfhsm_sha384 lib a b c h) = Some (rc, h') \<and> live h' = live h"
  by (auto simp: wolfhsm_sha384_def sha_shim_def shim_defs split: prod.splits)

lemma wolfhsm_sha512_balanced:
  "\<exists>rc h'. rc_only (wolfhsm_sha512 lib a b c h) = Some (rc, h') \<and> live h' = live h"
  by (auto simp: wolfhsm_sha512_def sha_shim_def shim_defs split: prod.splits)

lemma wolfhsm_ed25519_make_key_balanced:
  "\<exists>rc h'. rc_only (Some (wolfhsm_ed25519_make_key lib a h)) = Some (rc, h') \<and> live h' = live h"
  by (auto simp: wolfhsm_ed25519_make_key_def shim_defs split: prod.splits)

lemma wolfhsm_ed25519_sign_balanced:
  "\<exists>rc h'. rc_only (wolfhsm_ed25519_sign lib a b c d e h) = Some (rc, h') \<and> live h' = live h"
  by (auto simp: wolfhsm_ed25519_sign_def shim_defs split: prod.splits)

lemma wolfhsm_ed25519_verify_balanced:
  "\<exists>rc h'. rc_only (wolfhsm_ed25519_verify lib a b c d e f h) = Some (rc, h') \<and> live h' = live h"
  by (auto simp: wolfhsm_ed25519_verify_def shim_defs split: prod.splits)

lemma wolfhsm_ed25519_export_public_balanced:
  "\<exists>rc h'. rc_only (wolfhsm_ed25519_export_public lib a b h) = Some (rc, h') \<and> live h' = live h"
  by (auto simp: wolfhsm_ed25519_export_public_def shim_defs split: prod.splits)

lemma wolfhsm_curve25519_export_public_balanced:
  "\<exists>rc h'. rc_only (wolfhsm_curve25519_export_public lib a b h) = Some (rc, h') \<and> live h' = live h"
  by (auto simp: wolfhsm_curve25519_export_public_def shim_defs split: prod.splits)

lemma wolfhsm_cmac_balanced:
  "\<exists>rc h'. rc_only (wolfhsm_cmac lib a b c d e h) = Some (rc, h') \<and> live h' = live h"
  by (auto simp: wolfhsm_cmac_def shim_defs split: prod.splits)

lemmas shims_balanced =
  wolfhsm_ecc_sign_balanced
  wolfhsm_ecc_verify_balanced
  wolfhsm_ecc_export_public_der_balanced
  wolfhsm_ecc_shared_secret_balanced
  wolfhsm_ecc_make_key_balanced
  wolfhsm_curve25519_make_key_balanced
  wolfhsm_curve25519_shared_secret_balanced
  wolfhsm_rsa_function_balanced
  wolfhsm_rsa_get_size_balanced
  wolfhsm_rsa_make_key_balanced
  wolfhsm_rsa_export_public_der_balanced
  wolfhsm_mldsa_sign_balanced
  wolfhsm_mldsa_verify_balanced
  wolfhsm_mldsa_make_key_balanced
  wolfhsm_aes_gcm_encrypt_balanced
  wolfhsm_aes_gcm_decrypt_balanced
  wolfhsm_sha256_balanced
  wolfhsm_sha384_balanced
  wolfhsm_sha512_balanced
  wolfhsm_ed25519_make_key_balanced
  wolfhsm_ed25519_sign_balanced
  wolfhsm_ed25519_verify_balanced
  wolfhsm_ed25519_export_public_balanced
  wolfhsm_curve25519_export_public_balanced
  wolfhsm_cmac_balanced

interpretation hsm: stack_api "hsm_exec lib"
proof
  show "\<exists>rc h'. hsm_exec lib x h = Some (rc, h') \<and> live h' = live h" for x h
    by (cases x) (simp_all only: hsm_exec.simps shims_balanced)
qed

section \<open>What the shims rely on\<close>

text \<open>The documented behaviour of the client API: a signature the HSM made is accepted for the same key and
  message, and decryption inverts encryption.\<close>

definition hsm_signs :: "('c, 'k) hsm_lib \<Rightarrow> bool" where
  "hsm_signs lib \<longleftrightarrow>
    (\<forall>c k m ml s sl c' s' sl' r. EccSign lib c k m ml s sl = (0, c', s', sl') \<longrightarrow>
      (\<exists>c''. EccVerify lib c' k s' sl' m ml r = (0, c'', 1))) \<and>
    (\<forall>c k m ml s sl c' s' sl' r. Ed25519Sign lib c k m ml s sl = (0, c', s', sl') \<longrightarrow>
      (\<exists>c''. Ed25519Verify lib c' k s' sl' m ml r = (0, c'', 1))) \<and>
    (\<forall>c k m ml s sl c' s' sl' r. MlDsaSign lib c m ml s sl k = (0, c', s', sl') \<longrightarrow>
      (\<exists>c''. MlDsaVerify lib c' s' sl' m ml r k = (0, c'', 1)))"

definition hsm_decrypts :: "('c, 'k) hsm_lib \<Rightarrow> bool" where
  "hsm_decrypts lib \<longleftrightarrow>
    (\<forall>c k p pl iv il a al t tl out c' t' ct out'. length p = unat pl \<longrightarrow>
      AesGcm lib c k True p pl iv il a al None (Some t) tl out = (0, c', Some t', ct) \<longrightarrow>
      (\<exists>c'' t''. AesGcm lib c' k False ct pl iv il a al (Some t') None tl out' = (0, c'', t'', p)))"

text \<open>A library for concrete runs: the structure holds the key id, a signature is the message with the id.\<close>

definition toy_hsm :: "(unit, u16) hsm_lib" where
  "toy_hsm = \<lparr>key_init = (\<lambda>_. (0, 0)), set_key_id = (\<lambda>_ _ i. i),
    EccSign = (\<lambda>c k m ml s sl. (0, c, m @ [ucast k], sl)),
    EccVerify = (\<lambda>c k s sl m ml r. (0, c, if s = m @ [ucast k] then 1 else 0)),
    ExportKey = (\<lambda>_ c i k. (0, c, i)), EccPublicKeyToDer = (\<lambda>k out n a. (1, [ucast k])),
    EccPublicKeyDecode = (\<lambda>d i k n. (0, k)), EccSharedSecret = (\<lambda>c k l out n. (0, c, [ucast k], 1)),
    EccMakeCacheKey = (\<lambda>c n e i f. (0, c, 7)), Curve25519MakeCacheKey = (\<lambda>c n i f. (0, c, 7)),
    curve25519_import_public = (\<lambda>p n k. (0, k)), Curve25519SharedSecret = (\<lambda>c k l out n. (0, c, [ucast k], 1)),
    curve25519_export_public = (\<lambda>k out n. (0, replicate 32 0, 32)),
    RsaFunction = (\<lambda>c k ty i n out m. (0, c, i, n)), RsaGetSize = (\<lambda>c k n. (0, c, 256)),
    RsaMakeCacheKey = (\<lambda>c b e i f. (0, c, 7)), RsaKeyToPublicDer = (\<lambda>k out n. (1, [ucast k])),
    MlDsaSetParams = (\<lambda>k l. (0, k)), MlDsaSign = (\<lambda>c m ml s sl k. (0, c, m @ [ucast k], sl)),
    MlDsaVerify = (\<lambda>c s sl m ml r k. (0, c, if s = m @ [ucast k] then 1 else 0)),
    MlDsaMakeCacheKey = (\<lambda>c n l i f. (0, c, 7)),
    AesGcm = (\<lambda>c k e i il iv ivl a al dt et tl out. (0, c, et, i)),
    Sha = (\<lambda>_ c k i n out. (0, c, i)), Ed25519MakeCacheKey = (\<lambda>c i f. (0, c, 7)),
    Ed25519Sign = (\<lambda>c k m ml s sl. (0, c, m @ [ucast k], sl)),
    Ed25519Verify = (\<lambda>c k s sl m ml r. (0, c, if s = m @ [ucast k] then 1 else 0)),
    ed25519_export_public = (\<lambda>k out n. (0, replicate 32 0, 32)),
    CmacGenerate = (\<lambda>c k i n out m. (0, c, i, n))\<rparr>"

lemma toy_hsm_laws: "hsm_signs toy_hsm" "hsm_decrypts toy_hsm"
  by (auto simp: hsm_signs_def hsm_decrypts_def toy_hsm_def)

lemma hsm_signsD:
  assumes "hsm_signs lib"
  shows "EccSign lib c k m l s n = (0, c', s', n') \<Longrightarrow> \<exists>c''. EccVerify lib c' k s' n' m l r = (0, c'', 1)"
    and "Ed25519Sign lib c k m u s v = (0, c', s', v') \<Longrightarrow> \<exists>c''. Ed25519Verify lib c' k s' v' m u r = (0, c'', 1)"
    and "MlDsaSign lib c m u s v k = (0, c', s', v') \<Longrightarrow> \<exists>c''. MlDsaVerify lib c' s' v' m u r k = (0, c'', 1)"
  using assms unfolding hsm_signs_def by meson+

lemma ecc_sign_verify:
  assumes "hsm_signs lib" "wolfhsm_ecc_sign lib i m ml s n h = Some ((0, s', n'), h')"
  shows "\<exists>h''. wolfhsm_ecc_verify lib i m ml s' n' r h' = Some ((0, 1), h'')"
proof -
  obtain k where k: "key_init lib EccKey = (0, k)"
    using assms(2) by (cases "key_init lib EccKey") (auto simp: wolfhsm_ecc_sign_def shim_defs split: if_splits prod.splits)
  obtain rc c s1 n1 where e: "EccSign lib (client h) (set_key_id lib EccKey k i) m ml s n = (rc, c, s1, n1)" by (metis prod_cases4)
  have r: "rc = 0" "s' = s1" "n' = n1" "h' = h\<lparr>client := c\<rparr>"
    using assms(2) by (auto simp: wolfhsm_ecc_sign_def shim_defs k e)
  obtain c2 where "EccVerify lib c (set_key_id lib EccKey k i) s1 n1 m ml r = (0, c2, 1)" using hsm_signsD [OF assms(1)] e [unfolded r(1)] by meson
  then show ?thesis by (simp add: wolfhsm_ecc_verify_def shim_defs k r)
qed

lemma ed25519_sign_verify:
  assumes "hsm_signs lib" "wolfhsm_ed25519_sign lib i m ml s n h = Some ((0, s', n'), h')"
  shows "\<exists>h''. wolfhsm_ed25519_verify lib i s' n' m ml r h' = Some ((0, 1), h'')"
proof -
  obtain k where k: "key_init lib Ed25519Key = (0, k)"
    using assms(2) by (cases "key_init lib Ed25519Key") (auto simp: wolfhsm_ed25519_sign_def shim_defs split: if_splits prod.splits)
  obtain rc c s1 n1 where e: "Ed25519Sign lib (client h) (set_key_id lib Ed25519Key k i) m ml s n = (rc, c, s1, n1)" by (metis prod_cases4)
  have r: "rc = 0" "s' = s1" "n' = n1" "h' = h\<lparr>client := c\<rparr>"
    using assms(2) by (auto simp: wolfhsm_ed25519_sign_def shim_defs k e)
  obtain c2 where "Ed25519Verify lib c (set_key_id lib Ed25519Key k i) s1 n1 m ml r = (0, c2, 1)" using hsm_signsD [OF assms(1)] e [unfolded r(1)] by meson
  then show ?thesis by (simp add: wolfhsm_ed25519_verify_def shim_defs k r)
qed

lemma mldsa_sign_verify:
  assumes "hsm_signs lib" "wolfhsm_mldsa_sign lib i lv m ml s n h = Some ((0, s', n'), h')"
  shows "\<exists>h''. wolfhsm_mldsa_verify lib i lv s' n' m ml r h' = Some ((0, 1), h'')"
proof -
  obtain k where k: "key_init lib MlDsaKey = (0, k)"
    using assms(2) by (cases "key_init lib MlDsaKey") (auto simp: wolfhsm_mldsa_sign_def shim_defs split: if_splits prod.splits)
  obtain q where p: "MlDsaSetParams lib k lv = (0, q)"
    using assms(2) by (cases "MlDsaSetParams lib k lv") (auto simp: wolfhsm_mldsa_sign_def shim_defs k split: if_splits prod.splits)
  obtain rc c s1 n1 where e: "MlDsaSign lib (client h) m ml s n (set_key_id lib MlDsaKey q i) = (rc, c, s1, n1)" by (metis prod_cases4)
  have r: "rc = 0" "s' = s1" "n' = n1" "h' = h\<lparr>client := c\<rparr>"
    using assms(2) by (auto simp: wolfhsm_mldsa_sign_def shim_defs k e p)
  obtain c2 where "MlDsaVerify lib c s1 n1 m ml r (set_key_id lib MlDsaKey q i) = (0, c2, 1)" using hsm_signsD [OF assms(1)] e [unfolded r(1)] by meson
  then show ?thesis by (simp add: wolfhsm_mldsa_verify_def shim_defs k r p)
qed

lemma gcm_encrypt_decrypt:
  assumes "hsm_decrypts lib" "length m = unat ml"
    and "wolfhsm_aes_gcm_encrypt lib i iv il aad al m ml out (Some t) tn h = Some ((0, ct, Some t'), h')"
  shows "\<exists>h''. wolfhsm_aes_gcm_decrypt lib i iv il aad al ct ml out' (Some t') tn h' = Some ((0, m), h'')"
proof -
  obtain k where k: "key_init lib AesCtx = (0, k)"
    using assms(3) by (cases "key_init lib AesCtx") (auto simp: wolfhsm_aes_gcm_encrypt_def shim_defs split: if_splits prod.splits)
  obtain rc c t1 o1 where
    e: "AesGcm lib (client h) (set_key_id lib AesCtx k i) True m ml iv il aad al None (Some t) tn out = (rc, c, t1, o1)"
    by (metis prod_cases4)
  have r: "rc = 0" "t1 = Some t'" "o1 = ct" "h' = h\<lparr>client := c\<rparr>"
    using assms(3) by (auto simp: wolfhsm_aes_gcm_encrypt_def shim_defs k e)
  obtain c2 t2 where "AesGcm lib c (set_key_id lib AesCtx k i) False ct ml iv il aad al (Some t') None tn out' = (0, c2, t2, m)"
    using assms(1,2) e [unfolded r(1,2,3)] unfolding hsm_decrypts_def by blast
  then show ?thesis by (simp add: wolfhsm_aes_gcm_decrypt_def shim_defs k r)
qed

lemma gcm_encrypt_no_tag:
  "wolfhsm_aes_gcm_encrypt lib i iv il aad al m ml out None tn h = Some ((WH_ERROR_BADARGS, out, None), h)"
  by (simp add: wolfhsm_aes_gcm_encrypt_def)

section \<open>Properties\<close>

text \<open>C37: No shim leaks or doubly frees a key structure: any sequence of calls of the 25 shims with
  any arguments, whatever the client API and wolfCrypt return, is defined, returns one code per call,
  and every structure that a shim initialised on its stack was freed exactly once when it
  returned, on the early error returns too.\<close>

theorem hsm_shims_balanced:
  "\<exists>rcs h'. run_calls (hsm_exec lib) calls h = Some (rcs, h') \<and> live h' = live h \<and> length rcs = length calls"
  by (rule hsm.session_balanced)

text \<open>The shims pass keys, messages, signatures and tags on in the right places: for a client API whose
  verification accepts what its signing made and whose decryption inverts its encryption, the ECC, ML-DSA and
  Ed25519 verification shims accept what the signing shims returned for the same key id and message, and
  the AES-GCM decryption shim returns the plaintext of the encryption shim; encryption without a place for
  the tag is refused before the HSM is called.\<close>

lemma hsm_shims_roundtrip:
  assumes "hsm_signs lib" "hsm_decrypts lib"
  shows "(wolfhsm_ecc_sign lib i m ml' s sl h = Some ((0, s', sl'), h') \<longrightarrow>
      (\<exists>h''. wolfhsm_ecc_verify lib i m ml' s' sl' r h' = Some ((0, 1), h''))) \<and>
    (wolfhsm_mldsa_sign lib i lv m ml s n h = Some ((0, s', n'), h') \<longrightarrow>
      (\<exists>h''. wolfhsm_mldsa_verify lib i lv s' n' m ml r h' = Some ((0, 1), h''))) \<and>
    (wolfhsm_ed25519_sign lib i m ml s n h = Some ((0, s', n'), h') \<longrightarrow>
      (\<exists>h''. wolfhsm_ed25519_verify lib i s' n' m ml r h' = Some ((0, 1), h''))) \<and>
    (length m = unat ml \<longrightarrow>
      wolfhsm_aes_gcm_encrypt lib i iv il aad al m ml out (Some t) tn h = Some ((0, ct, Some t'), h') \<longrightarrow>
      (\<exists>h''. wolfhsm_aes_gcm_decrypt lib i iv il aad al ct ml out' (Some t') tn h' = Some ((0, m), h''))) \<and>
    wolfhsm_aes_gcm_encrypt lib i iv il aad al m ml out None tn h = Some ((WH_ERROR_BADARGS, out, None), h)"
  by (intro conjI impI gcm_encrypt_no_tag)
    (erule ecc_sign_verify [OF assms(1)] mldsa_sign_verify [OF assms(1)] ed25519_sign_verify [OF assms(1)]
      | erule (1) gcm_encrypt_decrypt [OF assms(2)])+

lemma ucast_u16_less: "(ucast (x :: u16) :: u32) < 0x10000"
proof -
  have "unat x < 2 ^ 16" by (rule order_less_le_trans [OF unsigned_less]) simp
  then show ?thesis by (simp add: word_less_nat_alt unsigned_ucast_eq take_bit_nat_eq_self)
qed

text \<open>What a shim with a narrowed length returns.\<close>

lemma rsa_function_length:
  assumes "wolfhsm_rsa_function lib i ty m n out out_len h = Some ((rc, o', l), h')"
  shows "if rc = 0 then l < 0x10000 \<or> fst (key_init lib RsaKey) \<noteq> 0 else l = out_len"
  using assms ucast_u16_less by (auto simp: wolfhsm_rsa_function_def WH_ERROR_BADARGS_def shim_defs split: prod.splits if_splits)

lemma ecc_shared_secret_length:
  assumes "wolfhsm_ecc_shared_secret lib i m n out out_len h = Some ((rc, o', l), h')"
  shows "if rc = 0 then l < 0x10000 \<or> fst (key_init lib EccKey) \<noteq> 0 else l = out_len"
  using assms ucast_u16_less by (auto simp: wolfhsm_ecc_shared_secret_def WH_ERROR_BADARGS_def shim_defs split: prod.splits if_splits)

lemma curve25519_shared_secret_length:
  assumes "wolfhsm_curve25519_shared_secret lib i m n out out_len h = Some ((rc, o', l), h')"
  shows "if rc = 0 then l < 0x10000 \<or> fst (key_init lib Curve25519Key) \<noteq> 0 else l = out_len"
  using assms ucast_u16_less by (auto simp: wolfhsm_curve25519_shared_secret_def WH_ERROR_BADARGS_def shim_defs split: prod.splits if_splits)

text \<open>Lengths and key ids on errors: where a 32-bit length is handed to the 16-bit interface of the client API
  (RSA operation, the two key agreements) a length above 65535 is refused with \<open>WH_ERROR_BADARGS\<close>
  without a call of the HSM, so that no length is ever truncated, and a returned length is then below
  65536; a shim that returns an error leaves the caller's length or key id as it was.\<close>

lemma hsm_shims_lengths:
  assumes "\<forall>kd. fst (key_init lib kd) = 0"
  shows "(0xFFFF < n \<or> 0xFFFF < out_len \<longrightarrow>
      wolfhsm_rsa_function lib i ty m n out out_len h = Some ((WH_ERROR_BADARGS, out, out_len), h)) \<and>
    (0xFFFF < out_len \<and> fst (EccPublicKeyDecode lib m 0 (snd (key_init lib EccKey)) n) = 0 \<longrightarrow>
      wolfhsm_ecc_shared_secret lib i m n out out_len h = Some ((WH_ERROR_BADARGS, out, out_len), h)) \<and>
    (0xFFFF < out_len \<and> fst (curve25519_import_public lib m n (snd (key_init lib Curve25519Key))) = 0 \<longrightarrow>
      wolfhsm_curve25519_shared_secret lib i m n out out_len h = Some ((WH_ERROR_BADARGS, out, out_len), h)) \<and>
    (\<forall>rc o' l h'. (wolfhsm_rsa_function lib i ty m n out out_len h = Some ((rc, o', l), h') \<or>
        wolfhsm_ecc_shared_secret lib i m n out out_len h = Some ((rc, o', l), h') \<or>
        wolfhsm_curve25519_shared_secret lib i m n out out_len h = Some ((rc, o', l), h')) \<longrightarrow>
      (if rc = 0 then l < 0x10000 else l = out_len)) \<and>
    (\<forall>rc l h'. (wolfhsm_ecc_make_key lib ty k h = ((rc, l), h') \<or> wolfhsm_curve25519_make_key lib k h = ((rc, l), h') \<or>
        wolfhsm_rsa_make_key lib ty e k h = ((rc, l), h') \<or> wolfhsm_mldsa_make_key lib ty k h = ((rc, l), h') \<or>
        wolfhsm_ed25519_make_key lib k h = ((rc, l), h')) \<and> rc \<noteq> 0 \<longrightarrow> l = k)"
proof (intro conjI impI allI)
  have k: "\<exists>x. key_init lib kd = (0, x)" for kd using assms by (metis prod.collapse)
  obtain ke where ke: "key_init lib EccKey = (0, ke)" using k by blast
  obtain kc where kc: "key_init lib Curve25519Key = (0, kc)" using k by blast
  obtain kr where kr: "key_init lib RsaKey = (0, kr)" using k by blast
  show "wolfhsm_rsa_function lib i ty m n out out_len h = Some ((WH_ERROR_BADARGS, out, out_len), h)"
    if "0xFFFF < n \<or> 0xFFFF < out_len"
    using that by (auto simp: wolfhsm_rsa_function_def kr shim_defs)
  show "wolfhsm_ecc_shared_secret lib i m n out out_len h = Some ((WH_ERROR_BADARGS, out, out_len), h)"
    if "0xFFFF < out_len \<and> fst (EccPublicKeyDecode lib m 0 (snd (key_init lib EccKey)) n) = 0"
    using that by (auto simp: wolfhsm_ecc_shared_secret_def ke shim_defs split: prod.splits)
  show "wolfhsm_curve25519_shared_secret lib i m n out out_len h = Some ((WH_ERROR_BADARGS, out, out_len), h)"
    if "0xFFFF < out_len \<and> fst (curve25519_import_public lib m n (snd (key_init lib Curve25519Key))) = 0"
    using that by (auto simp: wolfhsm_curve25519_shared_secret_def kc shim_defs split: prod.splits)
  show "if rc = 0 then l < 0x10000 else l = out_len"
    if "wolfhsm_rsa_function lib i ty m n out out_len h = Some ((rc, o', l), h') \<or>
        wolfhsm_ecc_shared_secret lib i m n out out_len h = Some ((rc, o', l), h') \<or>
        wolfhsm_curve25519_shared_secret lib i m n out out_len h = Some ((rc, o', l), h')" for rc o' l h'
    using that assms by (auto dest!: rsa_function_length ecc_shared_secret_length curve25519_shared_secret_length)
  show "l = k" if "(wolfhsm_ecc_make_key lib ty k h = ((rc, l), h') \<or> wolfhsm_curve25519_make_key lib k h = ((rc, l), h') \<or>
        wolfhsm_rsa_make_key lib ty e k h = ((rc, l), h') \<or> wolfhsm_mldsa_make_key lib ty k h = ((rc, l), h') \<or>
        wolfhsm_ed25519_make_key lib k h = ((rc, l), h')) \<and> rc \<noteq> 0" for rc l h'
    using that by (auto simp: wolfhsm_ecc_make_key_def wolfhsm_curve25519_make_key_def wolfhsm_rsa_make_key_def
        wolfhsm_mldsa_make_key_def wolfhsm_ed25519_make_key_def split: prod.splits)
qed

end
