(* ===== verification/Spec2Isabelle.thy ===== *)
theory Spec2Isabelle
  imports Sp521Nb Sp521Sign Sp521Cache KeyWrap Dh Rsa EvpCompat BareMetal Tpm HsmShim
begin

text \<open>
  This library verifies the C code of wolfssl-rs, the Rust bindings to wolfSSL.  The C
  files of the repository are of two kinds: patched copies of wolfSSL's single-precision
  arithmetic (\<^verbatim>\<open>src/wolfssl-src/patches/\<close>), and shims between Rust and the C libraries wolfSSL,
  wolfHSM and wolfTPM (\<^verbatim>\<open>src/wolfcrypt-rs/src/compat_shim.c\<close>, \<^verbatim>\<open>src/wolfhsm-sys/src/shims.c\<close>,
  \<^verbatim>\<open>src/wolftpm-sys/src/wolftpm_rs_shim.c\<close>, \<^verbatim>\<open>src/wolfssl-src/riscv_bare_metal_helpers.c\<close>).  Code of
  wolfSSL, wolfHSM and wolfTPM that is not in the repository is a parameter of the definitions
  that call it (the records \<open>lib\<close>, or a function argument), and what a property needs of it is a
  hypothesis of the property.

  \<^bold>\<open>Shared vocabulary.\<close>  \<open>Prelude\<close>: C integers as HOL integers with the wrap-around at every
  assignment, checked memory operations in the option monad (\<open>None\<close> is undefined behaviour of the C
  program), generic lemmas on lists.  \<open>CHeap\<close>: the heap with allocation failure, use after free, the
  initialised wolfSSL objects, a mark for the release of one that is not held, and the contents of freed memory; \<open>life_cycle\<close>, what
  is asked of a handle from its creation to its end, and the locale \<open>ctx_api\<close>, the contract of the functions of a handle
  from which it follows.

  \<^bold>\<open>Single-precision arithmetic for P-521\<close> (\<^verbatim>\<open>patches/sp_c64.c\<close>, the section of nine 58-bit digits, default
  build: neither \<^verbatim>\<open>WOLFSSL_SP_SMALL\<close> nor \<^verbatim>\<open>WOLFSSL_SP_SMALL_STACK\<close>, so that no temporary is
  allocated and \<^verbatim>\<open>MEMORY_E\<close> cannot occur).
  \<^item> \<open>SpDigits\<close>: the value of a digit list, its canonical digits, carries and column products.
  \<^item> \<open>Sp521\<close>: the functions of the field (\<open>sp_521_mul_9\<close>, \<open>sp_521_mont_reduce_9\<close>, \<open>sp_521_mont_add_9\<close> and so on), with
    the bounds their proofs need.  The shift of \<open>sp_521_rshift1_9\<close> overflows in C; it is modelled as wrapping.  \<open>FieldOps\<close>: the locales
    \<open>mont_ring\<close> and \<open>mont_field\<close>, modular arithmetic on representatives; power chains are computed in
    them once.  \<open>Sp521Field\<close> interprets \<open>mont_field\<close> on the functions of the source.
  \<^item> \<open>Jacobian\<close>: the affine group law of a short Weierstrass curve with a = -3 and the Jacobian
    formulas as polynomial identities.  \<open>Sp521Point\<close>: inversion, \<open>sp_521_map_9\<close>, doubling and addition refine the
    group law.  \<open>Sp521Nb\<close>: the non-blocking state machines, whose runs end and refine the
    blocking functions.
  \<^item> \<open>Sp521Scalar\<close>: repeated doubling, combined addition and subtraction, signed recoding of the scalar.
    \<open>Sp521Mulmod\<close>: the table and the loop of \<open>sp_521_ecc_mulmod_win_add_sub_9\<close>.
  \<^item> \<open>Sp521Div\<close>, \<open>Sp521IsPoint\<close>: trial division with the correction of the repository and the check that
    a point is on the curve.  The division is verified once in the locale \<open>divisor\<close>, for every divisor close below \<open>2\<^sup>5\<^sup>2\<^sup>1\<close>.  It is exact
    where every partial remainder is clear (\<open>div_safe\<close>); a concrete input shows that the condition is needed.
  \<^item> \<open>Sp521Order\<close>: Montgomery arithmetic modulo the group order and inversion by Fermat's exponent, an
    interpretation of \<open>mont_ring\<close>.  \<open>Sp521Inv\<close>: the binary extended Euclidean algorithm.  Its two loops that may not end
    are partial functions of the option monad; they are shown to return for every number
    coprime to the modulus.
  \<^item> \<open>Sp521Enc\<close>: conversions from and to bytes and \<^verbatim>\<open>mp_int\<close>, random scalars by rejection (a partial function that
    returns exactly when the generator fails or gives an acceptable block), the truncation of a hash.
    \<open>Sp521Ecdsa\<close>: the second signature value and the multipliers of the verification; the group order
    is the second interpretation of the locale \<open>divisor\<close> of \<open>Sp521Div\<close>.
  \<^item> \<open>Sp521Stripe\<close>: the striped (comb) multiplication with a table of 256 points: its result is the value of an expression
    of doublings and additions of entries whose multiple of the point is the scalar, and constant-time and direct table reads agree.  What the loop keeps of its points is proved once in the
    locale \<open>comb_points\<close>, interpreted for well-formed coordinates and for points of the curve.  \<open>Sp521Table\<close>: the table of the
    base point, digit by digit; the kernel checks the shape of every entry.
  \<^item> \<open>Sp521Uncompress\<close>: square roots modulo the prime and point decompression.  \<open>Sp521Ecc\<close>: the public functions around one point
    operation (multiplication, key generation, shared secret, point and key checks, projective operations).
    \<open>Sp521Sign\<close>: signing and verification as a whole: which nonces are tried and what a signature is made of, and the comparison
    that decides a verification.  Nothing is shown of a verification in which both products are at infinity but its answer's definition.  The group law's associativity is not proved, so that a multiplication is specified by
    its schedule of doublings and additions and by staying on the curve.
  \<^item> \<open>Sp521Cache\<close>: the \<^verbatim>\<open>FP_ECC\<close> build of the multiplication.  The generation of a table is verified in the locale \<open>table_points\<close>, which
    extends \<open>comb_points\<close>; the cache of sixteen tables refines a finite map of use counts, for all sequences
    of calls.  What happens under the lock and after it are separate definitions, and a schedule of two threads shows
    that the latter is not protected.

  \<^bold>\<open>The OpenSSL-compatibility shim\<close> (\<^verbatim>\<open>compat_shim.c\<close>).
  \<^item> \<open>KeyWrap\<close>: AES key wrap with padding on buffers with bounds; wrapping meets RFC 5649, unwrapping
    inverts it and accepts exactly well-formed plaintexts, in one-block and multi-block form.
  \<^item> \<open>Kdf\<close>: TLS PRF adapter, KBKDF in counter mode, SSKDF with hash and with HMAC; output blocks,
    counters, cleanup on error, and the lengths for which the 32-bit casts lose bits.
  \<^item> \<open>HashCtx\<close>: the contexts of nine hashes, HMAC, CMAC and 3DES on the heap; the hash contexts refine
    the one-shot hash of the concatenated input.  \<open>Dh\<close>, \<open>Rsa\<close>: Diffie-Hellman and RSA handles.  All
    handles are interpretations of \<open>ctx_api\<close>; the property of this theory composes them.  CMAC is the exception: its
    free function leaves the \<^verbatim>\<open>Cmac\<close> object, and whether \<^verbatim>\<open>wc_CmacFinal\<close> frees it is a parameter.
  \<^item> \<open>EvpCompat\<close>: raw key buffers of \<^verbatim>\<open>EVP_PKEY\<close>, reference counts of the peer key, the repair of EC keys
    without public part, the error string.

  \<^bold>\<open>Other shims.\<close>  \<open>BareMetal\<close>: the string and memory functions over a byte-addressed memory, with their
  loops bounded by the terminator or the count.  \<open>Tpm\<close>: the raw command transaction with all length checks.
  \<open>HsmShim\<close>: the 25 client shims with the life time of the key structures each creates on the stack, by
  variable, and the locale \<open>stack_api\<close> for arbitrary sequences of calls.

  \<^bold>\<open>Fuel and bounds.\<close>  No definition takes fuel.  Loops with a counter are structural recursion or folds over the
  counter's range, the others are functions with a termination measure or partial functions whose
  termination is part of a property.

  \<^bold>\<open>Not modelled.\<close>
  \<^item> \<^verbatim>\<open>sp_c32.c\<close> and the parts of \<^verbatim>\<open>sp_c64.c\<close> for RSA and DH (2048, 3072, 4096 bits), P-256, P-384 and P-1024 with SAKKE:
    generated from the same templates with other digit sizes.
  \<^item> Of P-521: the branches of the small build and the non-blocking forms of the entry points (\<^verbatim>\<open>WOLFSSL_SP_NONBLOCK\<close>); none
    of the configurations of the repository selects them in 64-bit builds.  That the 255
    nonzero entries of the table satisfy the curve equation is a hypothesis where it is used: it takes the kernel
    an hour to evaluate.
  \<^item> Accessors of \<^verbatim>\<open>wc_CryptoInfo\<close> and of structure fields in \<^verbatim>\<open>compat_shim.c\<close>: single field reads, whose content is the
    layout of wolfSSL's structures.
  \<^item> Configuration and generated symbol-prefix headers, test vectors, tests, documentation, and the Rust crates.
\<close>

text \<open>C26: The life of a handle.  For each of the nine hashes, HMAC, 3DES, CMAC, Diffie-Hellman
  and RSA: when the creation returns \<open>NULL\<close>, everything it allocated or initialised was given back.  Otherwise
  the handle can be freed after any sequence of calls (for the hashes of update, final and reset, where
  the reset is covered when wolfSSL's initialisation cannot fail; for CMAC of updates; for Diffie-Hellman and RSA
  of all functions on a handle that do not overrun a buffer), and these calls
  are always defined except for the output buffers of Diffie-Hellman and the digests of the RSA signatures.
  Freeing leaves exactly the live objects of before; no wolfSSL object was
  released that was not held, so none was freed twice; and using or freeing the handle again would
  access memory that is gone.  All wolfSSL objects of the handle (hash, key, RNG) were released, with the exception of
  CMAC: \<^verbatim>\<open>wolfcrypt_cmac_free\<close> never frees the \<^verbatim>\<open>Cmac\<close> object, which stays unreleased unless
  \<^verbatim>\<open>wc_CmacFinal\<close> was called before and itself frees it.\<close>

theorem handles_life_cycle:
  assumes "heap_ok h" "heap_ok hk" "heap_ok hr"
  shows "life_cycle (sha_ctx_new lib junk alg) (sha_act lib alg) (sha_free lib alg) (sha_ok lib alg) (\<lambda>_. True) [] h \<and>
    life_cycle (wolfcrypt_hmac_new_impl lib junk ty key n) (hmac_act lib) (wolfcrypt_hmac_free lib) (\<lambda>_. True) (\<lambda>_. True) [] h \<and>
    life_cycle (des3_new lib junk dir key iv) (des3_act lib) (wolfcrypt_des3_free lib) (\<lambda>_. True) (\<lambda>_. True) [] h \<and>
    life_cycle (wolfcrypt_cmac_new_impl lib junk key n) (cmac_act lib) (cmac_finish lib m) is_update (\<lambda>_. True)
      (if CmacFinalFrees lib then [] else [Cmac]) h \<and>
    life_cycle (wolfcrypt_cmac_new_impl lib junk key n) (cmac_act lib) wolfcrypt_cmac_free is_update (\<lambda>_. True) [Cmac] h \<and>
    life_cycle (wolfcrypt_dh_new dlib djunk name g) (dh_act dlib) wolfcrypt_dh_free (\<lambda>_. True) (\<lambda>x. x = DhGenerateCall) [] hk \<and>
    life_cycle (wolfcrypt_rsa_new rlib rjunk) (rsa_act rlib kg kd) (\<lambda>a. wolfcrypt_rsa_free (Some a)) (\<lambda>_. True) rsa_safe [] hr"
  by (intro conjI sha.life_cycle hmac.life_cycle des3.life_cycle cmac_final.life_cycle cmac.life_cycle
      dh.life_cycle rsa.life_cycle assms)

theorem handles_life_cycle_witness:
  "(\<exists>h1 h2 h3. sha_ctx_new toy_lib [] SHA256 (empty_heap 3) = (Some 0, h1) \<and>
      ctx_run (sha_act toy_lib SHA256) [ShaUpdateCall [1, 2] 2, ShaFinalCall, ShaResetCall] 0 h1 = Some h2 \<and>
      sha_free toy_lib SHA256 0 h2 = Some h3 \<and> same_heap (empty_heap 3) h3 \<and> sha_free toy_lib SHA256 0 h3 = None) \<and>
   (\<exists>h1 h2 h3. wolfcrypt_cmac_new_impl toy_lib [] [5] 16 (empty_heap 3) = (Some 0, h1) \<and>
      ctx_run (cmac_act toy_lib) [MacUpdateCall [1] 1] 0 h1 = Some h2 \<and>
      wolfcrypt_cmac_free 0 h2 = Some h3 \<and> held h3 = [(0, Cmac)]) \<and>
   (\<exists>h1 h2 h3. wolfcrypt_rsa_new toy_rsa (zero_rsa toy_rsa) (empty_heap 1) = (Some 0, h1) \<and>
      ctx_run (rsa_act toy_rsa True True) [RsaGenerate 2048, RsaImportPublic [] 0, RsaEncrypt [] 0 0] 0 h1 = Some h2 \<and>
      wolfcrypt_rsa_free (Some 0) h2 = Some h3 \<and> same_heap (empty_heap 1) h3)"
proof -
  note life = handles_life_cycle [OF empty_heap_ok [of 3] empty_heap_ok [of 1] empty_heap_ok [of 1],
      where lib = toy_lib and junk = "[]" and alg = SHA256 and key = "[5]" and n = 16 and
        dlib = toy_dh and djunk = "zero_ctx toy_dh" and rlib = toy_rsa and rjunk = "zero_rsa toy_rsa" and kg = True and kd = True]
  obtain s1 where s: "sha_ctx_new toy_lib [] SHA256 (empty_heap 3) = (Some 0, s1)"
    by (simp add: sha_ctx_new_def malloc_def empty_heap_def toy_lib_def)
  obtain c1 where c: "wolfcrypt_cmac_new_impl toy_lib [] [5] 16 (empty_heap 3) = (Some 0, c1)"
    by (simp add: wolfcrypt_cmac_new_impl_def malloc_def empty_heap_def toy_lib_def)
  obtain r1 where r: "wolfcrypt_rsa_new toy_rsa (zero_rsa toy_rsa) (empty_heap 1) = (Some 0, r1)"
    by (simp add: wolfcrypt_rsa_new_def malloc_def empty_heap_def toy_rsa_def Let_def)
  let ?sx = "[ShaUpdateCall [1, 2] 2, ShaFinalCall, ShaResetCall]" and ?cx = "[MacUpdateCall [1] 1]"
    and ?rx = "[RsaGenerate 2048, RsaImportPublic [] 0, RsaEncrypt [] 0 0]"
  have ok: "list_all (sha_ok toy_lib SHA256) ?sx" "list_all is_update ?cx" "list_all rsa_safe ?rx"
    by (simp_all add: sha_ok_def toy_lib_def is_update_def rsa_safe_def)
  have all: "list_all (\<lambda>_. True) xs" for xs :: "'a list" by (simp add: list_all_iff)
  obtain s2 s3 where 1: "ctx_run (sha_act toy_lib SHA256) ?sx 0 s1 = Some s2"
    "sha_free toy_lib SHA256 0 s2 = Some s3" "same_heap (empty_heap 3) s3" "sha_free toy_lib SHA256 0 s3 = None"
    by (rule life_cycle_run [OF life [THEN conjunct1] s ok(1) all]) blast
  obtain c2 c3 where c23: "ctx_run (cmac_act toy_lib) ?cx 0 c1 = Some c2" "wolfcrypt_cmac_free 0 c2 = Some c3"
    "filter (\<lambda>x. fst x = 0) (held c3) = map (Pair 0) [Cmac]" "filter (\<lambda>x. fst x \<noteq> 0) (held c3) = held (empty_heap 3 :: byte list cheap)"
    by (rule life_cycle_run [OF life [THEN conjunct2, THEN conjunct2, THEN conjunct2, THEN conjunct2, THEN conjunct1] c ok(2) all]) blast
  have 2: "held c3 = [(0, Cmac)]" using held_only [OF c23(3)] c23(4) by (simp add: empty_heap_def)
  obtain r2 r3 where 3: "ctx_run (rsa_act toy_rsa True True) ?rx 0 r1 = Some r2"
    "wolfcrypt_rsa_free (Some 0) r2 = Some r3" "same_heap (empty_heap 1) r3"
    by (rule life_cycle_run [OF life [THEN conjunct2, THEN conjunct2, THEN conjunct2, THEN conjunct2, THEN conjunct2, THEN conjunct2] r all ok(3)])
      blast
  show ?thesis using s c r 1 c23 2 3 by blast
qed

end
